(* ===== verification/Prelude.thy ===== *)
theory Prelude
  imports Main "HOL-Library.Word"
begin

text \<open>
  Shared vocabulary of the development: the C++ integer types as fixed-width words, the error
  monad in which fallible code is written, the collections of rewrite rules the component proofs
  use, and the generic facts about words, lists and byte order that more than one component needs.
\<close>

unbundle bit_operations_syntax

section \<open>Machine types\<close>

type_synonym u8 = "8 word"
type_synonym u16 = "16 word"
type_synonym u32 = "32 word"
type_synonym u64 = "64 word"

text \<open>A C++ \<open>int\<close>: 32 bits read as two's complement.\<close>
type_synonym i32 = "32 word"

text \<open>An IEEE double is carried as its 64-bit pattern.\<close>
type_synonym f64 = "64 word"

type_synonym bytes = "u8 list"

section \<open>Collections of rewrite rules\<close>

named_theorems ir_simps \<open>the opcode vocabulary\<close>
named_theorems codec_simps \<open>the binary container\<close>
named_theorems tw_simps \<open>the trace recorder\<close>
named_theorems sim_simps \<open>the simulator\<close>
named_theorems api_simps \<open>the recording interface\<close>
named_theorems probe_simps \<open>the probe layer\<close>

section \<open>The error monad\<close>

text \<open>
  The standard exceptions the library throws, the run-time faults C++ leaves undefined, and a loop
  that does not end.
\<close>

datatype cpp_error =
    InvalidArgument
  | OutOfRange
  | RuntimeError
  | AssertionFailed
  | NullDereference
  | OutOfBoundsAccess
  | DivisionByZero
  | LengthError
  | FilesystemError
  | BadAlloc
  | JsonError
  | Diverges

definition res_bind :: "'e + 'a \<Rightarrow> ('a \<Rightarrow> 'e + 'b) \<Rightarrow> 'e + 'b" where
  "res_bind m f = (case m of Inl e \<Rightarrow> Inl e | Inr x \<Rightarrow> f x)"

definition guard :: "bool \<Rightarrow> 'e \<Rightarrow> 'e + unit" where
  "guard b e = (if b then Inr () else Inl e)"

lemma res_bind_Inl [simp]: "res_bind (Inl e) f = Inl e"
  by (simp add: res_bind_def)

lemma res_bind_Inr [simp]: "res_bind (Inr x) f = f x"
  by (simp add: res_bind_def)

lemma res_bind_eq_Inr:
  "res_bind m f = Inr y \<longleftrightarrow> (\<exists>x. m = Inr x \<and> f x = Inr y)"
  by (cases m) auto

lemma res_bind_eq_Inl:
  "res_bind m f = Inl e \<longleftrightarrow> m = Inl e \<or> (\<exists>x. m = Inr x \<and> f x = Inl e)"
  by (cases m) auto

lemma guard_True [simp]: "guard True e = Inr ()"
  by (simp add: guard_def)

lemma guard_False [simp]: "guard False e = Inl e"
  by (simp add: guard_def)

lemma guard_eq_Inr [simp]: "guard b e = Inr u \<longleftrightarrow> b"
  by (simp add: guard_def)

lemma guard_eq_Inl [simp]: "guard b e = Inl e' \<longleftrightarrow> \<not> b \<and> e' = e"
  by (auto simp: guard_def)

text \<open>A loop that fills a vector and stops at the first error.\<close>

fun map_res :: "('a \<Rightarrow> 'e + 'b) \<Rightarrow> 'a list \<Rightarrow> 'e + 'b list" where
  "map_res f [] = Inr []"
| "map_res f (x # xs) = res_bind (f x) (\<lambda>y. res_bind (map_res f xs) (\<lambda>ys. Inr (y # ys)))"

lemma map_res_Inr: "(\<And>x. x \<in> set xs \<Longrightarrow> f x = Inr (g x)) \<Longrightarrow> map_res f xs = Inr (map g xs)"
  by (induction xs) auto

lemma map_res_error:
  "(\<And>x. x \<in> set xs \<Longrightarrow> (\<exists>y. f x = Inr y) \<or> f x = Inl e) \<Longrightarrow> (\<exists>x \<in> set xs. f x = Inl e) \<Longrightarrow>
     map_res f xs = Inl e"
proof (induction xs)
  case (Cons x xs)
  show ?case
  proof (cases "f x = Inl e")
    case False
    then obtain y where "f x = Inr y" using Cons.prems by auto
    moreover have "map_res f xs = Inl e" using Cons False by auto
    ultimately show ?thesis by simp
  qed simp
qed simp

lemma map_res_length: "map_res f xs = Inr ys \<Longrightarrow> length ys = length xs"
  by (induction xs arbitrary: ys) (auto simp: res_bind_eq_Inr)

lemma map_res_map: "map_res f (map g xs) = map_res (\<lambda>x. f (g x)) xs"
  by (induction xs) simp_all

lemma map_res_upt:
  assumes "\<And>i. i < n \<Longrightarrow> \<exists>y. f i = Inr y \<and> P i y"
  shows "\<exists>ys. map_res f [0..<n] = Inr ys \<and> length ys = n \<and> (\<forall>i<n. P i (ys ! i))"
proof -
  obtain g where g: "\<And>i. i < n \<Longrightarrow> f i = Inr (g i) \<and> P i (g i)" using assms by metis
  then have "map_res f [0..<n] = Inr (map g [0..<n])" by (intro map_res_Inr) auto
  then show ?thesis using g by auto
qed

section \<open>Words\<close>

lemma unat_lt_2p: "unat (w :: 'a::len word) < 2 ^ LENGTH('a)"
  by (rule unsigned_less)

lemma unat_of_nat_small: "n < 2 ^ LENGTH('a) \<Longrightarrow> unat (of_nat n :: 'a::len word) = n"
  by (simp add: unat_of_nat take_bit_nat_eq_self)

lemma ucast_scast_id: "ucast (scast (x :: i32) :: u64) = x"
  by (rule bit_word_eqI) (simp add: bit_ucast_iff bit_signed_iff)

lemma scast_zero_iff: "(scast (x :: i32) :: u64) = 0 \<longleftrightarrow> x = 0"
proof
  assume "(scast x :: u64) = 0"
  then have "ucast (scast x :: u64) = (0 :: i32)" by simp
  then show "x = 0" by (simp add: ucast_scast_id)
qed simp

lemma byte_and_255: "(w AND 255 :: 'a::len word) = take_bit 8 w"
  by (simp add: take_bit_eq_mask mask_eq_exp_minus_1)

lemma unat_drop_bit: "unat (drop_bit n (w :: 'a::len word)) = unat w div 2 ^ n"
  using drop_bit_eq_div [of n "unat w"] unat_drop_bit_eq [of n w] by simp

lemma drop_bit_mono: "(a :: 'a::len word) \<le> b \<Longrightarrow> drop_bit n a \<le> drop_bit n b"
  by (simp only: word_le_nat_alt unat_drop_bit div_le_mono)

lemma take_bit_small: "unat (w :: 'a::len word) < 2 ^ n \<Longrightarrow> take_bit n w = w"
  by (simp only: word_unat_eq_iff unsigned_take_bit_eq take_bit_nat_eq_self)

lemma unat_ucast_up:
  "LENGTH('a) \<le> LENGTH('b) \<Longrightarrow> unat (ucast (w :: 'a::len word) :: 'b::len word) = unat w"
proof -
  assume "LENGTH('a) \<le> LENGTH('b)"
  then have "unat w < 2 ^ LENGTH('b)"
    using unat_lt_2p [of w] by (metis less_le_trans one_le_numeral power_increasing)
  then show ?thesis by (simp only: unsigned_ucast_eq take_bit_nat_eq_self)
qed

lemma ucast_ucast_32 [simp]: "ucast (ucast (a :: u32) :: u64) = a"
  by (rule bit_word_eqI) (simp add: bit_ucast_iff)

lemma word_zero_iff_bits: "(w :: 'a::len word) = 0 \<longleftrightarrow> (\<forall>k < LENGTH('a). \<not> bit w k)"
  by (auto intro: bit_word_eqI)

text \<open>The distance to the next multiple of eight.\<close>

lemma pad_distance:
  "(n :: nat) mod 8 \<noteq> 0 \<Longrightarrow> (8 - n mod 8) mod 8 = Suc ((8 - Suc n mod 8) mod 8)"
proof -
  assume "n mod 8 \<noteq> 0"
  then show ?thesis by (cases "n mod 8 = 7") (auto simp: mod_Suc)
qed

section \<open>Byte order\<close>

text \<open>
  \<open>le_bytes v\<close> lists the bytes of \<open>v\<close> from the least significant one; \<open>word_of_le_bytes\<close> is its
  inverse.  \<open>mem_bytes\<close> is how the host keeps the value in memory, \<open>mem_word\<close> how it reads one
  back; the flag says whether the host is little-endian.
\<close>

definition sizeof :: "'a::len word itself \<Rightarrow> nat" where
  "sizeof T = LENGTH('a) div 8"

definition le_bytes :: "'a::len word \<Rightarrow> bytes" where
  "le_bytes v = map (\<lambda>i. ucast (drop_bit (8 * i) v)) [0..<LENGTH('a) div 8]"

fun word_of_le_bytes :: "bytes \<Rightarrow> 'a::len word" where
  "word_of_le_bytes [] = 0"
| "word_of_le_bytes (b # bs) = ucast b OR push_bit 8 (word_of_le_bytes bs)"

definition mem_bytes :: "bool \<Rightarrow> 'a::len word \<Rightarrow> bytes" where
  "mem_bytes little v = (if little then le_bytes v else rev (le_bytes v))"

definition mem_word :: "bool \<Rightarrow> bytes \<Rightarrow> 'a::len word" where
  "mem_word little bs = word_of_le_bytes (if little then bs else rev bs)"

lemma length_le_bytes [simp]: "length (le_bytes (v :: 'a::len word)) = LENGTH('a) div 8"
  by (simp add: le_bytes_def)

lemma bit_word_of_le_bytes:
  "bit (word_of_le_bytes bs :: 'a::len word) k \<longleftrightarrow>
     k < LENGTH('a) \<and> k div 8 < length bs \<and> bit (bs ! (k div 8)) (k mod 8)"
proof (induction bs arbitrary: k)
  case Nil
  then show ?case by simp
next
  case (Cons b bs)
  show ?case
  proof (cases "k < 8")
    case True
    then show ?thesis
      by (auto simp: bit_or_iff bit_ucast_iff bit_push_bit_iff dest: bit_imp_le_length)
  next
    case False
    then have "k div 8 = Suc ((k - 8) div 8)" "(k - 8) mod 8 = k mod 8"
      by (simp_all add: le_div_geq le_mod_geq)
    moreover from False have "\<not> bit b k"
      using bit_imp_le_length [of b k] by auto
    ultimately show ?thesis
      using False Cons.IH [of "k - 8"]
      by (auto simp: bit_or_iff bit_ucast_iff bit_push_bit_iff)
  qed
qed

lemma word_of_le_bytes_le_bytes:
  assumes "LENGTH('a) mod 8 = 0"
  shows "word_of_le_bytes (le_bytes v) = (v :: 'a::len word)"
proof (rule bit_word_eqI)
  fix k assume k: "k < LENGTH('a)"
  then have "k div 8 < LENGTH('a) div 8"
    using assms by (metis mod_eq_0_iff_dvd dvd_div_mult_self less_mult_imp_div_less)
  then show "bit (word_of_le_bytes (le_bytes v) :: 'a word) k = bit v k"
    using k by (simp add: bit_word_of_le_bytes le_bytes_def bit_ucast_iff bit_drop_bit_eq)
qed

lemma bit_le_bytes_nth:
  "i < LENGTH('a) div 8 \<Longrightarrow>
     bit (le_bytes (v :: 'a::len word) ! i) k \<longleftrightarrow> k < 8 \<and> bit v (8 * i + k)"
  by (auto simp: le_bytes_def bit_ucast_iff bit_drop_bit_eq)

lemma mem_bytes_length [simp]:
  "length (mem_bytes little (v :: 'a::len word)) = LENGTH('a) div 8"
  by (simp add: mem_bytes_def)

end
