(* ===== verification/FhetchIr.thy ===== *)
theory FhetchIr
  imports Prelude
begin

text \<open>
  The in-memory form of a FHETCH program (\<open>include/niobium/fhetch_ir.h\<close>): the opcode vocabulary
  and the accessors derived from its one table, the instruction and program records, and the
  facts that make the table a vocabulary: mnemonics and opcodes determine each other and every
  opcode but the illegal one has a row.
\<close>

section \<open>Opcodes\<close>

text \<open>
  \<open>FhOpcode\<close> has \<open>uint8_t\<close> as its underlying type and a binary reader casts any byte to it, so an
  opcode is a byte and the enumerators are names for some of them.
\<close>

type_synonym FhOpcode = u8

abbreviation (input) FH_ILL :: FhOpcode where "FH_ILL \<equiv> 0"
abbreviation (input) FH_SR_ADDP :: FhOpcode where "FH_SR_ADDP \<equiv> 1"
abbreviation (input) FH_SR_SUBP :: FhOpcode where "FH_SR_SUBP \<equiv> 2"
abbreviation (input) FH_SR_MULP :: FhOpcode where "FH_SR_MULP \<equiv> 3"
abbreviation (input) FH_SR_ADDPS :: FhOpcode where "FH_SR_ADDPS \<equiv> 4"
abbreviation (input) FH_SR_SUBPS :: FhOpcode where "FH_SR_SUBPS \<equiv> 5"
abbreviation (input) FH_SR_MULPS :: FhOpcode where "FH_SR_MULPS \<equiv> 6"
abbreviation (input) FH_SR_ADDPS_COEFF :: FhOpcode where "FH_SR_ADDPS_COEFF \<equiv> 7"
abbreviation (input) FH_SR_SUBPS_COEFF :: FhOpcode where "FH_SR_SUBPS_COEFF \<equiv> 8"
abbreviation (input) FH_SR_NEGP :: FhOpcode where "FH_SR_NEGP \<equiv> 9"
abbreviation (input) FH_SR_NTT :: FhOpcode where "FH_SR_NTT \<equiv> 10"
abbreviation (input) FH_SR_INTT :: FhOpcode where "FH_SR_INTT \<equiv> 11"
abbreviation (input) FH_SR_PERMUTE :: FhOpcode where "FH_SR_PERMUTE \<equiv> 12"
abbreviation (input) FH_SR_AUTOMORPH_EVAL :: FhOpcode where "FH_SR_AUTOMORPH_EVAL \<equiv> 13"
abbreviation (input) FH_SR_AUTOMORPH_COEFF :: FhOpcode where "FH_SR_AUTOMORPH_COEFF \<equiv> 14"
abbreviation (input) FH_SR_ROT_AUTOMORPH_COEFF :: FhOpcode where "FH_SR_ROT_AUTOMORPH_COEFF \<equiv> 15"
abbreviation (input) FH_SR_ADDP_NI :: FhOpcode where "FH_SR_ADDP_NI \<equiv> 16"
abbreviation (input) FH_SR_SUBP_NI :: FhOpcode where "FH_SR_SUBP_NI \<equiv> 17"
abbreviation (input) FH_SR_MULP_NI :: FhOpcode where "FH_SR_MULP_NI \<equiv> 18"
abbreviation (input) FH_SR_ADDPS_NI :: FhOpcode where "FH_SR_ADDPS_NI \<equiv> 19"
abbreviation (input) FH_SR_SUBPS_NI :: FhOpcode where "FH_SR_SUBPS_NI \<equiv> 20"
abbreviation (input) FH_SR_MULPS_NI :: FhOpcode where "FH_SR_MULPS_NI \<equiv> 21"
abbreviation (input) FH_SR_ADDPS_COEFF_NI :: FhOpcode where "FH_SR_ADDPS_COEFF_NI \<equiv> 22"
abbreviation (input) FH_SR_SUBPS_COEFF_NI :: FhOpcode where "FH_SR_SUBPS_COEFF_NI \<equiv> 23"
abbreviation (input) FH_SR_NEGP_NI :: FhOpcode where "FH_SR_NEGP_NI \<equiv> 24"
abbreviation (input) FH_SR_FT :: FhOpcode where "FH_SR_FT \<equiv> 25"
abbreviation (input) FH_SR_IFT :: FhOpcode where "FH_SR_IFT \<equiv> 26"
abbreviation (input) FH_HALT :: FhOpcode where "FH_HALT \<equiv> 27"

datatype OperandForm =
    FormNone
  | PolyPoly
  | PolyPolyNI
  | PolyScalar
  | PolyScalarNI
  | UnaryMod
  | UnaryNoMod
  | Ntt
  | AutomorphEval
  | AutomorphCoeff
  | RotAutomorphCoeff

record OpcodeInfo =
  oi_opcode :: FhOpcode
  oi_mnemonic :: string
  oi_form :: OperandForm

definition opcode_row :: "FhOpcode \<Rightarrow> string \<Rightarrow> OperandForm \<Rightarrow> OpcodeInfo" where
  "opcode_row c m f = \<lparr>oi_opcode = c, oi_mnemonic = m, oi_form = f\<rparr>"

definition kOpcodeTable :: "OpcodeInfo list" where
  "kOpcodeTable =
    [opcode_row FH_SR_ADDP ''sr_addp'' PolyPoly,
     opcode_row FH_SR_SUBP ''sr_subp'' PolyPoly,
     opcode_row FH_SR_MULP ''sr_mulp'' PolyPoly,
     opcode_row FH_SR_ADDPS ''sr_addps'' PolyScalar,
     opcode_row FH_SR_SUBPS ''sr_subps'' PolyScalar,
     opcode_row FH_SR_MULPS ''sr_mulps'' PolyScalar,
     opcode_row FH_SR_ADDPS_COEFF ''sr_addps_coeff'' PolyScalar,
     opcode_row FH_SR_SUBPS_COEFF ''sr_subps_coeff'' PolyScalar,
     opcode_row FH_SR_NEGP ''sr_negp'' UnaryMod,
     opcode_row FH_SR_NTT ''sr_ntt'' Ntt,
     opcode_row FH_SR_INTT ''sr_intt'' Ntt,
     opcode_row FH_SR_PERMUTE ''sr_permute'' UnaryMod,
     opcode_row FH_SR_AUTOMORPH_EVAL ''sr_automorph_eval'' AutomorphEval,
     opcode_row FH_SR_AUTOMORPH_COEFF ''sr_automorph_coeff'' AutomorphCoeff,
     opcode_row FH_SR_ROT_AUTOMORPH_COEFF ''sr_rot_automorph_coeff'' RotAutomorphCoeff,
     opcode_row FH_SR_ADDP_NI ''sr_addp_ni'' PolyPolyNI,
     opcode_row FH_SR_SUBP_NI ''sr_subp_ni'' PolyPolyNI,
     opcode_row FH_SR_MULP_NI ''sr_mulp_ni'' PolyPolyNI,
     opcode_row FH_SR_ADDPS_NI ''sr_addps_ni'' PolyScalarNI,
     opcode_row FH_SR_SUBPS_NI ''sr_subps_ni'' PolyScalarNI,
     opcode_row FH_SR_MULPS_NI ''sr_mulps_ni'' PolyScalarNI,
     opcode_row FH_SR_ADDPS_COEFF_NI ''sr_addps_coeff_ni'' PolyScalarNI,
     opcode_row FH_SR_SUBPS_COEFF_NI ''sr_subps_coeff_ni'' PolyScalarNI,
     opcode_row FH_SR_NEGP_NI ''sr_negp_ni'' UnaryNoMod,
     opcode_row FH_SR_FT ''sr_ft'' UnaryNoMod,
     opcode_row FH_SR_IFT ''sr_ift'' UnaryNoMod,
     opcode_row FH_HALT ''halt'' FormNone]"

definition kOpcodeCount :: nat where
  "kOpcodeCount = length kOpcodeTable"

text \<open>The range-for loops of the accessors return the first matching row.\<close>

definition fh_opcode_info :: "u8 \<Rightarrow> OpcodeInfo option" where
  "fh_opcode_info c = find (\<lambda>row. oi_opcode row = c) kOpcodeTable"

definition fh_opcode_mnemonic :: "u8 \<Rightarrow> string option" where
  "fh_opcode_mnemonic c = map_option oi_mnemonic (fh_opcode_info c)"

definition fh_opcode_from_mnemonic :: "string \<Rightarrow> FhOpcode option" where
  "fh_opcode_from_mnemonic m = map_option oi_opcode (find (\<lambda>row. m = oi_mnemonic row) kOpcodeTable)"

definition fh_operand_form :: "u8 \<Rightarrow> OperandForm" where
  "fh_operand_form c = (case fh_opcode_info c of Some info \<Rightarrow> oi_form info | None \<Rightarrow> FormNone)"

definition fh_opcode_has_operands :: "u8 \<Rightarrow> bool" where
  "fh_opcode_has_operands c =
     (if c = FH_ILL then False
      else case fh_opcode_info c of Some info \<Rightarrow> oi_form info \<noteq> FormNone | None \<Rightarrow> True)"

section \<open>Instructions and programs\<close>

text \<open>
  Absent operands are \<open>None\<close>.  \<open>fp_immediate\<close> holds the bit pattern of the double.
\<close>

record Instruction =
  opcode :: FhOpcode
  dest :: u32
  src1 :: u32
  src2 :: u32
  immediate :: "u64 option"
  fp_immediate :: "f64 option"
  modulus :: "u64 option"
  modulus_is_literal :: bool
  omega :: "u64 option"
  mask_op :: "u64 option"
  logn :: "u8 option"
  k_op :: "u64 option"
  offset :: "u64 option"
  line_number :: i32

text \<open>The default-initialised instruction.\<close>

definition Instruction_init :: Instruction where
  "Instruction_init =
     \<lparr>opcode = FH_ILL, dest = 0, src1 = 0, src2 = 0, immediate = None, fp_immediate = None,
      modulus = None, modulus_is_literal = False, omega = None, mask_op = None, logn = None,
      k_op = None, offset = None, line_number = 0\<rparr>"

text \<open>
  Equality of doubles as C++ has it: a NaN equals nothing, and the two zeros are equal.
  \<open>std::optional\<close> compares the contents when both sides hold one.
\<close>

definition f64_is_nan :: "f64 \<Rightarrow> bool" where
  "f64_is_nan b \<longleftrightarrow> take_bit 11 (drop_bit 52 b) = 2047 \<and> take_bit 52 b \<noteq> 0"

definition f64_eq :: "f64 \<Rightarrow> f64 \<Rightarrow> bool" where
  "f64_eq a b \<longleftrightarrow> \<not> f64_is_nan a \<and> \<not> f64_is_nan b \<and>
     (a = b \<or> (take_bit 63 a = 0 \<and> take_bit 63 b = 0))"

fun opt_f64_eq :: "f64 option \<Rightarrow> f64 option \<Rightarrow> bool" where
  "opt_f64_eq None None = True"
| "opt_f64_eq (Some a) (Some b) = f64_eq a b"
| "opt_f64_eq _ _ = False"

definition inst_eq :: "Instruction \<Rightarrow> Instruction \<Rightarrow> bool" where
  "inst_eq a b \<longleftrightarrow>
     opcode a = opcode b \<and> dest a = dest b \<and> src1 a = src1 b \<and>
     src2 a = src2 b \<and> immediate a = immediate b \<and>
     opt_f64_eq (fp_immediate a) (fp_immediate b) \<and>
     modulus a = modulus b \<and>
     modulus_is_literal a = modulus_is_literal b \<and>
     omega a = omega b \<and> mask_op a = mask_op b \<and> logn a = logn b \<and>
     k_op a = k_op b \<and> offset a = offset b"

definition kMaxAddress :: u64 where
  "kMaxAddress = 0xFFFFFFFF"

definition kMaxModulusIndex :: u64 where
  "kMaxModulusIndex = 255"

record TraceMetadata =
  program_name :: string
  program_version :: string
  trace_file :: string
  description :: string
  source_file :: string
  source_line :: i32
  build_timestamp :: string
  instruction_count :: i32
  generated_timestamp :: u64
  scheme :: string
  ring_dimension :: i32
  multiplicative_depth :: i32
  security_level :: string
  modulus_chain :: "u64 list"
  modulus_chain_length :: i32

definition TraceMetadata_init :: TraceMetadata where
  "TraceMetadata_init =
     \<lparr>program_name = [], program_version = [], trace_file = [], description = [],
      source_file = [], source_line = 0, build_timestamp = [], instruction_count = 0,
      generated_timestamp = 0, scheme = [], ring_dimension = 0, multiplicative_depth = 0,
      security_level = [], modulus_chain = [], modulus_chain_length = 0\<rparr>"

record Annotation =
  an_line_number :: i32
  an_text :: string
  after_instruction :: nat

record Program =
  metadata :: TraceMetadata
  modulus_table :: "u64 list"
  instructions :: "Instruction list"
  annotations :: "Annotation list"

definition Program_init :: Program where
  "Program_init =
     \<lparr>metadata = TraceMetadata_init, modulus_table = [], instructions = [], annotations = []\<rparr>"

section \<open>The table is a vocabulary\<close>

lemma kOpcodeCount_eq_halt: "of_nat kOpcodeCount = FH_HALT"
  by (simp add: kOpcodeCount_def kOpcodeTable_def)

lemmas table_unfold = kOpcodeTable_def opcode_row_def

lemma table_opcodes: "map oi_opcode kOpcodeTable = map word_of_nat [1..<28]"
  by (simp add: table_unfold upt_rec)

lemma table_mnemonics_distinct: "distinct (map oi_mnemonic kOpcodeTable)"
  by (simp add: table_unfold)

lemma table_opcodes_distinct: "distinct (map oi_opcode kOpcodeTable)"
  by (simp add: table_unfold)

lemma fh_operand_form_simps [simp, ir_simps]:
  "fh_operand_form 0 = FormNone"
  "fh_operand_form 1 = PolyPoly"
  "fh_operand_form 2 = PolyPoly"
  "fh_operand_form 3 = PolyPoly"
  "fh_operand_form 4 = PolyScalar"
  "fh_operand_form 5 = PolyScalar"
  "fh_operand_form 6 = PolyScalar"
  "fh_operand_form 7 = PolyScalar"
  "fh_operand_form 8 = PolyScalar"
  "fh_operand_form 9 = UnaryMod"
  "fh_operand_form 10 = Ntt"
  "fh_operand_form 11 = Ntt"
  "fh_operand_form 12 = UnaryMod"
  "fh_operand_form 13 = AutomorphEval"
  "fh_operand_form 14 = AutomorphCoeff"
  "fh_operand_form 15 = RotAutomorphCoeff"
  "fh_operand_form 16 = PolyPolyNI"
  "fh_operand_form 17 = PolyPolyNI"
  "fh_operand_form 18 = PolyPolyNI"
  "fh_operand_form 19 = PolyScalarNI"
  "fh_operand_form 20 = PolyScalarNI"
  "fh_operand_form 21 = PolyScalarNI"
  "fh_operand_form 22 = PolyScalarNI"
  "fh_operand_form 23 = PolyScalarNI"
  "fh_operand_form 24 = UnaryNoMod"
  "fh_operand_form 25 = UnaryNoMod"
  "fh_operand_form 26 = UnaryNoMod"
  "fh_operand_form 27 = FormNone"
  by (simp_all add: fh_operand_form_def fh_opcode_info_def table_unfold)

text \<open>Lookup in a table with distinct keys is membership.\<close>

lemma find_key_iff:
  assumes "distinct (map f xs)"
  shows "find (\<lambda>r. f r = k) xs = Some r \<longleftrightarrow> r \<in> set xs \<and> f r = k"
  using assms by (induction xs) (auto simp: image_iff)

lemma fh_opcode_info_iff:
  "fh_opcode_info c = Some r \<longleftrightarrow> r \<in> set kOpcodeTable \<and> oi_opcode r = c"
  unfolding fh_opcode_info_def by (rule find_key_iff [OF table_opcodes_distinct])

lemma fh_opcode_from_mnemonic_iff:
  "fh_opcode_from_mnemonic m = Some c \<longleftrightarrow>
     (\<exists>r \<in> set kOpcodeTable. oi_mnemonic r = m \<and> oi_opcode r = c)"
proof -
  have "find (\<lambda>row. m = oi_mnemonic row) kOpcodeTable = find (\<lambda>row. oi_mnemonic row = m) kOpcodeTable"
    by (rule arg_cong [where f = "\<lambda>P. find P kOpcodeTable"]) auto
  then show ?thesis
    unfolding fh_opcode_from_mnemonic_def
    by (auto simp: find_key_iff [OF table_mnemonics_distinct])
qed

lemma fh_opcode_mnemonic_iff:
  "fh_opcode_mnemonic c = Some m \<longleftrightarrow>
     (\<exists>r \<in> set kOpcodeTable. oi_mnemonic r = m \<and> oi_opcode r = c)"
  by (auto simp: fh_opcode_mnemonic_def fh_opcode_info_iff)

lemma opcode_assigned_iff:
  "fh_opcode_info c \<noteq> None \<longleftrightarrow> 1 \<le> c \<and> c \<le> 27"
proof -
  have "fh_opcode_info c \<noteq> None \<longleftrightarrow> c \<in> set (map oi_opcode kOpcodeTable)"
    using fh_opcode_info_iff [of c] by (auto simp: image_iff)
  also have "\<dots> \<longleftrightarrow> c \<in> word_of_nat ` {1..<28}"
    by (simp only: table_opcodes set_map set_upt)
  also have "\<dots> \<longleftrightarrow> 1 \<le> c \<and> c \<le> 27"
  proof
    assume "1 \<le> c \<and> c \<le> 27"
    then have "unat c \<in> {1..<28}" "c = word_of_nat (unat c)"
      by (auto simp: word_le_nat_alt)
    then show "c \<in> word_of_nat ` {1..<28}" by blast
  next
    assume "c \<in> word_of_nat ` {1..<28}"
    then show "1 \<le> c \<and> c \<le> 27"
      by (auto simp: word_le_nat_alt unat_of_nat_small)
  qed
  finally show ?thesis .
qed

lemma fh_operand_form_FormNone_iff:
  "fh_operand_form c = FormNone \<longleftrightarrow> c = FH_HALT \<or> fh_opcode_info c = None"
proof (cases "fh_opcode_info c")
  case None
  then show ?thesis by (simp add: fh_operand_form_def)
next
  case (Some r)
  then have r: "r \<in> set kOpcodeTable" "oi_opcode r = c"
    by (simp_all add: fh_opcode_info_iff)
  then have "oi_form r = FormNone \<longleftrightarrow> c = FH_HALT"
    by (auto simp: table_unfold)
  with Some show ?thesis by (simp add: fh_operand_form_def)
qed

lemma fh_opcode_has_operands_iff [ir_simps]:
  "fh_opcode_has_operands c \<longleftrightarrow> c \<noteq> FH_ILL \<and> c \<noteq> FH_HALT"
proof (cases "fh_opcode_info c")
  case None
  then show ?thesis
    using opcode_assigned_iff [of FH_HALT] by (auto simp: fh_opcode_has_operands_def)
next
  case (Some r)
  then show ?thesis
    using fh_operand_form_FormNone_iff [of c]
    by (auto simp: fh_opcode_has_operands_def fh_operand_form_def)
qed

section \<open>Properties of the vocabulary\<close>

text \<open>
  The mnemonic of an opcode and the opcode of a mnemonic are inverse to each other, so a
  reader and a writer driven by the one table agree on every token.
\<close>

theorem mnemonic_opcode_inverse:
  "fh_opcode_mnemonic c = Some m \<longleftrightarrow> fh_opcode_from_mnemonic m = Some c"
  by (simp add: fh_opcode_mnemonic_iff fh_opcode_from_mnemonic_iff)

text \<open>
  Every enumerator but the illegal one has a row (the static assertion of the header), no
  other byte has one, and the only bytes without the two mandatory operands are the illegal
  opcode and \<open>halt\<close>: a byte this build does not know is taken to have them.
\<close>

theorem opcode_table_complete:
  "of_nat kOpcodeCount = FH_HALT \<and>
   (fh_opcode_info c \<noteq> None \<longleftrightarrow> FH_SR_ADDP \<le> c \<and> c \<le> FH_HALT) \<and>
   (fh_opcode_has_operands c \<longleftrightarrow> c \<noteq> FH_ILL \<and> c \<noteq> FH_HALT)"
  using kOpcodeCount_eq_halt opcode_assigned_iff [of c] fh_opcode_has_operands_iff [of c] by blast

end
