(* ===== verification/TraceWriter.thy ===== *)
theory TraceWriter
  imports FhetchIr "HOL-Library.Sublist" "HOL-Library.Multiset"
begin

text \<open>
  The recorder behind the public interface (\<open>src/trace_writer.{h,cpp}\<close>): the recording and pause
  flags, the instruction and annotation lists and the modulus table with its index.  Each method
  holds the one mutex from its first line to its last, so a run of the recorder is a sequence of
  whole method calls; \<open>tw_op\<close> lists them and \<open>tw_run\<close> composes them.  \<open>write\<close>, which also needs the
  serializers, is in the theory of the trace files.
\<close>

section \<open>State and operations\<close>

datatype TraceFormat = Text | Binary | Both

record TraceWriter =
  tw_format :: TraceFormat
  tw_recording :: bool
  tw_paused :: bool
  tw_program_name :: string
  tw_program_version :: string
  tw_program_description :: string
  tw_source_file :: string
  tw_source_line :: i32
  tw_build_timestamp :: string
  tw_instructions :: "Instruction list"
  tw_annotations :: "Annotation list"
  tw_modulus_table :: "u64 list"
  tw_modulus_index :: "u64 \<rightharpoonup> u32"

definition COPY_MODULUS_INDEX :: u32 where
  "COPY_MODULUS_INDEX = 0"

definition COPY_MODULUS_VALUE :: u64 where
  "COPY_MODULUS_VALUE = 0xFFFFFFFFFFFFFFFF"

text \<open>The constructor, over the member initialisers of the class.\<close>

definition TraceWriter_ctor :: TraceWriter where
  "TraceWriter_ctor =
     \<lparr>tw_format = Text, tw_recording = False, tw_paused = False, tw_program_name = [],
      tw_program_version = [], tw_program_description = [], tw_source_file = [],
      tw_source_line = 0, tw_build_timestamp = [], tw_instructions = [], tw_annotations = [],
      tw_modulus_table = [COPY_MODULUS_VALUE],
      tw_modulus_index = [COPY_MODULUS_VALUE \<mapsto> COPY_MODULUS_INDEX]\<rparr>"

definition set_program_info :: "string \<Rightarrow> string \<Rightarrow> string \<Rightarrow> TraceWriter \<Rightarrow> TraceWriter" where
  "set_program_info nm vers desc t =
     t\<lparr>tw_program_name := nm, tw_program_version := vers, tw_program_description := desc\<rparr>"

definition set_source_info :: "string \<Rightarrow> i32 \<Rightarrow> string \<Rightarrow> TraceWriter \<Rightarrow> TraceWriter" where
  "set_source_info file line timestamp t =
     t\<lparr>tw_source_file := file, tw_source_line := line, tw_build_timestamp := timestamp\<rparr>"

definition set_trace_format :: "TraceFormat \<Rightarrow> TraceWriter \<Rightarrow> TraceWriter" where
  "set_trace_format fmt t = t\<lparr>tw_format := fmt\<rparr>"

definition start_recording :: "TraceWriter \<Rightarrow> TraceWriter" where
  "start_recording t = t\<lparr>tw_recording := True, tw_paused := False\<rparr>"

definition stop_recording :: "TraceWriter \<Rightarrow> TraceWriter" where
  "stop_recording t = t\<lparr>tw_recording := False, tw_paused := False\<rparr>"

definition pause_recording :: "TraceWriter \<Rightarrow> TraceWriter" where
  "pause_recording t = t\<lparr>tw_paused := True\<rparr>"

definition resume_recording :: "TraceWriter \<Rightarrow> TraceWriter" where
  "resume_recording t = t\<lparr>tw_paused := False\<rparr>"

definition register_modulus :: "u64 \<Rightarrow> TraceWriter \<Rightarrow> u32 \<times> TraceWriter" where
  "register_modulus q t =
     (case tw_modulus_index t q of
        Some idx \<Rightarrow> (idx, t)
      | None \<Rightarrow>
          let idx = of_nat (length (tw_modulus_table t)) in
          (idx, t\<lparr>tw_modulus_table := tw_modulus_table t @ [q],
                  tw_modulus_index := (tw_modulus_index t)(q \<mapsto> idx)\<rparr>))"

definition emit :: "Instruction \<Rightarrow> TraceWriter \<Rightarrow> TraceWriter" where
  "emit inst t =
     (if \<not> tw_recording t \<or> tw_paused t then t
      else
        let widest = max (max (ucast (dest inst)) (ucast (src1 inst))) (ucast (src2 inst)) in
        if widest > kMaxAddress then t
        else t\<lparr>tw_instructions := tw_instructions t @ [inst]\<rparr>)"

definition comment_line :: "string \<Rightarrow> TraceWriter \<Rightarrow> TraceWriter" where
  "comment_line text t =
     (if tw_recording t \<and> \<not> tw_paused t
      then t\<lparr>tw_annotations := tw_annotations t @
               [\<lparr>an_line_number = 0, an_text = text,
                 after_instruction = length (tw_instructions t)\<rparr>]\<rparr>
      else t)"

text \<open>
  The second loop of \<open>normalize_modulus_table_locked\<close>: \<open>new_index[q]\<close> is \<open>operator[]\<close>, which inserts a
  zero for a key that is absent.
\<close>

fun build_remap :: "u64 list \<Rightarrow> (u64 \<rightharpoonup> u32) \<Rightarrow> u32 list \<times> (u64 \<rightharpoonup> u32)" where
  "build_remap [] m = ([], m)"
| "build_remap (q # qs) m =
     (let (v, m') = (case m q of Some v \<Rightarrow> (v, m) | None \<Rightarrow> (0, m(q \<mapsto> 0)));
          (vs, m'') = build_remap qs m'
      in (v # vs, m''))"

definition new_index_of :: "u64 list \<Rightarrow> u64 \<rightharpoonup> u32" where
  "new_index_of regular =
     fold (\<lambda>i m. m(regular ! i \<mapsto> of_nat (i + 1))) [0..<length regular]
       [COPY_MODULUS_VALUE \<mapsto> COPY_MODULUS_INDEX]"

definition remap_instruction :: "u32 list \<Rightarrow> Instruction \<Rightarrow> Instruction" where
  "remap_instruction remap inst =
     (case modulus inst of
        None \<Rightarrow> inst
      | Some old_index \<Rightarrow>
          if modulus_is_literal inst then inst
          else if unat old_index < length remap
          then inst\<lparr>modulus := Some (ucast (remap ! unat old_index))\<rparr>
          else inst)"

definition normalize_modulus_table_locked :: "TraceWriter \<Rightarrow> TraceWriter" where
  "normalize_modulus_table_locked t =
     (if length (tw_modulus_table t) \<le> 1 then t
      else
        let regular = sort (drop 1 (tw_modulus_table t));
            (remap, new_index) = build_remap (tw_modulus_table t) (new_index_of regular)
        in t\<lparr>tw_modulus_table := take 1 (tw_modulus_table t) @ regular,
             tw_modulus_index := new_index,
             tw_instructions := map (remap_instruction remap) (tw_instructions t)\<rparr>)"

definition normalize_modulus_table :: "TraceWriter \<Rightarrow> TraceWriter" where
  "normalize_modulus_table t = normalize_modulus_table_locked t"

definition tw_clear :: "TraceWriter \<Rightarrow> TraceWriter" where
  "tw_clear t =
     t\<lparr>tw_instructions := [], tw_annotations := [], tw_modulus_table := [COPY_MODULUS_VALUE],
       tw_modulus_index := [COPY_MODULUS_VALUE \<mapsto> COPY_MODULUS_INDEX]\<rparr>"

section \<open>The invariant\<close>

text \<open>
  The sentinel is first, no modulus is listed twice, and the index is the inverse of the table.
\<close>

definition table_ok :: "u64 list \<Rightarrow> (u64 \<rightharpoonup> u32) \<Rightarrow> bool" where
  "table_ok tab idx \<longleftrightarrow>
     tab \<noteq> [] \<and> hd tab = COPY_MODULUS_VALUE \<and> distinct tab \<and> length tab \<le> 2 ^ 32 \<and>
     dom idx = set tab \<and> (\<forall>i < length tab. idx (tab ! i) = Some (of_nat i))"

definition annotations_ok :: "TraceWriter \<Rightarrow> bool" where
  "annotations_ok t \<longleftrightarrow>
     sorted (map after_instruction (tw_annotations t)) \<and>
     (\<forall>a \<in> set (tw_annotations t). after_instruction a \<le> length (tw_instructions t))"

definition tw_inv :: "TraceWriter \<Rightarrow> bool" where
  "tw_inv t \<longleftrightarrow> table_ok (tw_modulus_table t) (tw_modulus_index t) \<and> annotations_ok t"

lemma table_ok_init: "table_ok [COPY_MODULUS_VALUE] [COPY_MODULUS_VALUE \<mapsto> COPY_MODULUS_INDEX]"
  by (simp add: table_ok_def COPY_MODULUS_INDEX_def)

lemma table_ok_lookup:
  assumes "table_ok tab idx"
  shows "idx q = Some i \<longleftrightarrow> unat i < length tab \<and> tab ! unat i = q"
proof
  assume s: "idx q = Some i"
  then have "q \<in> set tab" using assms by (auto simp: table_ok_def dom_def)
  then obtain j where j: "j < length tab" "tab ! j = q" by (metis in_set_conv_nth)
  then have "i = of_nat j" "j < 2 ^ 32" using assms s by (auto simp: table_ok_def)
  then show "unat i < length tab \<and> tab ! unat i = q" using j by (simp add: unat_of_nat_small)
next
  assume "unat i < length tab \<and> tab ! unat i = q"
  then show "idx q = Some i" using assms by (auto simp: table_ok_def)
qed

lemma table_ok_snoc:
  assumes ok: "table_ok tab idx" and "q \<notin> set tab" and "length tab < 2 ^ 32"
  shows "table_ok (tab @ [q]) (idx(q \<mapsto> of_nat (length tab)))"
  using assms by (auto simp: table_ok_def nth_append less_Suc_eq)

lemma register_modulus_cases:
  assumes "table_ok (tw_modulus_table t) (tw_modulus_index t)"
  obtains (known) i where "register_modulus q t = (i, t)" "q \<in> set (tw_modulus_table t)"
      "unat i < length (tw_modulus_table t)" "tw_modulus_table t ! unat i = q"
  | (fresh) "q \<notin> set (tw_modulus_table t)" "tw_modulus_index t q = None"
proof (cases "tw_modulus_index t q")
  case None
  then have "q \<notin> dom (tw_modulus_index t)" by auto
  then show thesis using assms None fresh by (simp add: table_ok_def)
next
  case (Some i)
  then show thesis
    using known [of i] table_ok_lookup [OF assms, of q i] by (auto simp: register_modulus_def)
qed

text \<open>What registering does to a table with room for one more.\<close>

lemma register_modulus_spec:
  assumes ok: "table_ok (tw_modulus_table t) (tw_modulus_index t)"
    and room: "length (tw_modulus_table t) < 2 ^ 32"
    and reg: "register_modulus q t = (i, t')"
  shows "table_ok (tw_modulus_table t') (tw_modulus_index t') \<and>
    unat i < length (tw_modulus_table t') \<and> tw_modulus_table t' ! unat i = q \<and>
    prefix (tw_modulus_table t) (tw_modulus_table t') \<and>
    length (tw_modulus_table t') \<le> length (tw_modulus_table t) + 1"
  using ok
proof (cases rule: register_modulus_cases [where q = q])
  case (known j)
  then show ?thesis using reg ok by simp
next
  case fresh
  then show ?thesis
    using reg room table_ok_snoc [OF ok]
    by (auto simp: register_modulus_def Let_def unat_of_nat_small nth_append)
qed

lemma register_modulus_frame:
  "register_modulus q t = (i, t') \<Longrightarrow>
     tw_instructions t' = tw_instructions t \<and> tw_annotations t' = tw_annotations t \<and>
     tw_recording t' = tw_recording t \<and> tw_paused t' = tw_paused t"
  by (auto simp: register_modulus_def Let_def split: option.splits)

section \<open>Recording\<close>

lemma address_fits: "max (max (ucast (a :: u32)) (ucast (b :: u32))) (ucast (c :: u32)) \<le> kMaxAddress"
proof -
  have "(ucast (x :: u32) :: u64) \<le> kMaxAddress" for x
  proof -
    have "unat (ucast x :: u64) = unat x" by (rule unat_ucast_up) simp
    then show ?thesis using unat_lt_2p [of x] by (simp add: word_le_nat_alt kMaxAddress_def)
  qed
  then show ?thesis by simp
qed

lemma emit_eq:
  "emit inst t =
     (if tw_recording t \<and> \<not> tw_paused t then t\<lparr>tw_instructions := tw_instructions t @ [inst]\<rparr> else t)"
  using address_fits [of "dest inst" "src1 inst" "src2 inst"] by (simp add: emit_def Let_def not_less)

section \<open>Normalization\<close>

lemma new_index_fold:
  assumes "distinct xs" and "n \<le> length xs"
  shows "i < n \<Longrightarrow> fold (\<lambda>i m. m(xs ! i \<mapsto> of_nat (i + 1))) [0..<n] m0 (xs ! i) = Some (of_nat (i + 1))"
    and "q \<notin> set (take n xs) \<Longrightarrow>
      fold (\<lambda>i m. m(xs ! i \<mapsto> of_nat (i + 1))) [0..<n] m0 q = m0 q"
  using assms(2)
proof (induction n)
  case (Suc n)
  { case 1
    then show ?case
      using Suc assms(1) by (auto simp: less_Suc_eq nth_eq_iff_index_eq)
  next
    case 2
    then show ?case using Suc by (auto simp: take_Suc_conv_app_nth)
  }
qed simp_all

lemma table_ok_new_index:
  assumes "distinct (COPY_MODULUS_VALUE # regular)" and "length regular < 2 ^ 32"
  shows "table_ok (COPY_MODULUS_VALUE # regular) (new_index_of regular)"
proof -
  let ?m = "new_index_of regular"
  have d: "distinct regular" "COPY_MODULUS_VALUE \<notin> set regular" using assms(1) by simp_all
  have at: "?m (regular ! i) = Some (of_nat (i + 1))" if "i < length regular" for i
    unfolding new_index_of_def by (rule new_index_fold(1) [OF d(1) le_refl that])
  have off: "?m q = [COPY_MODULUS_VALUE \<mapsto> COPY_MODULUS_INDEX] q" if "q \<notin> set regular" for q
    unfolding new_index_of_def by (rule new_index_fold(2) [OF d(1) le_refl]) (simp add: that)
  have "dom ?m = set (COPY_MODULUS_VALUE # regular)"
  proof (rule set_eqI)
    fix q
    show "q \<in> dom ?m \<longleftrightarrow> q \<in> set (COPY_MODULUS_VALUE # regular)"
      using at off by (cases "q \<in> set regular") (auto simp: in_set_conv_nth dom_def)
  qed
  then show ?thesis
    using assms at off [OF d(2)]
    by (auto simp: table_ok_def nth_Cons' COPY_MODULUS_INDEX_def of_nat_diff)
qed

lemma build_remap_present:
  "set qs \<subseteq> dom m \<Longrightarrow> build_remap qs m = (map (the \<circ> m) qs, m)"
proof (induction qs)
  case (Cons q qs)
  then obtain v where "m q = Some v" by auto
  with Cons show ?case by simp
qed simp

lemma len_num32_le_64: "LENGTH(32) \<le> LENGTH(64)"
  by simp

text \<open>The modulus an instruction computes in, given the table its index points into.\<close>

definition resolved_modulus :: "u64 list \<Rightarrow> Instruction \<Rightarrow> u64 option" where
  "resolved_modulus tab inst =
     (case modulus inst of
        None \<Rightarrow> None
      | Some m \<Rightarrow> if modulus_is_literal inst then Some m
                  else if unat m < length tab then Some (tab ! unat m) else None)"

definition sorted_table :: "u64 list \<Rightarrow> u64 list" where
  "sorted_table tab = take 1 tab @ sort (drop 1 tab)"

lemma mset_sorted_table [simp]: "mset (sorted_table tab) = mset tab"
  by (metis append_take_drop_id mset_append mset_sort sorted_table_def)

lemma length_sorted_table [simp]: "length (sorted_table tab) = length tab"
  by (metis mset_sorted_table size_mset)

lemma set_sorted_table [simp]: "set (sorted_table tab) = set tab"
  by (metis mset_sorted_table set_mset_mset)

lemma sorted_table_short: "length tab \<le> 1 \<Longrightarrow> sorted_table tab = tab"
  by (cases tab) (auto simp: sorted_table_def)

lemma sorted_table_idem [simp]: "sorted_table (sorted_table tab) = sorted_table tab"
  by (cases tab) (auto simp: sorted_table_def sort_key_id_if_sorted)

lemma remap_instruction_id:
  assumes "\<And>i. i < length remap \<Longrightarrow> unat (remap ! i) = i"
  shows "remap_instruction remap inst = inst"
proof -
  have "ucast (remap ! unat m) = m" if "unat m < length remap" for m :: u64
    using assms [OF that] by (metis unat_ucast_up word_unat_eq_iff len_num32_le_64)
  then show ?thesis by (cases inst) (auto simp: remap_instruction_def split: option.split)
qed

lemmas remap_instruction_0 = remap_instruction_id [of "[0]", simplified]

lemma normalize_spec:
  assumes ok: "table_ok (tw_modulus_table t) (tw_modulus_index t)"
  defines "tab \<equiv> tw_modulus_table t" and "t' \<equiv> normalize_modulus_table_locked t"
  obtains remap where
    "tw_modulus_table t' = sorted_table tab"
    "table_ok (sorted_table tab) (tw_modulus_index t')"
    "tw_instructions t' = map (remap_instruction remap) (tw_instructions t)"
    "length remap = length tab"
    "\<And>i. i < length tab \<Longrightarrow>
       unat (remap ! i) < length tab \<and> sorted_table tab ! unat (remap ! i) = tab ! i"
    "tw_annotations t' = tw_annotations t"
proof (cases "length tab \<le> 1")
  case True
  have [simp]: "tab \<noteq> []" using ok by (auto simp: table_ok_def tab_def)
  have id: "map (remap_instruction [0]) is = is" for "is"
    by (rule map_idI) (simp add: remap_instruction_0)
  have "length tab = 1" using True by (cases tab) auto
  then show thesis
    using that [of "[0]"] True ok id
    by (simp add: t'_def tab_def normalize_modulus_table_locked_def sorted_table_short)
next
  case False
  let ?reg = "sort (drop 1 tab)"
  have tab: "tab = COPY_MODULUS_VALUE # drop 1 tab"
    using ok by (cases tab) (auto simp: table_ok_def tab_def)
  have st: "sorted_table tab = COPY_MODULUS_VALUE # ?reg"
    by (subst tab) (simp add: sorted_table_def)
  have "distinct tab" "length tab \<le> 2 ^ 32" using ok by (simp_all add: table_ok_def tab_def)
  then have "distinct (sorted_table tab)" "length ?reg < 2 ^ 32"
    using False by (auto simp: mset_eq_imp_distinct_iff [OF mset_sorted_table])
  then have ok': "table_ok (sorted_table tab) (new_index_of ?reg)"
    unfolding st by (intro table_ok_new_index) simp_all
  define remap where "remap = map (the \<circ> new_index_of ?reg) tab"
  have "set tab \<subseteq> dom (new_index_of ?reg)" using ok' by (simp add: table_ok_def)
  then have br: "build_remap tab (new_index_of ?reg) = (remap, new_index_of ?reg)"
    unfolding remap_def by (rule build_remap_present)
  have at: "unat (remap ! i) < length tab \<and> sorted_table tab ! unat (remap ! i) = tab ! i"
    if i: "i < length tab" for i
  proof -
    have "tab ! i \<in> dom (new_index_of ?reg)" using ok' i by (simp add: table_ok_def)
    then have "new_index_of ?reg (tab ! i) = Some (remap ! i)" using i by (auto simp: remap_def)
    then show ?thesis using table_ok_lookup [OF ok'] by simp
  qed
  show thesis
    using that [of remap] False br at ok'
    by (simp add: t'_def tab_def normalize_modulus_table_locked_def sorted_table_def Let_def
        remap_def)
qed

lemma remap_instruction_resolved:
  assumes "length remap = length tab" and "length tab' = length tab" and "length tab \<le> 2 ^ 32"
    and "\<And>i. i < length tab \<Longrightarrow> unat (remap ! i) < length tab \<and> tab' ! unat (remap ! i) = tab ! i"
  shows "resolved_modulus tab' (remap_instruction remap inst) = resolved_modulus tab inst"
    and "remap_instruction remap inst = inst\<lparr>modulus := modulus (remap_instruction remap inst)\<rparr>"
proof -
  have "unat (ucast (w :: u32) :: u64) = unat w" for w by (rule unat_ucast_up) simp
  then show "resolved_modulus tab' (remap_instruction remap inst) = resolved_modulus tab inst"
    using assms by (auto simp: resolved_modulus_def remap_instruction_def split: option.split)
  show "remap_instruction remap inst = inst\<lparr>modulus := modulus (remap_instruction remap inst)\<rparr>"
    by (cases inst) (auto simp: remap_instruction_def split: option.split)
qed

lemma table_ok_unique: "table_ok tab i1 \<Longrightarrow> table_ok tab i2 \<Longrightarrow> i1 = i2"
proof (rule ext)
  fix q
  assume ok: "table_ok tab i1" "table_ok tab i2"
  show "i1 q = i2 q"
  proof (cases "i1 q")
    case None
    then have "q \<notin> dom i2" using ok by (auto simp: table_ok_def)
    then show ?thesis using None by (simp add: domIff)
  next
    case (Some i)
    then have "i2 q = Some i" using ok table_ok_lookup by metis
    then show ?thesis using Some by simp
  qed
qed

lemma normalize_idem:
  assumes ok: "table_ok (tw_modulus_table t) (tw_modulus_index t)"
    and st: "sorted_table (tw_modulus_table t) = tw_modulus_table t"
  shows "normalize_modulus_table_locked t = t"
proof (rule normalize_spec [OF ok])
  let ?t = "normalize_modulus_table_locked t" and ?tab = "tw_modulus_table t"
  fix remap
  assume r: "tw_modulus_table ?t = sorted_table ?tab"
    "table_ok (sorted_table ?tab) (tw_modulus_index ?t)"
    "tw_instructions ?t = map (remap_instruction remap) (tw_instructions t)"
    "length remap = length ?tab"
    "\<And>i. i < length ?tab \<Longrightarrow>
       unat (remap ! i) < length ?tab \<and> sorted_table ?tab ! unat (remap ! i) = ?tab ! i"
  have d: "distinct ?tab" using ok by (simp add: table_ok_def)
  have "unat (remap ! i) = i" if "i < length remap" for i
    using r(4) r(5) [of i] that st d by (metis nth_eq_iff_index_eq)
  then have "remap_instruction remap x = x" for x by (rule remap_instruction_id)
  then have "tw_instructions ?t = tw_instructions t" using r(3) by (simp add: map_idI)
  moreover have "tw_modulus_index ?t = tw_modulus_index t"
    using table_ok_unique r(2) ok st by metis
  moreover have "?t = t\<lparr>tw_modulus_table := tw_modulus_table ?t,
      tw_modulus_index := tw_modulus_index ?t, tw_instructions := tw_instructions ?t\<rparr>"
    by (cases t) (simp add: normalize_modulus_table_locked_def Let_def split: prod.split)
  ultimately show ?thesis using r(1) st by (cases t) simp
qed

lemma normalize_moduli:
  assumes inv: "tw_inv t"
  defines "t' \<equiv> normalize_modulus_table t"
  shows "hd (tw_modulus_table t') = COPY_MODULUS_VALUE \<and>
    sorted (tl (tw_modulus_table t')) \<and> mset (tw_modulus_table t') = mset (tw_modulus_table t) \<and>
    list_all2 (\<lambda>a b. resolved_modulus (tw_modulus_table t') b = resolved_modulus (tw_modulus_table t) a \<and>
                     b = a\<lparr>modulus := modulus b\<rparr>) (tw_instructions t) (tw_instructions t') \<and>
    tw_inv t' \<and> normalize_modulus_table t' = t'"
proof -
  let ?tab = "tw_modulus_table t"
  have ok: "table_ok ?tab (tw_modulus_index t)" using inv by (simp add: tw_inv_def)
  from normalize_spec [OF ok] obtain remap where
    tab': "tw_modulus_table t' = sorted_table ?tab"
    and ok': "table_ok (sorted_table ?tab) (tw_modulus_index t')"
    and insts: "tw_instructions t' = map (remap_instruction remap) (tw_instructions t)"
    and remap: "length remap = length ?tab"
    "\<And>i. i < length ?tab \<Longrightarrow>
       unat (remap ! i) < length ?tab \<and> sorted_table ?tab ! unat (remap ! i) = ?tab ! i"
    and anns: "tw_annotations t' = tw_annotations t"
    unfolding t'_def normalize_modulus_table_def by metis
  have "length ?tab \<le> 2 ^ 32" using ok by (simp add: table_ok_def)
  note res = remap_instruction_resolved [OF remap(1) length_sorted_table this remap(2)]
  have "list_all2 (\<lambda>a b. resolved_modulus (tw_modulus_table t') b = resolved_modulus ?tab a \<and>
      b = a\<lparr>modulus := modulus b\<rparr>) (tw_instructions t) (tw_instructions t')"
    unfolding insts tab' list.rel_map using res by (auto intro!: list.rel_refl_strong)
  moreover have "normalize_modulus_table t' = t'"
    unfolding normalize_modulus_table_def
    by (rule normalize_idem) (simp_all add: tab' ok')
  moreover have "tw_inv t'"
    using inv by (simp add: tw_inv_def tab' ok' annotations_ok_def anns insts)
  moreover have "hd (tw_modulus_table t') = COPY_MODULUS_VALUE"
    using ok' by (simp add: tab' table_ok_def)
  moreover have "sorted (tl (tw_modulus_table t'))"
    by (cases ?tab) (simp_all add: tab' sorted_table_def)
  ultimately show ?thesis by (simp add: tab')
qed

text \<open>
  C38: normalization.  On a table that satisfies the invariant, sorting keeps the sentinel at index 0
  and the rest ascending with the same moduli; every instruction still computes in the modulus it
  was recorded with and differs in its index only; the index map is again the inverse of the table;
  and a second normalization changes nothing.
\<close>

theorem normalize_preserves_moduli:
  assumes inv: "tw_inv t"
  defines "t' \<equiv> normalize_modulus_table t"
  shows "hd (tw_modulus_table t') = COPY_MODULUS_VALUE \<and>
    sorted (tl (tw_modulus_table t')) \<and> mset (tw_modulus_table t') = mset (tw_modulus_table t) \<and>
    list_all2 (\<lambda>a b. resolved_modulus (tw_modulus_table t') b = resolved_modulus (tw_modulus_table t) a \<and>
                     b = a\<lparr>modulus := modulus b\<rparr>) (tw_instructions t) (tw_instructions t') \<and>
    tw_inv t' \<and> normalize_modulus_table t' = t'"
  unfolding t'_def using normalize_moduli [OF inv] .

section \<open>Runs of the recorder\<close>

datatype tw_op =
    SetProgramInfo string string string
  | SetSourceInfo string i32 string
  | SetTraceFormat TraceFormat
  | StartRecording
  | StopRecording
  | PauseRecording
  | ResumeRecording
  | RegisterModulus u64
  | Emit Instruction
  | Comment string
  | Normalize
  | Clear

fun tw_exec :: "tw_op \<Rightarrow> TraceWriter \<Rightarrow> TraceWriter" where
  "tw_exec (SetProgramInfo n v d) t = set_program_info n v d t"
| "tw_exec (SetSourceInfo f l s) t = set_source_info f l s t"
| "tw_exec (SetTraceFormat f) t = set_trace_format f t"
| "tw_exec StartRecording t = start_recording t"
| "tw_exec StopRecording t = stop_recording t"
| "tw_exec PauseRecording t = pause_recording t"
| "tw_exec ResumeRecording t = resume_recording t"
| "tw_exec (RegisterModulus q) t = snd (register_modulus q t)"
| "tw_exec (Emit i) t = emit i t"
| "tw_exec (Comment s) t = comment_line s t"
| "tw_exec Normalize t = normalize_modulus_table t"
| "tw_exec Clear t = tw_clear t"

definition tw_run :: "tw_op list \<Rightarrow> TraceWriter" where
  "tw_run ops = fold tw_exec ops TraceWriter_ctor"

lemma tw_run_Nil [simp]: "tw_run [] = TraceWriter_ctor"
  by (simp add: tw_run_def)

lemma tw_run_snoc [simp]: "tw_run (ops @ [x]) = tw_exec x (tw_run ops)"
  by (simp add: tw_run_def)

lemmas tw_setter_defs = set_program_info_def set_source_info_def set_trace_format_def
  start_recording_def stop_recording_def pause_recording_def resume_recording_def

lemma tw_exec_inv:
  assumes inv: "tw_inv t" and room: "length (tw_modulus_table t) < 2 ^ 32"
  shows "tw_inv (tw_exec x t) \<and> length (tw_modulus_table (tw_exec x t)) \<le> length (tw_modulus_table t) + 1"
proof (cases x)
  case (RegisterModulus q)
  obtain i t' where r: "register_modulus q t = (i, t')" by fastforce
  then show ?thesis
    using RegisterModulus inv register_modulus_spec [OF _ room r] register_modulus_frame [OF r]
    by (simp add: tw_inv_def annotations_ok_def)
next
  case (Comment s)
  then show ?thesis
    using inv by (auto simp: comment_line_def tw_inv_def annotations_ok_def sorted_append)
next
  case Normalize
  have ok: "table_ok (tw_modulus_table t) (tw_modulus_index t)" using inv by (simp add: tw_inv_def)
  show ?thesis
    using Normalize inv
    by (auto simp: normalize_modulus_table_def tw_inv_def annotations_ok_def
        intro: normalize_spec [OF ok])
next
  case Clear
  have "tw_modulus_table t \<noteq> []" using inv by (simp add: tw_inv_def table_ok_def)
  with Clear show ?thesis
    by (cases "tw_modulus_table t")
       (simp_all add: tw_clear_def tw_inv_def annotations_ok_def table_ok_init)
qed (use inv in \<open>auto simp: tw_setter_defs tw_inv_def annotations_ok_def emit_eq\<close>)

lemma tw_run_inv:
  "length ops < 2 ^ 32 \<Longrightarrow>
     tw_inv (tw_run ops) \<and> length (tw_modulus_table (tw_run ops)) \<le> length ops + 1"
proof (induction ops rule: rev_induct)
  case Nil
  then show ?case
    by (simp add: TraceWriter_ctor_def tw_inv_def annotations_ok_def table_ok_init)
next
  case (snoc x ops)
  then show ?case using tw_exec_inv [of "tw_run ops" x] by force
qed

text \<open>
  C37: the recorder's invariant holds after any sequence of fewer than \<open>2^32\<close> method calls, in any
  order: the sentinel is at index 0, moduli are distinct, looking a modulus up in the index gives
  exactly its position in the table, and the annotations are in order and point into the program.
\<close>

theorem recorder_invariant:
  assumes "length ops < 2 ^ 32"
  shows "hd (tw_modulus_table (tw_run ops)) = COPY_MODULUS_VALUE \<and>
    distinct (tw_modulus_table (tw_run ops)) \<and>
    (\<forall>q i. tw_modulus_index (tw_run ops) q = Some i \<longleftrightarrow>
       unat i < length (tw_modulus_table (tw_run ops)) \<and> tw_modulus_table (tw_run ops) ! unat i = q) \<and>
    sorted (map after_instruction (tw_annotations (tw_run ops))) \<and>
    (\<forall>a \<in> set (tw_annotations (tw_run ops)).
       after_instruction a \<le> length (tw_instructions (tw_run ops)))"
  using tw_run_inv [OF assms] table_ok_lookup [of "tw_modulus_table (tw_run ops)"]
  by (simp add: tw_inv_def annotations_ok_def) (simp add: table_ok_def)

definition example_ops :: "tw_op list" where
  "example_ops =
     [StartRecording, RegisterModulus 97, RegisterModulus 17, Comment ''first'',
      Emit (Instruction_init\<lparr>opcode := FH_SR_NEGP, dest := 2, src1 := 1, modulus := Some 1\<rparr>),
      PauseRecording, Emit Instruction_init, ResumeRecording, RegisterModulus 97, Comment ''last'']"

theorem recorder_invariant_witness:
  "tw_modulus_index (tw_run example_ops) 17 = Some 2 \<and>
   map after_instruction (tw_annotations (tw_run example_ops)) = [0, 1] \<and>
   list_all (\<lambda>a. after_instruction a \<le> length (tw_instructions (tw_run example_ops)))
     (tw_annotations (tw_run example_ops))"
proof -
  have "length example_ops < 2 ^ 32" by (simp add: example_ops_def)
  note r = recorder_invariant [OF this]
  have s: "tw_modulus_table (tw_run example_ops) = [COPY_MODULUS_VALUE, 97, 17]"
    "map after_instruction (tw_annotations (tw_run example_ops)) = [0, 1]"
    by (simp_all add: example_ops_def tw_run_def TraceWriter_ctor_def tw_setter_defs
        register_modulus_def Let_def comment_line_def emit_eq COPY_MODULUS_VALUE_def)
  show ?thesis using r s by (auto simp: list_all_iff)
qed

theorem normalize_preserves_moduli_witness:
  "map (resolved_modulus (tw_modulus_table (normalize_modulus_table (tw_run example_ops))))
     (tw_instructions (normalize_modulus_table (tw_run example_ops))) = [Some 97] \<and>
   tl (tw_modulus_table (normalize_modulus_table (tw_run example_ops))) = [17, 97]"
proof -
  let ?t = "tw_run example_ops" and ?t' = "normalize_modulus_table (tw_run example_ops)"
  have "tw_inv ?t" using tw_run_inv [of example_ops] by (simp add: example_ops_def)
  note n = normalize_preserves_moduli [OF this]
  have s: "tw_modulus_table ?t = [COPY_MODULUS_VALUE, 97, 17]"
    "map (resolved_modulus (tw_modulus_table ?t)) (tw_instructions ?t) = [Some 97]"
    by (simp_all add: example_ops_def tw_run_def TraceWriter_ctor_def tw_setter_defs
        register_modulus_def Let_def comment_line_def emit_eq COPY_MODULUS_VALUE_def
        resolved_modulus_def Instruction_init_def)
  have "map (resolved_modulus (tw_modulus_table ?t')) (tw_instructions ?t') =
      map (resolved_modulus (tw_modulus_table ?t)) (tw_instructions ?t)"
    using n by (auto simp: list_all2_conv_all_nth intro!: nth_equalityI)
  moreover have "tl (tw_modulus_table ?t') = [17, 97]"
  proof (rule properties_for_sort [symmetric, THEN trans])
    show "sorted (tl (tw_modulus_table ?t'))" using n by blast
    show "mset (tl (tw_modulus_table ?t')) = mset [97, 17 :: u64]"
      using n s(1) by (cases "tw_modulus_table ?t'") auto
  qed simp
  ultimately show ?thesis using s(2) by simp
qed

text \<open>
  The gate.  An instruction or a comment is kept exactly when recording is on and not paused;
  what is kept goes at the end and nothing already recorded changes.  The width check of \<open>emit\<close>
  never fires: the operands it compares are already 32 bits wide.
\<close>

theorem recording_gate:
  "tw_instructions (emit inst t) =
     tw_instructions t @ (if tw_recording t \<and> \<not> tw_paused t then [inst] else []) \<and>
   map an_text (tw_annotations (comment_line s t)) =
     map an_text (tw_annotations t) @ (if tw_recording t \<and> \<not> tw_paused t then [s] else []) \<and>
   \<not> max (max (ucast (dest inst)) (ucast (src1 inst))) (ucast (src2 inst)) > kMaxAddress"
  using address_fits [of "dest inst" "src1 inst" "src2 inst"]
  by (simp add: emit_eq comment_line_def not_less)

section \<open>The registry as an interface\<close>

text \<open>
  What the recording interface needs of the recorder: an index it is given names the modulus it
  asked for, and goes on doing so while more moduli are registered.
\<close>

locale modulus_registry =
  fixes table :: "'s \<Rightarrow> u64 list"
    and register :: "u64 \<Rightarrow> 's \<Rightarrow> u32 \<times> 's"
    and ok :: "'s \<Rightarrow> bool"
    and room :: "'s \<Rightarrow> nat"
  assumes register_ok:
    "ok s \<Longrightarrow> 0 < room s \<Longrightarrow> register q s = (i, s') \<Longrightarrow>
       ok s' \<and> room s \<le> room s' + 1 \<and> prefix (table s) (table s') \<and>
       unat i < length (table s') \<and> table s' ! unat i = q"
begin

fun register_all :: "u64 list \<Rightarrow> 's \<Rightarrow> u32 list \<times> 's" where
  "register_all [] s = ([], s)"
| "register_all (q # qs) s =
     (let (i, s1) = register q s; (is, s2) = register_all qs s1 in (i # is, s2))"

lemma register_all_ok:
  "ok s \<Longrightarrow> length qs \<le> room s \<Longrightarrow> register_all qs s = (is, s') \<Longrightarrow>
     ok s' \<and> prefix (table s) (table s') \<and>
     list_all2 (\<lambda>q i. unat i < length (table s') \<and> table s' ! unat i = q) qs is"
proof (induction qs arbitrary: s "is")
  case (Cons q qs)
  obtain i s1 where r: "register q s = (i, s1)" by fastforce
  obtain js where js: "register_all qs s1 = (js, s')" "is = i # js"
    using Cons.prems r by (auto split: prod.splits)
  have 1: "ok s1" "room s \<le> room s1 + 1" "prefix (table s) (table s1)"
    "unat i < length (table s1)" "table s1 ! unat i = q"
    using register_ok [OF _ _ r] Cons.prems by auto
  have 2: "ok s'" "prefix (table s1) (table s')"
    "list_all2 (\<lambda>q i. unat i < length (table s') \<and> table s' ! unat i = q) qs js"
    using Cons.IH [OF 1(1) _ js(1)] 1(2) Cons.prems(2) by auto
  then show ?case
    using 1 js(2) by (auto simp: prefix_def nth_append)
qed simp

end

definition tw_room :: "TraceWriter \<Rightarrow> nat" where
  "tw_room t = 2 ^ 32 - length (tw_modulus_table t)"

interpretation tw: modulus_registry tw_modulus_table register_modulus tw_inv tw_room
proof
  fix t i t' and q :: u64
  assume a: "tw_inv t" "0 < tw_room t" "register_modulus q t = (i, t')"
  have ok: "table_ok (tw_modulus_table t) (tw_modulus_index t)"
    and room: "length (tw_modulus_table t) < 2 ^ 32"
    using a by (simp_all add: tw_inv_def tw_room_def)
  show "tw_inv t' \<and> tw_room t \<le> tw_room t' + 1 \<and>
      prefix (tw_modulus_table t) (tw_modulus_table t') \<and>
      unat i < length (tw_modulus_table t') \<and> tw_modulus_table t' ! unat i = q"
    using register_modulus_spec [OF ok room a(3)] register_modulus_frame [OF a(3)] a(1)
    by (auto simp: tw_inv_def tw_room_def annotations_ok_def)
qed

text \<open>
  Registering a list of moduli gives each its own stable index: after all of them are
  registered, every index returned on the way still names its modulus, and what the table held
  before is unchanged.
\<close>

theorem registered_indices_stable:
  assumes "tw_inv t" and "length qs + length (tw_modulus_table t) \<le> 2 ^ 32"
    and "tw.register_all qs t = (is, t')"
  shows "prefix (tw_modulus_table t) (tw_modulus_table t') \<and>
    list_all2 (\<lambda>q i. unat i < length (tw_modulus_table t') \<and> tw_modulus_table t' ! unat i = q) qs is"
  using tw.register_all_ok [OF assms(1) _ assms(3)] assms(2) by (simp add: tw_room_def)

theorem registered_indices_stable_witness:
  "tw.register_all [97, 17, 97] TraceWriter_ctor =
     ([1, 2, 1], snd (tw.register_all [97, 17, 97] TraceWriter_ctor)) \<and>
   list_all2 (\<lambda>q i. tw_modulus_table (snd (tw.register_all [97, 17, 97] TraceWriter_ctor)) ! unat i = q)
     [97, 17, 97] [1, 2, 1 :: u32]"
proof -
  have inv: "tw_inv TraceWriter_ctor" using tw_run_inv [of "[]"] by simp
  have r: "tw.register_all [97, 17, 97] TraceWriter_ctor =
     ([1, 2, 1], snd (tw.register_all [97, 17, 97] TraceWriter_ctor))"
    by (simp add: register_modulus_def TraceWriter_ctor_def COPY_MODULUS_VALUE_def Let_def)
  from registered_indices_stable [OF inv _ r] show ?thesis
    using r by (simp add: TraceWriter_ctor_def)
qed

end
