(* ===== verification/FhexFormat.thy ===== *)
theory FhexFormat
  imports FhetchIr
begin

text \<open>
  The layout of the \<open>.fhex\<close> container (\<open>include/niobium/fhetch_encoding.h\<close>): byte order, the
  specification identity a file carries, the wire record, the metadata tags and the decode errors.
\<close>

section \<open>Byte order\<close>

text \<open>
  \<open>little\<close> stands for \<open>kFhexHostIsLittleEndian\<close>, which the compiler fixes per host.
\<close>

definition fhex_byteswap :: "'a::len word \<Rightarrow> 'a word" where
  "fhex_byteswap v =
     fold (\<lambda>i out. push_bit 8 out OR (drop_bit (i * 8) v AND 0xFF)) [0..<LENGTH('a) div 8] 0"

definition fhex_le :: "bool \<Rightarrow> 'a::len word \<Rightarrow> 'a word" where
  "fhex_le little v = (if little then v else fhex_byteswap v)"

lemma bit_swap_fold:
  fixes v :: "'a::len word"
  shows "bit (fold (\<lambda>i out. push_bit 8 out OR take_bit 8 (drop_bit (i * 8) v)) [0..<m] 0) k \<longleftrightarrow>
           k < LENGTH('a) \<and> k < 8 * m \<and> bit v (8 * (m - 1 - k div 8) + k mod 8)"
proof (induction m arbitrary: k)
  case 0
  then show ?case by simp
next
  case (Suc m)
  show ?case
  proof (cases "k < 8")
    case True
    then show ?thesis
      by (auto simp: Suc.IH bit_or_iff bit_push_bit_iff bit_drop_bit_eq bit_take_bit_iff
          mult.commute dest: bit_imp_le_length)
  next
    case False
    then have "k div 8 = Suc ((k - 8) div 8)" "k mod 8 = (k - 8) mod 8"
      by (simp_all add: le_div_geq le_mod_geq)
    then show ?thesis
      using False
      by (auto simp: Suc.IH bit_or_iff bit_push_bit_iff bit_drop_bit_eq bit_take_bit_iff)
  qed
qed

lemma bit_fhex_byteswap:
  fixes v :: "'a::len word"
  assumes "LENGTH('a) mod 8 = 0" and "k < LENGTH('a)"
  shows "bit (fhex_byteswap v) k \<longleftrightarrow> bit v (8 * (LENGTH('a) div 8 - 1 - k div 8) + k mod 8)"
proof -
  have "8 * (LENGTH('a) div 8) = LENGTH('a)" using assms(1) by auto
  then show ?thesis using assms(2) by (simp add: fhex_byteswap_def byte_and_255 bit_swap_fold)
qed

lemma le_bytes_fhex_byteswap:
  fixes v :: "'a::len word"
  assumes len: "LENGTH('a) mod 8 = 0"
  shows "le_bytes (fhex_byteswap v) = rev (le_bytes v)"
proof (rule nth_equalityI)
  show "length (le_bytes (fhex_byteswap v)) = length (rev (le_bytes v))" by simp
next
  fix i assume "i < length (le_bytes (fhex_byteswap v))"
  then have i: "i < LENGTH('a) div 8" by simp
  have r: "rev (le_bytes v) ! i = le_bytes v ! (LENGTH('a) div 8 - 1 - i)"
    using i by (simp add: rev_nth)
  show "le_bytes (fhex_byteswap v) ! i = rev (le_bytes v) ! i"
  proof (rule bit_word_eqI)
    fix j assume "j < LENGTH(8)"
    then have j: "j < 8" by simp
    have "8 * (LENGTH('a) div 8) = LENGTH('a)" using len by auto
    then have "8 * i + j < LENGTH('a)" using i j by linarith
    moreover have "(8 * i + j) div 8 = i" "(8 * i + j) mod 8 = j" using j by simp_all
    ultimately have "bit (fhex_byteswap v) (8 * i + j) \<longleftrightarrow>
        bit v (8 * (LENGTH('a) div 8 - 1 - i) + j)"
      by (simp add: bit_fhex_byteswap [OF len])
    then show "bit (le_bytes (fhex_byteswap v) ! i) j = bit (rev (le_bytes v) ! i) j"
      using i j r by (simp add: bit_le_bytes_nth)
  qed
qed

text \<open>The bytes a value leaves in the file do not depend on the host.\<close>

lemma mem_bytes_fhex_le [simp]:
  "LENGTH('a) mod 8 = 0 \<Longrightarrow> mem_bytes little (fhex_le little (v :: 'a::len word)) = le_bytes v"
  by (simp add: mem_bytes_def fhex_le_def le_bytes_fhex_byteswap)

lemma fhex_byteswap_twice:
  fixes v :: "'a::len word"
  assumes len: "LENGTH('a) mod 8 = 0"
  shows "fhex_byteswap (fhex_byteswap v) = v"
proof -
  have "le_bytes (fhex_byteswap (fhex_byteswap v)) = le_bytes v"
    using len by (simp add: le_bytes_fhex_byteswap)
  then show ?thesis by (metis len word_of_le_bytes_le_bytes)
qed

lemma fhex_le_mem_word [simp]:
  assumes len: "LENGTH('a) mod 8 = 0"
  shows "fhex_le little (mem_word little (le_bytes v)) = (v :: 'a::len word)"
proof (cases little)
  case True
  then show ?thesis using len by (simp add: fhex_le_def mem_word_def word_of_le_bytes_le_bytes)
next
  case False
  have "word_of_le_bytes (rev (le_bytes v)) = fhex_byteswap v"
    using len by (metis le_bytes_fhex_byteswap word_of_le_bytes_le_bytes)
  with False len show ?thesis
    by (simp add: fhex_le_def mem_word_def fhex_byteswap_twice)
qed

section \<open>Specification identity\<close>

definition kFhexMagic :: bytes where
  "kFhexMagic = [0x4E, 0x42, 0x46, 0x48]"  \<comment> \<open>\<open>NBFH\<close>\<close>

definition kFhexVersion :: u16 where
  "kFhexVersion = 1"

record FhetchVersion =
  major_version :: u16
  minor_version :: u16
  patch_version :: u16

definition FhetchVersion_init :: FhetchVersion where
  "FhetchVersion_init = \<lparr>major_version = 0, minor_version = 0, patch_version = 0\<rparr>"

definition version_known :: "FhetchVersion \<Rightarrow> bool" where
  "version_known v \<longleftrightarrow> major_version v \<noteq> 0 \<or> minor_version v \<noteq> 0 \<or> patch_version v \<noteq> 0"

record FhetchSpecDate =
  year :: u16
  month :: u8
  day :: u8

definition FhetchSpecDate_init :: FhetchSpecDate where
  "FhetchSpecDate_init = \<lparr>year = 0, month = 0, day = 0\<rparr>"

definition date_known :: "FhetchSpecDate \<Rightarrow> bool" where
  "date_known d \<longleftrightarrow> year d \<noteq> 0"

record FhetchSpec =
  version :: FhetchVersion
  date :: FhetchSpecDate

definition FhetchSpec_init :: FhetchSpec where
  "FhetchSpec_init = \<lparr>version = FhetchVersion_init, date = FhetchSpecDate_init\<rparr>"

definition spec_valid :: "FhetchSpec \<Rightarrow> bool" where
  "spec_valid s \<longleftrightarrow> version_known (version s) \<or> date_known (date s)"

definition authoritative_date :: "FhetchSpec \<Rightarrow> FhetchSpecDate option" where
  "authoritative_date s =
     (if version_known (version s) \<or> \<not> date_known (date s) then None else Some (date s))"

definition kFhetchSpec :: FhetchSpec where
  "kFhetchSpec =
     \<lparr>version = FhetchVersion_init, date = \<lparr>year = 2025, month = 5, day = 19\<rparr>\<rparr>"

definition fhex_pack_version :: "FhetchVersion \<Rightarrow> u64" where
  "fhex_pack_version v =
     push_bit 32 (ucast (major_version v)) OR push_bit 16 (ucast (minor_version v)) OR
     ucast (patch_version v)"

definition fhex_unpack_version :: "u64 \<Rightarrow> FhetchVersion" where
  "fhex_unpack_version packed =
     \<lparr>major_version = ucast (drop_bit 32 packed AND 0xFFFF),
      minor_version = ucast (drop_bit 16 packed AND 0xFFFF),
      patch_version = ucast (packed AND 0xFFFF)\<rparr>"

definition fhex_pack_spec_date :: "FhetchSpecDate \<Rightarrow> u64" where
  "fhex_pack_spec_date d = ucast (year d) * 10000 + ucast (month d) * 100 + ucast (day d)"

definition fhex_unpack_spec_date :: "u64 \<Rightarrow> FhetchSpecDate" where
  "fhex_unpack_spec_date packed =
     \<lparr>year = ucast (packed div 10000),
      month = ucast ((packed div 100) mod 100),
      day = ucast (packed mod 100)\<rparr>"

section \<open>Layout constants and the wire record\<close>

definition kFhexPrologueBytes :: nat where "kFhexPrologueBytes = 24"
definition kFhexAlign :: nat where "kFhexAlign = 8"
definition kFhexMaxFileBytes :: nat where "kFhexMaxFileBytes = 2 ^ 30"
definition kFhexMaxVarintBytes :: nat where "kFhexMaxVarintBytes = 10"

abbreviation (input) FH_FLAG_HAS_MOD :: u8 where "FH_FLAG_HAS_MOD \<equiv> 1"
abbreviation (input) FH_FLAG_MOD_LITERAL :: u8 where "FH_FLAG_MOD_LITERAL \<equiv> 2"
abbreviation (input) FH_FLAG_HAS_IMM :: u8 where "FH_FLAG_HAS_IMM \<equiv> 4"
abbreviation (input) FH_FLAG_HAS_SRC2 :: u8 where "FH_FLAG_HAS_SRC2 \<equiv> 8"
abbreviation (input) FH_FLAG_HAS_AUX :: u8 where "FH_FLAG_HAS_AUX \<equiv> 16"
abbreviation (input) FH_FLAG_HAS_LOGN :: u8 where "FH_FLAG_HAS_LOGN \<equiv> 32"

definition has_flag :: "u8 \<Rightarrow> u8 \<Rightarrow> bool" where
  "has_flag fl b \<longleftrightarrow> (fl AND b) \<noteq> 0"

record FhetchRecord =
  r_opcode :: u8
  r_flags :: u8
  r_logn :: u8
  r_dst :: u32
  r_src1 :: u32
  r_src2 :: u32
  r_modulus :: u64
  r_imm :: u64
  r_aux :: u64

definition FhetchRecord_init :: FhetchRecord where
  "FhetchRecord_init =
     \<lparr>r_opcode = FH_ILL, r_flags = 0, r_logn = 0, r_dst = 0, r_src1 = 0, r_src2 = 0,
      r_modulus = 0, r_imm = 0, r_aux = 0\<rparr>"

text \<open>Metadata tags; a reader casts any 16-bit value to one.\<close>

type_synonym FhMetaTag = u16

abbreviation (input) TagProgramName :: FhMetaTag where "TagProgramName \<equiv> 1"
abbreviation (input) TagTraceFile :: FhMetaTag where "TagTraceFile \<equiv> 2"
abbreviation (input) TagDescription :: FhMetaTag where "TagDescription \<equiv> 3"
abbreviation (input) TagSourceFile :: FhMetaTag where "TagSourceFile \<equiv> 4"
abbreviation (input) TagBuildTimestamp :: FhMetaTag where "TagBuildTimestamp \<equiv> 5"
abbreviation (input) TagScheme :: FhMetaTag where "TagScheme \<equiv> 6"
abbreviation (input) TagSecurityLevel :: FhMetaTag where "TagSecurityLevel \<equiv> 7"
abbreviation (input) TagSourceLine :: FhMetaTag where "TagSourceLine \<equiv> 8"
abbreviation (input) TagInstructionCount :: FhMetaTag where "TagInstructionCount \<equiv> 9"
abbreviation (input) TagGeneratedTimestamp :: FhMetaTag where "TagGeneratedTimestamp \<equiv> 10"
abbreviation (input) TagRingDimension :: FhMetaTag where "TagRingDimension \<equiv> 11"
abbreviation (input) TagMultiplicativeDepth :: FhMetaTag where "TagMultiplicativeDepth \<equiv> 12"
abbreviation (input) TagModulusChainLength :: FhMetaTag where "TagModulusChainLength \<equiv> 13"
abbreviation (input) TagFhetchSpecVersion :: FhMetaTag where "TagFhetchSpecVersion \<equiv> 14"
abbreviation (input) TagFhetchSpecDate :: FhMetaTag where "TagFhetchSpecDate \<equiv> 15"
abbreviation (input) TagProgramVersion :: FhMetaTag where "TagProgramVersion \<equiv> 16"

text \<open>Byte offsets of the prologue fields and of a TLV header (8 bytes: tag, reserved, length).\<close>

definition off_magic :: nat where "off_magic = 0"
definition off_version :: nat where "off_version = 4"
definition off_metadata_bytes :: nat where "off_metadata_bytes = 8"
definition off_modulus_count :: nat where "off_modulus_count = 12"
definition off_instruction_count :: nat where "off_instruction_count = 16"
definition sizeof_FhMetaEntry :: nat where "sizeof_FhMetaEntry = 8"
definition off_entry_tag :: nat where "off_entry_tag = 0"
definition off_entry_length :: nat where "off_entry_length = 4"

definition fhex_align_up :: "u64 \<Rightarrow> u64" where
  "fhex_align_up n = (n + of_nat kFhexAlign - 1) AND NOT (of_nat kFhexAlign - 1)"

section \<open>Decode results\<close>

datatype FhexDecodeError =
    ErrNone
  | BadMagic
  | UnsupportedVersion
  | Truncated
  | Malformed
  | UnknownOpcode
  | MissingSpec
  | TooLarge

primrec fhex_decode_error_string :: "FhexDecodeError \<Rightarrow> string" where
  "fhex_decode_error_string ErrNone = ''none''"
| "fhex_decode_error_string BadMagic = ''bad magic (not a .fhex file)''"
| "fhex_decode_error_string UnsupportedVersion = ''unsupported format version''"
| "fhex_decode_error_string Truncated = ''truncated''"
| "fhex_decode_error_string Malformed = ''malformed''"
| "fhex_decode_error_string UnknownOpcode = ''unknown opcode''"
| "fhex_decode_error_string MissingSpec = ''names neither a FHETCH spec version nor a spec date''"
| "fhex_decode_error_string TooLarge = ''implausibly large''"

record FhexProgram =
  fp_metadata :: TraceMetadata
  fp_format_version :: u16
  fp_spec :: FhetchSpec
  fp_modulus_table :: "u64 list"
  fp_records :: "FhetchRecord list"

end
