(* ===== verification/FhexCodec.thy ===== *)
theory FhexCodec
  imports FhexFormat
begin

text \<open>
  The \<open>.fhex\<close> encoder and decoder (\<open>src/fhetch_encoding.cpp\<close>), operation by operation.

  A byte vector is a list; the decoder's \<open>(bytes, size)\<close> pair is one list, read through \<open>byte_at\<close> and
  \<open>bytes_at\<close>, which answer \<open>OutOfBounds\<close> where the C++ would read outside the buffer.  Offsets are
  natural numbers: they never exceed the size of a buffer that exists in memory by more than a few
  bytes, so the \<open>size_t\<close> sums of the source do not wrap.
\<close>

section \<open>Writing primitives\<close>

definition put_raw :: "bytes \<Rightarrow> bytes \<Rightarrow> bytes" where
  "put_raw out src = out @ src"

definition put_scalar :: "bool \<Rightarrow> bytes \<Rightarrow> 'a::len word \<Rightarrow> bytes" where
  "put_scalar little out v = put_raw out (mem_bytes little (fhex_le little v))"

function pad_to_align :: "bytes \<Rightarrow> bytes" where
  "pad_to_align out =
     (if length out mod kFhexAlign \<noteq> 0 then pad_to_align (out @ [0]) else out)"
  by pat_completeness auto
termination
proof (relation "measure (\<lambda>out. (8 - length out mod 8) mod 8)")
  fix out :: bytes
  assume "length out mod kFhexAlign \<noteq> 0"
  then have "length out mod 8 \<noteq> 0" by (simp add: kFhexAlign_def)
  then have "(8 - Suc (length out) mod 8) mod 8 < (8 - length out mod 8) mod 8"
    using pad_distance [of "length out"] by linarith
  then show "(out @ [0], out) \<in> measure (\<lambda>out. (8 - length out mod 8) mod 8)" by simp
qed simp

declare pad_to_align.simps [simp del]

function put_varint :: "bytes \<Rightarrow> u64 \<Rightarrow> bytes" where
  "put_varint out v =
     (if v \<ge> 0x80 then put_varint (out @ [ucast ((v AND 0x7F) OR 0x80)]) (drop_bit 7 v)
      else out @ [ucast v])"
  by pat_completeness auto
termination
proof (relation "measure (\<lambda>(out, v). unat v)")
  fix out :: bytes and v :: u64
  assume "v \<ge> 0x80"
  then have "unat (drop_bit 7 v) < unat v"
    by (simp only: unat_drop_bit word_le_nat_alt) simp
  then show "((out @ [ucast ((v AND 0x7F) OR 0x80)], drop_bit 7 v), (out, v))
      \<in> measure (\<lambda>(out, v). unat v)"
    by simp
qed simp

declare put_varint.simps [simp del]

section \<open>Reading primitives\<close>

datatype DecodeFail = OutOfBounds | DecodeErr FhexDecodeError

definition byte_at :: "bytes \<Rightarrow> nat \<Rightarrow> DecodeFail + u8" where
  "byte_at bs off = (if off < length bs then Inr (bs ! off) else Inl OutOfBounds)"

definition bytes_at :: "bytes \<Rightarrow> nat \<Rightarrow> nat \<Rightarrow> DecodeFail + bytes" where
  "bytes_at bs off n =
     (if off + n \<le> length bs then Inr (take n (drop off bs)) else Inl OutOfBounds)"

definition get_scalar :: "bool \<Rightarrow> bytes \<Rightarrow> nat \<Rightarrow> DecodeFail + 'a::len word" where
  "get_scalar little bs off =
     res_bind (bytes_at bs off (LENGTH('a) div 8))
       (\<lambda>raw. Inr (fhex_le little (mem_word little raw)))"

text \<open>
  \<open>get_varint\<close> returns false (here \<open>None\<close>) on a short buffer, on a payload bit that would not fit
  and after ten continuation bytes; otherwise the value and the advanced offset.
\<close>

function get_varint_loop :: "bytes \<Rightarrow> nat \<Rightarrow> nat \<Rightarrow> u64 \<Rightarrow> DecodeFail + (u64 \<times> nat) option" where
  "get_varint_loop bs off index v =
     (if index < kFhexMaxVarintBytes then
        if off \<ge> length bs then Inr None
        else res_bind (byte_at bs off) (\<lambda>byte.
          let payload = ucast (byte AND 0x7F); shift = index * 7 in
          if payload > drop_bit shift (- 1 :: u64) then Inr None
          else
            let v' = v OR push_bit shift payload in
            if (byte AND 0x80) = 0 then Inr (Some (v', off + 1))
            else get_varint_loop bs (off + 1) (index + 1) v')
      else Inr None)"
  by pat_completeness auto
termination
  by (relation "measure (\<lambda>(bs, off, index, v). kFhexMaxVarintBytes - index)") auto

declare get_varint_loop.simps [simp del]

definition get_varint :: "bytes \<Rightarrow> nat \<Rightarrow> DecodeFail + (u64 \<times> nat) option" where
  "get_varint bs off = get_varint_loop bs off 0 0"

definition get_varint_u32 :: "bytes \<Rightarrow> nat \<Rightarrow> DecodeFail + (u32 \<times> nat) option" where
  "get_varint_u32 bs off =
     res_bind (get_varint bs off) (\<lambda>r.
       case r of
         None \<Rightarrow> Inr None
       | Some (wide, off') \<Rightarrow>
           if wide > 0xFFFFFFFF then Inr None else Inr (Some (ucast wide, off')))"

section \<open>Metadata section\<close>

definition byte_of_char :: "char \<Rightarrow> u8" where
  "byte_of_char c = word_of_nat (of_char c)"

definition char_of_byte :: "u8 \<Rightarrow> char" where
  "char_of_byte b = char_of (unat b)"

definition put_meta_entry :: "bool \<Rightarrow> bytes \<Rightarrow> FhMetaTag \<Rightarrow> bytes \<Rightarrow> bytes" where
  "put_meta_entry little out tag payload =
     (let out = put_scalar little out tag;
          out = put_scalar little out (0 :: u16);
          out = put_scalar little out (of_nat (length payload) :: u32);
          out = put_raw out payload
      in pad_to_align out)"

definition put_meta_string :: "bool \<Rightarrow> bytes \<Rightarrow> FhMetaTag \<Rightarrow> string \<Rightarrow> bytes" where
  "put_meta_string little out tag v =
     (if v = [] then out else put_meta_entry little out tag (map byte_of_char v))"

definition put_meta_u64 :: "bool \<Rightarrow> bytes \<Rightarrow> FhMetaTag \<Rightarrow> u64 \<Rightarrow> bytes" where
  "put_meta_u64 little out tag v =
     (if v = 0 then out else put_meta_entry little out tag (mem_bytes little (fhex_le little v)))"

definition build_metadata :: "bool \<Rightarrow> TraceMetadata \<Rightarrow> FhetchSpec \<Rightarrow> bytes" where
  "build_metadata h md spec =
     (let meta = [];
          meta = (if version_known (version spec)
                  then put_meta_u64 h meta TagFhetchSpecVersion (fhex_pack_version (version spec))
                  else meta);
          meta = (if date_known (date spec)
                  then put_meta_u64 h meta TagFhetchSpecDate (fhex_pack_spec_date (date spec))
                  else meta);
          meta = put_meta_string h meta TagProgramName (program_name md);
          meta = put_meta_string h meta TagProgramVersion (program_version md);
          meta = put_meta_string h meta TagTraceFile (trace_file md);
          meta = put_meta_string h meta TagDescription (description md);
          meta = put_meta_string h meta TagSourceFile (source_file md);
          meta = put_meta_string h meta TagBuildTimestamp (build_timestamp md);
          meta = put_meta_string h meta TagScheme (scheme md);
          meta = put_meta_string h meta TagSecurityLevel (security_level md);
          meta = put_meta_u64 h meta TagSourceLine (scast (source_line md));
          meta = put_meta_u64 h meta TagInstructionCount (scast (instruction_count md));
          meta = put_meta_u64 h meta TagGeneratedTimestamp (generated_timestamp md);
          meta = put_meta_u64 h meta TagRingDimension (scast (ring_dimension md));
          meta = put_meta_u64 h meta TagMultiplicativeDepth (scast (multiplicative_depth md));
          meta = put_meta_u64 h meta TagModulusChainLength (scast (modulus_chain_length md))
      in meta)"

text \<open>
  The \<open>switch\<close> of \<open>parse_metadata\<close> on one entry: \<open>None\<close> is its \<open>return false\<close> on a numeric tag whose
  payload is not eight bytes.
\<close>

definition meta_switch ::
  "bool \<Rightarrow> bytes \<Rightarrow> nat \<Rightarrow> nat \<Rightarrow> FhMetaTag \<Rightarrow> TraceMetadata \<times> FhetchSpec \<Rightarrow>
     DecodeFail + (TraceMetadata \<times> FhetchSpec) option" where
  "meta_switch h meta payload len tag = (\<lambda>(md, spec).
     let as_string = (\<lambda>set. res_bind (bytes_at meta payload len)
                        (\<lambda>raw. Inr (Some (set (map char_of_byte raw), spec))));
         as_u64 = (\<lambda>set. if len \<noteq> 8 then Inr None
                        else res_bind (get_scalar h meta payload) (\<lambda>v. Inr (Some (set v))))
     in if tag = TagProgramName then as_string (\<lambda>s. md\<lparr>program_name := s\<rparr>)
        else if tag = TagProgramVersion then as_string (\<lambda>s. md\<lparr>program_version := s\<rparr>)
        else if tag = TagTraceFile then as_string (\<lambda>s. md\<lparr>trace_file := s\<rparr>)
        else if tag = TagDescription then as_string (\<lambda>s. md\<lparr>description := s\<rparr>)
        else if tag = TagSourceFile then as_string (\<lambda>s. md\<lparr>source_file := s\<rparr>)
        else if tag = TagBuildTimestamp then as_string (\<lambda>s. md\<lparr>build_timestamp := s\<rparr>)
        else if tag = TagScheme then as_string (\<lambda>s. md\<lparr>scheme := s\<rparr>)
        else if tag = TagSecurityLevel then as_string (\<lambda>s. md\<lparr>security_level := s\<rparr>)
        else if tag = TagSourceLine then as_u64 (\<lambda>v. (md\<lparr>source_line := ucast (v :: u64)\<rparr>, spec))
        else if tag = TagInstructionCount then
          as_u64 (\<lambda>v. (md\<lparr>instruction_count := ucast v\<rparr>, spec))
        else if tag = TagGeneratedTimestamp then
          as_u64 (\<lambda>v. (md\<lparr>generated_timestamp := v\<rparr>, spec))
        else if tag = TagRingDimension then
          as_u64 (\<lambda>v. (md\<lparr>ring_dimension := ucast v\<rparr>, spec))
        else if tag = TagMultiplicativeDepth then
          as_u64 (\<lambda>v. (md\<lparr>multiplicative_depth := ucast v\<rparr>, spec))
        else if tag = TagModulusChainLength then
          as_u64 (\<lambda>v. (md\<lparr>modulus_chain_length := ucast v\<rparr>, spec))
        else if tag = TagFhetchSpecVersion then
          as_u64 (\<lambda>v. (md, spec\<lparr>version := fhex_unpack_version v\<rparr>))
        else if tag = TagFhetchSpecDate then
          as_u64 (\<lambda>v. (md, spec\<lparr>date := fhex_unpack_spec_date v\<rparr>))
        else Inr (Some (md, spec)))"

function parse_metadata_loop ::
  "bool \<Rightarrow> bytes \<Rightarrow> nat \<Rightarrow> TraceMetadata \<times> FhetchSpec \<Rightarrow>
     DecodeFail + (TraceMetadata \<times> FhetchSpec) option" where
  "parse_metadata_loop h meta off acc =
     (if off + sizeof_FhMetaEntry \<le> length meta then
        res_bind (get_scalar h meta (off + off_entry_tag)) (\<lambda>tag :: u16.
        res_bind (get_scalar h meta (off + off_entry_length)) (\<lambda>len :: u32.
          let payload = off + sizeof_FhMetaEntry in
          if payload + unat len > length meta then Inr None
          else res_bind (meta_switch h meta payload (unat len) tag acc) (\<lambda>r.
            case r of
              None \<Rightarrow> Inr None
            | Some acc' \<Rightarrow>
                parse_metadata_loop h meta (payload + unat (fhex_align_up (ucast len))) acc')))
      else Inr (Some acc))"
  by pat_completeness auto
termination
  by (relation "measure (\<lambda>(h, meta, off, acc). length meta - off)")
     (auto simp: sizeof_FhMetaEntry_def)

declare parse_metadata_loop.simps [simp del]

definition parse_metadata ::
  "bool \<Rightarrow> bytes \<Rightarrow> TraceMetadata \<times> FhetchSpec \<Rightarrow>
     DecodeFail + (TraceMetadata \<times> FhetchSpec) option" where
  "parse_metadata h meta acc = parse_metadata_loop h meta 0 acc"

section \<open>Records\<close>

definition to_record :: "Instruction \<Rightarrow> FhetchRecord" where
  "to_record inst =
     (let r = FhetchRecord_init\<lparr>r_opcode := opcode inst, r_dst := dest inst, r_src1 := src1 inst\<rparr>;
          r = (case fh_operand_form (opcode inst) of
                 PolyPoly \<Rightarrow> r\<lparr>r_flags := r_flags r OR FH_FLAG_HAS_SRC2, r_src2 := src2 inst\<rparr>
               | PolyPolyNI \<Rightarrow> r\<lparr>r_flags := r_flags r OR FH_FLAG_HAS_SRC2, r_src2 := src2 inst\<rparr>
               | _ \<Rightarrow> r);
          r = (case modulus inst of
                 Some m \<Rightarrow>
                   (let r = r\<lparr>r_flags := r_flags r OR FH_FLAG_HAS_MOD\<rparr>;
                        r = (if modulus_is_literal inst
                             then r\<lparr>r_flags := r_flags r OR FH_FLAG_MOD_LITERAL\<rparr> else r)
                    in r\<lparr>r_modulus := m\<rparr>)
               | None \<Rightarrow> r);
          r = (case fp_immediate inst of
                 Some bits \<Rightarrow> r\<lparr>r_flags := r_flags r OR FH_FLAG_HAS_IMM, r_imm := bits\<rparr>
               | None \<Rightarrow>
              (case immediate inst of
                 Some v \<Rightarrow> r\<lparr>r_flags := r_flags r OR FH_FLAG_HAS_IMM, r_imm := v\<rparr>
               | None \<Rightarrow>
              (case k_op inst of
                 Some v \<Rightarrow> r\<lparr>r_flags := r_flags r OR FH_FLAG_HAS_IMM, r_imm := v\<rparr>
               | None \<Rightarrow>
              (case offset inst of
                 Some v \<Rightarrow> r\<lparr>r_flags := r_flags r OR FH_FLAG_HAS_IMM, r_imm := v\<rparr>
               | None \<Rightarrow> r))));
          r = (case omega inst of
                 Some v \<Rightarrow> r\<lparr>r_flags := r_flags r OR FH_FLAG_HAS_AUX, r_aux := v\<rparr>
               | None \<Rightarrow>
              (case mask_op inst of
                 Some v \<Rightarrow> r\<lparr>r_flags := r_flags r OR FH_FLAG_HAS_AUX, r_aux := v\<rparr>
               | None \<Rightarrow> r))
      in (case logn inst of
            Some v \<Rightarrow> r\<lparr>r_flags := r_flags r OR FH_FLAG_HAS_LOGN, r_logn := v\<rparr>
          | None \<Rightarrow> r))"

definition from_record :: "FhetchRecord \<Rightarrow> Instruction" where
  "from_record rec =
     (let inst = Instruction_init\<lparr>opcode := r_opcode rec, dest := r_dst rec, src1 := r_src1 rec\<rparr>;
          inst = (if has_flag (r_flags rec) FH_FLAG_HAS_SRC2
                  then inst\<lparr>src2 := r_src2 rec\<rparr> else inst);
          inst = (if has_flag (r_flags rec) FH_FLAG_HAS_MOD
                  then inst\<lparr>modulus := Some (r_modulus rec),
                            modulus_is_literal := has_flag (r_flags rec) FH_FLAG_MOD_LITERAL\<rparr>
                  else inst);
          form = fh_operand_form (opcode inst);
          inst = (if has_flag (r_flags rec) FH_FLAG_HAS_IMM
                  then (case form of
                          AutomorphEval \<Rightarrow> inst\<lparr>k_op := Some (r_imm rec)\<rparr>
                        | AutomorphCoeff \<Rightarrow> inst\<lparr>k_op := Some (r_imm rec)\<rparr>
                        | RotAutomorphCoeff \<Rightarrow> inst\<lparr>offset := Some (r_imm rec)\<rparr>
                        | PolyScalarNI \<Rightarrow> inst\<lparr>fp_immediate := Some (r_imm rec)\<rparr>
                        | _ \<Rightarrow> inst\<lparr>immediate := Some (r_imm rec)\<rparr>)
                  else inst);
          inst = (if has_flag (r_flags rec) FH_FLAG_HAS_AUX
                  then (if form = Ntt then inst\<lparr>omega := Some (r_aux rec)\<rparr>
                        else inst\<lparr>mask_op := Some (r_aux rec)\<rparr>)
                  else inst)
      in (if has_flag (r_flags rec) FH_FLAG_HAS_LOGN
          then inst\<lparr>logn := Some (r_logn rec)\<rparr> else inst))"

text \<open>The body of the encoder's record loop, and the loop.\<close>

definition put_record :: "bool \<Rightarrow> bytes \<Rightarrow> FhetchRecord \<Rightarrow> bytes" where
  "put_record h out rec =
     (let fl = r_flags rec;
          out = put_scalar h out (r_opcode rec);
          out = put_scalar h out fl;
          out = (if has_flag fl FH_FLAG_HAS_LOGN then put_scalar h out (r_logn rec) else out);
          out = (if fh_opcode_has_operands (r_opcode rec)
                 then put_varint (put_varint out (ucast (r_dst rec))) (ucast (r_src1 rec))
                 else out);
          out = (if has_flag fl FH_FLAG_HAS_SRC2 then put_varint out (ucast (r_src2 rec)) else out);
          out = (if has_flag fl FH_FLAG_HAS_MOD then put_varint out (r_modulus rec) else out);
          out = (if has_flag fl FH_FLAG_HAS_IMM then put_varint out (r_imm rec) else out)
      in (if has_flag fl FH_FLAG_HAS_AUX then put_varint out (r_aux rec) else out))"

definition encode_fhetch_program ::
  "bool \<Rightarrow> TraceMetadata \<Rightarrow> u64 list \<Rightarrow> FhetchRecord list \<Rightarrow> FhetchSpec \<Rightarrow> cpp_error + bytes" where
  "encode_fhetch_program h md table records spec =
     (if \<not> spec_valid spec then Inl InvalidArgument
      else
        let meta = build_metadata h md spec;
            out = put_raw [] kFhexMagic;
            out = put_scalar h out kFhexVersion;
            out = put_scalar h out (0 :: u16);
            out = put_scalar h out (of_nat (length meta) :: u32);
            out = put_scalar h out (of_nat (length table) :: u32);
            out = put_scalar h out (of_nat (length records) :: u64);
            out = put_raw out meta;
            out = foldl (put_scalar h) out table
        in Inr (foldl (put_record h) out records))"

text \<open>An operand of the decoder's record loop: read when its flag says so, else left at zero.\<close>

definition read_varint :: "bool \<Rightarrow> bytes \<Rightarrow> nat \<Rightarrow> DecodeFail + u64 \<times> nat" where
  "read_varint present bs at =
     (if present then
        res_bind (get_varint bs at) (\<lambda>r.
          case r of None \<Rightarrow> Inl (DecodeErr Truncated) | Some x \<Rightarrow> Inr x)
      else Inr (0, at))"

definition read_varint_u32 :: "bool \<Rightarrow> bytes \<Rightarrow> nat \<Rightarrow> DecodeFail + u32 \<times> nat" where
  "read_varint_u32 present bs at =
     (if present then
        res_bind (get_varint_u32 bs at) (\<lambda>r.
          case r of None \<Rightarrow> Inl (DecodeErr Truncated) | Some x \<Rightarrow> Inr x)
      else Inr (0, at))"

definition decode_record :: "bytes \<Rightarrow> nat \<Rightarrow> DecodeFail + FhetchRecord \<times> nat" where
  "decode_record bs at =
     (if at + 2 > length bs then Inl (DecodeErr Truncated)
      else
        res_bind (byte_at bs at) (\<lambda>oc.
        res_bind (byte_at bs (at + 1)) (\<lambda>fl.
        res_bind (if has_flag fl FH_FLAG_HAS_LOGN then
                    if at + 2 \<ge> length bs then Inl (DecodeErr Truncated)
                    else res_bind (byte_at bs (at + 2)) (\<lambda>b. Inr (b, at + 3))
                  else Inr (0, at + 2)) (\<lambda>(lg, at).
        let ops = fh_opcode_has_operands oc in
        res_bind (read_varint_u32 ops bs at) (\<lambda>(d, at).
        res_bind (read_varint_u32 ops bs at) (\<lambda>(s1, at).
        res_bind (read_varint_u32 (has_flag fl FH_FLAG_HAS_SRC2) bs at) (\<lambda>(s2, at).
        res_bind (read_varint (has_flag fl FH_FLAG_HAS_MOD) bs at) (\<lambda>(m, at).
        res_bind (read_varint (has_flag fl FH_FLAG_HAS_IMM) bs at) (\<lambda>(im, at).
        res_bind (read_varint (has_flag fl FH_FLAG_HAS_AUX) bs at) (\<lambda>(ax, at).
          Inr (\<lparr>r_opcode = oc, r_flags = fl, r_logn = lg, r_dst = d, r_src1 = s1, r_src2 = s2,
                r_modulus = m, r_imm = im, r_aux = ax\<rparr>, at)))))))))))"

fun decode_records :: "nat \<Rightarrow> bytes \<Rightarrow> nat \<Rightarrow> DecodeFail + FhetchRecord list" where
  "decode_records 0 bs at = Inr []"
| "decode_records (Suc n) bs at =
     res_bind (decode_record bs at) (\<lambda>(rec, at').
     res_bind (decode_records n bs at') (\<lambda>recs. Inr (rec # recs)))"

fun decode_moduli :: "nat \<Rightarrow> bool \<Rightarrow> bytes \<Rightarrow> nat \<Rightarrow> DecodeFail + u64 list" where
  "decode_moduli 0 h bs at = Inr []"
| "decode_moduli (Suc n) h bs at =
     res_bind (get_scalar h bs at) (\<lambda>m.
     res_bind (decode_moduli n h bs (at + 8)) (\<lambda>ms. Inr (m # ms)))"

text \<open>\<open>None\<close> is the null pointer.\<close>

definition decode_fhetch_program :: "bool \<Rightarrow> bytes option \<Rightarrow> DecodeFail + FhexProgram" where
  "decode_fhetch_program h buf =
     (case buf of
        None \<Rightarrow> Inl (DecodeErr BadMagic)
      | Some bs \<Rightarrow>
        if length bs < kFhexPrologueBytes then Inl (DecodeErr BadMagic) else
        res_bind (bytes_at bs off_magic 4) (\<lambda>magic.
        if magic \<noteq> kFhexMagic then Inl (DecodeErr BadMagic) else
        res_bind (get_scalar h bs off_version) (\<lambda>ver :: u16.
        if ver \<noteq> kFhexVersion then Inl (DecodeErr UnsupportedVersion) else
        res_bind (get_scalar h bs off_metadata_bytes) (\<lambda>mb :: u32.
        res_bind (get_scalar h bs off_modulus_count) (\<lambda>mc :: u32.
        res_bind (get_scalar h bs off_instruction_count) (\<lambda>ic :: u64.
        let meta_bytes = unat mb; modulus_count = unat mc; inst_count = unat ic;
            meta_offset = kFhexPrologueBytes in
        if meta_bytes mod kFhexAlign \<noteq> 0 then Inl (DecodeErr Malformed) else
        if meta_bytes > length bs - meta_offset then Inl (DecodeErr Truncated) else
        let modulus_offset = meta_offset + meta_bytes in
        if modulus_count * 8 > length bs - modulus_offset then Inl (DecodeErr Truncated) else
        let record_offset = modulus_offset + modulus_count * 8 in
        if inst_count > (length bs - record_offset) div 2 then Inl (DecodeErr Truncated) else
        res_bind (bytes_at bs meta_offset meta_bytes) (\<lambda>meta.
        res_bind (parse_metadata h meta (TraceMetadata_init, FhetchSpec_init)) (\<lambda>r.
        case r of
          None \<Rightarrow> Inl (DecodeErr Malformed)
        | Some (md, spec) \<Rightarrow>
          if \<not> spec_valid spec then Inl (DecodeErr MissingSpec) else
          res_bind (decode_moduli modulus_count h bs modulus_offset) (\<lambda>table.
          res_bind (decode_records inst_count bs record_offset) (\<lambda>recs.
            Inr \<lparr>fp_metadata = md\<lparr>modulus_chain := table\<rparr>, fp_format_version = kFhexVersion,
                 fp_spec = spec, fp_modulus_table = table, fp_records = recs\<rparr>))))))))))"

section \<open>Files\<close>

text \<open>
  What the file system answers to \<open>read_fhetch_program\<close>: the file does not open, its size cannot be
  told, or it holds these bytes, of which a read may deliver all or fail.
\<close>

datatype file_state = Unopenable | SizeUnknown | ShortRead nat | Contents bytes

definition read_fhetch_program :: "bool \<Rightarrow> file_state \<Rightarrow> DecodeFail + FhexProgram" where
  "read_fhetch_program h f =
     (case f of
        Unopenable \<Rightarrow> Inl (DecodeErr BadMagic)
      | SizeUnknown \<Rightarrow> Inl (DecodeErr BadMagic)
      | ShortRead sz \<Rightarrow>
          if sz > kFhexMaxFileBytes then Inl (DecodeErr TooLarge)
          else if sz > 0 then Inl (DecodeErr Truncated)
          else decode_fhetch_program h (Some [])
      | Contents bs \<Rightarrow>
          if length bs > kFhexMaxFileBytes then Inl (DecodeErr TooLarge)
          else decode_fhetch_program h (Some bs))"

text \<open>
  \<open>write_fhetch_program\<close>: the bytes that reach the stream when the file opens.  \<open>opens\<close> and \<open>good\<close> are the
  answers of \<open>is_open()\<close> and \<open>good()\<close>.
\<close>

definition write_fhetch_program ::
  "bool \<Rightarrow> bool \<Rightarrow> bool \<Rightarrow> TraceMetadata \<Rightarrow> u64 list \<Rightarrow> FhetchRecord list \<Rightarrow> FhetchSpec \<Rightarrow>
     cpp_error + bool \<times> bytes option" where
  "write_fhetch_program h opens good md table records spec =
     res_bind (encode_fhetch_program h md table records spec) (\<lambda>bs.
       if \<not> opens then Inr (False, None) else Inr (good, Some bs))"

end
