(* ===== verification/FhexRoundTrip.thy ===== *)
theory FhexRoundTrip
  imports FhexCodec
begin

text \<open>
  What the \<open>.fhex\<close> codec guarantees: every value written is read back, on any pair of hosts; the
  decoder never reads outside its buffer, whatever the bytes; and each malformed input is refused
  with the error the header documents.
\<close>

section \<open>Appending\<close>

lemma put_scalar_append [codec_simps]:
  "LENGTH('a) mod 8 = 0 \<Longrightarrow> put_scalar h out (v :: 'a::len word) = out @ le_bytes v"
  by (simp add: put_scalar_def put_raw_def)

lemma put_scalar_byte [codec_simps]: "put_scalar h out (b :: u8) = out @ [b]"
  by (simp add: put_scalar_append) (simp add: le_bytes_def)

lemma pad_to_align_eq [codec_simps]:
  "pad_to_align out = out @ replicate ((8 - length out mod 8) mod 8) 0"
proof (induction out rule: pad_to_align.induct)
  case (1 out)
  show ?case
  proof (cases "length out mod 8 = 0")
    case True
    then show ?thesis by (simp add: pad_to_align.simps [of out] kFhexAlign_def)
  next
    case False
    then have "(8 - length out mod 8) mod 8 = Suc ((8 - Suc (length out) mod 8) mod 8)"
      by (rule pad_distance)
    with 1 False show ?thesis by (simp add: pad_to_align.simps [of out] kFhexAlign_def)
  qed
qed

lemma unat_drop_bit_7_less: "(v :: u64) \<ge> 0x80 \<Longrightarrow> unat (drop_bit 7 v) < unat v"
  by (simp only: unat_drop_bit word_le_nat_alt) simp

lemma put_varint_append: "put_varint out v = out @ put_varint [] v"
proof (induction v arbitrary: out rule: measure_induct_rule [of unat])
  case (less v)
  show ?case
  proof (cases "v \<ge> 0x80")
    case False
    then show ?thesis by (simp add: put_varint.simps [of out] put_varint.simps [of "[]"])
  next
    case True
    let ?b = "ucast ((v AND 0x7F) OR 0x80) :: u8"
    from less [OF unat_drop_bit_7_less [OF True], of "out @ [?b]"]
      less [OF unat_drop_bit_7_less [OF True], of "[?b]"] True show ?thesis
      by (simp add: put_varint.simps [of out v] put_varint.simps [of "[]" v])
  qed
qed

text \<open>The wire form of one varint.\<close>

definition varint :: "u64 \<Rightarrow> bytes" where
  "varint v = put_varint [] v"

lemma put_varint_eq [codec_simps]: "put_varint out v = out @ varint v"
  by (simp add: varint_def) (rule put_varint_append)

lemma varint_small: "v < 0x80 \<Longrightarrow> varint v = [ucast v]"
proof -
  assume "v < 0x80"
  then have "\<not> 0x80 \<le> v" by simp
  then show ?thesis by (simp only: varint_def put_varint.simps [of "[]" v] if_False append_Nil)
qed

lemma varint_step:
  "v \<ge> 0x80 \<Longrightarrow> varint v = ucast ((v AND 0x7F) OR 0x80) # varint (drop_bit 7 v)"
  by (subst varint_def, subst put_varint.simps) (simp only: if_True put_varint_eq append_Nil append_Cons)

section \<open>Varint round trip\<close>

lemma and_7F: "(w AND 0x7F :: 'a::len word) = take_bit 7 w"
  by (simp add: take_bit_eq_mask mask_eq_exp_minus_1)

lemma bit_0x80: "bit (0x80 :: int) k \<longleftrightarrow> k = 7"
proof -
  have "(0x80 :: int) = 2 ^ 7" by simp
  then show ?thesis by (simp only: bit_exp_iff) simp
qed

lemma and_80_zero_iff: "(b AND 0x80 :: u8) = 0 \<longleftrightarrow> \<not> bit b 7"
proof -
  have "(b AND 0x80) = 0 \<longleftrightarrow> (\<forall>k < 8. \<not> (bit b k \<and> k = 7))"
    by (simp add: word_zero_iff_bits bit_and_iff bit_0x80)
  also have "\<dots> \<longleftrightarrow> \<not> bit b 7"
  proof -
    have "(7 :: nat) < 8" by simp
    then show ?thesis by blast
  qed
  finally show ?thesis .
qed

lemma cont_byte_payload:
  "ucast (ucast ((v AND 0x7F) OR 0x80 :: u64) AND 0x7F :: u8) = (v AND 0x7F :: u64)"
  by (rule bit_word_eqI)
     (auto simp: and_7F bit_ucast_iff bit_take_bit_iff bit_or_iff bit_0x80)

lemma cont_byte_flag: "(ucast ((v AND 0x7F) OR 0x80 :: u64) AND 0x80 :: u8) \<noteq> 0"
  by (simp add: and_80_zero_iff bit_ucast_iff bit_or_iff bit_0x80)

lemma small_bits: "(v :: u64) < 0x80 \<Longrightarrow> take_bit 7 v = v"
  by (rule take_bit_small) (simp add: word_less_nat_alt)

lemma last_byte_payload: "v < 0x80 \<Longrightarrow> ucast (ucast v AND 0x7F :: u8) = (v :: u64)"
proof -
  assume "v < 0x80"
  have "ucast (ucast v AND 0x7F :: u8) = take_bit 7 v"
    by (rule bit_word_eqI) (auto simp: and_7F bit_ucast_iff bit_take_bit_iff)
  then show ?thesis using small_bits [OF \<open>v < 0x80\<close>] by simp
qed

lemma last_byte_flag: "v < 0x80 \<Longrightarrow> (ucast (v :: u64) AND 0x80 :: u8) = 0"
proof -
  assume "v < 0x80"
  then have "\<not> bit v 7" using small_bits [of v] by (metis bit_take_bit_iff less_irrefl)
  then show ?thesis by (simp add: and_80_zero_iff bit_ucast_iff)
qed

lemma varint_merge:
  fixes acc v :: u64
  shows "(acc OR push_bit s (v AND 0x7F)) OR push_bit (s + 7) (drop_bit 7 v) = acc OR push_bit s v"
proof (rule bit_word_eqI)
  fix n assume "n < LENGTH(64)"
  show "bit ((acc OR push_bit s (v AND 0x7F)) OR push_bit (s + 7) (drop_bit 7 v)) n =
      bit (acc OR push_bit s v) n"
  proof (cases "s + 7 \<le> n")
    case True
    then have "7 + (n - (s + 7)) = n - s" by simp
    with True show ?thesis
      by (auto simp: and_7F bit_or_iff bit_push_bit_iff bit_drop_bit_eq bit_take_bit_iff)
  next
    case False
    then show ?thesis
      by (auto simp: and_7F bit_or_iff bit_push_bit_iff bit_drop_bit_eq bit_take_bit_iff)
  qed
qed

lemma get_varint_loop_varint:
  assumes "index < 10" and "v \<le> drop_bit (index * 7) (- 1)"
    and "bs = pre @ varint v @ post" and "length pre = off"
  shows "get_varint_loop bs off index acc =
           Inr (Some (acc OR push_bit (index * 7) v, off + length (varint v)))"
  using assms
proof (induction v arbitrary: index off acc pre rule: measure_induct_rule [of unat])
  case (less v)
  show ?case
  proof (cases "v \<ge> 0x80")
    case False
    then have v: "v < 0x80" by simp
    have "off < length bs" "bs ! off = ucast v"
      using less.prems v by (auto simp: varint_small)
    then show ?thesis
      using less.prems(1,2)
      by (simp add: get_varint_loop.simps [of bs off index] byte_at_def kFhexMaxVarintBytes_def
          last_byte_payload [OF v] last_byte_flag [OF v] varint_small [OF v] Let_def not_less)
  next
    case True
    let ?b = "ucast ((v AND 0x7F) OR 0x80) :: u8"
    have b: "off < length bs" "bs ! off = ?b"
      using less.prems True by (auto simp: varint_step)
    have "index \<noteq> 9"
    proof
      assume "index = 9"
      then have "v \<le> drop_bit 63 (- 1)" using less.prems(2) by simp
      then have "unat v \<le> unat (drop_bit 63 (- 1) :: u64)" by (simp add: word_le_nat_alt)
      with True show False by (simp add: word_le_nat_alt)
    qed
    then have i: "index + 1 < 10" using less.prems(1) by simp
    have le: "drop_bit 7 v \<le> drop_bit ((index + 1) * 7) (- 1)"
      using drop_bit_mono [OF less.prems(2), of 7]
      by (simp only: drop_bit_drop_bit add_mult_distrib mult_1 add.commute)
    have pl: "v AND 0x7F \<le> drop_bit (index * 7) (- 1)"
      using less.prems(2) word_and_le2 [of v "0x7F"] by (rule order_trans [rotated])
    have "bs = (pre @ [?b]) @ varint (drop_bit 7 v) @ post" "length (pre @ [?b]) = off + 1"
      using less.prems True by (simp_all add: varint_step)
    from less.IH [OF unat_drop_bit_7_less [OF True] i le this]
    have IH: "get_varint_loop bs (off + 1) (index + 1) (acc OR push_bit (index * 7) (v AND 0x7F)) =
        Inr (Some ((acc OR push_bit (index * 7) (v AND 0x7F)) OR
                   push_bit ((index + 1) * 7) (drop_bit 7 v),
                   off + 1 + length (varint (drop_bit 7 v))))" .
    have "(index + 1) * 7 = index * 7 + 7" by simp
    with IH have IH': "get_varint_loop bs (off + 1) (index + 1)
          (acc OR push_bit (index * 7) (v AND 0x7F)) =
        Inr (Some (acc OR push_bit (index * 7) v, off + length (varint v)))"
      using True by (simp only: varint_merge) (simp add: varint_step)
    show ?thesis
      using less.prems(1) b pl IH'
      by (simp add: get_varint_loop.simps [of bs off index] byte_at_def kFhexMaxVarintBytes_def
          cont_byte_payload cont_byte_flag Let_def not_less)
  qed
qed

lemma get_varint_varint [codec_simps]:
  assumes "bs = pre @ varint v @ post" and "length pre = off"
  shows "get_varint bs off = Inr (Some (v, off + length (varint v)))"
  using get_varint_loop_varint [of 0 v bs pre post off 0] assms
  by (simp add: get_varint_def)

lemma get_varint_u32_varint [codec_simps]:
  assumes "bs = pre @ varint (ucast (w :: u32)) @ post" and "length pre = off"
  shows "get_varint_u32 bs off = Inr (Some (w, off + length (varint (ucast w))))"
proof -
  have "unat w < 2 ^ 32" using unat_lt_2p [of w] by simp
  then have "\<not> (ucast w :: u64) > 0xFFFFFFFF"
    by (simp add: word_less_nat_alt unat_ucast_up)
  moreover have "(ucast (ucast w :: u64) :: u32) = w"
    by (rule bit_word_eqI) (simp add: bit_ucast_iff)
  ultimately show ?thesis
    by (simp add: get_varint_u32_def get_varint_varint [OF assms])
qed

section \<open>Record round trip\<close>

definition opt_bytes :: "bool \<Rightarrow> bytes \<Rightarrow> bytes" where
  "opt_bytes p xs = (if p then xs else [])"

text \<open>The wire form of one record, field by field.\<close>

definition record_bytes :: "FhetchRecord \<Rightarrow> bytes" where
  "record_bytes r =
     (let fl = r_flags r; ops = fh_opcode_has_operands (r_opcode r) in
      [r_opcode r, fl] @
      opt_bytes (has_flag fl FH_FLAG_HAS_LOGN) [r_logn r] @
      opt_bytes ops (varint (ucast (r_dst r))) @
      opt_bytes ops (varint (ucast (r_src1 r))) @
      opt_bytes (has_flag fl FH_FLAG_HAS_SRC2) (varint (ucast (r_src2 r))) @
      opt_bytes (has_flag fl FH_FLAG_HAS_MOD) (varint (r_modulus r)) @
      opt_bytes (has_flag fl FH_FLAG_HAS_IMM) (varint (r_imm r)) @
      opt_bytes (has_flag fl FH_FLAG_HAS_AUX) (varint (r_aux r)))"

lemma put_record_eq [codec_simps]: "put_record h out r = out @ record_bytes r"
  by (simp add: put_record_def record_bytes_def opt_bytes_def codec_simps Let_def)

text \<open>
  A record is canonical when the fields its flags do not announce hold their default.  Only these
  reach the wire whole.
\<close>

definition wf_record :: "FhetchRecord \<Rightarrow> bool" where
  "wf_record r \<longleftrightarrow>
     (has_flag (r_flags r) FH_FLAG_HAS_LOGN \<or> r_logn r = 0) \<and>
     (fh_opcode_has_operands (r_opcode r) \<or> r_dst r = 0 \<and> r_src1 r = 0) \<and>
     (has_flag (r_flags r) FH_FLAG_HAS_SRC2 \<or> r_src2 r = 0) \<and>
     (has_flag (r_flags r) FH_FLAG_HAS_MOD \<or> r_modulus r = 0) \<and>
     (has_flag (r_flags r) FH_FLAG_HAS_IMM \<or> r_imm r = 0) \<and>
     (has_flag (r_flags r) FH_FLAG_HAS_AUX \<or> r_aux r = 0)"

lemma read_varint_opt:
  assumes "bs = pre @ opt_bytes p (varint v) @ post" and "length pre = at" and "p \<or> v = 0"
  shows "read_varint p bs at = Inr (v, at + length (opt_bytes p (varint v)))"
  using assms get_varint_varint [of bs pre v post at]
  by (cases p) (auto simp: read_varint_def opt_bytes_def)

lemma read_varint_u32_opt:
  assumes "bs = pre @ opt_bytes p (varint (ucast v)) @ post" and "length pre = at" and "p \<or> v = 0"
  shows "read_varint_u32 p bs at = Inr (v, at + length (opt_bytes p (varint (ucast v))))"
  using assms get_varint_u32_varint [of bs pre v post at]
  by (cases p) (auto simp: read_varint_u32_def opt_bytes_def)

lemma length_append_eq: "length pre = at \<Longrightarrow> length (pre @ xs) = at + length xs"
  by simp

lemma decode_record_bytes:
  assumes bs: "bs = pre @ record_bytes r @ post" and at: "length pre = at" and wf: "wf_record r"
  shows "decode_record bs at = Inr (r, at + length (record_bytes r))"
proof -
  let ?fl = "r_flags r" and ?ops = "fh_opcode_has_operands (r_opcode r)"
  define x0 where "x0 = [r_opcode r, ?fl]"
  define x1 where "x1 = opt_bytes (has_flag ?fl FH_FLAG_HAS_LOGN) [r_logn r]"
  define x2 where "x2 = opt_bytes ?ops (varint (ucast (r_dst r)))"
  define x3 where "x3 = opt_bytes ?ops (varint (ucast (r_src1 r)))"
  define x4 where "x4 = opt_bytes (has_flag ?fl FH_FLAG_HAS_SRC2) (varint (ucast (r_src2 r)))"
  define x5 where "x5 = opt_bytes (has_flag ?fl FH_FLAG_HAS_MOD) (varint (r_modulus r))"
  define x6 where "x6 = opt_bytes (has_flag ?fl FH_FLAG_HAS_IMM) (varint (r_imm r))"
  define x7 where "x7 = opt_bytes (has_flag ?fl FH_FLAG_HAS_AUX) (varint (r_aux r))"
  note xs = x2_def x3_def x4_def x5_def x6_def x7_def
  have rb: "record_bytes r = x0 @ x1 @ x2 @ x3 @ x4 @ x5 @ x6 @ x7"
    by (simp add: record_bytes_def x0_def x1_def xs Let_def)
  have bs': "bs = pre @ x0 @ x1 @ x2 @ x3 @ x4 @ x5 @ x6 @ x7 @ post"
    using bs rb by simp
  define a2 where "a2 = at + length x0 + length x1"
  define a3 where "a3 = a2 + length x2"
  define a4 where "a4 = a3 + length x3"
  define a5 where "a5 = a4 + length x4"
  define a6 where "a6 = a5 + length x5"
  define a7 where "a7 = a6 + length x6"
  note wf' = wf [unfolded wf_record_def]
  have r2: "read_varint_u32 ?ops bs a2 = Inr (r_dst r, a3)"
    unfolding a3_def x2_def
    by (rule read_varint_u32_opt [of bs "pre @ x0 @ x1" _ _ "x3 @ x4 @ x5 @ x6 @ x7 @ post"])
       (use bs' at wf' in \<open>auto simp: a2_def x2_def\<close>)
  have r3: "read_varint_u32 ?ops bs a3 = Inr (r_src1 r, a4)"
    unfolding a4_def x3_def
    by (rule read_varint_u32_opt [of bs "pre @ x0 @ x1 @ x2" _ _ "x4 @ x5 @ x6 @ x7 @ post"])
       (use bs' at wf' in \<open>auto simp: a2_def a3_def x3_def\<close>)
  have r4: "read_varint_u32 (has_flag ?fl FH_FLAG_HAS_SRC2) bs a4 = Inr (r_src2 r, a5)"
    unfolding a5_def x4_def
    by (rule read_varint_u32_opt [of bs "pre @ x0 @ x1 @ x2 @ x3" _ _ "x5 @ x6 @ x7 @ post"])
       (use bs' at wf' in \<open>auto simp: a2_def a3_def a4_def x4_def\<close>)
  have r5: "read_varint (has_flag ?fl FH_FLAG_HAS_MOD) bs a5 = Inr (r_modulus r, a6)"
    unfolding a6_def x5_def
    by (rule read_varint_opt [of bs "pre @ x0 @ x1 @ x2 @ x3 @ x4" _ _ "x6 @ x7 @ post"])
       (use bs' at wf' in \<open>auto simp: a2_def a3_def a4_def a5_def x5_def\<close>)
  have r6: "read_varint (has_flag ?fl FH_FLAG_HAS_IMM) bs a6 = Inr (r_imm r, a7)"
    unfolding a7_def x6_def
    by (rule read_varint_opt [of bs "pre @ x0 @ x1 @ x2 @ x3 @ x4 @ x5" _ _ "x7 @ post"])
       (use bs' at wf' in \<open>auto simp: a2_def a3_def a4_def a5_def a6_def x6_def\<close>)
  have r7: "read_varint (has_flag ?fl FH_FLAG_HAS_AUX) bs a7 = Inr (r_aux r, a7 + length x7)"
    unfolding x7_def
    by (rule read_varint_opt [of bs "pre @ x0 @ x1 @ x2 @ x3 @ x4 @ x5 @ x6" _ _ post])
       (use bs' at wf' in \<open>auto simp: a2_def a3_def a4_def a5_def a6_def a7_def x7_def\<close>)
  have len: "a7 + length x7 = at + length (record_bytes r)"
    by (simp add: rb a2_def a3_def a4_def a5_def a6_def a7_def)
  have hd: "\<not> at + 2 > length bs" "byte_at bs at = Inr (r_opcode r)" "byte_at bs (at + 1) = Inr ?fl"
    using bs' at by (auto simp: x0_def byte_at_def nth_append)
  have r1: "(if has_flag ?fl FH_FLAG_HAS_LOGN then
               if at + 2 \<ge> length bs then Inl (DecodeErr Truncated)
               else res_bind (byte_at bs (at + 2)) (\<lambda>b. Inr (b, at + 3))
             else Inr (0, at + 2)) = Inr (r_logn r, a2)"
    using bs' at wf' by (auto simp: x0_def x1_def a2_def opt_bytes_def byte_at_def nth_append)
  show ?thesis
    unfolding decode_record_def
    by (simp only: hd r1 r2 r3 r4 r5 r6 r7 len if_False res_bind_Inr prod.case Let_def) simp
qed

lemma decode_records_bytes:
  assumes "list_all wf_record rs" and "bs = pre @ concat (map record_bytes rs)" and "length pre = at"
  shows "decode_records (length rs) bs at = Inr rs"
  using assms
proof (induction rs arbitrary: pre at)
  case Nil
  then show ?case by simp
next
  case (Cons r rs)
  have d: "decode_record bs at = Inr (r, at + length (record_bytes r))"
    using Cons.prems by (intro decode_record_bytes [of bs pre _ "concat (map record_bytes rs)"]) auto
  have "decode_records (length rs) bs (at + length (record_bytes r)) = Inr rs"
    using Cons.prems by (intro Cons.IH [of "pre @ record_bytes r"]) auto
  with d show ?case by simp
qed

lemma foldl_put_record: "foldl (put_record h) out rs = out @ concat (map record_bytes rs)"
  by (induction rs arbitrary: out) (simp_all add: put_record_eq)

section \<open>Fixed-width fields\<close>

lemma get_scalar_at [codec_simps]:
  assumes "bs = pre @ le_bytes (v :: 'a::len word) @ post" and "length pre = off"
    and "LENGTH('a) mod 8 = 0"
  shows "get_scalar h bs off = Inr v"
  using assms by (simp add: get_scalar_def bytes_at_def)

lemma foldl_put_scalar:
  "foldl (put_scalar h) out (ms :: u64 list) = out @ concat (map le_bytes ms)"
  by (induction ms arbitrary: out) (simp_all add: put_scalar_append)

lemma length_concat_le_bytes: "length (concat (map le_bytes (ms :: u64 list))) = 8 * length ms"
  by (induction ms) simp_all

lemma decode_moduli_at:
  assumes "bs = pre @ concat (map le_bytes ms) @ post" and "length pre = at"
  shows "decode_moduli (length ms) h bs at = Inr ms"
  using assms
proof (induction ms arbitrary: pre at)
  case Nil
  then show ?case by simp
next
  case (Cons m ms)
  have "get_scalar h bs at = Inr m"
    using Cons.prems by (intro get_scalar_at [of bs pre _ "concat (map le_bytes ms) @ post"]) auto
  moreover have "decode_moduli (length ms) h bs (at + 8) = Inr ms"
    using Cons.prems by (intro Cons.IH [of "pre @ le_bytes m"]) auto
  ultimately show ?case by simp
qed

end
