(* ===== verification/FhexMeta.thy ===== *)
theory FhexMeta
  imports FhexRoundTrip
begin

text \<open>
  The metadata section: a sequence of tagged entries.  Building one and parsing it back gives the
  same metadata and the same specification identity, on any pair of hosts.
\<close>

section \<open>Alignment\<close>

lemma round_up_8: "(n :: nat) + (8 - n mod 8) mod 8 = (n + 7) div 8 * 8"
proof (cases "n mod 8 = 0")
  case True
  then obtain a where "n = 8 * a" by auto
  then show ?thesis by simp
next
  case False
  define a r where "a = n div 8" and "r = n mod 8"
  have n: "n = 8 * a + r" and r: "0 < r" "r < 8"
    using False by (simp_all add: a_def r_def)
  have "(8 - r) mod 8 = 8 - r" using r by simp
  moreover have "(n + 7) div 8 = a + 1" using n r by simp
  ultimately show ?thesis using n r by (simp add: r_def [symmetric])
qed

lemma and_not_7: "unat ((x :: u64) AND NOT 7) = unat x div 8 * 8"
proof -
  have "(x AND NOT 7) = push_bit 3 (drop_bit 3 x)"
  proof (rule bit_word_eqI)
    fix k assume "k < LENGTH(64)"
    have "bit (7 :: u64) k \<longleftrightarrow> k < 3"
    proof -
      have "(7 :: u64) = mask 3" by (simp add: mask_eq_exp_minus_1)
      then show ?thesis by (simp only: bit_mask_iff) (auto simp: possible_bit_word)
    qed
    then show "bit (x AND NOT 7) k = bit (push_bit 3 (drop_bit 3 x)) k"
      using \<open>k < LENGTH(64)\<close>
      by (simp only: bit_and_iff bit_not_iff bit_push_bit_iff bit_drop_bit_eq)
         (auto simp: possible_bit_word)
  qed
  moreover have "unat (push_bit 3 (drop_bit 3 x)) = unat x div 8 * 8"
  proof -
    have "unat (push_bit 3 (drop_bit 3 x)) = take_bit 64 (push_bit 3 (unat (drop_bit 3 x)))"
      by (simp only: unsigned_push_bit_eq) simp
    also have "push_bit 3 (unat (drop_bit 3 x)) = unat x div 8 * 8"
      by (simp only: unat_drop_bit push_bit_eq_mult) simp
    also have "take_bit 64 (unat x div 8 * 8) = unat x div 8 * 8"
    proof (rule take_bit_nat_eq_self)
      have "unat x div 8 * 8 \<le> unat x" by simp
      then show "unat x div 8 * 8 < 2 ^ 64" using unat_lt_2p [of x] by simp
    qed
    finally show ?thesis .
  qed
  ultimately show ?thesis by simp
qed

lemma unat_fhex_align_up:
  "unat n < 2 ^ 63 \<Longrightarrow> unat (fhex_align_up n) = (unat n + 7) div 8 * 8"
proof -
  assume "unat n < 2 ^ 63"
  then have "unat (n + 7) = unat n + 7"
    by (simp add: unat_word_ariths)
  moreover have "fhex_align_up n = (n + 7) AND NOT 7"
    by (simp add: fhex_align_up_def kFhexAlign_def add.commute)
  ultimately show ?thesis by (simp only: and_not_7)
qed

section \<open>Entries\<close>

type_synonym meta_entry = "FhMetaTag \<times> bytes"

definition entry_bytes :: "meta_entry \<Rightarrow> bytes" where
  "entry_bytes e =
     (case e of (tag, pl) \<Rightarrow>
        le_bytes tag @ le_bytes (0 :: u16) @ le_bytes (of_nat (length pl) :: u32) @ pl @
        replicate ((8 - length pl mod 8) mod 8) 0)"

lemma length_entry_bytes [simp]:
  "length (entry_bytes (tag, pl)) = 8 + (length pl + 7) div 8 * 8"
  using round_up_8 [of "length pl"] by (simp add: entry_bytes_def)

lemma length_entries_mod_8: "length (concat (map entry_bytes es)) mod 8 = 0"
proof (induction es)
  case (Cons e es)
  have "length (entry_bytes e) mod 8 = 0"
  proof -
    obtain t pl where "e = (t, pl)" by fastforce
    moreover have "(8 + (length pl + 7) div 8 * 8) mod 8 = 0"
      by (metis mod_add_self1 mod_mult_self2_is_0 mult.commute)
    ultimately show ?thesis by simp
  qed
  with Cons show ?case by (simp only: list.map concat.simps length_append) presburger
qed simp

lemma put_meta_entry_eq [codec_simps]:
  assumes "length out mod 8 = 0"
  shows "put_meta_entry h out tag pl = out @ entry_bytes (tag, pl)"
proof -
  have "(length out + (8 + length pl)) mod 8 = length pl mod 8"
    using assms by (auto simp: mod_eq_0_iff_dvd)
  then show ?thesis
    by (simp add: put_meta_entry_def entry_bytes_def codec_simps put_raw_def Let_def ac_simps)
qed

definition str_entry :: "FhMetaTag \<Rightarrow> string \<Rightarrow> meta_entry list" where
  "str_entry tag s = (if s = [] then [] else [(tag, map byte_of_char s)])"

definition u64_entry :: "FhMetaTag \<Rightarrow> u64 \<Rightarrow> meta_entry list" where
  "u64_entry tag v = (if v = 0 then [] else [(tag, le_bytes v)])"

definition meta_entries :: "TraceMetadata \<Rightarrow> FhetchSpec \<Rightarrow> meta_entry list" where
  "meta_entries md spec =
     (if version_known (version spec)
      then u64_entry TagFhetchSpecVersion (fhex_pack_version (version spec)) else []) @
     (if date_known (date spec)
      then u64_entry TagFhetchSpecDate (fhex_pack_spec_date (date spec)) else []) @
     str_entry TagProgramName (program_name md) @
     str_entry TagProgramVersion (program_version md) @
     str_entry TagTraceFile (trace_file md) @
     str_entry TagDescription (description md) @
     str_entry TagSourceFile (source_file md) @
     str_entry TagBuildTimestamp (build_timestamp md) @
     str_entry TagScheme (scheme md) @
     str_entry TagSecurityLevel (security_level md) @
     u64_entry TagSourceLine (scast (source_line md)) @
     u64_entry TagInstructionCount (scast (instruction_count md)) @
     u64_entry TagGeneratedTimestamp (generated_timestamp md) @
     u64_entry TagRingDimension (scast (ring_dimension md)) @
     u64_entry TagMultiplicativeDepth (scast (multiplicative_depth md)) @
     u64_entry TagModulusChainLength (scast (modulus_chain_length md))"

lemma put_meta_string_eq:
  "put_meta_string h (concat (map entry_bytes es)) tag s =
     concat (map entry_bytes (es @ str_entry tag s))"
  by (simp add: put_meta_string_def str_entry_def put_meta_entry_eq length_entries_mod_8)

lemma put_meta_u64_eq:
  "put_meta_u64 h (concat (map entry_bytes es)) tag v =
     concat (map entry_bytes (es @ u64_entry tag v))"
  by (simp add: put_meta_u64_def u64_entry_def put_meta_entry_eq length_entries_mod_8)

lemma build_metadata_eq:
  "build_metadata h md spec = concat (map entry_bytes (meta_entries md spec))"
proof -
  define ev where "ev = (if version_known (version spec)
      then u64_entry TagFhetchSpecVersion (fhex_pack_version (version spec)) else [])"
  define ed where "ed = (if date_known (date spec)
      then u64_entry TagFhetchSpecDate (fhex_pack_spec_date (date spec)) else [])"
  have v: "(if version_known (version spec)
            then put_meta_u64 h [] TagFhetchSpecVersion (fhex_pack_version (version spec)) else [])
         = concat (map entry_bytes ev)"
    using put_meta_u64_eq [of h "[]"] by (simp add: ev_def)
  have d: "(if date_known (date spec)
            then put_meta_u64 h (concat (map entry_bytes ev)) TagFhetchSpecDate
                   (fhex_pack_spec_date (date spec))
            else concat (map entry_bytes ev)) = concat (map entry_bytes (ev @ ed))"
    by (simp only: put_meta_u64_eq ed_def) simp
  show ?thesis
    unfolding build_metadata_def Let_def v d
    by (simp only: put_meta_u64_eq put_meta_string_eq meta_entries_def ev_def [symmetric]
        ed_def [symmetric] append_assoc)
qed

section \<open>Parsing entries\<close>

text \<open>What one entry does to the metadata, as a function of its payload.\<close>

definition payload_u64 :: "bytes \<Rightarrow> u64" where
  "payload_u64 pl = word_of_le_bytes pl"

definition apply_entry ::
  "meta_entry \<Rightarrow> TraceMetadata \<times> FhetchSpec \<Rightarrow> (TraceMetadata \<times> FhetchSpec) option" where
  "apply_entry e acc =
     (case meta_switch True (snd e) 0 (length (snd e)) (fst e) acc of Inr r \<Rightarrow> r | Inl _ \<Rightarrow> None)"

lemma bytes_at_payload:
  "meta = pre @ pl @ post \<Longrightarrow> bytes_at meta (length pre) (length pl) = Inr pl"
  by (simp add: bytes_at_def)

lemma bytes_at_whole: "bytes_at pl 0 (length pl) = Inr pl"
  by (simp add: bytes_at_def)

lemma get_scalar_payload:
  assumes "meta = pre @ pl @ post" and "length pl = 8"
  shows "get_scalar h meta (length pre) = (Inr (word_of_le_bytes pl) :: DecodeFail + u64)"
proof -
  have "le_bytes (word_of_le_bytes pl :: u64) = pl"
  proof (rule nth_equalityI)
    show "length (le_bytes (word_of_le_bytes pl :: u64)) = length pl" using assms by simp
  next
    fix i assume "i < length (le_bytes (word_of_le_bytes pl :: u64))"
    then have i: "i < 8" by simp
    show "le_bytes (word_of_le_bytes pl :: u64) ! i = pl ! i"
    proof (rule bit_word_eqI)
      fix k assume "k < LENGTH(8)"
      then have k: "k < 8" by simp
      then have "(8 * i + k) div 8 = i" "(8 * i + k) mod 8 = k" "8 * i + k < 64" using i by simp_all
      then show "bit (le_bytes (word_of_le_bytes pl :: u64) ! i) k = bit (pl ! i) k"
        using i k assms(2) by (simp add: bit_le_bytes_nth bit_word_of_le_bytes)
    qed
  qed
  then have "meta = pre @ le_bytes (word_of_le_bytes pl :: u64) @ post" using assms by simp
  then show ?thesis by (rule get_scalar_at) simp_all
qed

lemma meta_switch_payload:
  assumes meta: "meta = pre @ pl @ post"
  shows "meta_switch h meta (length pre) (length pl) tag acc = Inr (apply_entry (tag, pl) acc)"
proof -
  have s: "res_bind (bytes_at meta (length pre) (length pl)) f = f pl" for f :: "bytes \<Rightarrow> DecodeFail + 'x"
    using meta by (simp add: bytes_at_payload)
  have s0: "res_bind (bytes_at pl 0 (length pl)) f = f pl" for f :: "bytes \<Rightarrow> DecodeFail + 'x"
    by (simp add: bytes_at_whole)
  have n: "length pl = 8 \<Longrightarrow> res_bind (get_scalar h meta (length pre)) f = f (word_of_le_bytes pl)"
    for f :: "u64 \<Rightarrow> DecodeFail + 'x"
    using meta by (simp add: get_scalar_payload)
  have n0: "length pl = 8 \<Longrightarrow> res_bind (get_scalar True pl 0) f = f (word_of_le_bytes pl)"
    for f :: "u64 \<Rightarrow> DecodeFail + 'x"
    using get_scalar_payload [of pl "[]" pl "[]" True] by simp
  obtain md spec where acc: "acc = (md, spec)" by fastforce
  show ?thesis
    unfolding apply_entry_def meta_switch_def acc prod.case fst_conv snd_conv Let_def
    by (simp only: s s0 n n0 if_distrib [of "\<lambda>x. case x of Inr r \<Rightarrow> r | Inl _ \<Rightarrow> None"]
        sum.case cong: if_cong) (simp add: n n0)
qed


fun apply_entries ::
  "meta_entry list \<Rightarrow> TraceMetadata \<times> FhetchSpec \<Rightarrow> (TraceMetadata \<times> FhetchSpec) option" where
  "apply_entries [] acc = Some acc"
| "apply_entries (e # es) acc =
     (case apply_entry e acc of None \<Rightarrow> None | Some acc' \<Rightarrow> apply_entries es acc')"

lemma apply_entries_append:
  "apply_entries (es @ es') acc =
     (case apply_entries es acc of None \<Rightarrow> None | Some acc' \<Rightarrow> apply_entries es' acc')"
  by (induction es arbitrary: acc) (auto split: option.splits)

lemma parse_metadata_loop_entries:
  assumes "list_all (\<lambda>e. length (snd e) < 2 ^ 32) es"
    and "meta = pre @ concat (map entry_bytes es)" and "length pre = off"
  shows "parse_metadata_loop h meta off acc = Inr (apply_entries es acc)"
  using assms
proof (induction es arbitrary: pre off acc)
  case Nil
  then have "\<not> off + sizeof_FhMetaEntry \<le> length meta" by (simp add: sizeof_FhMetaEntry_def)
  then show ?case by (simp add: parse_metadata_loop.simps [of h meta off])
next
  case (Cons e es)
  obtain tag pl where e: "e = (tag, pl)" by fastforce
  define n where "n = (of_nat (length pl) :: u32)"
  define pad where "pad = replicate ((8 - length pl mod 8) mod 8) (0 :: u8)"
  define rest where "rest = concat (map entry_bytes es)"
  have pl: "length pl < 2 ^ 32" using Cons.prems(1) e by simp
  then have n: "unat n = length pl" unfolding n_def by (subst unat_of_nat_small) simp_all
  have "entry_bytes e = le_bytes tag @ le_bytes (0 :: u16) @ le_bytes n @ pl @ pad"
    by (simp add: e entry_bytes_def n_def pad_def)
  then have meta: "meta = pre @ le_bytes tag @ le_bytes (0 :: u16) @ le_bytes n @ pl @ pad @ rest"
    using Cons.prems(2) by (simp add: rest_def)
  have tag: "get_scalar h meta (off + off_entry_tag) = Inr tag"
    using meta Cons.prems(3) by (intro get_scalar_at [of meta pre]) (auto simp: off_entry_tag_def)
  have len: "get_scalar h meta (off + off_entry_length) = Inr n"
    using meta Cons.prems(3)
    by (intro get_scalar_at [of meta "pre @ le_bytes tag @ le_bytes (0 :: u16)"])
       (auto simp: off_entry_length_def)
  define P where "P = pre @ le_bytes tag @ le_bytes (0 :: u16) @ le_bytes n"
  have P: "length P = off + 8" using Cons.prems(3) by (simp add: P_def)
  have "meta_switch h meta (length P) (length pl) tag acc = Inr (apply_entry (tag, pl) acc)"
    using meta by (intro meta_switch_payload [of meta P pl "pad @ rest"]) (simp add: P_def)
  then have sw: "meta_switch h meta (off + 8) (length pl) tag acc = Inr (apply_entry (tag, pl) acc)"
    by (simp add: P)
  have "unat (ucast n :: u64) = length pl" using n by (simp add: unat_ucast_up)
  then have up: "unat (fhex_align_up (ucast n)) = (length pl + 7) div 8 * 8"
    using pl by (simp add: unat_fhex_align_up)
  have "length (pre @ entry_bytes e) = off + 8 + (length pl + 7) div 8 * 8"
    using Cons.prems(3) by (simp add: e)
  then have IH: "parse_metadata_loop h meta (off + 8 + (length pl + 7) div 8 * 8) acc' =
      Inr (apply_entries es acc')" for acc'
    using Cons.prems by (intro Cons.IH [of "pre @ entry_bytes e"]) auto
  have b: "off + 8 \<le> length meta" "\<not> off + 8 + length pl > length meta"
    using meta Cons.prems(3) by simp_all
  show ?case
    using b
    by (subst parse_metadata_loop.simps)
       (auto simp: tag len n sw up IH e sizeof_FhMetaEntry_def Let_def split: option.splits)
qed

section \<open>Metadata round trip\<close>

lemma char_of_byte_of_char [simp]: "char_of_byte (byte_of_char c) = c"
proof -
  have "(of_char c :: nat) < 2 ^ LENGTH(8)"
    using nat_of_char_less_256 [of c] by simp
  then have "unat (byte_of_char c) = of_char c"
    unfolding byte_of_char_def by (rule unat_of_nat_small)
  then show ?thesis by (simp add: char_of_byte_def)
qed

lemma char_of_byte_comp [simp]: "char_of_byte \<circ> byte_of_char = id"
  by (simp add: fun_eq_iff)

lemma get_scalar_le_bytes: "get_scalar h (le_bytes (v :: u64)) 0 = Inr v"
  by (rule get_scalar_at [of _ "[]" v "[]"]) simp_all

lemmas apply_entry_unfold =
  apply_entry_def meta_switch_def bytes_at_def get_scalar_le_bytes Let_def

lemma apply_str_entry:
  "program_name md = [] \<Longrightarrow> apply_entries (str_entry 1 s) (md, sp) = Some (md\<lparr>program_name := s\<rparr>, sp)"
  "program_version md = [] \<Longrightarrow> apply_entries (str_entry 16 s) (md, sp) = Some (md\<lparr>program_version := s\<rparr>, sp)"
  "trace_file md = [] \<Longrightarrow> apply_entries (str_entry 2 s) (md, sp) = Some (md\<lparr>trace_file := s\<rparr>, sp)"
  "description md = [] \<Longrightarrow> apply_entries (str_entry 3 s) (md, sp) = Some (md\<lparr>description := s\<rparr>, sp)"
  "source_file md = [] \<Longrightarrow> apply_entries (str_entry 4 s) (md, sp) = Some (md\<lparr>source_file := s\<rparr>, sp)"
  "build_timestamp md = [] \<Longrightarrow> apply_entries (str_entry 5 s) (md, sp) = Some (md\<lparr>build_timestamp := s\<rparr>, sp)"
  "scheme md = [] \<Longrightarrow> apply_entries (str_entry 6 s) (md, sp) = Some (md\<lparr>scheme := s\<rparr>, sp)"
  "security_level md = [] \<Longrightarrow> apply_entries (str_entry 7 s) (md, sp) = Some (md\<lparr>security_level := s\<rparr>, sp)"
  by (auto simp: str_entry_def apply_entry_unfold)

lemma apply_u64_entry:
  "source_line md = 0 \<Longrightarrow> apply_entries (u64_entry 8 (scast x)) (md, sp) = Some (md\<lparr>source_line := x\<rparr>, sp)"
  "instruction_count md = 0 \<Longrightarrow> apply_entries (u64_entry 9 (scast x)) (md, sp) = Some (md\<lparr>instruction_count := x\<rparr>, sp)"
  "generated_timestamp md = 0 \<Longrightarrow> apply_entries (u64_entry 10 v) (md, sp) = Some (md\<lparr>generated_timestamp := v\<rparr>, sp)"
  "ring_dimension md = 0 \<Longrightarrow> apply_entries (u64_entry 11 (scast x)) (md, sp) = Some (md\<lparr>ring_dimension := x\<rparr>, sp)"
  "multiplicative_depth md = 0 \<Longrightarrow> apply_entries (u64_entry 12 (scast x)) (md, sp) = Some (md\<lparr>multiplicative_depth := x\<rparr>, sp)"
  "modulus_chain_length md = 0 \<Longrightarrow> apply_entries (u64_entry 13 (scast x)) (md, sp) = Some (md\<lparr>modulus_chain_length := x\<rparr>, sp)"
  by (auto simp: u64_entry_def apply_entry_unfold scast_zero_iff ucast_scast_id)


section \<open>Specification identity round trip\<close>

lemma and_FFFF: "(w AND 0xFFFF :: 'a::len word) = take_bit 16 w"
  by (simp add: take_bit_eq_mask mask_eq_exp_minus_1)

lemma unpack_pack_version [simp]: "fhex_unpack_version (fhex_pack_version v) = v"
proof -
  let ?p = "fhex_pack_version v"
  have "ucast (drop_bit 32 ?p AND 0xFFFF) = major_version v"
    unfolding fhex_pack_version_def
    by (rule bit_word_eqI)
       (auto simp: and_FFFF bit_ucast_iff bit_take_bit_iff bit_drop_bit_eq bit_or_iff
          bit_push_bit_iff dest: bit_imp_le_length)
  moreover have "ucast (drop_bit 16 ?p AND 0xFFFF) = minor_version v"
    unfolding fhex_pack_version_def
    by (rule bit_word_eqI)
       (auto simp: and_FFFF bit_ucast_iff bit_take_bit_iff bit_drop_bit_eq bit_or_iff
          bit_push_bit_iff dest: bit_imp_le_length)
  moreover have "ucast (?p AND 0xFFFF) = patch_version v"
    unfolding fhex_pack_version_def
    by (rule bit_word_eqI)
       (auto simp: and_FFFF bit_ucast_iff bit_take_bit_iff bit_or_iff
          bit_push_bit_iff dest: bit_imp_le_length)
  ultimately show ?thesis by (simp add: fhex_unpack_version_def)
qed

lemma pack_version_zero_iff: "fhex_pack_version v = 0 \<longleftrightarrow> \<not> version_known v"
proof
  assume "fhex_pack_version v = 0"
  then have "v = fhex_unpack_version 0" by (metis unpack_pack_version)
  then show "\<not> version_known v" by (simp add: fhex_unpack_version_def version_known_def)
next
  assume "\<not> version_known v"
  then show "fhex_pack_version v = 0" by (simp add: version_known_def fhex_pack_version_def)
qed

lemma unat_pack_date:
  "unat (fhex_pack_spec_date d) = unat (year d) * 10000 + unat (month d) * 100 + unat (day d)"
proof -
  have b: "unat (year d) < 65536" "unat (month d) < 256" "unat (day d) < 256"
    using unat_lt_2p [of "year d"] unat_lt_2p [of "month d"] unat_lt_2p [of "day d"] by simp_all
  then have "fhex_pack_spec_date d =
      word_of_nat (unat (year d) * 10000 + unat (month d) * 100 + unat (day d))"
    by (simp add: fhex_pack_spec_date_def unsigned_of_nat)
  then show ?thesis using b by (simp only: unat_of_nat_small) (subst unat_of_nat_small, simp_all)
qed


lemma unpack_pack_date:
  assumes "month d < 100" and "day d < 100"
  shows "fhex_unpack_spec_date (fhex_pack_spec_date d) = d"
proof -
  let ?p = "fhex_pack_spec_date d"
  define y m n where "y = unat (year d)" and "m = unat (month d)" and "n = unat (day d)"
  have b: "y < 65536" "m < 100" "n < 100"
    using unat_lt_2p [of "year d"] assms by (simp_all add: y_def m_def n_def word_less_nat_alt)
  have p: "unat ?p = y * 10000 + m * 100 + n" by (simp add: unat_pack_date y_def m_def n_def)
  have "(y * 10000 + m * 100 + n) div 10000 = y" using b by simp
  then have "ucast (?p div 10000) = year d"
    using b p by (simp add: word_unat_eq_iff unsigned_ucast_eq unat_div_distrib y_def
        take_bit_nat_eq_self)
  moreover have "((y * 10000 + m * 100 + n) div 100) mod 100 = m"
  proof -
    have "y * 10000 + m * 100 + n = n + 100 * (m + 100 * y)" by simp
    then have "(y * 10000 + m * 100 + n) div 100 = m + 100 * y" using b by simp
    then show ?thesis using b by simp
  qed
  then have "ucast ((?p div 100) mod 100) = month d"
    using b p by (simp add: word_unat_eq_iff unsigned_ucast_eq unat_div_distrib unat_mod_distrib
        m_def take_bit_nat_eq_self)
  moreover have "(y * 10000 + m * 100 + n) mod 100 = n"
  proof -
    have "y * 10000 + m * 100 + n = n + 100 * (m + 100 * y)" by simp
    then show ?thesis using b by (metis mod_mult_self2 mod_less)
  qed
  then have "ucast (?p mod 100) = day d"
    using b p by (simp add: word_unat_eq_iff unsigned_ucast_eq unat_mod_distrib n_def
        take_bit_nat_eq_self)
  ultimately show ?thesis by (simp add: fhex_unpack_spec_date_def)
qed

lemma pack_date_nonzero: "date_known d \<Longrightarrow> fhex_pack_spec_date d \<noteq> 0"
  using unat_pack_date [of d] by (auto simp: date_known_def unat_eq_zero)

text \<open>
  A specification identity that survives the wire: a date that is written has two-digit month and
  day, one that is not written is the default.
\<close>

definition wf_spec :: "FhetchSpec \<Rightarrow> bool" where
  "wf_spec sp \<longleftrightarrow>
     (if date_known (date sp) then month (date sp) < 100 \<and> day (date sp) < 100
      else date sp = FhetchSpecDate_init)"

lemma apply_version_entry:
  "version sp0 = FhetchVersion_init \<Longrightarrow>
     apply_entries (if version_known v then u64_entry 14 (fhex_pack_version v) else []) (md, sp0) =
       Some (md, sp0\<lparr>version := v\<rparr>)"
proof (cases "version_known v")
  case True
  then show ?thesis by (simp add: u64_entry_def pack_version_zero_iff apply_entry_unfold)
next
  case False
  moreover assume "version sp0 = FhetchVersion_init"
  ultimately show ?thesis by (simp add: version_known_def FhetchVersion_init_def)
qed

lemma apply_date_entry:
  assumes "date sp0 = FhetchSpecDate_init"
    and "if date_known d then month d < 100 \<and> day d < 100 else d = FhetchSpecDate_init"
  shows "apply_entries (if date_known d then u64_entry 15 (fhex_pack_spec_date d) else []) (md, sp0) =
       Some (md, sp0\<lparr>date := d\<rparr>)"
proof (cases "date_known d")
  case True
  then show ?thesis
    using assms by (simp add: u64_entry_def pack_date_nonzero apply_entry_unfold unpack_pack_date)
next
  case False
  then show ?thesis using assms by simp
qed

definition short_strings :: "TraceMetadata \<Rightarrow> bool" where
  "short_strings md \<longleftrightarrow>
     length (program_name md) < 2 ^ 32 \<and> length (program_version md) < 2 ^ 32 \<and>
     length (trace_file md) < 2 ^ 32 \<and> length (description md) < 2 ^ 32 \<and>
     length (source_file md) < 2 ^ 32 \<and> length (build_timestamp md) < 2 ^ 32 \<and>
     length (scheme md) < 2 ^ 32 \<and> length (security_level md) < 2 ^ 32"

lemma apply_meta_entries:
  assumes "wf_spec sp"
  shows "apply_entries (meta_entries md sp) (TraceMetadata_init, FhetchSpec_init) =
           Some (md\<lparr>modulus_chain := []\<rparr>, sp)"
  using assms
  by (simp add: meta_entries_def apply_entries_append apply_version_entry apply_date_entry
      apply_str_entry apply_u64_entry TraceMetadata_init_def FhetchSpec_init_def wf_spec_def)

lemma meta_entries_short:
  "short_strings md \<Longrightarrow> list_all (\<lambda>e. length (snd e) < 2 ^ 32) (meta_entries md sp)"
  by (simp add: short_strings_def meta_entries_def str_entry_def u64_entry_def)

lemma parse_build_metadata:
  assumes "wf_spec sp" and "short_strings md"
  shows "parse_metadata h2 (build_metadata h1 md sp) (TraceMetadata_init, FhetchSpec_init) =
           Inr (Some (md\<lparr>modulus_chain := []\<rparr>, sp))"
  using parse_metadata_loop_entries [OF meta_entries_short [OF assms(2), of sp],
      where pre = "[]" and off = 0 and h = h2]
  by (simp add: parse_metadata_def build_metadata_eq apply_meta_entries [OF assms(1)])

end
