(* ===== verification/FhexCorrect.thy ===== *)
theory FhexCorrect
  imports FhexMeta
begin

text \<open>
  The theorems about the \<open>.fhex\<close> container as a whole: program round trip, memory safety of the
  decoder on arbitrary bytes, the refusals, and the record/instruction correspondence.
\<close>

section \<open>Program round trip\<close>

lemma length_record_bytes_ge_2: "2 \<le> length (record_bytes r)"
  by (simp add: record_bytes_def Let_def)

lemma length_records_ge: "2 * length rs \<le> length (concat (map record_bytes rs))"
proof (induction rs)
  case (Cons r rs)
  then show ?case using length_record_bytes_ge_2 [of r] by simp
qed simp

lemma encode_eq:
  assumes "spec_valid sp"
  shows "encode_fhetch_program h md table rs sp =
    Inr (kFhexMagic @ le_bytes kFhexVersion @ le_bytes (0 :: u16) @
         le_bytes (of_nat (length (build_metadata h md sp)) :: u32) @
         le_bytes (of_nat (length table) :: u32) @ le_bytes (of_nat (length rs) :: u64) @
         build_metadata h md sp @ concat (map le_bytes table) @ concat (map record_bytes rs))"
  using assms
  by (simp add: encode_fhetch_program_def Let_def put_raw_def put_scalar_append foldl_put_scalar
      foldl_put_record)

lemma build_metadata_length_mod_8: "length (build_metadata h md sp) mod 8 = 0"
  by (simp add: build_metadata_eq length_entries_mod_8)

lemma decode_layout:
  assumes bs: "bs = kFhexMagic @ le_bytes kFhexVersion @ le_bytes (0 :: u16) @
      le_bytes (of_nat (length meta) :: u32) @ le_bytes (of_nat (length table) :: u32) @
      le_bytes (of_nat (length rs) :: u64) @
      meta @ concat (map le_bytes table) @ concat (map record_bytes rs)"
    and sizes: "length meta < 2 ^ 32" "length table < 2 ^ 32" "length rs < 2 ^ 64"
    and aligned: "length meta mod 8 = 0"
    and meta: "parse_metadata h meta (TraceMetadata_init, FhetchSpec_init) = Inr (Some (md, sp))"
    and sp: "spec_valid sp"
    and wf: "list_all wf_record rs"
  shows "decode_fhetch_program h (Some bs) =
    Inr \<lparr>fp_metadata = md\<lparr>modulus_chain := table\<rparr>, fp_format_version = kFhexVersion,
         fp_spec = sp, fp_modulus_table = table, fp_records = rs\<rparr>"
proof -
  define mb where "mb = (of_nat (length meta) :: u32)"
  define mc where "mc = (of_nat (length table) :: u32)"
  define ic where "ic = (of_nat (length rs) :: u64)"
  define T where "T = concat (map le_bytes table)"
  define R where "R = concat (map record_bytes rs)"
  have u: "unat mb = length meta" "unat mc = length table" "unat ic = length rs"
    unfolding mb_def mc_def ic_def using sizes by (simp_all add: unat_of_nat_small)
  have bs': "bs = kFhexMagic @ le_bytes kFhexVersion @ le_bytes (0 :: u16) @ le_bytes mb @
      le_bytes mc @ le_bytes ic @ meta @ T @ R"
    using bs by (simp add: mb_def mc_def ic_def T_def R_def)
  have lT: "length T = 8 * length table" by (simp add: T_def length_concat_le_bytes)
  have lm: "length kFhexMagic = 4" by (simp add: kFhexMagic_def)
  have lbs: "length bs = 24 + length meta + 8 * length table + length R"
    using bs' lT lm by simp
  have magic: "bytes_at bs off_magic 4 = Inr kFhexMagic"
    using bs' lm by (simp add: bytes_at_def off_magic_def)
  have ver: "get_scalar h bs off_version = Inr kFhexVersion"
    using bs' lm by (intro get_scalar_at [of bs kFhexMagic]) (auto simp: off_version_def)
  have gmb: "get_scalar h bs off_metadata_bytes = Inr mb"
    using bs' lm
    by (intro get_scalar_at [of bs "kFhexMagic @ le_bytes kFhexVersion @ le_bytes (0 :: u16)"])
       (auto simp: off_metadata_bytes_def)
  have gmc: "get_scalar h bs off_modulus_count = Inr mc"
    using bs' lm
    by (intro get_scalar_at
          [of bs "kFhexMagic @ le_bytes kFhexVersion @ le_bytes (0 :: u16) @ le_bytes mb"])
       (auto simp: off_modulus_count_def)
  have gic: "get_scalar h bs off_instruction_count = Inr ic"
    using bs' lm
    by (intro get_scalar_at
          [of bs "kFhexMagic @ le_bytes kFhexVersion @ le_bytes (0 :: u16) @ le_bytes mb @ le_bytes mc"])
       (auto simp: off_instruction_count_def)
  have gmeta: "bytes_at bs 24 (length meta) = Inr meta"
    using bs' lm by (simp add: bytes_at_def)
  have gT: "decode_moduli (length table) h bs (24 + length meta) = Inr table"
    using bs' lm
    by (intro decode_moduli_at [of bs "kFhexMagic @ le_bytes kFhexVersion @ le_bytes (0 :: u16) @
          le_bytes mb @ le_bytes mc @ le_bytes ic @ meta" table R]) (auto simp: T_def)
  have gR: "decode_records (length rs) bs (24 + length meta + length table * 8) = Inr rs"
    using bs' lm lT wf
    by (intro decode_records_bytes [of rs bs "kFhexMagic @ le_bytes kFhexVersion @
          le_bytes (0 :: u16) @ le_bytes mb @ le_bytes mc @ le_bytes ic @ meta @ T"])
       (auto simp: R_def)
  have cnt: "\<not> length rs > (length bs - (24 + length meta + length table * 8)) div 2"
    using length_records_ge [of rs] lbs by (simp add: R_def)
  show ?thesis
    using lbs aligned sp cnt
    by (simp add: decode_fhetch_program_def magic ver gmb gmc gic u gmeta meta gT gR
        kFhexPrologueBytes_def kFhexAlign_def Let_def)
qed

lemma encode_decode:
  assumes "spec_valid sp" and "wf_spec sp" and "short_strings md" and "list_all wf_record rs"
    and "length (build_metadata h1 md sp) < 2 ^ 32" and "length table < 2 ^ 32"
    and "length rs < 2 ^ 64"
  shows "\<exists>bs. encode_fhetch_program h1 md table rs sp = Inr bs \<and>
    decode_fhetch_program h2 (Some bs) =
      Inr \<lparr>fp_metadata = md\<lparr>modulus_chain := table\<rparr>, fp_format_version = kFhexVersion,
           fp_spec = sp, fp_modulus_table = table, fp_records = rs\<rparr>"
  using decode_layout [OF refl assms(5,6,7) build_metadata_length_mod_8
      parse_build_metadata [OF assms(2,3)] assms(1,4)]
  by (simp add: encode_eq [OF assms(1)])

text \<open>
  C1: the round trip of the container.  A program with a valid specification identity and canonical
  records, encoded on one host, is decoded on any other to the same metadata, modulus table,
  specification and records (the decoder fills the modulus chain from the table).  The only limits
  are the widths of the length fields.
\<close>

theorem fhex_program_roundtrip:
  assumes "spec_valid sp" and "wf_spec sp" and "short_strings md" and "list_all wf_record rs"
    and "length (build_metadata h1 md sp) < 2 ^ 32" and "length table < 2 ^ 32"
    and "length rs < 2 ^ 64"
  shows "\<exists>bs. encode_fhetch_program h1 md table rs sp = Inr bs \<and>
    decode_fhetch_program h2 (Some bs) =
      Inr \<lparr>fp_metadata = md\<lparr>modulus_chain := table\<rparr>, fp_format_version = kFhexVersion,
           fp_spec = sp, fp_modulus_table = table, fp_records = rs\<rparr>"
  using encode_decode [OF assms] .

definition example_records :: "FhetchRecord list" where
  "example_records =
     [FhetchRecord_init\<lparr>r_opcode := FH_SR_ADDP, r_flags := FH_FLAG_HAS_MOD OR FH_FLAG_HAS_SRC2,
        r_dst := 300, r_src1 := 1, r_src2 := 2, r_modulus := 1\<rparr>,
      FhetchRecord_init\<lparr>r_opcode := FH_HALT\<rparr>]"

theorem fhex_program_roundtrip_witness:
  "\<exists>bs. encode_fhetch_program True (TraceMetadata_init\<lparr>program_name := ''demo''\<rparr>)
          [0xFFFFFFFFFFFFFFFF, 17] example_records kFhetchSpec = Inr bs \<and>
    decode_fhetch_program False (Some bs) =
      Inr \<lparr>fp_metadata = TraceMetadata_init\<lparr>program_name := ''demo'',
             modulus_chain := [0xFFFFFFFFFFFFFFFF, 17]\<rparr>,
           fp_format_version = kFhexVersion, fp_spec = kFhetchSpec,
           fp_modulus_table = [0xFFFFFFFFFFFFFFFF, 17], fp_records = example_records\<rparr>"
proof -
  let ?md = "TraceMetadata_init\<lparr>program_name := ''demo''\<rparr>"
  have a: "spec_valid kFhetchSpec" "wf_spec kFhetchSpec"
    by (simp_all add: spec_valid_def wf_spec_def kFhetchSpec_def date_known_def)
  have b: "short_strings ?md" by (simp add: short_strings_def TraceMetadata_init_def)
  have c: "list_all wf_record example_records"
    by (simp add: example_records_def wf_record_def FhetchRecord_init_def has_flag_def
        fh_opcode_has_operands_iff)
  have d: "length (build_metadata True ?md kFhetchSpec) < 2 ^ 32"
    by (simp add: build_metadata_eq meta_entries_def str_entry_def u64_entry_def kFhetchSpec_def
        TraceMetadata_init_def)
  show ?thesis
    using fhex_program_roundtrip [OF a b c d, of "[0xFFFFFFFFFFFFFFFF, 17]" False]
    by (simp add: example_records_def)
qed

section \<open>Memory safety of the decoder\<close>

lemma get_varint_loop_total: "\<exists>r. get_varint_loop bs off i v = Inr r"
proof (induction bs off i v rule: get_varint_loop.induct)
  case (1 bs off index v)
  then show ?case
    by (subst get_varint_loop.simps) (auto simp: byte_at_def Let_def)
qed

lemma get_varint_loop_bounds:
  "get_varint_loop bs off i v = Inr (Some (w, off')) \<Longrightarrow>
     off < off' \<and> off' \<le> length bs \<and> off' + i \<le> off + kFhexMaxVarintBytes"
proof (induction bs off i v rule: get_varint_loop.induct)
  case (1 bs off index v)
  have c: "index < kFhexMaxVarintBytes" "off < length bs"
    using "1.prems" by (auto simp: get_varint_loop.simps [of bs off index] split: if_splits)
  let ?v = "v OR push_bit (index * 7) (ucast (bs ! off AND 0x7F))"
  have b: "byte_at bs off = Inr (bs ! off)" using c by (simp add: byte_at_def)
  from "1.prems" consider "off' = off + 1"
    | "get_varint_loop bs (off + 1) (index + 1) ?v = Inr (Some (w, off'))"
       "\<not> drop_bit (index * 7) (- 1 :: u64) < ucast (bs ! off AND 0x7F)"
       "(bs ! off AND 0x80) \<noteq> 0"
    by (subst (asm) get_varint_loop.simps) (auto simp: c b Let_def split: if_splits)
  then show ?case
  proof cases
    case 1
    then show ?thesis using c by simp
  next
    case 2
    then show ?thesis
      using "1.IH" [OF c(1) _ refl refl _ refl] c by (fastforce simp: b)
  qed
qed


lemma get_varint_cases:
  obtains "get_varint bs off = Inr None"
  | w off' where "get_varint bs off = Inr (Some (w, off'))" "off < off'" "off' \<le> length bs"
      "off' \<le> off + kFhexMaxVarintBytes"
proof -
  obtain r where r: "get_varint bs off = Inr r"
    using get_varint_loop_total by (metis get_varint_def)
  show thesis
  proof (cases r)
    case None
    with r that(1) show thesis by simp
  next
    case (Some x)
    obtain w off' where x: "x = (w, off')" by fastforce
    show thesis
      using that(2) [of w off'] r Some x get_varint_loop_bounds [of bs off 0 0 w off']
      by (simp add: get_varint_def)
  qed
qed

lemma read_varint_cases:
  assumes "at \<le> length bs"
  obtains "read_varint p bs at = Inl (DecodeErr Truncated)"
  | w at' where "read_varint p bs at = Inr (w, at')" "at \<le> at'" "at' \<le> length bs"
proof (cases p)
  case False
  then show thesis using that(2) [of 0 at] assms by (simp add: read_varint_def)
next
  case True
  show thesis
    by (rule get_varint_cases [of bs at]) (use True that in \<open>auto simp: read_varint_def\<close>)
qed

lemma read_varint_u32_cases:
  assumes "at \<le> length bs"
  obtains "read_varint_u32 p bs at = Inl (DecodeErr Truncated)"
  | w at' where "read_varint_u32 p bs at = Inr (w, at')" "at \<le> at'" "at' \<le> length bs"
proof (cases p)
  case False
  then show thesis using that(2) [of 0 at] assms by (simp add: read_varint_u32_def)
next
  case True
  show thesis
  proof (rule get_varint_cases [of bs at])
    assume "get_varint bs at = Inr None"
    then show thesis using True that(1) by (simp add: read_varint_u32_def get_varint_u32_def)
  next
    fix w at'
    assume "get_varint bs at = Inr (Some (w, at'))" "at < at'" "at' \<le> length bs"
    then show thesis
      using True that(1) that(2) [of "ucast w" at']
      by (cases "w > 0xFFFFFFFF") (simp_all add: read_varint_u32_def get_varint_u32_def)
  qed
qed

text \<open>Reading one record either reports a truncated stream or stays inside the buffer.\<close>

definition in_bounds :: "bytes \<Rightarrow> DecodeFail + 'a \<times> nat \<Rightarrow> bool" where
  "in_bounds bs m \<longleftrightarrow>
     (case m of Inl e \<Rightarrow> e = DecodeErr Truncated | Inr (_, at) \<Rightarrow> at \<le> length bs)"

lemma in_bounds_read_varint: "at \<le> length bs \<Longrightarrow> in_bounds bs (read_varint p bs at)"
  by (rule read_varint_cases [of at bs p]) (auto simp: in_bounds_def)

lemma in_bounds_read_varint_u32: "at \<le> length bs \<Longrightarrow> in_bounds bs (read_varint_u32 p bs at)"
  by (rule read_varint_u32_cases [of at bs p]) (auto simp: in_bounds_def)

lemma in_bounds_bind:
  assumes "in_bounds bs m" and "\<And>x at. at \<le> length bs \<Longrightarrow> in_bounds bs (f (x, at))"
  shows "in_bounds bs (res_bind m f)"
proof (cases m)
  case (Inl e)
  then show ?thesis using assms(1) by (simp add: in_bounds_def)
next
  case (Inr r)
  obtain x at where r: "r = (x, at)" by fastforce
  then have "at \<le> length bs" using assms(1) Inr by (simp add: in_bounds_def)
  then show ?thesis using assms(2) Inr r by simp
qed

lemma in_bounds_Inr: "at \<le> length bs \<Longrightarrow> in_bounds bs (Inr (x, at))"
  by (simp add: in_bounds_def)

lemma decode_record_in_bounds: "in_bounds bs (decode_record bs at)"
proof (cases "at + 2 > length bs")
  case True
  then show ?thesis by (simp add: decode_record_def in_bounds_def)
next
  case False
  have lg: "in_bounds bs (if has_flag fl FH_FLAG_HAS_LOGN then
               if at + 2 \<ge> length bs then Inl (DecodeErr Truncated)
               else res_bind (byte_at bs (at + 2)) (\<lambda>b. Inr (b, at + 3))
             else Inr (0, at + 2))" for fl
    using False by (auto simp: in_bounds_def byte_at_def)
  have b: "byte_at bs at = Inr (bs ! at)" "byte_at bs (at + 1) = Inr (bs ! (at + 1))"
    using False by (simp_all add: byte_at_def)
  show ?thesis
    using False unfolding decode_record_def Let_def b
    by (simp only: if_False res_bind_Inr)
       (intro in_bounds_bind lg, simp only: prod.case,
        intro in_bounds_bind in_bounds_read_varint_u32, assumption, simp only: prod.case,
        intro in_bounds_bind in_bounds_read_varint_u32, assumption, simp only: prod.case,
        intro in_bounds_bind in_bounds_read_varint_u32, assumption, simp only: prod.case,
        intro in_bounds_bind in_bounds_read_varint, assumption, simp only: prod.case,
        intro in_bounds_bind in_bounds_read_varint, assumption, simp only: prod.case,
        intro in_bounds_bind in_bounds_read_varint, assumption, simp only: prod.case,
        intro in_bounds_Inr)
qed

lemma decode_records_cases:
  "decode_records n bs at = Inl (DecodeErr Truncated) \<or>
   (\<exists>rs. decode_records n bs at = Inr rs \<and> length rs = n)"
proof (induction n arbitrary: at)
  case (Suc n)
  from decode_record_in_bounds [of bs at] consider "decode_record bs at = Inl (DecodeErr Truncated)"
    | r at' where "decode_record bs at = Inr (r, at')"
    by (cases "decode_record bs at") (auto simp: in_bounds_def)
  then show ?case
  proof cases
    case 2
    then show ?thesis using Suc [of at'] by auto
  qed simp
qed simp

lemma get_scalar_in_bounds:
  "off + LENGTH('a) div 8 \<le> length bs \<Longrightarrow> \<exists>v. get_scalar h bs off = Inr (v :: 'a::len word)"
  by (simp add: get_scalar_def bytes_at_def)

lemma decode_moduli_in_bounds:
  "at + n * 8 \<le> length bs \<Longrightarrow> \<exists>ms. decode_moduli n h bs at = Inr ms \<and> length ms = n"
proof (induction n arbitrary: at)
  case (Suc n)
  obtain m where "get_scalar h bs at = Inr (m :: u64)"
    using get_scalar_in_bounds [of at bs h] Suc.prems by force
  moreover obtain ms where "decode_moduli n h bs (at + 8) = Inr ms" "length ms = n"
    using Suc.IH [of "at + 8"] Suc.prems by auto
  ultimately show ?case by simp
qed simp

lemma meta_switch_total:
  "payload + len \<le> length meta \<Longrightarrow> \<exists>r. meta_switch h meta payload len tag acc = Inr r"
proof -
  assume le: "payload + len \<le> length meta"
  then obtain raw where raw: "bytes_at meta payload len = Inr raw" by (simp add: bytes_at_def)
  have v: "len = 8 \<Longrightarrow> \<exists>v :: u64. get_scalar h meta payload = Inr v"
    using le get_scalar_in_bounds [of payload meta h, where 'a = 64] by simp
  obtain md sp where "acc = (md, sp)" by fastforce
  then show ?thesis
    using raw v by (cases "len = 8") (auto simp: meta_switch_def Let_def)
qed

lemma parse_metadata_loop_total: "\<exists>r. parse_metadata_loop h meta off acc = Inr r"
proof (induction h meta off acc rule: parse_metadata_loop.induct)
  case (1 h meta off acc)
  show ?case
  proof (cases "off + sizeof_FhMetaEntry \<le> length meta")
    case False
    then show ?thesis by (simp add: parse_metadata_loop.simps [of h meta off])
  next
    case True
    obtain tag where tag: "get_scalar h meta (off + off_entry_tag) = Inr (tag :: u16)"
      using True get_scalar_in_bounds [of "off + off_entry_tag" meta h, where 'a = 16]
      by (auto simp: off_entry_tag_def sizeof_FhMetaEntry_def)
    obtain len where len: "get_scalar h meta (off + off_entry_length) = Inr (len :: u32)"
      using True get_scalar_in_bounds [of "off + off_entry_length" meta h, where 'a = 32]
      by (auto simp: off_entry_length_def sizeof_FhMetaEntry_def)
    show ?thesis
    proof (cases "off + sizeof_FhMetaEntry + unat len > length meta")
      case True
      then show ?thesis
        using tag len by (subst parse_metadata_loop.simps) (simp add: Let_def)
    next
      case False
      then obtain r where r: "meta_switch h meta (off + sizeof_FhMetaEntry) (unat len) tag acc = Inr r"
        using meta_switch_total [of "off + sizeof_FhMetaEntry" "unat len" meta h tag acc] by force
      show ?thesis
        using "1.IH" [OF True refl False] tag len r True False
        by (subst parse_metadata_loop.simps) (cases r; simp add: Let_def)
    qed
  qed
qed


lemma bytes_at_in_bounds: "off + n \<le> length bs \<Longrightarrow> bytes_at bs off n = Inr (take n (drop off bs))"
  by (simp add: bytes_at_def)

text \<open>What the container may answer: a program it can vouch for, or one of five refusals.\<close>

definition decode_outcome_ok :: "DecodeFail + FhexProgram \<Rightarrow> bool" where
  "decode_outcome_ok r =
     (case r of
        Inl OutOfBounds \<Rightarrow> False
      | Inl (DecodeErr e) \<Rightarrow> e \<in> {BadMagic, UnsupportedVersion, Truncated, Malformed, MissingSpec}
      | Inr p \<Rightarrow> fp_format_version p = kFhexVersion \<and> spec_valid (fp_spec p) \<and>
                 modulus_chain (fp_metadata p) = fp_modulus_table p)"

lemma decode_outcome_ok_simps [codec_simps]:
  "decode_outcome_ok (Inl (DecodeErr e)) \<longleftrightarrow>
     e \<in> {BadMagic, UnsupportedVersion, Truncated, Malformed, MissingSpec}"
  "decode_outcome_ok (Inr p) \<longleftrightarrow> fp_format_version p = kFhexVersion \<and> spec_valid (fp_spec p) \<and>
     modulus_chain (fp_metadata p) = fp_modulus_table p"
  by (simp_all add: decode_outcome_ok_def)

lemma decode_tail_ok:
  assumes "at + n * 8 \<le> length bs" and "spec_valid sp"
  shows "decode_outcome_ok
    (res_bind (decode_moduli n h bs at) (\<lambda>table.
     res_bind (decode_records k bs (at + n * 8)) (\<lambda>recs.
       Inr \<lparr>fp_metadata = md\<lparr>modulus_chain := table\<rparr>, fp_format_version = kFhexVersion,
            fp_spec = sp, fp_modulus_table = table, fp_records = recs\<rparr>)))"
  using decode_moduli_in_bounds [OF assms(1), of h] decode_records_cases [of k bs "at + n * 8"]
    assms(2)
  by (auto simp: codec_simps)

text \<open>
  C34: the decoder is safe on arbitrary bytes.  Whatever the buffer holds, no read leaves it and no
  loop runs past it; the answer is a program whose version is the supported one, whose specification
  identity is present and whose modulus chain is its table, or one of five documented errors.
\<close>

theorem decode_never_out_of_bounds: "decode_outcome_ok (decode_fhetch_program h buf)"
proof (cases buf)
  case None
  then show ?thesis by (simp add: decode_fhetch_program_def codec_simps)
next
  case (Some bs)
  show ?thesis
  proof (cases "length bs < 24")
    case True
    then show ?thesis
      using Some by (simp add: decode_fhetch_program_def kFhexPrologueBytes_def codec_simps)
  next
    case False
    then have long: "24 \<le> length bs" by simp
    have m: "bytes_at bs off_magic 4 = Inr (take 4 bs)"
      using long by (simp add: bytes_at_def off_magic_def)
    obtain ver :: u16 where v: "get_scalar h bs off_version = Inr ver"
      using long get_scalar_in_bounds [of off_version bs h, where 'a = 16]
      by (auto simp: off_version_def)
    obtain mb :: u32 where b: "get_scalar h bs off_metadata_bytes = Inr mb"
      using long get_scalar_in_bounds [of off_metadata_bytes bs h, where 'a = 32]
      by (auto simp: off_metadata_bytes_def)
    obtain mc :: u32 where c: "get_scalar h bs off_modulus_count = Inr mc"
      using long get_scalar_in_bounds [of off_modulus_count bs h, where 'a = 32]
      by (auto simp: off_modulus_count_def)
    obtain ic :: u64 where i: "get_scalar h bs off_instruction_count = Inr ic"
      using long get_scalar_in_bounds [of off_instruction_count bs h, where 'a = 64]
      by (auto simp: off_instruction_count_def)
    let ?meta = "take (unat mb) (drop 24 bs)"
    obtain r where r: "parse_metadata h ?meta (TraceMetadata_init, FhetchSpec_init) = Inr r"
      using parse_metadata_loop_total by (metis parse_metadata_def)
    show ?thesis
      using long Some
      by (auto simp: decode_fhetch_program_def m v b c i kFhexPrologueBytes_def Let_def codec_simps
            bytes_at_in_bounds r intro!: decode_tail_ok split: option.split)
  qed
qed

section \<open>Records and instructions\<close>

lemma has_flag_or [codec_simps]: "has_flag (a OR b) c \<longleftrightarrow> has_flag a c \<or> has_flag b c"
proof -
  have "((a OR b) AND c) = (a AND c) OR (b AND c)" by (simp add: bit.conj_disj_distrib2)
  then show ?thesis by (simp add: has_flag_def or_eq_0_iff)
qed

lemma has_flag_if: "has_flag (if p then a else b) c = (if p then has_flag a c else has_flag b c)"
  by simp

lemma has_flag_0 [codec_simps]: "\<not> has_flag 0 c"
  by (simp add: has_flag_def)

lemma has_flag_flags [codec_simps]:
  "has_flag FH_FLAG_HAS_MOD FH_FLAG_HAS_MOD" "\<not> has_flag FH_FLAG_HAS_MOD FH_FLAG_MOD_LITERAL"
  "\<not> has_flag FH_FLAG_HAS_MOD FH_FLAG_HAS_IMM" "\<not> has_flag FH_FLAG_HAS_MOD FH_FLAG_HAS_SRC2"
  "\<not> has_flag FH_FLAG_HAS_MOD FH_FLAG_HAS_AUX" "\<not> has_flag FH_FLAG_HAS_MOD FH_FLAG_HAS_LOGN"
  "\<not> has_flag FH_FLAG_MOD_LITERAL FH_FLAG_HAS_MOD"
  "has_flag FH_FLAG_MOD_LITERAL FH_FLAG_MOD_LITERAL"
  "\<not> has_flag FH_FLAG_MOD_LITERAL FH_FLAG_HAS_IMM"
  "\<not> has_flag FH_FLAG_MOD_LITERAL FH_FLAG_HAS_SRC2"
  "\<not> has_flag FH_FLAG_MOD_LITERAL FH_FLAG_HAS_AUX"
  "\<not> has_flag FH_FLAG_MOD_LITERAL FH_FLAG_HAS_LOGN"
  "\<not> has_flag FH_FLAG_HAS_IMM FH_FLAG_HAS_MOD" "\<not> has_flag FH_FLAG_HAS_IMM FH_FLAG_MOD_LITERAL"
  "has_flag FH_FLAG_HAS_IMM FH_FLAG_HAS_IMM" "\<not> has_flag FH_FLAG_HAS_IMM FH_FLAG_HAS_SRC2"
  "\<not> has_flag FH_FLAG_HAS_IMM FH_FLAG_HAS_AUX" "\<not> has_flag FH_FLAG_HAS_IMM FH_FLAG_HAS_LOGN"
  "\<not> has_flag FH_FLAG_HAS_SRC2 FH_FLAG_HAS_MOD" "\<not> has_flag FH_FLAG_HAS_SRC2 FH_FLAG_MOD_LITERAL"
  "\<not> has_flag FH_FLAG_HAS_SRC2 FH_FLAG_HAS_IMM" "has_flag FH_FLAG_HAS_SRC2 FH_FLAG_HAS_SRC2"
  "\<not> has_flag FH_FLAG_HAS_SRC2 FH_FLAG_HAS_AUX" "\<not> has_flag FH_FLAG_HAS_SRC2 FH_FLAG_HAS_LOGN"
  "\<not> has_flag FH_FLAG_HAS_AUX FH_FLAG_HAS_MOD" "\<not> has_flag FH_FLAG_HAS_AUX FH_FLAG_MOD_LITERAL"
  "\<not> has_flag FH_FLAG_HAS_AUX FH_FLAG_HAS_IMM" "\<not> has_flag FH_FLAG_HAS_AUX FH_FLAG_HAS_SRC2"
  "has_flag FH_FLAG_HAS_AUX FH_FLAG_HAS_AUX" "\<not> has_flag FH_FLAG_HAS_AUX FH_FLAG_HAS_LOGN"
  "\<not> has_flag FH_FLAG_HAS_LOGN FH_FLAG_HAS_MOD" "\<not> has_flag FH_FLAG_HAS_LOGN FH_FLAG_MOD_LITERAL"
  "\<not> has_flag FH_FLAG_HAS_LOGN FH_FLAG_HAS_IMM" "\<not> has_flag FH_FLAG_HAS_LOGN FH_FLAG_HAS_SRC2"
  "\<not> has_flag FH_FLAG_HAS_LOGN FH_FLAG_HAS_AUX" "has_flag FH_FLAG_HAS_LOGN FH_FLAG_HAS_LOGN"
  by (simp_all add: has_flag_def)

text \<open>
  An instruction is canonical when it holds only the operands its opcode's form has: a second
  source on the three-address forms, the immediate in the field the form names, and so on.
\<close>

definition imm_fields :: "Instruction \<Rightarrow> u64 option \<times> f64 option \<times> u64 option \<times> u64 option" where
  "imm_fields i = (immediate i, fp_immediate i, k_op i, offset i)"

definition canonical_inst :: "Instruction \<Rightarrow> bool" where
  "canonical_inst i \<longleftrightarrow>
     (fh_operand_form (opcode i) \<in> {PolyPoly, PolyPolyNI} \<or> src2 i = 0) \<and>
     (fh_opcode_has_operands (opcode i) \<or> dest i = 0 \<and> src1 i = 0) \<and>
     (modulus i = None \<longrightarrow> \<not> modulus_is_literal i) \<and>
     (case fh_operand_form (opcode i) of
        AutomorphEval \<Rightarrow> imm_fields i = (None, None, k_op i, None)
      | AutomorphCoeff \<Rightarrow> imm_fields i = (None, None, k_op i, None)
      | RotAutomorphCoeff \<Rightarrow> imm_fields i = (None, None, None, offset i)
      | PolyScalarNI \<Rightarrow> imm_fields i = (None, fp_immediate i, None, None)
      | _ \<Rightarrow> imm_fields i = (immediate i, None, None, None)) \<and>
     (if fh_operand_form (opcode i) = Ntt then mask_op i = None else omega i = None)"

text \<open>The fields of the record \<open>to_record\<close> builds, one equation each.\<close>

definition imm_of :: "Instruction \<Rightarrow> u64 option" where
  "imm_of i = (case fp_immediate i of Some b \<Rightarrow> Some b | None \<Rightarrow>
     (case immediate i of Some v \<Rightarrow> Some v | None \<Rightarrow>
     (case k_op i of Some v \<Rightarrow> Some v | None \<Rightarrow> offset i)))"

definition aux_of :: "Instruction \<Rightarrow> u64 option" where
  "aux_of i = (case omega i of Some v \<Rightarrow> Some v | None \<Rightarrow> mask_op i)"

definition opt_or_0 :: "'a::zero option \<Rightarrow> 'a" where
  "opt_or_0 x = (case x of Some v \<Rightarrow> v | None \<Rightarrow> 0)"

lemma opt_or_0_simps [simp]: "opt_or_0 None = 0" "opt_or_0 (Some v) = v"
  by (simp_all add: opt_or_0_def)

lemma opt_or_0_zero: "\<not> x \<noteq> None \<Longrightarrow> opt_or_0 x = 0"
  by simp

definition record_flags :: "Instruction \<Rightarrow> u8" where
  "record_flags i =
     (if fh_operand_form (opcode i) \<in> {PolyPoly, PolyPolyNI} then FH_FLAG_HAS_SRC2 else 0) OR
     (if modulus i = None then 0
      else if modulus_is_literal i then FH_FLAG_HAS_MOD OR FH_FLAG_MOD_LITERAL
      else FH_FLAG_HAS_MOD) OR
     (if imm_of i = None then 0 else FH_FLAG_HAS_IMM) OR
     (if aux_of i = None then 0 else FH_FLAG_HAS_AUX) OR
     (if logn i = None then 0 else FH_FLAG_HAS_LOGN)"

text \<open>The assignments of \<open>to_record\<close>, each as one unconditional update.\<close>

lemma to_record_steps:
  "(case f of
      PolyPoly \<Rightarrow> r\<lparr>r_flags := r_flags r OR FH_FLAG_HAS_SRC2, r_src2 := src2 i\<rparr>
    | PolyPolyNI \<Rightarrow> r\<lparr>r_flags := r_flags r OR FH_FLAG_HAS_SRC2, r_src2 := src2 i\<rparr>
    | _ \<Rightarrow> r) =
   r\<lparr>r_flags := r_flags r OR (if f \<in> {PolyPoly, PolyPolyNI} then FH_FLAG_HAS_SRC2 else 0),
     r_src2 := (if f \<in> {PolyPoly, PolyPolyNI} then src2 i else r_src2 r)\<rparr>"
  "(case m of
      Some m \<Rightarrow>
        (let r = r\<lparr>r_flags := r_flags r OR FH_FLAG_HAS_MOD\<rparr>;
             r = (if l then r\<lparr>r_flags := r_flags r OR FH_FLAG_MOD_LITERAL\<rparr> else r)
         in r\<lparr>r_modulus := m\<rparr>)
    | None \<Rightarrow> r) =
   r\<lparr>r_flags := r_flags r OR (if m = None then 0 else if l then FH_FLAG_HAS_MOD OR FH_FLAG_MOD_LITERAL
        else FH_FLAG_HAS_MOD),
     r_modulus := (case m of Some m \<Rightarrow> m | None \<Rightarrow> r_modulus r)\<rparr>"
  "(case fp of
      Some bits \<Rightarrow> r\<lparr>r_flags := r_flags r OR FH_FLAG_HAS_IMM, r_imm := bits\<rparr>
    | None \<Rightarrow>
   (case im of
      Some v \<Rightarrow> r\<lparr>r_flags := r_flags r OR FH_FLAG_HAS_IMM, r_imm := v\<rparr>
    | None \<Rightarrow>
   (case k of
      Some v \<Rightarrow> r\<lparr>r_flags := r_flags r OR FH_FLAG_HAS_IMM, r_imm := v\<rparr>
    | None \<Rightarrow>
   (case ofs of
      Some v \<Rightarrow> r\<lparr>r_flags := r_flags r OR FH_FLAG_HAS_IMM, r_imm := v\<rparr>
    | None \<Rightarrow> r)))) =
   (let x = (case fp of Some b \<Rightarrow> Some b | None \<Rightarrow> (case im of Some v \<Rightarrow> Some v | None \<Rightarrow>
              (case k of Some v \<Rightarrow> Some v | None \<Rightarrow> ofs)))
    in r\<lparr>r_flags := r_flags r OR (if x = None then 0 else FH_FLAG_HAS_IMM),
         r_imm := (case x of Some v \<Rightarrow> v | None \<Rightarrow> r_imm r)\<rparr>)"
  "(case om of
      Some v \<Rightarrow> r\<lparr>r_flags := r_flags r OR FH_FLAG_HAS_AUX, r_aux := v\<rparr>
    | None \<Rightarrow>
   (case mk of
      Some v \<Rightarrow> r\<lparr>r_flags := r_flags r OR FH_FLAG_HAS_AUX, r_aux := v\<rparr>
    | None \<Rightarrow> r)) =
   (let x = (case om of Some v \<Rightarrow> Some v | None \<Rightarrow> mk)
    in r\<lparr>r_flags := r_flags r OR (if x = None then 0 else FH_FLAG_HAS_AUX),
         r_aux := (case x of Some v \<Rightarrow> v | None \<Rightarrow> r_aux r)\<rparr>)"
  "(case lg of
      Some v \<Rightarrow> r\<lparr>r_flags := r_flags r OR FH_FLAG_HAS_LOGN, r_logn := v\<rparr>
    | None \<Rightarrow> r) =
   r\<lparr>r_flags := r_flags r OR (if lg = None then 0 else FH_FLAG_HAS_LOGN),
     r_logn := (case lg of Some v \<Rightarrow> v | None \<Rightarrow> r_logn r)\<rparr>"
  by (cases f; simp) (simp_all add: Let_def or.assoc split: option.split)

lemma to_record_eq:
  "to_record i =
     \<lparr>r_opcode = opcode i, r_flags = record_flags i, r_logn = opt_or_0 (logn i), r_dst = dest i,
      r_src1 = src1 i,
      r_src2 = (if fh_operand_form (opcode i) \<in> {PolyPoly, PolyPolyNI} then src2 i else 0),
      r_modulus = opt_or_0 (modulus i), r_imm = opt_or_0 (imm_of i), r_aux = opt_or_0 (aux_of i)\<rparr>"
  unfolding to_record_def to_record_steps
  by (simp add: Let_def record_flags_def imm_of_def aux_of_def opt_or_0_def FhetchRecord_init_def
      or.assoc cong: option.case_cong)

lemma record_flags_simps [codec_simps]:
  "has_flag (record_flags i) FH_FLAG_HAS_SRC2 \<longleftrightarrow>
     fh_operand_form (opcode i) \<in> {PolyPoly, PolyPolyNI}"
  "has_flag (record_flags i) FH_FLAG_HAS_MOD \<longleftrightarrow> modulus i \<noteq> None"
  "has_flag (record_flags i) FH_FLAG_MOD_LITERAL \<longleftrightarrow> modulus i \<noteq> None \<and> modulus_is_literal i"
  "has_flag (record_flags i) FH_FLAG_HAS_IMM \<longleftrightarrow> imm_of i \<noteq> None"
  "has_flag (record_flags i) FH_FLAG_HAS_AUX \<longleftrightarrow> aux_of i \<noteq> None"
  "has_flag (record_flags i) FH_FLAG_HAS_LOGN \<longleftrightarrow> logn i \<noteq> None"
  unfolding record_flags_def has_flag_or has_flag_if
  by (simp_all add: has_flag_flags has_flag_0)

lemma wf_record_to_record:
  "fh_opcode_has_operands (opcode i) \<or> dest i = 0 \<and> src1 i = 0 \<Longrightarrow> wf_record (to_record i)"
  by (auto simp: wf_record_def to_record_eq codec_simps opt_or_0_zero simp del: not_None_eq)

text \<open>The fields \<open>from_record\<close> sets.\<close>

lemma from_record_steps:
  "(if b then inst\<lparr>src2 := s\<rparr> else inst) = inst\<lparr>src2 := (if b then s else src2 inst)\<rparr>"
  "(if b then inst\<lparr>modulus := x, modulus_is_literal := l\<rparr> else inst) =
     inst\<lparr>modulus := (if b then x else modulus inst),
          modulus_is_literal := (if b then l else modulus_is_literal inst)\<rparr>"
  "(if b then (case f of
       AutomorphEval \<Rightarrow> inst\<lparr>k_op := v\<rparr>
     | AutomorphCoeff \<Rightarrow> inst\<lparr>k_op := v\<rparr>
     | RotAutomorphCoeff \<Rightarrow> inst\<lparr>offset := v\<rparr>
     | PolyScalarNI \<Rightarrow> inst\<lparr>fp_immediate := v\<rparr>
     | _ \<Rightarrow> inst\<lparr>immediate := v\<rparr>) else inst) =
   inst\<lparr>k_op := (if b \<and> f \<in> {AutomorphEval, AutomorphCoeff} then v else k_op inst),
        offset := (if b \<and> f = RotAutomorphCoeff then v else offset inst),
        fp_immediate := (if b \<and> f = PolyScalarNI then v else fp_immediate inst),
        immediate := (if b \<and> f \<notin> {AutomorphEval, AutomorphCoeff, RotAutomorphCoeff, PolyScalarNI}
                      then v else immediate inst)\<rparr>"
  "(if b then (if c then inst\<lparr>omega := v\<rparr> else inst\<lparr>mask_op := v\<rparr>) else inst) =
     inst\<lparr>omega := (if b \<and> c then v else omega inst),
          mask_op := (if b \<and> \<not> c then v else mask_op inst)\<rparr>"
  "(if b then inst\<lparr>logn := g\<rparr> else inst) = inst\<lparr>logn := (if b then g else logn inst)\<rparr>"
  by (cases inst; cases f; simp)+

lemma from_record_eq:
  "from_record r =
     (let fl = r_flags r; f = fh_operand_form (r_opcode r); im = has_flag fl FH_FLAG_HAS_IMM;
          ax = has_flag fl FH_FLAG_HAS_AUX
      in \<lparr>opcode = r_opcode r, dest = r_dst r, src1 = r_src1 r,
          src2 = (if has_flag fl FH_FLAG_HAS_SRC2 then r_src2 r else 0),
          immediate = (if im \<and> f \<notin> {AutomorphEval, AutomorphCoeff, RotAutomorphCoeff, PolyScalarNI}
                       then Some (r_imm r) else None),
          fp_immediate = (if im \<and> f = PolyScalarNI then Some (r_imm r) else None),
          modulus = (if has_flag fl FH_FLAG_HAS_MOD then Some (r_modulus r) else None),
          modulus_is_literal =
            (if has_flag fl FH_FLAG_HAS_MOD then has_flag fl FH_FLAG_MOD_LITERAL else False),
          omega = (if ax \<and> f = Ntt then Some (r_aux r) else None),
          mask_op = (if ax \<and> f \<noteq> Ntt then Some (r_aux r) else None),
          logn = (if has_flag fl FH_FLAG_HAS_LOGN then Some (r_logn r) else None),
          k_op = (if im \<and> f \<in> {AutomorphEval, AutomorphCoeff} then Some (r_imm r) else None),
          offset = (if im \<and> f = RotAutomorphCoeff then Some (r_imm r) else None),
          line_number = 0\<rparr>)"
  unfolding from_record_def from_record_steps by (simp add: Let_def Instruction_init_def)

lemma canonical_imm_of:
  assumes "canonical_inst i"
  shows "immediate i = (if fh_operand_form (opcode i) \<notin>
           {AutomorphEval, AutomorphCoeff, RotAutomorphCoeff, PolyScalarNI} then imm_of i else None)"
    and "fp_immediate i = (if fh_operand_form (opcode i) = PolyScalarNI then imm_of i else None)"
    and "k_op i = (if fh_operand_form (opcode i) \<in> {AutomorphEval, AutomorphCoeff}
           then imm_of i else None)"
    and "offset i = (if fh_operand_form (opcode i) = RotAutomorphCoeff then imm_of i else None)"
    and "omega i = (if fh_operand_form (opcode i) = Ntt then aux_of i else None)"
    and "mask_op i = (if fh_operand_form (opcode i) \<noteq> Ntt then aux_of i else None)"
  using assms
  by (cases "fh_operand_form (opcode i)";
      simp add: canonical_inst_def imm_fields_def imm_of_def aux_of_def split: option.split)+

lemma Some_opt_or_0: "(if x \<noteq> None then Some (opt_or_0 x) else None) = x"
  by (cases x) simp_all

lemma record_roundtrip:
  assumes c: "canonical_inst i"
  shows "from_record (to_record i) = i\<lparr>line_number := 0\<rparr> \<and> wf_record (to_record i)"
proof
  show "wf_record (to_record i)"
    using c by (intro wf_record_to_record) (simp add: canonical_inst_def)
  have s2: "(if fh_operand_form (opcode i) \<in> {PolyPoly, PolyPolyNI} then src2 i else 0) = src2 i"
    and ml: "(if modulus i \<noteq> None then modulus i \<noteq> None \<and> modulus_is_literal i else False) =
      modulus_is_literal i"
    using c by (auto simp: canonical_inst_def)
  have split: "(if x \<noteq> None \<and> P then Some (opt_or_0 x) else None) = (if P then x else None)"
    for x :: "u64 option" and P by (cases x) simp_all
  show "from_record (to_record i) = i\<lparr>line_number := 0\<rparr>"
    by (rule Instruction.equality;
        simp only: from_record_eq to_record_eq record_flags_simps split Some_opt_or_0
          canonical_imm_of [OF c, symmetric] s2 ml Let_def Instruction.simps FhetchRecord.simps)
       (use s2 in auto)
qed

text \<open>
  A canonical instruction survives the trip through its wire record exactly, its line number
  apart (which the binary form does not carry), and the record is one the container round-trips.
\<close>

theorem from_record_to_record:
  assumes "canonical_inst i"
  shows "from_record (to_record i) = i\<lparr>line_number := 0\<rparr> \<and> wf_record (to_record i)"
  using record_roundtrip [OF assms] .

theorem from_record_to_record_witness:
  "from_record (to_record (Instruction_init\<lparr>opcode := FH_SR_NTT, dest := 4, src1 := 3,
       modulus := Some 1, omega := Some 9, line_number := 12\<rparr>)) =
     Instruction_init\<lparr>opcode := FH_SR_NTT, dest := 4, src1 := 3, modulus := Some 1, omega := Some 9\<rparr>"
proof -
  let ?i = "Instruction_init\<lparr>opcode := FH_SR_NTT, dest := 4, src1 := 3,
       modulus := Some 1, omega := Some 9, line_number := 12\<rparr>"
  have "canonical_inst ?i"
    by (simp add: canonical_inst_def Instruction_init_def imm_fields_def fh_operand_form_simps
        fh_opcode_has_operands_iff)
  from from_record_to_record [OF this] show ?thesis by (simp add: Instruction_init_def)
qed

section \<open>Variable-length integers\<close>

text \<open>
  The variable-length integers of the record stream.  Reading back what \<open>put_varint\<close> appended
  gives the value and the offset past it, in whatever context; a reader always ends within ten bytes
  and inside the buffer; but the encoding it accepts is not unique, since an overlong form of a
  value is read as that value.
\<close>

theorem varint_roundtrip:
  "get_varint (put_varint out v @ post) (length out) = Inr (Some (v, length (put_varint out v))) \<and>
   (\<forall>bs off w off'. get_varint bs off = Inr (Some (w, off')) \<longrightarrow>
      off < off' \<and> off' \<le> length bs \<and> off' \<le> off + kFhexMaxVarintBytes) \<and>
   get_varint [0x80, 0x00] 0 = Inr (Some (0, 2)) \<and> put_varint [] 0 = [0x00]"
proof (intro conjI allI impI)
  show "get_varint (put_varint out v @ post) (length out) =
      Inr (Some (v, length (put_varint out v)))"
    using get_varint_varint [of "put_varint out v @ post" out v post "length out"]
    by (simp add: put_varint_eq)
  show "get_varint [0x80, 0x00] 0 = Inr (Some (0, 2))"
    by (simp add: get_varint_def get_varint_loop.simps byte_at_def kFhexMaxVarintBytes_def)
  show "put_varint [] 0 = [0x00]" by (simp add: put_varint.simps)
next
  fix bs off w off'
  assume "get_varint bs off = Inr (Some (w, off'))"
  then have "off < off' \<and> off' \<le> length bs \<and> off' + 0 \<le> off + kFhexMaxVarintBytes"
    unfolding get_varint_def by (rule get_varint_loop_bounds)
  then show "off < off'" "off' \<le> length bs" "off' \<le> off + kFhexMaxVarintBytes" by simp_all
qed

theorem varint_roundtrip_witness:
  "get_varint (put_varint [7] 300 @ [9]) 1 = Inr (Some (300, 3)) \<and> 3 \<le> 1 + kFhexMaxVarintBytes"
proof -
  have l: "length (put_varint [7] 300) = 3" by (simp add: put_varint.simps)
  have a: "get_varint (put_varint [7] 300 @ [9]) 1 = Inr (Some (300, 3))"
    using varint_roundtrip [of "[7]" 300 "[9]"] l by simp
  moreover from this have "3 \<le> 1 + kFhexMaxVarintBytes"
    using varint_roundtrip [of "[7]" 300 "[9]"] by blast
  ultimately show ?thesis by blast
qed

end
