(* ===== verification/CppText.thy ===== *)
theory CppText
  imports Prelude "HOL-Library.Sublist"
begin

text \<open>
  The parts of the C++ standard library the text reader and writer call: decimal and hexadecimal
  output, \<open>std::to_string\<close> of a double, \<open>strtoull\<close> in base 0, \<open>std::getline\<close>, extraction of
  whitespace-separated tokens, searching in strings and lower-casing, all in the classic locale.
\<close>

section \<open>Numbers to text\<close>

definition digit_char :: "nat \<Rightarrow> char" where
  "digit_char d = ''0123456789ABCDEF'' ! d"

fun num_string :: "nat \<Rightarrow> nat \<Rightarrow> string" where
  "num_string b n =
     (if b < 2 \<or> n < b then [digit_char n] else num_string b (n div b) @ [digit_char (n mod b)])"

declare num_string.simps [simp del]

definition to_string_nat :: "nat \<Rightarrow> string" where
  "to_string_nat n = num_string 10 n"

definition to_string_int :: "i32 \<Rightarrow> string" where
  "to_string_int v =
     (if sint v < 0 then ''-'' @ to_string_nat (nat (- sint v)) else to_string_nat (nat (sint v)))"

definition to_hex_upper :: "nat \<Rightarrow> string" where
  "to_hex_upper n = num_string 16 n"

text \<open>
  \<open>std::to_string(double)\<close> is \<open>printf\<close>'s \<open>%f\<close>: the exact value rounded to six places, ties to even.
\<close>

definition round_half_even :: "nat \<Rightarrow> nat \<Rightarrow> nat" where
  "round_half_even a b =
     (let q = a div b; r = a mod b in
      if 2 * r < b \<or> (2 * r = b \<and> even q) then q else q + 1)"

definition to_string_f64 :: "f64 \<Rightarrow> string" where
  "to_string_f64 bits =
     (let sgn = (if bit bits 63 then ''-'' else '''');
          ex = unat (take_bit 11 (drop_bit 52 bits));
          fr = unat (take_bit 52 bits) in
      if ex = 2047 then sgn @ (if fr = 0 then ''inf'' else ''nan'')
      else
        let mant = (if ex = 0 then fr else 2 ^ 52 + fr);
            e = (if ex = 0 then 1 else ex);
            scaled = (if e \<ge> 1075 then mant * 10 ^ 6 * 2 ^ (e - 1075)
                      else round_half_even (mant * 10 ^ 6) (2 ^ (1075 - e)))
        in sgn @ to_string_nat (scaled div 10 ^ 6) @ ''.'' @
           drop 1 (to_string_nat (10 ^ 6 + scaled mod 10 ^ 6)))"

section \<open>Characters\<close>

definition is_space :: "char \<Rightarrow> bool" where
  "is_space c \<longleftrightarrow> c \<in> {CHR '' '', CHR 0x09, CHR 0x0A, CHR 0x0B, CHR 0x0C, CHR 0x0D}"

definition to_lower :: "char \<Rightarrow> char" where
  "to_lower c = (if 65 \<le> (of_char c :: nat) \<and> (of_char c :: nat) \<le> 90
                 then char_of ((of_char c :: nat) + 32) else c)"

text \<open>The value of a character as a digit, letters standing for ten and up.\<close>

definition digit_value :: "char \<Rightarrow> nat option" where
  "digit_value c =
     (let n = (of_char c :: nat) in
      if 48 \<le> n \<and> n \<le> 57 then Some (n - 48)
      else if 65 \<le> n \<and> n \<le> 90 then Some (n - 55)
      else if 97 \<le> n \<and> n \<le> 122 then Some (n - 87)
      else None)"

definition is_digit_in :: "nat \<Rightarrow> char \<Rightarrow> bool" where
  "is_digit_in b c = (case digit_value c of Some d \<Rightarrow> d < b | None \<Rightarrow> False)"

definition digits_value :: "nat \<Rightarrow> string \<Rightarrow> nat" where
  "digits_value b s = foldl (\<lambda>acc c. acc * b + the (digit_value c)) 0 s"

section \<open>\<open>strtoull\<close>\<close>

text \<open>
  The value, whether \<open>errno\<close> was set to \<open>ERANGE\<close>, and how many characters were consumed (\<open>end - s\<close>,
  zero when there is no number).
\<close>

definition strto_base :: "string \<Rightarrow> nat \<times> nat" where
  "strto_base s =
     (if length s > 2 \<and> s ! 0 = CHR ''0'' \<and> s ! 1 \<in> {CHR ''x'', CHR ''X''} \<and> is_digit_in 16 (s ! 2)
      then (16, 2) else if s \<noteq> [] \<and> hd s = CHR ''0'' then (8, 0) else (10, 0))"

definition strto_sign :: "string \<Rightarrow> nat" where
  "strto_sign s = (if s \<noteq> [] \<and> hd s \<in> {CHR ''-'', CHR ''+''} then 1 else 0)"

definition strto_digits :: "bool \<Rightarrow> nat \<Rightarrow> nat \<Rightarrow> string \<Rightarrow> u64 \<times> bool \<times> nat" where
  "strto_digits neg used base ds =
     (if ds = [] then (0, False, 0)
      else if digits_value base ds \<ge> 2 ^ 64 then (- 1, True, used + length ds)
      else (if neg then - of_nat (digits_value base ds) else of_nat (digits_value base ds), False,
            used + length ds))"

definition strtoull :: "string \<Rightarrow> u64 \<times> bool \<times> nat" where
  "strtoull s =
     (let sp = length (takeWhile is_space s);
          s1 = drop sp s;
          sn = strto_sign s1;
          (base, pre) = strto_base (drop sn s1)
      in strto_digits (s1 \<noteq> [] \<and> hd s1 = CHR ''-'') (sp + sn + pre) base
           (takeWhile (is_digit_in base) (drop (sn + pre) s1)))"

section \<open>Lines and tokens\<close>

text \<open>Repeated \<open>std::getline\<close>: a last line without a terminator counts, an empty one does not.\<close>

fun getlines :: "string \<Rightarrow> string list" where
  "getlines [] = []"
| "getlines (c # cs) =
     (if c = CHR 0x0A then [] # getlines cs
      else case getlines cs of
             [] \<Rightarrow> [[c]]
           | l # ls \<Rightarrow> if cs \<noteq> [] \<and> hd cs = CHR 0x0A then [c] # ls else (c # l) # ls)"

text \<open>Repeated extraction with \<open>>>\<close> into a string.\<close>

fun tokens_aux :: "string \<Rightarrow> string \<Rightarrow> string list" where
  "tokens_aux cur [] = (if cur = [] then [] else [cur])"
| "tokens_aux cur (c # cs) =
     (if is_space c then (if cur = [] then tokens_aux [] cs else cur # tokens_aux [] cs)
      else tokens_aux (cur @ [c]) cs)"

definition tokens :: "string \<Rightarrow> string list" where
  "tokens s = tokens_aux [] s"

text \<open>\<open>find\<close> of a character and \<open>rfind\<close> of a string: the position, if any.\<close>

fun find_char :: "char \<Rightarrow> string \<Rightarrow> nat option" where
  "find_char c [] = None"
| "find_char c (x # xs) = (if x = c then Some 0 else map_option Suc (find_char c xs))"

definition rfind_str :: "string \<Rightarrow> string \<Rightarrow> nat option" where
  "rfind_str pat s =
     (case rev (filter (\<lambda>i. take (length pat) (drop i s) = pat) [0..<length s + 1]) of
        [] \<Rightarrow> None | i # _ \<Rightarrow> Some i)"

section \<open>Printing and scanning are inverse\<close>

lemma digit_value_digit_char: "d < 16 \<Longrightarrow> digit_value (digit_char d) = Some d"
proof -
  assume "d < 16"
  then have "d \<in> set [0..<16]" by simp
  moreover have "list_all (\<lambda>d. digit_value (digit_char d) = Some d) [0..<16]"
    by (simp add: upt_rec digit_value_def digit_char_def)
  ultimately show ?thesis by (simp add: list_all_iff)
qed

lemma digits_value_snoc: "digits_value b (s @ [c]) = digits_value b s * b + the (digit_value c)"
  by (simp add: digits_value_def)

lemma num_string_digits:
  assumes "2 \<le> b" "b \<le> 16"
  shows "digits_value b (num_string b n) = n \<and> list_all (is_digit_in b) (num_string b n) \<and>
    num_string b n \<noteq> [] \<and> (n \<noteq> 0 \<longrightarrow> hd (num_string b n) \<noteq> CHR ''0'')"
  using assms
proof (induction b n rule: num_string.induct)
  case (1 b n)
  show ?case
  proof (cases "n < b")
    case True
    have "digit_char n = CHR ''0'' \<Longrightarrow> n = 0"
      using digit_value_digit_char [of n] True 1 by (auto simp: digit_value_def)
    then show ?thesis
      using True 1 digit_value_digit_char [of n]
      by (auto simp: num_string.simps [of b n] digits_value_def is_digit_in_def)
  next
    case False
    have lt: "n mod b < b" using 1 by simp
    have ih: "digits_value b (num_string b (n div b)) = n div b"
      "list_all (is_digit_in b) (num_string b (n div b))" "num_string b (n div b) \<noteq> []"
      "n div b \<noteq> 0 \<longrightarrow> hd (num_string b (n div b)) \<noteq> CHR ''0''"
      using 1 False by auto
    have "n div b \<noteq> 0" using False 1 by (simp add: div_eq_0_iff)
    moreover have "digit_value (digit_char (n mod b)) = Some (n mod b)"
      using lt 1(3) by (intro digit_value_digit_char) (rule less_le_trans)
    ultimately show ?thesis
      using False 1 ih lt
      by (auto simp: num_string.simps [of b n] digits_value_snoc is_digit_in_def)
  qed
qed

lemma digit_not_space: "is_digit_in b c \<Longrightarrow> \<not> is_space c \<and> c \<notin> {CHR ''-'', CHR ''+'', CHR '','', CHR ''#''}"
  by (auto simp: is_digit_in_def digit_value_def is_space_def split: option.splits)

lemma takeWhile_all: "list_all P s \<Longrightarrow> takeWhile P s = s"
  by (simp add: list_all_iff takeWhile_eq_all_conv)

lemma strto_digits_value:
  "ds \<noteq> [] \<Longrightarrow> digits_value base ds = n \<Longrightarrow> n < 2 ^ 64 \<Longrightarrow>
     strto_digits False used base ds = (of_nat n, False, used + length ds)"
  by (simp add: strto_digits_def)

lemma strtoull_unsigned:
  assumes "s \<noteq> []" "\<not> is_space (hd s)" "hd s \<notin> {CHR ''-'', CHR ''+''}"
    and "strto_base s = (base, pre)" and "list_all (is_digit_in base) (drop pre s)"
    and "drop pre s \<noteq> []" and "digits_value base (drop pre s) = n" and "n < 2 ^ 64"
  shows "strtoull s = (of_nat n, False, length s)"
proof -
  have sp: "takeWhile is_space s = []" using assms(1,2) by (cases s) auto
  have sn: "strto_sign s = 0" using assms(3) by (simp add: strto_sign_def)
  have ng: "(s \<noteq> [] \<and> hd s = CHR ''-'') = False" using assms(3) by auto
  have "strtoull s = strto_digits False pre base (drop pre s)"
    using assms(4) by (simp add: strtoull_def sp sn ng Let_def takeWhile_all [OF assms(5)])
  also have "\<dots> = (of_nat n, False, pre + length (drop pre s))"
    by (rule strto_digits_value [OF assms(6,7,8)])
  finally show ?thesis using assms(6) by simp
qed

lemma strtoull_decimal:
  assumes "n < 2 ^ 64"
  shows "strtoull (to_string_nat n) = (of_nat n, False, length (to_string_nat n))"
proof -
  let ?s = "num_string 10 n"
  have d: "digits_value 10 ?s = n" "list_all (is_digit_in 10) ?s" "?s \<noteq> []"
    "n \<noteq> 0 \<longrightarrow> hd ?s \<noteq> CHR ''0''"
    using num_string_digits [of 10 n] by simp_all
  have h: "is_digit_in 10 (hd ?s)" using d by (cases ?s) auto
  show ?thesis
  proof (cases "n = 0")
    case True
    have z: "num_string 10 0 = ''0''" by (simp add: num_string.simps digit_char_def)
    show ?thesis
      unfolding True to_string_nat_def z
      by (rule strtoull_unsigned [where base = 8 and pre = 0])
         (simp_all add: is_space_def strto_base_def is_digit_in_def digit_value_def digits_value_def)
  next
    case False
    then have "hd ?s \<noteq> CHR ''0''" "?s ! 0 \<noteq> CHR ''0''" using d by (auto simp: hd_conv_nth)
    then have "strto_base ?s = (10, 0)" by (simp add: strto_base_def)
    then show ?thesis
      unfolding to_string_nat_def
      using d digit_not_space [OF h] assms
      by (intro strtoull_unsigned [where base = 10 and pre = 0]) simp_all
  qed
qed

lemma strtoull_hex:
  assumes "n < 2 ^ 64"
  shows "strtoull (''0x'' @ to_hex_upper n) = (of_nat n, False, 2 + length (to_hex_upper n))"
proof -
  let ?s = "num_string 16 n"
  have d: "digits_value 16 ?s = n" "list_all (is_digit_in 16) ?s" "?s \<noteq> []"
    using num_string_digits [of 16 n] by simp_all
  have "is_digit_in 16 (?s ! 0)" using d by (cases ?s) auto
  then have "strto_base (''0x'' @ ?s) = (16, 2)" using d(3) by (simp add: strto_base_def)
  then have "strtoull (''0x'' @ ?s) = (of_nat n, False, length (''0x'' @ ?s))"
    by (rule strtoull_unsigned [rotated 3]) (use d assms in \<open>simp_all add: is_space_def\<close>)
  then show ?thesis by (simp add: to_hex_upper_def)
qed

section \<open>Lines and tokens of what was joined\<close>

lemma getlines_join:
  "list_all (\<lambda>l. CHR 0x0A \<notin> set l) ls \<Longrightarrow> getlines (concat (map (\<lambda>l. l @ [CHR 0x0A]) ls)) = ls"
proof (induction ls)
  case (Cons l ls)
  have "CHR 0x0A \<notin> set l \<Longrightarrow> getlines rest = ls \<Longrightarrow> getlines (l @ CHR 0x0A # rest) = l # ls" for l rest
  proof (induction l)
    case (Cons c cs)
    then show ?case by (cases cs) auto
  qed simp
  then show ?case using Cons by simp
qed simp

lemma tokens_aux_word:
  "list_all (\<lambda>c. \<not> is_space c) w \<Longrightarrow> tokens_aux cur (w @ rest) = tokens_aux (cur @ w) rest"
  by (induction w arbitrary: cur) auto

lemma tokens_join:
  assumes "list_all (\<lambda>w. w \<noteq> [] \<and> list_all (\<lambda>c. \<not> is_space c) w) (w # ws)"
  shows "tokens (w @ concat (map (\<lambda>w. CHR '' '' # w) ws)) = w # ws"
  using assms
proof (induction ws arbitrary: w)
  case Nil
  then show ?case using tokens_aux_word [of w "[]" "[]"] by (simp add: tokens_def)
next
  case (Cons v vs)
  have "tokens (w @ CHR '' '' # v @ concat (map (\<lambda>w. CHR '' '' # w) vs)) =
      w # tokens (v @ concat (map (\<lambda>w. CHR '' '' # w) vs))"
    using Cons.prems by (simp add: tokens_def tokens_aux_word is_space_def)
  then show ?case using Cons by simp
qed

end
