(* ===== verification/FhetchWriter.thy ===== *)
theory FhetchWriter
  imports CppText FhexCodec
begin

text \<open>
  The two serializations of a program (\<open>src/fhetch_writer.cpp\<close>): the text form, rendered by
  appending to one buffer, and the binary form over the records of the instructions.
\<close>

section \<open>Text\<close>

definition newline :: string where
  "newline = [CHR 0x0A]"

definition append_uint :: "string \<Rightarrow> u64 \<Rightarrow> string" where
  "append_uint out v = out @ to_string_nat (unat v)"

definition append_addr :: "string \<Rightarrow> u32 \<Rightarrow> string" where
  "append_addr out a = append_uint (out @ ''%'') (ucast a)"

definition append_named :: "string \<Rightarrow> string \<Rightarrow> u64 \<Rightarrow> string" where
  "append_named out nm v = append_uint (((out @ '', '') @ nm) @ ''='') v"

definition append_modulus :: "string \<Rightarrow> Instruction \<Rightarrow> string" where
  "append_modulus out inst =
     (case modulus inst of Some m \<Rightarrow> append_named out ''m'' m | None \<Rightarrow> out)"

definition value_or :: "'a option \<Rightarrow> 'a \<Rightarrow> 'a" where
  "value_or x d = (case x of Some v \<Rightarrow> v | None \<Rightarrow> d)"

definition append_named_opt :: "string \<Rightarrow> string \<Rightarrow> u64 option \<Rightarrow> string" where
  "append_named_opt out nm v = (case v of Some v \<Rightarrow> append_named out nm v | None \<Rightarrow> out)"

definition render_instruction :: "Instruction \<Rightarrow> string \<Rightarrow> string" where
  "render_instruction inst out =
     (case fh_opcode_mnemonic (opcode inst) of
        None \<Rightarrow> out
      | Some mnemonic \<Rightarrow>
        let out = out @ mnemonic; form = fh_operand_form (opcode inst) in
        if form = FormNone then out
        else
          let out = append_addr (append_addr (out @ '' '') (dest inst) @ '', '') (src1 inst) in
          case form of
            FormNone \<Rightarrow> out
          | PolyPoly \<Rightarrow> append_modulus (append_addr (out @ '', '') (src2 inst)) inst
          | PolyPolyNI \<Rightarrow> append_addr (out @ '', '') (src2 inst)
          | PolyScalar \<Rightarrow>
              append_modulus (append_uint (out @ '', '') (value_or (immediate inst) 0)) inst
          | PolyScalarNI \<Rightarrow> (out @ '', '') @ to_string_f64 (value_or (fp_immediate inst) 0)
          | UnaryMod \<Rightarrow> append_modulus out inst
          | UnaryNoMod \<Rightarrow> out
          | Ntt \<Rightarrow> append_named_opt (append_modulus out inst) ''omega'' (omega inst)
          | AutomorphEval \<Rightarrow>
              append_named_opt
                (append_named_opt
                  (append_named_opt (append_modulus out inst) ''mask'' (mask_op inst))
                  ''logn'' (map_option ucast (logn inst)))
                ''k'' (k_op inst)
          | AutomorphCoeff \<Rightarrow>
              append_modulus (append_named out ''k'' (value_or (k_op inst) 0)) inst
          | RotAutomorphCoeff \<Rightarrow>
              append_modulus (append_named out ''offset'' (value_or (offset inst) 0)) inst)"

definition render_instruction_string :: "Instruction \<Rightarrow> string" where
  "render_instruction_string inst = render_instruction inst []"

definition kRule :: string where
  "kRule = ''# ========================================='' @ newline"

definition render_header :: "TraceMetadata \<Rightarrow> nat \<Rightarrow> nat \<Rightarrow> string" where
  "render_header md inst_count modulus_count =
     kRule @ ''# Niobium FHETCH Trace'' @ newline @ kRule @
     (if program_name md \<noteq> [] then
        ''# Program: '' @ program_name md @
        (if program_version md \<noteq> [] then '' v'' @ program_version md else []) @ newline
      else []) @
     (if description md \<noteq> [] then ''# Description: '' @ description md @ newline else []) @
     (if source_file md \<noteq> [] then
        ''# Source: '' @ source_file md @ '':'' @ to_string_int (source_line md) @ newline
      else []) @
     (if build_timestamp md \<noteq> [] then ''# Build: '' @ build_timestamp md @ newline else []) @
     ''# Instruction Count: '' @ to_string_nat inst_count @ newline @
     ''# Modulus Count: '' @ to_string_nat modulus_count @ newline @
     (if generated_timestamp md \<noteq> 0 then
        ''# Generated: '' @ to_string_nat (unat (generated_timestamp md)) @ newline
      else []) @
     kRule"

definition render_modulus_entry :: "nat \<Rightarrow> u64 \<Rightarrow> string" where
  "render_modulus_entry i q =
     ''m['' @ to_string_nat i @ ''] 0x'' @ to_hex_upper (unat q) @ newline"

definition render_modulus_table :: "u64 list \<Rightarrow> string" where
  "render_modulus_table tab =
     ''modulus_count '' @ to_string_nat (length tab) @ newline @
     concat (map (\<lambda>i. render_modulus_entry i (tab ! i)) [0..<length tab])"

text \<open>
  The lambda of \<open>write_fhetch_text\<close>: the cursor into the annotations is the list still to come.
\<close>

fun flush_annotations_before :: "nat \<Rightarrow> string \<Rightarrow> Annotation list \<Rightarrow> string \<times> Annotation list" where
  "flush_annotations_before i out [] = (out, [])"
| "flush_annotations_before i out (n # ns) =
     (if after_instruction n \<le> i
      then flush_annotations_before i (out @ ''# '' @ an_text n @ newline) ns
      else (out, n # ns))"

fun write_instructions ::
  "nat \<Rightarrow> Instruction list \<Rightarrow> string \<Rightarrow> Annotation list \<Rightarrow> string \<times> Annotation list" where
  "write_instructions i [] out notes = (out, notes)"
| "write_instructions i (inst # insts) out notes =
     (let (out, notes) = flush_annotations_before i out notes;
          line = render_instruction inst [];
          out = (if line = [] then out else out @ line @ newline)
      in write_instructions (i + 1) insts out notes)"

text \<open>The characters \<open>write_fhetch_text\<close> sends to the stream.\<close>

definition fhetch_text :: "Program \<Rightarrow> string" where
  "fhetch_text program =
     (let out = render_header (metadata program) (length (instructions program))
                  (length (modulus_table program));
          out = out @ newline @ ''# Modulus Table'' @ newline @
                render_modulus_table (modulus_table program);
          out = out @ newline @ ''# Instructions'' @ newline;
          (out, rest) = write_instructions 0 (instructions program) out (annotations program)
      in out @ concat (map (\<lambda>n. ''# '' @ an_text n @ newline) rest))"

definition write_fhetch_text :: "bool \<Rightarrow> bool \<Rightarrow> Program \<Rightarrow> bool \<times> string option" where
  "write_fhetch_text opens good program =
     (if \<not> opens then (False, None) else (good, Some (fhetch_text program)))"

section \<open>Binary\<close>

definition binary_metadata :: "Program \<Rightarrow> TraceMetadata" where
  "binary_metadata program =
     (metadata program)\<lparr>
        instruction_count := of_nat (length (instructions program)),
        modulus_chain := modulus_table program,
        modulus_chain_length := of_nat (length (modulus_table program))\<rparr>"

definition write_fhetch_binary ::
  "bool \<Rightarrow> bool \<Rightarrow> bool \<Rightarrow> Program \<Rightarrow> FhetchSpec \<Rightarrow> cpp_error + bool \<times> bytes option" where
  "write_fhetch_binary h opens good program spec =
     write_fhetch_program h opens good (binary_metadata program) (modulus_table program)
       (map to_record (instructions program)) spec"

end
