(* ===== verification/FhetchReader.thy ===== *)
theory FhetchReader
  imports CppText FhexCodec
begin

text \<open>
  The reader of both serializations (\<open>src/fhetch_reader.cpp\<close>).

  Two answers of the environment are parameters, in \<open>text_env\<close>: the C library's \<open>strtod\<close> (value, range
  error, characters consumed), and the largest element count a \<open>vector::reserve\<close> can obtain before it
  throws.
\<close>

record text_env =
  strtod :: "string \<Rightarrow> f64 \<times> bool \<times> nat"
  reserve_limit :: nat

section \<open>Tokens\<close>

definition trim_char :: "char \<Rightarrow> bool" where
  "trim_char c \<longleftrightarrow> c \<in> {CHR '' '', CHR 0x09, CHR 0x0D, CHR 0x0A}"

definition trim :: "string \<Rightarrow> string" where
  "trim s = rev (dropWhile trim_char (rev (dropWhile trim_char s)))"

definition strip_comma :: "string \<Rightarrow> string" where
  "strip_comma s =
     (let s = trim s; s = (if s \<noteq> [] \<and> last s = CHR '','' then butlast s else s) in trim s)"

definition to_uint :: "string \<Rightarrow> u64 option" where
  "to_uint tok =
     (let s = strip_comma tok in
      if s = [] then None
      else if hd s = CHR ''-'' \<or> hd s = CHR ''+'' then None
      else let (v, erange, used) = strtoull s in
           if erange \<or> used \<noteq> length s then None else Some v)"

definition to_double :: "text_env \<Rightarrow> string \<Rightarrow> f64 option" where
  "to_double env tok =
     (let s = strip_comma tok in
      if s = [] then None
      else let (v, erange, used) = strtod env s in
           if erange \<or> used \<noteq> length s then None else Some v)"

definition to_addr_token :: "string \<Rightarrow> u64 option" where
  "to_addr_token tok =
     (let s = strip_comma tok in
      if s = [] \<or> hd s \<noteq> CHR ''%'' then None else to_uint (drop 1 s))"

definition to_named :: "string \<Rightarrow> string \<Rightarrow> u64 option" where
  "to_named tok pre =
     (let s = strip_comma tok in
      if length s \<le> length pre \<or> take (length pre) s \<noteq> pre then None
      else to_uint (drop (length pre) s))"

definition lower :: "string \<Rightarrow> string" where
  "lower s = map to_lower s"

section \<open>Header comment block\<close>

text \<open>\<open>None\<close> is the return value false.\<close>

definition set_int :: "(i32 \<Rightarrow> TraceMetadata) \<Rightarrow> TraceMetadata \<Rightarrow> string \<Rightarrow> TraceMetadata" where
  "set_int upd md val = (case to_uint val of Some v \<Rightarrow> upd (ucast v) | None \<Rightarrow> md)"

definition absorb_program :: "string \<Rightarrow> TraceMetadata \<Rightarrow> TraceMetadata" where
  "absorb_program val md =
     (case rfind_str '' v'' val of
        None \<Rightarrow> md\<lparr>program_name := val\<rparr>
      | Some sp \<Rightarrow> md\<lparr>program_name := take sp val, program_version := drop (sp + 2) val\<rparr>)"

definition absorb_source :: "string \<Rightarrow> TraceMetadata \<Rightarrow> TraceMetadata" where
  "absorb_source val md =
     (case rfind_str '':'' val of
        None \<Rightarrow> md\<lparr>source_file := val\<rparr>
      | Some c \<Rightarrow>
          (case to_uint (drop (c + 1) val) of
             Some line \<Rightarrow> md\<lparr>source_file := take c val, source_line := ucast line\<rparr>
           | None \<Rightarrow> md\<lparr>source_file := val\<rparr>))"

definition absorb_metadata :: "string \<Rightarrow> TraceMetadata \<Rightarrow> TraceMetadata option" where
  "absorb_metadata body md =
     (case find_char CHR '':'' body of
        None \<Rightarrow> None
      | Some colon \<Rightarrow>
        let key = trim (take colon body); val = trim (drop (colon + 1) body) in
        if val = [] then None
        else if key = ''Program'' then Some (absorb_program val md)
        else if key = ''Description'' then Some (md\<lparr>description := val\<rparr>)
        else if key = ''Source'' then Some (absorb_source val md)
        else if key = ''Build'' then Some (md\<lparr>build_timestamp := val\<rparr>)
        else if key = ''Instruction Count'' then
          Some (set_int (\<lambda>v. md\<lparr>instruction_count := v\<rparr>) md val)
        else if key = ''Modulus Count'' then
          Some (set_int (\<lambda>v. md\<lparr>modulus_chain_length := v\<rparr>) md val)
        else if key = ''Modulus Chain Length'' then
          Some (set_int (\<lambda>v. md\<lparr>modulus_chain_length := v\<rparr>) md val)
        else if key = ''Generated'' then
          Some (case to_uint val of Some v \<Rightarrow> md\<lparr>generated_timestamp := v\<rparr> | None \<Rightarrow> md)
        else if key = ''Scheme'' \<or> key = ''Crypto Scheme'' then Some (md\<lparr>scheme := val\<rparr>)
        else if key = ''Ring Dimension'' then Some (set_int (\<lambda>v. md\<lparr>ring_dimension := v\<rparr>) md val)
        else if key = ''Multiplicative Depth'' then
          Some (set_int (\<lambda>v. md\<lparr>multiplicative_depth := v\<rparr>) md val)
        else if key = ''Security Level'' then Some (md\<lparr>security_level := val\<rparr>)
        else if key = ''Trace File'' then Some (md\<lparr>trace_file := val\<rparr>)
        else None)"

section \<open>Reader\<close>

record ReadDiagnostic =
  rd_line_number :: i32
  rd_message :: string

record ReadResult =
  rr_ok :: bool
  rr_program :: Program
  rr_errors :: "ReadDiagnostic list"
  rr_warnings :: "ReadDiagnostic list"

definition ReadResult_init :: ReadResult where
  "ReadResult_init =
     \<lparr>rr_ok = False, rr_program = Program_init, rr_errors = [], rr_warnings = []\<rparr>"

record Reader =
  rdr_line :: i32
  rdr_result :: ReadResult

definition Reader_init :: Reader where
  "Reader_init = \<lparr>rdr_line = 0, rdr_result = ReadResult_init\<rparr>"

definition reader_error :: "string \<Rightarrow> Reader \<Rightarrow> Reader" where
  "reader_error msg r =
     r\<lparr>rdr_result := (rdr_result r)\<lparr>rr_errors := rr_errors (rdr_result r) @
         [\<lparr>rd_line_number = rdr_line r, rd_message = msg\<rparr>]\<rparr>\<rparr>"

definition reader_warn :: "string \<Rightarrow> Reader \<Rightarrow> Reader" where
  "reader_warn msg r =
     r\<lparr>rdr_result := (rdr_result r)\<lparr>rr_warnings := rr_warnings (rdr_result r) @
         [\<lparr>rd_line_number = rdr_line r, rd_message = msg\<rparr>]\<rparr>\<rparr>"

definition upd_program :: "(Program \<Rightarrow> Program) \<Rightarrow> Reader \<Rightarrow> Reader" where
  "upd_program f r = r\<lparr>rdr_result := (rdr_result r)\<lparr>rr_program := f (rr_program (rdr_result r))\<rparr>\<rparr>"

definition rdr_program :: "Reader \<Rightarrow> Program" where
  "rdr_program r = rr_program (rdr_result r)"

definition read_comment :: "string \<Rightarrow> Reader \<Rightarrow> Reader" where
  "read_comment t r =
     (let body = trim (drop 1 t) in
      if body = [] then r
      else if list_all (\<lambda>c. c = CHR ''='') body then r
      else if body = ''Niobium FHETCH Trace'' \<or> body = ''Modulus Table'' \<or> body = ''Instructions''
      then r
      else
        case absorb_metadata body (metadata (rdr_program r)) of
          Some md \<Rightarrow> upd_program (\<lambda>p. p\<lparr>metadata := md\<rparr>) r
        | None \<Rightarrow>
            upd_program (\<lambda>p. p\<lparr>annotations := annotations p @
              [\<lparr>an_line_number = rdr_line r, an_text = body,
                after_instruction = length (instructions p)\<rparr>]\<rparr>) r)"

definition read_modulus_count :: "text_env \<Rightarrow> string \<Rightarrow> Reader \<Rightarrow> cpp_error + Reader" where
  "read_modulus_count env t r =
     (case to_uint (drop (length ''modulus_count'') t) of
        None \<Rightarrow> Inr (reader_error ''malformed modulus_count'' r)
      | Some n \<Rightarrow> if unat n > reserve_limit env then Inl LengthError else Inr r)"

definition read_modulus_entry :: "string \<Rightarrow> Reader \<Rightarrow> Reader" where
  "read_modulus_entry t r =
     (case (find_char CHR '']'' t, find_char CHR '' '' t) of
        (Some close, Some space) \<Rightarrow>
          if space < close then reader_error ''malformed modulus table entry'' r
          else
            (case (to_uint (take (close - 2) (drop 2 t)), to_uint (trim (drop (space + 1) t))) of
               (Some index, Some val) \<Rightarrow>
                 let size = length (modulus_table (rdr_program r)) in
                 if unat index \<noteq> size
                 then reader_error (''modulus table entry out of order: expected index '' @
                        to_string_nat size @ '', got '' @ to_string_nat (unat index)) r
                 else upd_program (\<lambda>p. p\<lparr>modulus_table := modulus_table p @ [val]\<rparr>) r
             | _ \<Rightarrow> reader_error ''malformed modulus table entry'' r)
      | _ \<Rightarrow> reader_error ''malformed modulus table entry'' r)"

text \<open>The reference parameter is returned when the method returns true.\<close>

definition read_address :: "string \<Rightarrow> Reader \<Rightarrow> u32 option \<times> Reader" where
  "read_address tok r =
     (case to_addr_token tok of
        None \<Rightarrow> (None, r)
      | Some v \<Rightarrow>
          if v > kMaxAddress
          then (None, reader_error (''address %'' @ to_string_nat (unat v) @ '' exceeds the '' @
                        to_string_nat (unat kMaxAddress) @ '' an instruction can hold'') r)
          else (Some (ucast v), r))"

definition read_modulus :: "string \<Rightarrow> Instruction \<Rightarrow> Reader \<Rightarrow> Instruction option \<times> Reader" where
  "read_modulus tok inst r =
     (case to_named tok ''m='' of
        None \<Rightarrow> (None, r)
      | Some v \<Rightarrow>
          if unat v < length (modulus_table (rdr_program r)) then
            if v > kMaxModulusIndex
            then (None, reader_error (''modulus index '' @ to_string_nat (unat v) @
                          '' exceeds the encodable maximum of '' @
                          to_string_nat (unat kMaxModulusIndex)) r)
            else (Some (inst\<lparr>modulus := Some v, modulus_is_literal := False\<rparr>), r)
          else (Some (inst\<lparr>modulus := Some v, modulus_is_literal := True\<rparr>), r))"

text \<open>\<open>a && b\<close> over operations that thread the reader: the second runs only if the first succeeded.\<close>

definition and_then ::
  "'a option \<times> Reader \<Rightarrow> ('a \<Rightarrow> Reader \<Rightarrow> 'b option \<times> Reader) \<Rightarrow> 'b option \<times> Reader" where
  "and_then m f = (case m of (Some x, r) \<Rightarrow> f x r | (None, r) \<Rightarrow> (None, r))"

definition mnemonic_of :: "u8 \<Rightarrow> string" where
  "mnemonic_of c = (case fh_opcode_mnemonic c of Some m \<Rightarrow> m | None \<Rightarrow> [])"

definition need :: "nat \<Rightarrow> Instruction \<Rightarrow> string list \<Rightarrow> Reader \<Rightarrow> unit option \<times> Reader" where
  "need n inst args r =
     (if length args \<ge> n then (Some (), r)
      else (None, reader_warn (mnemonic_of (opcode inst) @ '' needs '' @ to_string_nat n @
                    '' operands, found '' @ to_string_nat (length args) @ '', line skipped'') r))"

definition dest_src1 :: "Instruction \<Rightarrow> string list \<Rightarrow> Reader \<Rightarrow> Instruction option \<times> Reader" where
  "dest_src1 inst args r =
     and_then (read_address (args ! 0) r) (\<lambda>d r.
     and_then (read_address (args ! 1) r) (\<lambda>s r. (Some (inst\<lparr>dest := d, src1 := s\<rparr>), r)))"

definition read_src2 :: "Instruction \<Rightarrow> string list \<Rightarrow> Reader \<Rightarrow> Instruction option \<times> Reader" where
  "read_src2 inst args r =
     and_then (read_address (args ! 2) r) (\<lambda>s r. (Some (inst\<lparr>src2 := s\<rparr>), r))"

fun find_omega :: "Instruction \<Rightarrow> string list \<Rightarrow> Instruction" where
  "find_omega inst [] = inst"
| "find_omega inst (a # as) =
     (case to_named a ''omega='' of Some w \<Rightarrow> inst\<lparr>omega := Some w\<rparr> | None \<Rightarrow> find_omega inst as)"

text \<open>
  The operand loop of \<open>sr_automorph_eval\<close>; the flag is \<open>saw_mod\<close>, and \<open>None\<close> its early return.
\<close>

fun automorph_eval_operands ::
  "Instruction \<Rightarrow> bool \<Rightarrow> string list \<Rightarrow> Reader \<Rightarrow> (Instruction \<times> bool) option \<times> Reader" where
  "automorph_eval_operands inst saw [] r = (Some (inst, saw), r)"
| "automorph_eval_operands inst saw (a # as) r =
     (case to_named a ''k='' of
        Some v \<Rightarrow> automorph_eval_operands (inst\<lparr>k_op := Some v\<rparr>) saw as r
      | None \<Rightarrow>
     (case to_named a ''mask='' of
        Some v \<Rightarrow> automorph_eval_operands (inst\<lparr>mask_op := Some v\<rparr>) saw as r
      | None \<Rightarrow>
     (case to_named a ''logn='' of
        Some v \<Rightarrow>
          if v > 64
          then automorph_eval_operands inst saw as (reader_warn ''logn out of range, ignored'' r)
          else automorph_eval_operands (inst\<lparr>logn := Some (ucast v)\<rparr>) saw as r
      | None \<Rightarrow>
     (case read_modulus a inst r of
        (Some inst', r') \<Rightarrow> automorph_eval_operands inst' True as r'
      | (None, r') \<Rightarrow>
          if rr_errors (rdr_result r') \<noteq> [] then (None, r')
          else automorph_eval_operands inst saw as r'))))"

text \<open>The operand loop of the two coefficient forms, with \<open>saw_index\<close> and \<open>saw_mod\<close>.\<close>

fun automorph_coeff_operands ::
  "bool \<Rightarrow> Instruction \<Rightarrow> bool \<Rightarrow> bool \<Rightarrow> string list \<Rightarrow> Reader \<Rightarrow>
     (Instruction \<times> bool \<times> bool) option \<times> Reader" where
  "automorph_coeff_operands is_rot inst saw_index saw_mod [] r = (Some (inst, saw_index, saw_mod), r)"
| "automorph_coeff_operands is_rot inst saw_index saw_mod (a # as) r =
     (case to_named a (if is_rot then ''offset='' else ''k='') of
        Some v \<Rightarrow>
          automorph_coeff_operands is_rot
            (if is_rot then inst\<lparr>offset := Some v\<rparr> else inst\<lparr>k_op := Some v\<rparr>) True saw_mod as r
      | None \<Rightarrow>
     (case read_modulus a inst r of
        (Some inst', r') \<Rightarrow> automorph_coeff_operands is_rot inst' saw_index True as r'
      | (None, r') \<Rightarrow>
          if rr_errors (rdr_result r') \<noteq> [] then (None, r')
          else automorph_coeff_operands is_rot inst saw_index saw_mod as r'))"

definition read_operands ::
  "text_env \<Rightarrow> Instruction \<Rightarrow> string list \<Rightarrow> Reader \<Rightarrow> Instruction option \<times> Reader" where
  "read_operands env inst args r =
     (case fh_operand_form (opcode inst) of
        FormNone \<Rightarrow> (Some inst, r)
      | PolyPoly \<Rightarrow>
          and_then (need 4 inst args r) (\<lambda>_ r.
          and_then (dest_src1 inst args r) (\<lambda>inst r.
          and_then (read_src2 inst args r) (\<lambda>inst r. read_modulus (args ! 3) inst r)))
      | PolyPolyNI \<Rightarrow>
          and_then (need 3 inst args r) (\<lambda>_ r.
          and_then (dest_src1 inst args r) (\<lambda>inst r. read_src2 inst args r))
      | PolyScalar \<Rightarrow>
          and_then (need 4 inst args r) (\<lambda>_ r.
          and_then (dest_src1 inst args r) (\<lambda>inst r.
            case to_uint (args ! 2) of
              None \<Rightarrow> (None, reader_warn ''malformed immediate'' r)
            | Some imm \<Rightarrow> read_modulus (args ! 3) (inst\<lparr>immediate := Some imm\<rparr>) r))
      | PolyScalarNI \<Rightarrow>
          and_then (need 3 inst args r) (\<lambda>_ r.
          and_then (dest_src1 inst args r) (\<lambda>inst r.
            case to_double env (args ! 2) of
              None \<Rightarrow> (None, reader_warn ''malformed immediate'' r)
            | Some imm \<Rightarrow> (Some (inst\<lparr>fp_immediate := Some imm\<rparr>), r)))
      | UnaryMod \<Rightarrow>
          and_then (need 3 inst args r) (\<lambda>_ r.
          and_then (dest_src1 inst args r) (\<lambda>inst r. read_modulus (args ! 2) inst r))
      | UnaryNoMod \<Rightarrow>
          and_then (need 2 inst args r) (\<lambda>_ r. dest_src1 inst args r)
      | Ntt \<Rightarrow>
          and_then (need 3 inst args r) (\<lambda>_ r.
          and_then (dest_src1 inst args r) (\<lambda>inst r.
          and_then (read_modulus (args ! 2) inst r) (\<lambda>inst r.
            (Some (find_omega inst (drop 3 args)), r))))
      | AutomorphEval \<Rightarrow>
          and_then (need 3 inst args r) (\<lambda>_ r.
          and_then (dest_src1 inst args r) (\<lambda>inst r.
          and_then (automorph_eval_operands inst False (drop 2 args) r) (\<lambda>(inst, saw_mod) r.
            if \<not> saw_mod then (None, reader_warn ''sr_automorph_eval without a modulus'' r)
            else (Some inst, r))))
      | _ \<Rightarrow>
          (let is_rot = (fh_operand_form (opcode inst) = RotAutomorphCoeff) in
          and_then (need 4 inst args r) (\<lambda>_ r.
          and_then (dest_src1 inst args r) (\<lambda>inst r.
          and_then (automorph_coeff_operands is_rot inst False False (drop 2 args) r)
            (\<lambda>(inst, saw_index, saw_mod) r.
            if \<not> saw_index
            then (None, reader_warn (''expected '' @ (if is_rot then ''offset='' else ''k='')) r)
            else if \<not> saw_mod then (None, reader_warn ''missing modulus'' r)
            else (Some inst, r))))))"

definition read_instruction :: "text_env \<Rightarrow> string \<Rightarrow> Reader \<Rightarrow> Reader" where
  "read_instruction env t r =
     (let body = (case find_char CHR ''#'' t of None \<Rightarrow> t | Some hash \<Rightarrow> trim (take hash t)) in
      if body = [] then r
      else
        let toks = tokens body; mnemonic = (if toks = [] then [] else hd toks) in
        case fh_opcode_from_mnemonic (lower mnemonic) of
          None \<Rightarrow> reader_warn (''unknown opcode '' @ [CHR 0x27] @ mnemonic @ [CHR 0x27] @
                     '', line skipped'') r
        | Some oc \<Rightarrow>
            case read_operands env (Instruction_init\<lparr>opcode := oc, line_number := rdr_line r\<rparr>)
                   (drop 1 toks) r of
              (None, r') \<Rightarrow> r'
            | (Some inst, r') \<Rightarrow>
                upd_program (\<lambda>p. p\<lparr>instructions := instructions p @ [inst]\<rparr>) r')"

text \<open>One turn of the loop of \<open>run\<close>.\<close>

definition reader_line :: "text_env \<Rightarrow> string \<Rightarrow> Reader \<Rightarrow> cpp_error + Reader" where
  "reader_line env line r0 =
     (let r = r0\<lparr>rdr_line := rdr_line r0 + 1\<rparr>; t = trim line in
      if t = [] then Inr r
      else if hd t = CHR ''#'' then Inr (read_comment t r)
      else if prefix ''modulus_count'' t then read_modulus_count env t r
      else if length t > 2 \<and> t ! 0 = CHR ''m'' \<and> t ! 1 = CHR ''['' then Inr (read_modulus_entry t r)
      else Inr (read_instruction env t r))"

fun reader_lines :: "text_env \<Rightarrow> string list \<Rightarrow> Reader \<Rightarrow> cpp_error + Reader" where
  "reader_lines env [] r = Inr r"
| "reader_lines env (l # ls) r = res_bind (reader_line env l r) (reader_lines env ls)"

definition reader_finish :: "Reader \<Rightarrow> ReadResult" where
  "reader_finish r =
     (let res = rdr_result r;
          p = (rr_program res)\<lparr>metadata := (metadata (rr_program res))\<lparr>
                 modulus_chain := modulus_table (rr_program res)\<rparr>\<rparr>
      in res\<lparr>rr_program := p, rr_ok := (rr_errors res = [])\<rparr>)"

definition read_fhetch_text :: "text_env \<Rightarrow> string \<Rightarrow> cpp_error + ReadResult" where
  "read_fhetch_text env text =
     res_bind (reader_lines env (getlines text) Reader_init) (\<lambda>r. Inr (reader_finish r))"

section \<open>Binary files and dispatch\<close>

definition number_from :: "nat \<Rightarrow> FhetchRecord list \<Rightarrow> Instruction list" where
  "number_from n recs =
     map (\<lambda>i. (from_record (recs ! i))\<lparr>line_number := of_nat i + of_nat n\<rparr>) [0..<length recs]"

definition error_result :: "string \<Rightarrow> ReadResult" where
  "error_result msg =
     ReadResult_init\<lparr>rr_ok := False, rr_errors := [\<lparr>rd_line_number = 0, rd_message = msg\<rparr>]\<rparr>"

text \<open>
  \<open>OutOfBounds\<close> cannot come out of the decoder; it is passed on as the fault it would be.
\<close>

definition read_fhetch_binary :: "bool \<Rightarrow> bytes option \<Rightarrow> cpp_error + ReadResult" where
  "read_fhetch_binary h buf =
     (case decode_fhetch_program h buf of
        Inl OutOfBounds \<Rightarrow> Inl OutOfBoundsAccess
      | Inl (DecodeErr err) \<Rightarrow> Inr (error_result (fhex_decode_error_string err))
      | Inr decoded \<Rightarrow>
          Inr (ReadResult_init\<lparr>rr_ok := True,
            rr_program := Program_init\<lparr>metadata := fp_metadata decoded,
              modulus_table := fp_modulus_table decoded,
              instructions := number_from 1 (fp_records decoded)\<rparr>\<rparr>))"

text \<open>\<open>None\<close>: the file does not open.  Bytes read as text are characters.\<close>

definition read_fhetch_file ::
  "bool \<Rightarrow> text_env \<Rightarrow> string \<Rightarrow> bytes option \<Rightarrow> cpp_error + ReadResult" where
  "read_fhetch_file h env path file =
     (case file of
        None \<Rightarrow> Inr (error_result (''cannot open '' @ path))
      | Some data \<Rightarrow>
          if length data \<ge> 4 \<and> take 4 data = kFhexMagic then read_fhetch_binary h (Some data)
          else read_fhetch_text env (map char_of_byte data))"

end
