(* ===== verification/TraceFile.thy ===== *)
theory TraceFile
  imports TraceWriter FhexCorrect FhetchWriter FhetchReader
begin

text \<open>
  From the recorder to the files and back: \<open>TraceWriter::write\<close> (\<open>src/trace_writer.cpp\<close>) over the two
  serializers, and what a reader of the binary file recovers of what was recorded.
\<close>

section \<open>\<open>TraceWriter::write\<close>\<close>

text \<open>
  The answers of the file system and the clock: whether the directory can be made, whether the first
  \<open>ofstream\<close> opens, whether each serializer's stream opens and is good at the end, whether the empty
  text file can be removed, and the time in milliseconds.
\<close>

record write_env =
  we_directory_made :: bool
  we_probe_opens :: bool
  we_text_opens :: bool
  we_text_good :: bool
  we_binary_opens :: bool
  we_binary_good :: bool
  we_text_removed :: bool
  we_now :: u64

datatype trace_path = NoPath | TextPath | BinaryPath

record trace_files =
  tf_primary :: trace_path
  tf_text :: "string option"
  tf_binary :: "bytes option"

text \<open>The program \<open>write\<close> hands to the serializers.\<close>

definition tw_program :: "u64 \<Rightarrow> TraceWriter \<Rightarrow> Program" where
  "tw_program now t =
     \<lparr>metadata = TraceMetadata_init\<lparr>program_name := tw_program_name t,
        program_version := tw_program_version t, description := tw_program_description t,
        source_file := tw_source_file t, source_line := tw_source_line t,
        build_timestamp := tw_build_timestamp t, generated_timestamp := now\<rparr>,
      modulus_table = tw_modulus_table t, instructions = tw_instructions t,
      annotations = tw_annotations t\<rparr>"

text \<open>The table is normalized before anything can fail.\<close>

definition write_files :: "bool \<Rightarrow> write_env \<Rightarrow> TraceWriter \<Rightarrow> cpp_error + trace_files" where
  "write_files h env t =
     (if \<not> we_directory_made env then Inl FilesystemError
      else if \<not> we_probe_opens env
      then Inr \<lparr>tf_primary = NoPath, tf_text = None, tf_binary = None\<rparr>
      else
        let program = tw_program (we_now env) t;
            want_text = (tw_format t \<noteq> Binary);
            want_binary = (tw_format t \<noteq> Text);
            (text_ok, text) = (if want_text
               then (let (ok, out) = write_fhetch_text (we_text_opens env) (we_text_good env) program
                     in (ok, case out of Some s \<Rightarrow> Some s | None \<Rightarrow> Some []))
               else (True, Some [])) in
        if \<not> text_ok then Inr \<lparr>tf_primary = NoPath, tf_text = text, tf_binary = None\<rparr>
        else
          res_bind (if want_binary
                    then write_fhetch_binary h (we_binary_opens env) (we_binary_good env) program kFhetchSpec
                    else Inr (True, None)) (\<lambda>(bin_ok, bin).
          if \<not> bin_ok then Inr \<lparr>tf_primary = NoPath, tf_text = text, tf_binary = bin\<rparr>
          else if \<not> want_text \<and> \<not> we_text_removed env then Inl FilesystemError
          else Inr \<lparr>tf_primary = (if want_text then TextPath else BinaryPath),
                    tf_text = (if want_text then text else None), tf_binary = bin\<rparr>))"

definition tw_write :: "bool \<Rightarrow> write_env \<Rightarrow> TraceWriter \<Rightarrow> (cpp_error + trace_files) \<times> TraceWriter" where
  "tw_write h env t =
     (let t' = normalize_modulus_table_locked t in (write_files h env t', t'))"

text \<open>A file system that cooperates.\<close>

definition env_good :: "write_env \<Rightarrow> bool" where
  "env_good env \<longleftrightarrow> we_directory_made env \<and> we_probe_opens env \<and> we_text_opens env \<and> we_text_good env \<and>
     we_binary_opens env \<and> we_binary_good env \<and> we_text_removed env"

section \<open>Reading the binary file back\<close>

lemma number_from_canonical:
  assumes "list_all canonical_inst is"
  shows "list_all2 (\<lambda>a b. b = a\<lparr>line_number := line_number b\<rparr>) is (number_from 1 (map to_record is))"
proof (rule list_all2_all_nthI)
  fix k assume k: "k < length is"
  then have "from_record (to_record (is ! k)) = (is ! k)\<lparr>line_number := 0\<rparr>"
    using assms record_roundtrip by (auto simp: list_all_length)
  then show "number_from 1 (map to_record is) ! k =
      (is ! k)\<lparr>line_number := line_number (number_from 1 (map to_record is) ! k)\<rparr>"
    using k by (simp add: number_from_def)
qed (simp add: number_from_def)

lemma binary_file_roundtrip:
  assumes "spec_valid sp" "wf_spec sp" "short_strings (metadata p)"
    and "list_all canonical_inst (instructions p)"
    and "length (build_metadata h1 (binary_metadata p) sp) < 2 ^ 32"
    and "length (modulus_table p) < 2 ^ 32" and "length (instructions p) < 2 ^ 64"
  shows "\<exists>bs res. write_fhetch_binary h1 True good p sp = Inr (good, Some bs) \<and>
    read_fhetch_binary h2 (Some bs) = Inr res \<and> rr_ok res \<and>
    metadata (rr_program res) = binary_metadata p \<and>
    modulus_table (rr_program res) = modulus_table p \<and>
    list_all2 (\<lambda>a b. b = a\<lparr>line_number := line_number b\<rparr>) (instructions p)
      (instructions (rr_program res))"
proof -
  have wf: "list_all wf_record (map to_record (instructions p))"
    using assms(4) record_roundtrip by (auto simp: list_all_iff)
  have ss: "short_strings (binary_metadata p)"
    using assms(3) by (simp add: short_strings_def binary_metadata_def)
  have mc: "(binary_metadata p)\<lparr>modulus_chain := modulus_table p\<rparr> = binary_metadata p"
    by (simp add: binary_metadata_def)
  obtain bs where bs: "encode_fhetch_program h1 (binary_metadata p) (modulus_table p)
      (map to_record (instructions p)) sp = Inr bs"
    "decode_fhetch_program h2 (Some bs) = Inr \<lparr>fp_metadata = binary_metadata p,
       fp_format_version = kFhexVersion, fp_spec = sp, fp_modulus_table = modulus_table p,
       fp_records = map to_record (instructions p)\<rparr>"
    using encode_decode [OF assms(1,2) ss wf assms(5,6), of h2] assms(7) mc by auto
  show ?thesis
    using bs number_from_canonical [OF assms(4)]
    by (simp add: write_fhetch_binary_def write_fhetch_program_def read_fhetch_binary_def
        ReadResult_init_def Program_init_def)
qed

text \<open>
  A program written in the binary form and read back is the same program: its metadata (with
  the counts the writer fills in), its modulus table and its instructions, whose line numbers are
  the positions in the file.  The hosts that write and read may differ in byte order.
\<close>

theorem fhetch_binary_roundtrip:
  assumes "spec_valid sp" "wf_spec sp" "short_strings (metadata p)"
    and "list_all canonical_inst (instructions p)"
    and "length (build_metadata h1 (binary_metadata p) sp) < 2 ^ 32"
    and "length (modulus_table p) < 2 ^ 32" and "length (instructions p) < 2 ^ 64"
  shows "\<exists>bs res. write_fhetch_binary h1 True good p sp = Inr (good, Some bs) \<and>
    read_fhetch_binary h2 (Some bs) = Inr res \<and> rr_ok res \<and>
    metadata (rr_program res) = binary_metadata p \<and>
    modulus_table (rr_program res) = modulus_table p \<and>
    list_all2 (\<lambda>a b. b = a\<lparr>line_number := line_number b\<rparr>) (instructions p)
      (instructions (rr_program res))"
  using binary_file_roundtrip [OF assms] .

definition tiny_program :: Program where
  "tiny_program = Program_init\<lparr>modulus_table := [0xFFFFFFFFFFFFFFFF],
     instructions := [Instruction_init\<lparr>opcode := FH_HALT\<rparr>]\<rparr>"

theorem fhetch_binary_roundtrip_witness:
  "\<exists>bs res. write_fhetch_binary True True True tiny_program kFhetchSpec = Inr (True, Some bs) \<and>
    read_fhetch_binary False (Some bs) = Inr res \<and>
    modulus_table (rr_program res) = [0xFFFFFFFFFFFFFFFF] \<and> length (instructions (rr_program res)) = 1"
proof -
  have a: "spec_valid kFhetchSpec" "wf_spec kFhetchSpec" "short_strings (metadata tiny_program)"
    "list_all canonical_inst (instructions tiny_program)"
    by (simp_all add: spec_valid_def wf_spec_def kFhetchSpec_def date_known_def short_strings_def
        tiny_program_def Program_init_def TraceMetadata_init_def canonical_inst_def Instruction_init_def
        imm_fields_def fh_operand_form_simps)
  have b: "length (build_metadata True (binary_metadata tiny_program) kFhetchSpec) < 2 ^ 32"
    by (simp add: build_metadata_eq meta_entries_def str_entry_def u64_entry_def kFhetchSpec_def
        tiny_program_def Program_init_def binary_metadata_def TraceMetadata_init_def)
  have c: "length (modulus_table tiny_program) < 2 ^ 32" "length (instructions tiny_program) < 2 ^ 64"
    by (simp_all add: tiny_program_def Program_init_def)
  show ?thesis
    using fhetch_binary_roundtrip [OF a b c, of True False]
    by (auto simp: tiny_program_def Program_init_def dest: list_all2_lengthD)
qed

section \<open>From recording to replay\<close>

lemma remap_instruction_canonical:
  "canonical_inst i \<Longrightarrow> canonical_inst (remap_instruction remap i)"
  by (auto simp: remap_instruction_def canonical_inst_def imm_fields_def split: option.split
      OperandForm.splits if_splits)

text \<open>The conditions under which a recording fits the container.\<close>

definition recording_fits :: "bool \<Rightarrow> u64 \<Rightarrow> TraceWriter \<Rightarrow> bool" where
  "recording_fits h now t \<longleftrightarrow>
     list_all canonical_inst (tw_instructions t) \<and> short_strings (metadata (tw_program now t)) \<and>
     length (build_metadata h (binary_metadata (tw_program now t)) kFhetchSpec) < 2 ^ 32 \<and>
     length (tw_modulus_table t) < 2 ^ 32 \<and> length (tw_instructions t) < 2 ^ 64"

lemma tw_program_sel [simp]:
  "instructions (tw_program now t) = tw_instructions t"
  "modulus_table (tw_program now t) = tw_modulus_table t"
  by (simp_all add: tw_program_def)

lemma inst_update_trans:
  "b = a\<lparr>modulus := modulus b\<rparr> \<Longrightarrow> c = b\<lparr>line_number := line_number c\<rparr> \<Longrightarrow>
     modulus c = modulus b \<and> modulus_is_literal c = modulus_is_literal b \<and>
     c = a\<lparr>modulus := modulus c, line_number := line_number c\<rparr>"
  by (cases a; cases b; cases c) auto

lemma normalize_frame:
  "tw_format (normalize_modulus_table_locked t) = tw_format t \<and>
   metadata (tw_program now (normalize_modulus_table_locked t)) = metadata (tw_program now t)"
  by (simp add: normalize_modulus_table_locked_def tw_program_def Let_def split: prod.split)

lemma binary_metadata_eq:
  "metadata p = metadata q \<Longrightarrow> length (instructions p) = length (instructions q) \<Longrightarrow>
   length (modulus_table p) = length (modulus_table q) \<Longrightarrow>
     length (build_metadata h (binary_metadata p) sp) = length (build_metadata h (binary_metadata q) sp)"
  by (simp add: binary_metadata_def build_metadata_def)

lemma recording_fits_normalize:
  assumes inv: "tw_inv t" and fits: "recording_fits h now t"
  shows "recording_fits h now (normalize_modulus_table_locked t)"
proof -
  let ?t' = "normalize_modulus_table_locked t"
  have n: "list_all2 (\<lambda>a b. b = a\<lparr>modulus := modulus b\<rparr>) (tw_instructions t) (tw_instructions ?t')"
    "length (tw_modulus_table ?t') = length (tw_modulus_table t)"
    using normalize_moduli [OF inv, unfolded normalize_modulus_table_def]
    by (auto elim: list_all2_mono dest: mset_eq_length)
  have "table_ok (tw_modulus_table t) (tw_modulus_index t)" using inv by (simp add: tw_inv_def)
  then obtain remap where "tw_instructions ?t' = map (remap_instruction remap) (tw_instructions t)"
    by (rule normalize_spec)
  then have c: "list_all canonical_inst (tw_instructions ?t')"
    "length (tw_instructions ?t') = length (tw_instructions t)"
    using fits remap_instruction_canonical by (auto simp: recording_fits_def list_all_iff)
  have "length (build_metadata h (binary_metadata (tw_program now ?t')) kFhetchSpec) =
      length (build_metadata h (binary_metadata (tw_program now t)) kFhetchSpec)"
    by (rule binary_metadata_eq) (simp_all add: normalize_frame c n)
  then show ?thesis
    using fits c n(2) by (simp add: recording_fits_def normalize_frame)
qed

lemma write_read_back:
  assumes inv: "tw_inv t" and fits: "recording_fits h1 (we_now env) t" and fmt: "tw_format t \<noteq> Text"
    and env: "env_good env"
  shows "\<exists>files t' bs res. tw_write h1 env t = (Inr files, t') \<and> tf_primary files \<noteq> NoPath \<and>
    tf_binary files = Some bs \<and> read_fhetch_binary h2 (Some bs) = Inr res \<and> rr_ok res \<and>
    list_all2 (\<lambda>a b. resolved_modulus (modulus_table (rr_program res)) b =
                       resolved_modulus (tw_modulus_table t) a \<and>
                     b = a\<lparr>modulus := modulus b, line_number := line_number b\<rparr>)
      (tw_instructions t) (instructions (rr_program res))"
proof -
  define t' where "t' = normalize_modulus_table_locked t"
  define p where "p = tw_program (we_now env) t'"
  have fits': "recording_fits h1 (we_now env) t'"
    unfolding t'_def by (rule recording_fits_normalize [OF inv fits])
  have sp: "spec_valid kFhetchSpec" "wf_spec kFhetchSpec"
    by (simp_all add: spec_valid_def wf_spec_def kFhetchSpec_def date_known_def)
  have ip: "instructions p = tw_instructions t'" "modulus_table p = tw_modulus_table t'"
    by (simp_all add: p_def tw_program_def)
  have "short_strings (metadata p)" "list_all canonical_inst (instructions p)"
    "length (build_metadata h1 (binary_metadata p) kFhetchSpec) < 2 ^ 32"
    "length (modulus_table p) < 2 ^ 32" "length (instructions p) < 2 ^ 64"
    using fits' by (simp_all add: recording_fits_def ip) (simp_all add: p_def)
  from binary_file_roundtrip [OF sp this, of True h2] obtain bs res where
    w: "write_fhetch_binary h1 True True p kFhetchSpec = Inr (True, Some bs)"
    and r: "read_fhetch_binary h2 (Some bs) = Inr res" "rr_ok res"
      "modulus_table (rr_program res) = modulus_table p"
      "list_all2 (\<lambda>a b. b = a\<lparr>line_number := line_number b\<rparr>) (instructions p) (instructions (rr_program res))"
    by blast
  have f: "tw_format t' \<noteq> Text" using fmt normalize_frame by (simp add: t'_def)
  have wr: "\<exists>files. tw_write h1 env t = (Inr files, t') \<and> tf_primary files \<noteq> NoPath \<and> tf_binary files = Some bs"
    using f env w
    by (simp add: tw_write_def write_files_def env_good_def t'_def [symmetric] p_def [symmetric] Let_def
        write_fhetch_text_def)
  have n: "list_all2 (\<lambda>a b. resolved_modulus (tw_modulus_table t') b = resolved_modulus (tw_modulus_table t) a \<and>
      b = a\<lparr>modulus := modulus b\<rparr>) (tw_instructions t) (tw_instructions t')"
    using normalize_moduli [OF inv, unfolded normalize_modulus_table_def] by (simp add: t'_def)
  have "list_all2 (\<lambda>a b. resolved_modulus (modulus_table (rr_program res)) b =
      resolved_modulus (tw_modulus_table t) a \<and> b = a\<lparr>modulus := modulus b, line_number := line_number b\<rparr>)
      (tw_instructions t) (instructions (rr_program res))"
  proof (rule list_all2_trans [OF _ n r(4) [unfolded ip]])
    fix a b c :: Instruction
    assume ab: "resolved_modulus (tw_modulus_table t') b = resolved_modulus (tw_modulus_table t) a \<and>
        b = a\<lparr>modulus := modulus b\<rparr>" and bc: "c = b\<lparr>line_number := line_number c\<rparr>"
    note u = inst_update_trans [OF conjunct2 [OF ab] bc]
    have "resolved_modulus (modulus_table (rr_program res)) c = resolved_modulus (tw_modulus_table t') b"
      using conjunct1 [OF u] conjunct1 [OF conjunct2 [OF u]] r(3) ip(2)
      by (simp add: resolved_modulus_def split: option.split)
    then show "resolved_modulus (modulus_table (rr_program res)) c =
        resolved_modulus (tw_modulus_table t) a \<and> c = a\<lparr>modulus := modulus c, line_number := line_number c\<rparr>"
      using conjunct1 [OF ab] conjunct2 [OF conjunct2 [OF u]] by (intro conjI) (rule trans)
  qed
  then show ?thesis using wr r(1,2) by blast
qed

text \<open>
  C4: recording, writing and reading back.  When the format asks for the binary file and the file
  system cooperates, \<open>write\<close> leaves a file that any host reads without error, and each instruction
  read back has the operands it was recorded with and computes in the modulus it was recorded
  with, although its index and the table were rewritten on the way.
\<close>

theorem recorded_trace_survives:
  assumes inv: "tw_inv t" and fits: "recording_fits h1 (we_now env) t" and fmt: "tw_format t \<noteq> Text"
    and env: "env_good env"
  shows "\<exists>files t' bs res. tw_write h1 env t = (Inr files, t') \<and> tf_primary files \<noteq> NoPath \<and>
    tf_binary files = Some bs \<and> read_fhetch_binary h2 (Some bs) = Inr res \<and> rr_ok res \<and>
    list_all2 (\<lambda>a b. resolved_modulus (modulus_table (rr_program res)) b =
                       resolved_modulus (tw_modulus_table t) a \<and>
                     b = a\<lparr>modulus := modulus b, line_number := line_number b\<rparr>)
      (tw_instructions t) (instructions (rr_program res))"
  using write_read_back [OF assms] .

definition record_example :: TraceWriter where
  "record_example = tw_run (SetTraceFormat Binary # example_ops)"

definition good_env :: "u64 \<Rightarrow> write_env" where
  "good_env now = \<lparr>we_directory_made = True, we_probe_opens = True, we_text_opens = True, we_text_good = True,
     we_binary_opens = True, we_binary_good = True, we_text_removed = True, we_now = now\<rparr>"

theorem recorded_trace_survives_witness:
  "\<exists>files t' bs res. tw_write True (good_env 5) record_example = (Inr files, t') \<and>
     tf_binary files = Some bs \<and> read_fhetch_binary False (Some bs) = Inr res \<and> rr_ok res \<and>
     length (instructions (rr_program res)) = 1"
proof -
  let ?env = "good_env 5"
  have inv: "tw_inv record_example"
    using tw_run_inv [of "SetTraceFormat Binary # example_ops"]
    by (simp add: record_example_def example_ops_def)
  note unf = record_example_def example_ops_def tw_run_def TraceWriter_ctor_def tw_setter_defs
    register_modulus_def Let_def comment_line_def emit_eq COPY_MODULUS_VALUE_def
  have s: "tw_instructions record_example =
      [Instruction_init\<lparr>opcode := FH_SR_NEGP, dest := 2, src1 := 1, modulus := Some 1\<rparr>]"
    "length (tw_modulus_table record_example) = 3" "tw_format record_example = Binary"
    "tw_program_name record_example = []" "tw_program_version record_example = []"
    "tw_program_description record_example = []" "tw_source_file record_example = []"
    "tw_build_timestamp record_example = []" "tw_source_line record_example = 0"
    by (simp_all add: unf)
  have "recording_fits True (we_now ?env) record_example"
    by (simp add: recording_fits_def s canonical_inst_def Instruction_init_def imm_fields_def
        fh_operand_form_simps fh_opcode_has_operands_iff short_strings_def build_metadata_eq
        meta_entries_def str_entry_def u64_entry_def kFhetchSpec_def binary_metadata_def tw_program_def
        TraceMetadata_init_def)
  from recorded_trace_survives [OF inv this, of False] obtain files t' bs res where
    "tw_write True ?env record_example = (Inr files, t')" "tf_binary files = Some bs"
    "read_fhetch_binary False (Some bs) = Inr res" "rr_ok res"
    and l: "list_all2 (\<lambda>a b. resolved_modulus (modulus_table (rr_program res)) b =
        resolved_modulus (tw_modulus_table record_example) a \<and>
        b = a\<lparr>modulus := modulus b, line_number := line_number b\<rparr>)
      (tw_instructions record_example) (instructions (rr_program res))"
    by (auto simp: s(3) env_good_def good_env_def)
  moreover have "length (instructions (rr_program res)) = 1"
    using list_all2_lengthD [OF l] by (simp add: s(1))
  ultimately show ?thesis by blast
qed

end
