(* ===== verification/TextTokens.thy ===== *)
theory TextTokens
  imports FhetchWriter FhetchReader
begin

text \<open>
  What the reader makes of the tokens the writer prints: trimming, separators, numbers, addresses
  and named operands.
\<close>

section \<open>Plain words\<close>

text \<open>A character that is neither white space nor one of the two marks the reader treats specially.\<close>

definition plain_char :: "char \<Rightarrow> bool" where
  "plain_char c \<longleftrightarrow> \<not> is_space c \<and> c \<noteq> CHR '','' \<and> c \<noteq> CHR ''#''"

definition plain_word :: "string \<Rightarrow> bool" where
  "plain_word w \<longleftrightarrow> w \<noteq> [] \<and> list_all plain_char w"

lemma plain_not_trim: "plain_char c \<Longrightarrow> \<not> trim_char c"
  by (auto simp: plain_char_def is_space_def trim_char_def)

lemma trim_id: "s \<noteq> [] \<Longrightarrow> \<not> trim_char (hd s) \<Longrightarrow> \<not> trim_char (last s) \<Longrightarrow> trim s = s"
proof -
  assume a: "s \<noteq> []" "\<not> trim_char (hd s)" "\<not> trim_char (last s)"
  then have "dropWhile trim_char s = s" by (cases s) auto
  moreover have "dropWhile trim_char (rev s) = rev s"
    using a by (cases s rule: rev_cases) auto
  ultimately show ?thesis by (simp add: trim_def)
qed

lemma trim_Nil [simp]: "trim [] = []"
  by (simp add: trim_def)

lemma trim_Cons: "\<not> trim_char c \<Longrightarrow> \<exists>s'. trim (c # s) = c # s'"
proof -
  assume c: "\<not> trim_char c"
  have "dropWhile trim_char (rev s @ [c]) \<noteq> []" "last (dropWhile trim_char (rev s @ [c])) = c"
    using c by (induction "rev s" arbitrary: s) (auto simp: dropWhile_append)
  moreover have "trim (c # s) = rev (dropWhile trim_char (rev s @ [c]))" using c by (simp add: trim_def)
  ultimately have "trim (c # s) \<noteq> []" "hd (trim (c # s)) = c" by (simp_all add: hd_rev)
  then show ?thesis by (cases "trim (c # s)") auto
qed

lemma plain_word_ends: "plain_word w \<Longrightarrow> \<not> trim_char (hd w) \<and> \<not> trim_char (last w)"
  using plain_not_trim by (auto simp: plain_word_def list_all_iff)

lemma trim_plain: "plain_word w \<Longrightarrow> trim w = w"
  using plain_word_ends by (auto intro: trim_id simp: plain_word_def)

lemma strip_comma_plain: "plain_word w \<Longrightarrow> strip_comma w = w"
proof -
  assume w: "plain_word w"
  then have "last w \<noteq> CHR '',''" by (auto simp: plain_word_def plain_char_def list_all_iff)
  then show ?thesis by (simp add: strip_comma_def Let_def trim_plain [OF w])
qed

lemma strip_comma_comma: "plain_word w \<Longrightarrow> strip_comma (w @ '','') = w"
proof -
  assume w: "plain_word w"
  then have "trim (w @ '','') = w @ '',''"
    using plain_word_ends [OF w] by (intro trim_id) (auto simp: plain_word_def trim_char_def hd_append)
  then show ?thesis by (simp add: strip_comma_def Let_def trim_plain [OF w])
qed

lemma digits_plain: "list_all (is_digit_in b) s \<Longrightarrow> list_all plain_char s"
  using digit_not_space by (fastforce simp: list_all_iff plain_char_def)

lemma plain_to_string_nat: "plain_word (to_string_nat n)"
  using num_string_digits [of 10 n] digits_plain by (auto simp: to_string_nat_def plain_word_def)

lemma plain_append: "list_all plain_char a \<Longrightarrow> plain_word b \<Longrightarrow> plain_word (a @ b)"
  by (simp add: plain_word_def)

section \<open>Numbers\<close>

lemma hd_to_string_nat: "hd (to_string_nat n) \<noteq> CHR ''-'' \<and> hd (to_string_nat n) \<noteq> CHR ''+''"
proof -
  have "is_digit_in 10 (hd (to_string_nat n))"
    using num_string_digits [of 10 n] by (cases "to_string_nat n") (auto simp: to_string_nat_def)
  then show ?thesis using digit_not_space by blast
qed

lemma to_uint_decimal: "strip_comma tok = to_string_nat (unat v) \<Longrightarrow> to_uint tok = Some v"
  using hd_to_string_nat [of "unat v"] plain_to_string_nat [of "unat v"]
    strtoull_decimal [of "unat v"] unat_lt_2p [of v]
  by (simp add: to_uint_def Let_def plain_word_def)

lemma to_uint_hex: "to_uint (''0x'' @ to_hex_upper (unat v)) = Some v"
proof -
  let ?h = "''0x'' @ to_hex_upper (unat v)"
  have "plain_word ?h"
    using num_string_digits [of 16 "unat v"] digits_plain [of 16]
    by (auto simp: to_hex_upper_def plain_word_def plain_char_def is_space_def)
  then show ?thesis
    using strtoull_hex [of "unat v"] unat_lt_2p [of v] by (simp add: to_uint_def strip_comma_plain Let_def)
qed

text \<open>The tokens the writer prints, without their separators.\<close>

definition addr_word :: "u32 \<Rightarrow> string" where
  "addr_word a = CHR ''%'' # to_string_nat (unat a)"

definition uint_word :: "u64 \<Rightarrow> string" where
  "uint_word v = to_string_nat (unat v)"

definition named_word :: "string \<Rightarrow> u64 \<Rightarrow> string" where
  "named_word nm v = nm @ CHR ''='' # to_string_nat (unat v)"

lemma plain_addr_word: "plain_word (addr_word a)"
  using plain_to_string_nat by (simp add: addr_word_def plain_word_def plain_char_def is_space_def)

lemma plain_uint_word: "plain_word (uint_word v)"
  by (simp add: uint_word_def plain_to_string_nat)

lemma plain_named_word: "list_all plain_char nm \<Longrightarrow> plain_word (named_word nm v)"
  using plain_to_string_nat by (simp add: named_word_def plain_word_def plain_char_def is_space_def)

lemma to_uint_word: "to_uint (uint_word v) = Some v"
  by (rule to_uint_decimal) (simp add: uint_word_def strip_comma_plain plain_to_string_nat)

lemma read_address_word: "read_address (addr_word a) r = (Some a, r)"
proof -
  have u: "unat (ucast a :: u64) = unat a" by (rule unat_ucast_up) simp
  have "to_addr_token (addr_word a) = Some (ucast a)"
    using to_uint_word [of "ucast a"] u
    by (simp add: to_addr_token_def strip_comma_plain plain_addr_word Let_def)
       (simp add: addr_word_def uint_word_def)
  moreover have "(ucast a :: u64) \<le> kMaxAddress"
    using unat_lt_2p [of a] u by (simp add: word_le_nat_alt kMaxAddress_def)
  ultimately show ?thesis by (simp add: read_address_def not_less)
qed

lemma to_named_word:
  assumes "list_all plain_char nm"
  shows "to_named (named_word nm v) (nm @ ''='') = Some v"
  using to_uint_word [of v] plain_to_string_nat [of "unat v"]
  by (simp add: to_named_def strip_comma_plain plain_named_word [OF assms] Let_def)
     (simp add: named_word_def uint_word_def plain_word_def)

lemma to_named_other:
  assumes "list_all plain_char nm" "take (length pre) (named_word nm v) \<noteq> pre"
  shows "to_named (named_word nm v) pre = None"
  using assms(2) by (simp add: to_named_def strip_comma_plain plain_named_word [OF assms(1)] Let_def)

section \<open>Separators do not matter\<close>

lemma strip_comma_cong:
  assumes "strip_comma t = w" and "plain_word w"
  shows "to_uint t = to_uint w" and "to_double env t = to_double env w"
    and "to_named t pre = to_named w pre" and "read_address t r = read_address w r"
    and "read_modulus t inst r = read_modulus w inst r"
proof -
  note s = assms(1) strip_comma_plain [OF assms(2)]
  show "to_uint t = to_uint w" "to_double env t = to_double env w"
    by (simp_all add: to_uint_def to_double_def s)
  have n: "to_named t pre = to_named w pre" for pre by (simp add: to_named_def s)
  show "to_named t pre = to_named w pre" by (rule n)
  show "read_address t r = read_address w r" by (simp add: read_address_def to_addr_token_def s)
  show "read_modulus t inst r = read_modulus w inst r" by (simp add: read_modulus_def n)
qed

definition same_words :: "string list \<Rightarrow> string list \<Rightarrow> bool" where
  "same_words = list_all2 (\<lambda>t w. strip_comma t = w \<and> plain_word w)"

lemma same_words_loops:
  assumes "same_words ts ws"
  shows "find_omega inst ts = find_omega inst ws"
    and "automorph_eval_operands inst saw ts r = automorph_eval_operands inst saw ws r"
    and "automorph_coeff_operands rot inst si sm ts r = automorph_coeff_operands rot inst si sm ws r"
  using assms unfolding same_words_def
proof (induction arbitrary: inst rot saw si sm r rule: list_all2_induct)
  case (Cons t ts w ws)
  then have s: "strip_comma t = w" "plain_word w" by simp_all
  note c = strip_comma_cong [OF s]
  { case 1
    then show ?case using Cons by (simp add: c split: option.split)
  next
    case 2
    then show ?case using Cons by (simp add: c split: option.split prod.split)
  next
    case 3
    then show ?case using Cons by (simp add: c split: option.split prod.split)
  }
qed simp_all

lemma same_words_nth:
  assumes "same_words ts ws" and "i < length ws"
  shows "read_address (ts ! i) r = read_address (ws ! i) r"
    and "read_modulus (ts ! i) inst r = read_modulus (ws ! i) inst r"
    and "to_uint (ts ! i) = to_uint (ws ! i)"
    and "to_double env (ts ! i) = to_double env (ws ! i)"
  using assms strip_comma_cong [of "ts ! i" "ws ! i"]
  by (auto simp: same_words_def list_all2_conv_all_nth)

lemma same_words_drop: "same_words ts ws \<Longrightarrow> same_words (drop n ts) (drop n ws)"
  by (simp add: same_words_def)

lemma same_words_length: "same_words ts ws \<Longrightarrow> length ts = length ws"
  by (auto simp: same_words_def dest: list_all2_lengthD)

lemma read_operands_same_words:
  assumes sw: "same_words ts ws" and len: "4 \<le> length ws \<or> length ws = 3 \<or> length ws = 2"
  shows "read_operands env inst ts r = read_operands env inst ws r"
proof -
  have l: "0 < length ws" "1 < length ws" using len by auto
  have m: "i < length ws \<Longrightarrow> read_modulus (ts ! i) = read_modulus (ws ! i)" for i
    using same_words_nth(2) [OF sw] by (intro ext) simp
  have s2: "2 < length ws \<Longrightarrow> read_src2 inst ts = read_src2 inst ws" for inst
    using same_words_nth(1) [OF sw] by (intro ext) (simp add: read_src2_def)
  have n: "need k inst ts r = need k inst ws r" for k r
    using same_words_length [OF sw] by (simp add: need_def)
  have d: "dest_src1 inst ts r = dest_src1 inst ws r" for inst r
    using same_words_nth(1) [OF sw l(1)] same_words_nth(1) [OF sw l(2)] by (simp add: dest_src1_def)
  have nd: "need k inst ws r = (u, r') \<Longrightarrow> u \<noteq> None \<Longrightarrow> k \<le> length ws" for k u r r'
    by (auto simp: need_def split: if_splits)
  have a: "and_then (need k inst ws r) f = and_then (need k inst ws r) g"
    if "k \<le> length ws \<Longrightarrow> f () = g ()" for k r and f g :: "unit \<Rightarrow> Reader \<Rightarrow> Instruction option \<times> Reader"
    using that by (auto simp: and_then_def need_def)
  have loops: "find_omega inst (drop 3 ts) = find_omega inst (drop 3 ws)"
    "automorph_eval_operands inst saw (drop 2 ts) r = automorph_eval_operands inst saw (drop 2 ws) r"
    "automorph_coeff_operands rot inst si sm (drop 2 ts) r =
       automorph_coeff_operands rot inst si sm (drop 2 ws) r" for inst saw r rot si sm
    using same_words_loops [OF same_words_drop [OF sw]] by auto
  show ?thesis
    unfolding read_operands_def n d loops
    by (cases "fh_operand_form (opcode inst)"; simp only: OperandForm.case Let_def; (rule a)?)
       (auto simp: same_words_nth [OF sw] m s2 cong: option.case_cong)
qed

end
