(* ===== verification/TextRoundTrip.thy ===== *)
theory TextRoundTrip
  imports TextTokens
begin

text \<open>
  The text form read back: first one instruction line, then a whole file.
\<close>

section \<open>An instruction line as words\<close>

definition mod_words :: "Instruction \<Rightarrow> string list" where
  "mod_words i = (case modulus i of Some m \<Rightarrow> [named_word ''m'' m] | None \<Rightarrow> [])"

definition opt_words :: "string \<Rightarrow> u64 option \<Rightarrow> string list" where
  "opt_words nm v = (case v of Some v \<Rightarrow> [named_word nm v] | None \<Rightarrow> [])"

definition inst_words :: "Instruction \<Rightarrow> string list" where
  "inst_words i =
     [addr_word (dest i), addr_word (src1 i)] @
     (case fh_operand_form (opcode i) of
        FormNone \<Rightarrow> []
      | PolyPoly \<Rightarrow> addr_word (src2 i) # mod_words i
      | PolyPolyNI \<Rightarrow> [addr_word (src2 i)]
      | PolyScalar \<Rightarrow> uint_word (value_or (immediate i) 0) # mod_words i
      | PolyScalarNI \<Rightarrow> [to_string_f64 (value_or (fp_immediate i) 0)]
      | UnaryMod \<Rightarrow> mod_words i
      | UnaryNoMod \<Rightarrow> []
      | Ntt \<Rightarrow> mod_words i @ opt_words ''omega'' (omega i)
      | AutomorphEval \<Rightarrow> mod_words i @ opt_words ''mask'' (mask_op i) @
          opt_words ''logn'' (map_option ucast (logn i)) @ opt_words ''k'' (k_op i)
      | AutomorphCoeff \<Rightarrow> named_word ''k'' (value_or (k_op i) 0) # mod_words i
      | RotAutomorphCoeff \<Rightarrow> named_word ''offset'' (value_or (offset i) 0) # mod_words i)"

definition commas :: "string list \<Rightarrow> string" where
  "commas ws = concat (map (\<lambda>w. '', '' @ w) ws)"

lemma commas_simps [simp]:
  "commas [] = []" "commas (w # ws) = '', '' @ w @ commas ws" "commas (us @ ws) = commas us @ commas ws"
  by (simp_all add: commas_def)

lemma append_word_simps:
  "append_addr out a = out @ addr_word a" "append_uint out v = out @ uint_word v"
  "append_named out nm v = out @ commas [named_word nm v]"
  "append_modulus out i = out @ commas (mod_words i)"
  "append_named_opt out nm x = out @ commas (opt_words nm x)"
proof -
  show n: "append_named out nm v = out @ commas [named_word nm v]" for out nm v
    by (simp add: append_named_def append_uint_def named_word_def)
  have "unat (ucast a :: u64) = unat a" by (rule unat_ucast_up) simp
  then show "append_addr out a = out @ addr_word a"
    by (simp add: append_addr_def append_uint_def addr_word_def)
  show "append_uint out v = out @ uint_word v" by (simp add: append_uint_def uint_word_def)
  show "append_modulus out i = out @ commas (mod_words i)"
    by (simp add: append_modulus_def mod_words_def n split: option.split)
  show "append_named_opt out nm x = out @ commas (opt_words nm x)"
    by (simp add: append_named_opt_def opt_words_def n split: option.split)
qed

lemma render_instruction_words:
  "render_instruction i out =
     (case fh_opcode_mnemonic (opcode i) of
        None \<Rightarrow> out
      | Some m \<Rightarrow> out @ m @ (if fh_operand_form (opcode i) = FormNone then []
                         else '' '' @ hd (inst_words i) @ commas (tl (inst_words i))))"
  by (cases "fh_operand_form (opcode i)")
     (simp_all add: render_instruction_def append_word_simps inst_words_def Let_def split: option.split)

section \<open>Its tokens\<close>

lemma list_all_drop: "list_all P xs \<Longrightarrow> list_all P (drop n xs)"
  by (auto simp: list_all_iff dest: in_set_dropD)

lemma plain_to_string_f64: "plain_word (to_string_f64 b)"
proof -
  have "list_all plain_char (to_string_nat n)" for n
    using plain_to_string_nat by (simp add: plain_word_def)
  then show ?thesis
    by (auto simp: to_string_f64_def Let_def plain_word_def plain_char_def is_space_def list_all_drop)
qed

lemma plain_inst_words: "list_all plain_word (inst_words i)"
proof -
  have nm: "plain_word (named_word ''m'' v)" "plain_word (named_word ''omega'' v)"
    "plain_word (named_word ''mask'' v)" "plain_word (named_word ''logn'' v)"
    "plain_word (named_word ''k'' v)" "plain_word (named_word ''offset'' v)" for v
    by (rule plain_named_word; simp add: plain_char_def is_space_def)+
  then show ?thesis
    by (simp add: inst_words_def mod_words_def opt_words_def plain_addr_word plain_uint_word
        plain_to_string_f64 split: OperandForm.split option.split)
qed

fun with_commas :: "string list \<Rightarrow> string list" where
  "with_commas [] = []"
| "with_commas [w] = [w]"
| "with_commas (w # v # ws) = (w @ '','') # with_commas (v # ws)"

lemma with_commas_join:
  "w @ commas ws = hd (with_commas (w # ws)) @
     concat (map (\<lambda>t. CHR '' '' # t) (tl (with_commas (w # ws))))"
proof (induction ws arbitrary: w)
  case (Cons v vs)
  then show ?case by (cases vs) auto
qed simp

lemma with_commas_same_words: "list_all plain_word ws \<Longrightarrow> same_words (with_commas ws) ws"
  by (induction ws rule: with_commas.induct)
     (auto simp: same_words_def strip_comma_plain strip_comma_comma)

definition token_ok :: "string \<Rightarrow> bool" where
  "token_ok w \<longleftrightarrow> w \<noteq> [] \<and> list_all (\<lambda>c. \<not> is_space c \<and> c \<noteq> CHR ''#'') w"

lemma token_ok_plain: "plain_word w \<Longrightarrow> token_ok w \<and> token_ok (w @ '','')"
proof -
  assume w: "plain_word w"
  have "list_all (\<lambda>c. \<not> is_space c \<and> c \<noteq> CHR ''#'') w"
    using w by (auto simp: plain_word_def plain_char_def elim: list.pred_mono_strong)
  moreover have "\<not> is_space CHR '',''" by (simp add: is_space_def)
  ultimately show ?thesis using w by (simp add: token_ok_def plain_word_def)
qed

lemma token_ok_with_commas: "list_all plain_word ws \<Longrightarrow> list_all token_ok (with_commas ws)"
  using token_ok_plain by (induction ws rule: with_commas.induct) simp_all

lemma token_ok_chars:
  assumes "token_ok w"
  shows "w \<noteq> [] \<and> list_all (\<lambda>c. \<not> is_space c) w" and "CHR ''#'' \<notin> set w" and "CHR 0x0A \<notin> set w"
  using assms by (auto simp: token_ok_def list_all_iff is_space_def)

text \<open>A mnemonic is a lower-case plain word that is not mistaken for a modulus line.\<close>

lemma mnemonic_shape:
  assumes "fh_opcode_mnemonic c = Some m"
  shows "plain_word m \<and> lower m = m \<and> hd m \<in> {CHR ''s'', CHR ''h''}"
proof -
  have "\<exists>row \<in> set kOpcodeTable. oi_mnemonic row = m"
    using assms by (auto simp: fh_opcode_mnemonic_iff)
  moreover have "list_all (\<lambda>row. plain_word (oi_mnemonic row) \<and> lower (oi_mnemonic row) = oi_mnemonic row \<and>
      hd (oi_mnemonic row) \<in> {CHR ''s'', CHR ''h''}) kOpcodeTable"
    by (simp add: kOpcodeTable_def opcode_row_def plain_word_def plain_char_def is_space_def lower_def
        to_lower_def)
  ultimately show ?thesis by (auto simp: list_all_iff)
qed

definition line_tokens :: "Instruction \<Rightarrow> string list" where
  "line_tokens i = (if fh_operand_form (opcode i) = FormNone then [] else with_commas (inst_words i))"

lemma inst_words_ne: "inst_words i = hd (inst_words i) # tl (inst_words i)"
  by (simp add: inst_words_def)

lemma render_line:
  assumes "fh_opcode_mnemonic (opcode i) = Some m"
  shows "render_instruction i [] = m @ concat (map (\<lambda>t. CHR '' '' # t) (line_tokens i))"
proof (cases "fh_operand_form (opcode i) = FormNone")
  case True
  then show ?thesis using assms by (simp add: render_instruction_words line_tokens_def)
next
  case False
  have ne: "with_commas (inst_words i) \<noteq> []" by (subst inst_words_ne, cases "tl (inst_words i)") auto
  have "hd (inst_words i) @ commas (tl (inst_words i)) =
      hd (with_commas (inst_words i)) @
      concat (map (\<lambda>t. CHR '' '' # t) (tl (with_commas (inst_words i))))"
    using with_commas_join [of "hd (inst_words i)" "tl (inst_words i)"] inst_words_ne [of i] by simp
  then show ?thesis
    using assms False ne by (cases "with_commas (inst_words i)")
      (simp_all add: render_instruction_words line_tokens_def)
qed

lemma render_line_tokens:
  assumes "fh_opcode_mnemonic (opcode i) = Some m"
  shows "tokens (render_instruction i []) = m # line_tokens i"
  unfolding render_line [OF assms]
proof (rule tokens_join)
  have "list_all token_ok (m # line_tokens i)"
    using mnemonic_shape [OF assms] token_ok_plain token_ok_with_commas [OF plain_inst_words]
    by (simp add: line_tokens_def)
  then show "list_all (\<lambda>w. w \<noteq> [] \<and> list_all (\<lambda>c. \<not> is_space c) w) (m # line_tokens i)"
    by (rule list.pred_mono_strong) (rule token_ok_chars(1))
qed

lemma find_char_None: "c \<notin> set s \<Longrightarrow> find_char c s = None"
  by (induction s) auto

lemma last_line_tokens:
  assumes "list_all plain_word ws" "ws \<noteq> []"
  shows "last (with_commas ws) \<noteq> [] \<and> \<not> trim_char (last (last (with_commas ws)))"
  using assms
proof (induction ws rule: with_commas.induct)
  case (2 w)
  then show ?case using plain_word_ends [of w] by (simp add: plain_word_def)
next
  case (3 w v ws)
  then have "with_commas (v # ws) \<noteq> []" by (cases ws) auto
  with 3 show ?case by simp
qed simp

lemma render_line_shape:
  assumes m: "fh_opcode_mnemonic (opcode i) = Some m"
  defines "l \<equiv> render_instruction i []"
  shows "trim l = l" and "l \<noteq> []" and "hd l \<in> {CHR ''s'', CHR ''h''}" and "find_char CHR ''#'' l = None"
    and "CHR 0x0A \<notin> set l"
proof -
  have m': "plain_word m" "hd m \<in> {CHR ''s'', CHR ''h''}" using mnemonic_shape [OF m] by auto
  note l = render_line [OF m, folded l_def]
  show ne: "l \<noteq> []" and h: "hd l \<in> {CHR ''s'', CHR ''h''}" using m' l by (auto simp: plain_word_def)
  have p: "list_all plain_word (inst_words i)" by (rule plain_inst_words)
  have "list_all token_ok (m # line_tokens i)"
    using m'(1) token_ok_plain token_ok_with_commas [OF p] by (simp add: line_tokens_def)
  then have "CHR ''#'' \<notin> set w \<and> CHR 0x0A \<notin> set w" if "w \<in> set (m # line_tokens i)" for w
    using that token_ok_chars(2,3) by (auto simp: list_all_iff)
  then have "CHR ''#'' \<notin> set l" "CHR 0x0A \<notin> set l" by (auto simp: l)
  then show "find_char CHR ''#'' l = None" "CHR 0x0A \<notin> set l" using find_char_None by auto
  have "\<not> trim_char (last l)"
  proof (cases "line_tokens i = []")
    case True
    then show ?thesis using l m'(1) plain_word_ends by simp
  next
    case False
    then have ts: "line_tokens i = with_commas (inst_words i)" "inst_words i \<noteq> []"
      by (auto simp: line_tokens_def inst_words_def split: if_splits)
    obtain us u where u: "line_tokens i = us @ [u]" using False by (metis rev_exhaust)
    have "u \<noteq> []" "\<not> trim_char (last u)"
      using last_line_tokens [OF p ts(2)] u ts(1) by (metis last_snoc)+
    then show ?thesis using l u by simp
  qed
  moreover have "\<not> trim_char (hd l)" using h by (auto simp: trim_char_def)
  ultimately show "trim l = l" using ne by (intro trim_id)
qed

section \<open>What the text carries of an instruction\<close>

definition set_mod :: "Instruction \<Rightarrow> Instruction \<Rightarrow> Instruction" where
  "set_mod i j = j\<lparr>modulus := modulus i, modulus_is_literal := modulus_is_literal i\<rparr>"

definition text_form :: "i32 \<Rightarrow> Instruction \<Rightarrow> Instruction" where
  "text_form ln i =
     (let b = Instruction_init\<lparr>opcode := opcode i, line_number := ln\<rparr>;
          b2 = b\<lparr>dest := dest i, src1 := src1 i\<rparr>
      in case fh_operand_form (opcode i) of
           FormNone \<Rightarrow> b
         | PolyPoly \<Rightarrow> set_mod i (b2\<lparr>src2 := src2 i\<rparr>)
         | PolyPolyNI \<Rightarrow> b2\<lparr>src2 := src2 i\<rparr>
         | PolyScalar \<Rightarrow> set_mod i (b2\<lparr>immediate := immediate i\<rparr>)
         | PolyScalarNI \<Rightarrow> b2\<lparr>fp_immediate := fp_immediate i\<rparr>
         | UnaryMod \<Rightarrow> set_mod i b2
         | UnaryNoMod \<Rightarrow> b2
         | Ntt \<Rightarrow> set_mod i (b2\<lparr>omega := omega i\<rparr>)
         | AutomorphEval \<Rightarrow> set_mod i (b2\<lparr>mask_op := mask_op i, logn := logn i, k_op := k_op i\<rparr>)
         | AutomorphCoeff \<Rightarrow> set_mod i (b2\<lparr>k_op := k_op i\<rparr>)
         | RotAutomorphCoeff \<Rightarrow> set_mod i (b2\<lparr>offset := offset i\<rparr>))"

text \<open>
  The modulus operand is readable against a table of \<open>n\<close> entries: an index points into the table and
  is small enough, a literal is too large to be taken for an index.
\<close>

definition text_mod_ok :: "nat \<Rightarrow> Instruction \<Rightarrow> bool" where
  "text_mod_ok n i =
     (case modulus i of
        Some m \<Rightarrow> (modulus_is_literal i \<longleftrightarrow> n \<le> unat m) \<and> (unat m < n \<longrightarrow> m \<le> kMaxModulusIndex)
      | None \<Rightarrow> False)"

definition text_inst_ok :: "text_env \<Rightarrow> nat \<Rightarrow> Instruction \<Rightarrow> bool" where
  "text_inst_ok env n i \<longleftrightarrow>
     fh_opcode_mnemonic (opcode i) \<noteq> None \<and> i = text_form (line_number i) i \<and>
     (case fh_operand_form (opcode i) of
        PolyPoly \<Rightarrow> text_mod_ok n i
      | PolyScalar \<Rightarrow> immediate i \<noteq> None \<and> text_mod_ok n i
      | PolyScalarNI \<Rightarrow> (case fp_immediate i of
            Some x \<Rightarrow> to_double env (to_string_f64 x) = Some x | None \<Rightarrow> False)
      | UnaryMod \<Rightarrow> text_mod_ok n i
      | Ntt \<Rightarrow> text_mod_ok n i
      | AutomorphEval \<Rightarrow> text_mod_ok n i \<and> (case logn i of Some l \<Rightarrow> l \<le> 64 | None \<Rightarrow> True)
      | AutomorphCoeff \<Rightarrow> k_op i \<noteq> None \<and> text_mod_ok n i
      | RotAutomorphCoeff \<Rightarrow> offset i \<noteq> None \<and> text_mod_ok n i
      | _ \<Rightarrow> True)"

definition table_size :: "Reader \<Rightarrow> nat" where
  "table_size r = length (modulus_table (rdr_program r))"

lemma text_mod_okE:
  assumes "text_mod_ok (table_size r) i"
  obtains m where "modulus i = Some m" "mod_words i = [named_word ''m'' m]"
    "\<And>j. read_modulus (named_word ''m'' m) j r = (Some (set_mod i j), r)"
proof (cases "modulus i")
  case (Some m)
  have "to_named (named_word ''m'' m) ''m='' = Some m"
    using to_named_word [of "''m''" m] by (simp add: plain_char_def is_space_def)
  then have "read_modulus (named_word ''m'' m) j r = (Some (set_mod i j), r)" for j
    using assms Some
    by (auto simp: read_modulus_def text_mod_ok_def table_size_def set_mod_def not_less)
  then show thesis using that Some by (simp add: mod_words_def)
qed (use assms in \<open>simp add: text_mod_ok_def\<close>)

lemma dest_src1_words:
  "dest_src1 j (addr_word d # addr_word s # ws) r = (Some (j\<lparr>dest := d, src1 := s\<rparr>), r)"
  by (simp add: dest_src1_def read_address_word and_then_def)

lemma read_src2_words:
  "read_src2 j (a # b # addr_word s # ws) r = (Some (j\<lparr>src2 := s\<rparr>), r)"
  by (simp add: read_src2_def read_address_word and_then_def)

lemma and_then_simps [simp]:
  "and_then (Some x, r) f = f x r" "and_then (None, r) g = (None, r)"
  by (simp_all add: and_then_def)

lemma need_enough [simp]: "n \<le> length args \<Longrightarrow> need n inst args r = (Some (), r)"
  by (simp add: need_def)

lemma plain_names: "list_all plain_char ''m''" "list_all plain_char ''omega''"
  "list_all plain_char ''mask''" "list_all plain_char ''logn''" "list_all plain_char ''k''"
  "list_all plain_char ''offset''"
  by (simp_all add: plain_char_def is_space_def)

lemmas named_hits = to_named_word [OF plain_names(2), simplified]
  to_named_word [OF plain_names(3), simplified] to_named_word [OF plain_names(4), simplified]
  to_named_word [OF plain_names(5), simplified] to_named_word [OF plain_names(6), simplified]

lemma named_misses:
  "to_named (named_word ''m'' v) ''k='' = None" "to_named (named_word ''m'' v) ''mask='' = None"
  "to_named (named_word ''m'' v) ''logn='' = None" "to_named (named_word ''m'' v) ''offset='' = None"
  "to_named (named_word ''mask'' v) ''k='' = None" "to_named (named_word ''logn'' v) ''k='' = None"
  "to_named (named_word ''logn'' v) ''mask='' = None"
  by (rule to_named_other; simp add: plain_char_def is_space_def named_word_def)+

lemma ucast_logn: "l \<le> 64 \<Longrightarrow> \<not> (ucast (l :: u8) :: u64) > 64 \<and> ucast (ucast l :: u64) = l"
proof -
  assume l: "l \<le> 64"
  have "unat (ucast l :: u64) = unat l" by (rule unat_ucast_up) simp
  then have "\<not> (ucast l :: u64) > 64" using l by (simp add: word_le_nat_alt not_less)
  moreover have "ucast (ucast l :: u64) = l" by (rule bit_word_eqI) (simp add: bit_ucast_iff)
  ultimately show ?thesis by simp
qed

lemma read_operands_words:
  assumes ok: "text_inst_ok env (table_size r) i"
  shows "read_operands env (Instruction_init\<lparr>opcode := opcode i, line_number := ln\<rparr>) (inst_words i) r =
    (Some (text_form ln i), r)"
proof -
  define j where "j = Instruction_init\<lparr>opcode := opcode i, line_number := ln\<rparr>"
  have oj [simp]: "opcode j = opcode i" by (simp add: j_def)
  have "read_operands env j (inst_words i) r = (Some (text_form ln i), r)"
  proof (cases "fh_operand_form (opcode i)")
    case FormNone
    then show ?thesis by (simp add: read_operands_def text_form_def j_def Let_def)
  next
    case PolyPoly
    with ok show ?thesis
      by (auto elim!: text_mod_okE simp: text_inst_ok_def read_operands_def inst_words_def dest_src1_words
          read_src2_words text_form_def j_def Let_def set_mod_def)
  next
    case PolyPolyNI
    with ok show ?thesis
      by (simp add: read_operands_def inst_words_def dest_src1_words read_src2_words text_form_def
          j_def Let_def)
  next
    case PolyScalar
    with ok show ?thesis
      by (auto elim!: text_mod_okE simp: text_inst_ok_def read_operands_def inst_words_def dest_src1_words
          to_uint_word value_or_def text_form_def j_def Let_def set_mod_def)
  next
    case PolyScalarNI
    with ok show ?thesis
      by (auto simp: text_inst_ok_def read_operands_def inst_words_def dest_src1_words value_or_def
          text_form_def j_def Let_def split: option.splits)
  next
    case UnaryMod
    with ok show ?thesis
      by (auto elim!: text_mod_okE simp: text_inst_ok_def read_operands_def inst_words_def dest_src1_words
          text_form_def j_def Let_def)
  next
    case UnaryNoMod
    with ok show ?thesis
      by (simp add: read_operands_def inst_words_def dest_src1_words text_form_def j_def Let_def)
  next
    case Ntt
    with ok show ?thesis
      by (auto elim!: text_mod_okE simp: text_inst_ok_def read_operands_def inst_words_def dest_src1_words
          opt_words_def named_hits text_form_def j_def Let_def set_mod_def Instruction_init_def
          split: option.split)
  next
    case AutomorphEval
    with ok show ?thesis
      by (auto elim!: text_mod_okE simp: text_inst_ok_def read_operands_def inst_words_def dest_src1_words
          opt_words_def named_hits named_misses ucast_logn text_form_def j_def Let_def set_mod_def
          Instruction_init_def split: option.splits)
  next
    case AutomorphCoeff
    with ok show ?thesis
      by (auto elim!: text_mod_okE simp: text_inst_ok_def read_operands_def inst_words_def dest_src1_words
          value_or_def named_hits named_misses text_form_def j_def Let_def set_mod_def)
  next
    case RotAutomorphCoeff
    with ok show ?thesis
      by (auto elim!: text_mod_okE simp: text_inst_ok_def read_operands_def inst_words_def dest_src1_words
          value_or_def named_hits named_misses text_form_def j_def Let_def set_mod_def)
  qed
  then show ?thesis by (simp add: j_def)
qed

end
