(* ===== verification/TextFile.thy ===== *)
theory TextFile
  imports TextRoundTrip
begin

text \<open>
  The whole text file: what the reader keeps of each line the writer prints, and the round trip of a
  program.
\<close>

section \<open>Instruction lines\<close>

definition bump :: "Reader \<Rightarrow> Reader" where
  "bump r = r\<lparr>rdr_line := rdr_line r + 1\<rparr>"

definition push_inst :: "Instruction \<Rightarrow> Reader \<Rightarrow> Reader" where
  "push_inst i = upd_program (\<lambda>p. p\<lparr>instructions := instructions p @ [i]\<rparr>)"

lemma table_size_bump [simp]: "table_size (bump r) = table_size r"
  by (simp add: table_size_def bump_def rdr_program_def)

lemma inst_words_length:
  assumes "text_inst_ok env n i" and "fh_operand_form (opcode i) \<noteq> FormNone"
  shows "4 \<le> length (inst_words i) \<or> length (inst_words i) = 3 \<or> length (inst_words i) = 2"
  using assms(2) by (cases "length (inst_words i)"; cases "length (inst_words i) - 1";
      cases "length (inst_words i) - 2") (auto simp: inst_words_def)

lemma read_instruction_render:
  assumes ok: "text_inst_ok env (table_size r) i"
  shows "read_instruction env (render_instruction i []) r = push_inst (i\<lparr>line_number := rdr_line r\<rparr>) r"
proof -
  obtain m where m: "fh_opcode_mnemonic (opcode i) = Some m" using ok by (auto simp: text_inst_ok_def)
  note sh = render_line_shape [OF m]
  let ?j = "Instruction_init\<lparr>opcode := opcode i, line_number := rdr_line r\<rparr>"
  have "fh_opcode_from_mnemonic m = Some (opcode i)"
    using m by (simp add: fh_opcode_from_mnemonic_iff fh_opcode_mnemonic_iff)
  then have oc: "fh_opcode_from_mnemonic (lower m) = Some (opcode i)" using mnemonic_shape [OF m] by simp
  have "read_operands env ?j (line_tokens i) r = (Some (text_form (rdr_line r) i), r)"
  proof (cases "fh_operand_form (opcode i) = FormNone")
    case True
    then show ?thesis by (simp add: read_operands_def text_form_def Let_def)
  next
    case False
    then have "read_operands env ?j (line_tokens i) r = read_operands env ?j (inst_words i) r"
      using with_commas_same_words [OF plain_inst_words] inst_words_length [OF ok False]
      by (simp add: line_tokens_def read_operands_same_words)
    then show ?thesis using read_operands_words [OF ok] by simp
  qed
  moreover have "text_form (rdr_line r) i = i\<lparr>line_number := rdr_line r\<rparr>"
  proof -
    have "(text_form (line_number i) i)\<lparr>line_number := rdr_line r\<rparr> = text_form (rdr_line r) i"
      by (simp add: text_form_def Let_def set_mod_def split: OperandForm.split)
    then show ?thesis using ok by (metis text_inst_ok_def)
  qed
  ultimately show ?thesis
    using sh oc render_line_tokens [OF m] by (simp add: read_instruction_def Let_def push_inst_def)
qed

lemma reader_line_inst:
  assumes ok: "text_inst_ok env (table_size r) i"
  shows "reader_line env (render_instruction i []) r =
    Inr (push_inst (i\<lparr>line_number := rdr_line r + 1\<rparr>) (bump r))"
proof -
  obtain m where m: "fh_opcode_mnemonic (opcode i) = Some m" using ok by (auto simp: text_inst_ok_def)
  note sh = render_line_shape [OF m]
  have "\<not> prefix ''modulus_count'' (render_instruction i [])" "render_instruction i [] ! 0 \<noteq> CHR ''m''"
    using sh(2,3) by (cases "render_instruction i []"; auto)+
  moreover have "hd (render_instruction i []) \<noteq> CHR ''#''" using sh(3) by auto
  ultimately show ?thesis
    using sh read_instruction_render [of env "bump r" i] ok
    by (simp add: reader_line_def Let_def bump_def table_size_def rdr_program_def)
qed

section \<open>Comment lines\<close>

text \<open>The part of the reader's state a comment cannot change.\<close>

definition core :: "Reader \<Rightarrow> u64 list \<times> Instruction list \<times> ReadDiagnostic list \<times> ReadDiagnostic list" where
  "core r = (modulus_table (rdr_program r), instructions (rdr_program r), rr_errors (rdr_result r),
             rr_warnings (rdr_result r))"

lemma core_bump [simp]: "core (bump r) = core r"
  by (simp add: core_def bump_def rdr_program_def)

lemma core_read_comment [simp]: "core (read_comment t r) = core r"
  by (simp add: core_def read_comment_def upd_program_def rdr_program_def Let_def split: option.split)

lemma reader_line_comment: "\<exists>r'. reader_line env (CHR ''#'' # s) r = Inr r' \<and> core r' = core r"
proof -
  obtain s' where "trim (CHR ''#'' # s) = CHR ''#'' # s'"
    using trim_Cons [of "CHR ''#''" s] by (auto simp: trim_char_def)
  then show ?thesis
    using core_read_comment core_bump [of r] by (simp add: reader_line_def Let_def bump_def)
qed

lemma reader_line_blank: "reader_line env [] r = Inr (bump r)"
  by (simp add: reader_line_def bump_def Let_def)

section \<open>The modulus table\<close>

lemma reader_line_modulus_count:
  assumes "n \<le> reserve_limit env" "n < 2 ^ 64"
  shows "reader_line env (''modulus_count '' @ to_string_nat n) r = Inr (bump r)"
proof -
  let ?l = "''modulus_count '' @ to_string_nat n" and ?s = "to_string_nat n"
  have p: "plain_word ?s" by (rule plain_to_string_nat)
  have t: "trim ?l = ?l"
    using plain_word_ends [OF p] p by (intro trim_id) (auto simp: trim_char_def plain_word_def)
  have un: "unat (of_nat n :: u64) = n" using assms(2) by (simp add: unat_of_nat_small)
  have "trim (CHR '' '' # ?s) = ?s"
    using trim_plain [OF p] by (simp add: trim_def trim_char_def)
  then have "strip_comma (CHR '' '' # ?s) = ?s"
    using strip_comma_plain [OF p] trim_plain [OF p] by (simp add: strip_comma_def Let_def)
  then have "to_uint (CHR '' '' # ?s) = Some (of_nat n)"
    by (intro to_uint_decimal) (simp add: un)
  then show ?thesis
    using t assms(1) un
    by (simp add: reader_line_def read_modulus_count_def bump_def Let_def)
qed

lemma find_char_append: "c \<notin> set s \<Longrightarrow> find_char c (s @ t) = map_option ((+) (length s)) (find_char c t)"
  by (induction s) (cases "find_char c t"; auto)+

lemma digits_no_bracket:
  "list_all (is_digit_in 10) s \<Longrightarrow> CHR '']'' \<notin> set s \<and> CHR '' '' \<notin> set s"
  by (auto simp: list_all_iff is_digit_in_def digit_value_def)

lemma reader_line_modulus_entry:
  assumes "table_size r < 2 ^ 64"
  shows "reader_line env (''m['' @ to_string_nat (table_size r) @ ''] 0x'' @ to_hex_upper (unat q)) r =
    Inr (upd_program (\<lambda>p. p\<lparr>modulus_table := modulus_table p @ [q]\<rparr>) (bump r))"
proof -
  let ?d = "to_string_nat (table_size r)" and ?h = "to_hex_upper (unat q)"
  let ?l = "''m['' @ ?d @ ''] 0x'' @ ?h"
  have d: "list_all (is_digit_in 10) ?d" using num_string_digits [of 10 "table_size r"]
    by (simp add: to_string_nat_def)
  have h: "list_all (is_digit_in 16) ?h" "?h \<noteq> []" using num_string_digits [of 16 "unat q"]
    by (simp_all add: to_hex_upper_def)
  have ph: "plain_word ?h" using h digits_plain by (simp add: plain_word_def)
  have t: "trim ?l = ?l"
    using plain_word_ends [OF ph] h(2) by (intro trim_id) (auto simp: trim_char_def)
  have px: "plain_word (''0x'' @ ?h)" using ph by (simp add: plain_word_def plain_char_def is_space_def)
  have nb: "CHR '']'' \<notin> set (''m['' @ ?d)" "CHR '' '' \<notin> set (''m['' @ ?d)"
    using digits_no_bracket [OF d] by auto
  have close: "find_char CHR '']'' ?l = Some (2 + length ?d)"
    using find_char_append [OF nb(1), of "''] 0x'' @ ?h"] by simp
  have space: "find_char CHR '' '' ?l = Some (3 + length ?d)"
    using find_char_append [OF nb(2), of "''] 0x'' @ ?h"] by simp
  have un: "unat (of_nat (table_size r) :: u64) = table_size r"
    using assms by (simp add: unat_of_nat_small)
  have idx: "to_uint ?d = Some (of_nat (table_size r))"
    using strip_comma_plain [OF plain_to_string_nat] by (intro to_uint_decimal) (simp add: un)
  have val: "to_uint (trim (''0x'' @ ?h)) = Some q"
    using to_uint_hex trim_plain [OF px] by simp
  have "?l = (''m['' @ ?d @ ''] '') @ (''0x'' @ ?h)" by simp
  then have dl: "drop (length (''m['' @ ?d @ ''] '')) ?l = ''0x'' @ ?h" by (metis append_eq_conv_conj)
  have ln: "length (''m['' @ ?d @ ''] '') = 3 + length ?d + 1" by simp
  have take: "take (2 + length ?d - 2) (drop 2 ?l) = ?d" "drop (3 + length ?d + 1) ?l = ''0x'' @ ?h"
    using dl [unfolded ln] by simp_all
  have ns: "\<not> 3 + length ?d < 2 + length ?d" by simp
  have sz: "length (modulus_table (rdr_program (bump r))) = table_size r"
    using table_size_bump [of r] by (simp add: table_size_def)
  have "read_modulus_entry ?l (bump r) =
      upd_program (\<lambda>p. p\<lparr>modulus_table := modulus_table p @ [q]\<rparr>) (bump r)"
    unfolding read_modulus_entry_def close space
    by (simp only: prod.case option.case take ns if_False idx val un Let_def sz) simp
  then show ?thesis using t by (simp add: reader_line_def bump_def Let_def)
qed

lemma reader_lines_append:
  "reader_lines env (ls @ ms) r = res_bind (reader_lines env ls r) (reader_lines env ms)"
  by (induction ls arbitrary: r) (auto simp: res_bind_def split: sum.split)

definition entry_line :: "nat \<Rightarrow> u64 \<Rightarrow> string" where
  "entry_line i q = ''m['' @ to_string_nat i @ ''] 0x'' @ to_hex_upper (unat q)"

lemma core_upd_table:
  "core r = (tab, is, es, ws) \<Longrightarrow>
     core (upd_program (\<lambda>p. p\<lparr>modulus_table := modulus_table p @ [q]\<rparr>) (bump r)) = (tab @ [q], is, es, ws)"
  by (simp add: core_def upd_program_def rdr_program_def bump_def)

lemma reader_lines_entries:
  assumes "core r = (take k tab, is, es, ws)" and "k \<le> length tab" and "length tab < 2 ^ 64"
  shows "\<exists>r'. reader_lines env (map (\<lambda>i. entry_line i (tab ! i)) [k..<length tab]) r = Inr r' \<and>
    core r' = (tab, is, es, ws)"
  using assms
proof (induction "length tab - k" arbitrary: k r)
  case 0
  then show ?case by simp
next
  case (Suc n)
  then have k: "k < length tab" by simp
  have n: "n = length tab - Suc k" using Suc.hyps(2) by arith
  have sz: "table_size r = k" using Suc.prems k by (simp add: core_def table_size_def)
  let ?r1 = "upd_program (\<lambda>p. p\<lparr>modulus_table := modulus_table p @ [tab ! k]\<rparr>) (bump r)"
  have "core ?r1 = (take (Suc k) tab, is, es, ws)"
    using core_upd_table [OF Suc.prems(1)] k by (simp add: take_Suc_conv_app_nth)
  then obtain r' where r': "reader_lines env (map (\<lambda>i. entry_line i (tab ! i)) [Suc k..<length tab]) ?r1 = Inr r'"
    "core r' = (tab, is, es, ws)"
    using Suc.hyps(1) [OF n, of ?r1] Suc.prems k by auto
  have "reader_line env (entry_line k (tab ! k)) r = Inr ?r1"
    using reader_line_modulus_entry [of r env "tab ! k"] sz k Suc.prems(3) by (simp add: entry_line_def)
  then show ?case using r' k by (simp add: upt_conv_Cons)
qed

section \<open>The body: instructions and interleaved comments\<close>

definition lines_text :: "string list \<Rightarrow> string" where
  "lines_text ls = concat (map (\<lambda>l. l @ newline) ls)"

lemma lines_text_simps [simp]:
  "lines_text [] = []" "lines_text (l # ls) = l @ newline @ lines_text ls"
  "lines_text (ks @ ls) = lines_text ks @ lines_text ls"
  by (simp_all add: lines_text_def)

text \<open>Reading these lines from a state with core \<open>c\<close> ends in one whose core satisfies \<open>P\<close>.\<close>

definition reads ::
  "text_env \<Rightarrow> string list \<Rightarrow> u64 list \<times> Instruction list \<times> ReadDiagnostic list \<times> ReadDiagnostic list \<Rightarrow>
     (u64 list \<times> Instruction list \<times> ReadDiagnostic list \<times> ReadDiagnostic list \<Rightarrow> bool) \<Rightarrow> bool" where
  "reads env ls c P \<longleftrightarrow> (\<forall>r. core r = c \<longrightarrow> (\<exists>r'. reader_lines env ls r = Inr r' \<and> P (core r')))"

lemma reads_append:
  "reads env ls c P \<Longrightarrow> (\<And>c'. P c' \<Longrightarrow> reads env ms c' Q) \<Longrightarrow> reads env (ls @ ms) c Q"
  unfolding reads_def reader_lines_append by fastforce

lemma reads_comment: "reads env [CHR ''#'' # s] c (\<lambda>c'. c' = c)"
  unfolding reads_def
proof (intro allI impI)
  fix r assume "core r = c"
  then show "\<exists>r'. reader_lines env [CHR ''#'' # s] r = Inr r' \<and> core r' = c"
    using reader_line_comment [of env s r] by auto
qed

lemma reads_Nil: "reads env [] c (\<lambda>c'. c' = c)"
  by (simp add: reads_def)

definition comment_lines :: "string list \<Rightarrow> bool" where
  "comment_lines ls \<longleftrightarrow> list_all (\<lambda>l. l \<noteq> [] \<longrightarrow> hd l = CHR ''#'') ls"

lemma reads_comments: "comment_lines ls \<Longrightarrow> reads env ls c (\<lambda>c'. c' = c)"
proof (induction ls)
  case (Cons l ls)
  have "reads env [l] c (\<lambda>c'. c' = c)"
  proof (cases l)
    case Nil
    then show ?thesis by (simp add: reads_def reader_line_blank)
  next
    case (Cons x s)
    then show ?thesis using Cons.prems reads_comment by (simp add: comment_lines_def)
  qed
  then show ?case
    using reads_append [of env "[l]" c _ ls "\<lambda>c'. c' = c"] Cons by (auto simp: comment_lines_def)
qed (rule reads_Nil)

definition same_insts :: "Instruction list \<Rightarrow> Instruction list \<Rightarrow> bool" where
  "same_insts = list_all2 (\<lambda>a b. b = a\<lparr>line_number := line_number b\<rparr>)"

lemma reads_inst:
  assumes "text_inst_ok env (length tab) i"
  shows "reads env [render_instruction i []] (tab, is, es, ws)
    (\<lambda>c. \<exists>ln. c = (tab, is @ [i\<lparr>line_number := ln\<rparr>], es, ws))"
  unfolding reads_def
proof (intro allI impI)
  fix r assume c: "core r = (tab, is, es, ws)"
  then have "table_size r = length tab" by (simp add: core_def table_size_def)
  then show "\<exists>r'. reader_lines env [render_instruction i []] r = Inr r' \<and>
      (\<exists>ln. core r' = (tab, is @ [i\<lparr>line_number := ln\<rparr>], es, ws))"
    using reader_line_inst [of env r i] assms c
    by (auto simp: core_def push_inst_def upd_program_def rdr_program_def bump_def)
qed

definition note_lines :: "Annotation list \<Rightarrow> string list" where
  "note_lines ns = map (\<lambda>n. ''# '' @ an_text n) ns"

lemma comment_note_lines: "comment_lines (note_lines ns)"
  by (induction ns) (auto simp: comment_lines_def note_lines_def)

lemma flush_lines:
  "flush_annotations_before i out ns =
     (out @ lines_text (note_lines (takeWhile (\<lambda>n. after_instruction n \<le> i) ns)),
      dropWhile (\<lambda>n. after_instruction n \<le> i) ns)"
  by (induction ns arbitrary: out) (auto simp: note_lines_def)

text \<open>The lines \<open>write_instructions\<close> prints, and what is left of the annotations.\<close>

fun body_lines :: "nat \<Rightarrow> Instruction list \<Rightarrow> Annotation list \<Rightarrow> string list \<times> Annotation list" where
  "body_lines i [] ns = ([], ns)"
| "body_lines i (x # xs) ns =
     (let (ls, rest) = body_lines (i + 1) xs (dropWhile (\<lambda>n. after_instruction n \<le> i) ns)
      in (note_lines (takeWhile (\<lambda>n. after_instruction n \<le> i) ns) @
          (if render_instruction x [] = [] then [] else [render_instruction x []]) @ ls, rest))"

lemma write_instructions_lines:
  "write_instructions i xs out ns = (out @ lines_text (fst (body_lines i xs ns)), snd (body_lines i xs ns))"
  by (induction xs arbitrary: i out ns) (auto simp: flush_lines Let_def split: prod.split)

lemma reads_body:
  assumes "list_all (text_inst_ok env (length tab)) xs"
  shows "reads env (fst (body_lines i xs ns)) (tab, is, es, ws)
    (\<lambda>c. \<exists>ys. same_insts xs ys \<and> c = (tab, is @ ys, es, ws))"
  using assms
proof (induction xs arbitrary: i ns "is")
  case Nil
  then show ?case by (simp add: reads_def same_insts_def)
next
  case (Cons x xs)
  let ?pre = "takeWhile (\<lambda>n. after_instruction n \<le> i) ns"
    and ?rest = "dropWhile (\<lambda>n. after_instruction n \<le> i) ns"
  have x: "text_inst_ok env (length tab) x" using Cons.prems by simp
  obtain m where m: "fh_opcode_mnemonic (opcode x) = Some m" using x by (auto simp: text_inst_ok_def)
  have body: "fst (body_lines i (x # xs) ns) =
      note_lines ?pre @ [render_instruction x []] @ fst (body_lines (i + 1) xs ?rest)"
    using render_line_shape(2) [OF m] by (simp add: split_beta)
  show ?case
    unfolding body
  proof (rule reads_append [OF reads_comments [OF comment_note_lines]], elim ssubst,
      rule reads_append [OF reads_inst [OF x]], elim exE, elim ssubst)
    fix ln
    show "reads env (fst (body_lines (i + 1) xs ?rest)) (tab, is @ [x\<lparr>line_number := ln\<rparr>], es, ws)
        (\<lambda>c. \<exists>ys. same_insts (x # xs) ys \<and> c = (tab, is @ ys, es, ws))"
      using Cons.IH [of "i + 1" ?rest "is @ [x\<lparr>line_number := ln\<rparr>]"] Cons.prems
      unfolding reads_def same_insts_def by (fastforce simp: list_all2_Cons1)
  qed
qed

section \<open>The whole file\<close>

definition no_newline :: "string \<Rightarrow> bool" where
  "no_newline s \<longleftrightarrow> CHR 0x0A \<notin> set s"

text \<open>Free text that stays on its line.\<close>

definition text_strings_ok :: "Program \<Rightarrow> bool" where
  "text_strings_ok p \<longleftrightarrow>
     no_newline (program_name (metadata p)) \<and> no_newline (program_version (metadata p)) \<and>
     no_newline (description (metadata p)) \<and> no_newline (source_file (metadata p)) \<and>
     no_newline (build_timestamp (metadata p)) \<and> list_all (\<lambda>n. no_newline (an_text n)) (annotations p)"

definition rule_line :: string where
  "rule_line = ''# =========================================''"

definition header_lines :: "TraceMetadata \<Rightarrow> nat \<Rightarrow> nat \<Rightarrow> string list" where
  "header_lines md ic mc =
     [rule_line, ''# Niobium FHETCH Trace'', rule_line] @
     (if program_name md \<noteq> [] then
        [''# Program: '' @ program_name md @
         (if program_version md \<noteq> [] then '' v'' @ program_version md else [])] else []) @
     (if description md \<noteq> [] then [''# Description: '' @ description md] else []) @
     (if source_file md \<noteq> [] then
        [''# Source: '' @ source_file md @ '':'' @ to_string_int (source_line md)] else []) @
     (if build_timestamp md \<noteq> [] then [''# Build: '' @ build_timestamp md] else []) @
     [''# Instruction Count: '' @ to_string_nat ic, ''# Modulus Count: '' @ to_string_nat mc] @
     (if generated_timestamp md \<noteq> 0 then
        [''# Generated: '' @ to_string_nat (unat (generated_timestamp md))] else []) @
     [rule_line]"

lemma render_header_lines: "render_header md ic mc = lines_text (header_lines md ic mc)"
  by (simp add: render_header_def header_lines_def kRule_def rule_line_def)

lemma comment_header_lines: "comment_lines (header_lines md ic mc)"
  by (simp add: header_lines_def comment_lines_def rule_line_def)

definition table_lines :: "u64 list \<Rightarrow> string list" where
  "table_lines tab =
     (''modulus_count '' @ to_string_nat (length tab)) # map (\<lambda>i. entry_line i (tab ! i)) [0..<length tab]"

lemma render_table_lines: "render_modulus_table tab = lines_text (table_lines tab)"
proof -
  have "concat (map (\<lambda>i. render_modulus_entry i (tab ! i)) ks) =
      lines_text (map (\<lambda>i. entry_line i (tab ! i)) ks)" for ks
    by (induction ks) (simp_all add: render_modulus_entry_def entry_line_def)
  then show ?thesis by (simp add: render_modulus_table_def table_lines_def)
qed

definition file_lines :: "Program \<Rightarrow> string list" where
  "file_lines p =
     (header_lines (metadata p) (length (instructions p)) (length (modulus_table p)) @
      [[], ''# Modulus Table'']) @ table_lines (modulus_table p) @ [[], ''# Instructions''] @
     fst (body_lines 0 (instructions p) (annotations p)) @
     note_lines (snd (body_lines 0 (instructions p) (annotations p)))"

lemma fhetch_text_lines: "fhetch_text p = lines_text (file_lines p)"
proof -
  have n: "concat (map (\<lambda>n. ''# '' @ an_text n @ newline) ns) = lines_text (note_lines ns)" for ns
    by (induction ns) (simp_all add: note_lines_def)
  show ?thesis
    unfolding fhetch_text_def write_instructions_lines render_header_lines render_table_lines
    by (simp add: file_lines_def Let_def n [simplified])
qed

lemma no_newline_plain: "list_all plain_char s \<Longrightarrow> no_newline s"
  by (auto simp: no_newline_def plain_char_def is_space_def list_all_iff)

lemma no_newline_digits: "no_newline (to_string_nat n)" "no_newline (to_hex_upper n)"
  "no_newline (to_string_int v)"
proof -
  have d: "no_newline (num_string b n)" if "2 \<le> b" "b \<le> 16" for b n
    using num_string_digits [OF that, of n] digits_plain no_newline_plain by blast
  show 1: "no_newline (to_string_nat n)" "no_newline (to_hex_upper n)" for n
    using d [of 10] d [of 16] by (simp_all add: to_string_nat_def to_hex_upper_def)
  show "no_newline (to_string_int v)"
    using 1(1) by (simp add: to_string_int_def) (simp add: no_newline_def)
qed

lemma no_newline_append [simp]: "no_newline (a @ b) \<longleftrightarrow> no_newline a \<and> no_newline b"
  by (auto simp: no_newline_def)

lemma no_newline_Cons [simp]: "no_newline (c # s) \<longleftrightarrow> c \<noteq> CHR 0x0A \<and> no_newline s"
  by (auto simp: no_newline_def)

lemma no_newline_Nil [simp]: "no_newline []"
  by (simp add: no_newline_def)

lemma no_newline_header:
  assumes "text_strings_ok p"
  shows "list_all no_newline (header_lines (metadata p) ic mc)"
  using assms by (simp add: header_lines_def rule_line_def text_strings_ok_def no_newline_digits)

lemma no_newline_table: "list_all no_newline (table_lines tab)"
  by (simp add: table_lines_def entry_line_def no_newline_digits list.pred_map comp_def list.pred_True)

lemma no_newline_notes:
  "list_all (\<lambda>n. no_newline (an_text n)) ns \<Longrightarrow> list_all no_newline (note_lines ns)"
  by (induction ns) (auto simp: note_lines_def)

lemma no_newline_render: "no_newline (render_instruction x [])"
proof (cases "fh_opcode_mnemonic (opcode x)")
  case None
  then show ?thesis by (simp add: render_instruction_def)
next
  case (Some m)
  then show ?thesis using render_line_shape(5) by (simp add: no_newline_def)
qed

lemma no_newline_body:
  "list_all (\<lambda>n. no_newline (an_text n)) ns \<Longrightarrow>
     list_all no_newline (fst (body_lines i xs ns)) \<and>
     list_all (\<lambda>n. no_newline (an_text n)) (snd (body_lines i xs ns))"
proof (induction xs arbitrary: i ns)
  case (Cons x xs)
  let ?P = "\<lambda>n. after_instruction n \<le> i"
  have "list_all (\<lambda>n. no_newline (an_text n)) (takeWhile ?P ns @ dropWhile ?P ns)"
    using Cons.prems by simp
  then have "list_all (\<lambda>n. no_newline (an_text n)) (takeWhile ?P ns)"
    "list_all (\<lambda>n. no_newline (an_text n)) (dropWhile ?P ns)"
    by (simp_all only: list_all_append)
  then show ?case
    using Cons.IH [of "dropWhile ?P ns" "i + 1"] no_newline_notes no_newline_render
    by (auto simp: split_beta)
qed simp

lemma getlines_fhetch_text:
  assumes "text_strings_ok p"
  shows "getlines (fhetch_text p) = file_lines p"
proof -
  have nts: "list_all (\<lambda>n. no_newline (an_text n)) (annotations p)"
    using assms by (simp add: text_strings_ok_def)
  have "list_all no_newline (file_lines p)"
    using no_newline_header [OF assms] no_newline_table no_newline_body [OF nts] no_newline_notes
    by (simp add: file_lines_def)
  then show ?thesis
    using getlines_join [of "file_lines p"]
    by (simp add: fhetch_text_lines lines_text_def newline_def no_newline_def [abs_def])
qed

lemma reads_table:
  assumes "length tab \<le> reserve_limit env" and "length tab < 2 ^ 64"
  shows "reads env (table_lines tab) ([], is, es, ws) (\<lambda>c. c = (tab, is, es, ws))"
  unfolding reads_def
proof (intro allI impI)
  fix r assume c: "core r = ([], is, es, ws)"
  have "core (bump r) = (take 0 tab, is, es, ws)" using c by simp
  from reader_lines_entries [OF this _ assms(2)]
  show "\<exists>r'. reader_lines env (table_lines tab) r = Inr r' \<and> core r' = (tab, is, es, ws)"
    using reader_line_modulus_count [OF assms, of r] by (simp add: table_lines_def)
qed

lemma reads_file:
  assumes "length (modulus_table p) \<le> reserve_limit env" and "length (modulus_table p) < 2 ^ 64"
    and "list_all (text_inst_ok env (length (modulus_table p))) (instructions p)"
  shows "reads env (file_lines p) ([], [], [], [])
    (\<lambda>c. \<exists>ys. same_insts (instructions p) ys \<and> c = (modulus_table p, ys, [], []))"
proof -
  let ?tab = "modulus_table p" and ?xs = "instructions p" and ?ns = "annotations p"
  let ?P = "\<lambda>c. \<exists>ys. same_insts ?xs ys \<and> c = (?tab, ys, [], [])"
  have tail: "reads env (note_lines ns) c ?P" if "?P c" for c ns
    using reads_comments [OF comment_note_lines, of env ns c] that unfolding reads_def by metis
  have body: "reads env (fst (body_lines 0 ?xs ?ns) @ note_lines (snd (body_lines 0 ?xs ?ns)))
      (?tab, [], [], []) ?P"
    by (rule reads_append [OF reads_body [OF assms(3)]]) (simp add: tail)
  have sep: "reads env [[], ''# Instructions''] c (\<lambda>c'. c' = c)" for c
    by (rule reads_comments) (simp add: comment_lines_def)
  have head: "reads env (header_lines (metadata p) (length ?xs) (length ?tab) @ [[], ''# Modulus Table'']) c
      (\<lambda>c'. c' = c)" for c
    by (rule reads_comments) (use comment_header_lines in \<open>simp add: comment_lines_def\<close>)
  show ?thesis
    unfolding file_lines_def
    by (rule reads_append [OF head], elim ssubst, rule reads_append [OF reads_table [OF assms(1,2)]],
        elim ssubst, rule reads_append [OF sep], elim ssubst, rule body)
qed

text \<open>
  C3: the text round trip.  A program in canonical text form (every instruction carries what its
  form prints, moduli are unambiguous against the table, free text stays on its line, and a
  floating-point immediate is one that six decimal places determine) is written and read back
  without any error or warning to the same modulus table and the same instructions, line numbers
  apart.  The comments between the instructions do not disturb it.
\<close>

theorem fhetch_text_roundtrip:
  assumes "text_strings_ok p"
    and "length (modulus_table p) \<le> reserve_limit env" and "length (modulus_table p) < 2 ^ 64"
    and "list_all (text_inst_ok env (length (modulus_table p))) (instructions p)"
  shows "\<exists>res. read_fhetch_text env (fhetch_text p) = Inr res \<and> rr_ok res \<and> rr_errors res = [] \<and>
    rr_warnings res = [] \<and> modulus_table (rr_program res) = modulus_table p \<and>
    list_all2 (\<lambda>a b. b = a\<lparr>line_number := line_number b\<rparr>) (instructions p)
      (instructions (rr_program res))"
proof -
  have "core Reader_init = ([], [], [], [])"
    by (simp add: core_def Reader_init_def ReadResult_init_def rdr_program_def Program_init_def)
  then obtain r' ys where r': "reader_lines env (file_lines p) Reader_init = Inr r'"
    "same_insts (instructions p) ys" "core r' = (modulus_table p, ys, [], [])"
    using reads_file [OF assms(2-4)] by (auto simp: reads_def)
  then show ?thesis
    by (simp add: read_fhetch_text_def getlines_fhetch_text [OF assms(1)] reader_finish_def Let_def
        core_def rdr_program_def same_insts_def)
qed

definition example_program :: Program where
  "example_program =
     Program_init\<lparr>metadata := TraceMetadata_init\<lparr>program_name := ''demo''\<rparr>,
       modulus_table := [0xFFFFFFFFFFFFFFFF, 0x61],
       instructions :=
         [Instruction_init\<lparr>opcode := FH_SR_MULPS, dest := 300, src1 := 1, immediate := Some 5,
            modulus := Some 1\<rparr>,
          Instruction_init\<lparr>opcode := FH_SR_AUTOMORPH_EVAL, dest := 2, src1 := 300, k_op := Some 3,
            modulus := Some 97, modulus_is_literal := True\<rparr>,
          Instruction_init\<lparr>opcode := FH_HALT\<rparr>],
       annotations := [\<lparr>an_line_number = 0, an_text = ''between'', after_instruction = 1\<rparr>]\<rparr>"

theorem fhetch_text_roundtrip_witness:
  "\<exists>res. read_fhetch_text \<lparr>strtod = (\<lambda>s. (0, False, length s)), reserve_limit = 1000\<rparr>
       (fhetch_text example_program) = Inr res \<and>
     rr_ok res \<and> modulus_table (rr_program res) = [0xFFFFFFFFFFFFFFFF, 0x61] \<and>
     map opcode (instructions (rr_program res)) = [FH_SR_MULPS, FH_SR_AUTOMORPH_EVAL, FH_HALT]"
proof -
  let ?env = "\<lparr>strtod = (\<lambda>s. (0, False, length s)), reserve_limit = 1000\<rparr>" and ?p = example_program
  have a: "text_strings_ok ?p"
    by (simp add: example_program_def text_strings_ok_def Program_init_def TraceMetadata_init_def)
  have b: "length (modulus_table ?p) \<le> reserve_limit ?env" "length (modulus_table ?p) < 2 ^ 64"
    by (simp_all add: example_program_def Program_init_def)
  have c: "list_all (text_inst_ok ?env (length (modulus_table ?p))) (instructions ?p)"
    by (simp add: example_program_def Program_init_def text_inst_ok_def Instruction_init_def text_form_def
        text_mod_ok_def set_mod_def fh_operand_form_simps Let_def kMaxModulusIndex_def
        fh_opcode_mnemonic_def opcode_assigned_iff del: not_None_eq)
  obtain res where res: "read_fhetch_text ?env (fhetch_text ?p) = Inr res" "rr_ok res"
    "modulus_table (rr_program res) = modulus_table ?p"
    "list_all2 (\<lambda>a b. b = a\<lparr>line_number := line_number b\<rparr>) (instructions ?p) (instructions (rr_program res))"
    using fhetch_text_roundtrip [OF a b c] by blast
  have "list_all2 (\<lambda>a b. opcode a = opcode b) (instructions ?p) (instructions (rr_program res))"
    using res(4) by (rule list_all2_mono) (metis Instruction.select_convs(1) Instruction.surjective
        Instruction.update_convs(14))
  then have "map opcode (instructions ?p) = map opcode (instructions (rr_program res))"
    by (simp add: list_all2_conv_all_nth nth_equalityI list_eq_iff_nth_eq)
  then show ?thesis
    using res by (simp add: example_program_def Program_init_def)
qed

end
