(* ===== verification/Checks.thy ===== *)
theory Checks
  imports Prelude
begin

text \<open>
  The compile-time predicates of \<open>include/niobium/checks.h\<close> and the number theory behind the one
  that matters: the root check accepts exactly the canonical primitive 2N-th roots of unity.
\<close>

definition is_compatible_prime :: "u64 \<Rightarrow> bool" where
  "is_compatible_prime prime \<longleftrightarrow> (prime AND 0xFFFF) = 0x0001"

definition is_compatible_ring_dim :: "u64 \<Rightarrow> bool" where
  "is_compatible_ring_dim ring_dim \<longleftrightarrow> ring_dim = push_bit 16 1"

text \<open>The product of two words reduced in 128 bits: exact, since both factors are below \<open>2 ^ 64\<close>.\<close>

definition mulmod :: "u64 \<Rightarrow> u64 \<Rightarrow> u64 \<Rightarrow> u64" where
  "mulmod a b q = word_of_nat (unat a * unat b mod unat q)"

text \<open>
  The squaring loop \<open>for (n = 1; n < ring_dim; n <<= 1)\<close>.  The counter is a natural number: the
  caller has checked that \<open>ring_dim\<close> is a power of two, so \<open>n\<close> stops at \<open>ring_dim \<le> 2 ^ 63\<close> and the
  shift never wraps.
\<close>

function root_power :: "nat \<Rightarrow> nat \<Rightarrow> u64 \<Rightarrow> u64 \<Rightarrow> u64" where
  "root_power n N q pw =
     (if 0 < n \<and> n < N then root_power (2 * n) N q (mulmod pw pw q) else pw)"
  by pat_completeness auto
termination
  by (relation "measure (\<lambda>(n, N, q, p). N - n)") auto

declare root_power.simps [simp del]

definition is_primitive_2n_root :: "u64 \<Rightarrow> u64 \<Rightarrow> u64 \<Rightarrow> bool" where
  "is_primitive_2n_root root ring_dim q =
     (if q \<le> 2 \<or> root \<ge> q \<or> ring_dim = 0 \<or> (ring_dim AND (ring_dim - 1)) \<noteq> 0 then False
      else root_power 1 (unat ring_dim) q root = q - 1)"

section \<open>Powers of two\<close>

lemma and_pred_zero_imp_power:
  fixes n :: nat
  assumes "n AND (n - 1) = 0" and "0 < n"
  shows "\<exists>e. n = 2 ^ e"
  using assms
proof (induction n rule: less_induct)
  case (less n)
  show ?case
  proof (cases "even n")
    case False
    then obtain m where m: "n = 2 * m + 1" by (auto elim: oddE)
    have "(2 * m + 1) AND (2 * m) = 2 * m"
      by (subst and_rec) simp
    with less.prems m have "m = 0" by simp
    with m have "n = 2 ^ 0" by simp
    then show ?thesis by blast
  next
    case True
    then obtain m where m: "n = 2 * m" by auto
    with less.prems have m0: "0 < m" by simp
    have "n - 1 = 2 * (m - 1) + 1" using m m0 by simp
    then have "(2 * m) AND (2 * (m - 1) + 1) = 0" using less.prems m by simp
    moreover have "(2 * m) AND (2 * (m - 1) + 1) = 2 * (m AND (m - 1))"
      by (subst and_rec) simp
    ultimately have "m AND (m - 1) = 0" by simp
    moreover have "m < n" using m m0 by simp
    ultimately obtain e where "m = 2 ^ e" using less.IH m0 by blast
    then have "n = 2 ^ Suc e" using m by simp
    then show ?thesis by blast
  qed
qed

lemma power_and_pred_zero: "(2 ^ e :: nat) AND (2 ^ e - 1) = 0"
proof (induction e)
  case (Suc e)
  have "(2 ^ Suc e - 1 :: nat) div 2 = 2 ^ e - 1" by simp
  then show ?case using Suc by (subst and_rec) simp
qed simp

lemma u64_power_of_two_iff:
  fixes N :: u64
  shows "N \<noteq> 0 \<and> (N AND (N - 1)) = 0 \<longleftrightarrow> (\<exists>e. unat N = 2 ^ e)"
proof (cases "N = 0")
  case True
  then show ?thesis by simp
next
  case False
  then have "unat (N - 1) = unat N - 1" by (simp add: unat_minus_one)
  then have "(N AND (N - 1)) = 0 \<longleftrightarrow> unat N AND (unat N - 1) = 0"
    by (simp flip: unat_eq_zero add: unsigned_and_eq)
  then show ?thesis
    using False and_pred_zero_imp_power [of "unat N"] power_and_pred_zero
    by (auto simp: unat_gt_0)
qed

section \<open>The root check\<close>

lemma unat_mulmod: "0 < q \<Longrightarrow> unat (mulmod a b q) = unat a * unat b mod unat q"
proof -
  assume "0 < q"
  then have "0 < unat q" by (simp add: unat_gt_0 word_neq_0_conv)
  then have "unat a * unat b mod unat q < unat q" by simp
  also have "\<dots> < 2 ^ LENGTH(64)" by (rule unat_lt_2p)
  finally show ?thesis by (simp add: mulmod_def unat_of_nat_small)
qed

lemma unat_root_power:
  assumes "0 < q" and "pw < q"
  shows "unat (root_power (2 ^ i) (2 ^ (i + d)) q pw) = unat pw ^ (2 ^ d) mod unat q"
  using assms(2)
proof (induction d arbitrary: i pw)
  case 0
  then have "unat pw < unat q" by (simp add: word_less_nat_alt)
  then show ?case by (simp add: root_power.simps [of "2 ^ i"])
next
  case (Suc d)
  let ?p = "mulmod pw pw q"
  have up: "unat ?p = unat pw * unat pw mod unat q"
    using assms(1) by (rule unat_mulmod)
  have "unat ?p < unat q" using assms(1) up by (simp add: word_less_nat_alt)
  then have pq: "?p < q" by (simp add: word_less_nat_alt)
  have "unat (root_power (2 ^ i) (2 ^ (i + Suc d)) q pw)
      = unat (root_power (2 ^ Suc i) (2 ^ (Suc i + d)) q ?p)"
    using power_strict_increasing [of i "i + Suc d" "2 :: nat"]
    by (subst root_power.simps) simp
  also have "\<dots> = unat ?p ^ (2 ^ d) mod unat q"
    by (rule Suc.IH [OF pq])
  also have "\<dots> = (unat pw * unat pw) ^ (2 ^ d) mod unat q"
    by (simp only: up power_mod)
  also have "(unat pw * unat pw) ^ (2 ^ d) = unat pw ^ (2 ^ Suc d)"
    by (simp add: power_mult [symmetric] power2_eq_square [symmetric])
  finally show ?case .
qed

lemma is_primitive_2n_root_iff:
  "is_primitive_2n_root root N q \<longleftrightarrow>
     2 < q \<and> root < q \<and> (\<exists>e. unat N = 2 ^ e) \<and> unat root ^ unat N mod unat q = unat q - 1"
proof (cases "2 < q \<and> root < q \<and> (\<exists>e. unat N = 2 ^ e)")
  case False
  then show ?thesis
    using u64_power_of_two_iff [of N] by (auto simp: is_primitive_2n_root_def not_less)
next
  case True
  then obtain e where e: "unat N = 2 ^ e" by blast
  have q0: "0 < q" using True by (meson order_le_less_trans word_zero_le)
  have "unat (root_power 1 (unat N) q root) = unat root ^ unat N mod unat q"
    using unat_root_power [of q root 0 e] q0 True e by simp
  moreover have "unat (q - 1) = unat q - 1" using q0 by (simp add: unat_minus_one)
  ultimately have "root_power 1 (unat N) q root = q - 1 \<longleftrightarrow>
      unat root ^ unat N mod unat q = unat q - 1"
    by (metis word_unat_eq_iff)
  then show ?thesis
    using True u64_power_of_two_iff [of N] by (auto simp: is_primitive_2n_root_def not_le)
qed

section \<open>The order of an accepted root\<close>

lemma pow_one_mod:
  fixes r q :: nat
  assumes "r ^ m mod q = 1" and "r ^ k mod q = 1"
  shows "r ^ (k mod m) mod q = 1"
proof -
  have "r ^ k = (r ^ m) ^ (k div m) * r ^ (k mod m)"
    by (simp flip: power_mult power_add)
  then have "r ^ k mod q = ((r ^ m mod q) ^ (k div m) * r ^ (k mod m)) mod q"
    by (metis mod_mult_left_eq power_mod)
  with assms show ?thesis by simp
qed

lemma pow_one_gcd:
  fixes r q :: nat
  shows "r ^ m mod q = 1 \<Longrightarrow> r ^ k mod q = 1 \<Longrightarrow> r ^ gcd m k mod q = 1"
proof (induction m k rule: gcd_nat_induct)
  case (step m n)
  have "r ^ (m mod n) mod q = 1" using step.prems by (rule pow_one_mod [of r n q m, rotated])
  with step show ?case by (metis gcd_red_nat)
qed simp

lemma dvd_two_power:
  fixes g :: nat
  shows "g dvd 2 ^ n \<Longrightarrow> \<exists>i \<le> n. g = 2 ^ i"
proof (induction n arbitrary: g)
  case (Suc n)
  show ?case
  proof (cases "even g")
    case True
    then obtain h where h: "g = 2 * h" by auto
    with Suc.prems have "h dvd 2 ^ n" by simp
    then obtain i where "i \<le> n" "h = 2 ^ i" using Suc.IH by blast
    then have "Suc i \<le> Suc n" "g = 2 ^ Suc i" using h by simp_all
    then show ?thesis by blast
  next
    case False
    then have "coprime g 2" by simp
    then have "g dvd 2 ^ n" using Suc.prems by (simp add: coprime_dvd_mult_right_iff)
    then show ?thesis using Suc.IH le_SucI by blast
  qed
qed simp

lemma dvd_two_power_cases:
  fixes g :: nat
  assumes "g dvd 2 ^ Suc e"
  shows "g dvd 2 ^ e \<or> g = 2 ^ Suc e"
proof -
  obtain i where i: "i \<le> Suc e" "g = 2 ^ i"
    using dvd_two_power [OF assms] by blast
  show ?thesis
  proof (cases "i \<le> e")
    case True
    then show ?thesis using i by (simp add: le_imp_power_dvd)
  next
    case False
    then show ?thesis using i by (simp add: le_Suc_eq)
  qed
qed

lemma minus_one_power_order:
  fixes r q N :: nat
  assumes "2 < q" and "N = 2 ^ e" and "r ^ N mod q = q - 1"
  shows "r ^ k mod q = 1 \<longleftrightarrow> 2 * N dvd k"
proof
  have "r ^ (2 * N) mod q = (r ^ N mod q) * (r ^ N mod q) mod q"
    by (simp add: mod_mult_eq power_add mult_2)
  also have "\<dots> = (q - 1) * (q - 1) mod q" using assms by simp
  also have "\<dots> = 1"
  proof -
    have "(q - 1) * (q - 1) = q * (q - 2) + 1"
      using assms(1) by (cases q; cases "q - 1") (auto simp: algebra_simps)
    then show ?thesis using assms(1) by (metis mod_mult_self4 mod_less less_trans one_less_numeral_iff
          semiring_norm(76))
  qed
  finally have one: "r ^ (2 * N) mod q = 1" .
  show "2 * N dvd k" if "r ^ k mod q = 1"
  proof -
    let ?g = "gcd (2 * N) k"
    have g1: "r ^ ?g mod q = 1" using one that by (rule pow_one_gcd)
    have "?g dvd 2 ^ Suc e" using assms(2) by simp
    then consider "?g dvd 2 ^ e" | "?g = 2 ^ Suc e" using dvd_two_power_cases by blast
    then show ?thesis
    proof cases
      case 1
      then have "N mod ?g = 0" using assms(2) by simp
      have "r ^ N mod q = (r ^ ?g mod q) ^ (N div ?g) mod q"
        using 1 assms(2) by (simp add: power_mod flip: power_mult)
      then have "r ^ N mod q = 1" using g1 assms(1) by simp
      then show ?thesis using assms(1,3) by simp
    next
      case 2
      then have "?g = 2 * N" using assms(2) by simp
      then show ?thesis by (metis gcd_dvd2)
    qed
  qed
  show "r ^ k mod q = 1" if "2 * N dvd k"
  proof -
    from that obtain c where "k = 2 * N * c" by auto
    then have "r ^ k mod q = (r ^ (2 * N) mod q) ^ c mod q"
      by (simp add: power_mod power_mult)
    then show ?thesis using one assms(1) by simp
  qed
qed

text \<open>
  C39: the root check is exact.  It accepts \<open>root\<close> precisely when \<open>q > 2\<close>, \<open>N\<close> is a power of two, the
  root is canonical (\<open>root < q\<close>) and its \<open>N\<close>-th power is \<open>-1\<close> modulo \<open>q\<close>, computed without any
  overflow; and the multiplicative order of an accepted root is then exactly \<open>2 N\<close>.
\<close>

theorem is_primitive_2n_root_exact:
  "(is_primitive_2n_root root N q \<longleftrightarrow>
      2 < q \<and> root < q \<and> (\<exists>e. unat N = 2 ^ e) \<and> unat root ^ unat N mod unat q = unat q - 1) \<and>
   (is_primitive_2n_root root N q \<longrightarrow>
      (\<forall>k. unat root ^ k mod unat q = 1 \<longleftrightarrow> 2 * unat N dvd k))"
proof (intro conjI impI allI)
  show "is_primitive_2n_root root N q \<longleftrightarrow>
      2 < q \<and> root < q \<and> (\<exists>e. unat N = 2 ^ e) \<and> unat root ^ unat N mod unat q = unat q - 1"
    by (rule is_primitive_2n_root_iff)
next
  fix k assume "is_primitive_2n_root root N q"
  then obtain e where "2 < unat q" "unat N = 2 ^ e" "unat root ^ unat N mod unat q = unat q - 1"
    unfolding is_primitive_2n_root_iff by (auto simp: word_less_nat_alt)
  then show "unat root ^ k mod unat q = 1 \<longleftrightarrow> 2 * unat N dvd k"
    by (rule minus_one_power_order)
qed

theorem is_primitive_2n_root_exact_witness:
  "is_primitive_2n_root 2 4 17 \<and> \<not> is_primitive_2n_root 4 4 17 \<and>
   (unat (2 :: u64) ^ 8 mod unat (17 :: u64) = 1 \<longleftrightarrow> 2 * unat (4 :: u64) dvd 8)"
proof -
  have e: "\<exists>e. (4 :: nat) = 2 ^ e" by (rule exI [of _ 2]) simp
  have a: "is_primitive_2n_root 2 4 17"
    using is_primitive_2n_root_exact [of 2 4 17] e by simp
  have b: "\<not> is_primitive_2n_root 4 4 17"
    using is_primitive_2n_root_exact [of 4 4 17] by simp
  show ?thesis
    using a b is_primitive_2n_root_exact [of 2 4 17] by blast
qed

end
