(* ===== verification/ApiState.thy ===== *)
theory ApiState
  imports TraceWriter Checks CppText
begin

text \<open>
  The state of the recording interface (\<open>src/fhetch_api.cpp\<close>, first half): the address allocator,
  the address-to-modulus map, the registries of tagged values, the value types a client holds
  (polynomials, scalars, multi-residue polynomials and their arrays) and the instruction builders.
  An operation is a function of the state that returns a value or an error beside the state it
  leaves behind: an exception does not roll back what was done before it.

  A client value is a shared pointer to an object.  \<open>PolynomialImpl\<close> and \<open>ScalarImpl\<close> are never
  written after construction, and the library writes an \<open>MRPImpl\<close> or an array only before it hands it
  out, so the objects are modelled by their contents; \<open>ApiHandles\<close> has the pointers and says when a
  client's own writes make a difference.  A null handle of a polynomial or a scalar is
  \<open>None\<close>; its \<open>impl()->\<close> is a null dereference.
\<close>

section \<open>Values\<close>

datatype NumberType = Integer | NonInteger

datatype Format = Coefficient | Evaluation

type_synonym ModuliBase = "u64 list"

record PolynomialImpl =
  pi_address :: u64
  pi_ring_dim :: u64
  pi_fmt :: Format
  pi_ntype :: NumberType
  pi_int_data :: "u64 list"
  pi_fp_data :: "f64 list"

type_synonym Polynomial = "PolynomialImpl option"

record ScalarImpl =
  si_address :: u64
  si_ntype :: NumberType
  si_int_value :: u64
  si_fp_value :: f64

type_synonym Scalar = "ScalarImpl option"

type_synonym SRPArray = "Polynomial list"

record MRP =
  mrp_base :: ModuliBase
  mrp_residues :: "u64 \<rightharpoonup> Polynomial"
  mrp_ring_dim :: u64

record MRS =
  mrs_base :: ModuliBase
  mrs_scalars :: "u64 \<rightharpoonup> Scalar"

type_synonym MRPArray = "MRP list"

text \<open>A registry entry: the kind and the one payload that kind uses.\<close>

datatype Tagged = POLY Polynomial | MRP_KIND MRP | MRPA MRPArray | SRPA SRPArray

record RegistryEntry =
  re_name :: string
  re_value :: Tagged

text \<open>
  \<open>next_address\<close> counts the \<open>fetch_add\<close>s of the epoch; the 64-bit counter holds its value modulo
  \<open>2 ^ 64\<close>, which is what \<open>alloc_address\<close> returns.
\<close>

record ApiState =
  next_address :: nat
  address_modulus_map :: "u64 \<rightharpoonup> u64"
  input_registry :: "RegistryEntry list"
  probe_registry :: "RegistryEntry list"
  synced_since_reset :: bool
  as_writer :: TraceWriter

definition ApiState_init :: ApiState where
  "ApiState_init =
     \<lparr>next_address = 0, address_modulus_map = Map.empty, input_registry = [], probe_registry = [],
      synced_since_reset = False, as_writer = TraceWriter_ctor\<rparr>"

section \<open>Operations with state and exceptions\<close>

type_synonym 'a api = "ApiState \<Rightarrow> (cpp_error + 'a) \<times> ApiState"

definition api_return :: "'a \<Rightarrow> 'a api" where
  "api_return x = (\<lambda>s. (Inr x, s))"

definition api_throw :: "cpp_error \<Rightarrow> 'a api" where
  "api_throw e = (\<lambda>s. (Inl e, s))"

definition api_bind :: "'a api \<Rightarrow> ('a \<Rightarrow> 'b api) \<Rightarrow> 'b api" where
  "api_bind m f = (\<lambda>s. case m s of (Inl e, s') \<Rightarrow> (Inl e, s') | (Inr x, s') \<Rightarrow> f x s')"

definition api_seq :: "unit api \<Rightarrow> 'b api \<Rightarrow> 'b api" where
  "api_seq m k = api_bind m (\<lambda>_. k)"

definition api_lift :: "cpp_error + 'a \<Rightarrow> 'a api" where
  "api_lift r = (case r of Inl e \<Rightarrow> api_throw e | Inr x \<Rightarrow> api_return x)"

text \<open>The two loop shapes of the source: an accumulator threaded through, and a vector filled.\<close>

primrec api_fold :: "('a \<Rightarrow> 'b \<Rightarrow> 'b api) \<Rightarrow> 'a list \<Rightarrow> 'b \<Rightarrow> 'b api" where
  "api_fold f [] acc = api_return acc"
| "api_fold f (x # xs) acc = api_bind (f x acc) (api_fold f xs)"

primrec api_map :: "('a \<Rightarrow> 'b api) \<Rightarrow> 'a list \<Rightarrow> 'b list api" where
  "api_map f [] = api_return []"
| "api_map f (x # xs) = api_bind (f x) (\<lambda>y. api_bind (api_map f xs) (\<lambda>ys. api_return (y # ys)))"

section \<open>Allocator and modulus map\<close>

definition alloc_address :: "u64 api" where
  "alloc_address = (\<lambda>s. (Inr (of_nat (next_address s)), s\<lparr>next_address := next_address s + 1\<rparr>))"

definition remember_modulus :: "u64 \<Rightarrow> u64 \<Rightarrow> unit api" where
  "remember_modulus a q = (\<lambda>s.
     let COPY_SENTINEL = 0xFFFFFFFFFFFFFFFF;
         m = address_modulus_map s
     in (Inr (),
         case m a of
           None \<Rightarrow> s\<lparr>address_modulus_map := m(a \<mapsto> q)\<rparr>
         | Some old \<Rightarrow>
             if old = COPY_SENTINEL \<and> q \<noteq> COPY_SENTINEL
             then s\<lparr>address_modulus_map := m(a \<mapsto> q)\<rparr>
             else s))"

section \<open>Instruction builders\<close>

definition midx :: "u64 \<Rightarrow> u32 api" where
  "midx q = (\<lambda>s. let (i, t) = register_modulus q (as_writer s) in (Inr i, s\<lparr>as_writer := t\<rparr>))"

definition ir :: "u8 \<Rightarrow> u64 \<Rightarrow> u64 \<Rightarrow> Instruction" where
  "ir op d s1 = Instruction_init\<lparr>opcode := op, dest := ucast d, src1 := ucast s1\<rparr>"

definition api_emit :: "Instruction \<Rightarrow> unit api" where
  "api_emit inst = (\<lambda>s. (Inr (), s\<lparr>as_writer := emit inst (as_writer s)\<rparr>))"

definition emit_pp :: "u8 \<Rightarrow> u64 \<Rightarrow> u64 \<Rightarrow> u64 \<Rightarrow> u64 \<Rightarrow> unit api" where
  "emit_pp op d s1 s2 q =
     api_bind (midx q) (\<lambda>m. api_emit ((ir op d s1)\<lparr>src2 := ucast s2, modulus := Some (ucast m)\<rparr>))"

definition emit_pp_ni :: "u8 \<Rightarrow> u64 \<Rightarrow> u64 \<Rightarrow> u64 \<Rightarrow> unit api" where
  "emit_pp_ni op d s1 s2 = api_emit ((ir op d s1)\<lparr>src2 := ucast s2\<rparr>)"

definition emit_ps :: "u8 \<Rightarrow> u64 \<Rightarrow> u64 \<Rightarrow> u64 \<Rightarrow> u64 \<Rightarrow> unit api" where
  "emit_ps op d s1 imm q =
     api_bind (midx q)
       (\<lambda>m. api_emit ((ir op d s1)\<lparr>immediate := Some imm, modulus := Some (ucast m)\<rparr>))"

definition emit_ps_ni :: "u8 \<Rightarrow> u64 \<Rightarrow> u64 \<Rightarrow> f64 \<Rightarrow> unit api" where
  "emit_ps_ni op d s1 imm = api_emit ((ir op d s1)\<lparr>fp_immediate := Some imm\<rparr>)"

definition emit_un :: "u8 \<Rightarrow> u64 \<Rightarrow> u64 \<Rightarrow> u64 \<Rightarrow> unit api" where
  "emit_un op d s1 q = api_bind (midx q) (\<lambda>m. api_emit ((ir op d s1)\<lparr>modulus := Some (ucast m)\<rparr>))"

definition emit_un_ni :: "u8 \<Rightarrow> u64 \<Rightarrow> u64 \<Rightarrow> unit api" where
  "emit_un_ni op d s1 = api_emit (ir op d s1)"

definition emit_ntt :: "u8 \<Rightarrow> u64 \<Rightarrow> u64 \<Rightarrow> u64 \<Rightarrow> u64 option \<Rightarrow> unit api" where
  "emit_ntt op d s1 q omg =
     api_bind (midx q)
       (\<lambda>m. api_emit ((ir op d s1)\<lparr>modulus := Some (ucast m), omega := omg\<rparr>))"

section \<open>Polynomials and scalars\<close>

definition new_polynomial :: "u64 \<Rightarrow> Format \<Rightarrow> NumberType \<Rightarrow> u64 list \<Rightarrow> f64 list \<Rightarrow> Polynomial api" where
  "new_polynomial rd f nt ints fps =
     api_bind alloc_address (\<lambda>a. api_return (Some
       \<lparr>pi_address = a, pi_ring_dim = rd, pi_fmt = f, pi_ntype = nt,
        pi_int_data = ints, pi_fp_data = fps\<rparr>))"

definition zeros :: "u64 \<Rightarrow> Format \<Rightarrow> Polynomial api" where
  "zeros ring_dim fmt = new_polynomial ring_dim fmt Integer [] []"

definition zeros_ni :: "u64 \<Rightarrow> Format \<Rightarrow> Polynomial api" where
  "zeros_ni ring_dim fmt = new_polynomial ring_dim fmt NonInteger [] []"

definition from_data :: "u64 list \<Rightarrow> u64 \<Rightarrow> Format \<Rightarrow> Polynomial api" where
  "from_data components ring_dim fmt = new_polynomial ring_dim fmt Integer components []"

definition from_data_ni :: "f64 list \<Rightarrow> u64 \<Rightarrow> Format \<Rightarrow> Polynomial api" where
  "from_data_ni components ring_dim fmt = new_polynomial ring_dim fmt NonInteger [] components"

definition ring_dimension_of :: "Polynomial \<Rightarrow> u64" where
  "ring_dimension_of p = (case p of None \<Rightarrow> 0 | Some i \<Rightarrow> pi_ring_dim i)"

definition number_type :: "Polynomial \<Rightarrow> NumberType" where
  "number_type p = (case p of None \<Rightarrow> Integer | Some i \<Rightarrow> pi_ntype i)"

definition format_of :: "Polynomial \<Rightarrow> Format" where
  "format_of p = (case p of None \<Rightarrow> Evaluation | Some i \<Rightarrow> pi_fmt i)"

definition poly_is_valid :: "Polynomial \<Rightarrow> bool" where
  "poly_is_valid p \<longleftrightarrow> p \<noteq> None"

definition int_data :: "Polynomial \<Rightarrow> cpp_error + u64 list" where
  "int_data p =
     (case p of
        None \<Rightarrow> Inl RuntimeError
      | Some i \<Rightarrow> if pi_ntype i \<noteq> Integer then Inl RuntimeError else Inr (pi_int_data i))"

text \<open>\<open>p.impl()->address\<close>\<close>

definition addr_of :: "Polynomial \<Rightarrow> u64 api" where
  "addr_of p = (case p of None \<Rightarrow> api_throw NullDereference | Some i \<Rightarrow> api_return (pi_address i))"

definition new_scalar :: "NumberType \<Rightarrow> u64 \<Rightarrow> f64 \<Rightarrow> Scalar api" where
  "new_scalar nt iv fv =
     api_bind alloc_address (\<lambda>a. api_return (Some
       \<lparr>si_address = a, si_ntype = nt, si_int_value = iv, si_fp_value = fv\<rparr>))"

definition scalar_from_int :: "u64 \<Rightarrow> Scalar api" where
  "scalar_from_int v = new_scalar Integer v 0"

definition scalar_from_double :: "f64 \<Rightarrow> Scalar api" where
  "scalar_from_double v = new_scalar NonInteger 0 v"

definition scalar_int :: "Scalar \<Rightarrow> u64 api" where
  "scalar_int sc = (case sc of None \<Rightarrow> api_throw NullDereference | Some i \<Rightarrow> api_return (si_int_value i))"

definition scalar_fp :: "Scalar \<Rightarrow> f64 api" where
  "scalar_fp sc = (case sc of None \<Rightarrow> api_throw NullDereference | Some i \<Rightarrow> api_return (si_fp_value i))"

definition make_result :: "Polynomial \<Rightarrow> Format \<Rightarrow> Polynomial api" where
  "make_result from fmt =
     (if number_type from = NonInteger then zeros_ni (ring_dimension_of from) fmt
      else zeros (ring_dimension_of from) fmt)"

definition make_result_like :: "Polynomial \<Rightarrow> Polynomial api" where
  "make_result_like from = make_result from (format_of from)"

section \<open>Arrays and multi-residue values\<close>

text \<open>The checked subscripts.\<close>

definition arr_at :: "'a list \<Rightarrow> nat \<Rightarrow> 'a api" where
  "arr_at xs i = (if i \<ge> length xs then api_throw OutOfRange else api_return (xs ! i))"

definition arr_put :: "'a list \<Rightarrow> nat \<Rightarrow> 'a \<Rightarrow> 'a list api" where
  "arr_put xs i x = (if i \<ge> length xs then api_throw OutOfRange else api_return (xs[i := x]))"

definition MRP_empty :: MRP where
  "MRP_empty = \<lparr>mrp_base = [], mrp_residues = Map.empty, mrp_ring_dim = 0\<rparr>"

definition MRP_new :: "ModuliBase \<Rightarrow> u64 \<Rightarrow> MRP api" where
  "MRP_new b rd =
     api_bind
       (api_fold (\<lambda>q residues. api_bind (zeros rd Evaluation) (\<lambda>z. api_return (residues(q \<mapsto> z)))) b
          Map.empty)
       (\<lambda>residues. api_return \<lparr>mrp_base = b, mrp_residues = residues, mrp_ring_dim = rd\<rparr>)"

definition MRP_from_pairs :: "(Polynomial \<times> u64) list \<Rightarrow> MRP" where
  "MRP_from_pairs pairs =
     \<lparr>mrp_base = map snd pairs,
      mrp_residues = fold (\<lambda>(poly, q) m. m(q \<mapsto> poly)) pairs Map.empty,
      mrp_ring_dim =
        (if pairs \<noteq> [] \<and> poly_is_valid (fst (hd pairs)) then ring_dimension_of (fst (hd pairs)) else 0)\<rparr>"

definition mrp_at :: "MRP \<Rightarrow> u64 \<Rightarrow> Polynomial api" where
  "mrp_at x q = (case mrp_residues x q of None \<Rightarrow> api_throw OutOfRange | Some p \<Rightarrow> api_return p)"

definition mrp_put :: "MRP \<Rightarrow> u64 \<Rightarrow> Polynomial \<Rightarrow> MRP api" where
  "mrp_put z q p =
     (case mrp_residues z q of
        None \<Rightarrow> api_throw OutOfRange
      | Some _ \<Rightarrow> api_return (z\<lparr>mrp_residues := (mrp_residues z)(q \<mapsto> p)\<rparr>))"

definition mrp_is_valid :: "MRP \<Rightarrow> bool" where
  "mrp_is_valid x \<longleftrightarrow> mrp_base x \<noteq> []"

definition MRS_from_pairs :: "(Scalar \<times> u64) list \<Rightarrow> MRS" where
  "MRS_from_pairs pairs =
     \<lparr>mrs_base = map snd pairs, mrs_scalars = fold (\<lambda>(sc, q) m. m(q \<mapsto> sc)) pairs Map.empty\<rparr>"

definition MRS_new :: "ModuliBase \<Rightarrow> MRS api" where
  "MRS_new b =
     api_bind
       (api_fold (\<lambda>q scalars. api_bind (scalar_from_int 0) (\<lambda>z. api_return (scalars(q \<mapsto> z)))) b
          Map.empty)
       (\<lambda>scalars. api_return \<lparr>mrs_base = b, mrs_scalars = scalars\<rparr>)"

definition mrs_at :: "MRS \<Rightarrow> u64 \<Rightarrow> Scalar api" where
  "mrs_at x q = (case mrs_scalars x q of None \<Rightarrow> api_throw OutOfRange | Some sc \<Rightarrow> api_return sc)"

definition mrs_put :: "MRS \<Rightarrow> u64 \<Rightarrow> Scalar \<Rightarrow> MRS api" where
  "mrs_put z q sc =
     (case mrs_scalars z q of
        None \<Rightarrow> api_throw OutOfRange
      | Some _ \<Rightarrow> api_return (z\<lparr>mrs_scalars := (mrs_scalars z)(q \<mapsto> sc)\<rparr>))"

section \<open>Registries\<close>

definition rearm_fhetch_sync :: "ApiState \<Rightarrow> ApiState" where
  "rearm_fhetch_sync s = s\<lparr>synced_since_reset := False\<rparr>"

definition reset_for_epoch :: "ApiState \<Rightarrow> ApiState" where
  "reset_for_epoch s =
     rearm_fhetch_sync
       (s\<lparr>next_address := 0, input_registry := [], probe_registry := [],
          address_modulus_map := Map.empty\<rparr>)"

definition clear_recording_registries :: "ApiState \<Rightarrow> ApiState" where
  "clear_recording_registries s = s\<lparr>address_modulus_map := Map.empty, synced_since_reset := False\<rparr>"

definition tag_input :: "string \<Rightarrow> Tagged \<Rightarrow> unit api" where
  "tag_input nm v =
     (\<lambda>s. (Inr (), s\<lparr>input_registry := input_registry s @ [\<lparr>re_name = nm, re_value = v\<rparr>]\<rparr>))"

definition api_comment :: "string \<Rightarrow> unit api" where
  "api_comment text = (\<lambda>s. (Inr (), s\<lparr>as_writer := comment_line text (as_writer s)\<rparr>))"

definition register_probe :: "string \<Rightarrow> Tagged \<Rightarrow> unit api" where
  "register_probe nm v =
     (\<lambda>s. (Inr (), s\<lparr>probe_registry := probe_registry s @ [\<lparr>re_name = nm, re_value = v\<rparr>]\<rparr>))"

definition output_comment :: "string \<Rightarrow> Polynomial \<Rightarrow> unit api" where
  "output_comment nm p =
     api_bind (addr_of p)
       (\<lambda>a. api_comment (''output '' @ nm @ '' %'' @ to_string_nat (unat a)))"

definition tag_output :: "string \<Rightarrow> Tagged \<Rightarrow> unit api" where
  "tag_output nm v =
     api_seq
       (case v of
          POLY p \<Rightarrow> output_comment nm p
        | MRP_KIND m \<Rightarrow>
            api_fold (\<lambda>q _. api_bind (mrp_at m q) (output_comment nm)) (mrp_base m) ()
        | MRPA _ \<Rightarrow> api_return ()
        | SRPA _ \<Rightarrow> api_return ())
       (register_probe nm v)"

text \<open>One entry of the loop of \<open>get_input_ring_dimension\<close>: \<open>None\<close> when it goes on to the next.\<close>

definition entry_ring_dimension :: "Tagged \<Rightarrow> cpp_error + u64 option" where
  "entry_ring_dimension v =
     (case v of
        POLY p \<Rightarrow>
          Inr (if poly_is_valid p \<and> ring_dimension_of p > 0 then Some (ring_dimension_of p) else None)
      | MRP_KIND m \<Rightarrow>
          (if mrp_is_valid m then
             (case mrp_residues m (hd (mrp_base m)) of
                None \<Rightarrow> Inl OutOfRange
              | Some p \<Rightarrow>
                  Inr (if poly_is_valid p \<and> ring_dimension_of p > 0
                       then Some (ring_dimension_of p) else None))
           else Inr None)
      | MRPA arr \<Rightarrow>
          (if arr \<noteq> [] \<and> mrp_is_valid (hd arr) then
             (case mrp_residues (hd arr) (hd (mrp_base (hd arr))) of
                None \<Rightarrow> Inl OutOfRange
              | Some p \<Rightarrow> Inr (Some (ring_dimension_of p)))
           else Inr None)
      | SRPA arr \<Rightarrow>
          Inr (if arr \<noteq> [] \<and> poly_is_valid (hd arr) then Some (ring_dimension_of (hd arr)) else None))"

fun input_ring_dimension :: "RegistryEntry list \<Rightarrow> cpp_error + u64" where
  "input_ring_dimension [] = Inr 0"
| "input_ring_dimension (e # es) =
     res_bind (entry_ring_dimension (re_value e))
       (\<lambda>r. case r of Some n \<Rightarrow> Inr n | None \<Rightarrow> input_ring_dimension es)"

definition get_input_ring_dimension :: "ApiState \<Rightarrow> cpp_error + u64" where
  "get_input_ring_dimension s = input_ring_dimension (input_registry s)"

end
