(* ===== verification/FhetchApi.thy ===== *)
theory FhetchApi
  imports ApiState
begin

text \<open>
  The instruction functions of the recording interface (\<open>src/fhetch_api.cpp\<close>): the baseline and
  optional single-residue operations, the multi-residue gadgets built on them, and the gadgets on
  arrays that need no base conversion.  Where several functions of the source differ only in the
  opcode they record, their common body is one definition and each function is an instance of it.
\<close>

section \<open>Single-residue bodies\<close>

definition sr_binary :: "u8 \<Rightarrow> Polynomial \<Rightarrow> Polynomial \<Rightarrow> u64 \<Rightarrow> Polynomial api" where
  "sr_binary op a b q =
     api_bind (make_result_like a) (\<lambda>result.
     api_bind (addr_of a) (\<lambda>aa.
     api_seq (remember_modulus aa q) (
     api_bind (addr_of b) (\<lambda>ab.
     api_seq (remember_modulus ab q) (
     api_bind (addr_of result) (\<lambda>ar.
     api_seq (remember_modulus ar q) (
     api_seq (emit_pp op ar aa ab q)
     (api_return result))))))))"

definition sr_poly_scalar :: "u8 \<Rightarrow> Format \<Rightarrow> Polynomial \<Rightarrow> Scalar \<Rightarrow> u64 \<Rightarrow> Polynomial api" where
  "sr_poly_scalar op fmt a sc q =
     api_bind (make_result a fmt) (\<lambda>result.
     api_bind (addr_of a) (\<lambda>aa.
     api_seq (remember_modulus aa q) (
     api_bind (addr_of result) (\<lambda>ar.
     api_seq (remember_modulus ar q) (
     api_bind (scalar_int sc) (\<lambda>imm.
     api_seq (emit_ps op ar aa imm q)
     (api_return result)))))))"

definition sr_unary :: "u8 \<Rightarrow> Format \<Rightarrow> Polynomial \<Rightarrow> u64 \<Rightarrow> Polynomial api" where
  "sr_unary op fmt a q =
     api_bind (make_result a fmt) (\<lambda>result.
     api_bind (addr_of a) (\<lambda>aa.
     api_seq (remember_modulus aa q) (
     api_bind (addr_of result) (\<lambda>ar.
     api_seq (remember_modulus ar q) (
     api_seq (emit_un op ar aa q)
     (api_return result))))))"

definition sr_binary_ni :: "u8 \<Rightarrow> Polynomial \<Rightarrow> Polynomial \<Rightarrow> Polynomial api" where
  "sr_binary_ni op a b =
     api_bind (make_result_like a) (\<lambda>result.
     api_bind (addr_of result) (\<lambda>ar.
     api_bind (addr_of a) (\<lambda>aa.
     api_bind (addr_of b) (\<lambda>ab.
     api_seq (emit_pp_ni op ar aa ab)
     (api_return result)))))"

definition sr_poly_scalar_ni :: "u8 \<Rightarrow> Format \<Rightarrow> Polynomial \<Rightarrow> Scalar \<Rightarrow> Polynomial api" where
  "sr_poly_scalar_ni op fmt a sc =
     api_bind (make_result a fmt) (\<lambda>result.
     api_bind (addr_of result) (\<lambda>ar.
     api_bind (addr_of a) (\<lambda>aa.
     api_bind (scalar_fp sc) (\<lambda>imm.
     api_seq (emit_ps_ni op ar aa imm)
     (api_return result)))))"

definition sr_unary_ni :: "u8 \<Rightarrow> Format \<Rightarrow> Polynomial \<Rightarrow> Polynomial api" where
  "sr_unary_ni op fmt a =
     api_bind (make_result a fmt) (\<lambda>result.
     api_bind (addr_of result) (\<lambda>ar.
     api_bind (addr_of a) (\<lambda>aa.
     api_seq (emit_un_ni op ar aa)
     (api_return result))))"

section \<open>Baseline instructions\<close>

definition sr_addp :: "Polynomial \<Rightarrow> Polynomial \<Rightarrow> u64 \<Rightarrow> Polynomial api" where
  "sr_addp a b q = sr_binary FH_SR_ADDP a b q"

definition bind_modulus :: "Polynomial \<Rightarrow> u64 \<Rightarrow> unit api" where
  "bind_modulus p q = api_bind (addr_of p) (\<lambda>a. remember_modulus a q)"

definition sr_addps :: "Polynomial \<Rightarrow> Scalar \<Rightarrow> u64 \<Rightarrow> Polynomial api" where
  "sr_addps a sc q = sr_poly_scalar FH_SR_ADDPS (format_of a) a sc q"

definition sr_addps_coeff :: "Polynomial \<Rightarrow> Scalar \<Rightarrow> u64 \<Rightarrow> Polynomial api" where
  "sr_addps_coeff a sc q = sr_poly_scalar FH_SR_ADDPS_COEFF Coefficient a sc q"

definition sr_negp :: "Polynomial \<Rightarrow> u64 \<Rightarrow> Polynomial api" where
  "sr_negp a q = sr_unary FH_SR_NEGP (format_of a) a q"

definition sr_subp :: "Polynomial \<Rightarrow> Polynomial \<Rightarrow> u64 \<Rightarrow> Polynomial api" where
  "sr_subp a b q = sr_binary FH_SR_SUBP a b q"

definition sr_subps :: "Polynomial \<Rightarrow> Scalar \<Rightarrow> u64 \<Rightarrow> Polynomial api" where
  "sr_subps a sc q = sr_poly_scalar FH_SR_SUBPS (format_of a) a sc q"

definition sr_subps_coeff :: "Polynomial \<Rightarrow> Scalar \<Rightarrow> u64 \<Rightarrow> Polynomial api" where
  "sr_subps_coeff a sc q = sr_poly_scalar FH_SR_SUBPS_COEFF Coefficient a sc q"

definition sr_mulp :: "Polynomial \<Rightarrow> Polynomial \<Rightarrow> u64 \<Rightarrow> Polynomial api" where
  "sr_mulp a b q = sr_binary FH_SR_MULP a b q"

definition sr_mulps :: "Polynomial \<Rightarrow> Scalar \<Rightarrow> u64 \<Rightarrow> Polynomial api" where
  "sr_mulps a sc q = sr_poly_scalar FH_SR_MULPS (format_of a) a sc q"

definition require_ntt_root :: "u64 \<Rightarrow> u64 \<Rightarrow> u64 \<Rightarrow> unit api" where
  "require_ntt_root omg ring_dim q =
     (if \<not> is_primitive_2n_root omg ring_dim q then api_throw InvalidArgument else api_return ())"

definition require_ntt_roots :: "MRP \<Rightarrow> u64 list \<Rightarrow> unit api" where
  "require_ntt_roots x omegas =
     (if length omegas \<noteq> length (mrp_base x) then api_throw InvalidArgument
      else api_fold
             (\<lambda>(q, omg) _. api_bind (mrp_at x q) (\<lambda>p. require_ntt_root omg (ring_dimension_of p) q))
             (zip (mrp_base x) omegas) ())"

definition record_ntt :: "u8 \<Rightarrow> Polynomial \<Rightarrow> u64 \<Rightarrow> u64 option \<Rightarrow> Polynomial api" where
  "record_ntt op a q omg =
     api_bind (make_result a (if op = FH_SR_NTT then Evaluation else Coefficient)) (\<lambda>result.
     api_bind (addr_of a) (\<lambda>aa.
     api_seq (remember_modulus aa q) (
     api_bind (addr_of result) (\<lambda>ar.
     api_seq (remember_modulus ar q) (
     api_seq (emit_ntt op ar aa q omg)
     (api_return result))))))"

definition sr_ntt :: "Polynomial \<Rightarrow> u64 \<Rightarrow> Polynomial api" where
  "sr_ntt a q = record_ntt FH_SR_NTT a q None"

definition sr_ntt_with_root :: "Polynomial \<Rightarrow> u64 \<Rightarrow> u64 \<Rightarrow> Polynomial api" where
  "sr_ntt_with_root a q omg =
     api_seq (require_ntt_root omg (ring_dimension_of a) q) (record_ntt FH_SR_NTT a q (Some omg))"

definition sr_intt :: "Polynomial \<Rightarrow> u64 \<Rightarrow> Polynomial api" where
  "sr_intt a q = record_ntt FH_SR_INTT a q None"

definition sr_intt_with_root :: "Polynomial \<Rightarrow> u64 \<Rightarrow> u64 \<Rightarrow> Polynomial api" where
  "sr_intt_with_root a q omg =
     api_seq (require_ntt_root omg (ring_dimension_of a) q) (record_ntt FH_SR_INTT a q (Some omg))"

text \<open>The source operands and the signs of a permutation are not recorded.\<close>

definition sr_permute :: "Polynomial \<Rightarrow> u64 list \<Rightarrow> i32 list \<Rightarrow> u64 \<Rightarrow> Polynomial api" where
  "sr_permute a srcs signs q = sr_unary FH_SR_PERMUTE (format_of a) a q"

definition halt :: "unit api" where
  "halt = api_emit (ir FH_HALT 0 0)"

section \<open>Optional operations\<close>

definition sr_addp_ni :: "Polynomial \<Rightarrow> Polynomial \<Rightarrow> Polynomial api" where
  "sr_addp_ni a b = sr_binary_ni FH_SR_ADDP_NI a b"

definition sr_addps_ni :: "Polynomial \<Rightarrow> Scalar \<Rightarrow> Polynomial api" where
  "sr_addps_ni a sc = sr_poly_scalar_ni FH_SR_ADDPS_NI (format_of a) a sc"

definition sr_addps_coeff_ni :: "Polynomial \<Rightarrow> Scalar \<Rightarrow> Polynomial api" where
  "sr_addps_coeff_ni a sc = sr_poly_scalar_ni FH_SR_ADDPS_COEFF_NI Coefficient a sc"

definition sr_negp_ni :: "Polynomial \<Rightarrow> Polynomial api" where
  "sr_negp_ni a = sr_unary_ni FH_SR_NEGP_NI (format_of a) a"

definition sr_subp_ni :: "Polynomial \<Rightarrow> Polynomial \<Rightarrow> Polynomial api" where
  "sr_subp_ni a b = sr_binary_ni FH_SR_SUBP_NI a b"

definition sr_subps_ni :: "Polynomial \<Rightarrow> Scalar \<Rightarrow> Polynomial api" where
  "sr_subps_ni a sc = sr_poly_scalar_ni FH_SR_SUBPS_NI (format_of a) a sc"

definition sr_subps_coeff_ni :: "Polynomial \<Rightarrow> Scalar \<Rightarrow> Polynomial api" where
  "sr_subps_coeff_ni a sc = sr_poly_scalar_ni FH_SR_SUBPS_COEFF_NI Coefficient a sc"

definition sr_mulp_ni :: "Polynomial \<Rightarrow> Polynomial \<Rightarrow> Polynomial api" where
  "sr_mulp_ni a b = sr_binary_ni FH_SR_MULP_NI a b"

definition sr_mulps_ni :: "Polynomial \<Rightarrow> Scalar \<Rightarrow> Polynomial api" where
  "sr_mulps_ni a sc = sr_poly_scalar_ni FH_SR_MULPS_NI (format_of a) a sc"

definition sr_ft :: "Polynomial \<Rightarrow> Polynomial api" where
  "sr_ft a = sr_unary_ni FH_SR_FT Evaluation a"

definition sr_ift :: "Polynomial \<Rightarrow> Polynomial api" where
  "sr_ift a = sr_unary_ni FH_SR_IFT Coefficient a"

text \<open>The unfinished operations allocate their result and record nothing.\<close>

definition sr_coeff_extract :: "Polynomial \<Rightarrow> u64 \<Rightarrow> Scalar api" where
  "sr_coeff_extract p i = scalar_from_int 0"

definition sr_coeff_assign :: "Polynomial \<Rightarrow> u64 \<Rightarrow> Scalar \<Rightarrow> Polynomial api" where
  "sr_coeff_assign p i val = make_result_like p"

definition sr_torus_mod_reduce :: "Polynomial \<Rightarrow> f64 \<Rightarrow> Polynomial api" where
  "sr_torus_mod_reduce p c = make_result_like p"

definition sr_sample_extract :: "SRPArray \<Rightarrow> u64 \<Rightarrow> u64 list" where
  "sr_sample_extract rlwe lwe_dim = replicate (unat (lwe_dim + 1)) 0"

section \<open>Automorphisms\<close>

definition sr_automorph_eval :: "Polynomial \<Rightarrow> u64 \<Rightarrow> Polynomial api" where
  "sr_automorph_eval x kk =
     api_bind (make_result_like x) (\<lambda>result.
     api_bind (addr_of result) (\<lambda>ar.
     api_bind (addr_of x) (\<lambda>ax.
     api_bind (midx 0xFFFFFFFFFFFFFFFF) (\<lambda>m.
     api_seq (api_emit ((ir FH_SR_AUTOMORPH_EVAL ar ax)\<lparr>k_op := Some kk, modulus := Some (ucast m)\<rparr>))
     (api_return result)))))"

definition sr_automorph_eval_q :: "Polynomial \<Rightarrow> u64 \<Rightarrow> u64 \<Rightarrow> Polynomial api" where
  "sr_automorph_eval_q x kk q =
     api_bind (sr_automorph_eval x kk) (\<lambda>result.
     api_bind (addr_of x) (\<lambda>ax.
     api_seq (remember_modulus ax q) (
     api_bind (addr_of result) (\<lambda>ar.
     api_seq (remember_modulus ar q)
     (api_return result)))))"

definition sr_automorph_coeff :: "Polynomial \<Rightarrow> u64 \<Rightarrow> u64 \<Rightarrow> Polynomial api" where
  "sr_automorph_coeff x kk q =
     api_bind (make_result x Coefficient) (\<lambda>result.
     api_bind (addr_of x) (\<lambda>ax.
     api_seq (remember_modulus ax q) (
     api_bind (addr_of result) (\<lambda>ar.
     api_seq (remember_modulus ar q) (
     api_bind (midx q) (\<lambda>m.
     api_seq (api_emit ((ir FH_SR_AUTOMORPH_COEFF ar ax)\<lparr>k_op := Some kk, modulus := Some (ucast m)\<rparr>))
     (api_return result)))))))"

definition sr_rot_automorph_coeff :: "Polynomial \<Rightarrow> u64 \<Rightarrow> u64 \<Rightarrow> Polynomial api" where
  "sr_rot_automorph_coeff x off q =
     api_bind (make_result x Coefficient) (\<lambda>result.
     api_bind (addr_of x) (\<lambda>ax.
     api_seq (remember_modulus ax q) (
     api_bind (addr_of result) (\<lambda>ar.
     api_seq (remember_modulus ar q) (
     api_bind (midx q) (\<lambda>m.
     api_seq (api_emit
       ((ir FH_SR_ROT_AUTOMORPH_COEFF ar ax)\<lparr>offset := Some off, modulus := Some (ucast m)\<rparr>))
     (api_return result)))))))"

definition sr_batch_ft :: "SRPArray \<Rightarrow> SRPArray api" where
  "sr_batch_ft x = api_map sr_ft x"

definition sr_batch_ift :: "SRPArray \<Rightarrow> SRPArray api" where
  "sr_batch_ift x = api_map sr_ift x"

section \<open>Multi-residue arithmetic\<close>

text \<open>
  \<open>MRP z(base, x[base[0]].ring_dimension()); for (auto q : base) z[q] = ...\<close>.  An unchecked
  \<open>base[0]\<close> of an empty base is an access out of bounds; the constructor gives every residue of \<open>z\<close> a
  zero polynomial, and with it an address, before the loop replaces it.
\<close>

definition mr_start :: "MRP \<Rightarrow> MRP api" where
  "mr_start x =
     (case mrp_base x of
        [] \<Rightarrow> api_throw OutOfBoundsAccess
      | q # _ \<Rightarrow> api_bind (mrp_at x q) (\<lambda>p. MRP_new (mrp_base x) (ring_dimension_of p)))"

definition mr_each :: "(u64 \<Rightarrow> Polynomial api) \<Rightarrow> MRP \<Rightarrow> MRP api" where
  "mr_each f x =
     api_bind (mr_start x)
       (api_fold (\<lambda>q z. api_bind (f q) (mrp_put z q)) (mrp_base x))"

definition mr_binary :: "(Polynomial \<Rightarrow> Polynomial \<Rightarrow> u64 \<Rightarrow> Polynomial api) \<Rightarrow> MRP \<Rightarrow> MRP \<Rightarrow> MRP api" where
  "mr_binary op x y =
     mr_each (\<lambda>q. api_bind (mrp_at x q) (\<lambda>a. api_bind (mrp_at y q) (\<lambda>b. op a b q))) x"

definition mr_scalar :: "(Polynomial \<Rightarrow> Scalar \<Rightarrow> u64 \<Rightarrow> Polynomial api) \<Rightarrow> MRP \<Rightarrow> MRS \<Rightarrow> MRP api" where
  "mr_scalar op x sc =
     mr_each (\<lambda>q. api_bind (mrp_at x q) (\<lambda>a. api_bind (mrs_at sc q) (\<lambda>b. op a b q))) x"

definition mr_unary :: "(Polynomial \<Rightarrow> u64 \<Rightarrow> Polynomial api) \<Rightarrow> MRP \<Rightarrow> MRP api" where
  "mr_unary op x = mr_each (\<lambda>q. api_bind (mrp_at x q) (\<lambda>a. op a q)) x"

definition mr_addp :: "MRP \<Rightarrow> MRP \<Rightarrow> MRP api" where "mr_addp = mr_binary sr_addp"

definition mr_subp :: "MRP \<Rightarrow> MRP \<Rightarrow> MRP api" where "mr_subp = mr_binary sr_subp"

definition mr_mulp :: "MRP \<Rightarrow> MRP \<Rightarrow> MRP api" where "mr_mulp = mr_binary sr_mulp"

definition mr_mulps :: "MRP \<Rightarrow> MRS \<Rightarrow> MRP api" where "mr_mulps = mr_scalar sr_mulps"

definition mr_addps :: "MRP \<Rightarrow> MRS \<Rightarrow> MRP api" where "mr_addps = mr_scalar sr_addps"

definition mr_subps :: "MRP \<Rightarrow> MRS \<Rightarrow> MRP api" where "mr_subps = mr_scalar sr_subps"

definition mr_ntt :: "MRP \<Rightarrow> MRP api" where "mr_ntt = mr_unary sr_ntt"

definition mr_intt :: "MRP \<Rightarrow> MRP api" where "mr_intt = mr_unary sr_intt"

definition record_mr_ntt :: "u8 \<Rightarrow> MRP \<Rightarrow> u64 list \<Rightarrow> MRP api" where
  "record_mr_ntt op x omegas =
     api_bind (mr_start x)
       (api_fold
          (\<lambda>(q, omg) z.
             api_bind (mrp_at x q) (\<lambda>a.
             api_bind (record_ntt op a q (Some omg)) (mrp_put z q)))
          (zip (mrp_base x) omegas))"

definition mr_ntt_with_roots :: "MRP \<Rightarrow> u64 list \<Rightarrow> MRP api" where
  "mr_ntt_with_roots x omegas = api_seq (require_ntt_roots x omegas) (record_mr_ntt FH_SR_NTT x omegas)"

definition mr_intt_with_roots :: "MRP \<Rightarrow> u64 list \<Rightarrow> MRP api" where
  "mr_intt_with_roots x omegas = api_seq (require_ntt_roots x omegas) (record_mr_ntt FH_SR_INTT x omegas)"

definition mr_automorph_eval :: "MRP \<Rightarrow> u64 \<Rightarrow> MRP api" where
  "mr_automorph_eval x kk = mr_unary (\<lambda>a. sr_automorph_eval_q a kk) x"

definition mr_rot_automorph_coeff :: "MRP \<Rightarrow> u64 \<Rightarrow> MRP api" where
  "mr_rot_automorph_coeff x off = mr_unary (\<lambda>a. sr_rot_automorph_coeff a off) x"

definition mr_zeros :: "ModuliBase \<Rightarrow> u64 \<Rightarrow> MRP api" where
  "mr_zeros target_base ring_dim = MRP_new target_base ring_dim"

section \<open>Residue manipulation\<close>

text \<open>\<open>for (auto q : base) impl->residues_[q] = x[q]\<close>\<close>

definition copy_residues :: "MRP \<Rightarrow> ModuliBase \<Rightarrow> (u64 \<rightharpoonup> Polynomial) \<Rightarrow> (u64 \<rightharpoonup> Polynomial) api" where
  "copy_residues x = api_fold (\<lambda>q m. api_bind (mrp_at x q) (\<lambda>p. api_return (m(q \<mapsto> p))))"

definition mr_append_srp :: "MRP \<Rightarrow> Polynomial \<Rightarrow> u64 \<Rightarrow> MRP api" where
  "mr_append_srp x a q_a =
     api_bind (copy_residues x (mrp_base x) Map.empty)
       (\<lambda>m. api_return \<lparr>mrp_base = mrp_base x @ [q_a], mrp_residues = m(q_a \<mapsto> a),
                        mrp_ring_dim = ring_dimension_of a\<rparr>)"

definition mr_union :: "MRP \<Rightarrow> MRP \<Rightarrow> MRP api" where
  "mr_union x y =
     api_bind (copy_residues x (mrp_base x) Map.empty) (\<lambda>m.
     api_bind (copy_residues y (mrp_base y) m)
       (\<lambda>m'. api_return \<lparr>mrp_base = mrp_base x @ mrp_base y, mrp_residues = m',
                        mrp_ring_dim = mrp_ring_dim x\<rparr>))"

definition mr_subset :: "MRP \<Rightarrow> ModuliBase \<Rightarrow> MRP api" where
  "mr_subset x subbase =
     api_bind (copy_residues x subbase Map.empty)
       (\<lambda>m. api_return \<lparr>mrp_base = subbase, mrp_residues = m, mrp_ring_dim = mrp_ring_dim x\<rparr>)"

section \<open>Array gadgets\<close>

definition mrpa_dotproduct :: "MRPArray \<Rightarrow> MRPArray \<Rightarrow> MRP api" where
  "mrpa_dotproduct x y =
     (if \<not> (length x = length y \<and> length x > 0) then api_throw AssertionFailed
      else
        api_bind (mr_mulp (x ! 0) (y ! 0))
          (api_fold (\<lambda>(a, b) z. api_bind (mr_mulp a b) (mr_addp z)) (zip (tl x) (tl y))))"

definition gadget_decomp :: "Polynomial \<Rightarrow> u64 \<Rightarrow> u64 \<Rightarrow> SRPArray api" where
  "gadget_decomp x base n_levels = api_map (\<lambda>_. make_result_like x) [0..<unat n_levels]"

definition gadget_decomp_pow2 :: "Polynomial \<Rightarrow> u64 \<Rightarrow> u64 \<Rightarrow> SRPArray api" where
  "gadget_decomp_pow2 x log_base n_levels = api_map (\<lambda>_. make_result_like x) [0..<unat n_levels]"

text \<open>\<open>r = sr_addp_ni(r, sr_mulp_ni(decomp[level], gsw[j]))\<close>\<close>

definition gsw_step :: "SRPArray \<Rightarrow> SRPArray \<Rightarrow> nat \<Rightarrow> nat \<Rightarrow> Polynomial \<Rightarrow> Polynomial api" where
  "gsw_step decomp gsw level j r =
     api_bind (arr_at decomp level) (\<lambda>d.
     api_bind (arr_at gsw j) (\<lambda>g.
     api_bind (sr_mulp_ni d g) (\<lambda>t. sr_addp_ni r t)))"

definition gsw_rlwe_ext_prod :: "SRPArray \<Rightarrow> SRPArray \<Rightarrow> u64 \<Rightarrow> u64 \<Rightarrow> SRPArray api" where
  "gsw_rlwe_ext_prod gsw rlwe_in l base =
     api_bind (arr_at rlwe_in 0) (\<lambda>in0.
     api_bind (gadget_decomp in0 base l) (\<lambda>decomp0.
     api_bind (arr_at rlwe_in 1) (\<lambda>in1.
     api_bind (gadget_decomp in1 base l) (\<lambda>decomp1.
     api_bind (sr_batch_ft decomp0) (\<lambda>decomp0_ft.
     api_bind (sr_batch_ft decomp1) (\<lambda>decomp1_ft.
     api_bind (zeros_ni (ring_dimension_of in0) Evaluation) (\<lambda>r0.
     api_bind (zeros_ni (ring_dimension_of in0) Evaluation) (\<lambda>r1.
     api_bind
       (api_fold
          (\<lambda>level (r0, r1).
             api_bind (gsw_step decomp0_ft gsw level (4 * level) r0) (\<lambda>r0.
             api_bind (gsw_step decomp1_ft gsw level (4 * level + 1) r0) (\<lambda>r0.
             api_bind (gsw_step decomp0_ft gsw level (4 * level + 2) r1) (\<lambda>r1.
             api_bind (gsw_step decomp1_ft gsw level (4 * level + 3) r1) (\<lambda>r1.
             api_return (r0, r1))))))
          [0..<unat l] (r0, r1)) (\<lambda>(r0, r1).
     api_bind (sr_ift r0) (\<lambda>r0.
     api_bind (sr_ift r1) (\<lambda>r1.
     api_return [r0, r1])))))))))))"

definition ckks_bootstrap :: "MRPArray \<Rightarrow> MRPArray \<Rightarrow> MRPArray" where
  "ckks_bootstrap ct_in aux_data = ct_in"

end
