(* ===== verification/FbcArith.thy ===== *)
theory FbcArith
  imports Checks
begin

text \<open>
  The 64-bit modular arithmetic of the base-conversion gadgets (\<open>src/fhetch_api.cpp\<close>, the anonymous
  namespace before \<open>fast_base_convert\<close>) and its correctness: exponentiation by squaring, the inverse
  by Fermat's little theorem, and the constants of the Chinese remainder decomposition.
  A reduction modulo zero is the division by zero of the first \<open>1U % m\<close> or \<open>a % p\<close> of the function.
\<close>

section \<open>The functions\<close>

definition mulmod_u64 :: "u64 \<Rightarrow> u64 \<Rightarrow> u64 \<Rightarrow> u64" where
  "mulmod_u64 a b m = mulmod a b m"

text \<open>The loop \<open>while (e > 0)\<close>: the exponent is halved in each round.\<close>

function powmod_loop :: "u64 \<Rightarrow> u64 \<Rightarrow> u64 \<Rightarrow> u64 \<Rightarrow> u64" where
  "powmod_loop r a e m =
     (if e > 0 then
        powmod_loop (if (e AND 1) \<noteq> 0 then mulmod_u64 r a m else r) (mulmod_u64 a a m) (drop_bit 1 e) m
      else r)"
  by pat_completeness auto
termination
proof (relation "measure (\<lambda>(r, a, e, m). unat e)")
  fix r a e m :: u64
  assume "e > 0"
  then have "0 < unat e" by (simp add: word_gt_0_no unat_gt_0)
  then have "unat (drop_bit 1 e) < unat e"
    by (simp add: unat_div drop_bit_Suc)
  then show "((if (e AND 1) \<noteq> 0 then mulmod_u64 r a m else r, mulmod_u64 a a m, drop_bit 1 e, m), r, a, e, m)
    \<in> measure (\<lambda>(r, a, e, m). unat e)" by simp
qed simp

declare powmod_loop.simps [simp del]

definition powmod_u64 :: "u64 \<Rightarrow> u64 \<Rightarrow> u64 \<Rightarrow> cpp_error + u64" where
  "powmod_u64 a e m =
     (if m = 0 then Inl DivisionByZero else Inr (powmod_loop (1 mod m) (a mod m) e m))"

definition modinv_prime :: "u64 \<Rightarrow> u64 \<Rightarrow> cpp_error + u64" where
  "modinv_prime a p = (if p = 0 then Inl DivisionByZero else powmod_u64 (a mod p) (p - 2) p)"

definition prod_mod :: "u64 list \<Rightarrow> u64 \<Rightarrow> cpp_error + u64" where
  "prod_mod base m =
     (if m = 0 then Inl DivisionByZero
      else Inr (fold (\<lambda>q r. mulmod_u64 r (q mod m) m) base (1 mod m)))"

definition prod_mod_skip_index :: "u64 list \<Rightarrow> nat \<Rightarrow> u64 \<Rightarrow> cpp_error + u64" where
  "prod_mod_skip_index base skip m =
     (if m = 0 then Inl DivisionByZero
      else Inr (fold (\<lambda>i r. if i = skip then r else mulmod_u64 r (base ! i mod m) m)
                  [0..<length base] (1 mod m)))"

definition q_hat_inv_mod_q :: "u64 list \<Rightarrow> cpp_error + u64 list" where
  "q_hat_inv_mod_q source_base =
     map_res
       (\<lambda>i. res_bind (prod_mod_skip_index source_base i (source_base ! i))
              (\<lambda>d. modinv_prime d (source_base ! i)))
       [0..<length source_base]"

definition q_hat_mod_p :: "u64 list \<Rightarrow> u64 \<Rightarrow> cpp_error + u64 list" where
  "q_hat_mod_p source_base target_p =
     map_res (\<lambda>i. prod_mod_skip_index source_base i target_p) [0..<length source_base]"

definition P_inv_mod_q :: "u64 list \<Rightarrow> u64 list \<Rightarrow> cpp_error + u64 list" where
  "P_inv_mod_q rescale_base target_base =
     map_res (\<lambda>q. res_bind (prod_mod rescale_base q) (\<lambda>d. modinv_prime d q)) target_base"

definition target_after_rescale :: "u64 list \<Rightarrow> u64 list \<Rightarrow> u64 list" where
  "target_after_rescale source_base rescale_base = filter (\<lambda>q. q \<notin> set rescale_base) source_base"

text \<open>The two immediates of the centering block.\<close>

definition half_q :: "u64 \<Rightarrow> u64" where
  "half_q q_i = (q_i - 1) div 2"

definition neg_half :: "u64 \<Rightarrow> u64 \<Rightarrow> cpp_error + u64" where
  "neg_half q_i target_p =
     (if target_p = 0 then Inl DivisionByZero
      else let x = half_q q_i mod target_p in Inr (if x = 0 then 0 else target_p - x))"

section \<open>Exponentiation\<close>

lemma u64_pos: "0 < (m :: u64) \<Longrightarrow> 0 < unat m"
  by (simp add: word_less_nat_alt)

lemma unat_mulmod_u64: "0 < m \<Longrightarrow> unat (mulmod_u64 a b m) = unat a * unat b mod unat m"
  by (simp add: mulmod_u64_def unat_mulmod)

lemma mulmod_u64_less: "0 < m \<Longrightarrow> mulmod_u64 a b m < m"
proof -
  assume "0 < m"
  then have "unat (mulmod_u64 a b m) < unat m"
    by (simp add: unat_mulmod_u64 u64_pos)
  then show ?thesis by (simp add: word_less_nat_alt)
qed

lemma unat_halve: "unat (e :: u64) = 2 * unat (drop_bit 1 e) + (if (e AND 1) \<noteq> 0 then 1 else 0)"
proof -
  have "(e AND 1) \<noteq> 0 \<longleftrightarrow> odd (unat e)"
    by (simp add: and_one_eq odd_iff_mod_2_eq_one unat_mod flip: unat_eq_zero)
  then show ?thesis by (auto simp: unat_div drop_bit_Suc)
qed

lemma mult_power_mod: "(c :: nat) * (a mod m) ^ n mod m = c * a ^ n mod m"
  by (metis mod_mult_right_eq power_mod)

lemma powmod_loop_correct:
  assumes m: "0 < m" and "r < m"
  shows "unat (powmod_loop r a e m) = unat r * unat a ^ unat e mod unat m"
  using assms
proof (induction r a e m rule: powmod_loop.induct)
  case (1 r a e m)
  show ?case
  proof (cases "e = 0")
    case True
    then show ?thesis using "1.prems" by (simp add: powmod_loop.simps word_less_nat_alt)
  next
    case False
    define h where "h = unat (drop_bit 1 e)"
    define b where "b \<longleftrightarrow> (e AND 1) \<noteq> 0"
    let ?r = "if b then mulmod_u64 r a m else r"
    have e: "unat e = 2 * h + (if b then 1 else 0)" unfolding h_def b_def by (rule unat_halve)
    have "?r < m" using "1.prems" by (simp add: mulmod_u64_less)
    moreover have "e > 0" using False by (simp add: word_neq_0_conv)
    ultimately have "unat (powmod_loop r a e m) = unat ?r * unat (mulmod_u64 a a m) ^ h mod unat m"
      using "1.IH" "1.prems"(1) by (simp only: powmod_loop.simps [of r a e m] h_def b_def if_True)
    also have "\<dots> = unat ?r * (unat a * unat a) ^ h mod unat m"
      by (simp only: unat_mulmod_u64 [OF "1.prems"(1)] mult_power_mod)
    also have "\<dots> = unat r * unat a ^ unat e mod unat m"
      using "1.prems"(1)
      by (simp add: e unat_mulmod_u64 mod_mult_left_eq power_mult power2_eq_square mult.assoc)
    finally show ?thesis .
  qed
qed

lemma powmod_u64_correct:
  assumes "0 < m"
  shows "\<exists>w. powmod_u64 a e m = Inr w \<and> unat w = unat a ^ unat e mod unat m"
proof -
  have "unat (powmod_loop (1 mod m) (a mod m) e m) = unat (1 mod m) * unat (a mod m) ^ unat e mod unat m"
    using assms by (intro powmod_loop_correct word_mod_less_divisor)
  also have "\<dots> = unat a ^ unat e mod unat m"
    by (simp add: unat_mod mod_mult_left_eq power_mod)
  finally show ?thesis using assms by (auto simp: powmod_u64_def)
qed

section \<open>Fermat's little theorem\<close>

definition is_prime :: "nat \<Rightarrow> bool" where
  "is_prime p \<longleftrightarrow> 1 < p \<and> (\<forall>d \<in> {2..<p}. \<not> d dvd p)"

lemma is_prime_coprime:
  assumes "is_prime p" and "\<not> p dvd a"
  shows "coprime a p"
proof -
  let ?g = "gcd a p"
  have "?g dvd p" "?g \<noteq> 0" using assms(1) by (auto simp: is_prime_def)
  moreover have "?g \<le> p" using assms(1) by (intro dvd_imp_le) (auto simp: is_prime_def)
  ultimately have "?g = 1 \<or> ?g = p"
    using assms(1) by (metis Suc_1 Suc_leI atLeastLessThan_iff is_prime_def le_neq_implies_less less_one nat_neq_iff)
  moreover have "?g \<noteq> p" using assms(2) by (metis gcd_dvd1)
  ultimately show ?thesis by (simp add: coprime_iff_gcd_eq_1)
qed

lemma prime_dvd_choose:
  assumes "is_prime p" and "0 < i" and "i < p"
  shows "p dvd (p choose i)"
proof -
  obtain j p' where "i = Suc j" "p = Suc p'" using assms by (metis Suc_pred is_prime_def less_imp_Suc_add gr0_conv_Suc)
  then have "i * (p choose i) = p * (p' choose j)" using Suc_times_binomial [of j p'] by simp
  then have "p dvd i * (p choose i)" by simp
  moreover have "coprime p i"
    using is_prime_coprime [OF assms(1), of i] assms(2,3) nat_dvd_not_less by (auto simp: coprime_commute)
  ultimately show ?thesis by (simp add: coprime_dvd_mult_right_iff)
qed

lemma prime_power_Suc:
  assumes "is_prime p"
  shows "(a + 1) ^ p mod p = (a ^ p + 1) mod p"
proof -
  have p: "0 < p" using assms by (simp add: is_prime_def)
  have "(a + 1) ^ p = (\<Sum>i\<le>p. (p choose i) * a ^ i)" using binomial_ring [of a 1 p] by (simp add: atMost_atLeast0)
  also have "\<dots> = 1 + a ^ p + (\<Sum>i\<in>{0<..<p}. (p choose i) * a ^ i)"
  proof -
    have "{..p} = insert 0 (insert p {0<..<p})" using p by auto
    then show ?thesis using p by simp
  qed
  also have "\<dots> mod p = (a ^ p + 1) mod p"
  proof -
    have "p dvd (\<Sum>i\<in>{0<..<p}. (p choose i) * a ^ i)"
      by (intro dvd_sum) (simp add: prime_dvd_choose [OF assms] dvd_mult2)
    then show ?thesis by (auto elim!: dvdE)
  qed
  finally show ?thesis .
qed

lemma fermat_power: "is_prime p \<Longrightarrow> a ^ p mod p = a mod p"
proof (induction a)
  case 0
  then show ?case by (simp add: is_prime_def zero_power)
next
  case (Suc a)
  then show ?case using prime_power_Suc [of p a] by (metis Suc_eq_plus1 mod_add_left_eq)
qed

lemma fermat_inverse:
  assumes p: "is_prime p" and a: "\<not> p dvd a"
  shows "a * a ^ (p - 2) mod p = 1"
proof -
  have "p = Suc (Suc (p - 2))" using p by (auto simp: is_prime_def)
  then have "a * (a * a ^ (p - 2)) mod p = a * 1 mod p"
    using fermat_power [OF p, of a] by (metis mult.right_neutral power_Suc)
  moreover have "1 \<le> a * a ^ (p - 2)" using a by (cases "a = 0") (simp_all add: Suc_le_eq)
  ultimately have "p dvd a * (a * a ^ (p - 2) - 1)"
    by (simp add: mod_eq_dvd_iff_nat diff_mult_distrib2)
  then have "p dvd a * a ^ (p - 2) - 1"
    using is_prime_coprime [OF p a] by (simp add: coprime_dvd_mult_right_iff coprime_commute)
  then have "a * a ^ (p - 2) mod p = 1 mod p"
    using \<open>1 \<le> a * a ^ (p - 2)\<close> by (metis mod_eq_dvd_iff_nat)
  then show ?thesis using p by (simp add: is_prime_def)
qed

section \<open>Inverses and products\<close>

lemma modinv_prime_correct:
  assumes p: "is_prime (unat p)" and a: "\<not> unat p dvd unat a"
  shows "\<exists>i. modinv_prime a p = Inr i \<and> i < p \<and> unat a * unat i mod unat p = 1"
proof -
  have p0: "0 < p" and p2: "2 \<le> p"
    using p by (auto simp: is_prime_def word_less_nat_alt word_le_nat_alt)
  obtain w where w: "powmod_u64 (a mod p) (p - 2) p = Inr w"
    "unat w = unat (a mod p) ^ unat (p - 2) mod unat p"
    using powmod_u64_correct [OF p0] by blast
  have "unat (p - 2) = unat p - 2" using p2 by (simp add: unat_sub)
  then have uw: "unat w = unat a ^ (unat p - 2) mod unat p" by (simp add: w(2) unat_mod power_mod)
  then have "unat a * unat w mod unat p = 1"
    using fermat_inverse [OF p a] by (simp add: mod_mult_right_eq)
  moreover have "w < p" using uw p0 by (simp add: word_less_nat_alt u64_pos)
  ultimately show ?thesis using w(1) p0 by (auto simp: modinv_prime_def)
qed

lemma fold_mulmod:
  assumes m: "0 < m" and "r < m"
  shows "fold (\<lambda>i r. mulmod_u64 r (g i mod m) m) is r < m \<and>
    unat (fold (\<lambda>i r. mulmod_u64 r (g i mod m) m) is r) =
      unat r * prod_list (map (\<lambda>i. unat (g i)) is) mod unat m"
  using assms(2)
proof (induction "is" arbitrary: r)
  case Nil
  then show ?case by (simp add: word_less_nat_alt)
next
  case (Cons i "is")
  have "unat (mulmod_u64 r (g i mod m) m) = unat r * unat (g i) mod unat m"
    by (simp add: unat_mulmod_u64 [OF m] unat_mod mod_mult_right_eq)
  then show ?case
    using Cons.IH [OF mulmod_u64_less [OF m, of r "g i mod m"]]
    by (simp add: mod_mult_left_eq mult.assoc)
qed

lemma fold_skip:
  "fold (\<lambda>i r. if i = skip then r else f i r) is r = fold f (filter (\<lambda>i. i \<noteq> skip) is) r"
  by (induction "is" arbitrary: r) auto

text \<open>The product of a base and the product of all its members but one.\<close>

definition base_prod :: "u64 list \<Rightarrow> nat" where
  "base_prod base = (\<Prod>j<length base. unat (base ! j))"

definition base_prod_but :: "u64 list \<Rightarrow> nat \<Rightarrow> nat" where
  "base_prod_but base i = (\<Prod>j\<in>{..<length base} - {i}. unat (base ! j))"

lemma base_prod_split: "i < length base \<Longrightarrow> base_prod base = unat (base ! i) * base_prod_but base i"
  by (simp add: base_prod_def base_prod_but_def prod.remove)

lemma one_mod_less: "0 < (m :: u64) \<Longrightarrow> 1 mod m < m"
  by (rule word_mod_less_divisor)

lemma prod_mod_correct:
  assumes m: "0 < m"
  shows "\<exists>w. prod_mod base m = Inr w \<and> unat w = base_prod base mod unat m"
proof -
  have "base_prod base = prod_list (map unat base)"
    by (simp add: base_prod_def prod.list_conv_set_nth atLeast0LessThan)
  then show ?thesis
    using fold_mulmod [OF m one_mod_less [OF m], of "\<lambda>q. q" base] m
    by (auto simp: prod_mod_def unat_mod mod_mult_left_eq)
qed

lemma prod_mod_skip_index_correct:
  assumes m: "0 < m"
  shows "\<exists>w. prod_mod_skip_index base i m = Inr w \<and> unat w = base_prod_but base i mod unat m"
proof -
  let ?is = "filter (\<lambda>j. j \<noteq> i) [0..<length base]"
  have "set ?is = {..<length base} - {i}" by auto
  then have "base_prod_but base i = prod_list (map (\<lambda>j. unat (base ! j)) ?is)"
    unfolding base_prod_but_def by (subst prod.distinct_set_conv_list [symmetric]) simp_all
  then show ?thesis
    using fold_mulmod [OF m one_mod_less [OF m], of "(!) base" ?is] m
    by (auto simp: prod_mod_skip_index_def fold_skip unat_mod mod_mult_left_eq)
qed

definition prime_base :: "u64 list \<Rightarrow> bool" where
  "prime_base base \<longleftrightarrow> distinct base \<and> (\<forall>q \<in> set base. is_prime (unat q))"

lemma prime_coprime_distinct:
  assumes "is_prime p" "is_prime q" "p \<noteq> q"
  shows "coprime p q"
proof -
  have "\<not> q dvd p"
    using assms dvd_imp_le [of q p] by (auto simp: is_prime_def)
  then show ?thesis by (rule is_prime_coprime [OF assms(2)])
qed

lemma prime_base_coprime:
  assumes "prime_base base" "i < length base" "j < length base" "i \<noteq> j"
  shows "coprime (unat (base ! i)) (unat (base ! j))"
  using assms by (intro prime_coprime_distinct) (auto simp: prime_base_def nth_eq_iff_index_eq simp flip: word_unat_eq_iff)

lemma base_prod_but_coprime:
  assumes "prime_base base" "i < length base"
  shows "coprime (base_prod_but base i) (unat (base ! i))"
  unfolding base_prod_but_def by (rule prod_coprime_left) (use assms prime_base_coprime in auto)

lemma q_hat_inv_mod_q_correct:
  assumes b: "prime_base base"
  shows "\<exists>qh. q_hat_inv_mod_q base = Inr qh \<and> length qh = length base \<and>
    (\<forall>i < length base. qh ! i < base ! i \<and> base_prod_but base i * unat (qh ! i) mod unat (base ! i) = 1)"
  unfolding q_hat_inv_mod_q_def
proof (rule map_res_upt)
  fix i assume i: "i < length base"
  let ?q = "base ! i"
  have q: "is_prime (unat ?q)" using b i by (simp add: prime_base_def)
  then have q0: "0 < ?q" by (simp add: is_prime_def word_less_nat_alt)
  obtain w where w: "prod_mod_skip_index base i ?q = Inr w" "unat w = base_prod_but base i mod unat ?q"
    using prod_mod_skip_index_correct [OF q0] by blast
  have "\<not> unat ?q dvd base_prod_but base i"
    using coprime_common_divisor [OF base_prod_but_coprime [OF b i], of "unat ?q"] q
    by (auto simp: is_prime_def)
  then have "\<not> unat ?q dvd unat w" using w(2) by (simp add: dvd_mod_iff)
  then obtain v where "modinv_prime w ?q = Inr v" "v < ?q" "unat w * unat v mod unat ?q = 1"
    using modinv_prime_correct [OF q] by blast
  then show "\<exists>y. res_bind (prod_mod_skip_index base i ?q) (\<lambda>d. modinv_prime d ?q) = Inr y \<and>
    y < ?q \<and> base_prod_but base i * unat y mod unat ?q = 1"
    using w by (simp add: mod_mult_left_eq)
qed

lemma q_hat_mod_p_correct:
  assumes p: "0 < p"
  shows "\<exists>qs. q_hat_mod_p base p = Inr qs \<and> length qs = length base \<and>
    (\<forall>i < length base. unat (qs ! i) = base_prod_but base i mod unat p)"
  unfolding q_hat_mod_p_def by (rule map_res_upt) (rule prod_mod_skip_index_correct [OF p])

text \<open>
  \<open>powmod_u64\<close> raises to the power exactly, reports the division by zero for modulus 0 and
  ends for every exponent; for a prime modulus \<open>modinv_prime\<close> returns the canonical inverse of every
  number the prime does not divide.
\<close>

theorem powmod_modinv_correct:
  "(0 < m \<longrightarrow> (\<exists>w. powmod_u64 a e m = Inr w \<and> unat w = unat a ^ unat e mod unat m)) \<and>
   powmod_u64 a e 0 = Inl DivisionByZero \<and>
   (is_prime (unat p) \<and> \<not> unat p dvd unat a \<longrightarrow>
      (\<exists>i. modinv_prime a p = Inr i \<and> i < p \<and> unat a * unat i mod unat p = 1))"
  using powmod_u64_correct modinv_prime_correct by (auto simp: powmod_u64_def)

theorem powmod_modinv_correct_witness:
  "\<exists>w i. powmod_u64 3 200 17 = Inr w \<and> unat w = 3 ^ 200 mod 17 \<and>
     modinv_prime 3 17 = Inr i \<and> 3 * unat i mod 17 = 1"
proof -
  have "is_prime 17" unfolding is_prime_def by code_simp
  then show ?thesis using powmod_modinv_correct [of 17 3 200 17] by auto
qed

end
