(* ===== verification/FbcGadgets.thy ===== *)
theory FbcGadgets
  imports FhetchApi FbcArith
begin

text \<open>
  The base-conversion gadgets of the recording interface (\<open>src/fhetch_api.cpp\<close>): fast base
  conversion in its two variants and two lowering shapes, the CKKS rescale and the digit
  decomposition.  They record single-residue instructions through the functions of \<open>FhetchApi\<close>; the
  constants come from \<open>FbcArith\<close>.  An \<open>assert\<close> that fails is the error \<open>AssertionFailed\<close>, as in the
  debug build that is the default of the build files.
\<close>

datatype FbcVariant = Standard | ReducedNoise

datatype FbcCenterShape = ThreeOp | FourOp

text \<open>\<open>sr_op(a, Scalar::from_int(v), q)\<close>: the scalar takes an address of its own.\<close>

definition mulps_int :: "Polynomial \<Rightarrow> u64 \<Rightarrow> u64 \<Rightarrow> Polynomial api" where
  "mulps_int a v q = api_bind (scalar_from_int v) (\<lambda>sc. sr_mulps a sc q)"

definition addps_int :: "Polynomial \<Rightarrow> u64 \<Rightarrow> u64 \<Rightarrow> Polynomial api" where
  "addps_int a v q = api_bind (scalar_from_int v) (\<lambda>sc. sr_addps a sc q)"

definition prescale_by_q_hat :: "MRP \<Rightarrow> u64 list \<Rightarrow> Polynomial list api" where
  "prescale_by_q_hat x q_hat =
     api_map (\<lambda>(q, h). api_bind (mrp_at x q) (\<lambda>a. mulps_int a h q)) (zip (mrp_base x) q_hat)"

definition center_mod_q_into_p :: "Polynomial \<Rightarrow> u64 \<Rightarrow> u64 \<Rightarrow> FbcCenterShape \<Rightarrow> Polynomial api" where
  "center_mod_q_into_p scaled_i q_i target_p shape =
     api_bind (api_lift (neg_half q_i target_p)) (\<lambda>nh.
     api_bind (if shape = FourOp then mulps_int scaled_i 1 q_i else api_return scaled_i) (\<lambda>shift_in.
     api_bind (addps_int shift_in (half_q q_i) q_i) (\<lambda>shifted.
     api_bind (mulps_int shifted 1 target_p) (\<lambda>rebased.
     addps_int rebased nh target_p))))"

definition fbc_term ::
  "Polynomial \<Rightarrow> u64 \<Rightarrow> u64 \<Rightarrow> u64 \<Rightarrow> FbcVariant \<Rightarrow> FbcCenterShape \<Rightarrow> Polynomial api" where
  "fbc_term scaled_i q_i target_p q_star_i variant shape =
     api_bind
       (if variant = ReducedNoise then center_mod_q_into_p scaled_i q_i target_p shape
        else api_return scaled_i)
       (\<lambda>coeff. mulps_int coeff q_star_i target_p)"

text \<open>The vectors \<open>scaled\<close>, \<open>source_base\<close> and \<open>q_star\<close> have one entry per source prime.\<close>

definition sum_fbc_terms ::
  "Polynomial list \<Rightarrow> ModuliBase \<Rightarrow> u64 \<Rightarrow> u64 list \<Rightarrow> FbcVariant \<Rightarrow> FbcCenterShape \<Rightarrow> Polynomial api" where
  "sum_fbc_terms scaled source_base target_p q_star variant shape =
     api_bind (fbc_term (scaled ! 0) (source_base ! 0) target_p (q_star ! 0) variant shape)
       (api_fold
          (\<lambda>i acc.
             api_bind (fbc_term (scaled ! i) (source_base ! i) target_p (q_star ! i) variant shape)
               (\<lambda>term. sr_addp acc term target_p))
          [1..<length source_base])"

definition copy_residue :: "Polynomial \<Rightarrow> u64 \<Rightarrow> Polynomial api" where
  "copy_residue src p =
     api_bind (addps_int src 0 0xFFFFFFFFFFFFFFFF) (\<lambda>z.
     api_bind (addr_of z) (\<lambda>a.
     api_seq (remember_modulus a p) (api_return z)))"

definition rescale_residue :: "Polynomial \<Rightarrow> Polynomial \<Rightarrow> u64 \<Rightarrow> u64 \<Rightarrow> Polynomial api" where
  "rescale_residue x_q y_q q P_inv_q =
     api_bind (sr_subp x_q y_q q) (\<lambda>diff. mulps_int diff P_inv_q q)"

definition fbc_residue ::
  "MRP \<Rightarrow> Polynomial list \<Rightarrow> FbcVariant \<Rightarrow> FbcCenterShape \<Rightarrow> u64 \<Rightarrow> (Polynomial \<times> u64) api" where
  "fbc_residue x scaled variant shape p =
     (if p \<in> set (mrp_base x) then
        api_bind (mrp_at x p) (\<lambda>a. api_bind (copy_residue a p) (\<lambda>z. api_return (z, p)))
      else
        api_bind (api_lift (q_hat_mod_p (mrp_base x) p)) (\<lambda>q_star.
        api_bind (sum_fbc_terms scaled (mrp_base x) p q_star variant shape) (\<lambda>z.
        api_return (z, p))))"

definition fast_base_convert ::
  "MRP \<Rightarrow> ModuliBase \<Rightarrow> FbcVariant \<Rightarrow> FbcCenterShape \<Rightarrow> MRP api" where
  "fast_base_convert x target_base variant shape =
     (if mrp_base x = [] then
        api_bind
          (api_map (\<lambda>p. api_bind (zeros (mrp_ring_dim x) Evaluation) (\<lambda>z. api_return (z, p))) target_base)
          (\<lambda>pairs. api_return (MRP_from_pairs pairs))
      else
        api_bind (api_lift (q_hat_inv_mod_q (mrp_base x))) (\<lambda>q_hat.
        api_bind (prescale_by_q_hat x q_hat) (\<lambda>scaled.
        api_bind (api_map (fbc_residue x scaled variant shape) target_base)
          (\<lambda>pairs. api_return (MRP_from_pairs pairs)))))"

definition fast_base_convert_3 :: "MRP \<Rightarrow> ModuliBase \<Rightarrow> FbcVariant \<Rightarrow> MRP api" where
  "fast_base_convert_3 x target_base variant = fast_base_convert x target_base variant ThreeOp"

definition fast_base_convert_2 :: "MRP \<Rightarrow> ModuliBase \<Rightarrow> MRP api" where
  "fast_base_convert_2 x target_base = fast_base_convert x target_base ReducedNoise ThreeOp"

definition rescale_fbc :: "MRP \<Rightarrow> ModuliBase \<Rightarrow> FbcVariant \<Rightarrow> FbcCenterShape \<Rightarrow> MRP api" where
  "rescale_fbc x rescale_base variant shape =
     (if rescale_base = [] then api_throw AssertionFailed
      else
        let target_base = target_after_rescale (mrp_base x) rescale_base in
        if \<not> length target_base < length (mrp_base x) then api_throw AssertionFailed
        else
          api_bind (mr_subset x rescale_base) (\<lambda>x_rescale.
          api_bind (fast_base_convert x_rescale target_base variant shape) (\<lambda>y.
          api_bind (api_lift (P_inv_mod_q rescale_base target_base)) (\<lambda>P_inv.
          api_bind
            (api_map
               (\<lambda>(q, pi).
                  api_bind (mrp_at x q) (\<lambda>xq.
                  api_bind (mrp_at y q) (\<lambda>yq.
                  api_bind (rescale_residue xq yq q pi) (\<lambda>z. api_return (z, q)))))
               (zip target_base P_inv))
            (\<lambda>pairs. api_return (MRP_from_pairs pairs))))))"

definition rescale_fbc_3 :: "MRP \<Rightarrow> ModuliBase \<Rightarrow> FbcVariant \<Rightarrow> MRP api" where
  "rescale_fbc_3 x rescale_base variant = rescale_fbc x rescale_base variant ThreeOp"

definition rescale_fbc_2 :: "MRP \<Rightarrow> ModuliBase \<Rightarrow> MRP api" where
  "rescale_fbc_2 x rescale_base = rescale_fbc x rescale_base ReducedNoise ThreeOp"

definition dig_decomp :: "MRP \<Rightarrow> ModuliBase list \<Rightarrow> ModuliBase \<Rightarrow> FbcCenterShape \<Rightarrow> MRPArray api" where
  "dig_decomp x digit_bases p_base shape =
     (let target_base = mrp_base x @ p_base in
      api_map
        (\<lambda>digit_base.
           api_bind (mr_subset x digit_base) (\<lambda>temp.
           fast_base_convert temp target_base ReducedNoise shape))
        digit_bases)"

definition dig_decomp_3 :: "MRP \<Rightarrow> ModuliBase list \<Rightarrow> ModuliBase \<Rightarrow> MRPArray api" where
  "dig_decomp_3 x digit_bases p_base = dig_decomp x digit_bases p_base ThreeOp"

end
