(* ===== verification/ApiTrace.thy ===== *)
theory ApiTrace
  imports FbcGadgets
begin

text \<open>
  What the recording interface guarantees of the traces it records: every instruction writes an
  address allocated for it alone and reads only addresses allocated before, so a trace is in single
  assignment form and in topological order.  The proof is a small calculus of triples over the
  operations: one rule per combinator, one lemma per function.
\<close>

section \<open>Running operations\<close>

lemma api_return_run: "api_return x s = (Inr x, s)"
  by (simp add: api_return_def)

lemma api_throw_run: "api_throw e s = (Inl e, s)"
  by (simp add: api_throw_def)

lemma api_bind_return [simp]: "api_bind (api_return x) f = f x"
  by (simp add: api_bind_def api_return_def api_throw_def fun_eq_iff)

lemma api_bind_throw [simp]: "api_bind (api_throw e) f = api_throw e"
  by (simp add: api_bind_def api_return_def api_throw_def fun_eq_iff)

lemma api_bind_run:
  "api_bind m f s = (case m s of (Inl e, s') \<Rightarrow> (Inl e, s') | (Inr x, s') \<Rightarrow> f x s')"
  by (simp add: api_bind_def)

lemma api_bind_Inr: "m s = (Inr x, s') \<Longrightarrow> api_bind m f s = f x s'"
  by (simp add: api_bind_def)

lemma api_bind_Inl: "m s = (Inl e, s') \<Longrightarrow> api_bind m f s = (Inl e, s')"
  by (simp add: api_bind_def)

lemma addr_of_simps [simp]:
  "addr_of None = api_throw NullDereference" "addr_of (Some i) = api_return (pi_address i)"
  by (simp_all add: addr_of_def)

lemma scalar_int_simps [simp]:
  "scalar_int None = api_throw NullDereference" "scalar_int (Some i) = api_return (si_int_value i)"
  by (simp_all add: scalar_int_def)

lemma scalar_fp_simps [simp]:
  "scalar_fp None = api_throw NullDereference" "scalar_fp (Some i) = api_return (si_fp_value i)"
  by (simp_all add: scalar_fp_def)

lemma api_lift_simps [simp]: "api_lift (Inl e) = api_throw e" "api_lift (Inr x) = api_return x"
  by (simp_all add: api_lift_def)

section \<open>Triples\<close>

abbreviation trace_of :: "ApiState \<Rightarrow> Instruction list" where
  "trace_of s \<equiv> tw_instructions (as_writer s)"

definition below :: "u64 set \<Rightarrow> ApiState \<Rightarrow> bool" where
  "below A s \<longleftrightarrow> (\<forall>a \<in> A. unat a < next_address s)"

text \<open>
  The instructions recorded while the addresses from \<open>lo\<close> up to \<open>hi\<close> were taken: each writes an address
  of that range that no other writes, and reads only smaller ones.  \<open>halt\<close> has no operands.
\<close>

definition writes_of :: "Instruction list \<Rightarrow> u32 list" where
  "writes_of insts = map dest (filter (\<lambda>i. opcode i \<noteq> FH_HALT) insts)"

definition ssa_block :: "nat \<Rightarrow> nat \<Rightarrow> Instruction list \<Rightarrow> bool" where
  "ssa_block lo hi insts \<longleftrightarrow>
     distinct (writes_of insts) \<and>
     (\<forall>i \<in> set insts. opcode i \<noteq> FH_HALT \<longrightarrow>
        lo \<le> unat (dest i) \<and> unat (dest i) < hi \<and>
        unat (src1 i) < unat (dest i) \<and> unat (src2 i) < unat (dest i))"

text \<open>
  One run of an operation, with the addresses of \<open>A\<close> allocated: it only appends to the trace, and as
  long as the addresses stay within the 32 bits of an instruction it appends a block in single
  assignment form, and the addresses \<open>f\<close> of its result are allocated.
\<close>

definition step_ok :: "u64 set \<Rightarrow> ('a \<Rightarrow> u64 set) \<Rightarrow> ApiState \<Rightarrow> cpp_error + 'a \<Rightarrow> ApiState \<Rightarrow> bool" where
  "step_ok A f s r s' \<longleftrightarrow>
     next_address s \<le> next_address s' \<and>
     (\<exists>new. trace_of s' = trace_of s @ new \<and>
        (next_address s' \<le> 2 ^ 32 \<and> below A s \<longrightarrow>
           ssa_block (next_address s) (next_address s') new \<and> (\<forall>x. r = Inr x \<longrightarrow> below (f x) s')))"

definition records :: "u64 set \<Rightarrow> 'a api \<Rightarrow> ('a \<Rightarrow> u64 set) \<Rightarrow> bool" where
  "records A m f \<longleftrightarrow> (\<forall>s r s'. m s = (r, s') \<longrightarrow> step_ok A f s r s')"

lemma recordsI: "(\<And>s r s'. m s = (r, s') \<Longrightarrow> step_ok A f s r s') \<Longrightarrow> records A m f"
  by (simp add: records_def)

lemma recordsD: "records A m f \<Longrightarrow> m s = (r, s') \<Longrightarrow> step_ok A f s r s'"
  by (simp add: records_def)

lemma below_advance: "below A s \<Longrightarrow> next_address s \<le> next_address s' \<Longrightarrow> below A s'"
  by (auto simp: below_def)

lemma ssa_block_Nil [simp]: "ssa_block lo n []"
  by (simp add: ssa_block_def writes_of_def)

lemma ssa_block_append:
  assumes "ssa_block lo mid xs" "ssa_block mid hi ys" "lo \<le> mid" "mid \<le> hi"
  shows "ssa_block lo hi (xs @ ys)"
proof -
  have x: "unat d < mid" if "d \<in> set (writes_of xs)" for d
    using assms(1) that by (auto simp: ssa_block_def writes_of_def)
  have y: "mid \<le> unat d" if "d \<in> set (writes_of ys)" for d
    using assms(2) that by (auto simp: ssa_block_def writes_of_def)
  have "set (writes_of xs) \<inter> set (writes_of ys) = {}" using x y by fastforce
  then have "distinct (writes_of (xs @ ys))" using assms by (auto simp: ssa_block_def writes_of_def)
  then show ?thesis using assms unfolding ssa_block_def by fastforce
qed

lemma step_ok_trans:
  assumes "step_ok A f s r s1" and "\<And>x. r = Inr x \<Longrightarrow> step_ok (A \<union> f x) g s1 r' s'"
    and "\<And>e. r = Inl e \<Longrightarrow> r' = Inl e \<and> s' = s1"
  shows "step_ok A g s r' s'"
proof (cases r)
  case (Inl e)
  then show ?thesis using assms(1,3) by (auto simp: step_ok_def)
next
  case (Inr x)
  have n: "next_address s \<le> next_address s1" "next_address s1 \<le> next_address s'"
    using assms(1,2) Inr by (auto simp: step_ok_def)
  obtain new1 where t1: "trace_of s1 = trace_of s @ new1"
    and ok1: "next_address s1 \<le> 2 ^ 32 \<and> below A s \<longrightarrow>
      ssa_block (next_address s) (next_address s1) new1 \<and> (\<forall>x. r = Inr x \<longrightarrow> below (f x) s1)"
    using assms(1) unfolding step_ok_def by (elim conjE exE)
  obtain new2 where t2: "trace_of s' = trace_of s1 @ new2"
    and ok2: "next_address s' \<le> 2 ^ 32 \<and> below (A \<union> f x) s1 \<longrightarrow>
      ssa_block (next_address s1) (next_address s') new2 \<and> (\<forall>y. r' = Inr y \<longrightarrow> below (g y) s')"
    using assms(2) [OF Inr] unfolding step_ok_def by (elim conjE exE)
  have "ssa_block (next_address s) (next_address s') (new1 @ new2) \<and> (\<forall>y. r' = Inr y \<longrightarrow> below (g y) s')"
    if fits: "next_address s' \<le> 2 ^ 32" and A: "below A s"
  proof -
    have "below (A \<union> f x) s1" using ok1 fits n A Inr below_advance [OF A n(1)] by (auto simp: below_def)
    then show ?thesis using ok1 ok2 fits n A ssa_block_append by auto
  qed
  then show ?thesis using n t1 t2 unfolding step_ok_def by auto
qed

named_theorems records_intro \<open>triples of the recording interface\<close>

lemma step_ok_silent:
  "next_address s' = next_address s \<Longrightarrow> trace_of s' = trace_of s \<Longrightarrow> (\<And>x. r = Inr x \<Longrightarrow> f x \<subseteq> A) \<Longrightarrow>
     step_ok A f s r s'"
  by (auto simp: step_ok_def below_def)

lemma records_return [records_intro]: "f x \<subseteq> A \<Longrightarrow> records A (api_return x) f"
  by (rule recordsI, rule step_ok_silent) (auto simp: api_return_def)

lemma records_throw [records_intro]: "records A (api_throw e) f"
  by (rule recordsI, rule step_ok_silent) (auto simp: api_throw_def)

lemma records_lift [records_intro]: "(\<And>x. r = Inr x \<Longrightarrow> f x \<subseteq> A) \<Longrightarrow> records A (api_lift r) f"
  by (cases r) (auto intro: records_return records_throw)

lemma records_bind:
  assumes m: "records A m f" and k: "\<And>x. records (A \<union> f x) (k x) g"
  shows "records A (api_bind m k) g"
proof (rule recordsI)
  fix s r s'
  assume run: "api_bind m k s = (r, s')"
  obtain r1 s1 where ms: "m s = (r1, s1)" by fastforce
  show "step_ok A g s r s'"
    by (rule step_ok_trans [OF recordsD [OF m ms]])
      (use run ms in \<open>auto simp: api_bind_Inr api_bind_Inl intro: recordsD [OF k]\<close>)
qed

lemma records_mono: "records A m f \<Longrightarrow> A \<subseteq> B \<Longrightarrow> (\<And>x. g x \<subseteq> f x) \<Longrightarrow> records B m g"
  unfolding records_def step_ok_def below_def by (meson subsetD)

section \<open>Operations that take an address\<close>

lemma records_silent:
  assumes "\<And>s r s'. m s = (r, s') \<Longrightarrow> next_address s' = next_address s \<and> trace_of s' = trace_of s \<and>
      (\<forall>x. r = Inr x \<longrightarrow> f x \<subseteq> A)"
  shows "records A m f"
  by (rule recordsI, rule step_ok_silent) (auto dest: assms)

lemma unat_of_nat_address: "n < 2 ^ 32 \<Longrightarrow> unat (of_nat n :: u64) = n"
  by (simp add: unat_of_nat)

lemma records_alloc [records_intro]: "records A alloc_address (\<lambda>a. {a})"
  by (rule recordsI) (auto simp: alloc_address_def step_ok_def below_def unat_of_nat_address)

text \<open>The addresses behind the values a client holds.\<close>

definition poly_addrs :: "Polynomial \<Rightarrow> u64 set" where
  "poly_addrs p = (case p of None \<Rightarrow> {} | Some i \<Rightarrow> {pi_address i})"

definition mrp_addrs :: "MRP \<Rightarrow> u64 set" where
  "mrp_addrs x = (\<Union>p \<in> ran (mrp_residues x). poly_addrs p)"

lemma poly_addrs_simps [simp]: "poly_addrs None = {}" "poly_addrs (Some i) = {pi_address i}"
  by (simp_all add: poly_addrs_def)

lemma records_new_polynomial [records_intro]: "records A (new_polynomial rd f nt ints fps) poly_addrs"
  unfolding new_polynomial_def by (rule records_bind [OF records_alloc]) (rule records_return, simp)

lemma records_zeros [records_intro]: "records A (zeros rd f) poly_addrs" "records A (zeros_ni rd f) poly_addrs"
  by (simp_all add: zeros_def zeros_ni_def records_new_polynomial)

lemma records_from_data [records_intro]:
  "records A (from_data v rd f) poly_addrs" "records A (from_data_ni w rd f) poly_addrs"
  by (simp_all add: from_data_def from_data_ni_def records_new_polynomial)

lemma records_scalar [records_intro]:
  "records A (scalar_from_int v) (\<lambda>_. {})" "records A (scalar_from_double w) (\<lambda>_. {})"
  unfolding scalar_from_int_def scalar_from_double_def new_scalar_def
  by (rule records_bind [OF records_alloc], rule records_return, simp)+

lemma records_make_result [records_intro]:
  "records A (make_result a f) poly_addrs" "records A (make_result_like a) poly_addrs"
  by (simp_all add: make_result_like_def make_result_def records_zeros)

section \<open>Operations that record one instruction\<close>

text \<open>
  The continuation of a \<open>make_result\<close>: it takes no address, records at most one instruction, which
  writes the result and reads addresses of \<open>A\<close>, and hands the result on.
\<close>

definition emits_one :: "u64 set \<Rightarrow> (Polynomial \<Rightarrow> Polynomial api) \<Rightarrow> bool" where
  "emits_one A k \<longleftrightarrow>
     (\<forall>p s r s'. k (Some p) s = (r, s') \<longrightarrow>
        next_address s' = next_address s \<and> (\<forall>x. r = Inr x \<longrightarrow> x = Some p) \<and>
        (trace_of s' = trace_of s \<or>
         (\<exists>i. trace_of s' = trace_of s @ [i] \<and> opcode i \<noteq> FH_HALT \<and> dest i = ucast (pi_address p) \<and>
            (\<exists>a \<in> A. src1 i = ucast a) \<and> (src2 i = 0 \<or> (\<exists>a \<in> A. src2 i = ucast a)))))"

lemma make_result_run:
  "\<exists>p. make_result a f s = (Inr (Some p), s\<lparr>next_address := next_address s + 1\<rparr>) \<and>
     pi_address p = of_nat (next_address s) \<and> pi_ring_dim p = ring_dimension_of a \<and> pi_fmt p = f"
  by (auto simp: make_result_def zeros_def zeros_ni_def new_polynomial_def api_bind_def api_return_def alloc_address_def)

lemma unat_ucast_small: "unat (a :: u64) < 2 ^ 32 \<Longrightarrow> unat (ucast a :: u32) = unat a"
  by (simp add: unsigned_ucast_eq unsigned_take_bit_eq take_bit_nat_eq_self)

lemma records_emits_one:
  assumes "emits_one A k"
  shows "records A (api_bind (make_result a f) k) poly_addrs"
proof (rule recordsI)
  fix s r s'
  assume run: "api_bind (make_result a f) k s = (r, s')"
  obtain p where p: "make_result a f s = (Inr (Some p), s\<lparr>next_address := next_address s + 1\<rparr>)"
    "pi_address p = of_nat (next_address s)" using make_result_run by blast
  then have "k (Some p) (s\<lparr>next_address := next_address s + 1\<rparr>) = (r, s')"
    using run by (simp add: api_bind_Inr)
  note k = assms [unfolded emits_one_def, rule_format, OF this, simplified]
  show "step_ok A poly_addrs s r s'"
  proof (cases "trace_of s' = trace_of s")
    case True
    then show ?thesis using k p(2) by (auto simp: step_ok_def below_def unat_of_nat_address)
  next
    case False
    then obtain i where i: "trace_of s' = trace_of s @ [i]" "opcode i \<noteq> FH_HALT" "dest i = ucast (pi_address p)"
      "\<exists>a \<in> A. src1 i = ucast a" "src2 i = 0 \<or> (\<exists>a \<in> A. src2 i = ucast a)" using k by blast
    have "ssa_block (next_address s) (Suc (next_address s)) [i]"
      if "Suc (next_address s) \<le> 2 ^ 32" "below A s"
    proof -
      have d: "unat (dest i) = next_address s"
        using i(3) p(2) that(1) by (simp add: unat_ucast_small unat_of_nat_address)
      have src: "unat (ucast a :: u32) < next_address s" if "a \<in> A" for a
        using that \<open>below A s\<close> \<open>Suc (next_address s) \<le> 2 ^ 32\<close> by (auto simp: below_def unat_ucast_small)
      then have "0 < next_address s" using i(4) by fastforce
      then show ?thesis using i d src by (auto simp: ssa_block_def writes_of_def)
    qed
    then show ?thesis using k p(2) i(1) by (auto simp: step_ok_def below_def unat_of_nat_address)
  qed
qed

lemma remember_modulus_run:
  "\<exists>m. remember_modulus a q s = (Inr (), s\<lparr>address_modulus_map := m\<rparr>)"
proof (cases "address_modulus_map s a")
  case None
  then show ?thesis by (auto simp: remember_modulus_def Let_def)
next
  case (Some old)
  have "\<exists>m. s = s\<lparr>address_modulus_map := m\<rparr>" by (rule exI [of _ "address_modulus_map s"]) simp
  then show ?thesis using Some by (auto simp: remember_modulus_def Let_def)
qed

lemma api_emit_run:
  "api_emit i s = (Inr (), s\<lparr>as_writer := emit i (as_writer s)\<rparr>)"
  by (simp add: api_emit_def)

lemma midx_run:
  "\<exists>m t. midx q s = (Inr m, s\<lparr>as_writer := t\<rparr>) \<and> tw_instructions t = trace_of s"
  using register_modulus_frame [of q "as_writer s"] by (auto simp: midx_def split: prod.split)


lemma emit_trace:
  "tw_instructions (emit i t) = tw_instructions t \<or> tw_instructions (emit i t) = tw_instructions t @ [i]"
  by (simp add: emit_eq)

text \<open>Rules for the steps between the \<open>make_result\<close> and the end of a recording function.\<close>

lemma emits_oneI:
  assumes "\<And>p s r s'. k (Some p) s = (r, s') \<Longrightarrow>
      next_address s' = next_address s \<and> (\<forall>x. r = Inr x \<longrightarrow> x = Some p) \<and>
      (trace_of s' = trace_of s \<or>
       (\<exists>i. trace_of s' = trace_of s @ [i] \<and> opcode i \<noteq> FH_HALT \<and> dest i = ucast (pi_address p) \<and>
          (\<exists>a \<in> A. src1 i = ucast a) \<and> (src2 i = 0 \<or> (\<exists>a \<in> A. src2 i = ucast a))))"
  shows "emits_one A k"
  using assms unfolding emits_one_def by simp

lemma emits_one_throw: "emits_one A (\<lambda>r. api_throw e)"
  by (rule emits_oneI) (auto simp: api_throw_def)

lemma emits_one_addr [records_intro]:
  assumes "\<And>a. a \<in> poly_addrs p \<Longrightarrow> emits_one A (\<lambda>r. k r a)"
  shows "emits_one A (\<lambda>r. api_bind (addr_of p) (k r))"
  using assms by (cases p) (simp_all add: emits_one_throw)

lemma emits_one_result [records_intro]:
  assumes "emits_one A (\<lambda>r. k r (pi_address (the r)))"
  shows "emits_one A (\<lambda>r. api_bind (addr_of r) (k r))"
  using assms unfolding emits_one_def by simp

lemma emits_one_scalar [records_intro]:
  "(\<And>v. emits_one A (\<lambda>r. k r v)) \<Longrightarrow> emits_one A (\<lambda>r. api_bind (scalar_int sc) (k r))"
  "(\<And>w. emits_one A (\<lambda>r. k' r w)) \<Longrightarrow> emits_one A (\<lambda>r. api_bind (scalar_fp sc) (k' r))"
  by (cases sc; simp add: emits_one_throw)+

lemma emits_one_remember [records_intro]:
  assumes k: "emits_one A k"
  shows "emits_one A (\<lambda>r. api_seq (remember_modulus (x r) q) (k r))"
proof (rule emits_oneI)
  fix p s r s'
  assume run: "api_seq (remember_modulus (x (Some p)) q) (k (Some p)) s = (r, s')"
  obtain m where "remember_modulus (x (Some p)) q s = (Inr (), s\<lparr>address_modulus_map := m\<rparr>)"
    using remember_modulus_run by blast
  then have "k (Some p) (s\<lparr>address_modulus_map := m\<rparr>) = (r, s')"
    using run by (simp add: api_seq_def api_bind_Inr)
  from k [unfolded emits_one_def, rule_format, OF this]
  show "next_address s' = next_address s \<and> (\<forall>x. r = Inr x \<longrightarrow> x = Some p) \<and>
      (trace_of s' = trace_of s \<or>
       (\<exists>i. trace_of s' = trace_of s @ [i] \<and> opcode i \<noteq> FH_HALT \<and> dest i = ucast (pi_address p) \<and>
          (\<exists>a \<in> A. src1 i = ucast a) \<and> (src2 i = 0 \<or> (\<exists>a \<in> A. src2 i = ucast a))))"
    by simp
qed

definition fits_result :: "u64 set \<Rightarrow> Instruction \<Rightarrow> PolynomialImpl \<Rightarrow> bool" where
  "fits_result A i p \<longleftrightarrow> opcode i \<noteq> FH_HALT \<and> dest i = ucast (pi_address p) \<and>
     (\<exists>a \<in> A. src1 i = ucast a) \<and> (src2 i = 0 \<or> (\<exists>a \<in> A. src2 i = ucast a))"

lemma emits_one_emit [records_intro]:
  assumes "\<And>p. fits_result A (g (Some p)) p"
  shows "emits_one A (\<lambda>r. api_seq (api_emit (g r)) (api_return r))"
proof (rule emits_oneI)
  fix p s r s'
  assume "api_seq (api_emit (g (Some p))) (api_return (Some p)) s = (r, s')"
  then have "r = Inr (Some p)" "s' = s\<lparr>as_writer := emit (g (Some p)) (as_writer s)\<rparr>"
    by (simp_all add: api_seq_def api_bind_run api_return_def api_emit_def)
  then show "next_address s' = next_address s \<and> (\<forall>x. r = Inr x \<longrightarrow> x = Some p) \<and>
      (trace_of s' = trace_of s \<or>
       (\<exists>i. trace_of s' = trace_of s @ [i] \<and> opcode i \<noteq> FH_HALT \<and> dest i = ucast (pi_address p) \<and>
          (\<exists>a \<in> A. src1 i = ucast a) \<and> (src2 i = 0 \<or> (\<exists>a \<in> A. src2 i = ucast a))))"
    using emit_trace [of "g (Some p)" "as_writer s"] assms [of p] by (auto simp: fits_result_def)
qed

lemma emits_one_midx [records_intro]:
  assumes k: "\<And>m. emits_one A (k m)"
  shows "emits_one A (\<lambda>r. api_bind (midx q) (\<lambda>m. k m r))"
proof (rule emits_oneI)
  fix p s r s'
  assume run: "api_bind (midx q) (\<lambda>m. k m (Some p)) s = (r, s')"
  obtain m t where m: "midx q s = (Inr m, s\<lparr>as_writer := t\<rparr>)" "tw_instructions t = trace_of s"
    using midx_run by blast
  then have "k m (Some p) (s\<lparr>as_writer := t\<rparr>) = (r, s')" using run by (simp add: api_bind_Inr)
  then show "next_address s' = next_address s \<and> (\<forall>x. r = Inr x \<longrightarrow> x = Some p) \<and>
      (trace_of s' = trace_of s \<or>
       (\<exists>i. trace_of s' = trace_of s @ [i] \<and> opcode i \<noteq> FH_HALT \<and> dest i = ucast (pi_address p) \<and>
          (\<exists>a \<in> A. src1 i = ucast a) \<and> (src2 i = 0 \<or> (\<exists>a \<in> A. src2 i = ucast a))))"
    using k [of m, unfolded emits_one_def, rule_format, of p "s\<lparr>as_writer := t\<rparr>" r s'] m(2) by simp
qed

lemma api_seq_bind: "api_seq (api_bind m f) k = api_bind m (\<lambda>x. api_seq (f x) k)"
  by (rule ext) (simp add: api_seq_def api_bind_def split: prod.split sum.split)

lemmas emit_defs = emit_pp_def emit_pp_ni_def emit_ps_def emit_ps_ni_def emit_un_def emit_un_ni_def
  emit_ntt_def api_seq_bind

lemma records_sr_binary [records_intro]:
  assumes "op \<noteq> FH_HALT" and "poly_addrs a \<union> poly_addrs b \<subseteq> A"
  shows "records A (sr_binary op a b q) poly_addrs"
  unfolding sr_binary_def make_result_like_def emit_defs
  by (rule records_emits_one, intro records_intro)
    (use assms in \<open>auto simp: fits_result_def ir_def Instruction_init_def\<close>)

lemmas records_body = fits_result_def ir_def Instruction_init_def

lemma records_sr_poly_scalar [records_intro]:
  assumes "op \<noteq> FH_HALT" and "poly_addrs a \<subseteq> A"
  shows "records A (sr_poly_scalar op fmt a sc q) poly_addrs"
  unfolding sr_poly_scalar_def emit_defs
  by (rule records_emits_one, intro records_intro) (use assms in \<open>auto simp: records_body\<close>)

lemma records_sr_unary [records_intro]:
  assumes "op \<noteq> FH_HALT" and "poly_addrs a \<subseteq> A"
  shows "records A (sr_unary op fmt a q) poly_addrs"
  unfolding sr_unary_def emit_defs
  by (rule records_emits_one, intro records_intro) (use assms in \<open>auto simp: records_body\<close>)

lemma records_sr_binary_ni [records_intro]:
  assumes "op \<noteq> FH_HALT" and "poly_addrs a \<union> poly_addrs b \<subseteq> A"
  shows "records A (sr_binary_ni op a b) poly_addrs"
  unfolding sr_binary_ni_def make_result_like_def emit_defs
  by (rule records_emits_one, intro records_intro) (use assms in \<open>auto simp: records_body\<close>)

lemma records_sr_poly_scalar_ni [records_intro]:
  assumes "op \<noteq> FH_HALT" and "poly_addrs a \<subseteq> A"
  shows "records A (sr_poly_scalar_ni op fmt a sc) poly_addrs"
  unfolding sr_poly_scalar_ni_def emit_defs
  by (rule records_emits_one, intro records_intro) (use assms in \<open>auto simp: records_body\<close>)

lemma records_sr_unary_ni [records_intro]:
  assumes "op \<noteq> FH_HALT" and "poly_addrs a \<subseteq> A"
  shows "records A (sr_unary_ni op fmt a) poly_addrs"
  unfolding sr_unary_ni_def emit_defs
  by (rule records_emits_one, intro records_intro) (use assms in \<open>auto simp: records_body\<close>)

lemma records_record_ntt [records_intro]:
  assumes "op \<noteq> FH_HALT" and "poly_addrs a \<subseteq> A"
  shows "records A (record_ntt op a q omg) poly_addrs"
  unfolding record_ntt_def emit_defs
  by (rule records_emits_one, intro records_intro) (use assms in \<open>auto simp: records_body\<close>)

lemma records_automorph [records_intro]:
  assumes "poly_addrs a \<subseteq> A"
  shows "records A (sr_automorph_eval a kk) poly_addrs" "records A (sr_automorph_coeff a kk q) poly_addrs"
    "records A (sr_rot_automorph_coeff a off q) poly_addrs"
  unfolding sr_automorph_eval_def sr_automorph_coeff_def sr_rot_automorph_coeff_def make_result_like_def
  by (rule records_emits_one, intro records_intro, use assms in \<open>auto simp: records_body\<close>)+

section \<open>Loops, residues and gadgets\<close>

lemma records_fold:
  assumes "\<And>x acc. x \<in> set xs \<Longrightarrow> records (A \<union> g acc) (h x acc) g" and "g acc \<subseteq> A"
  shows "records A (api_fold h xs acc) g"
  using assms
proof (induction xs arbitrary: acc A)
  case Nil
  then show ?case by (simp add: records_return)
next
  case (Cons x xs)
  have "records A (h x acc) g"
    using Cons.prems(1) [of x acc] Cons.prems(2) by (simp add: sup.absorb1)
  moreover have "records (A \<union> g acc') (api_fold h xs acc') g" for acc'
  proof (rule Cons.IH)
    fix y acc''
    assume "y \<in> set xs"
    then have "records (A \<union> g acc'') (h y acc'') g" using Cons.prems(1) by simp
    then show "records (A \<union> g acc' \<union> g acc'') (h y acc'') g" by (rule records_mono) auto
  qed simp
  ultimately show ?case by (simp add: records_bind)
qed

lemma records_map:
  assumes "\<And>x. x \<in> set xs \<Longrightarrow> records A (h x) g"
  shows "records A (api_map h xs) (\<lambda>ys. \<Union> (g ` set ys))"
  using assms
proof (induction xs arbitrary: A)
  case Nil
  then show ?case by (simp add: records_return)
next
  case (Cons x xs)
  have "records (A \<union> g y) (api_map h xs) (\<lambda>ys. \<Union> (g ` set ys))" for y
    by (rule Cons.IH) (use Cons.prems in \<open>auto intro: records_mono\<close>)
  then show ?case
    using Cons.prems [of x] by (auto intro!: records_bind [of _ _ g] records_bind [of _ _ "\<lambda>ys. \<Union> (g ` set ys)"] records_return)
qed

lemma records_if [records_intro]:
  "(b \<Longrightarrow> records A m f) \<Longrightarrow> (\<not> b \<Longrightarrow> records A m' f) \<Longrightarrow> records A (if b then m else m') f"
  by simp

lemma records_remember [records_intro]: "records A (remember_modulus a q) (\<lambda>_. {})"
proof (rule records_silent)
  fix s r s'
  assume "remember_modulus a q s = (r, s')"
  moreover obtain m where "remember_modulus a q s = (Inr (), s\<lparr>address_modulus_map := m\<rparr>)"
    using remember_modulus_run by blast
  ultimately show "next_address s' = next_address s \<and> trace_of s' = trace_of s \<and> (\<forall>x. r = Inr x \<longrightarrow> {} \<subseteq> A)"
    by auto
qed

lemma records_seq [records_intro]:
  "records A m (\<lambda>_. {}) \<Longrightarrow> records A k g \<Longrightarrow> records A (api_seq m k) g"
  unfolding api_seq_def by (rule records_bind) auto

lemma records_addr: "poly_addrs p \<subseteq> A \<Longrightarrow> records A (addr_of p) (\<lambda>a. {a})"
  by (cases p) (auto intro: records_intro)

lemma records_mrp_at [records_intro]: "mrp_addrs x \<subseteq> A \<Longrightarrow> records A (mrp_at x q) poly_addrs"
  by (auto simp: mrp_at_def mrp_addrs_def split: option.split intro!: records_throw records_return)
    (auto simp: ran_def)

lemma records_mrp_put [records_intro]:
  "mrp_addrs z \<union> poly_addrs p \<subseteq> A \<Longrightarrow> records A (mrp_put z q p) mrp_addrs"
  by (auto simp: mrp_put_def mrp_addrs_def split: option.split intro!: records_throw records_return)
    (auto simp: ran_def split: if_splits)

lemma records_MRP_new [records_intro]: "records A (MRP_new b rd) mrp_addrs"
proof -
  let ?g = "\<lambda>m :: u64 \<rightharpoonup> Polynomial. \<Union> (poly_addrs ` ran m)"
  have "records A (api_fold (\<lambda>q residues. api_bind (zeros rd Evaluation) (\<lambda>z. api_return (residues(q \<mapsto> z)))) b
      Map.empty) ?g"
    by (rule records_fold, rule records_bind [OF records_zeros(1)], rule records_return)
      (auto simp: ran_def split: if_splits)
  then show ?thesis
    unfolding MRP_new_def by (rule records_bind) (rule records_return, simp add: mrp_addrs_def)
qed

lemmas sr_defs =
  sr_addp_def sr_addps_def sr_addps_coeff_def sr_negp_def sr_subp_def sr_subps_def sr_subps_coeff_def
  sr_mulp_def sr_mulps_def sr_ntt_def sr_intt_def sr_permute_def
  sr_addp_ni_def sr_addps_ni_def sr_addps_coeff_ni_def sr_negp_ni_def sr_subp_ni_def sr_subps_ni_def
  sr_subps_coeff_ni_def sr_mulp_ni_def sr_mulps_ni_def sr_ft_def sr_ift_def
  sr_coeff_assign_def sr_torus_mod_reduce_def

lemma records_sr1 [records_intro]:
  assumes "poly_addrs a \<subseteq> A"
  shows "records A (sr_addps a sc q) poly_addrs" "records A (sr_addps_coeff a sc q) poly_addrs"
    "records A (sr_subps a sc q) poly_addrs" "records A (sr_subps_coeff a sc q) poly_addrs"
    "records A (sr_mulps a sc q) poly_addrs" "records A (sr_negp a q) poly_addrs"
    "records A (sr_ntt a q) poly_addrs" "records A (sr_intt a q) poly_addrs"
    "records A (sr_permute a srcs signs q) poly_addrs"
    "records A (sr_addps_ni a sc) poly_addrs" "records A (sr_addps_coeff_ni a sc) poly_addrs"
    "records A (sr_subps_ni a sc) poly_addrs" "records A (sr_subps_coeff_ni a sc) poly_addrs"
    "records A (sr_mulps_ni a sc) poly_addrs" "records A (sr_negp_ni a) poly_addrs"
    "records A (sr_ft a) poly_addrs" "records A (sr_ift a) poly_addrs"
    "records A (sr_coeff_assign a i sc) poly_addrs" "records A (sr_torus_mod_reduce a c) poly_addrs"
  unfolding sr_defs by (intro records_intro; simp add: assms)+

lemma records_sr2 [records_intro]:
  assumes "poly_addrs a \<subseteq> A" "poly_addrs b \<subseteq> A"
  shows "records A (sr_addp a b q) poly_addrs" "records A (sr_subp a b q) poly_addrs"
    "records A (sr_mulp a b q) poly_addrs" "records A (sr_addp_ni a b) poly_addrs"
    "records A (sr_subp_ni a b) poly_addrs" "records A (sr_mulp_ni a b) poly_addrs"
  unfolding sr_defs by (intro records_intro; simp add: assms)+

lemma records_sr_root [records_intro]:
  assumes "poly_addrs a \<subseteq> A"
  shows "records A (sr_ntt_with_root a q omg) poly_addrs" "records A (sr_intt_with_root a q omg) poly_addrs"
  unfolding sr_ntt_with_root_def sr_intt_with_root_def require_ntt_root_def
  by (intro records_intro; simp add: assms)+

lemma records_automorph_q [records_intro]:
  assumes "poly_addrs a \<subseteq> A"
  shows "records A (sr_automorph_eval_q a kk q) poly_addrs"
  unfolding sr_automorph_eval_q_def
  by (rule records_bind [OF records_automorph(1) [OF assms]], rule records_bind [OF records_addr],
      use assms in blast, intro records_intro records_bind [OF records_addr]) auto

lemma records_mr_each:
  assumes "mrp_addrs x \<subseteq> A" and "\<And>q B. A \<subseteq> B \<Longrightarrow> records B (f q) poly_addrs"
  shows "records A (mr_each f x) mrp_addrs"
proof -
  have "records A (mr_start x) mrp_addrs"
    unfolding mr_start_def using assms(1)
    by (cases "mrp_base x") (auto intro!: records_intro records_bind [OF records_mrp_at])
  then show ?thesis
    unfolding mr_each_def
  proof (rule records_bind)
    fix z
    show "records (A \<union> mrp_addrs z) (api_fold (\<lambda>q z. api_bind (f q) (mrp_put z q)) (mrp_base x) z) mrp_addrs"
      by (rule records_fold, rule records_bind, rule assms(2)) (auto intro!: records_mrp_put)
  qed
qed

lemma records_mr_binary:
  assumes "mrp_addrs x \<subseteq> A" "mrp_addrs y \<subseteq> A"
    and "\<And>a b q B. poly_addrs a \<subseteq> B \<Longrightarrow> poly_addrs b \<subseteq> B \<Longrightarrow> records B (op a b q) poly_addrs"
  shows "records A (mr_binary op x y) mrp_addrs"
  unfolding mr_binary_def
  by (rule records_mr_each [OF assms(1)])
    (rule records_bind [OF records_mrp_at], use assms in force,
     rule records_bind [OF records_mrp_at], use assms in force, rule assms(3), auto)

lemma records_mrs_at [records_intro]: "records A (mrs_at x q) (\<lambda>_. {})"
  by (auto simp: mrs_at_def split: option.split intro!: records_intro)

lemma records_mr_scalar:
  assumes "mrp_addrs x \<subseteq> A"
    and "\<And>a b q B. poly_addrs a \<subseteq> B \<Longrightarrow> records B (op a b q) poly_addrs"
  shows "records A (mr_scalar op x sc) mrp_addrs"
  unfolding mr_scalar_def
  by (rule records_mr_each [OF assms(1)])
    (rule records_bind [OF records_mrp_at], use assms in force,
     rule records_bind [OF records_mrs_at], rule assms(2), auto)

lemma records_mr_unary:
  assumes "mrp_addrs x \<subseteq> A"
    and "\<And>a q B. poly_addrs a \<subseteq> B \<Longrightarrow> records B (op a q) poly_addrs"
  shows "records A (mr_unary op x) mrp_addrs"
  unfolding mr_unary_def
  by (rule records_mr_each [OF assms(1)])
    (rule records_bind [OF records_mrp_at], use assms in force, rule assms(2), auto)

lemmas mr_defs = mr_addp_def mr_subp_def mr_mulp_def mr_mulps_def mr_addps_def mr_subps_def mr_ntt_def
  mr_intt_def mr_automorph_eval_def mr_rot_automorph_coeff_def mr_zeros_def

lemma records_mr1 [records_intro]:
  assumes "mrp_addrs x \<subseteq> A"
  shows "records A (mr_mulps x sc) mrp_addrs" "records A (mr_addps x sc) mrp_addrs"
    "records A (mr_subps x sc) mrp_addrs" "records A (mr_ntt x) mrp_addrs" "records A (mr_intt x) mrp_addrs"
    "records A (mr_automorph_eval x kk) mrp_addrs" "records A (mr_rot_automorph_coeff x off) mrp_addrs"
    "records A (mr_zeros b rd) mrp_addrs"
  unfolding mr_defs
  by (intro records_mr_scalar records_mr_unary records_intro assms; assumption)+

lemma records_mr2 [records_intro]:
  assumes "mrp_addrs x \<subseteq> A" "mrp_addrs y \<subseteq> A"
  shows "records A (mr_addp x y) mrp_addrs" "records A (mr_subp x y) mrp_addrs"
    "records A (mr_mulp x y) mrp_addrs"
  unfolding mr_defs by (intro records_mr_binary records_intro assms; assumption)+

lemma records_mr_start [records_intro]: "mrp_addrs x \<subseteq> A \<Longrightarrow> records A (mr_start x) mrp_addrs"
  unfolding mr_start_def
  by (cases "mrp_base x") (auto intro!: records_intro records_bind [OF records_mrp_at])

lemma records_require_roots [records_intro]:
  assumes "mrp_addrs x \<subseteq> A"
  shows "records A (require_ntt_roots x omegas) (\<lambda>_. {})"
  unfolding require_ntt_roots_def require_ntt_root_def
  by (intro records_if records_throw records_fold)
    (use assms in \<open>auto split!: prod.split intro!: records_intro records_bind [OF records_mrp_at]\<close>)

lemma records_mr_roots [records_intro]:
  assumes "mrp_addrs x \<subseteq> A" "op \<noteq> FH_HALT"
  shows "records A (record_mr_ntt op x omegas) mrp_addrs"
  unfolding record_mr_ntt_def
proof (rule records_bind [OF records_mr_start [OF assms(1)]], rule records_fold)
  fix qo z' z
  show "records (A \<union> mrp_addrs z \<union> mrp_addrs z')
    ((\<lambda>(q, omg) z. api_bind (mrp_at x q) (\<lambda>a. api_bind (record_ntt op a q (Some omg)) (mrp_put z q))) qo z')
    mrp_addrs"
    by (cases qo) (use assms in \<open>auto intro!: records_bind [OF records_mrp_at] records_bind [OF records_record_ntt] records_mrp_put\<close>)
qed simp

lemma records_copy_residues:
  assumes "mrp_addrs x \<subseteq> A" and "\<Union> (poly_addrs ` ran m) \<subseteq> A"
  shows "records A (copy_residues x b m) (\<lambda>m. \<Union> (poly_addrs ` ran m))"
  unfolding copy_residues_def
  by (rule records_fold, rule records_bind [OF records_mrp_at], use assms in blast, rule records_return)
    (use assms in \<open>auto simp: ran_def split: if_splits\<close>)

lemma records_mr_shape [records_intro]:
  assumes "mrp_addrs x \<subseteq> A"
  shows "poly_addrs a \<subseteq> A \<Longrightarrow> records A (mr_append_srp x a q_a) mrp_addrs"
    and "mrp_addrs y \<subseteq> A \<Longrightarrow> records A (mr_union x y) mrp_addrs"
    and "records A (mr_subset x b) mrp_addrs"
  unfolding mr_append_srp_def mr_union_def mr_subset_def
  using assms
  by (auto intro!: records_return records_bind [OF records_copy_residues] simp: mrp_addrs_def ran_def split: if_splits)
    blast+

lemma records_int_scalar [records_intro]:
  assumes "poly_addrs a \<subseteq> A"
  shows "records A (mulps_int a v q) poly_addrs" "records A (addps_int a v q) poly_addrs"
  unfolding mulps_int_def addps_int_def
  by (rule records_bind [OF records_scalar(1)], rule records_sr1, use assms in simp)+

lemma records_center [records_intro]:
  assumes "poly_addrs a \<subseteq> A"
  shows "records A (center_mod_q_into_p a q p shape) poly_addrs"
  unfolding center_mod_q_into_p_def
  by (rule records_bind [where f = "\<lambda>_. {}"], rule records_lift, simp,
      rule records_bind [where f = poly_addrs], intro records_intro, use assms in simp, use assms in simp,
      (rule records_bind [where f = poly_addrs], rule records_int_scalar, simp)+, rule records_int_scalar, simp)

lemma records_fbc_term [records_intro]:
  assumes "poly_addrs a \<subseteq> A"
  shows "records A (fbc_term a q p qs variant shape) poly_addrs"
  unfolding fbc_term_def
  by (rule records_bind [where f = poly_addrs], intro records_intro)
    (use assms in \<open>auto intro: records_int_scalar\<close>)

lemma records_sum_fbc_terms:
  assumes "\<Union> (poly_addrs ` set scaled) \<subseteq> A" "base \<noteq> []" "length scaled = length base"
  shows "records A (sum_fbc_terms scaled base p qs variant shape) poly_addrs"
proof -
  have t: "records B (fbc_term (scaled ! i) q p' qs' variant shape) poly_addrs"
    if "i < length base" "A \<subseteq> B" for i q p' qs' B
  proof (rule records_fbc_term)
    have "scaled ! i \<in> set scaled" using that(1) assms(3) by simp
    then show "poly_addrs (scaled ! i) \<subseteq> B" using assms(1) that(2) by blast
  qed
  have n: "0 < length base" using assms(2) by simp
  show ?thesis
    unfolding sum_fbc_terms_def
  proof (rule records_bind [OF t [OF n order_refl]])
    fix acc
    show "records (A \<union> poly_addrs acc) (api_fold (\<lambda>i acc.
        api_bind (fbc_term (scaled ! i) (base ! i) p (qs ! i) variant shape) (\<lambda>term. sr_addp acc term p))
        [1..<length base] acc) poly_addrs"
      by (rule records_fold, rule records_bind [OF t]) (auto intro!: records_sr2)
  qed
qed

lemma records_copy_residue [records_intro]:
  assumes "poly_addrs a \<subseteq> A"
  shows "records A (copy_residue a p) poly_addrs"
  unfolding copy_residue_def
  by (rule records_bind [OF records_int_scalar(2) [OF assms]], rule records_bind [OF records_addr],
      blast, intro records_intro) auto

lemma records_rescale_residue [records_intro]:
  assumes "poly_addrs x \<subseteq> A" "poly_addrs y \<subseteq> A"
  shows "records A (rescale_residue x y q pinv) poly_addrs"
  unfolding rescale_residue_def
  by (rule records_bind [OF records_sr2(2) [OF assms]], rule records_int_scalar) auto

text \<open>The length of what a filled vector holds does not depend on the state.\<close>

lemma api_map_length: "api_map f xs s = (Inr ys, s') \<Longrightarrow> length ys = length xs"
proof (induction xs arbitrary: ys s s')
  case (Cons x xs)
  then show ?case
    by (auto simp: api_bind_run api_return_def split: prod.splits sum.splits)
qed (simp add: api_return_def)

lemma records_strengthen:
  assumes "records A m f" and "\<And>s x s'. m s = (Inr x, s') \<Longrightarrow> P x"
    and "\<And>x. P x \<Longrightarrow> records (A \<union> f x) (k x) g"
  shows "records A (api_bind m k) g"
proof -
  let ?k = "\<lambda>x. if P x then k x else api_throw OutOfRange"
  have "api_bind m k = api_bind m ?k"
    by (rule ext) (auto simp: api_bind_run split: prod.split sum.split dest: assms(2))
  moreover have "records A (api_bind m ?k) g"
    by (rule records_bind [OF assms(1)]) (auto intro: assms(3) records_throw)
  ultimately show ?thesis by simp
qed

lemma MRP_from_pairs_addrs: "mrp_addrs (MRP_from_pairs ps) \<subseteq> \<Union> ((\<lambda>(p, q). poly_addrs p) ` set ps)"
proof -
  have "ran (fold (\<lambda>(poly, q) m. m(q \<mapsto> poly)) ps m0) \<subseteq> ran m0 \<union> fst ` set ps" for m0 :: "u64 \<rightharpoonup> Polynomial"
  proof (induction ps arbitrary: m0)
    case (Cons pq ps)
    obtain p q where [simp]: "pq = (p, q)" by fastforce
    have "ran (m0(q \<mapsto> p)) \<subseteq> insert p (ran m0)" by (auto simp: ran_def)
    then show ?case using Cons [of "m0(q \<mapsto> p)"] by (simp del: fun_upd_apply) blast
  qed simp
  from this [of Map.empty] show ?thesis
    by (force simp: mrp_addrs_def MRP_from_pairs_def)
qed

lemma records_from_pairs:
  assumes "\<And>x. x \<in> set xs \<Longrightarrow> records A (h x) (\<lambda>(p, q). poly_addrs p)"
  shows "records A (api_bind (api_map h xs) (\<lambda>pairs. api_return (MRP_from_pairs pairs))) mrp_addrs"
  by (rule records_bind [OF records_map [OF assms]], assumption, rule records_return)
    (use MRP_from_pairs_addrs in fastforce)

lemma records_pair: "records A m poly_addrs \<Longrightarrow> records A (api_bind m (\<lambda>z. api_return (z, q))) (\<lambda>(p, q). poly_addrs p)"
  by (erule records_bind) (rule records_return, simp)

lemma records_prescale:
  assumes "mrp_addrs x \<subseteq> A"
  shows "records A (prescale_by_q_hat x q_hat) (\<lambda>ys. \<Union> (poly_addrs ` set ys))"
  unfolding prescale_by_q_hat_def
  by (rule records_map)
    (use assms in \<open>auto split!: prod.split intro!: records_bind [OF records_mrp_at] records_int_scalar\<close>)

lemma q_hat_inv_length: "q_hat_inv_mod_q b = Inr qh \<Longrightarrow> length qh = length b"
  unfolding q_hat_inv_mod_q_def by (drule map_res_length) simp

lemma records_fast_base_convert [records_intro]:
  assumes x: "mrp_addrs x \<subseteq> A"
  shows "records A (fast_base_convert x target variant shape) mrp_addrs"
proof (cases "mrp_base x = []")
  case True
  then show ?thesis
    unfolding fast_base_convert_def by (simp add: records_from_pairs records_pair records_zeros)
next
  case False
  have residue: "records B (fbc_residue x scaled variant shape p) (\<lambda>(p, q). poly_addrs p)"
    if "\<Union> (poly_addrs ` set scaled) \<subseteq> B" "length scaled = length (mrp_base x)" "A \<subseteq> B" for scaled p B
  proof -
    have "mrp_addrs x \<subseteq> B" using x that(3) by blast
    then show ?thesis
      unfolding fbc_residue_def
      by (intro records_if records_bind [OF records_mrp_at] records_pair records_copy_residue
          records_bind [OF records_lift [where f = "\<lambda>_. {}"]] records_sum_fbc_terms)
        (use that False in auto)
  qed
  show ?thesis
  proof (cases "q_hat_inv_mod_q (mrp_base x)")
    case (Inl e)
    then show ?thesis unfolding fast_base_convert_def by (simp add: False records_throw)
  next
    case (Inr qh)
    then have "length qh = length (mrp_base x)" by (rule q_hat_inv_length)
    then have len: "prescale_by_q_hat x qh s = (Inr ys, s') \<Longrightarrow> length ys = length (mrp_base x)" for s ys s'
      unfolding prescale_by_q_hat_def by (auto dest: api_map_length)
    have "records A (api_bind (prescale_by_q_hat x qh) (\<lambda>scaled.
        api_bind (api_map (fbc_residue x scaled variant shape) target)
          (\<lambda>pairs. api_return (MRP_from_pairs pairs)))) mrp_addrs"
      by (rule records_strengthen [OF records_prescale [OF x], where P = "\<lambda>ys. length ys = length (mrp_base x)"])
        (use len in \<open>auto intro!: records_from_pairs residue\<close>)
    then show ?thesis unfolding fast_base_convert_def using False Inr by simp
  qed
qed

lemma records_rescale_fbc [records_intro]:
  assumes x: "mrp_addrs x \<subseteq> A"
  shows "records A (rescale_fbc x b variant shape) mrp_addrs"
  unfolding rescale_fbc_def Let_def
  by (intro records_if records_throw records_bind [OF records_mr_shape(3)]
      records_bind [OF records_fast_base_convert] records_bind [OF records_lift [where f = "\<lambda>_. {}"]]
      records_from_pairs)
    (use x in \<open>auto split!: prod.split intro!: records_bind [OF records_mrp_at] records_pair
      records_rescale_residue\<close>)

lemma records_dig_decomp [records_intro]:
  assumes x: "mrp_addrs x \<subseteq> A"
  shows "records A (dig_decomp x digits p_base shape) (\<lambda>ys. \<Union> (mrp_addrs ` set ys))"
  unfolding dig_decomp_def Let_def
  by (rule records_map, rule records_bind [OF records_mr_shape(3) [OF x]]) (rule records_fast_base_convert, simp)

end
