(* ===== verification/ApiClient.thy ===== *)
theory ApiClient
  imports ApiTrace
begin

text \<open>
  Client programs: arbitrary sequences of calls of the recording interface on the handles earlier
  calls returned.  A call that throws leaves the client with the handles it had and the interface in
  the state the exception left.  Whatever the program, the trace it records is in single assignment
  form and in topological order.
\<close>

section \<open>Calls\<close>

datatype PolyCall =
    CNegp u64 | CAddps u64 u64 | CAddpsCoeff u64 u64 | CSubps u64 u64 | CSubpsCoeff u64 u64 | CMulps u64 u64
  | CNtt u64 | CNttRoot u64 u64 | CIntt u64 | CInttRoot u64 u64 | CPermute u64
  | CAutomorphEval u64 | CAutomorphEvalQ u64 u64 | CAutomorphCoeff u64 u64 | CRotate u64 u64
  | CNegpNi | CFt | CIft

datatype PolyPolyCall = CAddp u64 | CSubp u64 | CMulp u64 | CAddpNi | CSubpNi | CMulpNi

datatype MrpCall =
    CMrNtt | CMrNttRoots "u64 list" | CMrIntt | CMrInttRoots "u64 list"
  | CMrAutomorphEval u64 | CMrRotate u64 | CMrSubset ModuliBase
  | CFastBaseConvert ModuliBase FbcVariant FbcCenterShape
  | CRescale ModuliBase FbcVariant FbcCenterShape

datatype MrpMrpCall = CMrAddp | CMrSubp | CMrMulp | CMrUnion

datatype ClientCall =
    FromData "u64 list" u64 Format
  | OnPoly PolyCall nat
  | OnPolys PolyPolyCall nat nat
  | Pack "(nat \<times> u64) list"
  | Residue nat u64
  | OnMrp MrpCall nat
  | OnMrps MrpMrpCall nat nat
  | TagInput string nat
  | TagOutput string nat
  | Halt

fun poly_call :: "PolyCall \<Rightarrow> Polynomial \<Rightarrow> Polynomial api" where
  "poly_call (CNegp q) a = sr_negp a q"
| "poly_call (CAddps v q) a = api_bind (scalar_from_int v) (\<lambda>sc. sr_addps a sc q)"
| "poly_call (CAddpsCoeff v q) a = api_bind (scalar_from_int v) (\<lambda>sc. sr_addps_coeff a sc q)"
| "poly_call (CSubps v q) a = api_bind (scalar_from_int v) (\<lambda>sc. sr_subps a sc q)"
| "poly_call (CSubpsCoeff v q) a = api_bind (scalar_from_int v) (\<lambda>sc. sr_subps_coeff a sc q)"
| "poly_call (CMulps v q) a = api_bind (scalar_from_int v) (\<lambda>sc. sr_mulps a sc q)"
| "poly_call (CNtt q) a = sr_ntt a q"
| "poly_call (CNttRoot q w) a = sr_ntt_with_root a q w"
| "poly_call (CIntt q) a = sr_intt a q"
| "poly_call (CInttRoot q w) a = sr_intt_with_root a q w"
| "poly_call (CPermute q) a = sr_permute a [] [] q"
| "poly_call (CAutomorphEval kk) a = sr_automorph_eval a kk"
| "poly_call (CAutomorphEvalQ kk q) a = sr_automorph_eval_q a kk q"
| "poly_call (CAutomorphCoeff kk q) a = sr_automorph_coeff a kk q"
| "poly_call (CRotate off q) a = sr_rot_automorph_coeff a off q"
| "poly_call CNegpNi a = sr_negp_ni a"
| "poly_call CFt a = sr_ft a"
| "poly_call CIft a = sr_ift a"

fun poly_poly_call :: "PolyPolyCall \<Rightarrow> Polynomial \<Rightarrow> Polynomial \<Rightarrow> Polynomial api" where
  "poly_poly_call (CAddp q) a b = sr_addp a b q"
| "poly_poly_call (CSubp q) a b = sr_subp a b q"
| "poly_poly_call (CMulp q) a b = sr_mulp a b q"
| "poly_poly_call CAddpNi a b = sr_addp_ni a b"
| "poly_poly_call CSubpNi a b = sr_subp_ni a b"
| "poly_poly_call CMulpNi a b = sr_mulp_ni a b"

fun mrp_call :: "MrpCall \<Rightarrow> MRP \<Rightarrow> MRP api" where
  "mrp_call CMrNtt x = mr_ntt x"
| "mrp_call (CMrNttRoots ws) x = mr_ntt_with_roots x ws"
| "mrp_call CMrIntt x = mr_intt x"
| "mrp_call (CMrInttRoots ws) x = mr_intt_with_roots x ws"
| "mrp_call (CMrAutomorphEval kk) x = mr_automorph_eval x kk"
| "mrp_call (CMrRotate off) x = mr_rot_automorph_coeff x off"
| "mrp_call (CMrSubset b) x = mr_subset x b"
| "mrp_call (CFastBaseConvert b v sh) x = fast_base_convert x b v sh"
| "mrp_call (CRescale b v sh) x = rescale_fbc x b v sh"

fun mrp_mrp_call :: "MrpMrpCall \<Rightarrow> MRP \<Rightarrow> MRP \<Rightarrow> MRP api" where
  "mrp_mrp_call CMrAddp x y = mr_addp x y"
| "mrp_mrp_call CMrSubp x y = mr_subp x y"
| "mrp_mrp_call CMrMulp x y = mr_mulp x y"
| "mrp_mrp_call CMrUnion x y = mr_union x y"

section \<open>Programs\<close>

text \<open>The handles a client holds; a call on one it does not hold uses a default-constructed value.\<close>

record Client =
  cl_polys :: "Polynomial list"
  cl_mrps :: "MRP list"

definition nth_or :: "'a \<Rightarrow> 'a list \<Rightarrow> nat \<Rightarrow> 'a" where
  "nth_or d xs i = (if i < length xs then xs ! i else d)"

abbreviation poly_at :: "Client \<Rightarrow> nat \<Rightarrow> Polynomial" where
  "poly_at c \<equiv> nth_or None (cl_polys c)"

abbreviation mrp_of :: "Client \<Rightarrow> nat \<Rightarrow> MRP" where
  "mrp_of c \<equiv> nth_or MRP_empty (cl_mrps c)"

definition keep_poly :: "Polynomial api \<Rightarrow> Client \<Rightarrow> Client api" where
  "keep_poly m c = api_bind m (\<lambda>p. api_return (c\<lparr>cl_polys := cl_polys c @ [p]\<rparr>))"

definition keep_mrp :: "MRP api \<Rightarrow> Client \<Rightarrow> Client api" where
  "keep_mrp m c = api_bind m (\<lambda>x. api_return (c\<lparr>cl_mrps := cl_mrps c @ [x]\<rparr>))"

fun client_call :: "ClientCall \<Rightarrow> Client \<Rightarrow> Client api" where
  "client_call (FromData v rd fmt) c = keep_poly (from_data v rd fmt) c"
| "client_call (OnPoly f i) c = keep_poly (poly_call f (poly_at c i)) c"
| "client_call (OnPolys f i j) c = keep_poly (poly_poly_call f (poly_at c i) (poly_at c j)) c"
| "client_call (Pack ps) c =
     keep_mrp (api_return (MRP_from_pairs (map (\<lambda>(i, q). (poly_at c i, q)) ps))) c"
| "client_call (Residue i q) c = keep_poly (mrp_at (mrp_of c i) q) c"
| "client_call (OnMrp f i) c = keep_mrp (mrp_call f (mrp_of c i)) c"
| "client_call (OnMrps f i j) c = keep_mrp (mrp_mrp_call f (mrp_of c i) (mrp_of c j)) c"
| "client_call (TagInput nm i) c = api_seq (tag_input nm (POLY (poly_at c i))) (api_return c)"
| "client_call (TagOutput nm i) c = api_seq (tag_output nm (POLY (poly_at c i))) (api_return c)"
| "client_call Halt c = api_seq halt (api_return c)"

fun client_step :: "ClientCall \<Rightarrow> Client \<times> ApiState \<Rightarrow> Client \<times> ApiState" where
  "client_step call (c, s) =
     (case client_call call c s of (Inl _, s') \<Rightarrow> (c, s') | (Inr c', s') \<Rightarrow> (c', s'))"

definition client_run :: "ClientCall list \<Rightarrow> Client \<times> ApiState \<Rightarrow> Client \<times> ApiState" where
  "client_run calls cs = fold client_step calls cs"

definition client_start :: "TraceWriter \<Rightarrow> Client \<times> ApiState" where
  "client_start t = (\<lparr>cl_polys = [], cl_mrps = []\<rparr>, ApiState_init\<lparr>as_writer := t\<rparr>)"

section \<open>Every call appends a block\<close>

definition client_addrs :: "Client \<Rightarrow> u64 set" where
  "client_addrs c = \<Union> (poly_addrs ` set (cl_polys c)) \<union> \<Union> (mrp_addrs ` set (cl_mrps c))"

lemma poly_at_addrs: "poly_addrs (poly_at c i) \<subseteq> client_addrs c"
  by (auto simp: nth_or_def client_addrs_def)

lemma mrp_of_addrs: "mrp_addrs (mrp_of c i) \<subseteq> client_addrs c"
  by (force simp: nth_or_def client_addrs_def mrp_addrs_def MRP_empty_def)

lemma records_poly_call: "poly_addrs a \<subseteq> A \<Longrightarrow> records A (poly_call f a) poly_addrs"
  by (cases f) (auto intro!: records_intro records_bind [OF records_scalar(1)])

lemma records_poly_poly_call:
  "poly_addrs a \<subseteq> A \<Longrightarrow> poly_addrs b \<subseteq> A \<Longrightarrow> records A (poly_poly_call f a b) poly_addrs"
  by (cases f) (auto intro!: records_intro)

lemma records_mr_with_roots [records_intro]:
  assumes "mrp_addrs x \<subseteq> A"
  shows "records A (mr_ntt_with_roots x ws) mrp_addrs" "records A (mr_intt_with_roots x ws) mrp_addrs"
  unfolding mr_ntt_with_roots_def mr_intt_with_roots_def by (intro records_intro; simp add: assms)+

lemma records_mrp_call: "mrp_addrs x \<subseteq> A \<Longrightarrow> records A (mrp_call f x) mrp_addrs"
  by (cases f) (auto intro!: records_intro)

lemma records_mrp_mrp_call:
  "mrp_addrs x \<subseteq> A \<Longrightarrow> mrp_addrs y \<subseteq> A \<Longrightarrow> records A (mrp_mrp_call f x y) mrp_addrs"
  by (cases f) (auto intro!: records_intro)

lemma records_keep_poly:
  "records (client_addrs c) m poly_addrs \<Longrightarrow> records (client_addrs c) (keep_poly m c) client_addrs"
  unfolding keep_poly_def by (erule records_bind) (rule records_return, auto simp: client_addrs_def)

lemma records_keep_mrp:
  "records (client_addrs c) m mrp_addrs \<Longrightarrow> records (client_addrs c) (keep_mrp m c) client_addrs"
  unfolding keep_mrp_def by (erule records_bind) (rule records_return, auto simp: client_addrs_def)

lemma records_halt: "records A halt (\<lambda>_. {})"
  by (rule recordsI)
    (auto simp: halt_def api_emit_def emit_eq step_ok_def ssa_block_def writes_of_def ir_def below_def)

lemma records_tag_input: "records A (tag_input nm v) (\<lambda>_. {})"
  by (rule records_silent) (auto simp: tag_input_def)

lemma records_tag_output: "records A (tag_output nm (POLY p)) (\<lambda>_. {})"
proof (rule records_silent)
  fix s r s'
  assume "tag_output nm (POLY p) s = (r, s')"
  then show "next_address s' = next_address s \<and> trace_of s' = trace_of s \<and> (\<forall>x. r = Inr x \<longrightarrow> {} \<subseteq> A)"
    by (cases p) (auto simp: tag_output_def output_comment_def api_seq_def api_bind_run api_comment_def
        comment_line_def register_probe_def api_throw_def api_return_def split: if_splits)
qed

lemma records_client_call: "records (client_addrs c) (client_call call c) client_addrs"
proof (cases call)
  case (Pack ps)
  have "mrp_addrs (MRP_from_pairs (map (\<lambda>(i, q). (poly_at c i, q)) ps)) \<subseteq> client_addrs c"
    using MRP_from_pairs_addrs [of "map (\<lambda>(i, q). (poly_at c i, q)) ps"] poly_at_addrs [of c] by fastforce
  then show ?thesis using Pack by (auto intro!: records_keep_mrp records_return)
qed (auto intro!: records_keep_poly records_keep_mrp records_intro records_poly_call
    records_poly_poly_call records_mrp_call records_mrp_mrp_call poly_at_addrs mrp_of_addrs
    records_halt records_tag_input records_tag_output)

section \<open>Single assignment\<close>

definition client_inv :: "Client \<times> ApiState \<Rightarrow> bool" where
  "client_inv cs \<longleftrightarrow> (next_address (snd cs) \<le> 2 ^ 32 \<longrightarrow>
     ssa_block 0 (next_address (snd cs)) (trace_of (snd cs)) \<and> below (client_addrs (fst cs)) (snd cs))"

lemma client_step_inv:
  assumes "client_inv (c, s)"
  shows "client_inv (client_step call (c, s))"
proof -
  obtain r s' where run: "client_call call c s = (r, s')" by fastforce
  have n: "next_address s \<le> next_address s'" and "\<exists>new. trace_of s' = trace_of s @ new \<and>
      (next_address s' \<le> 2 ^ 32 \<and> below (client_addrs c) s \<longrightarrow>
        ssa_block (next_address s) (next_address s') new \<and> (\<forall>x. r = Inr x \<longrightarrow> below (client_addrs x) s'))"
    using recordsD [OF records_client_call run] by (auto simp: step_ok_def)
  then obtain new where new: "trace_of s' = trace_of s @ new"
    and ok: "next_address s' \<le> 2 ^ 32 \<and> below (client_addrs c) s \<longrightarrow>
      ssa_block (next_address s) (next_address s') new \<and> (\<forall>x. r = Inr x \<longrightarrow> below (client_addrs x) s')"
    by (elim exE conjE)
  have "ssa_block 0 (next_address s') (trace_of s') \<and> below (client_addrs c) s' \<and>
      (\<forall>x. r = Inr x \<longrightarrow> below (client_addrs x) s')" if "next_address s' \<le> 2 ^ 32"
  proof -
    have "ssa_block 0 (next_address s) (trace_of s)" "below (client_addrs c) s"
      using assms n that by (auto simp: client_inv_def)
    then show ?thesis
      using ok that n new below_advance [of "client_addrs c" s s'] by (auto intro: ssa_block_append)
  qed
  then show ?thesis using run by (auto simp: client_inv_def split: sum.split)
qed

lemma client_run_inv: "client_inv cs \<Longrightarrow> client_inv (client_run calls cs)"
  unfolding client_run_def
proof (induction calls arbitrary: cs)
  case (Cons call calls)
  then show ?case using client_step_inv by (cases cs) (simp del: client_step.simps)
qed simp


definition example_calls :: "ClientCall list" where
  "example_calls =
     [FromData [3, 4] 2 Evaluation, FromData [5, 6] 2 Evaluation, OnPolys (CAddp 17) 0 1, OnPoly (CNegp 17) 2,
      OnPoly (CNttRoot 17 1) 0, OnPoly (CNegp 17) 9, Halt]"


end
