(* ===== verification/ApiModuli.thy ===== *)
theory ApiModuli
  imports ApiTrace
begin

text \<open>
  Two contracts of the recording interface its comments state: the first real modulus bound to an
  address wins over the copy sentinel and over every later one, and a call with a bad root of unity
  leaves everything as it was.
\<close>

section \<open>Binding moduli\<close>

definition remember_all :: "(u64 \<times> u64) list \<Rightarrow> unit api" where
  "remember_all aqs = api_fold (\<lambda>(a, q) _. remember_modulus a q) aqs ()"

text \<open>The binding an address ends with, given the one it had and the moduli mentioned for it.\<close>

definition bound_modulus :: "u64 option \<Rightarrow> u64 list \<Rightarrow> u64 option" where
  "bound_modulus old qs =
     (case find (\<lambda>q. q \<noteq> COPY_MODULUS_VALUE) (case old of Some q \<Rightarrow> q # qs | None \<Rightarrow> qs) of
        Some q \<Rightarrow> Some q
      | None \<Rightarrow> if old = None \<and> qs = [] then None else Some COPY_MODULUS_VALUE)"

definition mentions :: "u64 \<Rightarrow> (u64 \<times> u64) list \<Rightarrow> u64 list" where
  "mentions a aqs = map snd (filter (\<lambda>(b, _). b = a) aqs)"

lemma remember_modulus_lookup:
  "address_modulus_map (snd (remember_modulus b q s)) a =
     (if b = a then bound_modulus (address_modulus_map s a) [q] else address_modulus_map s a)"
  by (auto simp: remember_modulus_def Let_def bound_modulus_def COPY_MODULUS_VALUE_def split: option.split)

lemma bound_modulus_Cons: "bound_modulus old (q # qs) = bound_modulus (bound_modulus old [q]) qs"
  by (auto simp: bound_modulus_def split: option.split)

lemma bound_modulus_Nil [simp]: "bound_modulus old [] = old"
  by (auto simp: bound_modulus_def split: option.split)

lemma remember_all_lookup:
  "address_modulus_map (snd (remember_all aqs s)) a = bound_modulus (address_modulus_map s a) (mentions a aqs)"
proof (induction aqs arbitrary: s)
  case Nil
  then show ?case by (simp add: remember_all_def api_return_def mentions_def)
next
  case (Cons bq aqs)
  obtain b q where bq: "bq = (b, q)" by fastforce
  let ?s = "snd (remember_modulus b q s)"
  have "remember_modulus b q s = (Inr (), ?s)"
    using remember_modulus_run [of b q s] by auto
  then have "remember_all (bq # aqs) s = remember_all aqs ?s"
    by (simp add: remember_all_def bq api_bind_Inr)
  then show ?case
    using Cons [of ?s] bound_modulus_Cons [of "address_modulus_map s a" q "mentions a aqs"]
    by (simp add: bq mentions_def remember_modulus_lookup)
qed

text \<open>
  After any sequence of bindings from an empty map, an address is bound to the first modulus
  mentioned for it that is not the copy sentinel; if only the sentinel was mentioned it is bound to
  the sentinel, and if nothing was it is unbound.
\<close>

theorem first_real_modulus_wins:
  "address_modulus_map (snd (remember_all aqs (s\<lparr>address_modulus_map := Map.empty\<rparr>))) a =
     (case find (\<lambda>q. q \<noteq> COPY_MODULUS_VALUE) (mentions a aqs) of
        Some q \<Rightarrow> Some q
      | None \<Rightarrow> if mentions a aqs = [] then None else Some COPY_MODULUS_VALUE)"
  by (simp add: remember_all_lookup bound_modulus_def)

section \<open>Rejected roots\<close>

lemma require_ntt_roots_run:
  assumes "\<And>q w. (q, w) \<in> set qws \<Longrightarrow> mrp_residues x q \<noteq> None"
  shows "api_fold (\<lambda>(q, omg) _. api_bind (mrp_at x q) (\<lambda>p. require_ntt_root omg (ring_dimension_of p) q)) qws () s =
    ((if list_all (\<lambda>(q, w). is_primitive_2n_root w (ring_dimension_of (the (mrp_residues x q))) q) qws
      then Inr () else Inl InvalidArgument), s)"
  using assms
proof (induction qws)
  case Nil
  then show ?case by (simp add: api_return_def)
next
  case (Cons qw qws)
  obtain q w where qw: "qw = (q, w)" by fastforce
  obtain p where p: "mrp_residues x q = Some p" using Cons.prems [of q w] qw by auto
  let ?f = "\<lambda>(q, omg) (_ :: unit). api_bind (mrp_at x q) (\<lambda>p. require_ntt_root omg (ring_dimension_of p) q)"
  have "?f qw () s = (if is_primitive_2n_root w (ring_dimension_of p) q then Inr () else Inl InvalidArgument, s)"
    using p by (simp add: qw mrp_at_def require_ntt_root_def) (simp add: api_return_def api_throw_def)
  moreover have "api_fold ?f qws () s =
    (if list_all (\<lambda>(q, w). is_primitive_2n_root w (ring_dimension_of (the (mrp_residues x q))) q) qws
     then Inr () else Inl InvalidArgument, s)"
    using Cons.IH Cons.prems by (meson list.set_intros(2))
  ultimately show ?case
    using p by (cases "is_primitive_2n_root w (ring_dimension_of p) q") (simp_all add: qw api_bind_Inr api_bind_Inl)
qed

text \<open>
  A transform with a chosen root is refused with \<open>invalid_argument\<close> exactly when the root is not a
  canonical primitive 2N-th root for the residue's modulus, or, for a multi-residue value, when the
  number of roots is wrong or any one root is not; a refused call leaves allocator, modulus map,
  registries and trace as they were.
\<close>

theorem rejected_root_leaves_state:
  "(\<not> is_primitive_2n_root w (ring_dimension_of a) q \<longrightarrow>
      sr_ntt_with_root a q w s = (Inl InvalidArgument, s) \<and>
      sr_intt_with_root a q w s = (Inl InvalidArgument, s)) \<and>
   ((\<forall>q \<in> set (mrp_base x). mrp_residues x q \<noteq> None) \<and>
    (length ws \<noteq> length (mrp_base x) \<or>
     (\<exists>i < length ws. \<not> is_primitive_2n_root (ws ! i)
        (ring_dimension_of (the (mrp_residues x (mrp_base x ! i)))) (mrp_base x ! i))) \<longrightarrow>
      mr_ntt_with_roots x ws s = (Inl InvalidArgument, s) \<and>
      mr_intt_with_roots x ws s = (Inl InvalidArgument, s))"
proof -
  have "require_ntt_roots x ws s = (Inl InvalidArgument, s)"
    if res: "\<forall>q \<in> set (mrp_base x). mrp_residues x q \<noteq> None"
      and bad: "length ws \<noteq> length (mrp_base x) \<or>
        (\<exists>i < length ws. \<not> is_primitive_2n_root (ws ! i)
          (ring_dimension_of (the (mrp_residues x (mrp_base x ! i)))) (mrp_base x ! i))"
  proof (cases "length ws = length (mrp_base x)")
    case True
    then have "\<not> list_all (\<lambda>(q, w). is_primitive_2n_root w (ring_dimension_of (the (mrp_residues x q))) q)
        (zip (mrp_base x) ws)"
      using bad by (auto simp: list_all_length)
    moreover have "mrp_residues x q \<noteq> None" if "(q, w) \<in> set (zip (mrp_base x) ws)" for q w
      using res set_zip_leftD [OF that] by blast
    ultimately show ?thesis
      using True require_ntt_roots_run [of "zip (mrp_base x) ws" x s] by (simp add: require_ntt_roots_def)
  qed (simp add: require_ntt_roots_def api_throw_def)
  then show ?thesis
    by (auto simp: sr_ntt_with_root_def sr_intt_with_root_def require_ntt_root_def mr_ntt_with_roots_def
        mr_intt_with_roots_def api_seq_def api_throw_def api_bind_run)
qed

theorem rejected_root_leaves_state_witness:
  "sr_ntt_with_root (Some \<lparr>pi_address = 0, pi_ring_dim = 4, pi_fmt = Coefficient, pi_ntype = Integer,
       pi_int_data = [], pi_fp_data = []\<rparr>) 17 4 ApiState_init = (Inl InvalidArgument, ApiState_init) \<and>
   mr_ntt_with_roots MRP_empty [2] ApiState_init = (Inl InvalidArgument, ApiState_init)"
proof -
  have "\<not> is_primitive_2n_root 4 4 17" by code_simp
  then show ?thesis
    using rejected_root_leaves_state [of 4 "Some \<lparr>pi_address = 0, pi_ring_dim = 4, pi_fmt = Coefficient,
        pi_ntype = Integer, pi_int_data = [], pi_fp_data = []\<rparr>" 17 ApiState_init MRP_empty "[2]"]
    by (simp add: ring_dimension_of_def MRP_empty_def)
qed

end
