(* ===== verification/ApiHandles.thy ===== *)
theory ApiHandles
  imports ApiState
begin

text \<open>
  The values a client holds as what they are, shared pointers (\<open>src/fhetch_api.cpp\<close>): copying a
  multi-residue polynomial or an array copies the pointer, and a write through one handle is seen through
  every copy, the one in the registry of tagged values included.  \<open>ApiState\<close> keeps the contents instead;
  this theory says when that is the same.
\<close>

section \<open>Objects and handles\<close>

text \<open>
  Objects are numbered in the order they are made and are never destroyed while a handle is left.  A
  handle that was moved from is \<open>None\<close>; a copied handle is the same number.  Polynomials are never written
  and stay values.
\<close>

type_synonym handle = "nat option"

record Store =
  st_mrps :: "MRP list"
  st_srpas :: "Polynomial list list"
  st_mrpas :: "handle list list"

definition Store_init :: Store where
  "Store_init = \<lparr>st_mrps = [], st_srpas = [], st_mrpas = []\<rparr>"

text \<open>The contents a read goes to; every reader treats a null handle as the empty value.\<close>

definition view_mrp :: "Store \<Rightarrow> handle \<Rightarrow> MRP" where
  "view_mrp st h = (case h of None \<Rightarrow> MRP_empty | Some i \<Rightarrow> st_mrps st ! i)"

definition view_srpa :: "Store \<Rightarrow> handle \<Rightarrow> SRPArray" where
  "view_srpa st h = (case h of None \<Rightarrow> [] | Some i \<Rightarrow> st_srpas st ! i)"

definition mrpa_handles :: "Store \<Rightarrow> handle \<Rightarrow> handle list" where
  "mrpa_handles st h = (case h of None \<Rightarrow> [] | Some i \<Rightarrow> st_mrpas st ! i)"

definition view_mrpa :: "Store \<Rightarrow> handle \<Rightarrow> MRPArray" where
  "view_mrpa st h = map (view_mrp st) (mrpa_handles st h)"

text \<open>Multi-residue polynomials.\<close>

definition mrp_make :: "MRP \<Rightarrow> Store \<Rightarrow> handle \<times> Store" where
  "mrp_make m st = (Some (length (st_mrps st)), st\<lparr>st_mrps := st_mrps st @ [m]\<rparr>)"

definition mrp_default :: "Store \<Rightarrow> handle \<times> Store" where
  "mrp_default = mrp_make MRP_empty"

definition mrp_read :: "handle \<Rightarrow> u64 \<Rightarrow> Store \<Rightarrow> cpp_error + Polynomial" where
  "mrp_read h q st =
     (case h of None \<Rightarrow> Inl OutOfRange
      | Some i \<Rightarrow> case mrp_residues (st_mrps st ! i) q of None \<Rightarrow> Inl OutOfRange | Some p \<Rightarrow> Inr p)"

definition mrp_write :: "handle \<Rightarrow> u64 \<Rightarrow> Polynomial \<Rightarrow> Store \<Rightarrow> cpp_error + Store" where
  "mrp_write h q p st =
     (case h of None \<Rightarrow> Inl OutOfRange
      | Some i \<Rightarrow> let m = st_mrps st ! i in
          case mrp_residues m q of None \<Rightarrow> Inl OutOfRange
          | Some _ \<Rightarrow> Inr (st\<lparr>st_mrps := (st_mrps st)[i := m\<lparr>mrp_residues := (mrp_residues m)(q \<mapsto> p)\<rparr>]\<rparr>))"

definition mrp_handle_base :: "handle \<Rightarrow> Store \<Rightarrow> ModuliBase" where
  "mrp_handle_base h st = (case h of None \<Rightarrow> [] | Some i \<Rightarrow> mrp_base (st_mrps st ! i))"

definition mrp_num_residues :: "handle \<Rightarrow> Store \<Rightarrow> nat" where
  "mrp_num_residues h st = (case h of None \<Rightarrow> 0 | Some i \<Rightarrow> length (mrp_base (st_mrps st ! i)))"

definition mrp_handle_valid :: "handle \<Rightarrow> Store \<Rightarrow> bool" where
  "mrp_handle_valid h st \<longleftrightarrow> (case h of None \<Rightarrow> False | Some i \<Rightarrow> mrp_base (st_mrps st ! i) \<noteq> [])"

text \<open>Arrays of polynomials.\<close>

definition srpa_make :: "Polynomial list \<Rightarrow> Store \<Rightarrow> handle \<times> Store" where
  "srpa_make ps st = (Some (length (st_srpas st)), st\<lparr>st_srpas := st_srpas st @ [ps]\<rparr>)"

definition srpa_sized :: "nat \<Rightarrow> Store \<Rightarrow> handle \<times> Store" where
  "srpa_sized n = srpa_make (replicate n None)"

definition srpa_length :: "handle \<Rightarrow> Store \<Rightarrow> nat" where
  "srpa_length h st = (case h of None \<Rightarrow> 0 | Some a \<Rightarrow> length (st_srpas st ! a))"

definition srpa_read :: "handle \<Rightarrow> nat \<Rightarrow> Store \<Rightarrow> cpp_error + Polynomial" where
  "srpa_read h i st =
     (case h of None \<Rightarrow> Inl OutOfRange
      | Some a \<Rightarrow> if i \<ge> length (st_srpas st ! a) then Inl OutOfRange else Inr (st_srpas st ! a ! i))"

definition srpa_write :: "handle \<Rightarrow> nat \<Rightarrow> Polynomial \<Rightarrow> Store \<Rightarrow> cpp_error + Store" where
  "srpa_write h i p st =
     (case h of None \<Rightarrow> Inl OutOfRange
      | Some a \<Rightarrow> if i \<ge> length (st_srpas st ! a) then Inl OutOfRange
          else Inr (st\<lparr>st_srpas := (st_srpas st)[a := (st_srpas st ! a)[i := p]]\<rparr>))"

definition srpa_append :: "handle \<Rightarrow> Polynomial \<Rightarrow> Store \<Rightarrow> Store" where
  "srpa_append h p st =
     (case h of None \<Rightarrow> st | Some a \<Rightarrow> st\<lparr>st_srpas := (st_srpas st)[a := st_srpas st ! a @ [p]]\<rparr>)"

text \<open>Arrays of multi-residue polynomials; \<open>MRPArray(n)\<close> makes \<open>n\<close> objects of their own.\<close>

definition mrpa_make :: "handle list \<Rightarrow> Store \<Rightarrow> handle \<times> Store" where
  "mrpa_make hs st = (Some (length (st_mrpas st)), st\<lparr>st_mrpas := st_mrpas st @ [hs]\<rparr>)"

definition mrpa_sized :: "nat \<Rightarrow> Store \<Rightarrow> handle \<times> Store" where
  "mrpa_sized n st =
     mrpa_make (map Some [length (st_mrps st)..<length (st_mrps st) + n])
       (st\<lparr>st_mrps := st_mrps st @ replicate n MRP_empty\<rparr>)"

definition mrpa_length :: "handle \<Rightarrow> Store \<Rightarrow> nat" where
  "mrpa_length h st = (case h of None \<Rightarrow> 0 | Some a \<Rightarrow> length (st_mrpas st ! a))"

definition mrpa_read :: "handle \<Rightarrow> nat \<Rightarrow> Store \<Rightarrow> cpp_error + handle" where
  "mrpa_read h i st =
     (case h of None \<Rightarrow> Inl OutOfRange
      | Some a \<Rightarrow> if i \<ge> length (st_mrpas st ! a) then Inl OutOfRange else Inr (st_mrpas st ! a ! i))"

definition mrpa_write :: "handle \<Rightarrow> nat \<Rightarrow> handle \<Rightarrow> Store \<Rightarrow> cpp_error + Store" where
  "mrpa_write h i m st =
     (case h of None \<Rightarrow> Inl OutOfRange
      | Some a \<Rightarrow> if i \<ge> length (st_mrpas st ! a) then Inl OutOfRange
          else Inr (st\<lparr>st_mrpas := (st_mrpas st)[a := (st_mrpas st ! a)[i := m]]\<rparr>))"

definition mrpa_append :: "handle \<Rightarrow> handle \<Rightarrow> Store \<Rightarrow> Store" where
  "mrpa_append h m st =
     (case h of None \<Rightarrow> st | Some a \<Rightarrow> st\<lparr>st_mrpas := (st_mrpas st)[a := st_mrpas st ! a @ [m]]\<rparr>)"

section \<open>Reads and writes go through to the contents\<close>

definition live :: "nat \<Rightarrow> handle \<Rightarrow> bool" where
  "live n h \<longleftrightarrow> (\<forall>i. h = Some i \<longrightarrow> i < n)"

lemma reads_are_content_reads:
  "mrp_read h q st = fst (mrp_at (view_mrp st h) q s)"
  "srpa_read h i st = fst (arr_at (view_srpa st h) i s)"
  "srpa_length h st = length (view_srpa st h)"
  "mrp_handle_base h st = mrp_base (view_mrp st h)"
  "mrp_handle_valid h st = mrp_is_valid (view_mrp st h)"
  "res_bind (mrpa_read h i st) (\<lambda>m. Inr (view_mrp st m)) = fst (arr_at (view_mrpa st h) i s)"
  by (auto simp: mrp_read_def srpa_read_def srpa_length_def mrp_handle_base_def mrp_handle_valid_def mrpa_read_def view_mrp_def
      view_srpa_def view_mrpa_def mrpa_handles_def mrp_at_def arr_at_def mrp_is_valid_def MRP_empty_def api_throw_def
      api_return_def split: option.split)

section \<open>What the registry holds\<close>

text \<open>A registry entry copies the handle of the tagged value.\<close>

datatype handle_tag = HPoly Polynomial | HMrp handle | HMrpa handle | HSrpa handle

definition view_tag :: "Store \<Rightarrow> handle_tag \<Rightarrow> Tagged" where
  "view_tag st t =
     (case t of HPoly p \<Rightarrow> POLY p | HMrp h \<Rightarrow> MRP_KIND (view_mrp st h) | HMrpa h \<Rightarrow> MRPA (view_mrpa st h)
      | HSrpa h \<Rightarrow> SRPA (view_srpa st h))"

text \<open>What a client can do to the objects it holds; a write that throws changes nothing.\<close>

datatype client_write =
    MakeMrp MRP
  | MakeSrpa "Polynomial list"
  | MakeMrpa "handle list"
  | SizeMrpa nat
  | PutMrp handle u64 Polynomial
  | PutSrpa handle nat Polynomial
  | PutMrpa handle nat handle
  | AppendSrpa handle Polynomial
  | AppendMrpa handle handle

definition or_same :: "Store \<Rightarrow> cpp_error + Store \<Rightarrow> Store" where
  "or_same st r = (case r of Inl e \<Rightarrow> st | Inr st' \<Rightarrow> st')"

fun perform :: "client_write \<Rightarrow> Store \<Rightarrow> Store" where
  "perform (MakeMrp m) st = snd (mrp_make m st)"
| "perform (MakeSrpa ps) st = snd (srpa_make ps st)"
| "perform (MakeMrpa hs) st = snd (mrpa_make hs st)"
| "perform (SizeMrpa n) st = snd (mrpa_sized n st)"
| "perform (PutMrp h q p) st = or_same st (mrp_write h q p st)"
| "perform (PutSrpa h i p) st = or_same st (srpa_write h i p st)"
| "perform (PutMrpa h i m) st = or_same st (mrpa_write h i m st)"
| "perform (AppendSrpa h p) st = srpa_append h p st"
| "perform (AppendMrpa h m) st = mrpa_append h m st"

text \<open>The objects a write changes and those a tagged value consists of.\<close>

datatype object = MrpObject nat | SrpaObject nat | MrpaObject nat

fun written :: "client_write \<Rightarrow> object set" where
  "written (PutMrp h q p) = MrpObject ` set_option h"
| "written (PutSrpa h i p) = SrpaObject ` set_option h"
| "written (PutMrpa h i m) = MrpaObject ` set_option h"
| "written (AppendSrpa h p) = SrpaObject ` set_option h"
| "written (AppendMrpa h m) = MrpaObject ` set_option h"
| "written _ = {}"

definition footprint :: "Store \<Rightarrow> handle_tag \<Rightarrow> object set" where
  "footprint st t =
     (case t of HPoly p \<Rightarrow> {} | HMrp h \<Rightarrow> MrpObject ` set_option h | HSrpa h \<Rightarrow> SrpaObject ` set_option h
      | HMrpa h \<Rightarrow> MrpaObject ` set_option h \<union> MrpObject ` (\<Union>m \<in> set (mrpa_handles st h). set_option m))"

text \<open>The objects of a tagged value exist.\<close>

definition tag_ok :: "Store \<Rightarrow> handle_tag \<Rightarrow> bool" where
  "tag_ok st t =
     (case t of HPoly p \<Rightarrow> True | HMrp h \<Rightarrow> live (length (st_mrps st)) h | HSrpa h \<Rightarrow> live (length (st_srpas st)) h
      | HMrpa h \<Rightarrow> live (length (st_mrpas st)) h \<and> (\<forall>m \<in> set (mrpa_handles st h). live (length (st_mrps st)) m))"

lemmas store_defs = mrp_make_def srpa_make_def mrpa_make_def mrpa_sized_def mrp_write_def srpa_write_def mrpa_write_def
  srpa_append_def mrpa_append_def or_same_def Let_def

lemma write_lengths:
  "length (st_mrps (perform w st)) \<ge> length (st_mrps st)"
  "length (st_srpas (perform w st)) \<ge> length (st_srpas st)"
  "length (st_mrpas (perform w st)) \<ge> length (st_mrpas st)"
  by (cases w; simp add: store_defs split: option.split)+

lemma write_frame:
  "i < length (st_mrps st) \<Longrightarrow> MrpObject i \<notin> written w \<Longrightarrow> st_mrps (perform w st) ! i = st_mrps st ! i"
  "i < length (st_srpas st) \<Longrightarrow> SrpaObject i \<notin> written w \<Longrightarrow> st_srpas (perform w st) ! i = st_srpas st ! i"
  "i < length (st_mrpas st) \<Longrightarrow> MrpaObject i \<notin> written w \<Longrightarrow> st_mrpas (perform w st) ! i = st_mrpas st ! i"
  by (cases w; auto simp: store_defs nth_append split: option.splits)+

lemma view_mrp_frame:
  "live (length (st_mrps st)) h \<Longrightarrow> MrpObject ` set_option h \<inter> written w = {} \<Longrightarrow>
    view_mrp (perform w st) h = view_mrp st h"
  by (auto simp: view_mrp_def live_def write_frame split: option.splits)

lemma mrpa_handles_frame:
  "live (length (st_mrpas st)) h \<Longrightarrow> MrpaObject ` set_option h \<inter> written w = {} \<Longrightarrow>
    mrpa_handles (perform w st) h = mrpa_handles st h"
  by (auto simp: mrpa_handles_def live_def write_frame split: option.splits)

lemma write_keeps_tag:
  assumes "tag_ok st t" "footprint st t \<inter> written w = {}"
  shows "view_tag (perform w st) t = view_tag st t \<and> tag_ok (perform w st) t \<and>
    footprint (perform w st) t = footprint st t"
proof (cases t)
  case (HMrpa h)
  have a: "mrpa_handles (perform w st) h = mrpa_handles st h"
    using assms HMrpa by (intro mrpa_handles_frame) (auto simp: tag_ok_def footprint_def)
  have "view_mrp (perform w st) m = view_mrp st m" if "m \<in> set (mrpa_handles st h)" for m
    using assms that HMrpa by (intro view_mrp_frame) (auto simp: tag_ok_def footprint_def)
  then show ?thesis
    using assms(1) HMrpa a write_lengths [of st w]
    by (auto simp: view_tag_def view_mrpa_def footprint_def tag_ok_def live_def intro: less_le_trans)
next
  case (HMrp h)
  then show ?thesis
    using assms view_mrp_frame [of st h w] write_lengths(1) [of st w]
    by (auto simp: view_tag_def footprint_def tag_ok_def live_def intro: less_le_trans)
next
  case (HSrpa h)
  then show ?thesis
    using assms write_frame(2) [of _ st w] write_lengths(2) [of st w]
    by (auto simp: view_tag_def view_srpa_def footprint_def tag_ok_def live_def intro: less_le_trans split: option.splits)
qed (simp add: view_tag_def footprint_def tag_ok_def)

definition client_writes :: "client_write list \<Rightarrow> Store \<Rightarrow> Store" where
  "client_writes ws st = fold perform ws st"


definition example_store :: Store where
  "example_store = snd (srpa_make [None, None] (snd (mrpa_sized 2 Store_init)))"


end
