(* ===== verification/SimMemory.thy ===== *)
theory SimMemory
  imports Prelude
begin

text \<open>
  The simulator's memory (\<open>src/fhetch_sim/memory.h\<close>): one retained buffer per address, reserved and
  committed by the kernels.  \<open>mem_view\<close> is what a reader can see of an address.
\<close>

record MemoryElement =
  me_values :: "u64 list"
  me_modulus :: u64
  me_initialized :: bool

definition MemoryElement_init :: MemoryElement where
  "MemoryElement_init = \<lparr>me_values = [], me_modulus = 0, me_initialized = False\<rparr>"

record Memory =
  mem_map :: "u64 \<rightharpoonup> MemoryElement"
  mem_ring_dim :: nat

definition Memory_init :: Memory where
  "Memory_init = \<lparr>mem_map = Map.empty, mem_ring_dim = 0\<rparr>"

definition set_ring_dim :: "nat \<Rightarrow> Memory \<Rightarrow> Memory" where
  "set_ring_dim n m = m\<lparr>mem_ring_dim := n\<rparr>"

text \<open>\<open>vector::resize\<close> cuts the tail or fills with zeros.\<close>

definition vec_resize :: "nat \<Rightarrow> u64 list \<Rightarrow> u64 list" where
  "vec_resize n xs = take n xs @ replicate (n - length xs) 0"

text \<open>\<open>mem_[address]\<close> inserts a default element when there is none.\<close>

definition mem_at :: "u64 \<Rightarrow> Memory \<Rightarrow> MemoryElement" where
  "mem_at a m = (case mem_map m a of Some e \<Rightarrow> e | None \<Rightarrow> MemoryElement_init)"

definition mem_put :: "u64 \<Rightarrow> MemoryElement \<Rightarrow> Memory \<Rightarrow> Memory" where
  "mem_put a e m = m\<lparr>mem_map := (mem_map m)(a \<mapsto> e)\<rparr>"

text \<open>
  \<open>reserve_dest\<close> returns a reference to the slot's buffer: here its contents, which the caller
  overwrites with \<open>fill_dest\<close>.
\<close>

definition reserve_dest :: "u64 \<Rightarrow> Memory \<Rightarrow> u64 list \<times> Memory" where
  "reserve_dest a m =
     (let elem = mem_at a m in
      if length (me_values elem) = mem_ring_dim m then (me_values elem, mem_put a elem m)
      else let vals = vec_resize (mem_ring_dim m) (me_values elem)
           in (vals, mem_put a (elem\<lparr>me_values := vals\<rparr>) m))"

definition fill_dest :: "u64 \<Rightarrow> u64 list \<Rightarrow> Memory \<Rightarrow> Memory" where
  "fill_dest a vals m = mem_put a ((mem_at a m)\<lparr>me_values := vals\<rparr>) m"

definition commit_dest :: "u64 \<Rightarrow> u64 \<Rightarrow> Memory \<Rightarrow> Memory" where
  "commit_dest a q m = mem_put a ((mem_at a m)\<lparr>me_modulus := q, me_initialized := True\<rparr>) m"

text \<open>
  \<open>std::copy\<close> into a reserved buffer writes past its end when the source is longer.
\<close>

definition mem_set :: "u64 \<Rightarrow> u64 list \<Rightarrow> u64 \<Rightarrow> Memory \<Rightarrow> cpp_error + Memory" where
  "mem_set a vals q m =
     (let (out, m) = reserve_dest a m in
      if length vals > length out then Inl OutOfBoundsAccess
      else Inr (commit_dest a q (fill_dest a (vals @ drop (length vals) out) m)))"

definition set_owned :: "u64 \<Rightarrow> u64 list \<Rightarrow> u64 \<Rightarrow> Memory \<Rightarrow> Memory" where
  "set_owned a vals q m =
     mem_put a \<lparr>me_values = vec_resize (mem_ring_dim m) vals, me_modulus = q, me_initialized = True\<rparr> m"

definition mem_erase :: "u64 \<Rightarrow> Memory \<Rightarrow> Memory" where
  "mem_erase a m = m\<lparr>mem_map := (mem_map m)(a := None)\<rparr>"

definition mem_get :: "u64 \<Rightarrow> Memory \<Rightarrow> MemoryElement" where
  "mem_get a m = (case mem_map m a of Some e \<Rightarrow> e | None \<Rightarrow> MemoryElement_init)"

definition mem_is_initialized :: "u64 \<Rightarrow> Memory \<Rightarrow> bool" where
  "mem_is_initialized a m = (case mem_map m a of Some e \<Rightarrow> me_initialized e | None \<Rightarrow> False)"

definition mem_size :: "Memory \<Rightarrow> nat" where
  "mem_size m = card (dom (mem_map m))"

section \<open>What a reader sees\<close>

definition mem_view :: "u64 \<Rightarrow> Memory \<Rightarrow> MemoryElement option" where
  "mem_view a m = (if mem_is_initialized a m then Some (mem_get a m) else None)"

lemma mem_is_initialized_view: "mem_is_initialized a m \<longleftrightarrow> mem_view a m \<noteq> None"
  by (simp add: mem_view_def)

lemma mem_get_view: "mem_view a m = Some e \<Longrightarrow> mem_get a m = e"
  by (simp add: mem_view_def split: if_splits)

lemma mem_view_put:
  "mem_view a (mem_put b e m) =
     (if a = b then (if me_initialized e then Some e else None) else mem_view a m)"
  by (simp add: mem_view_def mem_put_def mem_is_initialized_def mem_get_def)

lemma mem_view_erase: "mem_view a (mem_erase b m) = (if a = b then None else mem_view a m)"
  by (simp add: mem_view_def mem_erase_def mem_is_initialized_def mem_get_def)

lemma mem_at_put: "mem_at a (mem_put b e m) = (if a = b then e else mem_at a m)"
  by (simp add: mem_at_def mem_put_def)

lemma ring_dim_put [simp]: "mem_ring_dim (mem_put b e m) = mem_ring_dim m"
  by (simp add: mem_put_def)

lemma ring_dim_erase [simp]: "mem_ring_dim (mem_erase b m) = mem_ring_dim m"
  by (simp add: mem_erase_def)

lemma length_vec_resize [simp]: "length (vec_resize n xs) = n"
  by (simp add: vec_resize_def)

lemma vec_resize_id: "length xs = n \<Longrightarrow> vec_resize n xs = xs"
  by (simp add: vec_resize_def)

text \<open>A reserve, fill and commit replaces the element as a whole and touches no other address.\<close>

definition write_slot :: "u64 \<Rightarrow> u64 \<Rightarrow> u64 list \<Rightarrow> Memory \<Rightarrow> Memory" where
  "write_slot a q vals m = commit_dest a q (fill_dest a vals (snd (reserve_dest a m)))"

lemma length_reserve_dest [simp]: "length (fst (reserve_dest a m)) = mem_ring_dim m"
  by (simp add: reserve_dest_def Let_def)

lemma write_slot_view:
  "mem_view b (write_slot a q vals m) =
     (if b = a then Some \<lparr>me_values = vals, me_modulus = q, me_initialized = True\<rparr> else mem_view b m)"
  by (cases "mem_at a m")
     (simp add: write_slot_def commit_dest_def fill_dest_def reserve_dest_def Let_def mem_view_put mem_at_put)

lemma ring_dim_write_slot [simp]: "mem_ring_dim (write_slot a q vals m) = mem_ring_dim m"
  by (simp add: write_slot_def commit_dest_def fill_dest_def reserve_dest_def Let_def)

lemma mem_set_write_slot:
  "mem_set a vals q m =
     (if length vals > mem_ring_dim m then Inl OutOfBoundsAccess
      else Inr (write_slot a q (vals @ drop (length vals) (fst (reserve_dest a m))) m))"
proof -
  obtain out m' where r: "reserve_dest a m = (out, m')" by fastforce
  have "length out = mem_ring_dim m" using length_reserve_dest [of a m] r by simp
  then show ?thesis using r by (simp add: mem_set_def write_slot_def Let_def)
qed

section \<open>Store and load\<close>

text \<open>
  What is stored is what is read.  Storing a full-size polynomial makes its address
  initialised with exactly those values and that modulus, whatever the slot held before, and leaves
  every other address as it was; storing one longer than the ring dimension writes out of bounds;
  the donating overload agrees with the copying one on full-size polynomials, and cuts or
  zero-fills the others.
\<close>

theorem store_polynomial_spec:
  "(length vals = mem_ring_dim m \<longrightarrow>
      (\<exists>m'. mem_set a vals q m = Inr m' \<and>
         mem_view a m' = Some \<lparr>me_values = vals, me_modulus = q, me_initialized = True\<rparr> \<and>
         mem_view a (set_owned a vals q m) = mem_view a m' \<and>
         (\<forall>b. b \<noteq> a \<longrightarrow> mem_view b m' = mem_view b m \<and> mem_view b (set_owned a vals q m) = mem_view b m))) \<and>
   (length vals > mem_ring_dim m \<longrightarrow> mem_set a vals q m = Inl OutOfBoundsAccess) \<and>
   me_values (mem_get a (set_owned a vals q m)) =
     take (mem_ring_dim m) vals @ replicate (mem_ring_dim m - length vals) 0"
  by (simp add: mem_set_write_slot write_slot_view set_owned_def mem_view_put vec_resize_id)
     (simp add: mem_get_def mem_put_def vec_resize_def)

theorem store_polynomial_spec_witness:
  "\<exists>m'. mem_set 7 [1, 2] 97 (set_ring_dim 2 Memory_init) = Inr m' \<and>
     mem_view 7 m' = Some \<lparr>me_values = [1, 2], me_modulus = 97, me_initialized = True\<rparr> \<and>
     mem_set 7 [1, 2, 3] 97 (set_ring_dim 2 Memory_init) = Inl OutOfBoundsAccess"
  using store_polynomial_spec [of "[1, 2]" "set_ring_dim 2 Memory_init" 7 97]
    store_polynomial_spec [of "[1, 2, 3]" "set_ring_dim 2 Memory_init" 7 97]
  by (auto simp: set_ring_dim_def)

end
