(* ===== verification/Simulator.thy ===== *)
theory Simulator
  imports SimMemory Checks FhetchIr
begin

text \<open>
  The instruction-set simulator (\<open>src/fhetch_sim/simulator.cpp\<close>): the kernels, the execution loop and
  the liveness pass, over the memory of the previous theory.

  The modular arithmetic and the transforms belong to OpenFHE, a third-party library: they are the
  fields of \<open>backend\<close>, an argument of every kernel.  An operation that library documents to throw
  answers \<open>None\<close>.  Console output is left out.
\<close>

section \<open>The arithmetic library\<close>

record backend =
  be_mod_add :: "u64 \<Rightarrow> u64 list \<Rightarrow> u64 list \<Rightarrow> u64 list"
  be_mod_sub :: "u64 \<Rightarrow> u64 list \<Rightarrow> u64 list \<Rightarrow> u64 list"
  be_mod_mul :: "u64 \<Rightarrow> u64 list \<Rightarrow> u64 list \<Rightarrow> u64 list"
  be_mod_add_eq :: "u64 \<Rightarrow> u64 list \<Rightarrow> u64 \<Rightarrow> u64 list"
  be_mod_sub_eq :: "u64 \<Rightarrow> u64 list \<Rightarrow> u64 \<Rightarrow> u64 list"
  be_mod_mul_eq :: "u64 \<Rightarrow> u64 list \<Rightarrow> u64 \<Rightarrow> u64 list"
  be_int_mod_mul :: "u64 \<Rightarrow> u64 \<Rightarrow> u64 \<Rightarrow> u64"
  be_mod_inverse :: "u64 \<Rightarrow> u64 \<Rightarrow> u64 option"
  be_prep_mod_mul :: "u64 \<Rightarrow> u64 \<Rightarrow> u64"
  be_get_msb :: "u32 \<Rightarrow> u32"
  be_reverse_bits :: "u32 \<Rightarrow> u32 \<Rightarrow> u32"
  be_root_of_unity :: "u64 \<Rightarrow> u64 \<Rightarrow> u64 option"
  be_forward :: "u64 \<Rightarrow> u64 list \<Rightarrow> u64 list \<Rightarrow> u64 list \<Rightarrow> u64 list"
  be_inverse :: "u64 \<Rightarrow> u64 list \<Rightarrow> u64 list \<Rightarrow> u64 \<Rightarrow> u64 \<Rightarrow> u64 list \<Rightarrow> u64 list"

definition opt_throw :: "'a option \<Rightarrow> cpp_error + 'a" where
  "opt_throw x = (case x of Some v \<Rightarrow> Inr v | None \<Rightarrow> Inl RuntimeError)"

section \<open>State\<close>

record NttTables =
  nt_forward :: "u64 list"
  nt_forward_precon :: "u64 list"
  nt_inverse :: "u64 list"
  nt_inverse_precon :: "u64 list"
  nt_n_inverse :: u64
  nt_n_inverse_precon :: u64

record SimImpl =
  im_ring_dim :: u64
  im_trace :: Program
  im_memory :: Memory
  im_error_count :: nat
  im_ntt_tables :: "u64 \<times> u64 option \<rightharpoonup> NttTables"
  im_warned_uninit :: "u64 set"
  im_free_after :: "u64 list list"
  im_live_out :: "u64 set"

definition SimImpl_init :: SimImpl where
  "SimImpl_init =
     \<lparr>im_ring_dim = 0, im_trace = Program_init, im_memory = Memory_init, im_error_count = 0,
      im_ntt_tables = Map.empty, im_warned_uninit = {}, im_free_after = [], im_live_out = {}\<rparr>"

definition sim_error :: "SimImpl \<Rightarrow> SimImpl" where
  "sim_error s = s\<lparr>im_error_count := im_error_count s + 1\<rparr>"

definition resolve_modulus :: "Instruction \<Rightarrow> SimImpl \<Rightarrow> u64 \<times> SimImpl" where
  "resolve_modulus inst s =
     (case modulus inst of
        None \<Rightarrow> (0, sim_error s)
      | Some m \<Rightarrow>
          if modulus_is_literal inst then (m, s)
          else if unat m < length (modulus_table (im_trace s))
          then (modulus_table (im_trace s) ! unat m, s)
          else (0, sim_error s))"

section \<open>Twiddle tables\<close>

text \<open>The table loop; a slot outside the vectors would be an unchecked access.\<close>

fun ntt_table_loop ::
  "backend \<Rightarrow> u64 \<Rightarrow> u64 \<Rightarrow> u64 \<Rightarrow> u32 \<Rightarrow> nat list \<Rightarrow> u64 \<Rightarrow> u64 \<Rightarrow> NttTables \<Rightarrow> cpp_error + NttTables" where
  "ntt_table_loop be q psi psi_inv log_n [] pw ipw t = Inr t"
| "ntt_table_loop be q psi psi_inv log_n (i # is) pw ipw t =
     (let slot = unat (be_reverse_bits be (of_nat i) log_n) in
      if slot \<ge> length (nt_forward t) then Inl OutOfBoundsAccess
      else
        ntt_table_loop be q psi psi_inv log_n is (be_int_mod_mul be pw psi q)
          (be_int_mod_mul be ipw psi_inv q)
          (t\<lparr>nt_forward := (nt_forward t)[slot := pw],
             nt_forward_precon := (nt_forward_precon t)[slot := be_prep_mod_mul be pw q],
             nt_inverse := (nt_inverse t)[slot := ipw],
             nt_inverse_precon := (nt_inverse_precon t)[slot := be_prep_mod_mul be ipw q]\<rparr>))"

definition build_ntt_tables :: "backend \<Rightarrow> u64 \<Rightarrow> u64 \<Rightarrow> u64 \<Rightarrow> cpp_error + NttTables" where
  "build_ntt_tables be ring_dim q root =
     res_bind (opt_throw (be_mod_inverse be root q)) (\<lambda>psi_inverse.
     let n = (ucast ring_dim :: u32); log_n = be_get_msb be (n - 1) in
     res_bind (opt_throw (be_mod_inverse be (ucast n) q)) (\<lambda>n_inverse.
       ntt_table_loop be q root psi_inverse log_n [0..<unat n] 1 1
         \<lparr>nt_forward = replicate (unat n) 0, nt_forward_precon = replicate (unat n) 0,
          nt_inverse = replicate (unat n) 0, nt_inverse_precon = replicate (unat n) 0,
          nt_n_inverse = n_inverse, nt_n_inverse_precon = be_prep_mod_mul be n_inverse q\<rparr>))"

text \<open>The null pointer is \<open>None\<close>.\<close>

definition ntt_tables_for ::
  "backend \<Rightarrow> Instruction \<Rightarrow> u64 \<Rightarrow> SimImpl \<Rightarrow> cpp_error + NttTables option \<times> SimImpl" where
  "ntt_tables_for be inst q s =
     (let key = (q, omega inst) in
      case im_ntt_tables s key of
        Some t \<Rightarrow> Inr (Some t, s)
      | None \<Rightarrow>
          let build = (\<lambda>root.
                res_bind (build_ntt_tables be (im_ring_dim s) q root) (\<lambda>t.
                  Inr (Some t, s\<lparr>im_ntt_tables := (im_ntt_tables s)(key \<mapsto> t)\<rparr>))) in
          case omega inst of
            Some root \<Rightarrow>
              if \<not> is_primitive_2n_root root (im_ring_dim s) q then Inr (None, sim_error s)
              else build root
          | None \<Rightarrow> res_bind (opt_throw (be_root_of_unity be (2 * im_ring_dim s) q)) build)"

section \<open>Uses of an instruction\<close>

record InstUses =
  iu_write :: u64
  iu_writes :: bool
  iu_reads :: "u64 list"

definition iu_none :: InstUses where
  "iu_none = \<lparr>iu_write = 0, iu_writes = False, iu_reads = []\<rparr>"

definition classify_uses :: "Instruction \<Rightarrow> InstUses" where
  "classify_uses inst =
     (if opcode inst \<in> {FH_ILL, FH_HALT, FH_SR_PERMUTE, FH_SR_AUTOMORPH_COEFF, FH_SR_NEGP_NI,
           FH_SR_FT, FH_SR_IFT, FH_SR_ADDP_NI, FH_SR_SUBP_NI, FH_SR_MULP_NI, FH_SR_ADDPS_NI,
           FH_SR_SUBPS_NI, FH_SR_MULPS_NI, FH_SR_ADDPS_COEFF_NI, FH_SR_SUBPS_COEFF_NI}
      then iu_none
      else if opcode inst = FH_SR_MULPS then
        (if (case immediate inst of Some v \<Rightarrow> v | None \<Rightarrow> 0) = 0
         then \<lparr>iu_write = ucast (dest inst), iu_writes = True, iu_reads = []\<rparr>
         else \<lparr>iu_write = ucast (dest inst), iu_writes = True, iu_reads = [ucast (src1 inst)]\<rparr>)
      else if opcode inst \<in> {FH_SR_NEGP, FH_SR_NTT, FH_SR_INTT, FH_SR_AUTOMORPH_EVAL,
           FH_SR_ROT_AUTOMORPH_COEFF, FH_SR_ADDPS, FH_SR_SUBPS, FH_SR_ADDPS_COEFF, FH_SR_SUBPS_COEFF}
      then \<lparr>iu_write = ucast (dest inst), iu_writes = True, iu_reads = [ucast (src1 inst)]\<rparr>
      else \<lparr>iu_write = ucast (dest inst), iu_writes = True,
            iu_reads = [ucast (src1 inst), ucast (src2 inst)]\<rparr>)"

definition get_or_zero :: "u64 \<Rightarrow> SimImpl \<Rightarrow> u64 list \<times> SimImpl" where
  "get_or_zero addr s =
     (if mem_is_initialized addr (im_memory s) then (me_values (mem_get addr (im_memory s)), s)
      else (replicate (unat (im_ring_dim s)) 0,
            s\<lparr>im_warned_uninit := insert addr (im_warned_uninit s)\<rparr>))"

section \<open>Kernels\<close>

text \<open>
  The end of every kernel: reserve the destination, fill it from the computed values and commit.
  \<open>fill\<close> sees the old contents of the buffer.
\<close>

definition store_result ::
  "u32 \<Rightarrow> u64 \<Rightarrow> (u64 list \<Rightarrow> u64 list) \<Rightarrow> SimImpl \<Rightarrow> cpp_error + bool \<times> SimImpl" where
  "store_result d q fill s =
     (let (buf, m) = reserve_dest (ucast d) (im_memory s);
          m = fill_dest (ucast d) (fill buf) m;
          m = commit_dest (ucast d) q m
      in Inr (True, s\<lparr>im_memory := m\<rparr>))"

text \<open>\<open>for (i = 0; i < ring_dim; i++) result[i] = v[i];\<close>\<close>

definition copy_result :: "u64 list \<Rightarrow> u64 \<Rightarrow> u64 list \<Rightarrow> u64 list" where
  "copy_result v ring_dim buf = map (\<lambda>i. v ! i) [0..<unat ring_dim] @ drop (unat ring_dim) buf"

definition wrong_size :: "u64 list \<Rightarrow> SimImpl \<Rightarrow> bool" where
  "wrong_size a s \<longleftrightarrow> length a \<noteq> unat (im_ring_dim s)"

text \<open>The three two-source kernels differ in the vector operation only.\<close>

definition exec_binary ::
  "(u64 \<Rightarrow> u64 list \<Rightarrow> u64 list \<Rightarrow> u64 list) \<Rightarrow> Instruction \<Rightarrow> SimImpl \<Rightarrow> cpp_error + bool \<times> SimImpl" where
  "exec_binary vec_op inst s =
     (let (q, s) = resolve_modulus inst s;
          (a, s) = get_or_zero (ucast (src1 inst)) s;
          (b, s) = get_or_zero (ucast (src2 inst)) s in
      if wrong_size a s \<or> wrong_size b s then Inr (False, sim_error s)
      else store_result (dest inst) q (copy_result (vec_op q a b) (im_ring_dim s)) s)"

definition exec_addp :: "backend \<Rightarrow> Instruction \<Rightarrow> SimImpl \<Rightarrow> cpp_error + bool \<times> SimImpl" where
  "exec_addp be = exec_binary (be_mod_add be)"

definition exec_subp :: "backend \<Rightarrow> Instruction \<Rightarrow> SimImpl \<Rightarrow> cpp_error + bool \<times> SimImpl" where
  "exec_subp be = exec_binary (be_mod_sub be)"

definition exec_mulp :: "backend \<Rightarrow> Instruction \<Rightarrow> SimImpl \<Rightarrow> cpp_error + bool \<times> SimImpl" where
  "exec_mulp be = exec_binary (be_mod_mul be)"

definition imm_or_0 :: "Instruction \<Rightarrow> u64" where
  "imm_or_0 inst = (case immediate inst of Some v \<Rightarrow> v | None \<Rightarrow> 0)"

definition exec_addps :: "backend \<Rightarrow> Instruction \<Rightarrow> SimImpl \<Rightarrow> cpp_error + bool \<times> SimImpl" where
  "exec_addps be inst s =
     (let (q, s) = resolve_modulus inst s;
          (a, s) = get_or_zero (ucast (src1 inst)) s in
      if wrong_size a s then Inr (False, sim_error s)
      else if imm_or_0 inst = 0
      then store_result (dest inst) q (\<lambda>out. a @ drop (length a) out) s
      else store_result (dest inst) q
             (copy_result (be_mod_add_eq be q a (imm_or_0 inst)) (im_ring_dim s)) s)"

definition exec_subps :: "backend \<Rightarrow> Instruction \<Rightarrow> SimImpl \<Rightarrow> cpp_error + bool \<times> SimImpl" where
  "exec_subps be inst s =
     (let (q, s) = resolve_modulus inst s;
          (a, s) = get_or_zero (ucast (src1 inst)) s in
      if wrong_size a s then Inr (False, sim_error s)
      else store_result (dest inst) q
             (copy_result (be_mod_sub_eq be q a (imm_or_0 inst)) (im_ring_dim s)) s)"

definition exec_mulps :: "backend \<Rightarrow> Instruction \<Rightarrow> SimImpl \<Rightarrow> cpp_error + bool \<times> SimImpl" where
  "exec_mulps be inst s =
     (let (q, s) = resolve_modulus inst s in
      if imm_or_0 inst = 0
      then store_result (dest inst) q (\<lambda>out. replicate (length out) 0) s
      else
        let (a, s) = get_or_zero (ucast (src1 inst)) s in
        if wrong_size a s then Inr (False, sim_error s)
        else store_result (dest inst) q
               (copy_result (be_mod_mul_eq be q a (imm_or_0 inst)) (im_ring_dim s)) s)"

definition exec_negp :: "Instruction \<Rightarrow> SimImpl \<Rightarrow> cpp_error + bool \<times> SimImpl" where
  "exec_negp inst s =
     (let (q, s) = resolve_modulus inst s;
          (a, s) = get_or_zero (ucast (src1 inst)) s in
      if wrong_size a s then Inr (False, sim_error s)
      else store_result (dest inst) q
             (copy_result (map (\<lambda>x. if x = 0 then 0 else q - x) a) (im_ring_dim s)) s)"

text \<open>The two transforms share the table lookup.\<close>

definition exec_transform ::
  "backend \<Rightarrow> (u64 \<Rightarrow> NttTables \<Rightarrow> u64 list \<Rightarrow> u64 list) \<Rightarrow> Instruction \<Rightarrow> SimImpl \<Rightarrow>
     cpp_error + bool \<times> SimImpl" where
  "exec_transform be tr inst s =
     (let (q, s) = resolve_modulus inst s;
          (a, s) = get_or_zero (ucast (src1 inst)) s in
      if wrong_size a s then Inr (False, sim_error s)
      else
        res_bind (ntt_tables_for be inst q s) (\<lambda>(tables, s).
          case tables of
            None \<Rightarrow> Inr (False, s)
          | Some t \<Rightarrow> store_result (dest inst) q (copy_result (tr q t a) (im_ring_dim s)) s))"

definition exec_ntt :: "backend \<Rightarrow> Instruction \<Rightarrow> SimImpl \<Rightarrow> cpp_error + bool \<times> SimImpl" where
  "exec_ntt be =
     exec_transform be (\<lambda>q t. be_forward be q (nt_forward t) (nt_forward_precon t))"

definition exec_intt :: "backend \<Rightarrow> Instruction \<Rightarrow> SimImpl \<Rightarrow> cpp_error + bool \<times> SimImpl" where
  "exec_intt be =
     exec_transform be (\<lambda>q t. be_inverse be q (nt_inverse t) (nt_inverse_precon t) (nt_n_inverse t)
       (nt_n_inverse_precon t))"

text \<open>The automorphism in evaluation form.\<close>

fun log2_loop :: "nat \<Rightarrow> nat" where
  "log2_loop n = (if n > 1 then log2_loop (n div 2) + 1 else 0)"

declare log2_loop.simps [simp del]

definition rev_bits :: "u32 \<Rightarrow> nat \<Rightarrow> u32" where
  "rev_bits x bits =
     fold (\<lambda>i r. if (x AND push_bit i 1) \<noteq> 0 then r OR push_bit (bits - 1 - i) 1 else r) [0..<bits] 0"

fun automorph_loop ::
  "u32 \<Rightarrow> nat \<Rightarrow> u32 \<Rightarrow> u64 list \<Rightarrow> nat list \<Rightarrow> u32 \<Rightarrow> u64 list \<Rightarrow> u64 list" where
  "automorph_loop k lg mk snapshot [] jk result = result"
| "automorph_loop k lg mk snapshot (j # js) jk result =
     automorph_loop k lg mk snapshot js (jk + 2 * k)
       (result[unat (rev_bits (of_nat j) lg) := snapshot ! unat (rev_bits (drop_bit 1 jk AND mk) lg)])"

definition exec_automorph_eval :: "Instruction \<Rightarrow> SimImpl \<Rightarrow> cpp_error + bool \<times> SimImpl" where
  "exec_automorph_eval inst s =
     (let (q, s) = resolve_modulus inst s;
          (a, s) = get_or_zero (ucast (src1 inst)) s in
      if wrong_size a s then Inr (False, sim_error s)
      else
        case k_op inst of
          None \<Rightarrow> Inr (False, sim_error s)
        | Some k64 \<Rightarrow>
            if unat (im_ring_dim s) > 2 ^ 32 then Inl Diverges
            else
              let k = (ucast k64 :: u32);
                  lg = log2_loop (unat (ucast (im_ring_dim s) :: u32));
                  mk = push_bit lg 1 - 1
              in store_result (dest inst) q
                   (automorph_loop k lg mk a [0..<unat (im_ring_dim s)] k) s)"

text \<open>The negacyclic rotation: the value of one coefficient, or the fault its computation raises.\<close>

definition rot_value :: "u64 \<Rightarrow> u64 \<Rightarrow> u64 list \<Rightarrow> u64 \<Rightarrow> nat \<Rightarrow> cpp_error + u64" where
  "rot_value q ring_dim snapshot off i =
     (let src_pos = of_nat i + off in
      if src_pos < ring_dim then Inr (snapshot ! unat src_pos)
      else if unat (src_pos - ring_dim) \<ge> length snapshot then Inl OutOfBoundsAccess
      else if q = 0 then Inl DivisionByZero
      else Inr ((q - snapshot ! unat (src_pos - ring_dim)) mod q))"

definition exec_rot_automorph_coeff :: "Instruction \<Rightarrow> SimImpl \<Rightarrow> cpp_error + bool \<times> SimImpl" where
  "exec_rot_automorph_coeff inst s =
     (let (q, s) = resolve_modulus inst s;
          (a, s) = get_or_zero (ucast (src1 inst)) s in
      if wrong_size a s then Inr (False, sim_error s)
      else
        case offset inst of
          None \<Rightarrow> Inr (False, sim_error s)
        | Some off \<Rightarrow>
            res_bind (map_res (rot_value q (im_ring_dim s) a off) [0..<unat (im_ring_dim s)]) (\<lambda>vals.
              store_result (dest inst) q (copy_result vals (im_ring_dim s)) s))"

section \<open>Execution\<close>

text \<open>The dispatch of the loop; an opcode without a case leaves \<open>ok\<close> true.\<close>

definition exec_instruction :: "backend \<Rightarrow> Instruction \<Rightarrow> SimImpl \<Rightarrow> cpp_error + bool \<times> SimImpl" where
  "exec_instruction be inst s =
     (let c = opcode inst in
      if c = FH_SR_ADDP then exec_addp be inst s
      else if c = FH_SR_SUBP then exec_subp be inst s
      else if c = FH_SR_MULP then exec_mulp be inst s
      else if c = FH_SR_ADDPS \<or> c = FH_SR_ADDPS_COEFF then exec_addps be inst s
      else if c = FH_SR_SUBPS \<or> c = FH_SR_SUBPS_COEFF then exec_subps be inst s
      else if c = FH_SR_MULPS then exec_mulps be inst s
      else if c = FH_SR_NEGP then exec_negp inst s
      else if c = FH_SR_NTT then exec_ntt be inst s
      else if c = FH_SR_INTT then exec_intt be inst s
      else if c = FH_SR_AUTOMORPH_EVAL then exec_automorph_eval inst s
      else if c = FH_SR_ROT_AUTOMORPH_COEFF then exec_rot_automorph_coeff inst s
      else Inr (True, s))"

definition free_addresses :: "u64 list \<Rightarrow> SimImpl \<Rightarrow> SimImpl" where
  "free_addresses as s = s\<lparr>im_memory := fold mem_erase as (im_memory s)\<rparr>"

text \<open>The loop of \<open>execute\<close> from instruction \<open>i\<close> on, with the count of executed instructions.\<close>

fun execute_loop ::
  "backend \<Rightarrow> nat \<Rightarrow> Instruction list \<Rightarrow> nat \<Rightarrow> SimImpl \<Rightarrow> cpp_error + nat \<times> SimImpl" where
  "execute_loop be i [] executed s = Inr (executed, s)"
| "execute_loop be i (inst # insts) executed s =
     res_bind (exec_instruction be inst s) (\<lambda>(ok, s).
       let executed = (if ok then executed + 1 else executed);
           s = (if i < length (im_free_after s) then free_addresses (im_free_after s ! i) s else s)
       in execute_loop be (i + 1) insts executed s)"

record SimResult =
  instructions_executed :: nat
  sim_errors :: nat

definition execute :: "backend \<Rightarrow> SimImpl \<Rightarrow> cpp_error + SimResult \<times> SimImpl" where
  "execute be s =
     res_bind (execute_loop be 0 (instructions (im_trace s)) 0 (s\<lparr>im_error_count := 0\<rparr>)) (\<lambda>(n, s').
       Inr (\<lparr>instructions_executed = n, sim_errors = im_error_count s'\<rparr>, s'))"

section \<open>The public interface\<close>

definition set_ring_dimension :: "u64 \<Rightarrow> SimImpl \<Rightarrow> SimImpl" where
  "set_ring_dimension n s =
     s\<lparr>im_ring_dim := n, im_memory := set_ring_dim (unat n) (im_memory s),
       im_ntt_tables := Map.empty\<rparr>"

definition store_polynomial :: "u64 \<Rightarrow> u64 list \<Rightarrow> u64 \<Rightarrow> SimImpl \<Rightarrow> cpp_error + SimImpl" where
  "store_polynomial a vals q s =
     res_bind (mem_set a vals q (im_memory s)) (\<lambda>m. Inr (s\<lparr>im_memory := m\<rparr>))"

definition store_polynomial_owned :: "u64 \<Rightarrow> u64 list \<Rightarrow> u64 \<Rightarrow> SimImpl \<Rightarrow> SimImpl" where
  "store_polynomial_owned a vals q s = s\<lparr>im_memory := set_owned a vals q (im_memory s)\<rparr>"

definition sim_run :: "backend \<Rightarrow> SimImpl \<Rightarrow> cpp_error + SimResult \<times> SimImpl" where
  "sim_run be s =
     (if im_ring_dim s = 0 then Inr (\<lparr>instructions_executed = 0, sim_errors = 1\<rparr>, s)
      else execute be s)"

definition get_polynomial :: "u64 \<Rightarrow> SimImpl \<Rightarrow> u64 list" where
  "get_polynomial a s =
     (if mem_is_initialized a (im_memory s) then me_values (mem_get a (im_memory s)) else [])"

definition get_modulus :: "u64 \<Rightarrow> SimImpl \<Rightarrow> u64" where
  "get_modulus a s = me_modulus (mem_get a (im_memory s))"

definition sim_is_initialized :: "u64 \<Rightarrow> SimImpl \<Rightarrow> bool" where
  "sim_is_initialized a s = mem_is_initialized a (im_memory s)"

text \<open>The nested loops of \<open>get_read_before_write_addresses\<close>.\<close>

fun rbw_reads :: "u64 list \<Rightarrow> u64 set \<Rightarrow> u64 list \<Rightarrow> u64 set \<times> u64 list" where
  "rbw_reads [] written rbw = (written, rbw)"
| "rbw_reads (a # as) written rbw =
     (if a \<notin> written then rbw_reads as (insert a written) (rbw @ [a]) else rbw_reads as written rbw)"

fun rbw_loop :: "Instruction list \<Rightarrow> u64 set \<Rightarrow> u64 list \<Rightarrow> u64 list" where
  "rbw_loop [] written rbw = rbw"
| "rbw_loop (inst # insts) written rbw =
     (let u = classify_uses inst;
          (written, rbw) = rbw_reads (iu_reads u) written rbw;
          written = (if iu_writes u then insert (iu_write u) written else written)
      in rbw_loop insts written rbw)"

definition get_read_before_write_addresses :: "SimImpl \<Rightarrow> u64 list" where
  "get_read_before_write_addresses s = rbw_loop (instructions (im_trace s)) {} []"

definition set_live_out_addresses :: "u64 list \<Rightarrow> SimImpl \<Rightarrow> SimImpl" where
  "set_live_out_addresses addrs s = s\<lparr>im_live_out := set addrs\<rparr>"

section \<open>Liveness\<close>

text \<open>The three loops of \<open>compute_liveness\<close>.\<close>

definition last_use_step :: "u64 set \<Rightarrow> Instruction list \<Rightarrow> nat \<Rightarrow> (u64 \<rightharpoonup> nat) \<Rightarrow> (u64 \<rightharpoonup> nat)" where
  "last_use_step live insts i m =
     fold (\<lambda>a m. if a \<in> live then m else m(a \<mapsto> i)) (iu_reads (classify_uses (insts ! i))) m"

definition compute_last_use :: "u64 set \<Rightarrow> Instruction list \<Rightarrow> u64 \<rightharpoonup> nat" where
  "compute_last_use live insts = fold (last_use_step live insts) [0..<length insts] Map.empty"

definition dead_write_step ::
  "u64 set \<Rightarrow> (u64 \<rightharpoonup> nat) \<Rightarrow> Instruction list \<Rightarrow> nat \<Rightarrow> u64 list list \<Rightarrow> u64 list list" where
  "dead_write_step live last_use insts i fa =
     (let u = classify_uses (insts ! i) in
      if \<not> iu_writes u then fa
      else if iu_write u \<in> live then fa
      else if (case last_use (iu_write u) of None \<Rightarrow> True | Some d \<Rightarrow> d < i)
      then fa[i := fa ! i @ [iu_write u]] else fa)"

definition schedule_step :: "(u64 \<rightharpoonup> nat) \<Rightarrow> u64 \<Rightarrow> u64 list list \<Rightarrow> u64 list list" where
  "schedule_step last_use a fa =
     (case last_use a of Some death \<Rightarrow> fa[death := fa ! death @ [a]] | None \<Rightarrow> fa)"

text \<open>
  \<open>keys\<close> is the order in which the hash map is iterated, which the standard leaves open;
  \<open>disabled\<close> says whether \<open>NIOBIUM_DISABLE_SIM_FREES\<close> is set.
\<close>

definition compute_liveness :: "bool \<Rightarrow> u64 list \<Rightarrow> SimImpl \<Rightarrow> SimImpl" where
  "compute_liveness disabled keys s =
     (if disabled then s\<lparr>im_free_after := []\<rparr>
      else
        let insts = instructions (im_trace s);
            last_use = compute_last_use (im_live_out s) insts;
            fa = replicate (length insts) [];
            fa = fold (dead_write_step (im_live_out s) last_use insts) [0..<length insts] fa;
            fa = fold (schedule_step last_use) keys fa
        in s\<lparr>im_free_after := fa\<rparr>)"

end
