(* ===== verification/Liveness.thy ===== *)
theory Liveness
  imports Simulator
begin

text \<open>
  The liveness pass of the simulator frees buffers during a run.  This theory shows that the frees
  cannot be observed: a run with them and a run without them end with the same counts, the same
  faults and the same values at every live-out address.  It also characterises the schedule and
  the live-in addresses.
\<close>

section \<open>Bit reversal\<close>

lemma bit_rev_bits_fold:
  fixes x :: u32
  assumes "bits \<le> 32" and "n \<le> bits"
  shows "bit (fold (\<lambda>i r. if (x AND push_bit i 1) \<noteq> 0 then r OR push_bit (bits - 1 - i) 1 else r) [0..<n] 0 :: u32) j
    \<longleftrightarrow> j < bits \<and> bits - 1 - j < n \<and> bit x (bits - 1 - j)"
  using assms(2)
proof (induction n)
  case (Suc n)
  have t: "(x AND push_bit n 1) \<noteq> 0 \<longleftrightarrow> bit x n"
    using Suc.prems assms(1) by (simp add: bit_iff_and_push_bit_not_eq_0)
  have p: "bit (push_bit (bits - 1 - n) 1 :: u32) j \<longleftrightarrow> j = bits - 1 - n"
    using Suc.prems assms(1) by (auto simp: push_bit_of_1 bit_exp_iff)
  have e: "j = bits - 1 - n \<longleftrightarrow> j < bits \<and> bits - 1 - j = n" using Suc.prems by auto
  let ?f = "\<lambda>i (r :: u32). if (x AND push_bit i 1) \<noteq> 0 then r OR push_bit (bits - 1 - i) 1 else r"
  define g where "g = fold ?f [0..<n] (0 :: u32)"
  have f: "fold ?f [0..<Suc n] 0 = ?f n g" by (simp only: upt_Suc g_def) simp
  have "bit (fold ?f [0..<Suc n] 0) j \<longleftrightarrow> bit g j \<or> bit x n \<and> j = bits - 1 - n"
    unfolding f t by (cases "bit x n") (simp_all only: bit_or_iff p if_True if_False simp_thms)
  moreover have "bit g j \<longleftrightarrow> j < bits \<and> bits - 1 - j < n \<and> bit x (bits - 1 - j)"
    unfolding g_def using Suc.prems by (intro Suc.IH) simp
  ultimately show ?case
    using e by (simp only: less_Suc_eq) auto
qed simp

lemma bit_rev_bits:
  "lg \<le> 32 \<Longrightarrow> bit (rev_bits x lg) j \<longleftrightarrow> j < lg \<and> bit x (lg - 1 - j)"
  unfolding rev_bits_def by (subst bit_rev_bits_fold) auto

lemma word_less_2p_bits:
  fixes x :: u32
  assumes "lg \<le> 32"
  shows "unat x < 2 ^ lg \<longleftrightarrow> (\<forall>j. bit x j \<longrightarrow> j < lg)"
proof
  assume "unat x < 2 ^ lg"
  then have "take_bit lg x = x" by (rule take_bit_small)
  then show "\<forall>j. bit x j \<longrightarrow> j < lg" by (metis bit_take_bit_iff)
next
  assume "\<forall>j. bit x j \<longrightarrow> j < lg"
  then have "take_bit lg x = x" by (intro bit_word_eqI) (auto simp: bit_take_bit_iff)
  then have "unat x = take_bit lg (unat x)" by (metis unsigned_take_bit_eq)
  then show "unat x < 2 ^ lg" by (metis take_bit_nat_less_exp)
qed

lemma rev_bits_bound: "lg \<le> 32 \<Longrightarrow> unat (rev_bits x lg) < 2 ^ lg"
  by (simp add: word_less_2p_bits bit_rev_bits)

lemma rev_bits_twice: "lg \<le> 32 \<Longrightarrow> unat x < 2 ^ lg \<Longrightarrow> rev_bits (rev_bits x lg) lg = x"
  by (rule bit_word_eqI) (auto simp: bit_rev_bits word_less_2p_bits)

lemma of_nat_small_u32: "n < 2 ^ lg \<Longrightarrow> lg \<le> 32 \<Longrightarrow> unat (of_nat n :: u32) = n"
proof -
  assume "n < 2 ^ lg" "lg \<le> 32"
  then have "n < 2 ^ 32" by (metis less_le_trans one_le_numeral power_increasing)
  then show ?thesis by (simp add: unat_of_nat_small)
qed

text \<open>Bit reversal permutes the indices below \<open>2 ^ lg\<close>.\<close>

lemma rev_bits_bij:
  assumes "lg \<le> 32"
  shows "bij_betw (\<lambda>j. unat (rev_bits (of_nat j) lg)) {..<2 ^ lg} {..<2 ^ lg}"
proof (rule bij_betw_byWitness [where f' = "\<lambda>j. unat (rev_bits (of_nat j) lg)"])
  let ?f = "\<lambda>j. unat (rev_bits (of_nat j) lg)"
  have "?f (?f j) = j" if "j < 2 ^ lg" for j
    using that assms by (simp add: rev_bits_twice of_nat_small_u32)
  then show "\<forall>j\<in>{..<2 ^ lg}. ?f (?f j) = j" "\<forall>j\<in>{..<2 ^ lg}. ?f (?f j) = j" by auto
  show "?f ` {..<2 ^ lg} \<subseteq> {..<2 ^ lg}" "?f ` {..<2 ^ lg} \<subseteq> {..<2 ^ lg}"
    using rev_bits_bound [OF assms] by auto
qed

lemma log2_loop_power: "log2_loop (2 ^ e) = e"
proof (induction e)
  case 0
  then show ?case by (simp add: log2_loop.simps)
next
  case (Suc e)
  have "(1 :: nat) < 2 ^ Suc e" by (rule one_less_power) simp_all
  then show ?case using Suc by (subst log2_loop.simps) simp
qed

section \<open>The automorphism loop fills the whole buffer\<close>

lemma length_automorph_loop [simp]:
  "length (automorph_loop k lg mk snap js jk r) = length r"
  by (induction js arbitrary: jk r) simp_all

lemma automorph_loop_independent:
  "length b = length b' \<Longrightarrow>
   (\<And>p. p < length b \<Longrightarrow> p \<notin> (\<lambda>j. unat (rev_bits (of_nat j) lg)) ` set js \<Longrightarrow> b ! p = b' ! p) \<Longrightarrow>
     automorph_loop k lg mk snap js jk b = automorph_loop k lg mk snap js jk b'"
proof (induction js arbitrary: jk b b')
  case Nil
  then show ?case by (simp add: nth_equalityI)
next
  case (Cons j js)
  let ?p = "unat (rev_bits (of_nat j) lg)"
  have "b[?p := x] ! p = b'[?p := x] ! p"
    if "p < length b" "p \<notin> (\<lambda>j. unat (rev_bits (of_nat j) lg)) ` set js" for p x
    using Cons.prems(1) Cons.prems(2) [OF that(1)] that by (cases "p = ?p") auto
  then show ?case
    unfolding automorph_loop.simps using Cons.prems(1) by (intro Cons.IH) simp_all
qed

lemma automorph_loop_fills:
  assumes "lg \<le> 32" "length b = 2 ^ lg" "length b' = 2 ^ lg"
  shows "automorph_loop k lg mk snap [0..<2 ^ lg] jk b = automorph_loop k lg mk snap [0..<2 ^ lg] jk b'"
proof (rule automorph_loop_independent)
  fix p assume "p < length b" "p \<notin> (\<lambda>j. unat (rev_bits (of_nat j) lg)) ` set [0..<2 ^ lg]"
  then show "b ! p = b' ! p"
    using rev_bits_bij [OF assms(1)] assms(2) by (auto simp: bij_betw_def atLeast0LessThan)
qed (use assms in simp)

section \<open>Runs that agree\<close>

text \<open>
  Two states agree on a set of addresses when they differ at most in the schedule and in the memory
  outside the set.
\<close>

definition ring_ok :: "SimImpl \<Rightarrow> bool" where
  "ring_ok s \<longleftrightarrow> unat (im_ring_dim s) = mem_ring_dim (im_memory s) \<and>
     (\<exists>e \<le> 31. unat (im_ring_dim s) = 2 ^ e)"

lemma ring_ok_updates [simp]:
  "ring_ok (sim_error s) = ring_ok s" "ring_ok (s\<lparr>im_ntt_tables := x\<rparr>) = ring_ok s"
  "ring_ok (s\<lparr>im_warned_uninit := w\<rparr>) = ring_ok s" "ring_ok (s\<lparr>im_free_after := fa\<rparr>) = ring_ok s"
  "ring_ok (s\<lparr>im_error_count := n\<rparr>) = ring_ok s"
  "ring_ok (s\<lparr>im_memory := write_slot a q vals (im_memory s)\<rparr>) = ring_ok s"
  by (simp_all add: ring_ok_def sim_error_def)

lemma ring_ok_length: "ring_ok s \<Longrightarrow> mem_ring_dim (im_memory s) = unat (im_ring_dim s)"
  by (simp add: ring_ok_def)

definition agree :: "u64 list list \<Rightarrow> u64 list list \<Rightarrow> u64 set \<Rightarrow> SimImpl \<Rightarrow> SimImpl \<Rightarrow> bool" where
  "agree fa fb S s t \<longleftrightarrow>
     ring_ok s \<and> ring_ok t \<and> im_free_after s = fa \<and> im_free_after t = fb \<and>
     im_ring_dim s = im_ring_dim t \<and> im_trace s = im_trace t \<and> im_error_count s = im_error_count t \<and>
     im_ntt_tables s = im_ntt_tables t \<and> im_warned_uninit s = im_warned_uninit t \<and>
     im_live_out s = im_live_out t \<and> (\<forall>a \<in> S. mem_view a (im_memory s) = mem_view a (im_memory t))"

definition agree_res ::
  "u64 list list \<Rightarrow> u64 list list \<Rightarrow> u64 set \<Rightarrow> cpp_error + bool \<times> SimImpl \<Rightarrow> cpp_error + bool \<times> SimImpl \<Rightarrow> bool" where
  "agree_res fa fb S r r' =
     (case (r, r') of
        (Inl e, Inl e') \<Rightarrow> e = e'
      | (Inr (ok, s), Inr (ok', t)) \<Rightarrow> ok = ok' \<and> agree fa fb S s t
      | _ \<Rightarrow> False)"

lemma agree_res_simps [sim_simps]:
  "agree_res fa fb S (Inl e) (Inl e') \<longleftrightarrow> e = e'"
  "agree_res fa fb S (Inr (ok, s)) (Inr (ok', t)) \<longleftrightarrow> ok = ok' \<and> agree fa fb S s t"
  by (simp_all add: agree_res_def)

lemma agree_res_cases:
  "agree_res fa fb S r r' \<Longrightarrow>
     (\<exists>e. r = Inl e \<and> r' = Inl e) \<or> (\<exists>b s t. r = Inr (b, s) \<and> r' = Inr (b, t) \<and> agree fa fb S s t)"
  by (cases r; cases r') (auto simp: agree_res_def)

lemma agree_observe:
  assumes "agree fa fb S s t" and "a \<in> S"
  shows "get_polynomial a s = get_polynomial a t" "sim_is_initialized a s = sim_is_initialized a t"
    "sim_is_initialized a s \<Longrightarrow> get_modulus a s = get_modulus a t"
proof -
  have v: "mem_view a (im_memory s) = mem_view a (im_memory t)" using assms by (simp add: agree_def)
  then show "get_polynomial a s = get_polynomial a t" "sim_is_initialized a s = sim_is_initialized a t"
    "sim_is_initialized a s \<Longrightarrow> get_modulus a s = get_modulus a t"
    by (auto simp: get_polynomial_def get_modulus_def sim_is_initialized_def mem_view_def split: if_splits)
qed

lemma agree_ring_dim: "agree fa fb S s t \<Longrightarrow> im_ring_dim s = im_ring_dim t"
  by (simp add: agree_def)

lemma agree_error: "agree fa fb S s t \<Longrightarrow> agree fa fb S (sim_error s) (sim_error t)"
  by (simp add: agree_def) (simp add: sim_error_def)

lemma agree_resolve:
  assumes "agree fa fb S s t"
  obtains q s' t' where "resolve_modulus inst s = (q, s')" "resolve_modulus inst t = (q, t')"
    "agree fa fb S s' t'"
proof -
  have e: "im_trace s = im_trace t" using assms by (simp add: agree_def)
  have "fst (resolve_modulus inst s) = fst (resolve_modulus inst t)"
    "agree fa fb S (snd (resolve_modulus inst s)) (snd (resolve_modulus inst t))"
    using assms agree_error [OF assms] by (simp_all add: resolve_modulus_def e split: option.split)
  then show thesis
    using that by (cases "resolve_modulus inst s"; cases "resolve_modulus inst t") simp
qed

lemma agree_get:
  assumes "agree fa fb S s t" and "a \<in> S"
  obtains v s' t' where "get_or_zero a s = (v, s')" "get_or_zero a t = (v, t')" "agree fa fb S s' t'"
proof -
  have v: "mem_view a (im_memory s) = mem_view a (im_memory t)" "im_ring_dim s = im_ring_dim t"
    and w: "agree fa fb S (s\<lparr>im_warned_uninit := insert a (im_warned_uninit s)\<rparr>)
      (t\<lparr>im_warned_uninit := insert a (im_warned_uninit t)\<rparr>)"
    using assms by (simp_all add: agree_def)
  show thesis
  proof (cases "mem_view a (im_memory t)")
    case None
    then show thesis using that v w by (simp add: get_or_zero_def mem_is_initialized_view)
  next
    case (Some e)
    then show thesis
      using that v assms(1) mem_get_view [of a] by (simp add: get_or_zero_def mem_is_initialized_view)
  qed
qed

lemma agree_store:
  assumes ag: "agree fa fb S s t"
    and f: "\<And>b b'. length b = unat (im_ring_dim s) \<Longrightarrow> length b' = unat (im_ring_dim s) \<Longrightarrow> f b = f b'"
  shows "agree_res fa fb S (store_result d q f s) (store_result d q f t)"
proof -
  have "length (fst (reserve_dest (ucast d) (im_memory s))) = unat (im_ring_dim s)"
    "length (fst (reserve_dest (ucast d) (im_memory t))) = unat (im_ring_dim s)"
    using ag by (simp_all add: agree_def ring_ok_length)
  then have ff: "f (fst (reserve_dest (ucast d) (im_memory s))) = f (fst (reserve_dest (ucast d) (im_memory t)))"
    by (rule f)
  have st: "store_result d q f u = Inr (True, u\<lparr>im_memory := write_slot (ucast d) q
      (f (fst (reserve_dest (ucast d) (im_memory u)))) (im_memory u)\<rparr>)" for u
    by (simp add: store_result_def write_slot_def split_beta Let_def)
  show ?thesis
    using ag by (simp add: st ff sim_simps agree_def write_slot_view)
qed

lemma copy_result_full:
  "length b = unat n \<Longrightarrow> length b' = unat n \<Longrightarrow> copy_result v n b = copy_result v n b'"
  by (simp add: copy_result_def)

lemma agree_store_copy:
  assumes "agree fa fb S s t"
  shows "agree_res fa fb S (store_result d q (copy_result v (im_ring_dim s)) s)
    (store_result d q (copy_result v (im_ring_dim t)) t)"
  using agree_store [OF assms, where f = "copy_result v (im_ring_dim s)"] copy_result_full
    agree_ring_dim [OF assms] by metis

lemma agree_wrong_size: "agree fa fb S s t \<Longrightarrow> wrong_size a s = wrong_size a t"
  by (simp add: wrong_size_def agree_def)

lemma agree_fail: "agree fa fb S s t \<Longrightarrow> agree_res fa fb S (Inr (False, sim_error s)) (Inr (False, sim_error t))"
  by (simp add: sim_simps agree_error)

section \<open>Every kernel preserves agreement on what it reads\<close>

lemma agree_binary:
  assumes ag: "agree fa fb S s t" and "ucast (src1 inst) \<in> S" "ucast (src2 inst) \<in> S"
  shows "agree_res fa fb S (exec_binary g inst s) (exec_binary g inst t)"
proof -
  obtain q s1 t1 where 1: "resolve_modulus inst s = (q, s1)" "resolve_modulus inst t = (q, t1)"
    "agree fa fb S s1 t1" by (rule agree_resolve [OF ag])
  obtain a s2 t2 where 2: "get_or_zero (ucast (src1 inst)) s1 = (a, s2)"
    "get_or_zero (ucast (src1 inst)) t1 = (a, t2)" "agree fa fb S s2 t2"
    by (rule agree_get [OF 1(3) assms(2)])
  obtain b s3 t3 where 3: "get_or_zero (ucast (src2 inst)) s2 = (b, s3)"
    "get_or_zero (ucast (src2 inst)) t2 = (b, t3)" "agree fa fb S s3 t3"
    by (rule agree_get [OF 2(3) assms(3)])
  show ?thesis
    using agree_store_copy [OF 3(3)] agree_fail [OF 3(3)] agree_wrong_size [OF 3(3)]
    by (simp add: exec_binary_def 1 2 3)
qed

text \<open>The one-source kernels start alike.\<close>

lemma agree_unary:
  assumes ag: "agree fa fb S s t" and "ucast (src1 inst) \<in> S"
    and body: "\<And>q a s t. agree fa fb S s t \<Longrightarrow> length a = unat (im_ring_dim s) \<Longrightarrow>
      agree_res fa fb S (f q a s) (f q a t)"
  shows "agree_res fa fb S
    (let (q, s) = resolve_modulus inst s; (a, s) = get_or_zero (ucast (src1 inst)) s in
     if wrong_size a s then Inr (False, sim_error s) else f q a s)
    (let (q, s) = resolve_modulus inst t; (a, s) = get_or_zero (ucast (src1 inst)) s in
     if wrong_size a s then Inr (False, sim_error s) else f q a s)"
proof -
  obtain q s1 t1 where 1: "resolve_modulus inst s = (q, s1)" "resolve_modulus inst t = (q, t1)"
    "agree fa fb S s1 t1" by (rule agree_resolve [OF ag])
  obtain a s2 t2 where 2: "get_or_zero (ucast (src1 inst)) s1 = (a, s2)"
    "get_or_zero (ucast (src1 inst)) t1 = (a, t2)" "agree fa fb S s2 t2"
    by (rule agree_get [OF 1(3) assms(2)])
  show ?thesis
    using agree_fail [OF 2(3)] agree_wrong_size [OF 2(3)] body [OF 2(3)]
    by (simp add: 1 2 wrong_size_def)
qed

lemma agree_addps:
  "agree fa fb S s t \<Longrightarrow> ucast (src1 inst) \<in> S \<Longrightarrow> agree_res fa fb S (exec_addps be inst s) (exec_addps be inst t)"
  unfolding exec_addps_def
  by (rule agree_unary) (auto intro: agree_store_copy agree_store)

lemma agree_subps:
  "agree fa fb S s t \<Longrightarrow> ucast (src1 inst) \<in> S \<Longrightarrow> agree_res fa fb S (exec_subps be inst s) (exec_subps be inst t)"
  unfolding exec_subps_def by (rule agree_unary) (auto intro: agree_store_copy)

lemma agree_negp:
  "agree fa fb S s t \<Longrightarrow> ucast (src1 inst) \<in> S \<Longrightarrow> agree_res fa fb S (exec_negp inst s) (exec_negp inst t)"
  unfolding exec_negp_def by (rule agree_unary) (auto intro: agree_store_copy)

lemma agree_mulps:
  assumes ag: "agree fa fb S s t" and "imm_or_0 inst \<noteq> 0 \<Longrightarrow> ucast (src1 inst) \<in> S"
  shows "agree_res fa fb S (exec_mulps be inst s) (exec_mulps be inst t)"
proof (cases "imm_or_0 inst = 0")
  case True
  show ?thesis
    by (rule agree_resolve [OF ag, of inst]) (simp add: exec_mulps_def True agree_store)
next
  case False
  then have "agree_res fa fb S
    (let (q, s) = resolve_modulus inst s; (a, s) = get_or_zero (ucast (src1 inst)) s in
     if wrong_size a s then Inr (False, sim_error s)
     else store_result (dest inst) q (copy_result (be_mod_mul_eq be q a (imm_or_0 inst)) (im_ring_dim s)) s)
    (let (q, s) = resolve_modulus inst t; (a, s) = get_or_zero (ucast (src1 inst)) s in
     if wrong_size a s then Inr (False, sim_error s)
     else store_result (dest inst) q (copy_result (be_mod_mul_eq be q a (imm_or_0 inst)) (im_ring_dim s)) s)"
    using assms by (intro agree_unary) (auto intro: agree_store_copy)
  with False show ?thesis by (simp add: exec_mulps_def)
qed

lemma agree_tables:
  assumes ag: "agree fa fb S s t"
  shows "(\<exists>e. ntt_tables_for be inst q s = Inl e \<and> ntt_tables_for be inst q t = Inl e) \<or>
    (\<exists>x s' t'. ntt_tables_for be inst q s = Inr (x, s') \<and> ntt_tables_for be inst q t = Inr (x, t') \<and>
       agree fa fb S s' t')"
proof -
  have e: "im_ntt_tables s = im_ntt_tables t" "im_ring_dim s = im_ring_dim t"
    using ag by (simp_all add: agree_def)
  have u: "agree fa fb S (s\<lparr>im_ntt_tables := x\<rparr>) (t\<lparr>im_ntt_tables := x\<rparr>)" for x
    using ag by (simp add: agree_def)
  have bld: "(\<exists>e. m s = Inl e \<and> m t = Inl e) \<or>
      (\<exists>x s' t'. m s = Inr (x, s') \<and> m t = Inr (x, t') \<and> agree fa fb S s' t')"
    if "\<And>u. m u = res_bind (build_ntt_tables be (im_ring_dim t) q root)
      (\<lambda>x. Inr (Some x, u\<lparr>im_ntt_tables := (im_ntt_tables t)(key \<mapsto> x)\<rparr>))" for m root key
    using u by (cases "build_ntt_tables be (im_ring_dim t) q root") (auto simp: that)
  show ?thesis
  proof (cases "im_ntt_tables t (q, omega inst)")
    case (Some x)
    then show ?thesis using ag by (simp add: ntt_tables_for_def e Let_def)
  next
    case None
    show ?thesis
    proof (cases "omega inst")
      case (Some w)
      show ?thesis
      proof (cases "is_primitive_2n_root w (im_ring_dim t) q")
        case True
        then show ?thesis
          using None Some
            bld [of "\<lambda>u. res_bind (build_ntt_tables be (im_ring_dim t) q w)
              (\<lambda>x. Inr (Some x, u\<lparr>im_ntt_tables := (im_ntt_tables t)((q, Some w) \<mapsto> x)\<rparr>))" w "(q, Some w)"]
          by (simp add: ntt_tables_for_def e Let_def)
      qed (use None Some agree_error [OF ag] in \<open>simp add: ntt_tables_for_def e Let_def\<close>)
    next
      case w: None
      show ?thesis
      proof (cases "be_root_of_unity be (2 * im_ring_dim t) q")
        case (Some r)
        then show ?thesis
          using None w
            bld [of "\<lambda>u. res_bind (build_ntt_tables be (im_ring_dim t) q r)
              (\<lambda>x. Inr (Some x, u\<lparr>im_ntt_tables := (im_ntt_tables t)((q, None) \<mapsto> x)\<rparr>))" r "(q, None)"]
          by (simp add: ntt_tables_for_def e Let_def opt_throw_def)
      qed (use None w in \<open>simp add: ntt_tables_for_def e Let_def opt_throw_def\<close>)
    qed
  qed
qed

lemma agree_transform:
  "agree fa fb S s t \<Longrightarrow> ucast (src1 inst) \<in> S \<Longrightarrow>
     agree_res fa fb S (exec_transform be tr inst s) (exec_transform be tr inst t)"
  unfolding exec_transform_def
proof (rule agree_unary)
  fix q a s t
  assume ag: "agree fa fb S s t"
  show "agree_res fa fb S
     (res_bind (ntt_tables_for be inst q s) (\<lambda>(tables, s). case tables of None \<Rightarrow> Inr (False, s)
        | Some u \<Rightarrow> store_result (dest inst) q (copy_result (tr q u a) (im_ring_dim s)) s))
     (res_bind (ntt_tables_for be inst q t) (\<lambda>(tables, s). case tables of None \<Rightarrow> Inr (False, s)
        | Some u \<Rightarrow> store_result (dest inst) q (copy_result (tr q u a) (im_ring_dim s)) s))"
    using agree_tables [OF ag, of be inst q]
    by (auto simp: sim_simps split: option.split intro: agree_store_copy)
qed

lemma agree_automorph:
  "agree fa fb S s t \<Longrightarrow> ucast (src1 inst) \<in> S \<Longrightarrow>
     agree_res fa fb S (exec_automorph_eval inst s) (exec_automorph_eval inst t)"
  unfolding exec_automorph_eval_def
proof (rule agree_unary)
  fix q a s t
  assume ag: "agree fa fb S s t"
  obtain e where e: "e \<le> 31" "unat (im_ring_dim s) = 2 ^ e"
    using ag by (auto simp: agree_def ring_ok_def)
  have "(2 :: nat) ^ e \<le> 2 ^ 31" using e(1) by (intro power_increasing) simp_all
  then have small: "unat (im_ring_dim s) < 2 ^ 32" using e(2) by simp
  then have uc: "unat (ucast (im_ring_dim s) :: u32) = 2 ^ e"
    using e by (simp add: unsigned_ucast_eq take_bit_nat_eq_self)
  have f: "automorph_loop k e mk a [0..<2 ^ e] k b = automorph_loop k e mk a [0..<2 ^ e] k b'"
    if "length b = unat (im_ring_dim s)" "length b' = unat (im_ring_dim s)" for k mk b b'
    using automorph_loop_fills [of e b b'] that e by simp
  have "agree_res fa fb S
      (store_result (dest inst) q (automorph_loop k e mk a [0..<2 ^ e] k) s)
      (store_result (dest inst) q (automorph_loop k e mk a [0..<2 ^ e] k) t)" for k mk
    by (rule agree_store [OF ag f])
  then show "agree_res fa fb S
     (case k_op inst of None \<Rightarrow> Inr (False, sim_error s)
      | Some k64 \<Rightarrow> if unat (im_ring_dim s) > 2 ^ 32 then Inl Diverges
          else let k = (ucast k64 :: u32); lg = log2_loop (unat (ucast (im_ring_dim s) :: u32));
                   mk = push_bit lg 1 - 1
               in store_result (dest inst) q (automorph_loop k lg mk a [0..<unat (im_ring_dim s)] k) s)
     (case k_op inst of None \<Rightarrow> Inr (False, sim_error t)
      | Some k64 \<Rightarrow> if unat (im_ring_dim t) > 2 ^ 32 then Inl Diverges
          else let k = (ucast k64 :: u32); lg = log2_loop (unat (ucast (im_ring_dim t) :: u32));
                   mk = push_bit lg 1 - 1
               in store_result (dest inst) q (automorph_loop k lg mk a [0..<unat (im_ring_dim t)] k) t)"
    using agree_fail [OF ag] small e(2) uc
    by (simp add: agree_ring_dim [OF ag, symmetric] log2_loop_power Let_def split: option.split)
qed

lemma agree_rot:
  "agree fa fb S s t \<Longrightarrow> ucast (src1 inst) \<in> S \<Longrightarrow>
     agree_res fa fb S (exec_rot_automorph_coeff inst s) (exec_rot_automorph_coeff inst t)"
  unfolding exec_rot_automorph_coeff_def
proof (rule agree_unary)
  fix q a s t
  assume ag: "agree fa fb S s t"
  show "agree_res fa fb S
     (case offset inst of None \<Rightarrow> Inr (False, sim_error s)
      | Some off \<Rightarrow> res_bind (map_res (rot_value q (im_ring_dim s) a off) [0..<unat (im_ring_dim s)])
          (\<lambda>vals. store_result (dest inst) q (copy_result vals (im_ring_dim s)) s))
     (case offset inst of None \<Rightarrow> Inr (False, sim_error t)
      | Some off \<Rightarrow> res_bind (map_res (rot_value q (im_ring_dim t) a off) [0..<unat (im_ring_dim t)])
          (\<lambda>vals. store_result (dest inst) q (copy_result vals (im_ring_dim t)) t))"
    using agree_fail [OF ag] agree_store_copy [OF ag] agree_ring_dim [OF ag]
    by (auto simp: res_bind_def sim_simps split: option.split sum.split)
qed

lemmas agree_kernels = agree_binary agree_addps agree_subps agree_negp agree_mulps agree_transform
  agree_automorph agree_rot

definition reads_of :: "Instruction \<Rightarrow> u64 set" where
  "reads_of inst = set (iu_reads (classify_uses inst))"

lemma agree_instruction:
  assumes ag: "agree fa fb S s t" and rd: "reads_of inst \<subseteq> S"
  shows "agree_res fa fb S (exec_instruction be inst s) (exec_instruction be inst t)"
proof -
  have two: "ucast (src1 inst) \<in> S" "ucast (src2 inst) \<in> S"
    if "opcode inst \<in> {FH_SR_ADDP, FH_SR_SUBP, FH_SR_MULP}"
    using that rd by (auto simp: reads_of_def classify_uses_def)
  have one: "ucast (src1 inst) \<in> S"
    if "opcode inst \<in> {FH_SR_NEGP, FH_SR_NTT, FH_SR_INTT, FH_SR_AUTOMORPH_EVAL,
      FH_SR_ROT_AUTOMORPH_COEFF, FH_SR_ADDPS, FH_SR_SUBPS, FH_SR_ADDPS_COEFF, FH_SR_SUBPS_COEFF}"
    using that rd by (auto simp: reads_of_def classify_uses_def)
  have mul: "ucast (src1 inst) \<in> S" if "opcode inst = FH_SR_MULPS" "imm_or_0 inst \<noteq> 0"
    using that rd by (auto simp: reads_of_def classify_uses_def imm_or_0_def split: option.splits)
  show ?thesis
    using two one mul ag agree_kernels [OF ag]
    by (simp add: exec_instruction_def Let_def exec_addp_def exec_subp_def exec_mulp_def exec_ntt_def
        exec_intt_def sim_simps)
qed

lemma agree_mono: "agree fa fb S s t \<Longrightarrow> S' \<subseteq> S \<Longrightarrow> agree fa fb S' s t"
  by (auto simp: agree_def)

lemma mem_view_erase_all:
  "mem_view a (fold mem_erase as m) = (if a \<in> set as then None else mem_view a m)"
  by (induction as arbitrary: m) (auto simp: mem_view_erase)

lemma ring_dim_erase_all [simp]: "mem_ring_dim (fold mem_erase as m) = mem_ring_dim m"
  by (induction as arbitrary: m) simp_all

lemma agree_free:
  "agree fa fb S s t \<Longrightarrow> set as \<inter> S = {} \<Longrightarrow> agree fa fb S (free_addresses as s) t"
  by (auto simp: agree_def free_addresses_def ring_ok_def mem_view_erase_all)

section \<open>The loop\<close>

text \<open>The addresses that matter from instruction \<open>i\<close> on.\<close>

definition live_at :: "u64 set \<Rightarrow> Instruction list \<Rightarrow> nat \<Rightarrow> u64 set" where
  "live_at out insts i = out \<union> (\<Union>k \<in> {i..<length insts}. reads_of (insts ! k))"

lemma live_at_step: "live_at out insts (Suc i) \<subseteq> live_at out insts i"
  by (force simp: live_at_def)

lemma reads_live_at: "i < length insts \<Longrightarrow> reads_of (insts ! i) \<subseteq> live_at out insts i"
  by (auto simp: live_at_def)

text \<open>A schedule is safe when what it frees after an instruction is not needed from the next on.\<close>

definition safe_schedule :: "u64 set \<Rightarrow> Instruction list \<Rightarrow> u64 list list \<Rightarrow> bool" where
  "safe_schedule out insts fa \<longleftrightarrow>
     (\<forall>i < length fa. set (fa ! i) \<inter> live_at out insts (Suc i) = {})"

definition agree_run ::
  "u64 list list \<Rightarrow> u64 set \<Rightarrow> cpp_error + nat \<times> SimImpl \<Rightarrow> cpp_error + nat \<times> SimImpl \<Rightarrow> bool" where
  "agree_run fa S r r' =
     (case (r, r') of
        (Inl e, Inl e') \<Rightarrow> e = e'
      | (Inr (n, s), Inr (n', t)) \<Rightarrow> n = n' \<and> agree fa [] S s t
      | _ \<Rightarrow> False)"

lemma agree_run_cases:
  "agree_run fa S r r' \<Longrightarrow>
     (\<exists>e. r = Inl e \<and> r' = Inl e) \<or> (\<exists>n s t. r = Inr (n, s) \<and> r' = Inr (n, t) \<and> agree fa [] S s t)"
  by (cases r; cases r') (auto simp: agree_run_def)

lemma execute_loop_agree:
  assumes safe: "safe_schedule out all fa"
  shows "agree fa [] (live_at out all i) s t \<Longrightarrow> drop i all = insts \<Longrightarrow>
    agree_run fa out (execute_loop be i insts n s) (execute_loop be i insts n t)"
proof (induction insts arbitrary: i n s t)
  case Nil
  then show ?case
    using agree_mono [OF Nil.prems(1), of out] by (simp add: agree_run_def live_at_def)
next
  case (Cons x xs)
  have i: "i < length all" using Cons.prems(2) by (metis drop_all list.discI not_less)
  have x: "all ! i = x" and xs: "drop (Suc i) all = xs"
    using Cons.prems(2) Cons_nth_drop_Suc [OF i] by simp_all
  have "agree_res fa [] (live_at out all i) (exec_instruction be x s) (exec_instruction be x t)"
    using agree_instruction [OF Cons.prems(1)] reads_live_at [OF i] x by metis
  then consider (err) e where "exec_instruction be x s = Inl e" "exec_instruction be x t = Inl e"
    | (ok) b s' t' where "exec_instruction be x s = Inr (b, s')" "exec_instruction be x t = Inr (b, t')"
        "agree fa [] (live_at out all i) s' t'"
    using agree_res_cases by blast
  then show ?case
  proof cases
    case err
    then show ?thesis by (simp add: agree_run_def)
  next
    case ok
    let ?s' = "if i < length (im_free_after s') then free_addresses (im_free_after s' ! i) s' else s'"
    have fa: "im_free_after s' = fa" "im_free_after t' = []" using ok(3) by (simp_all add: agree_def)
    have "agree fa [] (live_at out all (Suc i)) ?s' t'"
      using agree_mono [OF ok(3) live_at_step] safe fa
      by (auto simp: safe_schedule_def intro!: agree_free)
    from Cons.IH [OF this xs] show ?thesis
      using ok fa by (simp add: Let_def)
  qed
qed

section \<open>The schedule\<close>

lemma last_use_step_eq:
  "last_use_step live insts i m a =
     (if a \<in> reads_of (insts ! i) \<and> a \<notin> live then Some i else m a)"
proof -
  have "fold (\<lambda>a m. if a \<in> live then m else m(a \<mapsto> i)) rs m a =
      (if a \<in> set rs \<and> a \<notin> live then Some i else m a)" for rs and m :: "u64 \<rightharpoonup> nat"
    by (induction rs arbitrary: m) auto
  then show ?thesis by (simp add: last_use_step_def reads_of_def)
qed

lemma last_use_prefix:
  "fold (last_use_step live insts) [0..<n] Map.empty a = Some d \<longleftrightarrow>
     a \<notin> live \<and> d < n \<and> a \<in> reads_of (insts ! d) \<and> (\<forall>k. d < k \<longrightarrow> k < n \<longrightarrow> a \<notin> reads_of (insts ! k))"
proof (induction n)
  case (Suc n)
  then show ?case by (auto simp: last_use_step_eq less_Suc_eq)
qed simp

lemma last_use_iff:
  "compute_last_use live insts a = Some d \<longleftrightarrow>
     a \<notin> live \<and> d < length insts \<and> a \<in> reads_of (insts ! d) \<and>
     (\<forall>k. d < k \<longrightarrow> k < length insts \<longrightarrow> a \<notin> reads_of (insts ! k))"
  by (simp add: compute_last_use_def last_use_prefix)

lemma last_use_None:
  assumes "compute_last_use live insts a = None"
  shows "a \<in> live \<or> (\<forall>k < length insts. a \<notin> reads_of (insts ! k))"
proof (rule ccontr)
  assume "\<not> ?thesis"
  then have a: "a \<notin> live" "\<exists>k. k < length insts \<and> a \<in> reads_of (insts ! k)" by auto
  let ?P = "\<lambda>k. k < length insts \<and> a \<in> reads_of (insts ! k)"
  define d where "d = (GREATEST k. ?P k)"
  have "?P d" "\<And>k. ?P k \<Longrightarrow> k \<le> d"
    using GreatestI_ex_nat [of ?P "length insts"] Greatest_le_nat [of ?P _ "length insts"] a(2)
    by (auto simp: d_def)
  then have "compute_last_use live insts a = Some d" using a(1) by (force simp: last_use_iff)
  then show False using assms by simp
qed

lemma dead_write_fold:
  assumes "n \<le> length fa"
  shows "length (fold (dead_write_step live lu insts) [0..<n] fa) = length fa \<and>
    (\<forall>i. fold (dead_write_step live lu insts) [0..<n] fa ! i =
      (if i < n \<and> iu_writes (classify_uses (insts ! i)) \<and> iu_write (classify_uses (insts ! i)) \<notin> live \<and>
          (case lu (iu_write (classify_uses (insts ! i))) of None \<Rightarrow> True | Some d \<Rightarrow> d < i)
       then fa ! i @ [iu_write (classify_uses (insts ! i))] else fa ! i))"
  using assms
proof (induction n)
  case (Suc n)
  then show ?case by (auto simp: dead_write_step_def Let_def less_Suc_eq nth_list_update)
qed simp

lemma schedule_fold:
  assumes "\<And>a d. lu a = Some d \<Longrightarrow> d < length fa"
  shows "length (fold (schedule_step lu) keys fa) = length fa \<and>
    (\<forall>i < length fa. set (fold (schedule_step lu) keys fa ! i) =
       set (fa ! i) \<union> {a \<in> set keys. lu a = Some i})"
  using assms
proof (induction keys arbitrary: fa)
  case (Cons a keys)
  have l: "length (schedule_step lu a fa) = length fa"
    by (simp add: schedule_step_def split: option.split)
  have "set (schedule_step lu a fa ! i) = set (fa ! i) \<union> (if lu a = Some i then {a} else {})"
    if "i < length fa" for i
    using that by (auto simp: schedule_step_def nth_list_update split: option.split)
  then show ?case
    using Cons.IH [of "schedule_step lu a fa"] Cons.prems l by auto
qed simp

text \<open>What the pass schedules after instruction \<open>i\<close>.\<close>

definition scheduled :: "u64 set \<Rightarrow> Instruction list \<Rightarrow> nat \<Rightarrow> u64 \<Rightarrow> bool" where
  "scheduled live insts i a \<longleftrightarrow>
     a \<notin> live \<and>
     (a \<in> reads_of (insts ! i) \<or>
      iu_writes (classify_uses (insts ! i)) \<and> a = iu_write (classify_uses (insts ! i))) \<and>
     (\<forall>k. i < k \<longrightarrow> k < length insts \<longrightarrow> a \<notin> reads_of (insts ! k))"

lemma free_after_sets:
  fixes s :: SimImpl and keys :: "u64 list"
  defines "fa \<equiv> im_free_after (compute_liveness False keys s)"
  shows "length fa = length (instructions (im_trace s))"
    and "i < length fa \<Longrightarrow> a \<in> set (fa ! i) \<Longrightarrow> scheduled (im_live_out s) (instructions (im_trace s)) i a"
proof -
  let ?insts = "instructions (im_trace s)" and ?live = "im_live_out s"
  let ?lu = "compute_last_use ?live ?insts"
  let ?fd = "fold (dead_write_step ?live ?lu ?insts) [0..<length ?insts] (replicate (length ?insts) [])"
  have fa: "fa = fold (schedule_step ?lu) keys ?fd"
    by (simp add: fa_def compute_liveness_def Let_def)
  have d: "length ?fd = length ?insts"
    "\<And>i. ?fd ! i = (if i < length ?insts \<and> iu_writes (classify_uses (?insts ! i)) \<and>
          iu_write (classify_uses (?insts ! i)) \<notin> ?live \<and>
          (case ?lu (iu_write (classify_uses (?insts ! i))) of None \<Rightarrow> True | Some d \<Rightarrow> d < i)
       then replicate (length ?insts) [] ! i @ [iu_write (classify_uses (?insts ! i))]
       else replicate (length ?insts) [] ! i)"
    using dead_write_fold [of "length ?insts" "replicate (length ?insts) []" ?live ?lu ?insts] by auto
  have k: "length fa = length ?fd"
    "\<And>i. i < length ?fd \<Longrightarrow> set (fa ! i) = set (?fd ! i) \<union> {a \<in> set keys. ?lu a = Some i}"
    using schedule_fold [of ?lu ?fd keys] d(1) by (auto simp: last_use_iff fa)
  show len: "length fa = length ?insts" using k(1) d(1) by simp
  assume i: "i < length fa" and a: "a \<in> set (fa ! i)"
  then have "a \<in> set (?fd ! i) \<or> ?lu a = Some i" using k by auto
  then show "scheduled ?live ?insts i a"
  proof
    assume "?lu a = Some i"
    then show ?thesis by (simp add: scheduled_def last_use_iff)
  next
    assume "a \<in> set (?fd ! i)"
    then have w: "iu_writes (classify_uses (?insts ! i))" "a = iu_write (classify_uses (?insts ! i))"
      "a \<notin> ?live" "case ?lu a of None \<Rightarrow> True | Some d \<Rightarrow> d < i"
      using d(2) [of i] i len by (auto split: if_splits)
    have "a \<notin> reads_of (?insts ! k)" if "i < k" "k < length ?insts" for k
    proof (cases "?lu a")
      case None
      then show ?thesis using last_use_None [OF None] w(3) that by auto
    next
      case (Some d)
      then show ?thesis using w(4) that last_use_iff [of ?live ?insts a d] by auto
    qed
    then show ?thesis using w by (simp add: scheduled_def)
  qed
qed

lemma compute_liveness_safe:
  "safe_schedule (im_live_out s) (instructions (im_trace s)) (im_free_after (compute_liveness disabled keys s))"
proof (cases disabled)
  case True
  then show ?thesis by (simp add: safe_schedule_def compute_liveness_def)
next
  case False
  then show ?thesis
    using free_after_sets [where keys = keys and s = s]
    by (fastforce simp: safe_schedule_def live_at_def scheduled_def)
qed

text \<open>Both runs, with and without the schedule.\<close>

lemma execute_agree:
  assumes "ring_ok s"
  shows "(\<exists>e. execute be (compute_liveness disabled keys s) = Inl e \<and>
              execute be (s\<lparr>im_free_after := []\<rparr>) = Inl e) \<or>
    (\<exists>r t t'. execute be (compute_liveness disabled keys s) = Inr (r, t) \<and>
       execute be (s\<lparr>im_free_after := []\<rparr>) = Inr (r, t') \<and>
       (\<forall>a \<in> im_live_out s. get_polynomial a t = get_polynomial a t' \<and>
          sim_is_initialized a t = sim_is_initialized a t' \<and>
          (sim_is_initialized a t \<longrightarrow> get_modulus a t = get_modulus a t')))"
proof -
  let ?c = "compute_liveness disabled keys s" and ?insts = "instructions (im_trace s)"
  define fa where "fa = im_free_after ?c"
  have c: "?c = s\<lparr>im_free_after := fa\<rparr>"
    by (simp add: fa_def compute_liveness_def Let_def)
  have "agree fa [] (live_at (im_live_out s) ?insts 0) (s\<lparr>im_free_after := fa, im_error_count := 0\<rparr>)
      (s\<lparr>im_free_after := [], im_error_count := 0\<rparr>)"
    using assms by (simp add: agree_def)
  from execute_loop_agree [OF compute_liveness_safe [of s disabled keys, folded fa_def] this, of ?insts be 0]
  have "agree_run fa (im_live_out s)
      (execute_loop be 0 ?insts 0 (s\<lparr>im_free_after := fa, im_error_count := 0\<rparr>))
      (execute_loop be 0 ?insts 0 (s\<lparr>im_free_after := [], im_error_count := 0\<rparr>))"
    by simp
  from agree_run_cases [OF this] show ?thesis
  proof (elim disjE exE conjE)
    fix n t t'
    assume r: "execute_loop be 0 ?insts 0 (s\<lparr>im_free_after := fa, im_error_count := 0\<rparr>) = Inr (n, t)"
      "execute_loop be 0 ?insts 0 (s\<lparr>im_free_after := [], im_error_count := 0\<rparr>) = Inr (n, t')"
      and ag: "agree fa [] (im_live_out s) t t'"
    have "im_error_count t = im_error_count t'" using ag by (simp add: agree_def)
    then show ?thesis using r agree_observe [OF ag] by (simp add: execute_def c)
  qed (simp add: execute_def c)
qed

section \<open>Properties\<close>

text \<open>
  C2: freeing cannot be observed.  For a power-of-two ring dimension, and whatever order the hash
  map of last uses is iterated in, a run under the computed schedule and a run without any frees
  raise the same fault, or else report the same instruction and error counts and hold the same
  polynomial and modulus at every live-out address.
\<close>

theorem liveness_transparent:
  assumes "ring_ok s"
  shows "(\<exists>e. execute be (compute_liveness disabled keys s) = Inl e \<and>
              execute be (s\<lparr>im_free_after := []\<rparr>) = Inl e) \<or>
    (\<exists>r t t'. execute be (compute_liveness disabled keys s) = Inr (r, t) \<and>
       execute be (s\<lparr>im_free_after := []\<rparr>) = Inr (r, t') \<and>
       (\<forall>a \<in> im_live_out s. get_polynomial a t = get_polynomial a t' \<and>
          sim_is_initialized a t = sim_is_initialized a t' \<and>
          (sim_is_initialized a t \<longrightarrow> get_modulus a t = get_modulus a t')))"
  using execute_agree [OF assms, of be disabled keys] .


end
