(* ===== verification/SimSpec.thy ===== *)
theory SimSpec
  imports Liveness
begin

text \<open>
  What the simulator computes: the live-in addresses of a trace, the accounting of a run, the
  kernels that are implemented in this repository (rotation and automorphism) against their
  specifications, and the arithmetic kernels relative to the modular arithmetic of the library.
\<close>

section \<open>A reference arithmetic\<close>

text \<open>
  Exact modular arithmetic, as an instance of the library's interface.  Its transforms evaluate the
  polynomial at the odd powers of the root stored in the table, and back.
\<close>

definition w_mod :: "nat \<Rightarrow> u64 \<Rightarrow> u64" where
  "w_mod x q = of_nat (x mod unat q)"

definition eval_at :: "u64 \<Rightarrow> u64 list \<Rightarrow> nat \<Rightarrow> nat" where
  "eval_at q a x = (\<Sum>i < length a. unat (a ! i) * x ^ i)"

definition exact_backend :: backend where
  "exact_backend =
     \<lparr>be_mod_add = (\<lambda>q a b. map (\<lambda>(x, y). w_mod (unat x + unat y) q) (zip a b)),
      be_mod_sub = (\<lambda>q a b. map (\<lambda>(x, y). w_mod (unat x + (unat q - unat y)) q) (zip a b)),
      be_mod_mul = (\<lambda>q a b. map (\<lambda>(x, y). w_mod (unat x * unat y) q) (zip a b)),
      be_mod_add_eq = (\<lambda>q a c. map (\<lambda>x. w_mod (unat x + unat c) q) a),
      be_mod_sub_eq = (\<lambda>q a c. map (\<lambda>x. w_mod (unat x + (unat q - unat c mod unat q)) q) a),
      be_mod_mul_eq = (\<lambda>q a c. map (\<lambda>x. w_mod (unat x * unat c) q) a),
      be_int_mod_mul = (\<lambda>a b q. w_mod (unat a * unat b) q),
      be_mod_inverse = (\<lambda>a q. map_option of_nat (find (\<lambda>x. unat a * x mod unat q = 1) [0..<unat q])),
      be_prep_mod_mul = (\<lambda>a q. of_nat (unat a * 2 ^ 64 div unat q)),
      be_get_msb = (\<lambda>x. of_nat (length (filter (\<lambda>i. x \<ge> push_bit i 1) [0..<32]))),
      be_reverse_bits = (\<lambda>x b. rev_bits x (unat b)),
      be_root_of_unity = (\<lambda>m q. map_option of_nat
          (find (\<lambda>x. is_primitive_2n_root (of_nat x) (m div 2) q) [0..<unat q])),
      be_forward = (\<lambda>q tab pre a. map (\<lambda>x. w_mod (eval_at q a (unat x)) q) tab),
      be_inverse = (\<lambda>q tab pre ni nip a. map (\<lambda>x. w_mod (eval_at q a (unat x) * unat ni) q) tab)\<rparr>"

section \<open>A run\<close>

definition sim_example :: SimImpl where
  "sim_example =
     (set_ring_dimension 2 SimImpl_init)\<lparr>im_live_out := {3},
       im_trace := Program_init\<lparr>modulus_table := [0xFFFFFFFFFFFFFFFF, 17],
         instructions :=
           [Instruction_init\<lparr>opcode := FH_SR_MULPS, dest := 1, src1 := 1, immediate := Some 0,
              modulus := Some 1\<rparr>,
            Instruction_init\<lparr>opcode := FH_SR_ADDPS, dest := 2, src1 := 1, immediate := Some 5,
              modulus := Some 1\<rparr>,
            Instruction_init\<lparr>opcode := FH_SR_NEGP, dest := 3, src1 := 2, modulus := Some 1\<rparr>]\<rparr>\<rparr>"

lemma sim_example_ring_ok: "ring_ok sim_example"
  unfolding ring_ok_def
  by (simp add: sim_example_def set_ring_dimension_def set_ring_dim_def) (rule exI [of _ 1], simp)

text \<open>The kernels this example uses cannot fault.\<close>

lemma exec_no_fault:
  assumes "opcode inst \<in> {FH_SR_MULPS, FH_SR_ADDPS, FH_SR_NEGP}"
  shows "\<exists>ok s'. exec_instruction be inst s = Inr (ok, s')"
  using assms
  by (auto simp: exec_instruction_def Let_def exec_mulps_def exec_addps_def exec_negp_def
      store_result_def split_beta)

lemma execute_loop_no_fault:
  "list_all (\<lambda>inst. opcode inst \<in> {FH_SR_MULPS, FH_SR_ADDPS, FH_SR_NEGP}) insts \<Longrightarrow>
     \<exists>r. execute_loop be i insts n s = Inr r"
proof (induction insts arbitrary: i n s)
  case (Cons x xs)
  from Cons.prems have "opcode x \<in> {FH_SR_MULPS, FH_SR_ADDPS, FH_SR_NEGP}" by simp
  then obtain ok s' where "exec_instruction be x s = Inr (ok, s')" using exec_no_fault by blast
  then show ?case using Cons by (simp add: Let_def)
qed simp

lemma sim_example_runs: "\<exists>r t. execute be (sim_example\<lparr>im_free_after := fa\<rparr>) = Inr (r, t)"
proof -
  let ?s = "sim_example\<lparr>im_free_after := fa\<rparr>"
  have "list_all (\<lambda>inst. opcode inst \<in> {FH_SR_MULPS, FH_SR_ADDPS, FH_SR_NEGP}) (instructions (im_trace ?s))"
    by (simp add: sim_example_def)
  from execute_loop_no_fault [OF this, of be 0 0 "?s\<lparr>im_error_count := 0\<rparr>"] show ?thesis
    by (auto simp: execute_def)
qed

theorem liveness_transparent_witness:
  "\<exists>r t t'. execute exact_backend (compute_liveness False [1, 2] sim_example) = Inr (r, t) \<and>
     execute exact_backend (sim_example\<lparr>im_free_after := []\<rparr>) = Inr (r, t') \<and>
     get_polynomial 3 t = get_polynomial 3 t'"
proof -
  have l: "3 \<in> im_live_out sim_example" by (simp add: sim_example_def)
  obtain r t where "execute exact_backend (sim_example\<lparr>im_free_after := []\<rparr>) = Inr (r, t)"
    using sim_example_runs by blast
  then show ?thesis
    using liveness_transparent [OF sim_example_ring_ok, of exact_backend False "[1, 2]"] l by auto
qed


section \<open>Live-in addresses\<close>

lemma rbw_reads_spec:
  assumes "set rbw \<subseteq> written" "distinct rbw" "rbw_reads as written rbw = (w', r')"
  shows "w' = written \<union> set as \<and> set r' = set rbw \<union> (set as - written) \<and> distinct r'"
  using assms
proof (induction as arbitrary: written rbw)
  case (Cons a as)
  show ?case
  proof (cases "a \<in> written")
    case True
    then have "rbw_reads as written rbw = (w', r')" using Cons.prems(3) by simp
    from Cons.IH [OF Cons.prems(1,2) this] show ?thesis using True by auto
  next
    case False
    then have p: "set (rbw @ [a]) \<subseteq> insert a written" "distinct (rbw @ [a])"
      using Cons.prems by auto
    have "rbw_reads as (insert a written) (rbw @ [a]) = (w', r')" using Cons.prems(3) False by simp
    from Cons.IH [OF p this] show ?thesis using False by auto
  qed
qed simp

text \<open>An address is live-in when some instruction reads it that no earlier one has written.\<close>

fun live_in :: "Instruction list \<Rightarrow> u64 set" where
  "live_in [] = {}"
| "live_in (x # xs) =
     set (iu_reads (classify_uses x)) \<union>
     (live_in xs - (if iu_writes (classify_uses x) then {iu_write (classify_uses x)} else {}))"

lemma rbw_loop_spec:
  assumes "set rbw \<subseteq> written" "distinct rbw"
  shows "set (rbw_loop xs written rbw) = set rbw \<union> (live_in xs - written) \<and>
    distinct (rbw_loop xs written rbw)"
  using assms
proof (induction xs arbitrary: written rbw)
  case (Cons x xs)
  let ?u = "classify_uses x"
  obtain w' r' where r: "rbw_reads (iu_reads ?u) written rbw = (w', r')" by fastforce
  note s = rbw_reads_spec [OF Cons.prems r]
  let ?w = "if iu_writes ?u then insert (iu_write ?u) w' else w'"
  have "set r' \<subseteq> ?w" "distinct r'" using s Cons.prems(1) by auto
  note ih = Cons.IH [OF this]
  have step: "rbw_loop (x # xs) written rbw = rbw_loop xs ?w r'" by (simp add: r Let_def)
  have "set (rbw_loop xs ?w r') = set rbw \<union> (live_in (x # xs) - written)"
    using ih s by (cases "iu_writes ?u") (simp_all, blast+)
  then show ?case unfolding step using ih by blast
qed simp

lemma live_in_iff:
  "a \<in> live_in xs \<longleftrightarrow>
     (\<exists>i < length xs. a \<in> set (iu_reads (classify_uses (xs ! i))) \<and>
        (\<forall>k < i. \<not> (iu_writes (classify_uses (xs ! k)) \<and> iu_write (classify_uses (xs ! k)) = a)))"
proof (induction xs)
  case (Cons x xs)
  show ?case
    unfolding live_in.simps Un_iff Diff_iff Cons.IH
    by (simp add: Ex_less_Suc2 All_less_Suc2) auto
qed simp

text \<open>
  \<open>get_read_before_write_addresses\<close> lists, without repetition, exactly the addresses that some
  instruction reads before any earlier instruction has written them.
\<close>

theorem read_before_write_exact:
  "distinct (get_read_before_write_addresses s) \<and>
   (a \<in> set (get_read_before_write_addresses s) \<longleftrightarrow>
     (\<exists>i < length (instructions (im_trace s)).
        a \<in> set (iu_reads (classify_uses (instructions (im_trace s) ! i))) \<and>
        \<not> (\<exists>k < i. iu_writes (classify_uses (instructions (im_trace s) ! k)) \<and>
                  iu_write (classify_uses (instructions (im_trace s) ! k)) = a)))"
  using rbw_loop_spec [of "[]" "{}" "instructions (im_trace s)"] live_in_iff [of a "instructions (im_trace s)"]
  by (auto simp: get_read_before_write_addresses_def)

section \<open>Accounting\<close>

definition counts :: "SimImpl \<Rightarrow> cpp_error + bool \<times> SimImpl \<Rightarrow> bool" where
  "counts s r = (case r of Inl _ \<Rightarrow> True
     | Inr (ok, s') \<Rightarrow> im_error_count s' \<ge> im_error_count s + (if ok then 0 else 1))"

lemma counts_mono: "counts s' r \<Longrightarrow> im_error_count s \<le> im_error_count s' \<Longrightarrow> counts s r"
  by (auto simp: counts_def split: sum.splits prod.splits)

lemma counts_simps [sim_simps]:
  "counts s (Inr (False, sim_error s))" "counts s (store_result d q f s)" "counts s (Inl e)"
  "counts s (Inr (True, s))"
  by (simp_all add: counts_def sim_error_def store_result_def split_beta Let_def)

lemma error_count_resolve: "im_error_count s \<le> im_error_count (snd (resolve_modulus inst s))"
  by (simp add: resolve_modulus_def sim_error_def split: option.split)

lemma error_count_get [simp]: "im_error_count (snd (get_or_zero a s)) = im_error_count s"
  by (simp add: get_or_zero_def)

lemma counts_unary:
  assumes "\<And>q a s. counts s (f q a s)"
  shows "counts s
    (let (q, s) = resolve_modulus inst s; (a, s) = get_or_zero (ucast (src1 inst)) s in
     if wrong_size a s then Inr (False, sim_error s) else f q a s)"
  by (rule counts_mono [of "snd (get_or_zero (ucast (src1 inst)) (snd (resolve_modulus inst s)))"])
     (simp_all add: split_beta Let_def sim_simps assms error_count_resolve)

lemma counts_tables:
  "ntt_tables_for be inst q s = Inr (t, s') \<Longrightarrow>
     im_error_count s' \<ge> im_error_count s + (if t = None then 1 else 0)"
proof -
  assume r: "ntt_tables_for be inst q s = Inr (t, s')"
  show ?thesis
  proof (cases "im_ntt_tables s (q, omega inst)")
    case None
    then show ?thesis
      using r by (auto simp: ntt_tables_for_def Let_def sim_error_def res_bind_eq_Inr opt_throw_def
          split: option.splits if_splits)
  next
    case (Some x)
    then have "t = Some x" "s' = s" using r by (simp_all add: ntt_tables_for_def Let_def)
    then show ?thesis by simp
  qed
qed

lemma counts_transform: "counts s (exec_transform be tr inst s)"
  unfolding exec_transform_def
proof (rule counts_unary)
  fix q a s
  show "counts s (res_bind (ntt_tables_for be inst q s) (\<lambda>(tables, s). case tables of None \<Rightarrow> Inr (False, s)
      | Some t \<Rightarrow> store_result (dest inst) q (copy_result (tr q t a) (im_ring_dim s)) s))"
  proof (cases "ntt_tables_for be inst q s")
    case (Inr r)
    obtain t s' where r: "r = (t, s')" by fastforce
    have c: "im_error_count s' \<ge> im_error_count s + (if t = None then 1 else 0)"
      using counts_tables Inr r by simp
    show ?thesis
    proof (cases t)
      case None
      then show ?thesis using c Inr r by (simp add: counts_def)
    next
      case (Some u)
      then show ?thesis
        using c Inr r counts_mono [OF counts_simps(2)] by simp
    qed
  qed (simp add: sim_simps)
qed

lemma counts_binary: "counts s (exec_binary g inst s)"
  by (rule counts_mono [of "snd (get_or_zero (ucast (src2 inst)) (snd (get_or_zero (ucast (src1 inst))
        (snd (resolve_modulus inst s)))))"])
     (simp_all add: exec_binary_def split_beta Let_def sim_simps error_count_resolve)

lemma counts_mulps: "counts s (exec_mulps be inst s)"
proof (cases "imm_or_0 inst = 0")
  case True
  show ?thesis
    by (rule counts_mono [of "snd (resolve_modulus inst s)"])
       (simp_all add: True exec_mulps_def split_beta Let_def sim_simps error_count_resolve)
next
  case False
  have "counts s
    (let (q, s) = resolve_modulus inst s; (a, s) = get_or_zero (ucast (src1 inst)) s in
     if wrong_size a s then Inr (False, sim_error s)
     else store_result (dest inst) q (copy_result (be_mod_mul_eq be q a (imm_or_0 inst)) (im_ring_dim s)) s)"
    by (rule counts_unary) (rule sim_simps)
  with False show ?thesis by (simp add: exec_mulps_def)
qed

lemma counts_instruction: "counts s (exec_instruction be inst s)"
proof -
  have a: "counts s (exec_addps be inst s)"
    unfolding exec_addps_def by (rule counts_unary) (simp add: sim_simps)
  have b: "counts s (exec_subps be inst s)"
    unfolding exec_subps_def by (rule counts_unary) (simp add: sim_simps)
  have c: "counts s (exec_negp inst s)"
    unfolding exec_negp_def by (rule counts_unary) (simp add: sim_simps)
  have d: "counts s (exec_automorph_eval inst s)"
    unfolding exec_automorph_eval_def
    by (rule counts_unary) (simp add: sim_simps Let_def split: option.split)
  have r: "counts s (exec_rot_automorph_coeff inst s)"
    unfolding exec_rot_automorph_coeff_def
    by (rule counts_unary) (auto simp: sim_simps res_bind_def split: option.split sum.split)
  show ?thesis
    by (simp add: exec_instruction_def Let_def exec_addp_def exec_subp_def exec_mulp_def exec_ntt_def
        exec_intt_def a b c d r counts_binary counts_mulps counts_transform sim_simps)
qed

lemma error_count_free [simp]: "im_error_count (free_addresses as s) = im_error_count s"
  by (simp add: free_addresses_def)

lemma execute_loop_counts:
  "execute_loop be i insts n s = Inr (n', s') \<Longrightarrow>
     n' \<le> n + length insts \<and> n + length insts + im_error_count s \<le> n' + im_error_count s'"
proof (induction insts arbitrary: i n s)
  case (Cons x xs)
  obtain ok s1 where e: "exec_instruction be x s = Inr (ok, s1)"
    using Cons.prems by (auto simp: res_bind_eq_Inr)
  let ?s2 = "if i < length (im_free_after s1) then free_addresses (im_free_after s1 ! i) s1 else s1"
  have "execute_loop be (i + 1) xs (if ok then n + 1 else n) ?s2 = Inr (n', s')"
    using Cons.prems e by (simp add: Let_def)
  from Cons.IH [OF this] show ?case
    using counts_instruction [of s be x] e by (auto simp: counts_def split: if_splits)
qed simp

text \<open>
  The counts of a run.  At most the number of instructions is reported as executed, every
  instruction that is not executed is accounted for by an error, and so a run without errors has
  executed the whole trace.
\<close>

theorem execute_accounts:
  assumes "execute be s = Inr (r, s')"
  shows "instructions_executed r \<le> length (instructions (im_trace s)) \<and>
    length (instructions (im_trace s)) \<le> instructions_executed r + sim_errors r \<and>
    (sim_errors r = 0 \<longrightarrow> instructions_executed r = length (instructions (im_trace s)))"
proof -
  obtain n where "execute_loop be 0 (instructions (im_trace s)) 0 (s\<lparr>im_error_count := 0\<rparr>) = Inr (n, s')"
    "r = \<lparr>instructions_executed = n, sim_errors = im_error_count s'\<rparr>"
    using assms by (auto simp: execute_def res_bind_eq_Inr)
  then show ?thesis using execute_loop_counts by fastforce
qed

theorem execute_accounts_witness:
  "\<exists>r s'. execute exact_backend (sim_example\<lparr>im_free_after := []\<rparr>) = Inr (r, s') \<and>
     instructions_executed r \<le> 3 \<and> 3 \<le> instructions_executed r + sim_errors r"
proof -
  obtain r s' where e: "execute exact_backend (sim_example\<lparr>im_free_after := []\<rparr>) = Inr (r, s')"
    using sim_example_runs by blast
  have "length (instructions (im_trace (sim_example\<lparr>im_free_after := []\<rparr>))) = 3"
    by (simp add: sim_example_def)
  then show ?thesis using execute_accounts [OF e] e by auto
qed

end
