(* ===== verification/Kernels.thy ===== *)
theory Kernels
  imports SimSpec "HOL-Library.Multiset"
begin

text \<open>
  The two kernels whose arithmetic is written in this repository, against what they mean on
  polynomials: the rotation multiplies by a power of the variable in the negacyclic ring, and the
  automorphism permutes the evaluations.
\<close>

section \<open>Preparing a one-source kernel\<close>

text \<open>The source is there, full-size, and the modulus resolves.\<close>

definition kernel_ready :: "Instruction \<Rightarrow> u64 \<Rightarrow> u64 list \<Rightarrow> SimImpl \<Rightarrow> bool" where
  "kernel_ready inst q a s \<longleftrightarrow>
     ring_ok s \<and> resolve_modulus inst s = (q, s) \<and> sim_is_initialized (ucast (src1 inst)) s \<and>
     get_polynomial (ucast (src1 inst)) s = a \<and> length a = unat (im_ring_dim s)"

lemma kernel_readyD:
  assumes "kernel_ready inst q a s"
  shows "resolve_modulus inst s = (q, s)" "get_or_zero (ucast (src1 inst)) s = (a, s)"
    "\<not> wrong_size a s" "ring_ok s" "length a = unat (im_ring_dim s)"
  using assms by (auto simp: kernel_ready_def get_or_zero_def sim_is_initialized_def get_polynomial_def
      wrong_size_def)

lemma store_result_eq:
  "store_result d q f s =
     Inr (True, s\<lparr>im_memory := write_slot (ucast d) q (f (fst (reserve_dest (ucast d) (im_memory s))))
                    (im_memory s)\<rparr>)"
  by (simp add: store_result_def write_slot_def split_beta Let_def)

lemma get_polynomial_view:
  "get_polynomial a s = (case mem_view a (im_memory s) of Some e \<Rightarrow> me_values e | None \<Rightarrow> [])"
  by (simp add: get_polynomial_def mem_view_def)

lemma store_result_polynomial:
  "get_polynomial a (s\<lparr>im_memory := write_slot b q vals (im_memory s)\<rparr>) =
     (if a = b then vals else get_polynomial a s)"
  by (simp add: get_polynomial_view write_slot_view)

lemma copy_result_exact:
  assumes "length v = unat n" "length buf = unat n"
  shows "copy_result v n buf = v"
  using assms map_nth [of v] by (simp add: copy_result_def)

section \<open>Negacyclic rotation\<close>

text \<open>
  Coefficient \<open>j\<close> of a polynomial extended past its length by \<open>X^N = -1\<close>.
\<close>

definition nega_coeff :: "u64 \<Rightarrow> u64 list \<Rightarrow> nat \<Rightarrow> u64" where
  "nega_coeff q a j = (if j < length a then a ! j else (q - a ! (j - length a)) mod q)"

definition nega_rotate :: "u64 \<Rightarrow> nat \<Rightarrow> u64 list \<Rightarrow> u64 list" where
  "nega_rotate q off a = map (\<lambda>i. nega_coeff q a (i + off)) [0..<length a]"

lemma rot_src_pos:
  fixes N off :: u64
  assumes "unat N < 2 ^ 63" "unat off < 2 ^ 63" "i < unat N"
  shows "unat (of_nat i + off) = i + unat off"
    and "of_nat i + off < N \<longleftrightarrow> i + unat off < unat N"
    and "\<not> i + unat off < unat N \<Longrightarrow> unat (of_nat i + off - N) = i + unat off - unat N"
proof -
  have ui: "unat (of_nat i :: u64) = i" using assms by (simp add: unat_of_nat_small)
  have no: "i + unat off < 2 ^ 64" using assms by simp
  show 1: "unat (of_nat i + off) = i + unat off"
    using no by (simp add: unat_word_ariths ui)
  show "of_nat i + off < N \<longleftrightarrow> i + unat off < unat N" by (simp add: word_less_nat_alt 1)
  show "\<not> i + unat off < unat N \<Longrightarrow> unat (of_nat i + off - N) = i + unat off - unat N"
    by (subst unat_sub) (simp_all add: word_le_nat_alt 1)
qed

lemma rot_value_in_range:
  assumes "length a = unat N" "unat N < 2 ^ 63" "unat off \<le> unat N" "q \<noteq> 0" "i < unat N"
  shows "rot_value q N a off i = Inr (nega_coeff q a (i + unat off))"
proof -
  have "unat off < 2 ^ 63" using assms by simp
  note p = rot_src_pos [OF assms(2) this assms(5)]
  show ?thesis
    using p assms by (cases "i + unat off < unat N") (simp_all add: rot_value_def nega_coeff_def Let_def)
qed

lemma rot_value_out_of_range:
  assumes "length a = unat N" "unat N < 2 ^ 63" "unat N < unat off" "unat off < 2 ^ 63" "q \<noteq> 0" "i < unat N"
  shows "(\<exists>y. rot_value q N a off i = Inr y) \<or> rot_value q N a off i = Inl OutOfBoundsAccess"
    and "i + 1 = unat N \<Longrightarrow> rot_value q N a off i = Inl OutOfBoundsAccess"
proof -
  note p = rot_src_pos [OF assms(2,4,6)]
  show "(\<exists>y. rot_value q N a off i = Inr y) \<or> rot_value q N a off i = Inl OutOfBoundsAccess"
    using assms by (auto simp: rot_value_def Let_def)
  show "i + 1 = unat N \<Longrightarrow> rot_value q N a off i = Inl OutOfBoundsAccess"
    using p assms by (simp add: rot_value_def Let_def)
qed

lemma ring_ok_bound: "ring_ok s \<Longrightarrow> unat (im_ring_dim s) < 2 ^ 63"
proof -
  assume "ring_ok s"
  then obtain e where "e \<le> 31" "unat (im_ring_dim s) = 2 ^ e" by (auto simp: ring_ok_def)
  then have "unat (im_ring_dim s) \<le> 2 ^ 31" by (simp only:) (intro power_increasing, simp_all)
  then show ?thesis by simp
qed

text \<open>
  C36: the rotation kernel.  For an offset up to the ring dimension the destination receives the
  negacyclic rotation of the source, under the resolved modulus, and no other address changes, even
  when the destination is the source; for a larger offset the kernel reads past the end of its
  snapshot.
\<close>

theorem rot_automorph_coeff_spec:
  assumes rdy: "kernel_ready inst q a s" and off: "offset inst = Some off" and q: "q \<noteq> 0"
  shows "(unat off \<le> length a \<longrightarrow>
      (\<exists>s'. exec_rot_automorph_coeff inst s = Inr (True, s') \<and>
         get_polynomial (ucast (dest inst)) s' = nega_rotate q (unat off) a \<and>
         get_modulus (ucast (dest inst)) s' = q \<and>
         (\<forall>b. b \<noteq> ucast (dest inst) \<longrightarrow> get_polynomial b s' = get_polynomial b s))) \<and>
    (length a < unat off \<and> unat off < 2 ^ 63 \<longrightarrow>
      exec_rot_automorph_coeff inst s = Inl OutOfBoundsAccess)"
proof -
  note k = kernel_readyD [OF rdy]
  let ?N = "im_ring_dim s"
  have n: "length a = unat ?N" "unat ?N < 2 ^ 63" using k(5) ring_ok_bound [OF k(4)] by auto
  have ex: "exec_rot_automorph_coeff inst s =
      res_bind (map_res (rot_value q ?N a off) [0..<unat ?N])
        (\<lambda>vals. store_result (dest inst) q (copy_result vals ?N) s)"
    using k off by (simp add: exec_rot_automorph_coeff_def)
  have good: "exec_rot_automorph_coeff inst s = Inr (True, s\<lparr>im_memory :=
      write_slot (ucast (dest inst)) q (nega_rotate q (unat off) a) (im_memory s)\<rparr>)"
    if "unat off \<le> length a"
  proof -
    have "map_res (rot_value q ?N a off) [0..<unat ?N] = Inr (nega_rotate q (unat off) a)"
      unfolding nega_rotate_def n(1)
      by (rule map_res_Inr) (use that n q in \<open>simp add: rot_value_in_range\<close>)
    moreover have "copy_result (nega_rotate q (unat off) a) ?N
        (fst (reserve_dest (ucast (dest inst)) (im_memory s))) = nega_rotate q (unat off) a"
      using n ring_ok_length [OF k(4)] by (intro copy_result_exact) (simp_all add: nega_rotate_def)
    ultimately show ?thesis by (simp add: ex store_result_eq)
  qed
  have bad: "exec_rot_automorph_coeff inst s = Inl OutOfBoundsAccess"
    if "length a < unat off" "unat off < 2 ^ 63"
  proof -
    obtain e where "unat ?N = 2 ^ e" using k(4) unfolding ring_ok_def by blast
    then have pos: "0 < unat ?N" by simp
    have "map_res (rot_value q ?N a off) [0..<unat ?N] = Inl OutOfBoundsAccess"
    proof (rule map_res_error)
      show "\<exists>x \<in> set [0..<unat ?N]. rot_value q ?N a off x = Inl OutOfBoundsAccess"
        using rot_value_out_of_range(2) [of a ?N off q "unat ?N - 1"] n that q pos
        by (intro bexI [of _ "unat ?N - 1"]) auto
    qed (use rot_value_out_of_range(1) [of a ?N off q] n that q in auto)
    then show ?thesis by (simp add: ex)
  qed
  show ?thesis
    using good bad by (auto simp: store_result_polynomial get_modulus_def)
      (simp_all add: mem_get_view write_slot_view)
qed

definition rot_example :: SimImpl where
  "rot_example =
     store_polynomial_owned 1 [3, 4] 17 ((set_ring_dimension 2 SimImpl_init)\<lparr>
       im_trace := Program_init\<lparr>modulus_table := [0xFFFFFFFFFFFFFFFF, 17]\<rparr>\<rparr>)"

theorem rot_automorph_coeff_spec_witness:
  "\<exists>s'. exec_rot_automorph_coeff (Instruction_init\<lparr>opcode := FH_SR_ROT_AUTOMORPH_COEFF, dest := 1,
        src1 := 1, modulus := Some 1, offset := Some 1\<rparr>) rot_example = Inr (True, s') \<and>
     get_polynomial 1 s' = [4, 14]"
proof -
  let ?i = "Instruction_init\<lparr>opcode := FH_SR_ROT_AUTOMORPH_COEFF, dest := 1, src1 := 1,
     modulus := Some 1, offset := Some 1\<rparr>"
  have "ring_ok rot_example"
    unfolding ring_ok_def
    by (simp add: rot_example_def store_polynomial_owned_def set_owned_def set_ring_dimension_def
        set_ring_dim_def) (rule exI [of _ 1], simp)
  then have "kernel_ready ?i 17 [3, 4] rot_example"
    by (simp add: kernel_ready_def) (simp add: rot_example_def store_polynomial_owned_def set_owned_def
        set_ring_dimension_def set_ring_dim_def resolve_modulus_def sim_is_initialized_def
        get_polynomial_def mem_is_initialized_def mem_get_def mem_put_def vec_resize_def
        Instruction_init_def Program_init_def)
  moreover have "nega_rotate 17 1 [3, 4] = [4, 14]"
    by (simp add: nega_rotate_def nega_coeff_def)
  ultimately show ?thesis using rot_automorph_coeff_spec [of ?i 17 "[3, 4]" rot_example 1] by auto
qed

section \<open>The automorphism in evaluation form\<close>

text \<open>Where the evaluation with index \<open>j\<close> comes from: the odd power \<open>2j+1\<close> of the root goes to its \<open>k\<close>-th multiple.\<close>

definition galois_index :: "nat \<Rightarrow> nat \<Rightarrow> nat \<Rightarrow> nat" where
  "galois_index e k j = (k * (2 * j + 1)) div 2 mod 2 ^ e"

abbreviation rev_index :: "nat \<Rightarrow> nat \<Rightarrow> nat" where
  "rev_index e j \<equiv> unat (rev_bits (of_nat j) e)"

lemma half_mod:
  fixes A :: nat
  assumes "e \<le> 31"
  shows "A mod 2 ^ 32 div 2 mod 2 ^ e = A div 2 mod 2 ^ e"
proof -
  have "A mod (2 * 2 ^ 31) = 2 * (A div 2 mod 2 ^ 31) + A mod 2" by (rule mod_mult2_eq)
  then have "A mod 2 ^ 32 div 2 = A div 2 mod 2 ^ 31" by simp
  moreover have "(2 :: nat) ^ e dvd 2 ^ 31" using assms by (rule le_imp_power_dvd)
  ultimately show ?thesis by (simp add: mod_mod_cancel)
qed

lemma source_index:
  assumes "e \<le> 31"
  shows "rev_bits (drop_bit 1 (of_nat (2 * j + 1) * k) AND (push_bit e 1 - 1)) e =
    rev_bits (of_nat (galois_index e (unat (k :: u32)) j)) e"
proof -
  let ?x = "of_nat (2 * j + 1) * k"
  have "unat ?x = (2 * j + 1) * unat k mod 2 ^ 32"
    by (simp only: unat_word_ariths unat_of_nat) (simp add: take_bit_eq_mod mod_mult_left_eq)
  then have "unat (drop_bit 1 ?x) = (2 * j + 1) * unat k mod 2 ^ 32 div 2"
    by (simp only: unat_drop_bit power_one_right)
  then have "unat (take_bit e (drop_bit 1 ?x)) = (2 * j + 1) * unat k mod 2 ^ 32 div 2 mod 2 ^ e"
    by (simp only: unsigned_take_bit_eq) (simp only: take_bit_eq_mod)
  then have u: "unat (take_bit e (drop_bit 1 ?x)) = galois_index e (unat k) j"
    using half_mod [OF assms, of "(2 * j + 1) * unat k"]
    by (simp only: galois_index_def mult.commute)
  have "(push_bit e 1 - 1 :: u32) = mask e" by (simp add: mask_eq_exp_minus_1 push_bit_of_1)
  then have "(drop_bit 1 ?x AND (push_bit e 1 - 1)) = take_bit e (drop_bit 1 ?x)"
    by (simp add: take_bit_eq_mask)
  then show ?thesis unfolding u [symmetric] by simp
qed

lemma automorph_loop_nth:
  assumes e: "e \<le> 31" and "length r = 2 ^ e" "n \<le> 2 ^ e" "j < 2 ^ e"
  shows "automorph_loop k e (push_bit e 1 - 1) a [m..<n] (of_nat (2 * m + 1) * k) r ! rev_index e j =
    (if m \<le> j \<and> j < n then a ! rev_index e (galois_index e (unat k) j) else r ! rev_index e j)"
  using assms(2-4)
proof (induction "n - m" arbitrary: m r)
  case 0
  then show ?case by auto
next
  case (Suc d)
  then have m: "m < n" by simp
  have inj: "rev_index e m = rev_index e j \<longleftrightarrow> m = j"
    using rev_bits_bij [of e] e Suc.prems m by (auto simp: bij_betw_def inj_on_def)
  have b: "rev_index e m < 2 ^ e" using rev_bits_bound [of e] e by simp
  have next_jk: "of_nat (2 * m + 1) * k + 2 * k = of_nat (2 * Suc m + 1) * k"
    by (simp add: algebra_simps)
  let ?r = "r[rev_index e m := a ! rev_index e (galois_index e (unat k) m)]"
  have "automorph_loop k e (push_bit e 1 - 1) a [m..<n] (of_nat (2 * m + 1) * k) r =
      automorph_loop k e (push_bit e 1 - 1) a [Suc m..<n] (of_nat (2 * Suc m + 1) * k) ?r"
    unfolding upt_conv_Cons [OF m] automorph_loop.simps source_index [OF e] next_jk ..
  then show ?case
    using Suc.hyps(1) [of "Suc m" ?r] Suc.hyps(2) Suc.prems m inj b
    by (auto simp: nth_list_update)
qed

lemma galois_index_bij:
  assumes "odd k"
  shows "bij_betw (galois_index e k) {..<2 ^ e} {..<2 ^ e}"
proof -
  have inj: "i = j" if "galois_index e k i = galois_index e k j" "i \<le> j" "j < 2 ^ e" for i j
  proof -
    have odd: "odd (k * (2 * x + 1))" for x using assms by simp
    have "2 ^ e dvd (k * (2 * j + 1)) div 2 - (k * (2 * i + 1)) div 2"
      using that(1,2) by (intro mod_eq_dvd_iff_nat [THEN iffD1]) (auto simp: galois_index_def div_le_mono)
    moreover have "(k * (2 * j + 1)) div 2 - (k * (2 * i + 1)) div 2 = k * (j - i)"
    proof -
      have "2 * ((k * (2 * x + 1)) div 2) + 1 = k * (2 * x + 1)" for x using odd [of x] by presburger
      then have "2 * ((k * (2 * j + 1)) div 2) - 2 * ((k * (2 * i + 1)) div 2) = k * (2 * j + 1) - k * (2 * i + 1)"
        by (metis diff_add_inverse2 diff_diff_left add.commute diff_cancel2)
      also have "\<dots> = 2 * (k * (j - i))" using that(2) by (simp add: diff_mult_distrib2 algebra_simps)
      finally show ?thesis by simp
    qed
    ultimately have "2 ^ e dvd k * (j - i)" by simp
    moreover have "coprime (2 ^ e) k" using assms by simp
    ultimately have "2 ^ e dvd j - i" by (simp add: coprime_dvd_mult_right_iff)
    then show ?thesis using that by (metis dvd_imp_le diff_is_0_eq less_imp_diff_less not_less le_antisym zero_less_diff)
  qed
  have "inj_on (galois_index e k) {..<2 ^ e}"
  proof (rule inj_onI)
    fix x y assume "x \<in> {..<2 ^ e}" "y \<in> {..<2 ^ e}" "galois_index e k x = galois_index e k y"
    then show "x = y" using inj [of x y] inj [of y x] by (cases "x \<le> y") auto
  qed
  moreover have "galois_index e k ` {..<2 ^ e} \<subseteq> {..<2 ^ e}" by (auto simp: galois_index_def)
  ultimately show ?thesis by (simp add: bij_betw_def endo_inj_surj)
qed

lemma mset_permuted:
  fixes a b :: "u64 list"
  assumes "bij_betw f {..<length a} {..<length a}" "length b = length a"
    and "bij_betw g {..<length a} {..<length a}" and "\<And>i. i < length a \<Longrightarrow> b ! g i = a ! f i"
  shows "mset b = mset a"
proof -
  have m: "mset xs = image_mset ((!) xs) (mset_set {..<length xs})" for xs :: "u64 list"
    by (metis map_nth mset_map mset_upt lessThan_atLeast0)
  have im: "image_mset h (mset_set {..<length a}) = mset_set {..<length a}"
    if "bij_betw h {..<length a} {..<length a}" for h
    using that by (metis bij_betw_def image_mset_mset_set)
  have "mset b = image_mset ((!) b) (image_mset g (mset_set {..<length a}))"
    using m [of b] assms(2) im [OF assms(3)] by simp
  also have "\<dots> = image_mset (\<lambda>i. a ! f i) (mset_set {..<length a})"
    unfolding image_mset.compositionality comp_def
    by (rule image_mset_cong) (simp add: assms(4))
  also have "\<dots> = image_mset ((!) a) (image_mset f (mset_set {..<length a}))"
    by (simp add: image_mset.compositionality comp_def)
  also have "\<dots> = mset a" using m [of a] im [OF assms(1)] by simp
  finally show ?thesis .
qed

text \<open>
  C35: the automorphism kernel.  Every evaluation lands where the specification of the automorphism
  puts it: in bit-reversed order, position \<open>j\<close> receives the source's value at the index of the odd
  power \<open>k (2j+1)\<close>.  For an odd \<open>k\<close> the result is a permutation of the source, and no other address
  changes.  Nothing of the old contents of the destination survives, and the destination may be the
  source.
\<close>

theorem automorph_eval_spec:
  assumes rdy: "kernel_ready inst q a s" and k: "k_op inst = Some k" and e: "length a = 2 ^ e" "e \<le> 31"
  shows "\<exists>s' b. exec_automorph_eval inst s = Inr (True, s') \<and>
    get_polynomial (ucast (dest inst)) s' = b \<and> length b = length a \<and>
    (\<forall>j < 2 ^ e. b ! rev_index e j = a ! rev_index e (galois_index e (unat (ucast k :: u32)) j)) \<and>
    (odd (unat k) \<longrightarrow> mset b = mset a) \<and>
    (\<forall>c. c \<noteq> ucast (dest inst) \<longrightarrow> get_polynomial c s' = get_polynomial c s)"
proof -
  note r = kernel_readyD [OF rdy]
  let ?k = "ucast k :: u32" and ?N = "im_ring_dim s"
  let ?buf = "fst (reserve_dest (ucast (dest inst)) (im_memory s))"
  have N: "unat ?N = 2 ^ e" using r(5) e by simp
  have "(2 :: nat) ^ e \<le> 2 ^ 31" using e(2) by (intro power_increasing) simp_all
  then have lt: "unat ?N < 2 ^ 32" using N by simp
  then have lg: "log2_loop (unat (ucast ?N :: u32)) = e"
    using N e(2) by (simp add: unsigned_ucast_eq take_bit_nat_eq_self log2_loop_power)
  define b where "b = automorph_loop ?k e (push_bit e 1 - 1) a [0..<2 ^ e] ?k ?buf"
  have lb: "length ?buf = 2 ^ e" using N ring_ok_length [OF r(4)] by simp
  have ex: "exec_automorph_eval inst s = Inr (True, s\<lparr>im_memory :=
      write_slot (ucast (dest inst)) q b (im_memory s)\<rparr>)"
    using r k lt by (simp add: exec_automorph_eval_def store_result_eq lg Let_def N b_def)
  have at: "b ! rev_index e j = a ! rev_index e (galois_index e (unat ?k) j)" if "j < 2 ^ e" for j
    using automorph_loop_nth [OF e(2) lb le_refl that, of ?k a 0] that by (simp add: b_def)
  have len: "length b = length a" using lb e(1) by (simp add: b_def)
  have "mset b = mset a" if "odd (unat k)"
  proof -
    have "unat ?k = unat k mod 2 ^ 32" by (simp add: unsigned_ucast_eq take_bit_eq_mod)
    then have "odd (unat ?k)" using that by (simp add: even_iff_mod_2_eq_zero mod_mod_cancel)
    then have f: "bij_betw (\<lambda>j. rev_index e (galois_index e (unat ?k) j)) {..<length a} {..<length a}"
      using bij_betw_trans [OF galois_index_bij rev_bits_bij] e by (simp add: comp_def)
    have g: "bij_betw (\<lambda>j. rev_index e j) {..<length a} {..<length a}"
      using rev_bits_bij [of e] e by simp
    show ?thesis using at e(1) by (intro mset_permuted [OF f len g]) simp
  qed
  then show ?thesis using ex at len by (simp add: store_result_polynomial)
qed

theorem automorph_eval_spec_witness:
  "\<exists>s' b. exec_automorph_eval (Instruction_init\<lparr>opcode := FH_SR_AUTOMORPH_EVAL, dest := 1,
        src1 := 1, modulus := Some 1, k_op := Some 3\<rparr>) rot_example = Inr (True, s') \<and>
     get_polynomial 1 s' = b \<and> mset b = {#3, 4#}"
proof -
  let ?i = "Instruction_init\<lparr>opcode := FH_SR_AUTOMORPH_EVAL, dest := 1, src1 := 1,
     modulus := Some 1, k_op := Some 3\<rparr>"
  have "ring_ok rot_example"
    unfolding ring_ok_def
    by (simp add: rot_example_def store_polynomial_owned_def set_owned_def set_ring_dimension_def
        set_ring_dim_def) (rule exI [of _ 1], simp)
  then have "kernel_ready ?i 17 [3, 4] rot_example"
    by (simp add: kernel_ready_def) (simp add: rot_example_def store_polynomial_owned_def set_owned_def
        set_ring_dimension_def set_ring_dim_def resolve_modulus_def sim_is_initialized_def
        get_polynomial_def mem_is_initialized_def mem_get_def mem_put_def vec_resize_def
        Instruction_init_def Program_init_def)
  from automorph_eval_spec [OF this, of 3 1] show ?thesis by fastforce
qed

end
