(* ===== verification/ModularBackend.thy ===== *)
theory ModularBackend
  imports Kernels
begin

text \<open>
  What the simulator relies on of OpenFHE's vector arithmetic, as an interface: addition and
  subtraction of reduced vectors, addition of a reduced constant, and multiplication by a reduced
  constant, which reduces whatever it is given.  From these laws alone the kernels of the
  poly-poly and poly-scalar instructions compute the residues they should; the reference backend
  satisfies them.
\<close>

definition reduced :: "u64 \<Rightarrow> u64 list \<Rightarrow> bool" where
  "reduced q a \<longleftrightarrow> (\<forall>x \<in> set a. x < q)"

locale modular_backend =
  fixes be :: backend
  assumes mod_add: "\<lbrakk>0 < q; length a = length b; reduced q a; reduced q b\<rbrakk> \<Longrightarrow>
      be_mod_add be q a b = map2 (\<lambda>x y. w_mod (unat x + unat y) q) a b"
    and mod_sub: "\<lbrakk>0 < q; length a = length b; reduced q a; reduced q b\<rbrakk> \<Longrightarrow>
      be_mod_sub be q a b = map2 (\<lambda>x y. w_mod (unat x + (unat q - unat y)) q) a b"
    and mod_add_eq: "\<lbrakk>0 < q; reduced q a; c < q\<rbrakk> \<Longrightarrow>
      be_mod_add_eq be q a c = map (\<lambda>x. w_mod (unat x + unat c) q) a"
    and mod_mul_eq: "\<lbrakk>0 < q; c < q\<rbrakk> \<Longrightarrow>
      be_mod_mul_eq be q a c = map (\<lambda>x. w_mod (unat x * unat c) q) a"
begin

lemma exec_mulps_value:
  assumes "mem_ring_dim (im_memory s) = unat (im_ring_dim s)" "resolve_modulus inst s = (q, s)" "opcode inst = FH_SR_MULPS"
    and "sim_is_initialized (ucast (src1 inst)) s" "get_polynomial (ucast (src1 inst)) s = a"
    and "length a = unat (im_ring_dim s)" "immediate inst = Some c" "c < q"
  shows "exec_instruction be inst s = Inr (True, s\<lparr>im_memory :=
    write_slot (ucast (dest inst)) q (map (\<lambda>x. w_mod (unat x * unat c) q) a) (im_memory s)\<rparr>)"
proof -
  have q: "0 < q" using assms(8) by (metis word_gt_0 word_not_simps(1))
  have g: "get_or_zero (ucast (src1 inst)) s = (a, s)"
    using assms(4,5) by (simp add: get_or_zero_def get_polynomial_def sim_is_initialized_def)
  have n: "mem_ring_dim (im_memory s) = length a" using assms(1,6) by simp
  show ?thesis
  proof (cases "c = 0")
    case True
    have "replicate (length a) 0 = map (\<lambda>x. w_mod (unat x * unat c) q) a"
      using True by (simp add: w_mod_def map_replicate_const)
    then show ?thesis
      using assms True n by (simp add: exec_instruction_def exec_mulps_def imm_or_0_def store_result_eq)
  next
    case False
    then show ?thesis
      using assms g n mod_mul_eq [OF q assms(8)]
      by (simp add: exec_instruction_def exec_mulps_def imm_or_0_def store_result_eq wrong_size_def
          copy_result_exact)
  qed
qed

lemma exec_addps_value:
  assumes "mem_ring_dim (im_memory s) = unat (im_ring_dim s)" "resolve_modulus inst s = (q, s)" "opcode inst = FH_SR_ADDPS"
    and "sim_is_initialized (ucast (src1 inst)) s" "get_polynomial (ucast (src1 inst)) s = a"
    and "length a = unat (im_ring_dim s)" "immediate inst = Some c"
    and "c = 0 \<or> c < q \<and> reduced q a"
  shows "exec_instruction be inst s = Inr (True, s\<lparr>im_memory :=
    write_slot (ucast (dest inst)) q (if c = 0 then a else map (\<lambda>x. w_mod (unat x + unat c) q) a)
      (im_memory s)\<rparr>)"
proof -
  have g: "get_or_zero (ucast (src1 inst)) s = (a, s)"
    using assms(4,5) by (simp add: get_or_zero_def get_polynomial_def sim_is_initialized_def)
  have n: "mem_ring_dim (im_memory s) = length a" using assms(1,6) by simp
  show ?thesis
  proof (cases "c = 0")
    case True
    then show ?thesis
      using assms g n by (simp add: exec_instruction_def exec_addps_def imm_or_0_def store_result_eq wrong_size_def)
  next
    case False
    then have q: "0 < q" using assms(8) by (metis word_gt_0 word_not_simps(1))
    show ?thesis
      using assms False g n mod_add_eq [OF q, of a c]
      by (simp add: exec_instruction_def exec_addps_def imm_or_0_def store_result_eq wrong_size_def
          copy_result_exact)
  qed
qed

lemma exec_binary_value:
  assumes "mem_ring_dim (im_memory s) = unat (im_ring_dim s)" "resolve_modulus inst s = (q, s)"
    and "sim_is_initialized (ucast (src1 inst)) s" "get_polynomial (ucast (src1 inst)) s = a"
    and "sim_is_initialized (ucast (src2 inst)) s" "get_polynomial (ucast (src2 inst)) s = b"
    and "length a = unat (im_ring_dim s)" "length b = unat (im_ring_dim s)"
    and "0 < q" "reduced q a" "reduced q b"
  shows "opcode inst = FH_SR_ADDP \<Longrightarrow> exec_instruction be inst s = Inr (True, s\<lparr>im_memory :=
      write_slot (ucast (dest inst)) q (map2 (\<lambda>x y. w_mod (unat x + unat y) q) a b) (im_memory s)\<rparr>)"
    and "opcode inst = FH_SR_SUBP \<Longrightarrow> exec_instruction be inst s = Inr (True, s\<lparr>im_memory :=
      write_slot (ucast (dest inst)) q (map2 (\<lambda>x y. w_mod (unat x + (unat q - unat y)) q) a b) (im_memory s)\<rparr>)"
proof -
  have g: "get_or_zero (ucast (src1 inst)) s = (a, s)" "get_or_zero (ucast (src2 inst)) s = (b, s)"
    using assms(3-6) by (simp_all add: get_or_zero_def get_polynomial_def sim_is_initialized_def)
  have n: "mem_ring_dim (im_memory s) = length a" using assms(1,7) by simp
  have l: "length a = length b" using assms(7,8) by simp
  note laws = mod_add [OF assms(9) l assms(10,11)] mod_sub [OF assms(9) l assms(10,11)]
  show "opcode inst = FH_SR_ADDP \<Longrightarrow> exec_instruction be inst s = Inr (True, s\<lparr>im_memory :=
      write_slot (ucast (dest inst)) q (map2 (\<lambda>x y. w_mod (unat x + unat y) q) a b) (im_memory s)\<rparr>)"
    using assms g n laws by (simp add: exec_instruction_def exec_addp_def exec_binary_def
        store_result_eq wrong_size_def copy_result_exact)
  show "opcode inst = FH_SR_SUBP \<Longrightarrow> exec_instruction be inst s = Inr (True, s\<lparr>im_memory :=
      write_slot (ucast (dest inst)) q (map2 (\<lambda>x y. w_mod (unat x + (unat q - unat y)) q) a b) (im_memory s)\<rparr>)"
    using assms g n laws by (simp add: exec_instruction_def exec_subp_def exec_binary_def
        store_result_eq wrong_size_def copy_result_exact)
qed

end

interpretation exact: modular_backend exact_backend
  by unfold_locales (simp_all add: exact_backend_def case_prod_unfold)

lemma unat_w_mod: "0 < q \<Longrightarrow> unat (w_mod x q) = x mod unat q"
proof -
  assume "0 < q"
  then have "x mod unat q < unat q" by (simp add: word_less_nat_alt)
  also have "\<dots> < 2 ^ LENGTH(64)" by (rule unat_lt_2p)
  finally show ?thesis by (simp add: w_mod_def unat_of_nat_small)
qed

lemma w_mod_less: "0 < q \<Longrightarrow> w_mod x q < q"
  by (simp add: word_less_nat_alt unat_w_mod)

lemma reduced_map_w_mod [simp]: "0 < q \<Longrightarrow> reduced q (map (\<lambda>x. w_mod (f x) q) a)"
  by (auto simp: reduced_def w_mod_less)

end
