(* ===== verification/ApiReplay.thy ===== *)
theory ApiReplay
  imports ApiTrace ModularBackend
begin

text \<open>
  Recording meets replay: the instructions an operation records are executed by the simulator, and
  the polynomial at the address of its result has the value the operation stands for.  The theory
  sets up triples that speak of the recorder and of the simulator's memory at once; the gadgets are
  proved with them.
\<close>

section \<open>Runs of the simulator that only touch memory\<close>

inductive mem_run :: "backend \<Rightarrow> SimImpl \<Rightarrow> Instruction list \<Rightarrow> Memory \<Rightarrow> Memory \<Rightarrow> bool"
  for be :: backend and \<sigma> :: SimImpl where
  mem_run_Nil: "mem_run be \<sigma> [] m m"
| mem_run_Cons: "exec_instruction be i (\<sigma>\<lparr>im_memory := m\<rparr>) = Inr (True, \<sigma>\<lparr>im_memory := m1\<rparr>) \<Longrightarrow>
    mem_run be \<sigma> is m1 m2 \<Longrightarrow> mem_run be \<sigma> (i # is) m m2"

lemma mem_run_append: "mem_run be \<sigma> xs m m1 \<Longrightarrow> mem_run be \<sigma> ys m1 m2 \<Longrightarrow> mem_run be \<sigma> (xs @ ys) m m2"
  by (induction rule: mem_run.induct) (auto intro: mem_run.intros)

lemma mem_run_execute_loop:
  assumes "mem_run be \<sigma> insts m m'" "im_free_after \<sigma> = []"
  shows "execute_loop be k insts n (\<sigma>\<lparr>im_memory := m\<rparr>) = Inr (n + length insts, \<sigma>\<lparr>im_memory := m'\<rparr>)"
  using assms by (induction arbitrary: k n rule: mem_run.induct) simp_all

section \<open>Growth\<close>

text \<open>Operations only take addresses and only append to the modulus table.\<close>

abbreviation table_of :: "ApiState \<Rightarrow> u64 list" where
  "table_of s \<equiv> tw_modulus_table (as_writer s)"

definition grows :: "'a api \<Rightarrow> bool" where
  "grows m \<longleftrightarrow> (\<forall>s. next_address s \<le> next_address (snd (m s)) \<and> prefix (table_of s) (table_of (snd (m s))))"

named_theorems grows_intro \<open>operations that only grow the recorder\<close>

lemma growsI:
  "(\<And>s. next_address s \<le> next_address (snd (m s)) \<and> prefix (table_of s) (table_of (snd (m s)))) \<Longrightarrow> grows m"
  by (simp add: grows_def)

lemma grows_return [grows_intro]: "grows (api_return x)"
  by (simp add: grows_def api_return_def)

lemma grows_throw [grows_intro]: "grows (api_throw e)"
  by (simp add: grows_def api_throw_def)

lemma grows_lift [grows_intro]: "grows (api_lift r)"
  by (cases r) (simp_all add: grows_return grows_throw)

lemma grows_bind [grows_intro]:
  assumes "grows m" "\<And>x. grows (k x)"
  shows "grows (api_bind m k)"
proof (rule growsI)
  fix s
  obtain r s1 where ms: "m s = (r, s1)" by fastforce
  have 1: "next_address s \<le> next_address s1" "prefix (table_of s) (table_of s1)"
    using assms(1) ms by (auto simp: grows_def dest: spec [of _ s])
  show "next_address s \<le> next_address (snd (api_bind m k s)) \<and>
      prefix (table_of s) (table_of (snd (api_bind m k s)))"
  proof (cases r)
    case (Inl e)
    then show ?thesis using 1 ms by (simp add: api_bind_Inl)
  next
    case (Inr x)
    then have "api_bind m k s = k x s1" using ms by (simp add: api_bind_Inr)
    then show ?thesis
      using 1 assms(2) [of x, unfolded grows_def, rule_format, of s1] by (auto intro: prefix_order.trans)
  qed
qed

lemma grows_seq [grows_intro]: "grows m \<Longrightarrow> grows k \<Longrightarrow> grows (api_seq m k)"
  unfolding api_seq_def by (rule grows_bind)

lemma grows_fold [grows_intro]: "(\<And>x acc. grows (h x acc)) \<Longrightarrow> grows (api_fold h xs acc)"
  by (induction xs arbitrary: acc) (auto intro: grows_intro)

lemma grows_map [grows_intro]: "(\<And>x. grows (h x)) \<Longrightarrow> grows (api_map h xs)"
  by (induction xs) (auto intro!: grows_intro)

lemma grows_if [grows_intro]: "grows m \<Longrightarrow> grows m' \<Longrightarrow> grows (if b then m else m')"
  by simp

lemma grows_prod [grows_intro]: "(\<And>a b. grows (h a b)) \<Longrightarrow> grows (case x of (a, b) \<Rightarrow> h a b)"
  by (simp split: prod.split)

lemma grows_alloc [grows_intro]: "grows alloc_address"
  by (simp add: grows_def alloc_address_def)

lemma grows_remember [grows_intro]: "grows (remember_modulus a q)"
proof (rule growsI)
  fix s
  show "next_address s \<le> next_address (snd (remember_modulus a q s)) \<and>
      prefix (table_of s) (table_of (snd (remember_modulus a q s)))"
    using remember_modulus_run [of a q s] by auto
qed

lemma grows_emit [grows_intro]: "grows (api_emit i)"
  by (simp add: grows_def api_emit_def emit_eq)

lemma grows_midx [grows_intro]: "grows (midx q)"
  by (simp add: grows_def midx_def register_modulus_def Let_def split: option.split prod.split)

lemma grows_access [grows_intro]:
  "grows (addr_of p)" "grows (scalar_int sc)" "grows (mrp_at x q)" "grows (mrp_put x q p)"
  by (auto simp: addr_of_def scalar_int_def mrp_at_def mrp_put_def split: option.split intro: grows_intro)

lemma grows_new [grows_intro]:
  "grows (make_result a f)" "grows (make_result_like a)" "grows (scalar_from_int v)" "grows (zeros rd f)"
  unfolding make_result_like_def make_result_def zeros_def zeros_ni_def new_polynomial_def
    scalar_from_int_def new_scalar_def
  by (intro grows_intro)+

lemma grows_sr [grows_intro]:
  "grows (sr_binary op a b q)" "grows (sr_poly_scalar op f a sc q)" "grows (sr_unary op f a q)"
  unfolding sr_binary_def sr_poly_scalar_def sr_unary_def emit_pp_def emit_ps_def emit_un_def
  by (intro grows_intro)+

lemma grows_arith [grows_intro]:
  "grows (sr_addp a b q)" "grows (sr_subp a b q)" "grows (sr_mulps a sc q)" "grows (sr_addps a sc q)"
  "grows (mulps_int a v q)" "grows (addps_int a v q)" "grows (copy_residue a q)"
  "grows (rescale_residue a b q v)"
  unfolding sr_addp_def sr_subp_def sr_mulps_def sr_addps_def mulps_int_def addps_int_def copy_residue_def
    rescale_residue_def
  by (intro grows_intro)+

lemma grows_fbc [grows_intro]:
  "grows (center_mod_q_into_p a q p shape)" "grows (fbc_term a q p qs variant shape)"
  "grows (sum_fbc_terms scaled base p qss variant shape)" "grows (prescale_by_q_hat x qh)"
  "grows (fbc_residue x scaled variant shape p)"
  unfolding center_mod_q_into_p_def fbc_term_def sum_fbc_terms_def prescale_by_q_hat_def fbc_residue_def
  by (intro grows_intro)+

section \<open>What one recorded instruction is\<close>

text \<open>The recorder is recording and its table is in order.\<close>

definition writer_ready :: "ApiState \<Rightarrow> bool" where
  "writer_ready s \<longleftrightarrow> tw_recording (as_writer s) \<and> \<not> tw_paused (as_writer s) \<and>
     table_ok (table_of s) (tw_modulus_index (as_writer s))"

text \<open>An instruction computes modulo \<open>q\<close>, given the table.\<close>

definition in_modulus :: "u64 list \<Rightarrow> u64 \<Rightarrow> Instruction \<Rightarrow> bool" where
  "in_modulus tab q i \<longleftrightarrow> \<not> modulus_is_literal i \<and>
     (\<exists>m. modulus i = Some m \<and> unat m < length tab \<and> tab ! unat m = q)"

lemma in_modulus_prefix: "in_modulus tab q i \<Longrightarrow> prefix tab tab' \<Longrightarrow> in_modulus tab' q i"
  by (auto simp: in_modulus_def nth_append elim!: prefixE)

lemma in_modulus_resolve:
  "in_modulus (modulus_table (im_trace s)) q i \<Longrightarrow> resolve_modulus i s = (q, s)"
  by (auto simp: in_modulus_def resolve_modulus_def)

text \<open>Recording one instruction modulo \<open>q\<close>.\<close>

definition recorded :: "(Instruction \<Rightarrow> bool) \<Rightarrow> u64 \<Rightarrow> nat \<Rightarrow> ApiState \<Rightarrow> ApiState \<Rightarrow> bool" where
  "recorded P q n s s' \<longleftrightarrow> writer_ready s' \<and> next_address s' = next_address s + n \<and>
     prefix (table_of s) (table_of s') \<and>
     (\<exists>i. trace_of s' = trace_of s @ [i] \<and> in_modulus (table_of s') q i \<and> P i)"

lemma midx_ready:
  assumes "writer_ready s" "length (table_of s) < 2 ^ 32"
  shows "\<exists>m t. midx q s = (Inr m, s\<lparr>as_writer := t\<rparr>) \<and> writer_ready (s\<lparr>as_writer := t\<rparr>) \<and>
    prefix (table_of s) (tw_modulus_table t) \<and> tw_instructions t = trace_of s \<and>
    unat m < length (tw_modulus_table t) \<and> tw_modulus_table t ! unat m = q"
proof -
  obtain m t where reg: "register_modulus q (as_writer s) = (m, t)" by fastforce
  then have "midx q s = (Inr m, s\<lparr>as_writer := t\<rparr>)" by (simp add: midx_def)
  then show ?thesis
    using assms register_modulus_spec [OF _ _ reg] register_modulus_frame [OF reg]
    by (auto simp: writer_ready_def)
qed

lemma emit_ready:
  assumes "writer_ready s" "in_modulus (table_of s) q i" "P i"
  shows "\<exists>s'. api_emit i s = (Inr (), s') \<and> recorded P q 0 s s'"
  using assms by (auto simp: api_emit_def emit_eq recorded_def writer_ready_def)

lemma writer_ready_cong: "as_writer s' = as_writer s \<Longrightarrow> writer_ready s' \<longleftrightarrow> writer_ready s"
  by (simp add: writer_ready_def)

lemma in_modulus_ir:
  assumes "unat m < length tab" "tab ! unat m = q"
  shows "in_modulus tab q ((ir op d s1)\<lparr>immediate := v, modulus := Some (ucast (m :: u32))\<rparr>)"
    "in_modulus tab q ((ir op d s1)\<lparr>src2 := s2, modulus := Some (ucast m)\<rparr>)"
proof -
  have "unat (ucast m :: u64) = unat m" by (rule unat_ucast_up) simp
  then show "in_modulus tab q ((ir op d s1)\<lparr>immediate := v, modulus := Some (ucast m)\<rparr>)"
    "in_modulus tab q ((ir op d s1)\<lparr>src2 := s2, modulus := Some (ucast m)\<rparr>)"
    using assms by (auto simp: in_modulus_def ir_def Instruction_init_def)
qed

lemma sr_poly_scalar_run:
  assumes "writer_ready s" "length (table_of s) < 2 ^ 32"
  shows "\<exists>p s'. sr_poly_scalar op fmt (Some a) (Some sc) q s = (Inr (Some p), s') \<and>
    pi_address p = of_nat (next_address s) \<and>
    recorded (\<lambda>i. opcode i = op \<and> dest i = ucast (pi_address p) \<and> src1 i = ucast (pi_address a) \<and>
      immediate i = Some (si_int_value sc)) q 1 s s'"
proof -
  obtain p where p: "make_result (Some a) fmt s = (Inr (Some p), s\<lparr>next_address := next_address s + 1\<rparr>)"
    "pi_address p = of_nat (next_address s)" using make_result_run by blast
  let ?s1 = "s\<lparr>next_address := next_address s + 1\<rparr>"
  obtain m1 where r1: "remember_modulus (pi_address a) q ?s1 = (Inr (), ?s1\<lparr>address_modulus_map := m1\<rparr>)"
    using remember_modulus_run by blast
  let ?s2 = "?s1\<lparr>address_modulus_map := m1\<rparr>"
  obtain m2 where r2: "remember_modulus (pi_address p) q ?s2 = (Inr (), ?s2\<lparr>address_modulus_map := m2\<rparr>)"
    using remember_modulus_run by blast
  let ?s3 = "?s2\<lparr>address_modulus_map := m2\<rparr>"
  have "writer_ready ?s3" "length (table_of ?s3) < 2 ^ 32" using assms by (simp_all add: writer_ready_def)
  from midx_ready [OF this, of q] obtain m t where m: "midx q ?s3 = (Inr m, ?s3\<lparr>as_writer := t\<rparr>)"
    "writer_ready (?s3\<lparr>as_writer := t\<rparr>)" "prefix (table_of s) (tw_modulus_table t)"
    "tw_instructions t = trace_of s" "unat m < length (tw_modulus_table t)" "tw_modulus_table t ! unat m = q"
    by auto
  let ?i = "(ir op (pi_address p) (pi_address a))\<lparr>immediate := Some (si_int_value sc), modulus := Some (ucast m)\<rparr>"
  let ?s4 = "?s3\<lparr>as_writer := t\<rparr>"
  have "in_modulus (table_of ?s4) q ?i" using in_modulus_ir(1) [OF m(5,6)] by simp
  from emit_ready [OF m(2) this, of "\<lambda>i. opcode i = op \<and> dest i = ucast (pi_address p) \<and>
      src1 i = ucast (pi_address a) \<and> immediate i = Some (si_int_value sc)"]
  obtain s' where e: "api_emit ?i ?s4 = (Inr (), s')"
    "recorded (\<lambda>i. opcode i = op \<and> dest i = ucast (pi_address p) \<and> src1 i = ucast (pi_address a) \<and>
      immediate i = Some (si_int_value sc)) q 0 ?s4 s'"
    by (auto simp: ir_def)
  have "sr_poly_scalar op fmt (Some a) (Some sc) q s = (Inr (Some p), s')"
    unfolding sr_poly_scalar_def emit_ps_def api_seq_def
    using p(1) r1 r2 m(1) e(1) by (simp add: api_bind_Inr api_return_run)
  then show ?thesis
    using p(2) e(2) m(3,4) by (auto simp: recorded_def intro: prefix_order.trans)
qed

lemma sr_binary_run:
  assumes "writer_ready s" "length (table_of s) < 2 ^ 32"
  shows "\<exists>p s'. sr_binary op (Some a) (Some b) q s = (Inr (Some p), s') \<and>
    pi_address p = of_nat (next_address s) \<and>
    recorded (\<lambda>i. opcode i = op \<and> dest i = ucast (pi_address p) \<and> src1 i = ucast (pi_address a) \<and>
      src2 i = ucast (pi_address b)) q 1 s s'"
proof -
  let ?P = "\<lambda>p i. opcode i = op \<and> dest i = ucast (pi_address p) \<and> src1 i = ucast (pi_address a) \<and>
      src2 i = ucast (pi_address b)"
  obtain p where p: "make_result_like (Some a) s = (Inr (Some p), s\<lparr>next_address := next_address s + 1\<rparr>)"
    "pi_address p = of_nat (next_address s)" unfolding make_result_like_def using make_result_run by blast
  let ?s1 = "s\<lparr>next_address := next_address s + 1\<rparr>"
  obtain m1 where r1: "remember_modulus (pi_address a) q ?s1 = (Inr (), ?s1\<lparr>address_modulus_map := m1\<rparr>)"
    using remember_modulus_run by blast
  let ?s2 = "?s1\<lparr>address_modulus_map := m1\<rparr>"
  obtain m2 where r2: "remember_modulus (pi_address b) q ?s2 = (Inr (), ?s2\<lparr>address_modulus_map := m2\<rparr>)"
    using remember_modulus_run by blast
  let ?s3 = "?s2\<lparr>address_modulus_map := m2\<rparr>"
  obtain m3 where r3: "remember_modulus (pi_address p) q ?s3 = (Inr (), ?s3\<lparr>address_modulus_map := m3\<rparr>)"
    using remember_modulus_run by blast
  let ?s4 = "?s3\<lparr>address_modulus_map := m3\<rparr>"
  have "writer_ready ?s4" "length (table_of ?s4) < 2 ^ 32" using assms by (simp_all add: writer_ready_def)
  from midx_ready [OF this, of q] obtain m t where m: "midx q ?s4 = (Inr m, ?s4\<lparr>as_writer := t\<rparr>)"
    "writer_ready (?s4\<lparr>as_writer := t\<rparr>)" "prefix (table_of s) (tw_modulus_table t)"
    "tw_instructions t = trace_of s" "unat m < length (tw_modulus_table t)" "tw_modulus_table t ! unat m = q"
    by auto
  let ?i = "(ir op (pi_address p) (pi_address a))\<lparr>src2 := ucast (pi_address b), modulus := Some (ucast m)\<rparr>"
  let ?s5 = "?s4\<lparr>as_writer := t\<rparr>"
  have "in_modulus (table_of ?s5) q ?i" using in_modulus_ir(2) [OF m(5,6)] by simp
  from emit_ready [OF m(2) this, of "?P p"]
  obtain s' where e: "api_emit ?i ?s5 = (Inr (), s')" "recorded (?P p) q 0 ?s5 s'"
    by (auto simp: ir_def)
  have "sr_binary op (Some a) (Some b) q s = (Inr (Some p), s')"
    unfolding sr_binary_def emit_pp_def api_seq_def
    using p(1) r1 r2 r3 m(1) e(1) by (simp add: api_bind_Inr api_return_run)
  then show ?thesis
    using p(2) e(2) m(3,4) by (auto simp: recorded_def intro: prefix_order.trans)
qed

section \<open>Triples over recorder and memory\<close>

definition mem_value :: "u64 \<Rightarrow> Memory \<Rightarrow> u64 list option" where
  "mem_value a m = map_option me_values (mem_view a m)"

text \<open>
  The facts known at a point: each polynomial has been allocated and its address holds the vector.
\<close>

type_synonym facts = "(Polynomial \<times> u64 list) set"

definition holds :: "nat \<Rightarrow> facts \<Rightarrow> ApiState \<Rightarrow> Memory \<Rightarrow> bool" where
  "holds N \<Gamma> s m \<longleftrightarrow> mem_ring_dim m = N \<and>
     (\<forall>(p, v) \<in> \<Gamma>. \<exists>i. p = Some i \<and> unat (pi_address i) < next_address s \<and> length v = N \<and>
        mem_value (pi_address i) m = Some v)"

definition computes ::
  "backend \<Rightarrow> SimImpl \<Rightarrow> facts \<Rightarrow> 'a api \<Rightarrow> ('a \<Rightarrow> bool) \<Rightarrow> ('a \<Rightarrow> facts) \<Rightarrow> bool" where
  "computes be \<sigma> \<Gamma> m R F \<longleftrightarrow>
     (\<forall>s \<mu>. writer_ready s \<and> holds (unat (im_ring_dim \<sigma>)) \<Gamma> s \<mu> \<and> next_address (snd (m s)) \<le> 2 ^ 32 \<and>
        prefix (table_of (snd (m s))) (modulus_table (im_trace \<sigma>)) \<and>
        length (modulus_table (im_trace \<sigma>)) < 2 ^ 32 \<longrightarrow>
        (\<exists>x new \<mu>'. fst (m s) = Inr x \<and> R x \<and> trace_of (snd (m s)) = trace_of s @ new \<and>
           mem_run be \<sigma> new \<mu> \<mu>' \<and> writer_ready (snd (m s)) \<and>
           holds (unat (im_ring_dim \<sigma>)) (\<Gamma> \<union> F x) (snd (m s)) \<mu>'))"

lemma computesI:
  assumes "\<And>s \<mu>. \<lbrakk>writer_ready s; holds (unat (im_ring_dim \<sigma>)) \<Gamma> s \<mu>; next_address (snd (m s)) \<le> 2 ^ 32;
      prefix (table_of (snd (m s))) (modulus_table (im_trace \<sigma>));
      length (modulus_table (im_trace \<sigma>)) < 2 ^ 32\<rbrakk> \<Longrightarrow>
      \<exists>x new \<mu>'. fst (m s) = Inr x \<and> R x \<and> trace_of (snd (m s)) = trace_of s @ new \<and>
        mem_run be \<sigma> new \<mu> \<mu>' \<and> writer_ready (snd (m s)) \<and>
        holds (unat (im_ring_dim \<sigma>)) (\<Gamma> \<union> F x) (snd (m s)) \<mu>'"
  shows "computes be \<sigma> \<Gamma> m R F"
  using assms unfolding computes_def by simp

lemma computesD:
  "\<lbrakk>computes be \<sigma> \<Gamma> m R F; writer_ready s; holds (unat (im_ring_dim \<sigma>)) \<Gamma> s \<mu>; next_address (snd (m s)) \<le> 2 ^ 32;
    prefix (table_of (snd (m s))) (modulus_table (im_trace \<sigma>)); length (modulus_table (im_trace \<sigma>)) < 2 ^ 32\<rbrakk> \<Longrightarrow>
    \<exists>x new \<mu>'. fst (m s) = Inr x \<and> R x \<and> trace_of (snd (m s)) = trace_of s @ new \<and>
      mem_run be \<sigma> new \<mu> \<mu>' \<and> writer_ready (snd (m s)) \<and>
      holds (unat (im_ring_dim \<sigma>)) (\<Gamma> \<union> F x) (snd (m s)) \<mu>'"
  unfolding computes_def by simp

lemma holds_subset: "holds N \<Gamma> s m \<Longrightarrow> \<Gamma>' \<subseteq> \<Gamma> \<Longrightarrow> holds N \<Gamma>' s m"
  unfolding holds_def by blast

lemma computes_return: "R x \<Longrightarrow> F x \<subseteq> \<Gamma> \<Longrightarrow> computes be \<sigma> \<Gamma> (api_return x) R F"
  by (rule computesI) (auto simp: api_return_def Un_absorb2 intro: mem_run_Nil)

lemma computes_bind:
  assumes m: "computes be \<sigma> \<Gamma> m R F" and g: "\<And>x. grows (k x)"
    and k: "\<And>x. R x \<Longrightarrow> computes be \<sigma> (\<Gamma> \<union> F x) (k x) R' G"
  shows "computes be \<sigma> \<Gamma> (api_bind m k) R' G"
proof (rule computesI)
  fix s \<mu>
  let ?N = "unat (im_ring_dim \<sigma>)"
  assume w: "writer_ready s" and h: "holds ?N \<Gamma> s \<mu>"
    and n: "next_address (snd (api_bind m k s)) \<le> 2 ^ 32"
    and t: "prefix (table_of (snd (api_bind m k s))) (modulus_table (im_trace \<sigma>))"
    and l: "length (modulus_table (im_trace \<sigma>)) < 2 ^ 32"
  obtain r s1 where ms: "m s = (r, s1)" by fastforce
  have "next_address s1 \<le> next_address (snd (api_bind m k s))"
    "prefix (table_of s1) (table_of (snd (api_bind m k s)))"
    using ms g by (cases r; simp add: api_bind_Inl api_bind_Inr grows_def)+
  then have "next_address (snd (m s)) \<le> 2 ^ 32" "prefix (table_of (snd (m s))) (modulus_table (im_trace \<sigma>))"
    using n t ms by (auto intro: prefix_order.trans)
  from computesD [OF m w h this l] ms obtain x new1 \<mu>1 where 1: "r = Inr x" "R x"
    "trace_of s1 = trace_of s @ new1" "mem_run be \<sigma> new1 \<mu> \<mu>1" "writer_ready s1" "holds ?N (\<Gamma> \<union> F x) s1 \<mu>1"
    by auto
  have eq: "api_bind m k s = k x s1" using ms 1(1) by (simp add: api_bind_Inr)
  from computesD [OF k [OF 1(2)] 1(5,6) _ _ l] n t eq obtain y new2 \<mu>2 where
    2: "fst (k x s1) = Inr y" "R' y" "trace_of (snd (k x s1)) = trace_of s1 @ new2" "mem_run be \<sigma> new2 \<mu>1 \<mu>2"
      "writer_ready (snd (k x s1))" "holds ?N (\<Gamma> \<union> F x \<union> G y) (snd (k x s1)) \<mu>2"
    by auto
  show "\<exists>x new \<mu>'. fst (api_bind m k s) = Inr x \<and> R' x \<and> trace_of (snd (api_bind m k s)) = trace_of s @ new \<and>
      mem_run be \<sigma> new \<mu> \<mu>' \<and> writer_ready (snd (api_bind m k s)) \<and>
      holds ?N (\<Gamma> \<union> G x) (snd (api_bind m k s)) \<mu>'"
    using 1(3) 2 mem_run_append [OF 1(4) 2(4)] holds_subset [OF 2(6), of "\<Gamma> \<union> G y"]
    unfolding eq by (intro exI [of _ y] exI [of _ "new1 @ new2"] exI [of _ \<mu>2]) auto
qed

section \<open>One instruction\<close>

lemma ucast_address: "unat (a :: u64) < 2 ^ 32 \<Longrightarrow> ucast (ucast a :: u32) = a"
  by (simp add: word_unat_eq_iff unat_ucast_small unat_ucast_up)

lemma holds_value:
  assumes "holds N \<Gamma> s \<mu>" "(p, v) \<in> \<Gamma>"
  obtains i where "p = Some i" "unat (pi_address i) < next_address s" "length v = N"
    "mem_value (pi_address i) \<mu> = Some v"
  using assms unfolding holds_def by blast

lemma holds_write:
  assumes h: "holds N \<Gamma> s \<mu>" and p: "pi_address p = of_nat (next_address s)" and n: "next_address s < 2 ^ 32"
    and s': "next_address s < next_address s'" and w: "length w = N"
  shows "holds N (\<Gamma> \<union> {(Some p, w)}) s' (write_slot (pi_address p) q w \<mu>)"
proof -
  have u: "unat (pi_address p) = next_address s" using p n by (simp add: unat_of_nat_address)
  have "mem_value (pi_address i) (write_slot (pi_address p) q w \<mu>) = mem_value (pi_address i) \<mu>"
    if "unat (pi_address i) < next_address s" for i
    using that u by (auto simp: mem_value_def write_slot_view)
  moreover have "mem_value (pi_address p) (write_slot (pi_address p) q w \<mu>) = Some w"
    by (simp add: mem_value_def write_slot_view)
  ultimately show ?thesis using h u s' w unfolding holds_def by fastforce
qed

lemma computes_recorded:
  assumes run: "\<And>s. writer_ready s \<Longrightarrow> length (table_of s) < 2 ^ 32 \<Longrightarrow>
      \<exists>p s'. m s = (Inr (Some p), s') \<and> pi_address p = of_nat (next_address s) \<and> recorded (P p) q 1 s s'"
    and dest: "\<And>p i. P p i \<Longrightarrow> dest i = ucast (pi_address p)"
    and exec: "\<And>p i s \<mu>. P p i \<Longrightarrow> in_modulus (modulus_table (im_trace \<sigma>)) q i \<Longrightarrow>
      holds (unat (im_ring_dim \<sigma>)) \<Gamma> s \<mu> \<Longrightarrow> next_address s \<le> 2 ^ 32 \<Longrightarrow>
      exec_instruction be i (\<sigma>\<lparr>im_memory := \<mu>\<rparr>) =
        Inr (True, \<sigma>\<lparr>im_memory := write_slot (ucast (dest i)) q w \<mu>\<rparr>)"
    and len: "length w = unat (im_ring_dim \<sigma>)" and grows: "grows m"
  shows "computes be \<sigma> \<Gamma> m (\<lambda>_. True) (\<lambda>x. {(x, w)})"
proof (rule computesI)
  fix s \<mu>
  let ?N = "unat (im_ring_dim \<sigma>)"
  assume rdy: "writer_ready s" and h: "holds ?N \<Gamma> s \<mu>" and n: "next_address (snd (m s)) \<le> 2 ^ 32"
    and t: "prefix (table_of (snd (m s))) (modulus_table (im_trace \<sigma>))"
    and l: "length (modulus_table (im_trace \<sigma>)) < 2 ^ 32"
  have "prefix (table_of s) (table_of (snd (m s)))" using grows by (simp add: grows_def)
  then have "length (table_of s) < 2 ^ 32" using t l prefix_length_le by (metis le_less_trans)
  from run [OF rdy this] obtain p s' where m: "m s = (Inr (Some p), s')"
    and p: "pi_address p = of_nat (next_address s)" and rec: "recorded (P p) q 1 s s'" by blast
  from rec obtain i where i: "trace_of s' = trace_of s @ [i]" "in_modulus (table_of s') q i" "P p i"
    and s': "next_address s' = next_address s + 1" "writer_ready s'"
    unfolding recorded_def by blast
  have n': "next_address s < 2 ^ 32" using n m s'(1) by simp
  have "ucast (dest i) = pi_address p"
    using dest [OF i(3)] ucast_address [of "pi_address p"] p n' by (simp add: unat_of_nat_address)
  moreover have "in_modulus (modulus_table (im_trace \<sigma>)) q i"
    using in_modulus_prefix [OF i(2)] t m by simp
  ultimately have "exec_instruction be i (\<sigma>\<lparr>im_memory := \<mu>\<rparr>) =
      Inr (True, \<sigma>\<lparr>im_memory := write_slot (pi_address p) q w \<mu>\<rparr>)"
    using exec [OF i(3) _ h] n' by simp
  then have "mem_run be \<sigma> [i] \<mu> (write_slot (pi_address p) q w \<mu>)" by (auto intro: mem_run.intros)
  moreover have "holds ?N (\<Gamma> \<union> {(Some p, w)}) s' (write_slot (pi_address p) q w \<mu>)"
    by (rule holds_write [OF h p n']) (simp_all add: s'(1) len)
  ultimately show "\<exists>x new \<mu>'. fst (m s) = Inr x \<and> True \<and> trace_of (snd (m s)) = trace_of s @ new \<and>
      mem_run be \<sigma> new \<mu> \<mu>' \<and> writer_ready (snd (m s)) \<and> holds ?N (\<Gamma> \<union> {(x, w)}) (snd (m s)) \<mu>'"
    using m i(1) s'(2) by auto
qed

lemma computes_scalar:
  "computes be \<sigma> \<Gamma> (scalar_from_int v) (\<lambda>sc. \<exists>k. sc = Some k \<and> si_int_value k = v) (\<lambda>_. {})"
proof (rule computesI)
  fix s \<mu>
  assume "writer_ready s" "holds (unat (im_ring_dim \<sigma>)) \<Gamma> s \<mu>"
  then show "\<exists>x new \<mu>'. fst (scalar_from_int v s) = Inr x \<and> (\<exists>k. x = Some k \<and> si_int_value k = v) \<and>
      trace_of (snd (scalar_from_int v s)) = trace_of s @ new \<and> mem_run be \<sigma> new \<mu> \<mu>' \<and>
      writer_ready (snd (scalar_from_int v s)) \<and>
      holds (unat (im_ring_dim \<sigma>)) (\<Gamma> \<union> {}) (snd (scalar_from_int v s)) \<mu>'"
    by (intro exI [of _ "Some _"] exI [of _ "[]"] exI [of _ \<mu>])
      (fastforce simp: scalar_from_int_def new_scalar_def api_bind_def alloc_address_def api_return_def
        writer_ready_def holds_def intro: mem_run_Nil)
qed

lemma holds_source:
  assumes h: "holds (unat (im_ring_dim \<sigma>)) \<Gamma> s \<mu>" and a: "(Some i, v) \<in> \<Gamma>" and n: "next_address s \<le> 2 ^ 32"
    and d: "d = ucast (pi_address i)"
  shows "mem_ring_dim (im_memory (\<sigma>\<lparr>im_memory := \<mu>\<rparr>)) = unat (im_ring_dim (\<sigma>\<lparr>im_memory := \<mu>\<rparr>))"
    "sim_is_initialized (ucast (d :: u32)) (\<sigma>\<lparr>im_memory := \<mu>\<rparr>)"
    "get_polynomial (ucast d) (\<sigma>\<lparr>im_memory := \<mu>\<rparr>) = v" "length v = unat (im_ring_dim (\<sigma>\<lparr>im_memory := \<mu>\<rparr>))"
proof -
  from holds_value [OF h a] have i: "unat (pi_address i) < next_address s" "length v = unat (im_ring_dim \<sigma>)"
    "mem_value (pi_address i) \<mu> = Some v" by auto
  then have c: "ucast d = pi_address i" using d n by (simp add: ucast_address)
  show "mem_ring_dim (im_memory (\<sigma>\<lparr>im_memory := \<mu>\<rparr>)) = unat (im_ring_dim (\<sigma>\<lparr>im_memory := \<mu>\<rparr>))"
    using h by (simp add: holds_def)
  show "length v = unat (im_ring_dim (\<sigma>\<lparr>im_memory := \<mu>\<rparr>))" using i by simp
  show "sim_is_initialized (ucast d) (\<sigma>\<lparr>im_memory := \<mu>\<rparr>)"
    using i(3) c by (auto simp: sim_is_initialized_def mem_is_initialized_view mem_value_def)
  show "get_polynomial (ucast d) (\<sigma>\<lparr>im_memory := \<mu>\<rparr>) = v"
    using i(3) c by (auto simp: get_polynomial_view mem_value_def)
qed

lemma in_modulus_resolve_memory:
  "in_modulus (modulus_table (im_trace \<sigma>)) q i \<Longrightarrow> resolve_modulus i (\<sigma>\<lparr>im_memory := \<mu>\<rparr>) = (q, \<sigma>\<lparr>im_memory := \<mu>\<rparr>)"
  by (rule in_modulus_resolve) simp

definition mul_const :: "u64 \<Rightarrow> u64 \<Rightarrow> u64 list \<Rightarrow> u64 list" where
  "mul_const q c v = map (\<lambda>x. w_mod (unat x * unat c) q) v"

definition add_const :: "u64 \<Rightarrow> u64 \<Rightarrow> u64 list \<Rightarrow> u64 list" where
  "add_const q c v = (if c = 0 then v else map (\<lambda>x. w_mod (unat x + unat c) q) v)"

definition add_vec :: "u64 \<Rightarrow> u64 list \<Rightarrow> u64 list \<Rightarrow> u64 list" where
  "add_vec q v w = map2 (\<lambda>x y. w_mod (unat x + unat y) q) v w"

definition sub_vec :: "u64 \<Rightarrow> u64 list \<Rightarrow> u64 list \<Rightarrow> u64 list" where
  "sub_vec q v w = map2 (\<lambda>x y. w_mod (unat x + (unat q - unat y)) q) v w"

text \<open>The facts in use all have the length of the ring.\<close>

definition sized :: "SimImpl \<Rightarrow> facts \<Rightarrow> bool" where
  "sized \<sigma> \<Gamma> \<longleftrightarrow> (\<forall>(p, v) \<in> \<Gamma>. p \<noteq> None \<and> length v = unat (im_ring_dim \<sigma>))"

lemma sizedD: "sized \<sigma> \<Gamma> \<Longrightarrow> (p, v) \<in> \<Gamma> \<Longrightarrow> \<exists>i. p = Some i \<and> length v = unat (im_ring_dim \<sigma>)"
  unfolding sized_def by fastforce

text \<open>A triple may assume what its facts already say of lengths and null handles.\<close>

lemma computes_sized:
  assumes "sized \<sigma> \<Gamma> \<Longrightarrow> computes be \<sigma> \<Gamma> m R F"
  shows "computes be \<sigma> \<Gamma> m R F"
proof (cases "sized \<sigma> \<Gamma>")
  case False
  then have "\<not> holds (unat (im_ring_dim \<sigma>)) \<Gamma> s \<mu>" for s \<mu>
    unfolding sized_def holds_def by blast
  then show ?thesis unfolding computes_def by blast
qed (rule assms)

context modular_backend
begin

lemma computes_mulps:
  assumes "(a, v) \<in> \<Gamma>" and "si_int_value k = c" and "c < q"
  shows "computes be \<sigma> \<Gamma> (sr_mulps a (Some k) q) (\<lambda>_. True) (\<lambda>x. {(x, mul_const q c v)})"
proof (rule computes_sized)
  assume "sized \<sigma> \<Gamma>"
  from sizedD [OF this assms(1)] obtain i where a: "a = Some i" and v: "length v = unat (im_ring_dim \<sigma>)" by blast
  show ?thesis
    unfolding sr_mulps_def a
  proof (rule computes_recorded [OF sr_poly_scalar_run])
    fix p inst s \<mu>
    assume P: "opcode inst = FH_SR_MULPS \<and> dest inst = ucast (pi_address p) \<and>
        src1 inst = ucast (pi_address i) \<and> immediate inst = Some (si_int_value k)"
      and q: "in_modulus (modulus_table (im_trace \<sigma>)) q inst"
      and h: "holds (unat (im_ring_dim \<sigma>)) \<Gamma> s \<mu>" and n: "next_address s \<le> 2 ^ 32"
    note src = holds_source [OF h assms(1) [unfolded a] n, of "src1 inst"]
    show "exec_instruction be inst (\<sigma>\<lparr>im_memory := \<mu>\<rparr>) =
        Inr (True, \<sigma>\<lparr>im_memory := write_slot (ucast (dest inst)) q (mul_const q c v) \<mu>\<rparr>)"
      using exec_mulps_value [OF src(1) in_modulus_resolve_memory [OF q] _ src(2,3,4), of c] P assms(2,3)
      by (simp add: mul_const_def)
  qed (auto simp: v mul_const_def intro: grows_intro)
qed

lemma computes_addps:
  assumes "(a, v) \<in> \<Gamma>" and "si_int_value k = c" and "c = 0 \<or> c < q \<and> reduced q v"
  shows "computes be \<sigma> \<Gamma> (sr_addps a (Some k) q) (\<lambda>_. True) (\<lambda>x. {(x, add_const q c v)})"
proof (rule computes_sized)
  assume "sized \<sigma> \<Gamma>"
  from sizedD [OF this assms(1)] obtain i where a: "a = Some i" and v: "length v = unat (im_ring_dim \<sigma>)" by blast
  show ?thesis
    unfolding sr_addps_def a
  proof (rule computes_recorded [OF sr_poly_scalar_run])
    fix p inst s \<mu>
    assume P: "opcode inst = FH_SR_ADDPS \<and> dest inst = ucast (pi_address p) \<and>
        src1 inst = ucast (pi_address i) \<and> immediate inst = Some (si_int_value k)"
      and q: "in_modulus (modulus_table (im_trace \<sigma>)) q inst"
      and h: "holds (unat (im_ring_dim \<sigma>)) \<Gamma> s \<mu>" and n: "next_address s \<le> 2 ^ 32"
    note src = holds_source [OF h assms(1) [unfolded a] n, of "src1 inst"]
    show "exec_instruction be inst (\<sigma>\<lparr>im_memory := \<mu>\<rparr>) =
        Inr (True, \<sigma>\<lparr>im_memory := write_slot (ucast (dest inst)) q (add_const q c v) \<mu>\<rparr>)"
      using exec_addps_value [OF src(1) in_modulus_resolve_memory [OF q] _ src(2,3,4), of c] P assms(2,3)
      by (simp add: add_const_def)
  qed (auto simp: v add_const_def intro: grows_intro)
qed

lemma computes_binary:
  assumes "(a, v) \<in> \<Gamma>" "(b, w) \<in> \<Gamma>" and "0 < q" "reduced q v" "reduced q w"
  shows "computes be \<sigma> \<Gamma> (sr_addp a b q) (\<lambda>_. True) (\<lambda>x. {(x, add_vec q v w)})"
    and "computes be \<sigma> \<Gamma> (sr_subp a b q) (\<lambda>_. True) (\<lambda>x. {(x, sub_vec q v w)})"
proof -
  have "computes be \<sigma> \<Gamma> (sr_binary op a b q) (\<lambda>_. True) (\<lambda>x. {(x, u)})"
    if op: "op = FH_SR_ADDP \<and> u = add_vec q v w \<or> op = FH_SR_SUBP \<and> u = sub_vec q v w" for op u
  proof (rule computes_sized)
    assume "sized \<sigma> \<Gamma>"
    from sizedD [OF this assms(1)] sizedD [OF this assms(2)] obtain i j where a: "a = Some i" "b = Some j"
      and v: "length v = unat (im_ring_dim \<sigma>)" "length w = unat (im_ring_dim \<sigma>)" by blast
    show ?thesis
      unfolding a
    proof (rule computes_recorded [OF sr_binary_run])
      fix p inst s \<mu>
      assume P: "opcode inst = op \<and> dest inst = ucast (pi_address p) \<and>
          src1 inst = ucast (pi_address i) \<and> src2 inst = ucast (pi_address j)"
        and q: "in_modulus (modulus_table (im_trace \<sigma>)) q inst"
        and h: "holds (unat (im_ring_dim \<sigma>)) \<Gamma> s \<mu>" and n: "next_address s \<le> 2 ^ 32"
      note s1 = holds_source [OF h assms(1) [unfolded a] n, of "src1 inst"]
      note s2 = holds_source [OF h assms(2) [unfolded a] n, of "src2 inst"]
      show "exec_instruction be inst (\<sigma>\<lparr>im_memory := \<mu>\<rparr>) =
          Inr (True, \<sigma>\<lparr>im_memory := write_slot (ucast (dest inst)) q u \<mu>\<rparr>)"
        using op
      proof
        assume op: "op = FH_SR_ADDP \<and> u = add_vec q v w"
        show ?thesis
          using exec_binary_value(1) [OF s1(1) in_modulus_resolve_memory [OF q] s1(2,3) s2(2,3) s1(4) s2(4) assms(3-5)]
            P op by (simp add: add_vec_def)
      next
        assume op: "op = FH_SR_SUBP \<and> u = sub_vec q v w"
        show ?thesis
          using exec_binary_value(2) [OF s1(1) in_modulus_resolve_memory [OF q] s1(2,3) s2(2,3) s1(4) s2(4) assms(3-5)]
            P op by (simp add: sub_vec_def)
      qed
    qed (use v op in \<open>auto simp: add_vec_def sub_vec_def intro: grows_intro\<close>)
  qed
  then show "computes be \<sigma> \<Gamma> (sr_addp a b q) (\<lambda>_. True) (\<lambda>x. {(x, add_vec q v w)})"
    "computes be \<sigma> \<Gamma> (sr_subp a b q) (\<lambda>_. True) (\<lambda>x. {(x, sub_vec q v w)})"
    by (simp_all add: sr_addp_def sr_subp_def)
qed

lemma computes_int_scalar:
  assumes "(a, v) \<in> \<Gamma>"
  shows "c < q \<Longrightarrow> computes be \<sigma> \<Gamma> (mulps_int a c q) (\<lambda>_. True) (\<lambda>x. {(x, mul_const q c v)})"
    and "c = 0 \<or> c < q \<and> reduced q v \<Longrightarrow>
      computes be \<sigma> \<Gamma> (addps_int a c q) (\<lambda>_. True) (\<lambda>x. {(x, add_const q c v)})"
  unfolding mulps_int_def addps_int_def
  by (rule computes_bind [OF computes_scalar], intro grows_intro, use assms computes_mulps computes_addps in fastforce)+

end

end
