(* ===== verification/FbcCrt.thy ===== *)
theory FbcCrt
  imports FbcArith
begin

text \<open>
  Why the constants of \<open>fast_base_convert\<close> are the right ones: the residues of a number, scaled by
  the inverse cofactors the code computes, recombine with the cofactors to the number plus a small
  multiple of the product of the base.  The standard variant adds fewer multiples than there are
  primes; the centered one stays within half of that on either side.
\<close>

section \<open>Chinese remaindering\<close>

lemma prod_dvd_coprime:
  fixes N :: int
  assumes "finite J" "\<And>j. j \<in> J \<Longrightarrow> int (q j) dvd N"
    "\<And>i j. i \<in> J \<Longrightarrow> j \<in> J \<Longrightarrow> i \<noteq> j \<Longrightarrow> coprime (q i) (q j)"
  shows "int (\<Prod>j\<in>J. q j) dvd N"
  using assms
proof (induction J)
  case (insert j J)
  have "coprime (q j) (\<Prod>i\<in>J. q i)"
    by (rule prod_coprime_right) (use insert in auto)
  then have "coprime (int (q j)) (int (\<Prod>i\<in>J. q i))" by (simp only: coprime_int_iff)
  then have "int (q j) * int (\<Prod>i\<in>J. q i) dvd N" using insert by (intro divides_mult) auto
  then show ?case using insert by simp
qed simp

text \<open>
  Integers \<open>c i\<close> congruent to \<open>x\<close> times the inverse cofactor recombine to \<open>x\<close> modulo the whole base.
\<close>

lemma crt_recombine:
  fixes x :: int and c :: "nat \<Rightarrow> int"
  assumes b: "prime_base base"
    and h: "\<And>i. i < length base \<Longrightarrow> base_prod_but base i * h i mod unat (base ! i) = 1"
    and c: "\<And>i. i < length base \<Longrightarrow> c i mod int (unat (base ! i)) = x * int (h i) mod int (unat (base ! i))"
  shows "int (base_prod base) dvd (\<Sum>i<length base. c i * int (base_prod_but base i)) - x"
  unfolding base_prod_def
proof (rule prod_dvd_coprime)
  fix j assume "j \<in> {..<length base}"
  then have j: "j < length base" by simp
  let ?q = "int (unat (base ! j))"
  have other: "?q dvd c i * int (base_prod_but base i)" if "i \<in> {..<length base} - {j}" for i
  proof -
    have "unat (base ! j) dvd base_prod_but base i"
      unfolding base_prod_but_def by (rule dvd_prodI) (use that j in auto)
    then show ?thesis by (intro dvd_mult) (simp only: int_dvd_int_iff)
  qed
  have e: "(\<Sum>i<length base. c i * int (base_prod_but base i)) - x =
    (c j * int (base_prod_but base j) - x) +
    (\<Sum>i\<in>{..<length base} - {j}. c i * int (base_prod_but base i))"
    using j by (simp add: sum.remove)
  have "?q dvd (\<Sum>i\<in>{..<length base} - {j}. c i * int (base_prod_but base i))"
    by (rule dvd_sum) (rule other)
  moreover have "?q dvd c j * int (base_prod_but base j) - x"
  proof -
    have "c j * int (base_prod_but base j) mod ?q = x * int (h j) * int (base_prod_but base j) mod ?q"
      using c [OF j] by (metis mod_mult_left_eq)
    also have "\<dots> = x * (int (base_prod_but base j * h j) mod ?q) mod ?q"
      by (simp add: mod_mult_right_eq ac_simps)
    also have "\<dots> = x mod ?q" unfolding zmod_int [symmetric] h [OF j] by simp
    finally show ?thesis by (simp add: mod_eq_dvd_iff)
  qed
  ultimately show "?q dvd (\<Sum>i<length base. c i * int (base_prod_but base i)) - x"
    unfolding e by (intro dvd_add)
qed (use b prime_base_coprime in auto)


text \<open>
  The two combinations the base conversion forms: of the residues in \<open>[0, q)\<close> and of the centered ones.
\<close>

definition crt_residue :: "nat \<Rightarrow> u64 \<Rightarrow> u64 \<Rightarrow> nat" where
  "crt_residue x q h = (x mod unat q) * unat h mod unat q"

definition centered :: "nat \<Rightarrow> nat \<Rightarrow> int" where
  "centered q y = (if y \<le> (q - 1) div 2 then int y else int y - int q)"

lemma crt_residue_mod: "int (crt_residue x q h) mod int (unat q) = int x * int (unat h) mod int (unat q)"
  by (simp only: crt_residue_def mod_mult_left_eq zmod_int mod_mod_trivial of_nat_mult)

lemma centered_mod: "centered q y mod int q = int y mod int q"
  by (simp add: centered_def)

lemma centered_bound: "0 < q \<Longrightarrow> y < q \<Longrightarrow> 2 * \<bar>centered q y\<bar> \<le> int q"
  by (auto simp: centered_def)

lemma multiple_in_range:
  assumes "int Q dvd int S - int x" "x < Q" "S < n * Q"
  shows "\<exists>u < n. S = x + u * Q"
proof -
  obtain k where k: "int S - int x = int Q * k" using assms(1) by (elim dvdE)
  have "int Q * k > int Q * (- 1)" using k assms(2) by simp
  then have "k > - 1" using assms(2) by (metis mult_less_cancel_left_pos of_nat_0_less_iff gr_implies_not0 gr0I)
  then obtain u where u: "k = int u" using nonneg_int_cases [of k] by auto
  then have S: "S = x + u * Q" using k by (simp add: algebra_simps flip: of_nat_mult of_nat_add)
  then have "u * Q < n * Q" using assms(3) by linarith
  then show ?thesis using S by auto
qed

lemma crt_standard:
  assumes b: "prime_base base" "base \<noteq> []" and x: "x < base_prod base"
    and h: "\<And>i. i < length base \<Longrightarrow> base_prod_but base i * unat (h i) mod unat (base ! i) = 1"
  shows "\<exists>u < length base. (\<Sum>i<length base. crt_residue x (base ! i) (h i) * base_prod_but base i) =
    x + u * base_prod base"
proof -
  let ?n = "length base" and ?Q = "base_prod base"
  let ?S = "\<Sum>i<?n. crt_residue x (base ! i) (h i) * base_prod_but base i"
  have n: "0 < ?n" using b(2) by simp
  have Q: "0 < ?Q" using x by simp
  have "int ?Q dvd (\<Sum>i<?n. int (crt_residue x (base ! i) (h i)) * int (base_prod_but base i)) - int x"
    by (rule crt_recombine [OF b(1) h]) (simp_all only: crt_residue_mod)
  then have d: "int ?Q dvd int ?S - int x" by simp
  have "crt_residue x (base ! i) (h i) * base_prod_but base i < ?Q" if "i < ?n" for i
  proof -
    have "0 < unat (base ! i)" "0 < base_prod_but base i"
      using Q that by (auto simp: base_prod_split)
    then show ?thesis using that by (simp add: base_prod_split crt_residue_def)
  qed
  then have "?S < (\<Sum>i<?n. ?Q)" using n by (intro sum_strict_mono) auto
  then have "?S < ?n * ?Q" by simp
  then show ?thesis using x multiple_in_range [OF d] by simp
qed

text \<open>With centered residues the recombination stays within half the base per prime.\<close>

lemma crt_centered:
  fixes base :: "u64 list" and h :: "nat \<Rightarrow> u64" and x :: nat
  assumes b: "prime_base base"
    and h: "\<And>i. i < length base \<Longrightarrow> base_prod_but base i * unat (h i) mod unat (base ! i) = 1"
  defines "S \<equiv> \<Sum>i<length base. centered (unat (base ! i)) (crt_residue x (base ! i) (h i)) *
      int (base_prod_but base i)"
  shows "(\<exists>v. S = int x + v * int (base_prod base)) \<and> 2 * \<bar>S\<bar> \<le> int (length base * base_prod base)"
proof -
  let ?n = "length base" and ?Q = "base_prod base"
  let ?c = "\<lambda>i. centered (unat (base ! i)) (crt_residue x (base ! i) (h i))"
  have "int ?Q dvd S - int x"
    unfolding S_def
    by (rule crt_recombine [OF b h]) (simp_all only: centered_mod crt_residue_mod)
  then obtain v where "S - int x = int ?Q * v" by (elim dvdE)
  then have "S = int x + v * int ?Q" by (simp add: algebra_simps)
  moreover have "2 * \<bar>?c i * int (base_prod_but base i)\<bar> \<le> int ?Q" if i: "i < ?n" for i
  proof -
    have "base ! i \<in> set base" using i by simp
    then have "0 < unat (base ! i)" using b by (force simp: prime_base_def is_prime_def)
    then have "2 * \<bar>?c i\<bar> \<le> int (unat (base ! i))"
      by (intro centered_bound) (simp_all add: crt_residue_def)
    then have "2 * \<bar>?c i\<bar> * int (base_prod_but base i) \<le> int (unat (base ! i)) * int (base_prod_but base i)"
      by (rule mult_right_mono) simp
    then show ?thesis using i by (simp add: base_prod_split abs_mult)
  qed
  then have "(\<Sum>i<?n. 2 * \<bar>?c i * int (base_prod_but base i)\<bar>) \<le> (\<Sum>i<?n. int ?Q)"
    by (intro sum_mono) simp
  moreover have "2 * \<bar>S\<bar> \<le> (\<Sum>i<?n. 2 * \<bar>?c i * int (base_prod_but base i)\<bar>)"
    unfolding S_def by (simp add: sum_abs flip: sum_distrib_left)
  ultimately show ?thesis by auto
qed

lemma P_inv_mod_q_correct:
  assumes "prime_base (rescale @ target)"
  shows "\<exists>pinv. P_inv_mod_q rescale target = Inr pinv \<and> length pinv = length target \<and>
    (\<forall>i < length target. pinv ! i < target ! i \<and> base_prod rescale * unat (pinv ! i) mod unat (target ! i) = 1)"
proof -
  have "\<exists>y. res_bind (prod_mod rescale (target ! i)) (\<lambda>d. modinv_prime d (target ! i)) = Inr y \<and>
      y < target ! i \<and> base_prod rescale * unat y mod unat (target ! i) = 1" if i: "i < length target" for i
  proof -
    let ?q = "target ! i"
    have q: "is_prime (unat ?q)" using assms i by (simp add: prime_base_def)
    then have q0: "0 < ?q" by (simp add: is_prime_def word_less_nat_alt)
    obtain w where w: "prod_mod rescale ?q = Inr w" "unat w = base_prod rescale mod unat ?q"
      using prod_mod_correct [OF q0] by blast
    have "coprime (unat (rescale ! j)) (unat ?q)" if "j < length rescale" for j
      using prime_base_coprime [OF assms, of j "length rescale + i"] that i by (simp add: nth_append)
    then have "coprime (base_prod rescale) (unat ?q)"
      unfolding base_prod_def by (intro prod_coprime_left) simp
    then have "\<not> unat ?q dvd base_prod rescale"
      using coprime_common_divisor [of "base_prod rescale" "unat ?q" "unat ?q"] q by (auto simp: is_prime_def)
    then have "\<not> unat ?q dvd unat w" using w(2) by (simp add: dvd_mod_iff)
    then obtain v where "modinv_prime w ?q = Inr v" "v < ?q" "unat w * unat v mod unat ?q = 1"
      using modinv_prime_correct [OF q] by blast
    then show ?thesis using w by (simp add: mod_mult_left_eq)
  qed
  then have "\<exists>ys. map_res (\<lambda>i. res_bind (prod_mod rescale (target ! i)) (\<lambda>d. modinv_prime d (target ! i)))
      [0..<length target] = Inr ys \<and> length ys = length target \<and>
      (\<forall>i < length target. ys ! i < target ! i \<and> base_prod rescale * unat (ys ! i) mod unat (target ! i) = 1)"
    by (rule map_res_upt)
  then show ?thesis
    unfolding P_inv_mod_q_def
    using map_res_map [of "\<lambda>q. res_bind (prod_mod rescale q) (\<lambda>d. modinv_prime d q)" "(!) target" "[0..<length target]"]
    by (simp add: map_nth)
qed

lemma mod_sum_right:
  fixes f g :: "nat \<Rightarrow> 'a :: euclidean_semiring_cancel"
  assumes "\<And>i. i < n \<Longrightarrow> g i = g' i mod m"
  shows "(\<Sum>i<n. f i * g i) mod m = (\<Sum>i<n. f i * g' i) mod m"
  using assms
proof (induction n)
  case (Suc n)
  have "f n * g n mod m = f n * g' n mod m" using Suc.prems [of n] by (simp add: mod_mult_right_eq)
  moreover have "(\<Sum>i<n. f i * g i) mod m = (\<Sum>i<n. f i * g' i) mod m" using Suc by simp
  ultimately show ?case by (simp only: sum.lessThan_Suc) (metis mod_add_cong)
qed simp

lemma fbc_constants:
  assumes b: "prime_base base" "base \<noteq> []" and x: "x < base_prod base" and p: "0 < p"
  shows "\<exists>qh qs. q_hat_inv_mod_q base = Inr qh \<and> q_hat_mod_p base p = Inr qs \<and>
    (\<exists>u < length base.
       (\<Sum>i<length base. crt_residue x (base ! i) (qh ! i) * unat (qs ! i)) mod unat p =
         (x + u * base_prod base) mod unat p) \<and>
    (\<exists>v. (\<Sum>i<length base. centered (unat (base ! i)) (crt_residue x (base ! i) (qh ! i)) *
             int (unat (qs ! i))) mod int (unat p) =
           (int x + v * int (base_prod base)) mod int (unat p) \<and>
         2 * \<bar>int x + v * int (base_prod base)\<bar> \<le> int (length base * base_prod base))"
proof -
  obtain qh where qh: "q_hat_inv_mod_q base = Inr qh"
    "\<And>i. i < length base \<Longrightarrow> base_prod_but base i * unat (qh ! i) mod unat (base ! i) = 1"
    using q_hat_inv_mod_q_correct [OF b(1)] by blast
  obtain qs where qs: "q_hat_mod_p base p = Inr qs"
    "\<And>i. i < length base \<Longrightarrow> unat (qs ! i) = base_prod_but base i mod unat p"
    using q_hat_mod_p_correct [OF p] by blast
  have iqs: "int (unat (qs ! i)) = int (base_prod_but base i) mod int (unat p)" if "i < length base" for i
    unfolding qs(2) [OF that] by (rule zmod_int)
  obtain u where u: "u < length base"
    "(\<Sum>i<length base. crt_residue x (base ! i) (qh ! i) * base_prod_but base i) = x + u * base_prod base"
    using crt_standard [OF b x, of "(!) qh"] qh(2) by blast
  have "(\<Sum>i<length base. crt_residue x (base ! i) (qh ! i) * unat (qs ! i)) mod unat p =
      (x + u * base_prod base) mod unat p"
    unfolding u(2) [symmetric] by (rule mod_sum_right) (rule qs(2))
  moreover
  define S where "S = (\<Sum>i<length base.
    centered (unat (base ! i)) (crt_residue x (base ! i) (qh ! i)) * int (base_prod_but base i))"
  have "(\<exists>v. S = int x + v * int (base_prod base)) \<and> 2 * \<bar>S\<bar> \<le> int (length base * base_prod base)"
    unfolding S_def by (rule crt_centered [OF b(1) qh(2)])
  then obtain v where v: "S = int x + v * int (base_prod base)"
    "2 * \<bar>int x + v * int (base_prod base)\<bar> \<le> int (length base * base_prod base)" by auto
  moreover have "(\<Sum>i<length base. centered (unat (base ! i)) (crt_residue x (base ! i) (qh ! i)) *
      int (unat (qs ! i))) mod int (unat p) = (int x + v * int (base_prod base)) mod int (unat p)"
    unfolding v(1) [symmetric] S_def by (rule mod_sum_right) (rule iqs)
  ultimately show ?thesis using qh(1) qs(1) u(1) v(2) by blast
qed

text \<open>
  For a base of distinct primes, the constants \<open>q_hat_inv_mod_q\<close> and \<open>q_hat_mod_p\<close> exist and
  the sum the base conversion forms at a target modulus \<open>p\<close> is \<open>x + u Q\<close> modulo \<open>p\<close>, with \<open>u\<close> below
  the number of primes for the standard variant and \<open>2 |x + v Q| \<le> n Q\<close> for the centered one.
\<close>

theorem fbc_constants_recombine:
  assumes "prime_base base" and "base \<noteq> []" and "x < base_prod base" and "0 < p"
  shows "\<exists>qh qs. q_hat_inv_mod_q base = Inr qh \<and> q_hat_mod_p base p = Inr qs \<and>
    (\<exists>u < length base.
       (\<Sum>i<length base. crt_residue x (base ! i) (qh ! i) * unat (qs ! i)) mod unat p =
         (x + u * base_prod base) mod unat p) \<and>
    (\<exists>v. (\<Sum>i<length base. centered (unat (base ! i)) (crt_residue x (base ! i) (qh ! i)) *
             int (unat (qs ! i))) mod int (unat p) =
           (int x + v * int (base_prod base)) mod int (unat p) \<and>
         2 * \<bar>int x + v * int (base_prod base)\<bar> \<le> int (length base * base_prod base))"
  using fbc_constants [OF assms] .

theorem fbc_constants_recombine_witness:
  "\<exists>qh qs. q_hat_inv_mod_q [17, 97] = Inr qh \<and> q_hat_mod_p [17, 97] 193 = Inr qs \<and>
    (\<exists>u < length [17, 97 :: u64].
       (\<Sum>i<length [17, 97 :: u64]. crt_residue 1000 ([17, 97] ! i) (qh ! i) * unat (qs ! i)) mod unat (193 :: u64) =
         (1000 + u * base_prod [17, 97]) mod unat (193 :: u64))"
proof -
  have "is_prime 17" "is_prime 97" unfolding is_prime_def by code_simp+
  then have "prime_base [17, 97]" by (simp add: prime_base_def)
  moreover have "1000 < base_prod [17, 97]" by (simp add: base_prod_def lessThan_Suc)
  ultimately show ?thesis using fbc_constants_recombine [of "[17, 97]" 1000 193] by auto
qed

end
