(* ===== verification/FbcSemantics.thy ===== *)
theory FbcSemantics
  imports ApiReplay FbcCrt FbcGadgets
begin

text \<open>
  The base-conversion gadgets, executed.  The instructions they record are run by the simulator on
  any backend that keeps the laws of \<open>modular_backend\<close>; the vectors found at the addresses of the
  results are the sums of \<open>FbcCrt\<close>.  Both lowering shapes of the centering step give the same vector.
\<close>

section \<open>Values\<close>

text \<open>What one coefficient contributes: itself, or its representative nearest to zero.\<close>

definition lifted :: "FbcVariant \<Rightarrow> u64 \<Rightarrow> u64 \<Rightarrow> int" where
  "lifted variant q y = (if variant = ReducedNoise then centered (unat q) (unat y) else int (unat y))"

definition w_int :: "int \<Rightarrow> u64 \<Rightarrow> u64" where
  "w_int x p = w_mod (nat (x mod int (unat p))) p"

lemma w_int_less: "0 < p \<Longrightarrow> w_int x p < p"
  by (simp add: w_int_def w_mod_less)

lemma unat_w_int: "0 < p \<Longrightarrow> int (unat (w_int x p)) = x mod int (unat p)"
proof -
  assume p: "0 < p"
  then have "0 < int (unat p)" by (simp add: word_less_nat_alt del: of_nat_unat)
  then have "int (nat (x mod int (unat p)) mod unat p) = x mod int (unat p)"
    by (simp only: zmod_int nat_0_le pos_mod_sign mod_mod_trivial)
  then show ?thesis by (simp only: w_int_def unat_w_mod [OF p])
qed

lemma w_int_eqI:
  assumes "0 < p" "int a mod int (unat p) = x mod int (unat p)"
  shows "w_mod a p = w_int x p"
proof -
  have "int (unat (w_mod a p)) = int (unat (w_int x p))"
    using assms(2) unat_w_int [OF assms(1)] by (simp only: unat_w_mod [OF assms(1)] zmod_int)
  then show ?thesis by (simp only: of_nat_eq_iff word_unat_eq_iff)
qed

lemma reduced_w_int [simp]: "0 < p \<Longrightarrow> reduced p (map (\<lambda>y. w_int (f y) p) v)"
  by (auto simp: reduced_def w_int_less)

lemma w_mod_w_int:
  assumes "0 < p"
  shows "w_mod (unat (w_int x p) * c) p = w_int (x * int c) p"
    and "w_mod (unat (w_int x p) + unat (w_int y p)) p = w_int (x + y) p"
proof (rule_tac [!] w_int_eqI [OF assms])
  show "int (unat (w_int x p) * c) mod int (unat p) = x * int c mod int (unat p)"
    by (simp only: unat_w_int [OF assms] of_nat_mult mod_mult_left_eq)
  show "int (unat (w_int x p) + unat (w_int y p)) mod int (unat p) = (x + y) mod int (unat p)"
    by (simp only: unat_w_int [OF assms] of_nat_add mod_add_eq)
qed

section \<open>Centering\<close>

text \<open>Shift by half the source modulus, change modulus, shift back.\<close>

lemma half_q_value: "0 < q \<Longrightarrow> unat (half_q q) = (unat q - 1) div 2"
  by (simp add: half_q_def unat_div unat_minus_one word_gt_0)

lemma neg_half_value:
  assumes "0 < p"
  shows "\<exists>w. neg_half q p = Inr w \<and> w < p \<and> (int (unat w) + int (unat (half_q q))) mod int (unat p) = 0"
proof -
  let ?h = "half_q q" and ?x = "half_q q mod p"
  have x: "unat ?x = unat ?h mod unat p" by (simp add: unat_mod)
  have xp: "?x < p" using assms by (simp add: word_less_nat_alt unat_mod)
  show ?thesis
  proof (cases "?x = 0")
    case True
    then have "unat ?h mod unat p = 0" using x by simp
    then have "(int (unat 0) + int (unat ?h)) mod int (unat p) = 0"
      by (simp add: zmod_int [symmetric] del: of_nat_unat)
    then show ?thesis using True assms by (auto simp: neg_half_def Let_def)
  next
    case False
    then have less: "p - ?x < p" using xp
      by (metis diff_less unat_sub word_less_nat_alt less_imp_le assms unat_gt_0 word_gt_0)
    have "unat (p - ?x) + unat ?x = unat p" using xp by (simp add: unat_sub less_imp_le word_less_nat_alt)
    then have "(int (unat (p - ?x)) + int (unat ?x)) = int (unat p)" by (metis of_nat_add)
    then have "(int (unat (p - ?x)) + int (unat ?x)) mod int (unat p) = 0" by (simp only: mod_self)
    then have "(int (unat (p - ?x)) + int (unat ?h)) mod int (unat p) = 0"
      unfolding x zmod_int by (simp only: mod_add_right_eq)
    then show ?thesis using False less assms by (auto simp: neg_half_def Let_def)
  qed
qed

lemma center_value:
  assumes q: "odd (unat q)" and y: "y < q" and p: "0 < p"
    and w: "(int (unat w) + int (unat (half_q q))) mod int (unat p) = 0"
  shows "w_mod (unat (w_mod (unat (w_mod (unat y + unat (half_q q)) q)) p) + unat w) p =
    w_int (centered (unat q) (unat y)) p"
proof (rule w_int_eqI [OF p])
  let ?h = "(unat q - 1) div 2"
  have q0: "0 < q" using y by (metis word_gt_0 word_not_simps(1))
  have h: "unat (half_q q) = ?h" by (rule half_q_value [OF q0])
  have "unat q = 2 * ?h + 1" using q by (elim oddE) simp
  then have s: "int ((unat y + ?h) mod unat q) = centered (unat q) (unat y) + int ?h"
    using y by (auto simp: centered_def word_less_nat_alt mod_if simp del: of_nat_unat)
  have "int (unat (w_mod (unat (w_mod (unat y + unat (half_q q)) q)) p) + unat w) mod int (unat p) =
      (centered (unat q) (unat y) + int ?h + int (unat w)) mod int (unat p)"
    by (simp only: unat_w_mod [OF p] unat_w_mod [OF q0] h of_nat_add zmod_int [of _ "unat p"] s mod_add_left_eq)
  also have "\<dots> = (centered (unat q) (unat y) + (int (unat w) + int ?h)) mod int (unat p)"
    by (simp only: add_ac)
  also have "\<dots> = centered (unat q) (unat y) mod int (unat p)"
    using w unfolding h by (metis mod_add_right_eq add_0_right)
  finally show "int (unat (w_mod (unat (w_mod (unat y + unat (half_q q)) q)) p) + unat w) mod int (unat p) =
      centered (unat q) (unat y) mod int (unat p)" .
qed


definition center_vec :: "u64 \<Rightarrow> u64 \<Rightarrow> u64 list \<Rightarrow> u64 list" where
  "center_vec q p v = map (\<lambda>y. w_int (centered (unat q) (unat y)) p) v"

lemma mul_const_1: "reduced q v \<Longrightarrow> mul_const q 1 v = v"
proof -
  assume r: "reduced q v"
  have "w_mod (unat x * unat (1 :: u64)) q = x" if "x \<in> set v" for x
    using that r by (auto simp: reduced_def w_mod_def word_less_nat_alt)
  then show ?thesis unfolding mul_const_def by (simp add: map_idI)
qed

lemma reduced_add_const:
  "0 < q \<Longrightarrow> reduced q v \<Longrightarrow> reduced q (add_const q c v)"
  "0 < q \<Longrightarrow> reduced q (mul_const q c v)"
  by (simp_all add: add_const_def mul_const_def)

lemma center_vec_steps:
  assumes q: "odd (unat q)" "reduced q v" and p: "0 < p"
    and w: "(int (unat w) + int (unat (half_q q))) mod int (unat p) = 0"
  shows "add_const p w (mul_const p 1 (add_const q (half_q q) v)) = center_vec q p v"
proof -
  have *: "add_const m c v = map (\<lambda>x. w_mod (unat x + unat c) m) v" if "reduced m v" for m c v
    using that by (auto simp: add_const_def reduced_def w_mod_def word_less_nat_alt intro!: map_idI [symmetric])
  have r: "reduced p (mul_const p 1 (add_const q (half_q q) v))" using p by (rule reduced_add_const)
  show ?thesis
    unfolding * [OF r] using q(2) center_value [OF q(1) _ p w]
    by (simp add: * [OF q(2)] mul_const_def center_vec_def reduced_def)
qed

lemma computes_fold_upt:
  assumes "k \<le> n" "(acc, V k) \<in> \<Gamma>"
    and step: "\<And>i acc \<Gamma>'. k \<le> i \<Longrightarrow> i < n \<Longrightarrow> \<Gamma> \<subseteq> \<Gamma>' \<Longrightarrow> (acc, V i) \<in> \<Gamma>' \<Longrightarrow>
      computes be \<sigma> \<Gamma>' (h i acc) (\<lambda>_. True) (\<lambda>x. {(x, V (Suc i))})"
    and g: "\<And>i acc. grows (h i acc)"
  shows "computes be \<sigma> \<Gamma> (api_fold h [k..<n] acc) (\<lambda>_. True) (\<lambda>x. {(x, V n)})"
  using assms(1-3)
proof (induction "n - k" arbitrary: k acc \<Gamma>)
  case 0
  then show ?case by (auto intro: computes_return)
next
  case (Suc d)
  then have k: "k < n" and d: "d = n - Suc k" by simp_all
  have "computes be \<sigma> \<Gamma> (api_bind (h k acc) (api_fold h [Suc k..<n])) (\<lambda>_. True) (\<lambda>x. {(x, V n)})"
  proof (rule computes_bind)
    show "computes be \<sigma> \<Gamma> (h k acc) (\<lambda>_. True) (\<lambda>x. {(x, V (Suc k))})"
      using Suc.prems k by blast
    show "computes be \<sigma> (\<Gamma> \<union> {(x, V (Suc k))}) (api_fold h [Suc k..<n] x) (\<lambda>_. True) (\<lambda>x. {(x, V n)})" for x
      by (rule Suc.hyps(1) [OF d]) (use k Suc.prems(3) in auto)
  qed (rule grows_fold [OF g])
  then show ?case using k by (simp add: upt_conv_Cons)
qed

text \<open>The contribution of one source residue, and the sum of the first \<open>n\<close> of them.\<close>

definition term_vec :: "FbcVariant \<Rightarrow> u64 \<Rightarrow> u64 \<Rightarrow> u64 \<Rightarrow> u64 list \<Rightarrow> u64 list" where
  "term_vec variant q p c v = map (\<lambda>y. w_int (lifted variant q y * int (unat c)) p) v"

definition sum_vec :: "FbcVariant \<Rightarrow> u64 list \<Rightarrow> u64 \<Rightarrow> u64 list \<Rightarrow> u64 list list \<Rightarrow> nat \<Rightarrow> nat \<Rightarrow> u64 list" where
  "sum_vec variant base p qs vs N n =
     map (\<lambda>j. w_int (\<Sum>i<n. lifted variant (base ! i) (vs ! i ! j) * int (unat (qs ! i))) p) [0..<N]"

lemma term_vec_eq:
  assumes "0 < p"
  shows "term_vec variant q p c v = mul_const p c (if variant = ReducedNoise then center_vec q p v else v)"
proof (cases variant)
  case Standard
  have "w_mod (unat y * unat c) p = w_int (int (unat y) * int (unat c)) p" for y :: u64
    by (rule w_int_eqI [OF assms]) (simp only: of_nat_mult)
  then show ?thesis using Standard by (simp add: term_vec_def mul_const_def lifted_def)
next
  case ReducedNoise
  then show ?thesis
    by (simp add: term_vec_def mul_const_def center_vec_def lifted_def w_mod_w_int(1) [OF assms])
qed

lemma add_vec_sum:
  assumes "0 < p" "length (vs ! n) = N"
  shows "add_vec p (sum_vec variant base p qs vs N n) (term_vec variant (base ! n) p (qs ! n) (vs ! n)) =
    sum_vec variant base p qs vs N (Suc n)"
  by (rule nth_equalityI) (simp_all add: assms add_vec_def sum_vec_def term_vec_def w_mod_w_int(2))

lemma reduced_sums:
  "0 < p \<Longrightarrow> reduced p (sum_vec variant base p qs vs N n)" "0 < p \<Longrightarrow> reduced p (term_vec variant q p c v)"
  by (simp_all add: sum_vec_def term_vec_def)

context modular_backend
begin

lemma computes_center:
  assumes a: "(a, v) \<in> \<Gamma>" and q: "odd (unat q)" "1 < q" "reduced q v" and p: "1 < p"
  shows "computes be \<sigma> \<Gamma> (center_mod_q_into_p a q p shape) (\<lambda>_. True) (\<lambda>x. {(x, center_vec q p v)})"
proof -
  have pos: "0 < q" "0 < p" using q(2) p by (auto simp: word_less_nat_alt)
  obtain w where w: "neg_half q p = Inr w" "w < p" "(int (unat w) + int (unat (half_q q))) mod int (unat p) = 0"
    using neg_half_value [OF pos(2), of q] by (elim exE conjE)
  have h: "half_q q < q" using q(2) by (simp add: word_less_nat_alt half_q_value [OF pos(1)])
  note steps = center_vec_steps [OF q(1,3) pos(2) w(3)]
  have "computes be \<sigma> \<Gamma> (if shape = FourOp then mulps_int a 1 q else api_return a) (\<lambda>_. True) (\<lambda>x. {(x, v)})"
    using computes_int_scalar(1) [OF a q(2), of \<sigma>] mul_const_1 [OF q(3)] a by (auto intro: computes_return)
  then show ?thesis
    unfolding center_mod_q_into_p_def w(1) api_lift_simps api_bind_return steps [symmetric]
  proof (rule computes_bind)
    fix b
    let ?v1 = "add_const q (half_q q) v"
    have "computes be \<sigma> (\<Gamma> \<union> {(b, v)}) (addps_int b (half_q q) q) (\<lambda>_. True) (\<lambda>x. {(x, ?v1)})"
      using h q(3) by (intro computes_int_scalar(2)) simp_all
    then show "computes be \<sigma> (\<Gamma> \<union> {(b, v)}) (api_bind (addps_int b (half_q q) q)
        (\<lambda>shifted. api_bind (mulps_int shifted 1 p) (\<lambda>rebased. addps_int rebased w p)))
        (\<lambda>_. True) (\<lambda>x. {(x, add_const p w (mul_const p 1 ?v1))})"
    proof (rule computes_bind)
      fix c
      let ?\<Gamma> = "\<Gamma> \<union> {(b, v)} \<union> {(c, ?v1)}"
      have "computes be \<sigma> ?\<Gamma> (mulps_int c 1 p) (\<lambda>_. True) (\<lambda>x. {(x, mul_const p 1 ?v1)})"
        by (rule computes_int_scalar(1)) (simp_all add: p)
      then show "computes be \<sigma> ?\<Gamma> (api_bind (mulps_int c 1 p) (\<lambda>rebased. addps_int rebased w p))
          (\<lambda>_. True) (\<lambda>x. {(x, add_const p w (mul_const p 1 ?v1))})"
        by (rule computes_bind) (use w(2) pos(2) in \<open>auto intro!: grows_intro computes_int_scalar(2) reduced_add_const\<close>)
    qed (intro grows_intro)
  qed (intro grows_intro)
qed

lemma computes_fbc_term:
  assumes a: "(a, v) \<in> \<Gamma>" and q: "variant = ReducedNoise \<Longrightarrow> odd (unat q) \<and> 1 < q \<and> reduced q v"
    and p: "1 < p" and c: "c < p"
  shows "computes be \<sigma> \<Gamma> (fbc_term a q p c variant shape) (\<lambda>_. True) (\<lambda>x. {(x, term_vec variant q p c v)})"
proof -
  have pos: "0 < p" using p by (auto simp: word_less_nat_alt)
  let ?w = "if variant = ReducedNoise then center_vec q p v else v"
  have "computes be \<sigma> \<Gamma> (if variant = ReducedNoise then center_mod_q_into_p a q p shape else api_return a)
      (\<lambda>_. True) (\<lambda>x. {(x, ?w)})"
    using computes_center [OF a _ _ _ p, of q] q a by (auto intro: computes_return)
  then show ?thesis
    unfolding fbc_term_def term_vec_eq [OF pos]
    by (rule computes_bind) (auto intro!: grows_intro computes_int_scalar(1) c)
qed

lemma computes_sum_fbc_terms:
  assumes src: "\<And>i. i < length base \<Longrightarrow> (scaled ! i, vs ! i) \<in> \<Gamma> \<and> length (vs ! i) = N \<and>
      (variant = ReducedNoise \<longrightarrow> odd (unat (base ! i)) \<and> 1 < base ! i \<and> reduced (base ! i) (vs ! i))"
    and qs: "\<And>i. i < length base \<Longrightarrow> qs ! i < p" and p: "1 < p" and base: "base \<noteq> []"
  shows "computes be \<sigma> \<Gamma> (sum_fbc_terms scaled base p qs variant shape) (\<lambda>_. True)
    (\<lambda>x. {(x, sum_vec variant base p qs vs N (length base))})"
proof -
  have pos: "0 < p" using p by (auto simp: word_less_nat_alt)
  have t: "computes be \<sigma> \<Gamma>' (fbc_term (scaled ! i) (base ! i) p (qs ! i) variant shape) (\<lambda>_. True)
      (\<lambda>x. {(x, term_vec variant (base ! i) p (qs ! i) (vs ! i))})" if "i < length base" "\<Gamma> \<subseteq> \<Gamma>'" for i \<Gamma>'
    using src [OF that(1)] that(2) qs [OF that(1)] p by (intro computes_fbc_term) auto
  have first: "term_vec variant (base ! 0) p (qs ! 0) (vs ! 0) = sum_vec variant base p qs vs N 1"
    using src [of 0] base by (auto simp: term_vec_def sum_vec_def intro: nth_equalityI)
  show ?thesis
    unfolding sum_fbc_terms_def
  proof (rule computes_bind)
    show "computes be \<sigma> \<Gamma> (fbc_term (scaled ! 0) (base ! 0) p (qs ! 0) variant shape) (\<lambda>_. True)
        (\<lambda>x. {(x, sum_vec variant base p qs vs N 1)})"
      using t [of 0 \<Gamma>] base unfolding first by simp
    fix acc
    show "computes be \<sigma> (\<Gamma> \<union> {(acc, sum_vec variant base p qs vs N 1)})
        (api_fold (\<lambda>i acc. api_bind (fbc_term (scaled ! i) (base ! i) p (qs ! i) variant shape)
           (\<lambda>term. sr_addp acc term p)) [1..<length base] acc) (\<lambda>_. True)
        (\<lambda>x. {(x, sum_vec variant base p qs vs N (length base))})"
    proof (rule computes_fold_upt)
      fix i acc' \<Gamma>'
      assume i: "1 \<le> i" "i < length base" and G: "\<Gamma> \<union> {(acc, sum_vec variant base p qs vs N 1)} \<subseteq> \<Gamma>'"
        and acc': "(acc', sum_vec variant base p qs vs N i) \<in> \<Gamma>'"
      have "computes be \<sigma> \<Gamma>' (fbc_term (scaled ! i) (base ! i) p (qs ! i) variant shape) (\<lambda>_. True)
          (\<lambda>x. {(x, term_vec variant (base ! i) p (qs ! i) (vs ! i))})"
        using t [OF i(2)] G by blast
      then show "computes be \<sigma> \<Gamma>' (api_bind (fbc_term (scaled ! i) (base ! i) p (qs ! i) variant shape)
          (\<lambda>term. sr_addp acc' term p)) (\<lambda>_. True) (\<lambda>x. {(x, sum_vec variant base p qs vs N (Suc i))})"
      proof (rule computes_bind)
        fix u
        show "computes be \<sigma> (\<Gamma>' \<union> {(u, term_vec variant (base ! i) p (qs ! i) (vs ! i))}) (sr_addp acc' u p)
            (\<lambda>_. True) (\<lambda>x. {(x, sum_vec variant base p qs vs N (Suc i))})"
          unfolding add_vec_sum [OF pos src [OF i(2), THEN conjunct2, THEN conjunct1], symmetric]
          by (rule computes_binary(1)) (simp_all add: acc' pos reduced_sums)
      qed (intro grows_intro)
    qed (use base in \<open>auto intro: grows_intro simp: Suc_le_eq\<close>)
  qed (intro grows_intro)
qed

end

section \<open>A whole conversion\<close>

lemma computes_map:
  assumes step: "\<And>x \<Gamma>'. x \<in> set xs \<Longrightarrow> \<Gamma> \<subseteq> \<Gamma>' \<Longrightarrow> computes be \<sigma> \<Gamma>' (h x) (R x) (F x)"
    and g: "\<And>x. grows (h x)"
  shows "computes be \<sigma> \<Gamma> (api_map h xs) (list_all2 R xs) (\<lambda>ys. \<Union> (set (map2 F xs ys)))"
  using step
proof (induction xs arbitrary: \<Gamma>)
  case Nil
  then show ?case by (auto intro: computes_return)
next
  case (Cons x xs)
  have "computes be \<sigma> \<Gamma> (api_bind (h x) (\<lambda>y. api_bind (api_map h xs) (\<lambda>ys. api_return (y # ys))))
      (list_all2 R (x # xs)) (\<lambda>ys. \<Union> (set (map2 F (x # xs) ys)))"
  proof (rule computes_bind)
    show "computes be \<sigma> \<Gamma> (h x) (R x) (F x)" using Cons.prems by simp
    fix y assume y: "R x y"
    have "computes be \<sigma> (\<Gamma> \<union> F x y) (api_map h xs) (list_all2 R xs) (\<lambda>ys. \<Union> (set (map2 F xs ys)))"
      using Cons.prems by (intro Cons.IH) auto
    then show "computes be \<sigma> (\<Gamma> \<union> F x y) (api_bind (api_map h xs) (\<lambda>ys. api_return (y # ys)))
        (list_all2 R (x # xs)) (\<lambda>ys. \<Union> (set (map2 F (x # xs) ys)))"
      by (rule computes_bind) (use y in \<open>auto intro!: grows_intro computes_return\<close>)
  qed (intro grows_intro g)
  then show ?case by simp
qed

lemma in_Union_map2:
  "i < length xs \<Longrightarrow> i < length ys \<Longrightarrow> z \<in> F (xs ! i) (ys ! i) \<Longrightarrow> z \<in> \<Union> (set (map2 F xs ys))"
  by (auto simp: set_zip)

lemma computes_weaken:
  assumes "computes be \<sigma> \<Gamma> m R F" and "\<And>x. R x \<Longrightarrow> R' x" and "\<And>x. R x \<Longrightarrow> F' x \<subseteq> F x"
  shows "computes be \<sigma> \<Gamma> m R' F'"
proof -
  have "holds N (\<Gamma> \<union> F' x) s \<mu>" if "R x" "holds N (\<Gamma> \<union> F x) s \<mu>" for N x s \<mu>
    using that assms(3) [OF that(1)] by (auto elim: holds_subset)
  then show ?thesis using assms(1,2) unfolding computes_def by blast
qed

lemma is_prime_odd: "is_prime (unat q) \<Longrightarrow> q \<noteq> 2 \<Longrightarrow> odd (unat (q :: u64))"
proof
  assume q: "is_prime (unat q)" "q \<noteq> 2" "even (unat q)"
  then have "2 = unat q" by (auto simp: is_prime_def)
  then have "unat q = unat (2 :: u64)" by simp
  then show False using q(2) by (simp only: word_unat_eq_iff)
qed

lemma computes_remember: "computes be \<sigma> \<Gamma> (remember_modulus a q) (\<lambda>_. True) (\<lambda>_. {})"
proof (rule computesI)
  fix s \<mu>
  assume w: "writer_ready s" and h: "holds (unat (im_ring_dim \<sigma>)) \<Gamma> s \<mu>"
  obtain m where "remember_modulus a q s = (Inr (), s\<lparr>address_modulus_map := m\<rparr>)"
    using remember_modulus_run by blast
  then show "\<exists>x new \<mu>'. fst (remember_modulus a q s) = Inr x \<and> True \<and>
      trace_of (snd (remember_modulus a q s)) = trace_of s @ new \<and> mem_run be \<sigma> new \<mu> \<mu>' \<and>
      writer_ready (snd (remember_modulus a q s)) \<and>
      holds (unat (im_ring_dim \<sigma>)) (\<Gamma> \<union> {}) (snd (remember_modulus a q s)) \<mu>'"
    using w h by (intro exI [of _ "()"] exI [of _ "[]"] exI [of _ \<mu>])
      (auto simp: writer_ready_def holds_def intro: mem_run_Nil)
qed

text \<open>The residues of the numbers \<open>X 0, X 1, \<dots>\<close>, and the same multiplied by a constant.\<close>

definition residue_vec :: "(nat \<Rightarrow> nat) \<Rightarrow> nat \<Rightarrow> u64 \<Rightarrow> u64 list" where
  "residue_vec X N q = map (\<lambda>j. w_mod (X j) q) [0..<N]"

definition scaled_vec :: "(nat \<Rightarrow> nat) \<Rightarrow> nat \<Rightarrow> u64 \<Rightarrow> u64 \<Rightarrow> u64 list" where
  "scaled_vec X N q h = map (\<lambda>j. w_mod (crt_residue (X j) q h) q) [0..<N]"

lemma w_mod_mod: "w_mod (x mod unat q) q = w_mod x q"
  by (simp add: w_mod_def)

lemma reduced_vecs: "0 < q \<Longrightarrow> reduced q (residue_vec X N q)" "0 < q \<Longrightarrow> reduced q (scaled_vec X N q h)"
  by (simp_all add: residue_vec_def scaled_vec_def)

lemma mul_const_residue: "0 < q \<Longrightarrow> mul_const q h (residue_vec X N q) = scaled_vec X N q h"
  by (simp add: mul_const_def residue_vec_def scaled_vec_def crt_residue_def unat_w_mod w_mod_mod)

definition fbc_vec :: "FbcVariant \<Rightarrow> u64 list \<Rightarrow> u64 list \<Rightarrow> (nat \<Rightarrow> nat) \<Rightarrow> nat \<Rightarrow> u64 \<Rightarrow> u64 list" where
  "fbc_vec variant base qh X N p =
     (if p \<in> set base then residue_vec X N p
      else sum_vec variant base p (projr (q_hat_mod_p base p)) (map2 (scaled_vec X N) base qh) N (length base))"

lemma MRP_from_pairs_at:
  assumes "p \<in> snd ` set pairs"
  shows "\<exists>z. mrp_residues (MRP_from_pairs pairs) p = Some z \<and> (z, p) \<in> set pairs"
  using assms
proof (induction pairs rule: rev_induct)
  case (snoc y pairs)
  then show ?case by (cases y) (force simp: MRP_from_pairs_def)
qed simp

lemma computes_pairs:
  assumes step: "\<And>x \<Gamma>'. x \<in> set xs \<Longrightarrow> \<Gamma> \<subseteq> \<Gamma>' \<Longrightarrow>
      computes be \<sigma> \<Gamma>' (h x) (\<lambda>y. snd y = key x) (\<lambda>y. {(fst y, V (key x))})"
    and g: "\<And>x. grows (h x)"
  shows "computes be \<sigma> \<Gamma> (api_bind (api_map h xs) (\<lambda>pairs. api_return (MRP_from_pairs pairs)))
    (\<lambda>y. mrp_base y = map key xs \<and> key ` set xs \<subseteq> dom (mrp_residues y))
    (\<lambda>y. {(the (mrp_residues y p), V p) | p. p \<in> key ` set xs})"
proof (rule computes_bind [OF computes_map])
  show "computes be \<sigma> \<Gamma>' (h x) (\<lambda>y. snd y = key x) (\<lambda>y. {(fst y, V (key x))})"
    if "x \<in> set xs" "\<Gamma> \<subseteq> \<Gamma>'" for x \<Gamma>' using that by (rule step)
  show "grows (api_return (MRP_from_pairs ps))" for ps by (intro grows_intro)
  fix pairs :: "(Polynomial \<times> u64) list" assume l: "list_all2 (\<lambda>x y. snd y = key x) xs pairs"
  then have t: "map key xs = map snd pairs" by (auto simp: list_all2_conv_all_nth intro: nth_equalityI)
  have "(fst (pairs ! i), V (snd (pairs ! i))) \<in> \<Union> (set (map2 (\<lambda>x y. {(fst y, V (key x))}) xs pairs))"
    if "i < length pairs" for i
    by (rule in_Union_map2 [of i]) (use that l in \<open>auto simp: list_all2_conv_all_nth\<close>)
  then have f: "(z, V p) \<in> \<Union> (set (map2 (\<lambda>x y. {(fst y, V (key x))}) xs pairs))" if "(z, p) \<in> set pairs" for z p
    using that by (fastforce simp: in_set_conv_nth)
  have k: "key ` set xs = snd ` set pairs" using t by (metis set_map)
  show "computes be \<sigma> (\<Gamma> \<union> \<Union> (set (map2 (\<lambda>x y. {(fst y, V (key x))}) xs pairs)))
      (api_return (MRP_from_pairs pairs)) (\<lambda>y. mrp_base y = map key xs \<and> key ` set xs \<subseteq> dom (mrp_residues y))
      (\<lambda>y. {(the (mrp_residues y p), V p) | p. p \<in> key ` set xs})"
  proof (rule computes_return)
    show "mrp_base (MRP_from_pairs pairs) = map key xs \<and> key ` set xs \<subseteq> dom (mrp_residues (MRP_from_pairs pairs))"
    proof
      show "mrp_base (MRP_from_pairs pairs) = map key xs" unfolding t by (simp add: MRP_from_pairs_def)
      show "key ` set xs \<subseteq> dom (mrp_residues (MRP_from_pairs pairs))"
        unfolding k using MRP_from_pairs_at by blast
    qed
    show "{(the (mrp_residues (MRP_from_pairs pairs) p), V p) | p. p \<in> key ` set xs} \<subseteq>
        \<Gamma> \<union> \<Union> (set (map2 (\<lambda>x y. {(fst y, V (key x))}) xs pairs))"
      unfolding k using MRP_from_pairs_at [of _ pairs] f by fastforce
  qed
qed (rule g)

text \<open>A multi-residue input: every residue is known, and the moduli suit the variant.\<close>

definition fbc_input :: "facts \<Rightarrow> MRP \<Rightarrow> (nat \<Rightarrow> nat) \<Rightarrow> nat \<Rightarrow> bool" where
  "fbc_input \<Gamma> x X N \<longleftrightarrow>
     (\<forall>q \<in> set (mrp_base x). \<exists>a. mrp_residues x q = Some a \<and> (a, residue_vec X N q) \<in> \<Gamma>)"

lemma fbc_input_mono: "fbc_input \<Gamma> x X N \<Longrightarrow> \<Gamma> \<subseteq> \<Gamma>' \<Longrightarrow> fbc_input \<Gamma>' x X N"
  unfolding fbc_input_def by blast

lemma fbc_input_at:
  assumes "fbc_input \<Gamma> x X N" "q \<in> set (mrp_base x)"
  obtains a where "mrp_at x q = api_return a" "(a, residue_vec X N q) \<in> \<Gamma>"
  using assms unfolding fbc_input_def by (fastforce simp: mrp_at_def)

context modular_backend
begin

lemma computes_copy_residue:
  assumes "(a, v) \<in> \<Gamma>"
  shows "computes be \<sigma> \<Gamma> (copy_residue a p) (\<lambda>_. True) (\<lambda>x. {(x, v)})"
  unfolding copy_residue_def
proof (rule computes_bind)
  show "computes be \<sigma> \<Gamma> (addps_int a 0 0xFFFFFFFFFFFFFFFF) (\<lambda>_. True) (\<lambda>x. {(x, v)})"
    using computes_int_scalar(2) [OF assms, of 0] by (simp add: add_const_def)
  fix z
  show "computes be \<sigma> (\<Gamma> \<union> {(z, v)}) (api_bind (addr_of z) (\<lambda>a. api_seq (remember_modulus a p) (api_return z)))
      (\<lambda>_. True) (\<lambda>x. {(x, v)})"
  proof (rule computes_sized)
    assume "sized \<sigma> (\<Gamma> \<union> {(z, v)})"
    then obtain i where z: "z = Some i" using sizedD [of \<sigma> _ z v] by blast
    show "computes be \<sigma> (\<Gamma> \<union> {(z, v)}) (api_bind (addr_of z) (\<lambda>a. api_seq (remember_modulus a p) (api_return z)))
        (\<lambda>_. True) (\<lambda>x. {(x, v)})"
      by (simp add: z addr_of_def api_seq_def)
        (rule computes_bind [OF computes_remember], auto intro!: grows_intro computes_return)
  qed
qed (intro grows_intro)

lemma computes_prescale:
  assumes x: "fbc_input \<Gamma> x X N" and qh: "length qh = length (mrp_base x)"
    "\<And>i. i < length (mrp_base x) \<Longrightarrow> qh ! i < mrp_base x ! i"
  shows "computes be \<sigma> \<Gamma> (prescale_by_q_hat x qh) (\<lambda>ys. length ys = length (mrp_base x))
    (\<lambda>ys. {(ys ! i, scaled_vec X N (mrp_base x ! i) (qh ! i)) | i. i < length (mrp_base x)})"
proof (rule computes_weaken)
  let ?F = "\<lambda>(q, h) y. {(y, scaled_vec X N q h)}"
  show "computes be \<sigma> \<Gamma> (prescale_by_q_hat x qh) (list_all2 (\<lambda>_ _. True) (zip (mrp_base x) qh))
      (\<lambda>ys. \<Union> (set (map2 ?F (zip (mrp_base x) qh) ys)))"
    unfolding prescale_by_q_hat_def
  proof (rule computes_map)
    fix qp \<Gamma>'
    assume "qp \<in> set (zip (mrp_base x) qh)" and G: "\<Gamma> \<subseteq> \<Gamma>'"
    then obtain i where i: "i < length (mrp_base x)" "qp = (mrp_base x ! i, qh ! i)"
      by (auto simp: set_zip qh(1))
    have h: "qh ! i < mrp_base x ! i" by (rule qh(2) [OF i(1)])
    then have q: "0 < mrp_base x ! i" by (metis word_gt_0 word_not_simps(1))
    obtain a where a: "mrp_at x (mrp_base x ! i) = api_return a" "(a, residue_vec X N (mrp_base x ! i)) \<in> \<Gamma>'"
      using fbc_input_at [OF fbc_input_mono [OF x G]] i(1) by (metis nth_mem)
    then show "computes be \<sigma> \<Gamma>' (case qp of (q, h) \<Rightarrow> api_bind (mrp_at x q) (\<lambda>a. mulps_int a h q))
        (\<lambda>_. True) (?F qp)"
      using computes_int_scalar(1) [OF a(2) h] unfolding mul_const_residue [OF q] by (simp add: i(2))
  qed (auto split: prod.split intro: grows_intro)
  fix ys assume "list_all2 (\<lambda>_ _. True) (zip (mrp_base x) qh) (ys :: Polynomial list)"
  from list_all2_lengthD [OF this] show l: "length ys = length (mrp_base x)" by (simp add: qh(1))
  have "(ys ! i, scaled_vec X N (mrp_base x ! i) (qh ! i)) \<in> \<Union> (set (map2 ?F (zip (mrp_base x) qh) ys))"
    if "i < length (mrp_base x)" for i
    by (rule in_Union_map2 [of i]) (simp_all add: that l qh(1))
  then show "{(ys ! i, scaled_vec X N (mrp_base x ! i) (qh ! i)) | i. i < length (mrp_base x)} \<subseteq>
      \<Union> (set (map2 ?F (zip (mrp_base x) qh) ys))" by blast
qed

lemma computes_fbc_residue:
  assumes b: "prime_base (mrp_base x)" "mrp_base x \<noteq> []" "variant = ReducedNoise \<Longrightarrow> 2 \<notin> set (mrp_base x)"
    and p: "1 < p" and x: "fbc_input \<Gamma> x X N" and qh: "length qh = length (mrp_base x)"
    and scaled: "\<And>i. i < length (mrp_base x) \<Longrightarrow>
      (scaled ! i, scaled_vec X N (mrp_base x ! i) (qh ! i)) \<in> \<Gamma>"
  shows "computes be \<sigma> \<Gamma> (fbc_residue x scaled variant shape p) (\<lambda>y. snd y = p)
    (\<lambda>y. {(fst y, fbc_vec variant (mrp_base x) qh X N p)})"
proof (cases "p \<in> set (mrp_base x)")
  case True
  obtain a where a: "mrp_at x p = api_return a" "(a, residue_vec X N p) \<in> \<Gamma>"
    using fbc_input_at [OF x True] .
  have "computes be \<sigma> \<Gamma> (api_bind (copy_residue a p) (\<lambda>z. api_return (z, p))) (\<lambda>y. snd y = p)
      (\<lambda>y. {(fst y, residue_vec X N p)})"
    by (rule computes_bind [OF computes_copy_residue [OF a(2)]]) (auto intro!: grows_intro computes_return)
  then show ?thesis using True a(1) by (simp add: fbc_residue_def fbc_vec_def)
next
  case False
  have pos: "0 < p" using p by (auto simp: word_less_nat_alt)
  obtain qs where qs: "q_hat_mod_p (mrp_base x) p = Inr qs"
    "\<And>i. i < length (mrp_base x) \<Longrightarrow> unat (qs ! i) = base_prod_but (mrp_base x) i mod unat p"
    using q_hat_mod_p_correct [OF pos] by blast
  have qsp: "qs ! i < p" if "i < length (mrp_base x)" for i
    using qs(2) [OF that] pos by (simp add: word_less_nat_alt)
  let ?vs = "map2 (scaled_vec X N) (mrp_base x) qh"
  have "computes be \<sigma> \<Gamma> (sum_fbc_terms scaled (mrp_base x) p qs variant shape) (\<lambda>_. True)
      (\<lambda>z. {(z, sum_vec variant (mrp_base x) p qs ?vs N (length (mrp_base x)))})"
  proof (rule computes_sum_fbc_terms [OF _ qsp p b(2)])
    fix i assume i: "i < length (mrp_base x)"
    let ?q = "mrp_base x ! i"
    have pr: "is_prime (unat ?q)" using b(1) nth_mem [OF i] by (simp add: prime_base_def)
    moreover have "?q \<noteq> 2" if "variant = ReducedNoise" using b(3) [OF that] nth_mem [OF i] by metis
    ultimately have odd: "odd (unat ?q)" if "variant = ReducedNoise" using that by (intro is_prime_odd) auto
    have q1: "1 < ?q" using pr by (simp add: is_prime_def word_less_nat_alt)
    then have "0 < ?q" by (auto simp: word_less_nat_alt)
    then show "(scaled ! i, ?vs ! i) \<in> \<Gamma> \<and> length (?vs ! i) = N \<and>
        (variant = ReducedNoise \<longrightarrow> odd (unat ?q) \<and> 1 < ?q \<and> reduced ?q (?vs ! i))"
      using scaled [OF i] i qh odd q1 by (simp add: reduced_vecs) (simp add: scaled_vec_def)
  qed
  then have "computes be \<sigma> \<Gamma> (api_bind (sum_fbc_terms scaled (mrp_base x) p qs variant shape) (\<lambda>z. api_return (z, p)))
      (\<lambda>y. snd y = p) (\<lambda>y. {(fst y, sum_vec variant (mrp_base x) p qs ?vs N (length (mrp_base x)))})"
    by (rule computes_bind) (auto intro!: grows_intro computes_return)
  then show ?thesis using False qs(1) by (simp add: fbc_residue_def fbc_vec_def)
qed

lemma computes_fast_base_convert:
  assumes b: "prime_base (mrp_base x)" "mrp_base x \<noteq> []" "variant = ReducedNoise \<Longrightarrow> 2 \<notin> set (mrp_base x)"
    and p: "\<And>p. p \<in> set target \<Longrightarrow> 1 < p" and x: "fbc_input \<Gamma> x X N"
    and qh: "q_hat_inv_mod_q (mrp_base x) = Inr qh" "length qh = length (mrp_base x)"
      "\<And>i. i < length (mrp_base x) \<Longrightarrow> qh ! i < mrp_base x ! i"
  shows "computes be \<sigma> \<Gamma> (fast_base_convert x target variant shape)
    (\<lambda>y. mrp_base y = target \<and> set target \<subseteq> dom (mrp_residues y))
    (\<lambda>y. {(the (mrp_residues y p), fbc_vec variant (mrp_base x) qh X N p) | p. p \<in> set target})"
proof -
  let ?V = "fbc_vec variant (mrp_base x) qh X N"
  have "computes be \<sigma> \<Gamma> (api_bind (prescale_by_q_hat x qh) (\<lambda>scaled.
      api_bind (api_map (fbc_residue x scaled variant shape) target) (\<lambda>pairs. api_return (MRP_from_pairs pairs))))
    (\<lambda>y. mrp_base y = target \<and> set target \<subseteq> dom (mrp_residues y))
    (\<lambda>y. {(the (mrp_residues y p), ?V p) | p. p \<in> set target})"
  proof (rule computes_bind [OF computes_prescale [OF x qh(2,3)]])
    fix scaled :: "Polynomial list" assume "length scaled = length (mrp_base x)"
    let ?\<Gamma> = "\<Gamma> \<union> {(scaled ! i, scaled_vec X N (mrp_base x ! i) (qh ! i)) | i. i < length (mrp_base x)}"
    have "computes be \<sigma> ?\<Gamma> (api_bind (api_map (fbc_residue x scaled variant shape) target)
        (\<lambda>pairs. api_return (MRP_from_pairs pairs)))
        (\<lambda>y. mrp_base y = map (\<lambda>p. p) target \<and> (\<lambda>p. p) ` set target \<subseteq> dom (mrp_residues y))
        (\<lambda>y. {(the (mrp_residues y p), ?V p) | p. p \<in> (\<lambda>p. p) ` set target})"
    proof (rule computes_pairs)
      fix p \<Gamma>' assume *: "p \<in> set target" "?\<Gamma> \<subseteq> \<Gamma>'"
      show "computes be \<sigma> \<Gamma>' (fbc_residue x scaled variant shape p) (\<lambda>y. snd y = p) (\<lambda>y. {(fst y, ?V p)})"
        by (rule computes_fbc_residue [OF b p [OF *(1)] fbc_input_mono [OF x] qh(2)]) (use *(2) in blast)+
    qed (intro grows_intro)
    then show "computes be \<sigma> ?\<Gamma> (api_bind (api_map (fbc_residue x scaled variant shape) target)
        (\<lambda>pairs. api_return (MRP_from_pairs pairs)))
        (\<lambda>y. mrp_base y = target \<and> set target \<subseteq> dom (mrp_residues y))
        (\<lambda>y. {(the (mrp_residues y p), ?V p) | p. p \<in> set target})"
      by simp
  qed (assumption | intro grows_intro)+
  then show ?thesis using b(2) by (simp add: fast_base_convert_def qh(1))
qed

end

section \<open>What the vectors are\<close>

definition fbc_value :: "FbcVariant \<Rightarrow> u64 list \<Rightarrow> nat \<Rightarrow> u64 \<Rightarrow> nat \<Rightarrow> bool" where
  "fbc_value variant base x p r \<longleftrightarrow>
     (if p \<in> set base then r = x mod unat p
      else if variant = Standard then \<exists>u < length base. r = (x + u * base_prod base) mod unat p
      else \<exists>v. int r = (int x + v * int (base_prod base)) mod int (unat p) \<and>
             2 * \<bar>int x + v * int (base_prod base)\<bar> \<le> int (length base * base_prod base))"

lemma fbc_vec_value:
  assumes b: "prime_base base" "base \<noteq> []" and x: "X j < base_prod base" and p: "0 < p" and j: "j < N"
    and qh: "q_hat_inv_mod_q base = Inr qh" "length qh = length base"
  shows "fbc_value variant base (X j) p (unat (fbc_vec variant base qh X N p ! j))"
proof (cases "p \<in> set base")
  case True
  then show ?thesis using j p by (simp add: fbc_value_def fbc_vec_def residue_vec_def unat_w_mod)
next
  case False
  let ?n = "length base" and ?Q = "base_prod base" and ?c = "\<lambda>i. crt_residue (X j) (base ! i) (qh ! i)"
  obtain qs where qs: "q_hat_mod_p base p = Inr qs"
    and std: "\<exists>u < ?n. (\<Sum>i<?n. ?c i * unat (qs ! i)) mod unat p = (X j + u * ?Q) mod unat p"
    and red: "\<exists>v. (\<Sum>i<?n. centered (unat (base ! i)) (?c i) * int (unat (qs ! i))) mod int (unat p) =
        (int (X j) + v * int ?Q) mod int (unat p) \<and> 2 * \<bar>int (X j) + v * int ?Q\<bar> \<le> int (?n * ?Q)"
    using fbc_constants [OF b x p] qh(1) by auto
  let ?v = "unat (fbc_vec variant base qh X N p ! j)"
  have c: "unat (map2 (scaled_vec X N) base qh ! i ! j) = ?c i" if "i < ?n" for i
  proof -
    have "0 < base ! i" using b(1) nth_mem [OF that] by (auto simp: prime_base_def is_prime_def word_less_nat_alt)
    then show ?thesis using that j qh(2) by (simp add: scaled_vec_def unat_w_mod crt_residue_def)
  qed
  have v: "int ?v = (\<Sum>i<?n. lifted variant (base ! i) (map2 (scaled_vec X N) base qh ! i ! j) * int (unat (qs ! i)))
      mod int (unat p)"
    using False j by (simp only: fbc_vec_def qs sum.sel if_False sum_vec_def nth_map length_upt diff_zero
        nth_upt add_0 unat_w_int [OF p])
  show ?thesis
  proof (cases variant)
    case Standard
    have "int ?v = int ((\<Sum>i<?n. ?c i * unat (qs ! i)) mod unat p)"
      unfolding v zmod_int of_nat_sum of_nat_mult using Standard c by (simp add: lifted_def)
    then show ?thesis using std False Standard unfolding of_nat_eq_iff by (simp add: fbc_value_def)
  next
    case ReducedNoise
    have "int ?v = (\<Sum>i<?n. centered (unat (base ! i)) (?c i) * int (unat (qs ! i))) mod int (unat p)"
      unfolding v using ReducedNoise c by (simp add: lifted_def)
    then show ?thesis using red False ReducedNoise by (auto simp: fbc_value_def)
  qed
qed

section \<open>Executing what was recorded\<close>

text \<open>The simulator is about to execute what was recorded between two states of the recorder.\<close>

definition replay_of :: "SimImpl \<Rightarrow> ApiState \<Rightarrow> ApiState \<Rightarrow> bool" where
  "replay_of \<sigma> s s' \<longleftrightarrow>
     instructions (im_trace \<sigma>) = drop (length (trace_of s)) (trace_of s') \<and>
     modulus_table (im_trace \<sigma>) = table_of s' \<and> length (table_of s') < 2 ^ 32 \<and>
     next_address s' \<le> 2 ^ 32 \<and> im_free_after \<sigma> = []"

lemma computes_execute:
  assumes m: "computes be (\<sigma>\<lparr>im_error_count := 0\<rparr>) \<Gamma> m R F" and w: "writer_ready s"
    and h: "holds (unat (im_ring_dim \<sigma>)) \<Gamma> s (im_memory \<sigma>)" and r: "replay_of \<sigma> s (snd (m s))"
  shows "\<exists>x \<sigma>'. fst (m s) = Inr x \<and> R x \<and>
    execute be \<sigma> = Inr (\<lparr>instructions_executed = length (instructions (im_trace \<sigma>)), sim_errors = 0\<rparr>, \<sigma>') \<and>
    holds (unat (im_ring_dim \<sigma>)) (\<Gamma> \<union> F x) (snd (m s)) (im_memory \<sigma>')"
proof -
  let ?\<sigma> = "\<sigma>\<lparr>im_error_count := 0\<rparr>"
  have pre: "holds (unat (im_ring_dim ?\<sigma>)) \<Gamma> s (im_memory \<sigma>)" "next_address (snd (m s)) \<le> 2 ^ 32"
    "prefix (table_of (snd (m s))) (modulus_table (im_trace ?\<sigma>))" "length (modulus_table (im_trace ?\<sigma>)) < 2 ^ 32"
    using h r by (simp_all add: replay_of_def)
  from computesD [OF m w pre] obtain x new \<mu> where x: "fst (m s) = Inr x" "R x"
    and new: "trace_of (snd (m s)) = trace_of s @ new" and run: "mem_run be ?\<sigma> new (im_memory \<sigma>) \<mu>"
    and post: "holds (unat (im_ring_dim ?\<sigma>)) (\<Gamma> \<union> F x) (snd (m s)) \<mu>" by (elim exE conjE)
  have i: "instructions (im_trace \<sigma>) = new" and f: "im_free_after ?\<sigma> = []"
    using r new by (simp_all add: replay_of_def)
  have "?\<sigma>\<lparr>im_memory := im_memory \<sigma>\<rparr> = ?\<sigma>" by simp
  then have "execute_loop be 0 new 0 ?\<sigma> = Inr (length new, ?\<sigma>\<lparr>im_memory := \<mu>\<rparr>)"
    using mem_run_execute_loop [OF run f, of 0 0] by (simp only: add_0)
  then have "execute be \<sigma> = Inr (\<lparr>instructions_executed = length new, sim_errors = 0\<rparr>, ?\<sigma>\<lparr>im_memory := \<mu>\<rparr>)"
    by (simp add: execute_def i)
  then show ?thesis using x post i by (intro exI [of _ x] exI [of _ "?\<sigma>\<lparr>im_memory := \<mu>\<rparr>"]) simp
qed

end
