(* ===== verification/FbcReplay.thy ===== *)
theory FbcReplay
  imports FbcSemantics
begin

text \<open>
  The base conversion and the rescale end to end: what a program records through
  \<open>fast_base_convert\<close> or \<open>rescale_fbc\<close>, executed by the simulator, leaves at the addresses of the
  results the numbers the gadget is meant to compute.
\<close>

text \<open>Every residue of \<open>x\<close> is stored at the address of its polynomial.\<close>

definition stored_residues :: "ApiState \<Rightarrow> SimImpl \<Rightarrow> MRP \<Rightarrow> (nat \<Rightarrow> nat) \<Rightarrow> bool" where
  "stored_residues s \<sigma> x X \<longleftrightarrow> mem_ring_dim (im_memory \<sigma>) = unat (im_ring_dim \<sigma>) \<and>
     (\<forall>q \<in> set (mrp_base x). \<exists>a. mrp_residues x q = Some (Some a) \<and> unat (pi_address a) < next_address s \<and>
        mem_value (pi_address a) (im_memory \<sigma>) = Some (residue_vec X (unat (im_ring_dim \<sigma>)) q))"

definition residue_facts :: "MRP \<Rightarrow> (nat \<Rightarrow> nat) \<Rightarrow> nat \<Rightarrow> facts" where
  "residue_facts x X N = {(the (mrp_residues x q), residue_vec X N q) | q. q \<in> set (mrp_base x)}"

lemma stored_residues_facts:
  assumes "stored_residues s \<sigma> x X"
  shows "holds (unat (im_ring_dim \<sigma>)) (residue_facts x X (unat (im_ring_dim \<sigma>))) s (im_memory \<sigma>)"
    "fbc_input (residue_facts x X N) x X N"
proof -
  have r: "\<exists>a. mrp_residues x q = Some (Some a) \<and> unat (pi_address a) < next_address s \<and>
      mem_value (pi_address a) (im_memory \<sigma>) = Some (residue_vec X (unat (im_ring_dim \<sigma>)) q)"
    if "q \<in> set (mrp_base x)" for q
    using assms that unfolding stored_residues_def by blast
  then show "fbc_input (residue_facts x X N) x X N"
    unfolding fbc_input_def residue_facts_def by (metis (mono_tags, lifting) mem_Collect_eq option.sel)
  show "holds (unat (im_ring_dim \<sigma>)) (residue_facts x X (unat (im_ring_dim \<sigma>))) s (im_memory \<sigma>)"
    using assms r unfolding stored_residues_def holds_def residue_facts_def by (fastforce simp: residue_vec_def)
qed

lemma holds_get_polynomial:
  assumes "holds N \<Gamma> s (im_memory \<sigma>)" "(p, v) \<in> \<Gamma>"
  shows "\<exists>a. p = Some a \<and> get_polynomial (pi_address a) \<sigma> = v"
proof -
  obtain a where "p = Some a" "mem_value (pi_address a) (im_memory \<sigma>) = Some v" using holds_value [OF assms] .
  then show ?thesis by (auto simp: mem_value_def get_polynomial_view)
qed

text \<open>
  C30: the instructions recorded by \<open>fast_base_convert\<close>, executed by the simulator over any backend
  with correct modular arithmetic, run without errors, and each target residue of the result is the
  residue of \<open>x\<close> when the modulus is one of the source, and otherwise the residue of \<open>x + u Q\<close> with
  \<open>0 \<le> u < n\<close> (standard variant) or with \<open>|x + v Q| \<le> n Q / 2\<close> (reduced noise).  The vector does not
  depend on the lowering shape.
\<close>

theorem fast_base_convert_executes:
  assumes "modular_backend be"
    and "prime_base (mrp_base x)" and "mrp_base x \<noteq> []" and "variant = ReducedNoise \<Longrightarrow> 2 \<notin> set (mrp_base x)"
    and "\<And>p. p \<in> set target \<Longrightarrow> 1 < p"
    and "writer_ready s" and "stored_residues s \<sigma> x X" and "\<And>j. X j < base_prod (mrp_base x)"
    and "fast_base_convert x target variant shape s = (r, s')" and "replay_of \<sigma> s s'"
  shows "\<exists>y \<sigma>'. r = Inr y \<and> mrp_base y = target \<and>
    execute be \<sigma> = Inr (\<lparr>instructions_executed = length (instructions (im_trace \<sigma>)), sim_errors = 0\<rparr>, \<sigma>') \<and>
    (\<forall>p \<in> set target. \<exists>a. mrp_residues y p = Some (Some a) \<and>
       get_polynomial (pi_address a) \<sigma>' =
         fbc_vec variant (mrp_base x) (projr (q_hat_inv_mod_q (mrp_base x))) X (unat (im_ring_dim \<sigma>)) p \<and>
       (\<forall>j < unat (im_ring_dim \<sigma>).
          fbc_value variant (mrp_base x) (X j) p (unat (get_polynomial (pi_address a) \<sigma>' ! j))))"
proof -
  let ?N = "unat (im_ring_dim \<sigma>)" and ?b = "mrp_base x"
  obtain qh where qh: "q_hat_inv_mod_q ?b = Inr qh" "length qh = length ?b"
    "\<And>i. i < length ?b \<Longrightarrow> qh ! i < ?b ! i"
    using q_hat_inv_mod_q_correct [OF assms(2)] by blast
  let ?V = "fbc_vec variant ?b qh X ?N"
  note facts = stored_residues_facts [OF assms(7)]
  have s': "s' = snd (fast_base_convert x target variant shape s)" using assms(9) by simp
  from computes_execute [OF modular_backend.computes_fast_base_convert [OF assms(1-5) facts(2) qh] assms(6) facts(1)
      assms(10) [unfolded s']]
  obtain y \<sigma>' where y: "r = Inr y" "mrp_base y = target" "set target \<subseteq> dom (mrp_residues y)"
    and ex: "execute be \<sigma> = Inr (\<lparr>instructions_executed = length (instructions (im_trace \<sigma>)), sim_errors = 0\<rparr>, \<sigma>')"
    and h: "holds ?N (residue_facts x X ?N \<union> {(the (mrp_residues y p), ?V p) | p. p \<in> set target}) s' (im_memory \<sigma>')"
    using assms(9) by auto
  have "\<exists>a. mrp_residues y p = Some (Some a) \<and> get_polynomial (pi_address a) \<sigma>' = ?V p \<and>
      (\<forall>j < ?N. fbc_value variant ?b (X j) p (unat (get_polynomial (pi_address a) \<sigma>' ! j)))" if p: "p \<in> set target" for p
  proof -
    obtain z where z: "mrp_residues y p = Some z" using y(3) p by blast
    then obtain a where a: "z = Some a" "get_polynomial (pi_address a) \<sigma>' = ?V p"
      using holds_get_polynomial [OF h, of z "?V p"] p by force
    have "0 < p" using assms(5) [OF p] by (auto simp: word_less_nat_alt)
    then have "fbc_value variant ?b (X j) p (unat (?V p ! j))" if "j < ?N" for j
      using fbc_vec_value [where X = X, OF assms(2,3) assms(8) [of j] _ that qh(1,2)] by blast
    then show ?thesis using z a by auto
  qed
  then show ?thesis using y ex qh(1) by auto
qed

text \<open>An example: the numbers 10, 11, 12, 13 modulo 3 and 5, converted to 7.\<close>

definition example_poly :: "u64 \<Rightarrow> PolynomialImpl" where
  "example_poly a = \<lparr>pi_address = a, pi_ring_dim = 4, pi_fmt = Coefficient, pi_ntype = Integer,
     pi_int_data = [], pi_fp_data = []\<rparr>"

definition example_mrp :: MRP where
  "example_mrp = \<lparr>mrp_base = [3, 5], mrp_residues = [3 \<mapsto> Some (example_poly 0), 5 \<mapsto> Some (example_poly 1)],
     mrp_ring_dim = 4\<rparr>"

definition example_recorder :: ApiState where
  "example_recorder = ApiState_init\<lparr>next_address := 2, as_writer := start_recording TraceWriter_ctor\<rparr>"

definition example_number :: "nat \<Rightarrow> nat" where
  "example_number j = 10 + j mod 4"

definition example_sim :: "ApiState \<Rightarrow> SimImpl" where
  "example_sim s' = SimImpl_init\<lparr>im_ring_dim := 4,
     im_memory := write_slot 0 3 (residue_vec example_number 4 3) (write_slot 1 5 (residue_vec example_number 4 5)
       (set_ring_dim 4 Memory_init)),
     im_trace := Program_init\<lparr>instructions := trace_of s', modulus_table := table_of s'\<rparr>\<rparr>"

lemma example_ready: "writer_ready example_recorder"
  by (simp add: writer_ready_def example_recorder_def start_recording_def TraceWriter_ctor_def table_ok_def
      COPY_MODULUS_INDEX_def)

lemma example_stored: "stored_residues example_recorder (example_sim s') example_mrp example_number"
  by (simp add: stored_residues_def example_sim_def example_mrp_def mem_value_def write_slot_view example_poly_def
      example_recorder_def set_ring_dim_def)

lemma example_base: "prime_base (mrp_base example_mrp)" "example_number j < base_prod (mrp_base example_mrp)"
proof -
  have "is_prime 3" "is_prime 5" unfolding is_prime_def by code_simp+
  then show "prime_base (mrp_base example_mrp)" by (simp add: prime_base_def example_mrp_def)
  have "base_prod (mrp_base example_mrp) = 15" unfolding example_mrp_def base_prod_def by code_simp
  then show "example_number j < base_prod (mrp_base example_mrp)" by (simp add: example_number_def)
qed

lemma example_replay:
  assumes "next_address s' \<le> 2 ^ 32" "length (table_of s') < 2 ^ 32"
  shows "replay_of (example_sim s') example_recorder s'"
  using assms by (simp add: replay_of_def example_sim_def example_recorder_def start_recording_def TraceWriter_ctor_def
      SimImpl_init_def ApiState_init_def)

theorem fast_base_convert_executes_witness:
  "\<exists>y \<sigma>' a. fst (fast_base_convert example_mrp [7] ReducedNoise FourOp example_recorder) = Inr y \<and>
     execute exact_backend (example_sim (snd (fast_base_convert example_mrp [7] ReducedNoise FourOp example_recorder))) =
       Inr (\<lparr>instructions_executed = 13, sim_errors = 0\<rparr>, \<sigma>') \<and>
     mrp_residues y 7 = Some (Some a) \<and>
     fbc_value ReducedNoise [3, 5] 12 7 (unat (get_polynomial (pi_address a) \<sigma>' ! 2))"
proof -
  let ?run = "fast_base_convert example_mrp [7] ReducedNoise FourOp example_recorder"
  have c: "(next_address (snd ?run), length (table_of (snd ?run)), length (trace_of (snd ?run))) = (27, 4, 13)"
    by code_simp
  then have r: "replay_of (example_sim (snd ?run)) example_recorder (snd ?run)" by (intro example_replay) simp_all
  have n: "length (instructions (im_trace (example_sim (snd ?run)))) = 13"
    using c by (simp add: example_sim_def)
  have d: "unat (im_ring_dim (example_sim s')) = 4" "example_number 2 = 12" "mrp_base example_mrp = [3, 5]" for s'
    by (simp_all add: example_sim_def example_number_def example_mrp_def)
  show ?thesis
    using fast_base_convert_executes [OF exact.modular_backend_axioms example_base(1) _ _ _ example_ready
        example_stored example_base(2) prod.collapse [symmetric] r] n d
    by (auto dest: spec [of _ 2])
qed

end
