(* ===== verification/RescaleReplay.thy ===== *)
theory RescaleReplay
  imports FbcReplay
begin

text \<open>
  The CKKS rescale end to end: dropping the moduli \<open>rescale_base\<close> with product \<open>P\<close> from a number
  divides it by \<open>P\<close>, up to a rounding error the variant bounds.
\<close>

definition low_part :: "u64 list \<Rightarrow> (nat \<Rightarrow> nat) \<Rightarrow> nat \<Rightarrow> nat" where
  "low_part base X j = X j mod base_prod base"

lemma residue_low_part:
  assumes "q \<in> set base"
  shows "residue_vec (low_part base X) N q = residue_vec X N q"
proof -
  obtain i where i: "i < length base" "q = base ! i" using assms by (metis in_set_conv_nth)
  then have "unat q dvd base_prod base" using base_prod_split [of i base] by simp
  then show ?thesis by (simp add: residue_vec_def low_part_def w_mod_def mod_mod_cancel)
qed

lemma copy_residues_run:
  assumes "\<And>q. q \<in> set sub \<Longrightarrow> mrp_residues x q \<noteq> None"
  shows "\<exists>m'. copy_residues x sub m = api_return m' \<and>
    (\<forall>q. m' q = (if q \<in> set sub then mrp_residues x q else m q))"
  using assms
proof (induction sub arbitrary: m)
  case (Cons q sub)
  then obtain p where "mrp_residues x q = Some p" by (meson list.set_intros(1) not_None_eq)
  then have p: "copy_residues x (q # sub) m = copy_residues x sub (m(q \<mapsto> p))" "mrp_residues x q = Some p"
    by (simp_all add: copy_residues_def mrp_at_def)
  obtain m' where m': "copy_residues x sub (m(q \<mapsto> p)) = api_return m'"
    "\<And>k. m' k = (if k \<in> set sub then mrp_residues x k else (m(q \<mapsto> p)) k)"
    using Cons.IH [of "m(q \<mapsto> p)"] Cons.prems by (metis list.set_intros(2))
  have "m' k = (if k \<in> set (q # sub) then mrp_residues x k else m k)" for k
    using m'(2) [of k] p(2) by auto
  then show ?case unfolding p(1) m'(1) by blast
qed (use copy_residues_def in auto)

lemma mr_subset_run:
  assumes "\<And>q. q \<in> set sub \<Longrightarrow> mrp_residues x q \<noteq> None"
  shows "\<exists>y. mr_subset x sub = api_return y \<and> mrp_base y = sub \<and>
    (\<forall>q \<in> set sub. mrp_residues y q = mrp_residues x q)"
proof -
  obtain m where "copy_residues x sub Map.empty = api_return m"
    "\<forall>q. m q = (if q \<in> set sub then mrp_residues x q else None)"
    using copy_residues_run [of sub x Map.empty] assms by auto
  then show ?thesis by (auto simp: mr_subset_def)
qed

definition rescale_vec ::
  "FbcVariant \<Rightarrow> u64 list \<Rightarrow> u64 list \<Rightarrow> u64 \<Rightarrow> (nat \<Rightarrow> nat) \<Rightarrow> nat \<Rightarrow> u64 \<Rightarrow> u64 list" where
  "rescale_vec variant base qh pi X N q =
     mul_const q pi (sub_vec q (residue_vec X N q) (fbc_vec variant base qh (low_part base X) N q))"

lemma reduced_fbc_vec: "0 < p \<Longrightarrow> reduced p (fbc_vec variant base qh X N p)"
  by (simp add: fbc_vec_def reduced_vecs reduced_sums)

context modular_backend
begin

lemma computes_rescale_residue:
  assumes "(a, v) \<in> \<Gamma>" "(b, w) \<in> \<Gamma>" and "0 < q" "reduced q v" "reduced q w" and "c < q"
  shows "computes be \<sigma> \<Gamma> (rescale_residue a b q c) (\<lambda>_. True) (\<lambda>x. {(x, mul_const q c (sub_vec q v w))})"
  unfolding rescale_residue_def
  by (rule computes_bind [OF computes_binary(2) [OF assms(1-5)]])
    (auto intro!: grows_intro computes_int_scalar(1) assms(6))

lemma computes_rescale_step:
  assumes x: "fbc_input \<Gamma> x X N" and q: "q \<in> set (mrp_base x)"
    and y: "mrp_residues y q = Some c" "(c, fbc_vec variant res qh (low_part res X) N q) \<in> \<Gamma>" and pi: "pi < q"
  shows "computes be \<sigma> \<Gamma> (api_bind (mrp_at x q) (\<lambda>xq. api_bind (mrp_at y q) (\<lambda>yq.
      api_bind (rescale_residue xq yq q pi) (\<lambda>z. api_return (z, q)))))
    (\<lambda>y. snd y = q) (\<lambda>y. {(fst y, rescale_vec variant res qh pi X N q)})"
proof -
  have pos: "0 < q" using pi by (metis word_gt_0 word_not_simps(1))
  obtain a where a: "mrp_at x q = api_return a" "(a, residue_vec X N q) \<in> \<Gamma>" using fbc_input_at [OF x q] .
  have "computes be \<sigma> \<Gamma> (api_bind (rescale_residue a c q pi) (\<lambda>z. api_return (z, q)))
      (\<lambda>y. snd y = q) (\<lambda>y. {(fst y, rescale_vec variant res qh pi X N q)})"
    unfolding rescale_vec_def
    by (rule computes_bind [OF computes_rescale_residue [OF a(2) y(2) pos reduced_vecs(1) [OF pos] reduced_fbc_vec [OF pos] pi]])
      (auto intro!: grows_intro computes_return)
  then show ?thesis using a(1) y(1) by (simp add: mrp_at_def)
qed

lemma computes_rescale_fbc:
  fixes x :: MRP and res :: "u64 list"
  defines "target \<equiv> target_after_rescale (mrp_base x) res"
  assumes b: "prime_base (mrp_base x)" "distinct res" "set res \<subseteq> set (mrp_base x)" "res \<noteq> []"
      "variant = ReducedNoise \<Longrightarrow> 2 \<notin> set res"
    and x: "fbc_input \<Gamma> x X N"
    and qh: "q_hat_inv_mod_q res = Inr qh" "length qh = length res" "\<And>i. i < length res \<Longrightarrow> qh ! i < res ! i"
    and pinv: "P_inv_mod_q res target = Inr pinv" "length pinv = length target"
      "\<And>i. i < length target \<Longrightarrow> pinv ! i < target ! i"
  shows "computes be \<sigma> \<Gamma> (rescale_fbc x res variant shape)
    (\<lambda>z. mrp_base z = target \<and> set target \<subseteq> dom (mrp_residues z))
    (\<lambda>z. {(the (mrp_residues z q), rescale_vec variant res qh (the (map_of (zip target pinv) q)) X N q)
      | q. q \<in> set target})"
proof -
  have t: "distinct target" "set target \<subseteq> set (mrp_base x)"
    using b(1) by (auto simp: target_def target_after_rescale_def prime_base_def)
  have one: "1 < q" if "q \<in> set (mrp_base x)" for q
    using b(1) that by (simp add: prime_base_def is_prime_def word_less_nat_alt)
  obtain r where "r \<in> set res" using b(4) by fastforce
  then have shorter: "length target < length (mrp_base x)"
    unfolding target_def target_after_rescale_def using b(3) by (intro length_filter_less [of r]) auto
  have some: "mrp_residues x q \<noteq> None" if "q \<in> set (mrp_base x)" for q
    using x that unfolding fbc_input_def by (metis option.distinct(1))
  obtain xr where xr: "mr_subset x res = api_return xr" "mrp_base xr = res"
    "\<And>q. q \<in> set res \<Longrightarrow> mrp_residues xr q = mrp_residues x q"
    using mr_subset_run [of res x] some b(3) by (metis subsetD)
  have input: "fbc_input \<Gamma> xr (low_part res X) N"
    using x xr(2,3) b(3) residue_low_part [of _ res X N] unfolding fbc_input_def by (metis subsetD)
  let ?V = "\<lambda>q. rescale_vec variant res qh (the (map_of (zip target pinv) q)) X N q"
  let ?W = "fbc_vec variant res qh (low_part res X) N"
  let ?step = "\<lambda>y (q, pi). api_bind (mrp_at x q) (\<lambda>xq. api_bind (mrp_at y q) (\<lambda>yq.
    api_bind (rescale_residue xq yq q pi) (\<lambda>z. api_return (z, q))))"
  have pr: "prime_base (mrp_base xr)" "mrp_base xr \<noteq> []" "variant = ReducedNoise \<Longrightarrow> 2 \<notin> set (mrp_base xr)"
    "\<And>p. p \<in> set target \<Longrightarrow> 1 < p"
    using b xr(2) one t(2) by (auto simp: prime_base_def)
  note conv = computes_fast_base_convert [where variant = variant and target = target, OF pr input, unfolded xr(2), OF _ _ qh]
  have "computes be \<sigma> \<Gamma> (api_bind (fast_base_convert xr target variant shape) (\<lambda>y.
      api_bind (api_map (?step y) (zip target pinv)) (\<lambda>pairs. api_return (MRP_from_pairs pairs))))
    (\<lambda>z. mrp_base z = target \<and> set target \<subseteq> dom (mrp_residues z))
    (\<lambda>z. {(the (mrp_residues z q), ?V q) | q. q \<in> set target})"
  proof (rule computes_bind [OF conv])
    fix y :: MRP assume y: "mrp_base y = target \<and> set target \<subseteq> dom (mrp_residues y)"
    let ?\<Gamma> = "\<Gamma> \<union> {(the (mrp_residues y p), ?W p) | p. p \<in> set target}"
    have "computes be \<sigma> ?\<Gamma> (api_bind (api_map (?step y) (zip target pinv)) (\<lambda>pairs. api_return (MRP_from_pairs pairs)))
      (\<lambda>z. mrp_base z = map fst (zip target pinv) \<and> fst ` set (zip target pinv) \<subseteq> dom (mrp_residues z))
      (\<lambda>z. {(the (mrp_residues z q), ?V q) | q. q \<in> fst ` set (zip target pinv)})"
    proof (rule computes_pairs)
      fix qp \<Gamma>' assume "qp \<in> set (zip target pinv)" and G: "?\<Gamma> \<subseteq> \<Gamma>'"
      then obtain i where i: "i < length target" "qp = (target ! i, pinv ! i)" by (auto simp: set_zip pinv(2))
      have q: "target ! i \<in> set target" "target ! i \<in> set (mrp_base x)" using i t(2) by auto
      obtain c where c: "mrp_residues y (target ! i) = Some c" using y q(1) by blast
      have "(c, ?W (target ! i)) \<in> \<Gamma>'"
        by (rule subsetD [OF G], rule UnI2, rule CollectI, rule exI [of _ "target ! i"]) (simp add: c q(1))
      moreover have "map_of (zip target pinv) (target ! i) = Some (pinv ! i)"
        using i(1) t(1) pinv(2) by (simp add: map_of_zip_nth)
      moreover have "fbc_input \<Gamma>' x X N" using G by (intro fbc_input_mono [OF x]) blast
      ultimately show "computes be \<sigma> \<Gamma>' (?step y qp) (\<lambda>y. snd y = fst qp) (\<lambda>y. {(fst y, ?V (fst qp))})"
        using computes_rescale_step [OF _ q(2) c _ pinv(3) [OF i(1)]] by (simp add: i(2))
    qed (intro grows_intro)
    then show "computes be \<sigma> ?\<Gamma> (api_bind (api_map (?step y) (zip target pinv)) (\<lambda>pairs. api_return (MRP_from_pairs pairs)))
      (\<lambda>z. mrp_base z = target \<and> set target \<subseteq> dom (mrp_residues z))
      (\<lambda>z. {(the (mrp_residues z q), ?V q) | q. q \<in> set target})"
      using pinv(2) by (simp flip: set_map)
  qed (assumption | intro grows_intro)+
  then show ?thesis
    using b(4) shorter xr(1) pinv(1) unfolding rescale_fbc_def target_def [symmetric] Let_def by simp
qed

end

section \<open>What the vector is\<close>

definition rescale_value :: "FbcVariant \<Rightarrow> u64 list \<Rightarrow> nat \<Rightarrow> u64 \<Rightarrow> nat \<Rightarrow> bool" where
  "rescale_value variant res x q r \<longleftrightarrow>
     (\<exists>z. int r = z mod int (unat q) \<and>
        (if variant = Standard
         then int (x div base_prod res) - int (length res) < z \<and> z \<le> int (x div base_prod res)
         else 2 * \<bar>int x - z * int (base_prod res)\<bar> \<le> int (length res * base_prod res)))"

lemma rescale_cong:
  fixes x y q P k :: nat and Y z :: int
  assumes y: "int y = Y mod int q" "y < q" and Y: "int x - Y = z * int P" and k: "P * k mod q = 1"
  shows "int ((x mod q + (q - y)) * k mod q) = z mod int q"
proof -
  have k': "int P * int k mod int q = 1 mod int q" using k by (metis mod_mod_trivial of_nat_1 of_nat_mult zmod_int)
  have "int ((x mod q + (q - y)) * k mod q) = (int x mod int q + (int q - Y mod int q)) * int k mod int q"
    using y by (simp add: zmod_int of_nat_diff add_diff_eq)
  also have "\<dots> = (int x - Y) * int k mod int q"
  proof (rule mod_mult_cong)
    have "(int x mod int q + (int q - Y mod int q)) mod int q = (int x mod int q - Y mod int q + int q) mod int q"
      by (simp add: algebra_simps)
    then show "(int x mod int q + (int q - Y mod int q)) mod int q = (int x - Y) mod int q"
      by (simp only: mod_add_self2 mod_diff_eq)
  qed simp
  also have "\<dots> = z * (int P * int k) mod int q" by (simp only: Y mult.assoc)
  also have "\<dots> = z mod int q" by (metis k' mod_mult_right_eq mult.right_neutral)
  finally show ?thesis .
qed

lemma rescale_vec_value:
  assumes b: "prime_base res" "res \<noteq> []" and q: "0 < q" "q \<notin> set res" and j: "j < N"
    and qh: "q_hat_inv_mod_q res = Inr qh" "length qh = length res"
    and pi: "base_prod res * unat pi mod unat q = 1"
  shows "rescale_value variant res (X j) q (unat (rescale_vec variant res qh pi X N q ! j))"
proof -
  let ?P = "base_prod res" and ?y = "fbc_vec variant res qh (low_part res X) N q ! j"
  have "0 < unat (res ! i)" if "i < length res" for i
    using b(1) nth_mem [OF that] by (metis prime_base_def is_prime_def less_trans zero_less_one)
  then have P: "0 < ?P" by (simp add: base_prod_def prod_pos)
  then have low: "low_part res X j < ?P" by (simp add: low_part_def)
  have l: "length (fbc_vec variant res qh (low_part res X) N q) = N"
    using q(2) by (simp add: fbc_vec_def sum_vec_def)
  have yq: "unat ?y < unat q" using reduced_fbc_vec [OF q(1)] j l
    by (metis nth_mem reduced_def word_less_nat_alt)
  have r: "unat (rescale_vec variant res qh pi X N q ! j) = (X j mod unat q + (unat q - unat ?y)) * unat pi mod unat q"
    using j l q(1) by (simp add: rescale_vec_def mul_const_def sub_vec_def residue_vec_def unat_w_mod mod_mult_left_eq)
  have x: "int (X j) - int (low_part res X j) = int (X j div ?P) * int ?P"
    by (simp add: low_part_def minus_mod_eq_div_mult [symmetric] of_nat_diff flip: of_nat_mult)
  note val = fbc_vec_value [where X = "low_part res X", OF b low q(1) j qh, of variant]
  show ?thesis
  proof (cases variant)
    case Standard
    then obtain u where u: "u < length res" "unat ?y = (low_part res X j + u * ?P) mod unat q"
      using val q(2) by (auto simp: fbc_value_def)
    have "int (X j) - int (low_part res X j + u * ?P) = (int (X j div ?P) - int u) * int ?P"
      using x by (simp add: algebra_simps)
    from rescale_cong [OF _ yq this pi] show ?thesis
      using u Standard unfolding rescale_value_def r
      by (intro exI [of _ "int (X j div ?P) - int u"]) (simp add: zmod_int del: of_nat_unat)
  next
    case ReducedNoise
    then obtain v where v: "int (unat ?y) = (int (low_part res X j) + v * int ?P) mod int (unat q)"
      "2 * \<bar>int (low_part res X j) + v * int ?P\<bar> \<le> int (length res * ?P)"
      using val q(2) by (auto simp: fbc_value_def)
    have z: "int (X j) - (int (low_part res X j) + v * int ?P) = (int (X j div ?P) - v) * int ?P"
      using x by (simp add: algebra_simps)
    have "int (X j) - (int (X j div ?P) - v) * int ?P = int (low_part res X j) + v * int ?P"
      using x by (simp add: algebra_simps)
    then show ?thesis
      using rescale_cong [OF v(1) yq z pi] v(2) ReducedNoise unfolding rescale_value_def r
      by (intro exI [of _ "int (X j div ?P) - v"]) simp
  qed
qed

text \<open>
  C31: the instructions recorded by \<open>rescale_fbc\<close>, executed by the simulator over any backend with
  correct modular arithmetic, run without errors, and the result drops exactly the moduli of
  \<open>rescale_base\<close>.  With \<open>P\<close> their product and \<open>n\<close> their number, each remaining residue is that of a
  number \<open>z\<close> with \<open>\<lfloor>x / P\<rfloor> - n < z \<le> \<lfloor>x / P\<rfloor>\<close> (standard variant) or \<open>|x - z P| \<le> n P / 2\<close> (reduced
  noise).
\<close>

theorem rescale_fbc_executes:
  assumes "modular_backend be"
    and "prime_base (mrp_base x)" and "distinct res" and "set res \<subseteq> set (mrp_base x)" and "res \<noteq> []"
    and "variant = ReducedNoise \<Longrightarrow> 2 \<notin> set res"
    and "writer_ready s" and "stored_residues s \<sigma> x X"
    and "rescale_fbc x res variant shape s = (r, s')" and "replay_of \<sigma> s s'"
  shows "\<exists>z \<sigma>'. r = Inr z \<and> mrp_base z = filter (\<lambda>q. q \<notin> set res) (mrp_base x) \<and>
    execute be \<sigma> = Inr (\<lparr>instructions_executed = length (instructions (im_trace \<sigma>)), sim_errors = 0\<rparr>, \<sigma>') \<and>
    (\<forall>q \<in> set (mrp_base x) - set res. \<exists>a. mrp_residues z q = Some (Some a) \<and>
       (\<forall>j < unat (im_ring_dim \<sigma>).
          rescale_value variant res (X j) q (unat (get_polynomial (pi_address a) \<sigma>' ! j))))"
proof -
  let ?N = "unat (im_ring_dim \<sigma>)" and ?t = "target_after_rescale (mrp_base x) res"
  have t: "set ?t = set (mrp_base x) - set res" by (auto simp: target_after_rescale_def)
  have pr: "prime_base res" "prime_base (res @ ?t)"
    using assms(2-4) by (auto simp: prime_base_def target_after_rescale_def)
  obtain qh where qh: "q_hat_inv_mod_q res = Inr qh" "length qh = length res"
    "\<And>i. i < length res \<Longrightarrow> qh ! i < res ! i"
    using q_hat_inv_mod_q_correct [OF pr(1)] by blast
  obtain pinv where pinv: "P_inv_mod_q res ?t = Inr pinv" "length pinv = length ?t"
    "\<And>i. i < length ?t \<Longrightarrow> pinv ! i < ?t ! i"
    "\<And>i. i < length ?t \<Longrightarrow> base_prod res * unat (pinv ! i) mod unat (?t ! i) = 1"
    using P_inv_mod_q_correct [OF pr(2)] by blast
  let ?V = "\<lambda>q. rescale_vec variant res qh (the (map_of (zip ?t pinv) q)) X ?N q"
  note facts = stored_residues_facts [OF assms(8)]
  have s': "s' = snd (rescale_fbc x res variant shape s)" using assms(9) by simp
  from computes_execute [OF modular_backend.computes_rescale_fbc [OF assms(1-6) facts(2) qh pinv(1-3)] assms(7) facts(1)
      assms(10) [unfolded s']]
  obtain z \<sigma>' where z: "r = Inr z" "mrp_base z = ?t" "set ?t \<subseteq> dom (mrp_residues z)"
    and ex: "execute be \<sigma> = Inr (\<lparr>instructions_executed = length (instructions (im_trace \<sigma>)), sim_errors = 0\<rparr>, \<sigma>')"
    and h: "holds ?N (residue_facts x X ?N \<union> {(the (mrp_residues z q), ?V q) | q. q \<in> set ?t}) s' (im_memory \<sigma>')"
    using assms(9) by auto
  have "\<exists>a. mrp_residues z q = Some (Some a) \<and>
      (\<forall>j < ?N. rescale_value variant res (X j) q (unat (get_polynomial (pi_address a) \<sigma>' ! j)))" if q: "q \<in> set ?t" for q
  proof -
    obtain i where i: "i < length ?t" "q = ?t ! i" using q by (metis in_set_conv_nth)
    have "distinct ?t" using pr(2) by (simp add: prime_base_def)
    then have "map_of (zip ?t pinv) q = Some (pinv ! i)" using i pinv(2) by (simp add: map_of_zip_nth)
    then have V: "?V q = rescale_vec variant res qh (pinv ! i) X ?N q" by simp
    obtain w where w: "mrp_residues z q = Some w" using z(3) q by blast
    then obtain a where a: "w = Some a" "get_polynomial (pi_address a) \<sigma>' = ?V q"
      using holds_get_polynomial [OF h, of w "?V q"] q by force
    have "0 < q" "q \<notin> set res" using pinv(3) [OF i(1)] i(2) q t by (auto simp: word_gt_0)
    from rescale_vec_value [OF pr(1) assms(5) this _ qh(1,2) pinv(4) [OF i(1), folded i(2)]]
    show ?thesis using w a unfolding V by auto
  qed
  then show ?thesis using z ex t by (auto simp: target_after_rescale_def)
qed

theorem rescale_fbc_executes_witness:
  "\<exists>z \<sigma>' a. fst (rescale_fbc example_mrp [5] ReducedNoise ThreeOp example_recorder) = Inr z \<and> mrp_base z = [3] \<and>
     execute exact_backend (example_sim (snd (rescale_fbc example_mrp [5] ReducedNoise ThreeOp example_recorder))) =
       Inr (\<lparr>instructions_executed = 7, sim_errors = 0\<rparr>, \<sigma>') \<and>
     mrp_residues z 3 = Some (Some a) \<and>
     rescale_value ReducedNoise [5] 12 3 (unat (get_polynomial (pi_address a) \<sigma>' ! 2))"
proof -
  let ?run = "rescale_fbc example_mrp [5] ReducedNoise ThreeOp example_recorder"
  have c: "(next_address (snd ?run), length (table_of (snd ?run)), length (trace_of (snd ?run))) = (15, 3, 7)"
    by code_simp
  then have r: "replay_of (example_sim (snd ?run)) example_recorder (snd ?run)" by (intro example_replay) simp_all
  have n: "length (instructions (im_trace (example_sim (snd ?run)))) = 7" using c by (simp add: example_sim_def)
  have d: "unat (im_ring_dim (example_sim s')) = 4" "example_number 2 = 12" "mrp_base example_mrp = [3, 5]" for s'
    by (simp_all add: example_sim_def example_number_def example_mrp_def)
  show ?thesis
    using rescale_fbc_executes [OF exact.modular_backend_axioms example_base(1) _ _ _ _ example_ready
        example_stored prod.collapse [symmetric] r] n d
    by (auto dest!: bspec [of _ _ 3] dest: spec [of _ 2])
qed

end
