(* ===== verification/Capture.thy ===== *)
theory Capture
  imports Prelude
begin

text \<open>
  The captured inputs and outputs of a recording session (\<open>src/compiler.cpp\<close>): named records of
  residues with the boundaries of the array elements, an index from names to records, and the
  iteration that hands the records to their consumers.
\<close>

section \<open>Lists of results\<close>

lemma map_res_cong: "xs = ys \<Longrightarrow> (\<And>x. x \<in> set ys \<Longrightarrow> f x = g x) \<Longrightarrow> map_res f xs = map_res g ys"
  by (induction xs arbitrary: ys) auto

lemma map_res_total:
  assumes "\<And>x. x \<in> set xs \<Longrightarrow> \<exists>y. f x = Inr y \<and> P x y"
  shows "\<exists>ys. map_res f xs = Inr ys \<and> list_all2 P xs ys"
  using assms
proof (induction xs)
  case (Cons x xs)
  then obtain y ys where "f x = Inr y" "P x y" "map_res f xs = Inr ys" "list_all2 P xs ys" by (metis list.set_intros)
  then show ?case by simp
qed simp

section \<open>Data\<close>

datatype CapturedKind = SRP | MRPKind | SRPArrayKind | MRPArrayKind

record PolyElement =
  pe_addr_id :: u64
  pe_modulus :: u64
  pe_values :: "u64 list"

record InputRecord =
  ci_name :: string
  ci_kind :: CapturedKind
  ci_source_path :: string
  ci_source_mtime :: int
  ci_elements :: "PolyElement list"
  ci_element_starts :: "nat list"

record OutputRecord =
  co_name :: string
  co_kind :: CapturedKind
  co_addr_ids :: "u64 list"
  co_moduli :: "u64 list"
  co_element_starts :: "nat list"

record Captured =
  captured_inputs :: "InputRecord list"
  captured_input_index :: "string \<rightharpoonup> nat"
  captured_outputs :: "OutputRecord list"
  captured_output_index :: "string \<rightharpoonup> nat"

definition Captured_init :: Captured where
  "Captured_init = \<lparr>captured_inputs = [], captured_input_index = Map.empty,
     captured_outputs = [], captured_output_index = Map.empty\<rparr>"

section \<open>Operations\<close>

definition clear_captured_inputs :: "Captured \<Rightarrow> Captured" where
  "clear_captured_inputs c = c\<lparr>captured_inputs := [], captured_input_index := Map.empty\<rparr>"

definition clear_captured_outputs :: "Captured \<Rightarrow> Captured" where
  "clear_captured_outputs c = c\<lparr>captured_outputs := [], captured_output_index := Map.empty\<rparr>"

definition clear_captured :: "Captured \<Rightarrow> Captured" where
  "clear_captured c = clear_captured_outputs (clear_captured_inputs c)"

text \<open>
  The template, over the function that makes a fresh record; it returns the position of the record in
  place of the reference.
\<close>

definition find_or_create_record ::
  "(string \<Rightarrow> CapturedKind \<Rightarrow> 'r) \<Rightarrow> 'r list \<Rightarrow> (string \<rightharpoonup> nat) \<Rightarrow> string \<Rightarrow> CapturedKind \<Rightarrow>
     nat \<times> 'r list \<times> (string \<rightharpoonup> nat)" where
  "find_or_create_record fresh records index nm default_kind =
     (case index nm of
        Some i \<Rightarrow> (i, records, index)
      | None \<Rightarrow>
          let idx = length records
          in (idx, records @ [fresh nm default_kind], index(nm \<mapsto> idx)))"

definition fresh_input :: "string \<Rightarrow> CapturedKind \<Rightarrow> InputRecord" where
  "fresh_input nm kind = \<lparr>ci_name = nm, ci_kind = kind, ci_source_path = [], ci_source_mtime = 0,
     ci_elements = [], ci_element_starts = []\<rparr>"

definition fresh_output :: "string \<Rightarrow> CapturedKind \<Rightarrow> OutputRecord" where
  "fresh_output nm kind = \<lparr>co_name = nm, co_kind = kind, co_addr_ids = [], co_moduli = [],
     co_element_starts = []\<rparr>"

text \<open>
  \<open>ndebug\<close> says whether assertions are compiled out; \<open>input_streaming\<close> is the session's flag.  A
  record reference outside the vector would be an out-of-bounds access.
\<close>

definition store_input_element ::
  "bool \<Rightarrow> bool \<Rightarrow> string \<Rightarrow> CapturedKind \<Rightarrow> bool \<Rightarrow> u64 \<Rightarrow> u64 \<Rightarrow> u64 list \<Rightarrow> Captured \<Rightarrow> cpp_error + Captured" where
  "store_input_element ndebug input_streaming input_name kind starts_new_element addr_id modl vals c =
     (let (i, records, index) =
            find_or_create_record fresh_input (captured_inputs c) (captured_input_index c) input_name kind;
          c1 = c\<lparr>captured_inputs := records, captured_input_index := index\<rparr>
      in if i \<ge> length records then Inl OutOfBoundsAccess
         else
           let r = records ! i in
           if ci_kind r \<noteq> kind then (if ndebug then Inr c1 else Inl AssertionFailed)
           else
             let r1 = (if starts_new_element
                       then r\<lparr>ci_element_starts := ci_element_starts r @ [length (ci_elements r)]\<rparr> else r);
                 r2 = r1\<lparr>ci_elements := ci_elements r1 @
                        [\<lparr>pe_addr_id = addr_id, pe_modulus = modl,
                          pe_values = (if input_streaming then [] else vals)\<rparr>]\<rparr>
             in Inr (c1\<lparr>captured_inputs := records[i := r2]\<rparr>))"

definition store_output_probe ::
  "bool \<Rightarrow> string \<Rightarrow> CapturedKind \<Rightarrow> bool \<Rightarrow> u64 \<Rightarrow> u64 \<Rightarrow> Captured \<Rightarrow> cpp_error + Captured" where
  "store_output_probe ndebug output_name kind starts_new_element addr_id modl c =
     (let (i, records, index) =
            find_or_create_record fresh_output (captured_outputs c) (captured_output_index c) output_name kind;
          c1 = c\<lparr>captured_outputs := records, captured_output_index := index\<rparr>
      in if i \<ge> length records then Inl OutOfBoundsAccess
         else
           let r = records ! i in
           if co_kind r \<noteq> kind then (if ndebug then Inr c1 else Inl AssertionFailed)
           else
             let r1 = (if starts_new_element
                       then r\<lparr>co_element_starts := co_element_starts r @ [length (co_addr_ids r)]\<rparr> else r);
                 r2 = r1\<lparr>co_addr_ids := co_addr_ids r1 @ [addr_id], co_moduli := co_moduli r1 @ [modl]\<rparr>
             in Inr (c1\<lparr>captured_outputs := records[i := r2]\<rparr>))"

text \<open>
  \<open>mtime\<close> is the modification time of the source file as the file system reports it, if it does.
\<close>

definition set_input_source :: "string \<Rightarrow> string \<Rightarrow> int option \<Rightarrow> Captured \<Rightarrow> cpp_error + Captured" where
  "set_input_source input_name source_path mtime c =
     (case captured_input_index c input_name of
        None \<Rightarrow> Inr c
      | Some i \<Rightarrow>
          if i \<ge> length (captured_inputs c) then Inl OutOfBoundsAccess
          else
            let r = captured_inputs c ! i;
                r1 = r\<lparr>ci_source_path := source_path, ci_source_mtime := (case mtime of None \<Rightarrow> 0 | Some t \<Rightarrow> t)\<rparr>
            in Inr (c\<lparr>captured_inputs := (captured_inputs c)[i := r1]\<rparr>))"

section \<open>Iteration\<close>

record CapturedShape =
  cs_kind :: CapturedKind
  per_element_moduli :: "u64 list list"

record CapturedInputRecord =
  cr_name :: string
  cr_shape :: CapturedShape
  cr_addr_ids :: "u64 list"
  per_residue_values :: "u64 list list"

text \<open>The range \<open>[lo, hi)\<close> of a vector; an iterator range that is not one is out of bounds.\<close>

definition vec_range :: "'a list \<Rightarrow> nat \<Rightarrow> nat \<Rightarrow> cpp_error + 'a list" where
  "vec_range xs lo hi =
     (if lo \<le> hi \<and> hi \<le> length xs then Inr (take (hi - lo) (drop lo xs)) else Inl OutOfBoundsAccess)"

definition slice_per_element_moduli ::
  "CapturedKind \<Rightarrow> u64 list \<Rightarrow> nat list \<Rightarrow> cpp_error + u64 list list" where
  "slice_per_element_moduli kind flat element_starts =
     (if flat = [] then Inr [[]]
      else case kind of
        SRP \<Rightarrow> Inr [flat]
      | MRPKind \<Rightarrow> Inr [flat]
      | SRPArrayKind \<Rightarrow> Inr (map (\<lambda>q. [q]) flat)
      | MRPArrayKind \<Rightarrow>
          if element_starts = [] then Inr [flat]
          else
            let k = length element_starts in
            map_res
              (\<lambda>i. vec_range flat (element_starts ! i)
                     (if i + 1 < k then element_starts ! (i + 1) else length flat))
              [0..<k])"

definition captured_input_record :: "InputRecord \<Rightarrow> cpp_error + CapturedInputRecord" where
  "captured_input_record input =
     res_bind (slice_per_element_moduli (ci_kind input) (map pe_modulus (ci_elements input)) (ci_element_starts input))
       (\<lambda>ms. Inr \<lparr>cr_name = ci_name input, cr_shape = \<lparr>cs_kind = ci_kind input, per_element_moduli = ms\<rparr>,
                   cr_addr_ids = map pe_addr_id (ci_elements input),
                   per_residue_values = map pe_values (ci_elements input)\<rparr>)"

text \<open>The callbacks are called with these records, in this order.\<close>

definition for_each_captured_input :: "Captured \<Rightarrow> cpp_error + CapturedInputRecord list" where
  "for_each_captured_input c = map_res captured_input_record (captured_inputs c)"

definition for_each_captured_output :: "Captured \<Rightarrow> cpp_error + (string \<times> CapturedShape) list" where
  "for_each_captured_output c =
     map_res
       (\<lambda>output. res_bind (slice_per_element_moduli (co_kind output) (co_moduli output) (co_element_starts output))
          (\<lambda>ms. Inr (co_name output, \<lparr>cs_kind = co_kind output, per_element_moduli = ms\<rparr>)))
       (captured_outputs c)"

section \<open>Invariant\<close>

definition index_ok :: "string list \<Rightarrow> (string \<rightharpoonup> nat) \<Rightarrow> bool" where
  "index_ok names index \<longleftrightarrow> (\<forall>nm i. index nm = Some i \<longleftrightarrow> i < length names \<and> names ! i = nm)"

definition starts_ok :: "nat list \<Rightarrow> nat \<Rightarrow> bool" where
  "starts_ok starts n \<longleftrightarrow> sorted_wrt (<) starts \<and> (\<forall>i \<in> set starts. i < n)"

definition input_ok :: "InputRecord \<Rightarrow> bool" where
  "input_ok r \<longleftrightarrow> starts_ok (ci_element_starts r) (length (ci_elements r))"

definition output_ok :: "OutputRecord \<Rightarrow> bool" where
  "output_ok r \<longleftrightarrow> length (co_addr_ids r) = length (co_moduli r) \<and>
     starts_ok (co_element_starts r) (length (co_moduli r))"

definition capture_ok :: "Captured \<Rightarrow> bool" where
  "capture_ok c \<longleftrightarrow>
     index_ok (map ci_name (captured_inputs c)) (captured_input_index c) \<and>
     index_ok (map co_name (captured_outputs c)) (captured_output_index c) \<and>
     list_all input_ok (captured_inputs c) \<and> list_all output_ok (captured_outputs c)"

lemma index_ok_distinct: "index_ok names index \<Longrightarrow> distinct names"
  unfolding index_ok_def distinct_conv_nth by (metis option.inject)

lemma starts_ok_snoc: "starts_ok starts n \<Longrightarrow> starts_ok (starts @ [n]) (Suc n)"
  by (auto simp: starts_ok_def sorted_wrt_append)

lemma starts_ok_Suc: "starts_ok starts n \<Longrightarrow> starts_ok starts (Suc n)"
  by (auto simp: starts_ok_def)

lemma find_or_create_ok:
  assumes "index_ok (map name_of records) index" "\<And>nm k. name_of (fresh nm k) = nm"
    and "find_or_create_record fresh records index nm kind = (i, records', index')"
  shows "index_ok (map name_of records') index'" "i < length records'" "name_of (records' ! i) = nm"
    "records' = records \<and> index' = index \<and> index nm = Some i \<or>
     records' = records @ [fresh nm kind] \<and> i = length records \<and> index nm = None \<and> index' = index(nm \<mapsto> i)"
proof -
  have *: "index nm' = Some j \<longleftrightarrow> j < length records \<and> name_of (records ! j) = nm'" for nm' j
    using assms(1) by (auto simp: index_ok_def)
  show r: "records' = records \<and> index' = index \<and> index nm = Some i \<or>
     records' = records @ [fresh nm kind] \<and> i = length records \<and> index nm = None \<and> index' = index(nm \<mapsto> i)"
    using assms(3) by (auto simp: find_or_create_record_def Let_def split: option.splits)
  show "i < length records'" "name_of (records' ! i) = nm" using r * [of nm i] assms(2) by auto
  have "(index(nm \<mapsto> length records)) nm' = Some j \<longleftrightarrow>
      j < Suc (length records) \<and> (map name_of records @ [nm]) ! j = nm'" if "index nm = None" for nm' j
    using * [of nm' j] that by (auto simp: nth_append less_Suc_eq)
  then show "index_ok (map name_of records') index'"
    using r assms(1,2) by (auto simp: index_ok_def)
qed

section \<open>Sequences of calls\<close>

datatype StoreCall =
    InputElement string CapturedKind bool u64 u64 "u64 list"
  | OutputProbe string CapturedKind bool u64 u64
  | InputSource string string "int option"

primrec store_call :: "bool \<Rightarrow> bool \<Rightarrow> StoreCall \<Rightarrow> Captured \<Rightarrow> cpp_error + Captured" where
  "store_call nd st (InputElement nm k b a q vs) c = store_input_element nd st nm k b a q vs c"
| "store_call nd st (OutputProbe nm k b a q) c = store_output_probe nd nm k b a q c"
| "store_call nd st (InputSource nm path t) c = set_input_source nm path t c"

primrec store_calls :: "bool \<Rightarrow> bool \<Rightarrow> StoreCall list \<Rightarrow> Captured \<Rightarrow> cpp_error + Captured" where
  "store_calls nd st [] c = Inr c"
| "store_calls nd st (x # xs) c = res_bind (store_call nd st x c) (store_calls nd st xs)"

lemma store_calls_append:
  "store_calls nd st (xs @ ys) c = res_bind (store_calls nd st xs c) (store_calls nd st ys)"
  by (induction xs arbitrary: c) (simp_all add: res_bind_def split: sum.splits)

text \<open>What one call to \<open>store_input_element\<close> does, given the invariant.\<close>

definition input_element :: "bool \<Rightarrow> u64 \<Rightarrow> u64 \<Rightarrow> u64 list \<Rightarrow> PolyElement" where
  "input_element st a q vs = \<lparr>pe_addr_id = a, pe_modulus = q, pe_values = (if st then [] else vs)\<rparr>"

lemma store_input_cases:
  assumes "capture_ok c"
  obtains (new) "captured_input_index c nm = None"
      "store_input_element nd st nm k b a q vs c =
        Inr (c\<lparr>captured_inputs := captured_inputs c @ [(fresh_input nm k)\<lparr>
              ci_element_starts := (if b then [0] else []), ci_elements := [input_element st a q vs]\<rparr>],
             captured_input_index := (captured_input_index c)(nm \<mapsto> length (captured_inputs c))\<rparr>)"
    | (mismatch) i where "captured_input_index c nm = Some i" "i < length (captured_inputs c)"
      "ci_kind (captured_inputs c ! i) \<noteq> k"
      "store_input_element nd st nm k b a q vs c = (if nd then Inr c else Inl AssertionFailed)"
    | (old) i where "captured_input_index c nm = Some i" "i < length (captured_inputs c)"
      "ci_kind (captured_inputs c ! i) = k"
      "store_input_element nd st nm k b a q vs c =
        Inr (c\<lparr>captured_inputs := (captured_inputs c)[i := (captured_inputs c ! i)\<lparr>
              ci_element_starts := ci_element_starts (captured_inputs c ! i) @
                (if b then [length (ci_elements (captured_inputs c ! i))] else []),
              ci_elements := ci_elements (captured_inputs c ! i) @ [input_element st a q vs]\<rparr>]\<rparr>)"
proof (cases "captured_input_index c nm")
  case None
  then show ?thesis
    by (intro new) (simp_all add: store_input_element_def find_or_create_record_def fresh_input_def input_element_def Let_def)
next
  case (Some i)
  moreover from this have "i < length (captured_inputs c)" using assms by (auto simp: capture_ok_def index_ok_def)
  ultimately show ?thesis
    using mismatch old
    by (cases "ci_kind (captured_inputs c ! i) = k")
      (auto simp: store_input_element_def find_or_create_record_def input_element_def Let_def)
qed

lemma store_output_cases:
  assumes "capture_ok c"
  obtains (new) "captured_output_index c nm = None"
      "store_output_probe nd nm k b a q c =
        Inr (c\<lparr>captured_outputs := captured_outputs c @ [(fresh_output nm k)\<lparr>
              co_element_starts := (if b then [0] else []), co_addr_ids := [a], co_moduli := [q]\<rparr>],
             captured_output_index := (captured_output_index c)(nm \<mapsto> length (captured_outputs c))\<rparr>)"
    | (mismatch) i where "captured_output_index c nm = Some i" "i < length (captured_outputs c)"
      "co_kind (captured_outputs c ! i) \<noteq> k"
      "store_output_probe nd nm k b a q c = (if nd then Inr c else Inl AssertionFailed)"
    | (old) i where "captured_output_index c nm = Some i" "i < length (captured_outputs c)"
      "co_kind (captured_outputs c ! i) = k"
      "store_output_probe nd nm k b a q c =
        Inr (c\<lparr>captured_outputs := (captured_outputs c)[i := (captured_outputs c ! i)\<lparr>
              co_element_starts := co_element_starts (captured_outputs c ! i) @
                (if b then [length (co_addr_ids (captured_outputs c ! i))] else []),
              co_addr_ids := co_addr_ids (captured_outputs c ! i) @ [a],
              co_moduli := co_moduli (captured_outputs c ! i) @ [q]\<rparr>]\<rparr>)"
proof (cases "captured_output_index c nm")
  case None
  then show ?thesis
    by (intro new) (simp_all add: store_output_probe_def find_or_create_record_def fresh_output_def Let_def)
next
  case (Some i)
  moreover from this have "i < length (captured_outputs c)" using assms by (auto simp: capture_ok_def index_ok_def)
  ultimately show ?thesis
    using mismatch old
    by (cases "co_kind (captured_outputs c ! i) = k")
      (auto simp: store_output_probe_def find_or_create_record_def Let_def)
qed

section \<open>The invariant is kept\<close>

lemma index_ok_snoc:
  assumes "index_ok names index" "index nm = None"
  shows "index_ok (names @ [nm]) (index(nm \<mapsto> length names))"
proof -
  have "names ! i \<noteq> nm" if "i < length names" for i
    using assms that unfolding index_ok_def by (metis option.distinct(1))
  then show ?thesis using assms unfolding index_ok_def by (auto simp: nth_append less_Suc_eq)
qed

lemma capture_ok_inputs:
  assumes "capture_ok c"
  shows "captured_input_index c nm = None \<Longrightarrow> input_ok r \<Longrightarrow> ci_name r = nm \<Longrightarrow>
      capture_ok (c\<lparr>captured_inputs := captured_inputs c @ [r],
        captured_input_index := (captured_input_index c)(nm \<mapsto> length (captured_inputs c))\<rparr>)"
    and "i < length (captured_inputs c) \<Longrightarrow> input_ok r \<Longrightarrow> ci_name r = ci_name (captured_inputs c ! i) \<Longrightarrow>
      capture_ok (c\<lparr>captured_inputs := (captured_inputs c)[i := r]\<rparr>)"
proof -
  assume "captured_input_index c nm = None" "input_ok r" "ci_name r = nm"
  then show "capture_ok (c\<lparr>captured_inputs := captured_inputs c @ [r],
      captured_input_index := (captured_input_index c)(nm \<mapsto> length (captured_inputs c))\<rparr>)"
    using assms index_ok_snoc [of "map ci_name (captured_inputs c)" "captured_input_index c" nm]
    by (simp add: capture_ok_def)
next
  assume "i < length (captured_inputs c)" "input_ok r" "ci_name r = ci_name (captured_inputs c ! i)"
  then show "capture_ok (c\<lparr>captured_inputs := (captured_inputs c)[i := r]\<rparr>)"
    using assms by (simp add: capture_ok_def map_update list_all_length nth_list_update)
      (metis length_map list_update_id nth_map)
qed

lemma capture_ok_outputs:
  assumes "capture_ok c"
  shows "captured_output_index c nm = None \<Longrightarrow> output_ok r \<Longrightarrow> co_name r = nm \<Longrightarrow>
      capture_ok (c\<lparr>captured_outputs := captured_outputs c @ [r],
        captured_output_index := (captured_output_index c)(nm \<mapsto> length (captured_outputs c))\<rparr>)"
    and "i < length (captured_outputs c) \<Longrightarrow> output_ok r \<Longrightarrow> co_name r = co_name (captured_outputs c ! i) \<Longrightarrow>
      capture_ok (c\<lparr>captured_outputs := (captured_outputs c)[i := r]\<rparr>)"
proof -
  assume "captured_output_index c nm = None" "output_ok r" "co_name r = nm"
  then show "capture_ok (c\<lparr>captured_outputs := captured_outputs c @ [r],
      captured_output_index := (captured_output_index c)(nm \<mapsto> length (captured_outputs c))\<rparr>)"
    using assms index_ok_snoc [of "map co_name (captured_outputs c)" "captured_output_index c" nm]
    by (simp add: capture_ok_def)
next
  assume "i < length (captured_outputs c)" "output_ok r" "co_name r = co_name (captured_outputs c ! i)"
  then show "capture_ok (c\<lparr>captured_outputs := (captured_outputs c)[i := r]\<rparr>)"
    using assms by (simp add: capture_ok_def map_update list_all_length nth_list_update)
      (metis length_map list_update_id nth_map)
qed

lemma capture_ok_init: "capture_ok Captured_init"
  by (simp add: capture_ok_def Captured_init_def index_ok_def)

lemma starts_ok_push:
  "starts_ok starts n \<Longrightarrow> starts_ok (starts @ (if b then [n] else [])) (Suc n)"
  by (simp add: starts_ok_snoc starts_ok_Suc)

lemma store_input_ok:
  assumes c: "capture_ok c" and run: "store_input_element nd st nm k b a q vs c = Inr c'"
  shows "capture_ok c'"
  using c
proof (cases rule: store_input_cases [where nm = nm and nd = nd and st = st and k = k and b = b and a = a and q = q and vs = vs])
  case new
  have "starts_ok (if b then [0] else []) (Suc 0)" by (simp add: starts_ok_def)
  then have "input_ok ((fresh_input nm k)\<lparr>ci_element_starts := (if b then [0] else []),
      ci_elements := [input_element st a q vs]\<rparr>)" by (simp add: input_ok_def)
  from capture_ok_inputs(1) [OF c new(1) this] show ?thesis using run new(2) by (simp add: fresh_input_def)
next
  case (mismatch i)
  then show ?thesis using run c by (simp split: if_splits)
next
  case (old i)
  have "input_ok (captured_inputs c ! i)" using c old(2) by (simp add: capture_ok_def list_all_length)
  then have "input_ok ((captured_inputs c ! i)\<lparr>
      ci_element_starts := ci_element_starts (captured_inputs c ! i) @
        (if b then [length (ci_elements (captured_inputs c ! i))] else []),
      ci_elements := ci_elements (captured_inputs c ! i) @ [input_element st a q vs]\<rparr>)"
    by (simp add: input_ok_def starts_ok_push)
  from capture_ok_inputs(2) [OF c old(2) this] show ?thesis using run old(4) by simp
qed

lemma store_output_ok:
  assumes c: "capture_ok c" and run: "store_output_probe nd nm k b a q c = Inr c'"
  shows "capture_ok c'"
  using c
proof (cases rule: store_output_cases [where nm = nm and nd = nd and k = k and b = b and a = a and q = q])
  case new
  have "starts_ok (if b then [0] else []) (Suc 0)" by (simp add: starts_ok_def)
  then have "output_ok ((fresh_output nm k)\<lparr>co_element_starts := (if b then [0] else []),
      co_addr_ids := [a], co_moduli := [q]\<rparr>)" by (simp add: output_ok_def)
  from capture_ok_outputs(1) [OF c new(1) this] show ?thesis using run new(2) by (simp add: fresh_output_def)
next
  case (mismatch i)
  then show ?thesis using run c by (simp split: if_splits)
next
  case (old i)
  have "output_ok (captured_outputs c ! i)" using c old(2) by (simp add: capture_ok_def list_all_length)
  then have "output_ok ((captured_outputs c ! i)\<lparr>
      co_element_starts := co_element_starts (captured_outputs c ! i) @
        (if b then [length (co_addr_ids (captured_outputs c ! i))] else []),
      co_addr_ids := co_addr_ids (captured_outputs c ! i) @ [a],
      co_moduli := co_moduli (captured_outputs c ! i) @ [q]\<rparr>)"
    by (auto simp: output_ok_def starts_ok_snoc starts_ok_Suc)
  from capture_ok_outputs(2) [OF c old(2) this] show ?thesis using run old(4) by simp
qed

lemma set_input_source_ok:
  assumes c: "capture_ok c" and run: "set_input_source nm path t c = Inr c'"
  shows "capture_ok c'"
proof (cases "captured_input_index c nm")
  case (Some i)
  then have i: "i < length (captured_inputs c)" using c by (auto simp: capture_ok_def index_ok_def)
  then have "input_ok (captured_inputs c ! i)" using c by (simp add: capture_ok_def list_all_length)
  then show ?thesis
    using run Some i capture_ok_inputs(2) [OF c i] by (auto simp: set_input_source_def input_ok_def)
qed (use c run in \<open>simp add: set_input_source_def\<close>)

lemma store_call_ok: "capture_ok c \<Longrightarrow> store_call nd st x c = Inr c' \<Longrightarrow> capture_ok c'"
  by (cases x) (simp_all, blast intro: store_input_ok, blast intro: store_output_ok, blast intro: set_input_source_ok)

lemma store_calls_ok: "capture_ok c \<Longrightarrow> store_calls nd st xs c = Inr c' \<Longrightarrow> capture_ok c'"
proof (induction xs arbitrary: c)
  case (Cons x xs)
  then obtain c1 where "store_call nd st x c = Inr c1" "store_calls nd st xs c1 = Inr c'"
    by (auto simp: res_bind_eq_Inr)
  then show ?case using Cons.IH store_call_ok [OF Cons.prems(1)] by blast
qed simp

section \<open>What the records hold\<close>

text \<open>
  Abstractly a session maps each name to the kind it was first tagged with and to the residues
  tagged with that kind, in order; residues tagged with another kind are dropped.
\<close>

definition push_tagged :: "CapturedKind \<Rightarrow> 'a \<Rightarrow> (CapturedKind \<times> 'a list) option \<Rightarrow> (CapturedKind \<times> 'a list) option" where
  "push_tagged k e v = (case v of None \<Rightarrow> Some (k, [e]) | Some (k', es) \<Rightarrow> Some (k', if k' = k then es @ [e] else es))"

definition record_view :: "('r \<Rightarrow> 'v) \<Rightarrow> 'r list \<Rightarrow> (string \<rightharpoonup> nat) \<Rightarrow> string \<Rightarrow> 'v option" where
  "record_view f records index nm = map_option (\<lambda>i. f (records ! i)) (index nm)"

definition input_view :: "Captured \<Rightarrow> string \<Rightarrow> (CapturedKind \<times> PolyElement list) option" where
  "input_view c = record_view (\<lambda>r. (ci_kind r, ci_elements r)) (captured_inputs c) (captured_input_index c)"

definition output_view :: "Captured \<Rightarrow> string \<Rightarrow> (CapturedKind \<times> (u64 \<times> u64) list) option" where
  "output_view c = record_view (\<lambda>r. (co_kind r, zip (co_addr_ids r) (co_moduli r))) (captured_outputs c) (captured_output_index c)"

lemma record_view_snoc:
  assumes "index_ok (map name_of records) index" "index nm = None"
  shows "record_view f (records @ [r]) (index(nm \<mapsto> length records)) nm' =
    (if nm' = nm then Some (f r) else record_view f records index nm')"
proof -
  have "index nm' = Some i \<Longrightarrow> i < length records" for i using assms(1) by (auto simp: index_ok_def)
  then show ?thesis by (cases "index nm'") (auto simp: record_view_def nth_append)
qed

lemma record_view_update:
  assumes "index_ok (map name_of records) index" "index nm = Some i"
  shows "record_view f (records[i := r]) index nm' = (if nm' = nm then Some (f r) else record_view f records index nm')"
proof -
  have "index nm' = Some j \<Longrightarrow> j < length records \<and> (j = i \<longrightarrow> nm' = nm)" for j
    using assms by (auto simp: index_ok_def)
  then show ?thesis using assms(2) by (cases "index nm'") (auto simp: record_view_def nth_list_update)
qed

primrec input_tags :: "bool \<Rightarrow> StoreCall \<Rightarrow> (string \<times> CapturedKind \<times> PolyElement) list" where
  "input_tags st (InputElement nm k b a q vs) = [(nm, k, input_element st a q vs)]"
| "input_tags st (OutputProbe nm k b a q) = []"
| "input_tags st (InputSource nm path t) = []"

primrec output_tags :: "StoreCall \<Rightarrow> (string \<times> CapturedKind \<times> u64 \<times> u64) list" where
  "output_tags (InputElement nm k b a q vs) = []"
| "output_tags (OutputProbe nm k b a q) = [(nm, k, a, q)]"
| "output_tags (InputSource nm path t) = []"

definition tagged_under :: "(string \<times> CapturedKind \<times> 'a) list \<Rightarrow> string \<Rightarrow> (CapturedKind \<times> 'a list) option" where
  "tagged_under tags nm =
     (case map snd (filter (\<lambda>t. fst t = nm) tags) of
        [] \<Rightarrow> None
      | (k, e) # rest \<Rightarrow> Some (k, e # map snd (filter (\<lambda>t. fst t = k) rest)))"

lemma tagged_under_snoc:
  "tagged_under (tags @ [(nm, k, e)]) nm' =
     (if nm' = nm then push_tagged k e (tagged_under tags nm') else tagged_under tags nm')"
  by (auto simp: tagged_under_def push_tagged_def split: list.splits)

lemma tagged_under_Nil: "tagged_under [] nm = None"
  by (simp add: tagged_under_def)

lemma capture_okD:
  assumes "capture_ok c"
  shows "index_ok (map ci_name (captured_inputs c)) (captured_input_index c)"
    "index_ok (map co_name (captured_outputs c)) (captured_output_index c)"
  using assms by (simp_all add: capture_ok_def)

lemma store_input_view:
  assumes c: "capture_ok c" and run: "store_input_element nd st nm k b a q vs c = Inr c'"
  shows "input_view c' nm' = (if nm' = nm then push_tagged k (input_element st a q vs) (input_view c nm') else input_view c nm')
    \<and> output_view c' nm' = output_view c nm'"
  using c
proof (cases rule: store_input_cases [where nm = nm and nd = nd and st = st and k = k and b = b and a = a and q = q and vs = vs])
  case new
  have "input_view c nm = None" using new(1) by (simp add: input_view_def record_view_def)
  moreover have "c' = c\<lparr>captured_inputs := captured_inputs c @ [(fresh_input nm k)\<lparr>
      ci_element_starts := (if b then [0] else []), ci_elements := [input_element st a q vs]\<rparr>],
      captured_input_index := (captured_input_index c)(nm \<mapsto> length (captured_inputs c))\<rparr>"
    using run new(2) by simp
  ultimately show ?thesis
    by (simp add: record_view_snoc [OF capture_okD(1) [OF c] new(1)] input_view_def output_view_def push_tagged_def fresh_input_def)
next
  case (mismatch i)
  then show ?thesis
    using run by (auto simp: input_view_def record_view_def push_tagged_def split: if_splits)
next
  case (old i)
  have "input_view c nm = Some (k, ci_elements (captured_inputs c ! i))"
    using old(1,3) by (simp add: input_view_def record_view_def)
  moreover have "c' = c\<lparr>captured_inputs := (captured_inputs c)[i := (captured_inputs c ! i)\<lparr>
      ci_element_starts := ci_element_starts (captured_inputs c ! i) @
        (if b then [length (ci_elements (captured_inputs c ! i))] else []),
      ci_elements := ci_elements (captured_inputs c ! i) @ [input_element st a q vs]\<rparr>]\<rparr>"
    using run old(4) by simp
  ultimately show ?thesis
    using old(3)
    by (simp add: record_view_update [OF capture_okD(1) [OF c] old(1)] input_view_def output_view_def push_tagged_def)
qed

lemma store_output_view:
  assumes c: "capture_ok c" and run: "store_output_probe nd nm k b a q c = Inr c'"
  shows "output_view c' nm' = (if nm' = nm then push_tagged k (a, q) (output_view c nm') else output_view c nm')
    \<and> input_view c' nm' = input_view c nm'"
  using c
proof (cases rule: store_output_cases [where nm = nm and nd = nd and k = k and b = b and a = a and q = q])
  case new
  have "output_view c nm = None" using new(1) by (simp add: output_view_def record_view_def)
  moreover have "c' = c\<lparr>captured_outputs := captured_outputs c @ [(fresh_output nm k)\<lparr>
      co_element_starts := (if b then [0] else []), co_addr_ids := [a], co_moduli := [q]\<rparr>],
      captured_output_index := (captured_output_index c)(nm \<mapsto> length (captured_outputs c))\<rparr>"
    using run new(2) by simp
  ultimately show ?thesis
    by (simp add: record_view_snoc [OF capture_okD(2) [OF c] new(1)] input_view_def output_view_def push_tagged_def fresh_output_def)
next
  case (mismatch i)
  then show ?thesis
    using run by (auto simp: output_view_def record_view_def push_tagged_def split: if_splits)
next
  case (old i)
  have "length (co_addr_ids (captured_outputs c ! i)) = length (co_moduli (captured_outputs c ! i))"
    using c old(2) by (simp add: capture_ok_def list_all_length output_ok_def)
  moreover have "output_view c nm =
      Some (k, zip (co_addr_ids (captured_outputs c ! i)) (co_moduli (captured_outputs c ! i)))"
    using old(1,3) by (simp add: output_view_def record_view_def)
  moreover have "c' = c\<lparr>captured_outputs := (captured_outputs c)[i := (captured_outputs c ! i)\<lparr>
      co_element_starts := co_element_starts (captured_outputs c ! i) @
        (if b then [length (co_addr_ids (captured_outputs c ! i))] else []),
      co_addr_ids := co_addr_ids (captured_outputs c ! i) @ [a],
      co_moduli := co_moduli (captured_outputs c ! i) @ [q]\<rparr>]\<rparr>"
    using run old(4) by simp
  ultimately show ?thesis
    using old(3)
    by (simp add: record_view_update [OF capture_okD(2) [OF c] old(1)] input_view_def output_view_def push_tagged_def)
qed

lemma set_input_source_view:
  assumes "capture_ok c" "set_input_source nm path t c = Inr c'"
  shows "input_view c' nm' = input_view c nm' \<and> output_view c' nm' = output_view c nm'"
proof (cases "captured_input_index c nm")
  case (Some i)
  then have c': "c' = c\<lparr>captured_inputs := (captured_inputs c)[i := (captured_inputs c ! i)\<lparr>
      ci_source_path := path, ci_source_mtime := (case t of None \<Rightarrow> 0 | Some t \<Rightarrow> t)\<rparr>]\<rparr>"
    using assms(2) by (auto simp: set_input_source_def split: if_splits)
  have "input_view c' nm' = input_view c nm'"
    using Some by (simp add: c' input_view_def record_view_update [OF capture_okD(1) [OF assms(1)] Some])
      (simp add: record_view_def)
  moreover have "output_view c' nm' = output_view c nm'" by (simp add: c' output_view_def)
  ultimately show ?thesis by simp
qed (use assms(2) in \<open>simp_all add: set_input_source_def\<close>)

lemma store_call_view:
  assumes "capture_ok c" "store_call nd st x c = Inr c'"
    and "\<And>nm. input_view c nm = tagged_under (concat (map (input_tags st) xs)) nm"
    and "\<And>nm. output_view c nm = tagged_under (concat (map output_tags xs)) nm"
  shows "input_view c' nm = tagged_under (concat (map (input_tags st) (xs @ [x]))) nm
    \<and> output_view c' nm = tagged_under (concat (map output_tags (xs @ [x]))) nm"
proof (cases x)
  case (InputElement n k b a q vs)
  then show ?thesis
    using store_input_view [OF assms(1), of nd st n k b a q vs c' nm] assms(2-4) by (simp add: tagged_under_snoc)
next
  case (OutputProbe n k b a q)
  then show ?thesis
    using store_output_view [OF assms(1), of nd n k b a q c' nm] assms(2-4) by (simp add: tagged_under_snoc)
next
  case (InputSource n path t)
  then show ?thesis
    using set_input_source_view [OF assms(1), of n path t c' nm] assms(2-4) by simp
qed

lemma store_call_ndebug: "capture_ok c \<Longrightarrow> \<exists>c'. store_call True st x c = Inr c'"
proof (cases x)
  case (InputElement n k b a q vs)
  assume "capture_ok c"
  then show ?thesis
    by (cases rule: store_input_cases [where nm = n and nd = True and st = st and k = k and b = b and a = a and q = q and vs = vs])
      (simp_all add: InputElement)
next
  case (OutputProbe n k b a q)
  assume "capture_ok c"
  then show ?thesis
    by (cases rule: store_output_cases [where nm = n and nd = True and k = k and b = b and a = a and q = q])
      (simp_all add: OutputProbe)
next
  case (InputSource n path t)
  assume "capture_ok c"
  then have "captured_input_index c n = Some i \<Longrightarrow> i < length (captured_inputs c)" for i
    by (auto simp: capture_ok_def index_ok_def)
  then show ?thesis by (auto simp: InputSource set_input_source_def split: option.split)
qed

lemma store_calls_snoc:
  "store_calls nd st (xs @ [x]) c = res_bind (store_calls nd st xs c) (store_call nd st x)"
  by (simp add: store_calls_append res_bind_def split: sum.splits)

lemma store_calls_view:
  assumes "store_calls nd st xs Captured_init = Inr c"
  shows "input_view c nm = tagged_under (concat (map (input_tags st) xs)) nm
    \<and> output_view c nm = tagged_under (concat (map output_tags xs)) nm"
  using assms
proof (induction xs arbitrary: c nm rule: rev_induct)
  case Nil
  then show ?case
    by (auto simp: input_view_def output_view_def record_view_def Captured_init_def tagged_under_Nil)
next
  case (snoc x xs)
  then obtain c1 where c1: "store_calls nd st xs Captured_init = Inr c1" "store_call nd st x c1 = Inr c"
    by (auto simp: store_calls_snoc res_bind_eq_Inr)
  then show ?case
    using store_call_view [OF store_calls_ok [OF capture_ok_init c1(1)] c1(2)] snoc.IH [OF c1(1)] by blast
qed

lemma store_calls_ndebug: "\<exists>c. store_calls True st xs Captured_init = Inr c"
proof (induction xs rule: rev_induct)
  case (snoc x xs)
  then obtain c where "store_calls True st xs Captured_init = Inr c" by blast
  then show ?case
    using store_call_ndebug [OF store_calls_ok [OF capture_ok_init]] by (fastforce simp: store_calls_snoc)
qed simp

section \<open>Slices\<close>

lemma mono_upto: "(\<And>i. i < k \<Longrightarrow> b i \<le> b (Suc i)) \<Longrightarrow> b 0 \<le> (b k :: nat)"
  by (induction k) (auto intro: order_trans)

lemma concat_slices:
  assumes "\<And>i. i < k \<Longrightarrow> b i \<le> b (Suc i)" "b k \<le> length xs"
  shows "concat (map (\<lambda>i. take (b (Suc i) - b i) (drop (b i) xs)) [0..<k]) = take (b k - b 0) (drop (b 0) xs)"
  using assms
proof (induction k)
  case (Suc k)
  have "b 0 \<le> b k" by (rule mono_upto) (use Suc.prems(1) in auto)
  then have "take (b (Suc k) - b 0) (drop (b 0) xs) =
      take (b k - b 0) (drop (b 0) xs) @ take (b (Suc k) - b k) (drop (b k) xs)"
    using Suc.prems(1) [of k] take_add [of "b k - b 0" "b (Suc k) - b k" "drop (b 0) xs"] by simp
  moreover have "b k \<le> length xs" using Suc.prems(1) [of k] Suc.prems(2) by simp
  ultimately show ?case using Suc.IH Suc.prems(1) by simp
qed simp

text \<open>Where the slices begin: residues before the first array element belong to none.\<close>

definition first_start :: "CapturedKind \<Rightarrow> nat list \<Rightarrow> nat" where
  "first_start kind starts = (if kind = MRPArrayKind \<and> starts \<noteq> [] then hd starts else 0)"

lemma slice_ok:
  assumes s: "starts_ok starts (length flat)"
  shows "\<exists>ss. slice_per_element_moduli kind flat starts = Inr ss \<and> concat ss = drop (first_start kind starts) flat \<and>
    (kind = MRPArrayKind \<and> starts \<noteq> [] \<longrightarrow> length ss = length starts \<and> [] \<notin> set ss)"
proof (cases "kind = MRPArrayKind \<and> starts \<noteq> []")
  case True
  let ?k = "length starts"
  define b where "b i = (if i < ?k then starts ! i else length flat)" for i
  have step: "b i < b (Suc i)" if "i < ?k" for i
  proof (cases "Suc i < ?k")
    case True
    then show ?thesis using s that by (simp add: b_def starts_ok_def sorted_wrt_nth_less)
  next
    case False
    then show ?thesis using s that by (simp add: b_def starts_ok_def)
  qed
  have le: "b i \<le> length flat" for i using s by (auto simp: b_def starts_ok_def less_imp_le)
  let ?f = "\<lambda>i. take (b (Suc i) - b i) (drop (b i) flat)"
  have "flat \<noteq> []" using True s by (auto simp: starts_ok_def)
  then have "slice_per_element_moduli kind flat starts =
      map_res (\<lambda>i. vec_range flat (b i) (b (Suc i))) [0..<?k]"
    using True by (auto simp: slice_per_element_moduli_def b_def Let_def intro: map_res_cong)
  also have "\<dots> = Inr (map ?f [0..<?k])"
    by (rule map_res_Inr) (use step le in \<open>auto simp: vec_range_def less_imp_le\<close>)
  finally have eq: "slice_per_element_moduli kind flat starts = Inr (map ?f [0..<?k])" .
  have "concat (map ?f [0..<?k]) = take (b ?k - b 0) (drop (b 0) flat)"
    by (rule concat_slices) (use step le in \<open>auto simp: less_imp_le\<close>)
  also have "\<dots> = drop (first_start kind starts) flat"
    using True by (simp add: b_def first_start_def hd_conv_nth)
  finally have "concat (map ?f [0..<?k]) = drop (first_start kind starts) flat" .
  moreover have "?f i \<noteq> []" if "i < ?k" for i using step [OF that] le [of "Suc i"] by simp
  ultimately show ?thesis using eq by auto
next
  case False
  then show ?thesis
    by (cases kind) (auto simp: slice_per_element_moduli_def first_start_def map_concat comp_def concat_map_singleton)
qed

text \<open>What a consumer sees of a record.\<close>

definition describes_input :: "InputRecord \<Rightarrow> CapturedInputRecord \<Rightarrow> bool" where
  "describes_input i r \<longleftrightarrow> cr_name r = ci_name i \<and> cs_kind (cr_shape r) = ci_kind i \<and>
     cr_addr_ids r = map pe_addr_id (ci_elements i) \<and> per_residue_values r = map pe_values (ci_elements i) \<and>
     concat (per_element_moduli (cr_shape r)) =
       drop (first_start (ci_kind i) (ci_element_starts i)) (map pe_modulus (ci_elements i))"

definition describes_output :: "OutputRecord \<Rightarrow> string \<times> CapturedShape \<Rightarrow> bool" where
  "describes_output out r \<longleftrightarrow> fst r = co_name out \<and> cs_kind (snd r) = co_kind out \<and>
     concat (per_element_moduli (snd r)) = drop (first_start (co_kind out) (co_element_starts out)) (co_moduli out)"

lemma for_each_captured_input_ok:
  assumes "list_all input_ok (captured_inputs c)"
  shows "\<exists>rs. for_each_captured_input c = Inr rs \<and> list_all2 describes_input (captured_inputs c) rs"
  unfolding for_each_captured_input_def
proof (rule map_res_total)
  fix r assume "r \<in> set (captured_inputs c)"
  then have "input_ok r" using assms by (simp add: list_all_iff)
  then show "\<exists>y. captured_input_record r = Inr y \<and> describes_input r y"
    using slice_ok [of "ci_element_starts r" "map pe_modulus (ci_elements r)" "ci_kind r"]
    by (auto simp: input_ok_def captured_input_record_def describes_input_def)
qed

lemma for_each_captured_output_ok:
  assumes "list_all output_ok (captured_outputs c)"
  shows "\<exists>rs. for_each_captured_output c = Inr rs \<and> list_all2 describes_output (captured_outputs c) rs"
  unfolding for_each_captured_output_def
proof (rule map_res_total)
  fix r assume "r \<in> set (captured_outputs c)"
  then have "output_ok r" using assms by (simp add: list_all_iff)
  then show "\<exists>y. res_bind (slice_per_element_moduli (co_kind r) (co_moduli r) (co_element_starts r))
      (\<lambda>ms. Inr (co_name r, \<lparr>cs_kind = co_kind r, per_element_moduli = ms\<rparr>)) = Inr y \<and> describes_output r y"
    using slice_ok [of "co_element_starts r" "co_moduli r" "co_kind r"]
    by (auto simp: output_ok_def describes_output_def)
qed

lemma store_call_debug: "capture_ok c \<Longrightarrow> store_call False st x c \<in> {Inl AssertionFailed, store_call True st x c}"
proof (cases x)
  case (InputElement n k b a q vs)
  assume c: "capture_ok c"
  show ?thesis
    by (auto simp: InputElement store_input_element_def Let_def split: prod.split)
next
  case (OutputProbe n k b a q)
  show ?thesis by (auto simp: OutputProbe store_output_probe_def Let_def split: prod.split)
qed simp

lemma store_calls_debug:
  "capture_ok c \<Longrightarrow> store_calls False st xs c \<in> {Inl AssertionFailed, store_calls True st xs c}"
proof (induction xs arbitrary: c)
  case (Cons x xs)
  obtain c1 where c1: "store_call True st x c = Inr c1" using store_call_ndebug [OF Cons.prems] by blast
  then show ?case
    using store_call_debug [OF Cons.prems, of st x] Cons.IH [OF store_call_ok [OF Cons.prems c1]] by auto
qed simp

text \<open>
  C24: whatever is tagged in a session, each name maps to the kind it was first tagged with and to the
  residues tagged with that kind, in the order of the calls; the records are well formed.  With
  assertions enabled the session either reaches the same records or stops at an assertion.
\<close>

theorem captured_records_refine:
  "\<exists>c. store_calls True st calls Captured_init = Inr c \<and> capture_ok c \<and>
     (\<forall>nm. input_view c nm = tagged_under (concat (map (input_tags st) calls)) nm) \<and>
     (\<forall>nm. output_view c nm = tagged_under (concat (map output_tags calls)) nm) \<and>
     store_calls False st calls Captured_init \<in> {Inl AssertionFailed, Inr c}"
proof -
  obtain c where c: "store_calls True st calls Captured_init = Inr c" using store_calls_ndebug by blast
  then show ?thesis
    using store_calls_ok [OF capture_ok_init c] store_calls_view [OF c] store_calls_debug [OF capture_ok_init, of st calls]
    by auto
qed

text \<open>
  C26: handing the captured records to a consumer never leaves the vectors, and concatenating the
  moduli of the array elements gives the recorded moduli back, from the first array element on.
\<close>

theorem captured_slices_recombine:
  "\<exists>c rs os. store_calls True st calls Captured_init = Inr c \<and>
     for_each_captured_input c = Inr rs \<and> list_all2 describes_input (captured_inputs c) rs \<and>
     for_each_captured_output c = Inr os \<and> list_all2 describes_output (captured_outputs c) os"
proof -
  obtain c where c: "store_calls True st calls Captured_init = Inr c" using store_calls_ndebug by blast
  then have "list_all input_ok (captured_inputs c)" "list_all output_ok (captured_outputs c)"
    using store_calls_ok [OF capture_ok_init c] by (simp_all add: capture_ok_def)
  then show ?thesis using c for_each_captured_input_ok for_each_captured_output_ok by blast
qed

end
