(* ===== verification/ApiSync.thy ===== *)
theory ApiSync
  imports ApiState Capture
begin

text \<open>
  \<open>sync_fhetch_state_to_compiler\<close> (\<open>src/fhetch_api.cpp\<close>): the tagged inputs and outputs of the
  recording interface become captured records of the session, once per recording cycle.

  The pass is a sequence of steps, each a call into the session or the exception that ends the pass;
  the records stored before an exception stay.
\<close>

type_synonym sync_step = "cpp_error + StoreCall"

definition data_or_zeros :: "PolynomialImpl \<Rightarrow> u64 list" where
  "data_or_zeros p = (if pi_int_data p \<noteq> [] then pi_int_data p else replicate (unat (pi_ring_dim p)) 0)"

definition residue_at :: "MRP \<Rightarrow> u64 \<Rightarrow> cpp_error + Polynomial" where
  "residue_at m q = (case mrp_residues m q of None \<Rightarrow> Inl OutOfRange | Some p \<Rightarrow> Inr p)"

text \<open>One residue of a multi-residue input: an invalid one is skipped.\<close>

definition input_residue :: "string \<Rightarrow> CapturedKind \<Rightarrow> bool \<Rightarrow> u64 \<Rightarrow> Polynomial \<Rightarrow> StoreCall list" where
  "input_residue nm kind first q res =
     (case res of None \<Rightarrow> []
      | Some p \<Rightarrow> [InputElement nm kind first (pi_address p) q (data_or_zeros p)])"

definition mrp_input_steps :: "string \<Rightarrow> MRP \<Rightarrow> sync_step list" where
  "mrp_input_steps nm m =
     (if mrp_is_valid m then
        concat (map (\<lambda>q. case residue_at m q of
                           Inl e \<Rightarrow> [Inl e]
                         | Inr res \<Rightarrow> map Inr (input_residue nm MRPKind False q res)) (mrp_base m))
      else [])"

text \<open>The inner loop over the moduli of one array element; the flag \<open>first\<close> is cleared by a store.\<close>

fun mrpa_input_loop :: "string \<Rightarrow> MRP \<Rightarrow> bool \<Rightarrow> u64 list \<Rightarrow> sync_step list" where
  "mrpa_input_loop nm m first [] = []"
| "mrpa_input_loop nm m first (q # qs) =
     (case residue_at m q of
        Inl e \<Rightarrow> [Inl e]
      | Inr None \<Rightarrow> mrpa_input_loop nm m first qs
      | Inr (Some p) \<Rightarrow>
          Inr (InputElement nm MRPArrayKind first (pi_address p) q (data_or_zeros p)) #
          mrpa_input_loop nm m False qs)"

definition srp_input_steps ::
  "(u64 \<rightharpoonup> u64) \<Rightarrow> string \<Rightarrow> CapturedKind \<Rightarrow> bool \<Rightarrow> Polynomial \<Rightarrow> sync_step list" where
  "srp_input_steps mod_map nm kind starts p =
     (case p of None \<Rightarrow> []
      | Some i \<Rightarrow>
          (case mod_map (pi_address i) of
             None \<Rightarrow> []
           | Some q \<Rightarrow> [Inr (InputElement nm kind starts (pi_address i) q (data_or_zeros i))]))"

definition input_entry_steps :: "(u64 \<rightharpoonup> u64) \<Rightarrow> RegistryEntry \<Rightarrow> sync_step list" where
  "input_entry_steps mod_map e =
     (case re_value e of
        POLY p \<Rightarrow> srp_input_steps mod_map (re_name e) SRP False p
      | MRP_KIND m \<Rightarrow> mrp_input_steps (re_name e) m
      | MRPA arr \<Rightarrow> concat (map (\<lambda>m. mrpa_input_loop (re_name e) m True (mrp_base m)) arr)
      | SRPA arr \<Rightarrow> concat (map (srp_input_steps mod_map (re_name e) SRPArrayKind True) arr))"

text \<open>Outputs: the residues are not checked, so an invalid one is a null dereference.\<close>

definition modulus_for :: "(u64 \<rightharpoonup> u64) \<Rightarrow> PolynomialImpl \<Rightarrow> u64" where
  "modulus_for mod_map p = (case mod_map (pi_address p) of None \<Rightarrow> 0 | Some q \<Rightarrow> q)"

definition output_residue :: "string \<Rightarrow> CapturedKind \<Rightarrow> bool \<Rightarrow> MRP \<Rightarrow> u64 \<Rightarrow> sync_step" where
  "output_residue nm kind first m q =
     (case residue_at m q of
        Inl e \<Rightarrow> Inl e
      | Inr None \<Rightarrow> Inl NullDereference
      | Inr (Some p) \<Rightarrow> Inr (OutputProbe nm kind first (pi_address p) q))"

fun mrpa_output_loop :: "string \<Rightarrow> MRP \<Rightarrow> bool \<Rightarrow> u64 list \<Rightarrow> sync_step list" where
  "mrpa_output_loop nm m first [] = []"
| "mrpa_output_loop nm m first (q # qs) =
     output_residue nm MRPArrayKind first m q # mrpa_output_loop nm m False qs"

definition srp_output_steps ::
  "(u64 \<rightharpoonup> u64) \<Rightarrow> string \<Rightarrow> CapturedKind \<Rightarrow> bool \<Rightarrow> Polynomial \<Rightarrow> sync_step list" where
  "srp_output_steps mod_map nm kind starts p =
     (case p of None \<Rightarrow> []
      | Some i \<Rightarrow> [Inr (OutputProbe nm kind starts (pi_address i) (modulus_for mod_map i))])"

definition output_entry_steps :: "(u64 \<rightharpoonup> u64) \<Rightarrow> RegistryEntry \<Rightarrow> sync_step list" where
  "output_entry_steps mod_map e =
     (case re_value e of
        POLY p \<Rightarrow> srp_output_steps mod_map (re_name e) SRP False p
      | MRP_KIND m \<Rightarrow>
          (if mrp_is_valid m then map (output_residue (re_name e) MRPKind False m) (mrp_base m) else [])
      | MRPA arr \<Rightarrow> concat (map (\<lambda>m. mrpa_output_loop (re_name e) m True (mrp_base m)) arr)
      | SRPA arr \<Rightarrow> concat (map (srp_output_steps mod_map (re_name e) SRPArrayKind True) arr))"

fun run_steps :: "bool \<Rightarrow> bool \<Rightarrow> sync_step list \<Rightarrow> Captured \<Rightarrow> (cpp_error + unit) \<times> Captured" where
  "run_steps nd st [] c = (Inr (), c)"
| "run_steps nd st (Inl e # xs) c = (Inl e, c)"
| "run_steps nd st (Inr x # xs) c =
     (case store_call nd st x c of Inl e \<Rightarrow> (Inl e, c) | Inr c' \<Rightarrow> run_steps nd st xs c')"

definition sync_steps :: "ApiState \<Rightarrow> sync_step list" where
  "sync_steps s =
     concat (map (input_entry_steps (address_modulus_map s)) (input_registry s)) @
     concat (map (output_entry_steps (address_modulus_map s)) (probe_registry s))"

definition sync_fhetch_state_to_compiler ::
  "bool \<Rightarrow> bool \<Rightarrow> ApiState \<Rightarrow> Captured \<Rightarrow> (cpp_error + unit) \<times> ApiState \<times> Captured" where
  "sync_fhetch_state_to_compiler nd st s c =
     (if synced_since_reset s then (Inr (), s, c)
      else
        let (r, c') = run_steps nd st (sync_steps s) c
        in (r, s\<lparr>synced_since_reset := True\<rparr>, c'))"

section \<open>Runs\<close>

lemma run_steps_calls:
  "store_calls nd st xs c = Inr c' \<Longrightarrow> run_steps nd st (map Inr xs) c = (Inr (), c')"
  by (induction xs arbitrary: c) (auto simp: res_bind_eq_Inr)

lemma run_steps_append:
  "run_steps nd st xs c = (Inr (), c') \<Longrightarrow> run_steps nd st (xs @ ys) c = run_steps nd st ys c'"
  by (induction nd st xs c rule: run_steps.induct) (auto split: sum.splits)

lemma run_steps_keeps: "capture_ok c \<Longrightarrow> capture_ok (snd (run_steps nd st xs c))"
proof (induction nd st xs c rule: run_steps.induct)
  case (3 nd st x xs c)
  then show ?case by (auto split: sum.split intro: store_call_ok)
qed simp_all

section \<open>The record a tagged input becomes\<close>

text \<open>The residues of a well-formed value: flag, address, modulus and data, in the order of the stores.\<close>

definition poly_residues :: "(u64 \<rightharpoonup> u64) \<Rightarrow> bool \<Rightarrow> Polynomial \<Rightarrow> (bool \<times> u64 \<times> u64 \<times> u64 list) list" where
  "poly_residues mod_map starts p =
     (case p of None \<Rightarrow> []
      | Some i \<Rightarrow> (case mod_map (pi_address i) of None \<Rightarrow> [] | Some q \<Rightarrow> [(starts, pi_address i, q, data_or_zeros i)]))"

definition full_mrp :: "MRP \<Rightarrow> bool" where
  "full_mrp m \<longleftrightarrow> (\<forall>q \<in> set (mrp_base m). \<exists>p. mrp_residues m q = Some (Some p))"

definition mrp_residue_list :: "bool \<Rightarrow> MRP \<Rightarrow> (bool \<times> u64 \<times> u64 \<times> u64 list) list" where
  "mrp_residue_list starts m =
     map2 (\<lambda>i q. (starts \<and> i = 0, pi_address (the (the (mrp_residues m q))), q, data_or_zeros (the (the (mrp_residues m q)))))
       [0..<length (mrp_base m)] (mrp_base m)"

primrec tagged_kind :: "Tagged \<Rightarrow> CapturedKind" where
  "tagged_kind (POLY p) = SRP"
| "tagged_kind (MRP_KIND m) = MRPKind"
| "tagged_kind (MRPA arr) = MRPArrayKind"
| "tagged_kind (SRPA arr) = SRPArrayKind"

primrec tagged_residues :: "(u64 \<rightharpoonup> u64) \<Rightarrow> Tagged \<Rightarrow> (bool \<times> u64 \<times> u64 \<times> u64 list) list" where
  "tagged_residues mod_map (POLY p) = poly_residues mod_map False p"
| "tagged_residues mod_map (MRP_KIND m) = mrp_residue_list False m"
| "tagged_residues mod_map (MRPA arr) = concat (map (mrp_residue_list True) arr)"
| "tagged_residues mod_map (SRPA arr) = concat (map (poly_residues mod_map True) arr)"

primrec full_value :: "Tagged \<Rightarrow> bool" where
  "full_value (POLY p) = True"
| "full_value (MRP_KIND m) = full_mrp m"
| "full_value (MRPA arr) = list_all full_mrp arr"
| "full_value (SRPA arr) = True"

definition residue_calls :: "string \<Rightarrow> CapturedKind \<Rightarrow> (bool \<times> u64 \<times> u64 \<times> u64 list) list \<Rightarrow> StoreCall list" where
  "residue_calls nm kind = map (\<lambda>(b, a, q, vs). InputElement nm kind b a q vs)"

lemma mrpa_loop_calls:
  assumes "\<And>q. q \<in> set qs \<Longrightarrow> \<exists>p. mrp_residues m q = Some (Some p)"
  shows "mrpa_input_loop nm m first qs = map Inr (residue_calls nm MRPArrayKind
    (map2 (\<lambda>i q. (first \<and> i = 0, pi_address (the (the (mrp_residues m q))), q, data_or_zeros (the (the (mrp_residues m q)))))
      [0..<length qs] qs))"
  using assms
proof (induction qs arbitrary: first)
  case (Cons q qs)
  then obtain p where p: "mrp_residues m q = Some (Some p)" by auto
  have z: "zip [0..<Suc (length qs)] (q # qs) = (0, q) # map (\<lambda>(i, x). (Suc i, x)) (zip [0..<length qs] qs)"
    by (simp add: upt_conv_Cons map_Suc_upt [symmetric] zip_map1 del: upt_Suc)
  show ?case
    using Cons p by (simp add: z residue_at_def residue_calls_def comp_def case_prod_unfold del: upt_Suc)
qed (simp add: residue_calls_def)

lemma input_entry_calls:
  assumes "full_value (re_value e)"
  shows "input_entry_steps mod_map e =
    map Inr (residue_calls (re_name e) (tagged_kind (re_value e)) (tagged_residues mod_map (re_value e)))"
proof (cases "re_value e")
  case (POLY p)
  then show ?thesis
    by (auto simp: input_entry_steps_def srp_input_steps_def poly_residues_def residue_calls_def split: option.split)
next
  case (MRP_KIND m)
  have "concat (map (\<lambda>q. case residue_at m q of Inl e \<Rightarrow> [Inl e]
      | Inr res \<Rightarrow> map Inr (input_residue (re_name e) MRPKind False q res)) qs) =
    map Inr (residue_calls (re_name e) MRPKind (map2 (\<lambda>i q. (False, pi_address (the (the (mrp_residues m q))), q,
      data_or_zeros (the (the (mrp_residues m q))))) [k..<k + length qs] qs))"
    if "\<And>q. q \<in> set qs \<Longrightarrow> \<exists>p. mrp_residues m q = Some (Some p)" for k qs
    using that
  proof (induction qs arbitrary: k)
    case (Cons q qs)
    then obtain p where p: "mrp_residues m q = Some (Some p)" by auto
    show ?case
      using Cons.IH [of "Suc k"] Cons.prems p
      by (simp add: residue_at_def input_residue_def residue_calls_def upt_conv_Cons del: upt_Suc)
  qed (simp add: residue_calls_def)
  from this [of "mrp_base m" 0] show ?thesis
    using MRP_KIND assms
    by (auto simp: input_entry_steps_def mrp_input_steps_def mrp_residue_list_def full_mrp_def mrp_is_valid_def residue_calls_def)
next
  case (MRPA arr)
  then have "map (\<lambda>m. mrpa_input_loop (re_name e) m True (mrp_base m)) arr =
      map (\<lambda>m. map Inr (residue_calls (re_name e) MRPArrayKind (mrp_residue_list True m))) arr"
    using assms mrpa_loop_calls by (auto simp: list_all_iff full_mrp_def mrp_residue_list_def)
  then show ?thesis
    using MRPA by (simp add: input_entry_steps_def residue_calls_def map_concat comp_def cong: map_cong)
next
  case (SRPA arr)
  have "srp_input_steps mod_map (re_name e) SRPArrayKind True =
      (\<lambda>p. map Inr (residue_calls (re_name e) SRPArrayKind (poly_residues mod_map True p)))"
    by (rule ext) (auto simp: srp_input_steps_def poly_residues_def residue_calls_def split: option.split)
  then show ?thesis using SRPA by (simp add: input_entry_steps_def residue_calls_def map_concat comp_def)
qed

section \<open>Blocks of residues\<close>

fun starts_from :: "nat \<Rightarrow> bool list \<Rightarrow> nat list" where
  "starts_from n [] = []"
| "starts_from n (b # bs) = (if b then [n] else []) @ starts_from (Suc n) bs"

lemma starts_from_append: "starts_from n (bs @ cs) = starts_from n bs @ starts_from (n + length bs) cs"
  by (induction bs arbitrary: n) auto

definition block_record :: "bool \<Rightarrow> string \<Rightarrow> CapturedKind \<Rightarrow> (bool \<times> u64 \<times> u64 \<times> u64 list) list \<Rightarrow> InputRecord" where
  "block_record st nm kind rs =
     \<lparr>ci_name = nm, ci_kind = kind, ci_source_path = [], ci_source_mtime = 0,
      ci_elements = map (\<lambda>(b, a, q, vs). input_element st a q vs) rs,
      ci_element_starts = starts_from 0 (map fst rs)\<rparr>"

lemma store_block:
  assumes "rs \<noteq> []" "capture_ok c" "captured_input_index c nm = None"
  shows "store_calls nd st (residue_calls nm k rs) c =
    Inr (c\<lparr>captured_inputs := captured_inputs c @ [block_record st nm k rs],
           captured_input_index := (captured_input_index c)(nm \<mapsto> length (captured_inputs c))\<rparr>)"
  using assms(1)
proof (induction rs rule: rev_nonempty_induct)
  case (single x)
  obtain b a q vs where x: "x = (b, a, q, vs)" by (cases x)
  show ?case
    using assms(2)
  proof (cases rule: store_input_cases [where nm = nm and nd = nd and st = st and k = k and b = b and a = a and q = q and vs = vs])
    case new
    then show ?thesis by (simp add: x residue_calls_def block_record_def fresh_input_def fun_upd_def)
  qed (use assms(3) in simp_all)
next
  case (snoc x xs)
  obtain b a q vs where x: "x = (b, a, q, vs)" by (cases x)
  show ?case
    unfolding residue_calls_def map_append list.map store_calls_snoc snoc.IH [unfolded residue_calls_def] res_bind_Inr
    by (simp add: x store_input_element_def find_or_create_record_def block_record_def starts_from_append input_element_def
        Let_def fun_upd_def)
qed

definition entry_record :: "bool \<Rightarrow> (u64 \<rightharpoonup> u64) \<Rightarrow> RegistryEntry \<Rightarrow> InputRecord list" where
  "entry_record st mod_map e =
     (if tagged_residues mod_map (re_value e) = [] then []
      else [block_record st (re_name e) (tagged_kind (re_value e)) (tagged_residues mod_map (re_value e))])"

lemma store_entries:
  assumes "capture_ok c" "distinct (map re_name es)" "\<And>e. e \<in> set es \<Longrightarrow> captured_input_index c (re_name e) = None"
    and "list_all (\<lambda>e. full_value (re_value e)) es"
  shows "\<exists>c'. run_steps nd st (concat (map (input_entry_steps m) es)) c = (Inr (), c') \<and> capture_ok c' \<and>
    captured_inputs c' = captured_inputs c @ concat (map (entry_record st m) es)"
  using assms
proof (induction es arbitrary: c)
  case (Cons e es)
  let ?rs = "tagged_residues m (re_value e)" and ?k = "tagged_kind (re_value e)"
  have steps: "input_entry_steps m e = map Inr (residue_calls (re_name e) ?k ?rs)"
    using Cons.prems(4) by (intro input_entry_calls) simp
  show ?case
  proof (cases "?rs = []")
    case True
    then show ?thesis
      using Cons.IH [OF Cons.prems(1)] Cons.prems steps by (simp add: entry_record_def residue_calls_def)
  next
    case False
    let ?c = "c\<lparr>captured_inputs := captured_inputs c @ [block_record st (re_name e) ?k ?rs],
      captured_input_index := (captured_input_index c)(re_name e \<mapsto> length (captured_inputs c))\<rparr>"
    have st: "store_calls nd st (residue_calls (re_name e) ?k ?rs) c = Inr ?c"
      using False Cons.prems(1,3) by (intro store_block) simp_all
    have ok: "capture_ok ?c" using store_calls_ok [OF Cons.prems(1) st] .
    have "captured_input_index ?c (re_name e') = None" if "e' \<in> set es" for e'
    proof -
      have "re_name e' \<noteq> re_name e" using Cons.prems(2) imageI [OF that, of re_name] by (metis distinct.simps(2) list.simps(9) set_map)
      then show ?thesis using Cons.prems(3) that by simp
    qed
    from Cons.IH [OF ok _ this] Cons.prems(2,4) obtain c' where
      "run_steps nd st (concat (map (input_entry_steps m) es)) ?c = (Inr (), c')" "capture_ok c'"
      "captured_inputs c' = captured_inputs ?c @ concat (map (entry_record st m) es)" by auto
    moreover have "entry_record st m e = [block_record st (re_name e) ?k ?rs]" using False by (simp add: entry_record_def)
    ultimately show ?thesis using run_steps_append [OF run_steps_calls [OF st]] steps by simp
  qed
qed simp

text \<open>Output steps leave the inputs alone.\<close>

definition output_step :: "sync_step \<Rightarrow> bool" where
  "output_step x = (case x of Inl e \<Rightarrow> True | Inr call \<Rightarrow> input_tags False call = [] \<and> (\<forall>nm path t. call \<noteq> InputSource nm path t))"

lemma output_entry_output_steps: "list_all output_step (output_entry_steps m e)"
proof -
  have r: "output_step (output_residue nm k b r q)" for nm k b r q
    by (auto simp: output_step_def output_residue_def residue_at_def split: option.splits sum.splits)
  have "list_all output_step (mrpa_output_loop nm r b qs)" for nm r b qs
    by (induction nm r b qs rule: mrpa_output_loop.induct) (simp_all add: r)
  moreover have "list_all output_step (srp_output_steps m nm k b p)" for nm k b p
    by (simp add: srp_output_steps_def output_step_def split: option.split)
  ultimately show ?thesis
    by (auto simp: output_entry_steps_def list_all_iff r split: Tagged.split if_splits)
qed

lemma store_output_keeps_inputs:
  assumes "store_output_probe nd nm k b a q c = Inr c'"
  shows "captured_inputs c' = captured_inputs c"
  using assms by (auto simp: store_output_probe_def Let_def split: prod.splits if_splits)

lemma run_output_steps: "list_all output_step xs \<Longrightarrow> captured_inputs (snd (run_steps nd st xs c)) = captured_inputs c"
proof (induction nd st xs c rule: run_steps.induct)
  case (3 nd st x xs c)
  then show ?case
    by (cases x) (auto simp: output_step_def dest: store_output_keeps_inputs split: sum.split)
qed simp_all

section \<open>Properties\<close>

text \<open>
  C1: a recording cycle syncs once: whatever the first call returns, even an exception, any later
  call before the latch is armed again does nothing.
\<close>

theorem sync_is_one_shot:
  "sync_fhetch_state_to_compiler nd st s c = (r, s', c') \<Longrightarrow>
     sync_fhetch_state_to_compiler nd' st' s' c' = (Inr (), s', c')"
  by (auto simp: sync_fhetch_state_to_compiler_def split: if_splits prod.splits)

theorem sync_is_one_shot_witness:
  "sync_fhetch_state_to_compiler True False
     (fst (snd (sync_fhetch_state_to_compiler True False ApiState_init Captured_init)))
     (snd (snd (sync_fhetch_state_to_compiler True False ApiState_init Captured_init))) =
   (Inr (), fst (snd (sync_fhetch_state_to_compiler True False ApiState_init Captured_init)),
     snd (snd (sync_fhetch_state_to_compiler True False ApiState_init Captured_init)))"
proof -
  obtain r s' c' where e: "sync_fhetch_state_to_compiler True False ApiState_init Captured_init = (r, s', c')"
    by (rule prod_cases3)
  show ?thesis using sync_is_one_shot [OF e] by (simp add: e)
qed

text \<open>
  C25: when the tagged inputs have distinct names and no missing residue, the sync appends exactly one
  record per input that has a residue to store, in the order of the registry: its kind, and its
  residues with their addresses, moduli and data.  This holds whatever the outputs are.
\<close>

theorem tagged_inputs_captured:
  assumes "\<not> synced_since_reset s" and "capture_ok c" and "distinct (map re_name (input_registry s))"
    and "list_all (\<lambda>e. full_value (re_value e) \<and> captured_input_index c (re_name e) = None) (input_registry s)"
    and "sync_fhetch_state_to_compiler nd st s c = (r, s', c')"
  shows "captured_inputs c' =
      captured_inputs c @ concat (map (entry_record st (address_modulus_map s)) (input_registry s)) \<and>
    capture_ok c' \<and> synced_since_reset s'"
proof -
  let ?m = "address_modulus_map s"
  obtain c1 where c1: "run_steps nd st (concat (map (input_entry_steps ?m) (input_registry s))) c = (Inr (), c1)"
    "captured_inputs c1 = captured_inputs c @ concat (map (entry_record st ?m) (input_registry s))"
    using store_entries [OF assms(2,3), of nd st ?m] assms(4) by (auto simp: list_all_iff)
  have out: "list_all output_step (concat (map (output_entry_steps ?m) (probe_registry s)))"
    using output_entry_output_steps by (auto simp: list_all_iff)
  have c': "c' = snd (run_steps nd st (sync_steps s) c)" "synced_since_reset s'"
    using assms(1,5) by (auto simp: sync_fhetch_state_to_compiler_def split: prod.splits)
  have "captured_inputs c' = captured_inputs c1"
    unfolding c'(1) sync_steps_def run_steps_append [OF c1(1)] by (rule run_output_steps [OF out])
  then show ?thesis using c1(2) c' run_steps_keeps [OF assms(2)] by simp
qed

definition example_tagged_poly :: "u64 \<Rightarrow> PolynomialImpl" where
  "example_tagged_poly a = \<lparr>pi_address = a, pi_ring_dim = 4, pi_fmt = Evaluation, pi_ntype = Integer,
     pi_int_data = [], pi_fp_data = []\<rparr>"

definition example_array :: MRPArray where
  "example_array = [\<lparr>mrp_base = [17, 97], mrp_residues = [17 \<mapsto> Some (example_tagged_poly 0), 97 \<mapsto> Some (example_tagged_poly 1)],
          mrp_ring_dim = 4\<rparr>,
         \<lparr>mrp_base = [17], mrp_residues = [17 \<mapsto> Some (example_tagged_poly 2)], mrp_ring_dim = 4\<rparr>]"

definition example_tagged :: ApiState where
  "example_tagged = ApiState_init\<lparr>input_registry := [\<lparr>re_name = ''x'', re_value = MRPA example_array\<rparr>]\<rparr>"

lemma example_tagged_ok:
  "\<not> synced_since_reset example_tagged" "input_registry example_tagged = [\<lparr>re_name = ''x'', re_value = MRPA example_array\<rparr>]"
  "list_all full_mrp example_array" "example_array \<noteq> []" "list_all (\<lambda>m. mrp_base m \<noteq> []) example_array"
  "map mrp_base example_array = [[17, 97], [17]]"
  by (simp_all add: example_tagged_def ApiState_init_def example_array_def full_mrp_def)

theorem tagged_inputs_captured_witness:
  "map ci_element_starts (captured_inputs (snd (snd
     (sync_fhetch_state_to_compiler True False example_tagged Captured_init)))) = [[0, 2]]"
proof -
  obtain r s' c' where e: "sync_fhetch_state_to_compiler True False example_tagged Captured_init = (r, s', c')"
    by (rule prod_cases3)
  have "captured_inputs c' = captured_inputs Captured_init @
      concat (map (entry_record False (address_modulus_map example_tagged)) (input_registry example_tagged))"
    using tagged_inputs_captured [OF example_tagged_ok(1) capture_ok_init _ _ e] example_tagged_ok(2,3)
    by (simp add: Captured_init_def)
  moreover have "map ci_element_starts (concat (map (entry_record False (address_modulus_map example_tagged))
      (input_registry example_tagged))) = [[0, 2]]"
    by code_simp
  moreover have "captured_inputs Captured_init = []" by (simp add: Captured_init_def)
  ultimately show ?thesis by (simp add: e)
qed

section \<open>The shape of a tagged array\<close>

lemma map_res_mem: "map_res f xs = Inr ys \<Longrightarrow> x \<in> set xs \<Longrightarrow> \<exists>y \<in> set ys. f x = Inr y"
  by (induction xs arbitrary: ys) (auto simp: res_bind_eq_Inr)

lemma mrp_residue_list_moduli: "map (\<lambda>(b, a, q, vs). q) (mrp_residue_list starts m) = mrp_base m"
  by (auto simp: mrp_residue_list_def intro: nth_equalityI)

lemma mrp_residue_list_cols:
  "map (\<lambda>x. fst (snd x)) (mrp_residue_list starts m) = map (\<lambda>q. pi_address (the (the (mrp_residues m q)))) (mrp_base m)"
  "map (\<lambda>x. snd (snd (snd x))) (mrp_residue_list starts m) =
    map (\<lambda>q. data_or_zeros (the (the (mrp_residues m q)))) (mrp_base m)"
  by (auto simp: mrp_residue_list_def intro: nth_equalityI)

lemma mrp_residue_list_flags:
  "mrp_base m \<noteq> [] \<Longrightarrow> map fst (mrp_residue_list True m) = True # replicate (length (mrp_base m) - 1) False"
  by (rule nth_equalityI) (auto simp: mrp_residue_list_def nth_Cons split: nat.split)

lemma starts_from_False: "starts_from n (replicate k False) = []"
  by (induction k arbitrary: n) simp_all

text \<open>The boundaries of a list of non-empty lists, and the slices they cut out.\<close>

fun boundaries :: "nat \<Rightarrow> 'a list list \<Rightarrow> nat list" where
  "boundaries n [] = []"
| "boundaries n (xs # xss) = n # boundaries (n + length xs) xss"

lemma starts_from_arrays:
  "list_all (\<lambda>m. mrp_base m \<noteq> []) arr \<Longrightarrow>
    starts_from n (concat (map (\<lambda>m. map fst (mrp_residue_list True m)) arr)) = boundaries n (map mrp_base arr)"
proof (induction arr arbitrary: n)
  case (Cons m arr)
  then obtain q qs where "mrp_base m = q # qs" by (auto simp: neq_Nil_conv)
  then show ?case
    using Cons by (simp add: starts_from_append mrp_residue_list_flags starts_from_False)
qed simp

lemma boundaries_slices:
  assumes "list_all (\<lambda>xs. xs \<noteq> []) xss" "length pre = n"
  shows "map_res (\<lambda>i. vec_range (pre @ concat xss) (boundaries n xss ! i)
      (if i + 1 < length xss then boundaries n xss ! (i + 1) else length (pre @ concat xss))) [0..<length xss] = Inr xss"
  using assms
proof (induction xss arbitrary: pre n)
  case (Cons xs xss)
  let ?all = "pre @ concat (xs # xss)" and ?b = "boundaries n (xs # xss)"
  let ?f = "\<lambda>i. vec_range ?all (?b ! i) (if i + 1 < length (xs # xss) then ?b ! (i + 1) else length ?all)"
  have "?f 0 = Inr xs" using Cons.prems by (cases xss) (auto simp: vec_range_def)
  moreover have "map_res (\<lambda>i. ?f (Suc i)) [0..<length xss] = Inr xss"
    using Cons.IH [of "pre @ xs" "n + length xs"] Cons.prems by (simp cong: if_cong)
  moreover have "[0..<length (xs # xss)] = 0 # map Suc [0..<length xss]" by (simp add: upt_conv_Cons map_Suc_upt del: upt_Suc)
  ultimately show ?case by (simp only: map_res.simps map_res_map res_bind_Inr)
qed simp

lemma length_boundaries [simp]: "length (boundaries n xss) = length xss"
  by (induction xss arbitrary: n) simp_all

lemma slice_boundaries:
  assumes "list_all (\<lambda>xs. xs \<noteq> []) xss" "xss \<noteq> []"
  shows "slice_per_element_moduli MRPArrayKind (concat xss) (boundaries 0 xss) = Inr xss"
proof -
  have "concat xss \<noteq> []" "boundaries 0 xss \<noteq> []" using assms by (cases xss; simp)+
  then show ?thesis
    using boundaries_slices [OF assms(1), of "[]" 0] by (auto simp: slice_per_element_moduli_def Let_def cong: if_cong)
qed

text \<open>
  The shape of a tagged array of multi-residue polynomials survives: after the sync, the iteration
  over the captured inputs hands out a record of its name whose per-element moduli are the bases of
  the array elements, and whose addresses and values are those of its residues in order.
\<close>

theorem tagged_array_shape:
  assumes "\<not> synced_since_reset s" and "distinct (map re_name (input_registry s))"
    and "list_all (\<lambda>e. full_value (re_value e)) (input_registry s)"
    and "\<lparr>re_name = nm, re_value = MRPA arr\<rparr> \<in> set (input_registry s)"
    and "arr \<noteq> []" and "list_all (\<lambda>m. mrp_base m \<noteq> []) arr"
    and "sync_fhetch_state_to_compiler nd False s Captured_init = (r, s', c)"
  shows "\<exists>rs x. for_each_captured_input c = Inr rs \<and> x \<in> set rs \<and> cr_name x = nm \<and>
    cr_shape x = \<lparr>cs_kind = MRPArrayKind, per_element_moduli = map mrp_base arr\<rparr> \<and>
    cr_addr_ids x = concat (map (\<lambda>m. map (\<lambda>q. pi_address (the (the (mrp_residues m q)))) (mrp_base m)) arr) \<and>
    per_residue_values x = concat (map (\<lambda>m. map (\<lambda>q. data_or_zeros (the (the (mrp_residues m q)))) (mrp_base m)) arr)"
proof -
  let ?e = "\<lparr>re_name = nm, re_value = MRPA arr\<rparr>" and ?rs = "concat (map (mrp_residue_list True) arr)"
  let ?rec = "block_record False nm MRPArrayKind ?rs"
  have c: "captured_inputs c = concat (map (entry_record False (address_modulus_map s)) (input_registry s))" "capture_ok c"
    using tagged_inputs_captured [OF assms(1) capture_ok_init assms(2) _ assms(7)] assms(3)
    by (simp_all add: Captured_init_def list_all_iff)
  have "?rs \<noteq> []" using assms(5,6) by (cases arr) (auto simp: mrp_residue_list_def)
  then have "entry_record False (address_modulus_map s) ?e = [?rec]" by (simp add: entry_record_def)
  then have mem: "?rec \<in> set (captured_inputs c)" using assms(4) c(1) by (force)
  have starts: "ci_element_starts ?rec = boundaries 0 (map mrp_base arr)"
    using starts_from_arrays [OF assms(6), of 0] by (simp add: block_record_def map_concat comp_def)
  have moduli: "map pe_modulus (ci_elements ?rec) = concat (map mrp_base arr)"
    using mrp_residue_list_moduli [of True] by (simp add: block_record_def map_concat comp_def input_element_def case_prod_unfold)
  have "slice_per_element_moduli MRPArrayKind (concat (map mrp_base arr)) (boundaries 0 (map mrp_base arr)) =
      Inr (map mrp_base arr)"
    using assms(5,6) by (intro slice_boundaries) (simp_all add: list_all_iff)
  then have x: "captured_input_record ?rec = Inr \<lparr>cr_name = nm,
      cr_shape = \<lparr>cs_kind = MRPArrayKind, per_element_moduli = map mrp_base arr\<rparr>,
      cr_addr_ids = map pe_addr_id (ci_elements ?rec), per_residue_values = map pe_values (ci_elements ?rec)\<rparr>"
    unfolding captured_input_record_def moduli starts by (simp add: block_record_def)
  obtain rs where rs: "for_each_captured_input c = Inr rs"
    using for_each_captured_input_ok c(2) unfolding capture_ok_def by blast
  then have "\<exists>x \<in> set rs. captured_input_record ?rec = Inr x"
    using mem map_res_mem unfolding for_each_captured_input_def by metis
  then show ?thesis
    unfolding x
    using rs by (auto simp: block_record_def map_concat comp_def input_element_def case_prod_unfold
        mrp_residue_list_cols)
qed

theorem tagged_array_shape_witness:
  "\<exists>rs x. for_each_captured_input (snd (snd (sync_fhetch_state_to_compiler True False example_tagged Captured_init))) = Inr rs \<and>
     x \<in> set rs \<and> cr_name x = ''x'' \<and> per_element_moduli (cr_shape x) = [[17, 97], [17]]"
proof -
  obtain r s' c' where e: "sync_fhetch_state_to_compiler True False example_tagged Captured_init = (r, s', c')"
    by (rule prod_cases3)
  have "distinct (map re_name (input_registry example_tagged))"
    "list_all (\<lambda>e. full_value (re_value e)) (input_registry example_tagged)"
    "\<lparr>re_name = ''x'', re_value = MRPA example_array\<rparr> \<in> set (input_registry example_tagged)"
    using example_tagged_ok(2,3) by simp_all
  from tagged_array_shape [OF example_tagged_ok(1) this example_tagged_ok(4,5) e]
  obtain rs x where "for_each_captured_input c' = Inr rs" "x \<in> set rs" "cr_name x = ''x''"
    "cr_shape x = \<lparr>cs_kind = MRPArrayKind, per_element_moduli = map mrp_base example_array\<rparr>"
    by (elim exE conjE)
  then show ?thesis
    using example_tagged_ok(6) by (intro exI [of _ rs] exI [of _ x]) (simp add: e)
qed

end
