(* ===== verification/Session.thy ===== *)
theory Session
  imports ApiSync TraceFile Checks
begin

text \<open>
  The recording session (\<open>src/compiler.cpp\<close>, class \<open>Compiler\<close>): command line, lifecycle, metadata,
  cache suffix, moduli, epochs and reset.  The session owns the trace writer; the recording interface
  reaches the same writer, so the state of the process is the session beside the state of the
  recording interface, which holds the writer.

  The file system and the clock are an environment; the two hooks are \<open>std::function\<close>s of the client:
  values of a type \<open>'h\<close> that a parameter interprets.  Console output is left out.
\<close>

section \<open>State\<close>

record 'h CompilerImpl =
  cc_program_name :: string
  cc_program_version :: string
  cc_program_description :: string
  cc_source_file :: string
  cc_source_line :: i32
  cc_build_timestamp :: string
  cc_cache_params :: "(string \<times> string) list"
  cc_cache_suffix :: string
  cc_running :: bool
  cc_stopped :: bool
  cc_hollow_mode :: bool
  cc_multithreaded :: bool
  cc_fhetch_mode :: bool
  cc_input_streaming :: bool
  cc_release_at_replay :: bool
  cc_epoch_id :: u32
  cc_check_primes :: bool
  cc_check_ring_dim :: bool
  cc_ring_dimension :: u64
  cc_multiplicative_depth :: u32
  cc_scaling_mod_size :: u32
  cc_scheme_name :: string
  cc_security_level :: string
  cc_modulus_chain :: "u64 list"
  cc_inverse_modulus_chain :: "u64 list"
  cc_montgomery_mode :: bool
  cc_bitrev_mode :: bool
  cc_auto_tagging :: bool
  cc_evalmult_start_addr_id :: u64
  cc_evalautomorphism_start_addr_id :: u64
  cc_target :: string
  cc_trace_format :: TraceFormat
  cc_opt_level :: string
  cc_last_trace_path :: string
  cc_captured :: Captured
  cc_auto_capture_at_stop :: "'h option"
  cc_auto_capture_bootstrap_precompute_enabled :: bool
  cc_post_recording_hook :: "'h option"
  cc_program_dir :: string
  cc_verbose :: bool

definition CompilerImpl_init :: "'h CompilerImpl" where
  "CompilerImpl_init =
     \<lparr>cc_program_name = [], cc_program_version = [], cc_program_description = [], cc_source_file = [],
      cc_source_line = 0, cc_build_timestamp = [], cc_cache_params = [], cc_cache_suffix = [],
      cc_running = False, cc_stopped = False, cc_hollow_mode = False, cc_multithreaded = False,
      cc_fhetch_mode = False, cc_input_streaming = False, cc_release_at_replay = True, cc_epoch_id = 0,
      cc_check_primes = True, cc_check_ring_dim = True, cc_ring_dimension = 0,
      cc_multiplicative_depth = 0, cc_scaling_mod_size = 0, cc_scheme_name = [],
      cc_security_level = [], cc_modulus_chain = [], cc_inverse_modulus_chain = [],
      cc_montgomery_mode = False, cc_bitrev_mode = False, cc_auto_tagging = False,
      cc_evalmult_start_addr_id = 0, cc_evalautomorphism_start_addr_id = 0, cc_target = ''local'',
      cc_trace_format = Binary, cc_opt_level = ''O0'', cc_last_trace_path = [],
      cc_captured = Captured_init, cc_auto_capture_at_stop = None,
      cc_auto_capture_bootstrap_precompute_enabled = True, cc_post_recording_hook = None,
      cc_program_dir = [], cc_verbose = False\<rparr>"

definition full_program_name :: "'h CompilerImpl \<Rightarrow> string" where
  "full_program_name c =
     (if cc_cache_suffix c \<noteq> [] then cc_program_name c @ ''_'' @ cc_cache_suffix c else cc_program_name c)"

record 'h World =
  w_impl :: "'h CompilerImpl"
  w_api :: ApiState

definition World_init :: "'h World" where
  "World_init = \<lparr>w_impl = CompilerImpl_init, w_api = ApiState_init\<rparr>"

abbreviation w_writer :: "'h World \<Rightarrow> TraceWriter" where
  "w_writer w \<equiv> as_writer (w_api w)"

definition on_writer :: "(TraceWriter \<Rightarrow> TraceWriter) \<Rightarrow> 'h World \<Rightarrow> 'h World" where
  "on_writer f w = w\<lparr>w_api := (w_api w)\<lparr>as_writer := f (as_writer (w_api w))\<rparr>\<rparr>"

definition on_impl :: "('h CompilerImpl \<Rightarrow> 'h CompilerImpl) \<Rightarrow> 'h World \<Rightarrow> 'h World" where
  "on_impl f w = w\<lparr>w_impl := f (w_impl w)\<rparr>"

section \<open>Command line\<close>

definition normalize_opt_level :: "string \<Rightarrow> string" where
  "normalize_opt_level v =
     (let s = (if v \<noteq> [] \<and> (hd v = CHR ''O'' \<or> hd v = CHR ''o'') then tl v else v)
      in if length s = 1 \<and> hd s \<in> {CHR ''0'', CHR ''1'', CHR ''2'', CHR ''3''} then ''O'' @ s else [])"

definition parse_trace_format :: "string \<Rightarrow> TraceFormat" where
  "parse_trace_format v =
     (if v = ''text'' then Text else if v = ''binary'' then Binary else if v = ''both'' then Both else Text)"

definition set_opt_level :: "string \<Rightarrow> 'h CompilerImpl \<Rightarrow> 'h CompilerImpl" where
  "set_opt_level v c = (let lvl = normalize_opt_level v in if lvl \<noteq> [] then c\<lparr>cc_opt_level := lvl\<rparr> else c)"

text \<open>The loop over \<open>argv[1..]\<close>, with the arguments it keeps.\<close>

fun init_loop :: "string list \<Rightarrow> 'h CompilerImpl \<Rightarrow> string list \<times> 'h CompilerImpl" where
  "init_loop [] c = ([], c)"
| "init_loop (a # args) c =
     (if a = ''--hollow'' then init_loop args (c\<lparr>cc_hollow_mode := True\<rparr>)
      else if a = ''--multithreaded'' then init_loop args (c\<lparr>cc_multithreaded := True\<rparr>)
      else if take 9 a = ''--target='' then init_loop args (c\<lparr>cc_target := drop 9 a\<rparr>)
      else if a = ''--target'' \<and> args \<noteq> [] then init_loop (tl args) (c\<lparr>cc_target := hd args\<rparr>)
      else if take 15 a = ''--trace-format='' then
        init_loop args (c\<lparr>cc_trace_format := parse_trace_format (drop 15 a)\<rparr>)
      else if a = ''--trace-format'' \<and> args \<noteq> [] then
        init_loop (tl args) (c\<lparr>cc_trace_format := parse_trace_format (hd args)\<rparr>)
      else if a = ''--montgomery'' then init_loop args (c\<lparr>cc_montgomery_mode := True\<rparr>)
      else if a = ''--bit_reversal'' then init_loop args (c\<lparr>cc_bitrev_mode := True\<rparr>)
      else if a = ''--niobium_hw'' then
        init_loop args (c\<lparr>cc_montgomery_mode := True, cc_bitrev_mode := True\<rparr>)
      else if take 12 a = ''--opt-level='' then init_loop args (set_opt_level (drop 12 a) c)
      else if a = ''--opt-level'' \<and> args \<noteq> [] then init_loop (tl args) (set_opt_level (hd args) c)
      else if a = ''-v'' then init_loop args (c\<lparr>cc_verbose := True\<rparr>)
      else if a = ''--no-prime-check'' then init_loop args (c\<lparr>cc_check_primes := False\<rparr>)
      else if a = ''--no-ring-dim-check'' then init_loop args (c\<lparr>cc_check_ring_dim := False\<rparr>)
      else let (kept, c') = init_loop args c in (a # kept, c'))"

text \<open>
  \<open>argc\<close> and the arguments left in \<open>argv\<close>.  The count starts at the program name, which is counted
  even when \<open>argv\<close> is empty.
\<close>

definition init :: "string list \<Rightarrow> 'h World \<Rightarrow> (nat \<times> string list) \<times> 'h World" where
  "init argv w =
     (let (kept, c) = init_loop (tl argv) (w_impl w)
      in ((1 + length kept, take 1 argv @ kept),
          on_writer (set_trace_format (cc_trace_format c)) (w\<lparr>w_impl := c\<rparr>)))"

section \<open>Paths\<close>

text \<open>\<open>std::filesystem::path::operator/\<close> on POSIX.\<close>

definition path_append :: "string \<Rightarrow> string \<Rightarrow> string" where
  "path_append a b =
     (if b \<noteq> [] \<and> hd b = CHR ''/'' then b
      else if a = [] \<or> last a = CHR ''/'' then a @ b
      else a @ ''/'' @ b)"

definition get_program_directory :: "string \<Rightarrow> 'h CompilerImpl \<Rightarrow> string" where
  "get_program_directory cwd c =
     (if cc_program_dir c \<noteq> [] then cc_program_dir c
      else let nm = full_program_name c in path_append cwd (if nm = [] then ''niobium_trace'' else nm))"

definition set_program_directory :: "string \<Rightarrow> 'h CompilerImpl \<Rightarrow> 'h CompilerImpl" where
  "set_program_directory dir c = c\<lparr>cc_program_dir := dir\<rparr>"

definition existing_trace_path :: "(string \<Rightarrow> bool) \<Rightarrow> string \<Rightarrow> string \<Rightarrow> string" where
  "existing_trace_path file_exists dir program =
     (case filter file_exists (map (\<lambda>ext. path_append dir (program @ ext)) [''.fhex'', ''.fhetch'']) of
        [] \<Rightarrow> [] | path # _ \<Rightarrow> path)"

definition trace_file_name :: "TraceFormat \<Rightarrow> string \<Rightarrow> string" where
  "trace_file_name format program = program @ (if format = Binary then ''.fhex'' else ''.fhetch'')"

definition is_cache_valid :: "(string \<Rightarrow> bool) \<Rightarrow> string \<Rightarrow> 'h CompilerImpl \<Rightarrow> bool" where
  "is_cache_valid file_exists cwd c =
     (existing_trace_path file_exists (get_program_directory cwd c) (full_program_name c) \<noteq> [])"

section \<open>Metadata and parameters\<close>

definition compiler_set_program_info :: "string \<Rightarrow> string \<Rightarrow> string \<Rightarrow> 'h World \<Rightarrow> 'h World" where
  "compiler_set_program_info nm ver desc w =
     on_writer (set_program_info nm ver desc)
       (on_impl (\<lambda>c. c\<lparr>cc_program_name := nm, cc_program_version := ver, cc_program_description := desc\<rparr>) w)"

definition set_build_info :: "string \<Rightarrow> i32 \<Rightarrow> string \<Rightarrow> 'h World \<Rightarrow> 'h World" where
  "set_build_info file line timestamp w =
     on_writer (set_source_info file line timestamp)
       (on_impl (\<lambda>c. c\<lparr>cc_source_file := file, cc_source_line := line, cc_build_timestamp := timestamp\<rparr>) w)"

definition cache_suffix_of :: "(string \<times> string) list \<Rightarrow> string" where
  "cache_suffix_of params =
     fold (\<lambda>(key, val) suffix. (if suffix \<noteq> [] then suffix @ ''_'' else suffix) @ key @ ''_'' @ val) params []"

definition cache_parameters :: "(string \<times> string) list \<Rightarrow> 'h CompilerImpl \<Rightarrow> 'h CompilerImpl" where
  "cache_parameters params c = c\<lparr>cc_cache_params := params, cc_cache_suffix := cache_suffix_of params\<rparr>"

definition compiler_set_ring_dimension :: "u64 \<Rightarrow> 'h CompilerImpl \<Rightarrow> cpp_error + 'h CompilerImpl" where
  "compiler_set_ring_dimension N c =
     (if cc_check_ring_dim c \<and> \<not> is_compatible_ring_dim N then Inl RuntimeError
      else Inr (c\<lparr>cc_ring_dimension := N\<rparr>))"

text \<open>The inverse of a modulus modulo \<open>2 ^ 64\<close>, bit by bit.\<close>

definition hensel_step :: "u64 \<Rightarrow> nat \<Rightarrow> u64 \<Rightarrow> u64" where
  "hensel_step q i ninv = (if drop_bit i (q * ninv) AND 1 \<noteq> 0 then ninv OR push_bit i 1 else ninv)"

definition hensel_inverse :: "u64 \<Rightarrow> u64" where
  "hensel_inverse q = fold (hensel_step q) [1..<64] 1"

text \<open>
  The loop of \<open>set_crypto_context_info\<close>: what the chain of inverses is when the loop ends or throws.
\<close>

fun inverse_chain_loop :: "bool \<Rightarrow> u64 list \<Rightarrow> u64 list \<Rightarrow> (cpp_error + unit) \<times> u64 list" where
  "inverse_chain_loop check [] inverses = (Inr (), inverses)"
| "inverse_chain_loop check (q # qs) inverses =
     (if check \<and> \<not> is_compatible_prime q then (Inl RuntimeError, inverses)
      else inverse_chain_loop check qs (inverses @ [hensel_inverse q]))"

definition set_crypto_context_info ::
  "string \<Rightarrow> u32 \<Rightarrow> u32 \<Rightarrow> string \<Rightarrow> u64 list \<Rightarrow> 'h CompilerImpl \<Rightarrow> (cpp_error + unit) \<times> 'h CompilerImpl" where
  "set_crypto_context_info schm depth scaling security chain c =
     (let (r, inverses) = inverse_chain_loop (cc_check_primes c) chain []
      in (r, c\<lparr>cc_scheme_name := schm, cc_multiplicative_depth := depth,
               cc_scaling_mod_size := scaling, cc_security_level := security,
               cc_modulus_chain := chain, cc_inverse_modulus_chain := inverses\<rparr>))"

definition set_key_start_addr_id :: "string \<Rightarrow> u64 \<Rightarrow> 'h CompilerImpl \<Rightarrow> 'h CompilerImpl" where
  "set_key_start_addr_id key_type addr_id c =
     (if key_type = ''evalmult'' then c\<lparr>cc_evalmult_start_addr_id := addr_id\<rparr>
      else if key_type = ''evalautomorphism'' then c\<lparr>cc_evalautomorphism_start_addr_id := addr_id\<rparr>
      else c)"

section \<open>Lifecycle\<close>

text \<open>
  The environment of a session: the byte order and assertion mode of the build, the working directory,
  and the answers of the file system and clock to \<open>TraceWriter::write\<close> for a directory and a name.
\<close>

record session_env =
  se_host_le :: bool
  se_ndebug :: bool
  se_cwd :: string
  se_write :: "string \<Rightarrow> string \<Rightarrow> write_env"

type_synonym 'h hooks = "'h \<Rightarrow> 'h World \<Rightarrow> (cpp_error + unit) \<times> 'h World"

definition start :: "'h World \<Rightarrow> bool \<times> 'h World" where
  "start w =
     (if cc_running (w_impl w) then (False, w)
      else
        let w1 = on_writer tw_clear w;
            w2 = w1\<lparr>w_api := reset_for_epoch (w_api w1)\<rparr>;
            w3 = on_impl (\<lambda>c. c\<lparr>cc_running := True, cc_stopped := False\<rparr>) w2
        in (True, on_writer start_recording w3))"

definition pause :: "'h World \<Rightarrow> bool \<times> 'h World" where
  "pause w = (if \<not> cc_running (w_impl w) then (False, w) else (True, on_writer pause_recording w))"

definition resume :: "'h World \<Rightarrow> bool \<times> 'h World" where
  "resume w = (if \<not> cc_running (w_impl w) then (False, w) else (True, on_writer resume_recording w))"

definition sync_world :: "bool \<Rightarrow> 'h World \<Rightarrow> (cpp_error + unit) \<times> 'h World" where
  "sync_world nd w =
     (let (r, api, cap) = sync_fhetch_state_to_compiler nd (cc_input_streaming (w_impl w)) (w_api w) (cc_captured (w_impl w))
      in (r, w\<lparr>w_impl := (w_impl w)\<lparr>cc_captured := cap\<rparr>, w_api := api\<rparr>))"

definition halt_instruction :: Instruction where
  "halt_instruction = Instruction_init\<lparr>opcode := FH_HALT\<rparr>"

text \<open>
  \<open>TraceWriter::write\<close> in a directory, with the path it returns.  The binary path comes from the text
  path by \<open>std::filesystem::path::replace_extension\<close>: a file name that is only \<open>.fhetch\<close> has no
  extension to replace.
\<close>

definition file_name_of :: "string \<Rightarrow> string" where
  "file_name_of p = rev (takeWhile (\<lambda>c. c \<noteq> CHR ''/'') (rev p))"

definition path_stem_length :: "string \<Rightarrow> nat" where
  "path_stem_length p =
     (let f = file_name_of p; ext = length (takeWhile (\<lambda>c. c \<noteq> CHR ''.'') (rev f)) + 1
      in if f = ''.'' \<or> f = ''..'' \<or> CHR ''.'' \<notin> set f \<or> length f \<le> ext then length p else length p - ext)"

definition replace_extension :: "string \<Rightarrow> string \<Rightarrow> string" where
  "replace_extension p ext =
     take (path_stem_length p) p @ (if ext \<noteq> [] \<and> hd ext \<noteq> CHR ''.'' then ''.'' else []) @ ext"

definition primary_path :: "string \<Rightarrow> string \<Rightarrow> trace_path \<Rightarrow> string" where
  "primary_path dir nm p =
     (let path = path_append dir (nm @ ''.fhetch'')
      in case p of NoPath \<Rightarrow> [] | TextPath \<Rightarrow> path | BinaryPath \<Rightarrow> replace_extension path ''.fhex'')"

definition write_trace ::
  "session_env \<Rightarrow> string \<Rightarrow> string \<Rightarrow> 'h World \<Rightarrow> (cpp_error + string \<times> trace_files) \<times> 'h World" where
  "write_trace env dir nm w =
     (let (r, t) = tw_write (se_host_le env) (se_write env dir nm) (w_writer w)
      in (res_bind r (\<lambda>files. Inr (primary_path dir nm (tf_primary files), files)), on_writer (\<lambda>_. t) w))"

definition run_hook :: "'h hooks \<Rightarrow> 'h option \<Rightarrow> 'h World \<Rightarrow> (cpp_error + unit) \<times> 'h World" where
  "run_hook hooks h w = (case h of None \<Rightarrow> (Inr (), w) | Some x \<Rightarrow> hooks x w)"

text \<open>
  \<open>stop\<close>; the last step, \<open>write_replay_json\<close>, only writes files.  A call that throws leaves the state
  the steps before it made.
\<close>

definition stop_hooks :: "'h hooks \<Rightarrow> 'h World \<Rightarrow> (cpp_error + unit) \<times> 'h World" where
  "stop_hooks hooks w =
     (let (r, w1) = run_hook hooks (cc_auto_capture_at_stop (w_impl w)) w in
      case r of
        Inl e \<Rightarrow> (Inl e, w1)
      | Inr _ \<Rightarrow>
          let w2 = (if cc_auto_capture_at_stop (w_impl w) \<noteq> None
                    then on_impl (\<lambda>c. c\<lparr>cc_auto_capture_at_stop := None\<rparr>) w1 else w1)
          in run_hook hooks (cc_post_recording_hook (w_impl w2)) w2)"

definition stop ::
  "session_env \<Rightarrow> 'h hooks \<Rightarrow> 'h World \<Rightarrow> (cpp_error + bool \<times> trace_files option) \<times> 'h World" where
  "stop env hooks w =
     (if \<not> cc_running (w_impl w) then (Inr (False, None), w)
      else
        let (r, w1) = sync_world (se_ndebug env) w in
        case r of
          Inl e \<Rightarrow> (Inl e, w1)
        | Inr _ \<Rightarrow>
            let w2 = on_writer (\<lambda>t. stop_recording (emit halt_instruction t)) w1;
                w3 = on_impl (\<lambda>c. c\<lparr>cc_running := False, cc_stopped := True\<rparr>) w2;
                dir = get_program_directory (se_cwd env) (w_impl w3);
                (r4, w4) = write_trace env dir (full_program_name (w_impl w3)) w3 in
            case r4 of
              Inl e \<Rightarrow> (Inl e, w4)
            | Inr (path, files) \<Rightarrow>
                let w5 = on_impl (\<lambda>c. c\<lparr>cc_last_trace_path := path\<rparr>) w4;
                    (r6, w6) = stop_hooks hooks w5
                in (case r6 of Inl e \<Rightarrow> (Inl e, w6) | Inr _ \<Rightarrow> (Inr (True, Some files), w6)))"

definition start_epoch :: "'h World \<Rightarrow> 'h World" where
  "start_epoch w = w"

definition epoch_suffix :: "'h CompilerImpl \<Rightarrow> string" where
  "epoch_suffix c = ''epoch_'' @ to_string_nat (unat (cc_epoch_id c))"

definition stop_epoch ::
  "session_env \<Rightarrow> 'h World \<Rightarrow> (cpp_error + bool \<times> trace_files option) \<times> 'h World" where
  "stop_epoch env w =
     (if \<not> cc_running (w_impl w) then (Inr (False, None), w)
      else
        let w1 = on_writer (\<lambda>t. stop_recording (emit halt_instruction t)) w;
            c = w_impl w1;
            dir = path_append (get_program_directory (se_cwd env) c) (epoch_suffix c);
            (r, w2) = write_trace env dir (full_program_name c @ ''_'' @ epoch_suffix c) w1 in
        case r of
          Inl e \<Rightarrow> (Inl e, w2)
        | Inr (path, files) \<Rightarrow>
            (Inr (True, Some files),
             on_writer start_recording
               (on_impl (\<lambda>c. c\<lparr>cc_epoch_id := cc_epoch_id c + 1\<rparr>) (on_writer tw_clear w2))))"

definition reset :: "'h World \<Rightarrow> 'h World" where
  "reset w =
     on_impl
       (\<lambda>c. c\<lparr>cc_program_dir := [], cc_last_trace_path := [], cc_running := False, cc_stopped := False,
              cc_fhetch_mode := False, cc_epoch_id := 0, cc_modulus_chain := [],
              cc_inverse_modulus_chain := [], cc_check_primes := True, cc_scheme_name := [],
              cc_security_level := [], cc_ring_dimension := 0, cc_check_ring_dim := True,
              cc_multiplicative_depth := 0, cc_scaling_mod_size := 0,
              cc_evalmult_start_addr_id := 0, cc_evalautomorphism_start_addr_id := 0,
              cc_cache_params := [], cc_cache_suffix := [], cc_program_name := [],
              cc_program_version := [], cc_program_description := [], cc_source_file := [],
              cc_source_line := 0, cc_build_timestamp := [], cc_auto_capture_at_stop := None,
              cc_post_recording_hook := None, cc_montgomery_mode := False, cc_bitrev_mode := False,
              cc_captured := clear_captured (cc_captured c)\<rparr>)
       (on_writer tw_clear (w\<lparr>w_api := clear_recording_registries (w_api w)\<rparr>))"

section \<open>Flags\<close>

text \<open>OpenFHE's global flag beside the session's.\<close>

definition enable_hollow_mode :: "bool \<Rightarrow> 'h CompilerImpl \<Rightarrow> bool \<times> 'h CompilerImpl" where
  "enable_hollow_mode enabled c = (enabled, c\<lparr>cc_hollow_mode := enabled\<rparr>)"

definition enable_multithreaded_recording :: "'h CompilerImpl \<Rightarrow> 'h CompilerImpl" where
  "enable_multithreaded_recording c = c\<lparr>cc_multithreaded := True\<rparr>"

definition enable_input_streaming :: "bool \<Rightarrow> 'h CompilerImpl \<Rightarrow> 'h CompilerImpl" where
  "enable_input_streaming enabled c = c\<lparr>cc_input_streaming := enabled\<rparr>"

definition release_openfhe_data_at_replay :: "bool \<Rightarrow> 'h CompilerImpl \<Rightarrow> 'h CompilerImpl" where
  "release_openfhe_data_at_replay enabled c = c\<lparr>cc_release_at_replay := enabled\<rparr>"

definition set_fhetch_mode :: "'h CompilerImpl \<Rightarrow> 'h CompilerImpl" where
  "set_fhetch_mode c = c\<lparr>cc_fhetch_mode := True\<rparr>"

definition set_auto_capture_at_stop :: "'h option \<Rightarrow> 'h CompilerImpl \<Rightarrow> 'h CompilerImpl" where
  "set_auto_capture_at_stop fn c = c\<lparr>cc_auto_capture_at_stop := fn\<rparr>"

definition set_auto_capture_bootstrap_precompute :: "bool \<Rightarrow> 'h CompilerImpl \<Rightarrow> 'h CompilerImpl" where
  "set_auto_capture_bootstrap_precompute enabled c = c\<lparr>cc_auto_capture_bootstrap_precompute_enabled := enabled\<rparr>"

definition set_post_recording_hook :: "'h option \<Rightarrow> 'h CompilerImpl \<Rightarrow> 'h CompilerImpl" where
  "set_post_recording_hook fn c = c\<lparr>cc_post_recording_hook := fn\<rparr>"

end
