(* ===== verification/Probes.thy ===== *)
theory Probes
  imports Session
begin

text \<open>
  The OpenFHE probes (\<open>src/probes.cpp\<close>): C entry points the instrumented OpenFHE calls whenever it makes,
  copies, moves, reassigns or computes a polynomial.  They map polynomial identities to trace addresses,
  recycle addresses, track which address is a copy of which, and record instructions.

  Every probe holds one mutex for its body, so a run is a sequence of probe calls.  The serialization
  flag is thread local: the probes take the calling thread.  The console tracking of one address is
  left out.
\<close>

section \<open>State\<close>

type_synonym thread = nat

record Probes =
  pr_address_map :: "u64 \<rightharpoonup> u64"
  pr_next_addr :: u64
  pr_free_pool :: "u64 list"
  pr_pinned :: "u64 set"
  pr_refcount :: "u64 \<rightharpoonup> int"
  pr_suppressed :: bool
  pr_serializing :: "thread set"
  pr_hollow_before_pause :: bool
  pr_data_parent :: "u64 \<rightharpoonup> u64"
  pr_precompute_count :: u64
  pr_precompute_mapped :: u64

definition Probes_init :: Probes where
  "Probes_init =
     \<lparr>pr_address_map = Map.empty, pr_next_addr = 1, pr_free_pool = [], pr_pinned = {},
      pr_refcount = Map.empty, pr_suppressed = False, pr_serializing = {},
      pr_hollow_before_pause = False, pr_data_parent = Map.empty, pr_precompute_count = 0,
      pr_precompute_mapped = 0\<rparr>"

record 'h Client =
  cl_world :: "'h World"
  cl_probes :: Probes

definition Client_init :: "'h Client" where
  "Client_init = \<lparr>cl_world = World_init, cl_probes = Probes_init\<rparr>"

abbreviation cl_writer :: "'h Client \<Rightarrow> TraceWriter" where
  "cl_writer c \<equiv> w_writer (cl_world c)"

definition on_probes :: "(Probes \<Rightarrow> Probes) \<Rightarrow> 'h Client \<Rightarrow> 'h Client" where
  "on_probes f c = c\<lparr>cl_probes := f (cl_probes c)\<rparr>"

definition on_trace :: "(TraceWriter \<Rightarrow> TraceWriter) \<Rightarrow> 'h Client \<Rightarrow> 'h Client" where
  "on_trace f c = c\<lparr>cl_world := on_writer f (cl_world c)\<rparr>"

section \<open>Addresses\<close>

text \<open>An address for the next value: the last one freed, or else a new one.\<close>

definition fresh_address :: "Probes \<Rightarrow> u64 \<times> Probes" where
  "fresh_address p =
     (if pr_free_pool p \<noteq> []
      then (last (pr_free_pool p), p\<lparr>pr_free_pool := butlast (pr_free_pool p)\<rparr>)
      else (pr_next_addr p, p\<lparr>pr_next_addr := pr_next_addr p + 1\<rparr>))"

definition map_address :: "u64 \<Rightarrow> Probes \<Rightarrow> u64 \<times> Probes" where
  "map_address openfhe_id p =
     (case pr_address_map p openfhe_id of
        Some addr \<Rightarrow> (addr, p)
      | None \<Rightarrow>
          let (addr, p') =
                (if openfhe_id \<notin> pr_pinned p then fresh_address p
                 else (pr_next_addr p, p\<lparr>pr_next_addr := pr_next_addr p + 1\<rparr>))
          in (addr, p'\<lparr>pr_address_map := (pr_address_map p')(openfhe_id \<mapsto> addr)\<rparr>))"

definition should_record :: "thread \<Rightarrow> 'h Client \<Rightarrow> bool" where
  "should_record th c \<longleftrightarrow>
     cc_running (w_impl (cl_world c)) \<and> \<not> pr_suppressed (cl_probes c) \<and> th \<notin> pr_serializing (cl_probes c)"

definition resolve_inplace_src :: "u64 \<Rightarrow> u64 \<Rightarrow> Probes \<Rightarrow> u64" where
  "resolve_inplace_src src_addr dst_addr p =
     (if src_addr \<noteq> dst_addr then src_addr
      else case pr_data_parent p src_addr of Some parent \<Rightarrow> parent | None \<Rightarrow> src_addr)"

definition invalidate_clone_parent_on_write :: "u64 \<Rightarrow> Probes \<Rightarrow> Probes" where
  "invalidate_clone_parent_on_write dst_addr p = p\<lparr>pr_data_parent := (pr_data_parent p)(dst_addr := None)\<rparr>"

section \<open>Emission\<close>

definition probe_ir :: "u8 \<Rightarrow> u64 \<Rightarrow> u64 \<Rightarrow> Instruction" where
  "probe_ir op d s1 = Instruction_init\<lparr>opcode := op, dest := ucast d, src1 := ucast s1\<rparr>"

text \<open>Registering a modulus and emitting an instruction that refers to it by its index.\<close>

definition emit_indexed :: "(u32 \<Rightarrow> Instruction) \<Rightarrow> u64 \<Rightarrow> TraceWriter \<Rightarrow> TraceWriter" where
  "emit_indexed inst q t = (let (m, t') = register_modulus q t in emit (inst m) t')"

definition probe_emit_pp :: "u8 \<Rightarrow> u64 \<Rightarrow> u64 \<Rightarrow> u64 \<Rightarrow> u64 \<Rightarrow> TraceWriter \<Rightarrow> TraceWriter" where
  "probe_emit_pp op d s1 s2 q =
     emit_indexed (\<lambda>m. (probe_ir op d s1)\<lparr>src2 := ucast s2, modulus := Some (ucast m)\<rparr>) q"

definition probe_emit_ps_idx :: "u8 \<Rightarrow> u64 \<Rightarrow> u64 \<Rightarrow> u64 \<Rightarrow> u32 \<Rightarrow> TraceWriter \<Rightarrow> TraceWriter" where
  "probe_emit_ps_idx op d s1 imm m =
     emit ((probe_ir op d s1)\<lparr>immediate := Some imm, modulus := Some (ucast m)\<rparr>)"

definition probe_emit_ps :: "u8 \<Rightarrow> u64 \<Rightarrow> u64 \<Rightarrow> u64 \<Rightarrow> u64 \<Rightarrow> TraceWriter \<Rightarrow> TraceWriter" where
  "probe_emit_ps op d s1 imm q t =
     (let (m, t') = register_modulus q t in probe_emit_ps_idx op d s1 imm m t')"

section \<open>Recording control\<close>

definition cprobe_pause_recording :: "'h Client \<Rightarrow> 'h Client" where
  "cprobe_pause_recording c =
     (let c1 = on_probes (\<lambda>p. p\<lparr>pr_hollow_before_pause := cc_hollow_mode (w_impl (cl_world c))\<rparr>) c;
          w1 = on_impl (\<lambda>i. snd (enable_hollow_mode False i)) (cl_world c1)
      in c1\<lparr>cl_world := snd (pause w1)\<rparr>)"

definition cprobe_resume_recording :: "'h Client \<Rightarrow> 'h Client" where
  "cprobe_resume_recording c =
     (let w1 = snd (resume (cl_world c))
      in c\<lparr>cl_world := on_impl (\<lambda>i. snd (enable_hollow_mode (pr_hollow_before_pause (cl_probes c)) i)) w1\<rparr>)"

definition cprobe_annotate :: "thread \<Rightarrow> string \<Rightarrow> 'h Client \<Rightarrow> 'h Client" where
  "cprobe_annotate th annotation c =
     (if \<not> should_record th c then c else on_trace (comment_line annotation) c)"

definition openfhe_suppress_probes :: "int \<Rightarrow> 'h Client \<Rightarrow> 'h Client" where
  "openfhe_suppress_probes suppress = on_probes (\<lambda>p. p\<lparr>pr_suppressed := (suppress \<noteq> 0)\<rparr>)"

definition cprobe_set_serialization_thread :: "thread \<Rightarrow> bool \<Rightarrow> 'h Client \<Rightarrow> 'h Client" where
  "cprobe_set_serialization_thread th is_serialization =
     on_probes (\<lambda>p. p\<lparr>pr_serializing :=
       (if is_serialization then insert th (pr_serializing p) else pr_serializing p - {th})\<rparr>)"

section \<open>Identities\<close>

text \<open>\<open>unordered_map::emplace\<close>: an identity that is known keeps its count.\<close>

definition cprobe_id :: "u64 \<Rightarrow> 'h Client \<Rightarrow> 'h Client" where
  "cprobe_id poly_id =
     on_probes (\<lambda>p. if pr_refcount p poly_id = None
                    then p\<lparr>pr_refcount := (pr_refcount p)(poly_id \<mapsto> 1)\<rparr> else p)"

text \<open>
  The probes that only give an identity its address: \<open>address\<close>, \<open>result\<close>, \<open>max\<close>, \<open>input\<close>, \<open>output\<close>
  and \<open>key\<close>.
\<close>

definition touch_address :: "thread \<Rightarrow> u64 \<Rightarrow> 'h Client \<Rightarrow> 'h Client" where
  "touch_address th poly_id c =
     (if should_record th c then on_probes (\<lambda>p. snd (map_address poly_id p)) c else c)"

definition cprobe_address :: "thread \<Rightarrow> u64 \<Rightarrow> 'h Client \<Rightarrow> 'h Client" where
  "cprobe_address = touch_address"

definition cprobe_result :: "thread \<Rightarrow> u64 \<Rightarrow> 'h Client \<Rightarrow> 'h Client" where
  "cprobe_result = touch_address"

definition cprobe_max :: "thread \<Rightarrow> u64 \<Rightarrow> 'h Client \<Rightarrow> 'h Client" where
  "cprobe_max = touch_address"

definition cprobe_input :: "thread \<Rightarrow> u64 \<Rightarrow> 'h Client \<Rightarrow> 'h Client" where
  "cprobe_input = touch_address"

definition cprobe_output :: "thread \<Rightarrow> u64 \<Rightarrow> 'h Client \<Rightarrow> 'h Client" where
  "cprobe_output = touch_address"

definition cprobe_key :: "thread \<Rightarrow> u64 \<Rightarrow> 'h Client \<Rightarrow> 'h Client" where
  "cprobe_key = touch_address"

definition pin_openfhe_id :: "u64 \<Rightarrow> 'h Client \<Rightarrow> 'h Client" where
  "pin_openfhe_id poly_id = on_probes (\<lambda>p. p\<lparr>pr_pinned := insert poly_id (pr_pinned p)\<rparr>)"

text \<open>The four random distributions: the data is not reproducible, so the identity is pinned.\<close>

definition cprobe_random :: "thread \<Rightarrow> u64 \<Rightarrow> 'h Client \<Rightarrow> 'h Client" where
  "cprobe_random th poly_id c = touch_address th poly_id (pin_openfhe_id poly_id c)"

definition cprobe_precompute :: "u64 \<Rightarrow> 'h Client \<Rightarrow> 'h Client" where
  "cprobe_precompute poly_id c =
     pin_openfhe_id poly_id
       (on_probes (\<lambda>p. p\<lparr>pr_precompute_count := pr_precompute_count p + 1,
                        pr_precompute_mapped := (if pr_address_map p poly_id \<noteq> None
                          then pr_precompute_mapped p + 1 else pr_precompute_mapped p)\<rparr>) c)"

definition cprobe_zero :: "thread \<Rightarrow> u64 \<Rightarrow> u64 \<Rightarrow> 'h Client \<Rightarrow> 'h Client" where
  "cprobe_zero th poly_id q c =
     (if \<not> should_record th c then c
      else
        let (a, p) = map_address poly_id (cl_probes c);
            c1 = c\<lparr>cl_probes := p\<rparr>;
            c2 = (if q \<noteq> 0 then on_trace (probe_emit_ps FH_SR_MULPS a a 0 q) c1
                  else on_trace (probe_emit_ps_idx FH_SR_MULPS a a 0 COPY_MODULUS_INDEX) c1)
        in on_probes (invalidate_clone_parent_on_write a) c2)"

definition cprobe_copy :: "thread \<Rightarrow> u64 \<Rightarrow> u64 \<Rightarrow> 'h Client \<Rightarrow> 'h Client" where
  "cprobe_copy th dst_id src_id c =
     (if th \<in> pr_serializing (cl_probes c) then c
      else if \<not> should_record th c then c
      else
        let (src_addr, p1) = map_address src_id (cl_probes c);
            (dst_addr, p2) = map_address dst_id p1;
            p3 = p2\<lparr>pr_data_parent := (pr_data_parent p2)(dst_addr \<mapsto> src_addr)\<rparr>
        in on_trace (probe_emit_ps_idx FH_SR_ADDPS dst_addr src_addr 0 COPY_MODULUS_INDEX) (c\<lparr>cl_probes := p3\<rparr>))"

definition cprobe_move :: "thread \<Rightarrow> u64 \<Rightarrow> u64 \<Rightarrow> 'h Client \<Rightarrow> 'h Client" where
  "cprobe_move th dst_id src_id c =
     (if th \<in> pr_serializing (cl_probes c) then c
      else if \<not> should_record th c then c
      else
        let (src_addr, p) = map_address src_id (cl_probes c)
        in c\<lparr>cl_probes := p\<lparr>pr_address_map := (pr_address_map p)(dst_id \<mapsto> src_addr)\<rparr>\<rparr>)"

text \<open>
  Copy assignment: the source gains a reference, the old identity of the destination loses one, and with
  its last one its address goes to the pool unless the identity is pinned.
\<close>

definition release_address :: "u64 \<Rightarrow> Probes \<Rightarrow> Probes" where
  "release_address dst_old p =
     (if dst_old \<in> pr_pinned p then p
      else case pr_address_map p dst_old of
             None \<Rightarrow> p
           | Some addr \<Rightarrow>
               p\<lparr>pr_free_pool := pr_free_pool p @ [addr], pr_data_parent := (pr_data_parent p)(addr := None),
                 pr_address_map := (pr_address_map p)(dst_old := None)\<rparr>)"

definition reassign_probes :: "u64 \<Rightarrow> u64 \<Rightarrow> Probes \<Rightarrow> Probes" where
  "reassign_probes dst_old src p0 =
     (let p = p0\<lparr>pr_refcount := (pr_refcount p0)(src \<mapsto> (case pr_refcount p0 src of None \<Rightarrow> 0 | Some n \<Rightarrow> n) + 1)\<rparr>
      in case pr_refcount p dst_old of
           None \<Rightarrow> p
         | Some n \<Rightarrow>
             if n - 1 = 0
             then release_address dst_old (p\<lparr>pr_refcount := (pr_refcount p)(dst_old := None)\<rparr>)
             else p\<lparr>pr_refcount := (pr_refcount p)(dst_old \<mapsto> n - 1)\<rparr>)"

definition cprobe_reassign_id :: "u64 \<Rightarrow> u64 \<Rightarrow> 'h Client \<Rightarrow> 'h Client" where
  "cprobe_reassign_id dst_old src = on_probes (reassign_probes dst_old src)"

definition cprobe_free :: "u64 \<Rightarrow> 'h Client \<Rightarrow> 'h Client" where
  "cprobe_free poly_id c = c"

section \<open>Arithmetic\<close>

text \<open>The two-source probes: the first source may be read through the copy it was made from.\<close>

definition cprobe_binary :: "u8 \<Rightarrow> thread \<Rightarrow> u64 \<Rightarrow> u64 \<Rightarrow> u64 \<Rightarrow> u64 \<Rightarrow> 'h Client \<Rightarrow> 'h Client" where
  "cprobe_binary op th dst src1_id src2_id q c =
     (if \<not> should_record th c then c
      else
        let (da, p1) = map_address dst (cl_probes c);
            (a1, p2) = map_address src1_id p1;
            s1 = resolve_inplace_src a1 da p2;
            (s2, p3) = map_address src2_id p2
        in on_probes (invalidate_clone_parent_on_write da)
             (on_trace (probe_emit_pp op da s1 s2 q) (c\<lparr>cl_probes := p3\<rparr>)))"

definition cprobe_add :: "thread \<Rightarrow> u64 \<Rightarrow> u64 \<Rightarrow> u64 \<Rightarrow> u64 \<Rightarrow> 'h Client \<Rightarrow> 'h Client" where
  "cprobe_add = cprobe_binary FH_SR_ADDP"

definition cprobe_sub :: "thread \<Rightarrow> u64 \<Rightarrow> u64 \<Rightarrow> u64 \<Rightarrow> u64 \<Rightarrow> 'h Client \<Rightarrow> 'h Client" where
  "cprobe_sub = cprobe_binary FH_SR_SUBP"

definition cprobe_mul :: "thread \<Rightarrow> u64 \<Rightarrow> u64 \<Rightarrow> u64 \<Rightarrow> u64 \<Rightarrow> 'h Client \<Rightarrow> 'h Client" where
  "cprobe_mul = cprobe_binary FH_SR_MULP"

text \<open>
  The one-source probes: the instruction is built from the two addresses and the index of the modulus.
\<close>

definition cprobe_unary ::
  "(u64 \<Rightarrow> u64 \<Rightarrow> u32 \<Rightarrow> Instruction) \<Rightarrow> thread \<Rightarrow> u64 \<Rightarrow> u64 \<Rightarrow> u64 \<Rightarrow> 'h Client \<Rightarrow> 'h Client" where
  "cprobe_unary inst th dst src_id q c =
     (if \<not> should_record th c then c
      else
        let (da, p1) = map_address dst (cl_probes c);
            (a1, p2) = map_address src_id p1;
            sa = resolve_inplace_src a1 da p2
        in on_probes (invalidate_clone_parent_on_write da)
             (on_trace (emit_indexed (inst da sa) q) (c\<lparr>cl_probes := p2\<rparr>)))"

definition cprobe_imm :: "u8 \<Rightarrow> thread \<Rightarrow> u64 \<Rightarrow> u64 \<Rightarrow> u64 \<Rightarrow> u64 \<Rightarrow> 'h Client \<Rightarrow> 'h Client" where
  "cprobe_imm op th dst src_id imm q =
     cprobe_unary (\<lambda>d s m. (probe_ir op d s)\<lparr>immediate := Some imm, modulus := Some (ucast m)\<rparr>) th dst src_id q"

definition cprobe_addi :: "thread \<Rightarrow> u64 \<Rightarrow> u64 \<Rightarrow> u64 \<Rightarrow> u64 \<Rightarrow> 'h Client \<Rightarrow> 'h Client" where
  "cprobe_addi = cprobe_imm FH_SR_ADDPS"

definition cprobe_subi :: "thread \<Rightarrow> u64 \<Rightarrow> u64 \<Rightarrow> u64 \<Rightarrow> u64 \<Rightarrow> 'h Client \<Rightarrow> 'h Client" where
  "cprobe_subi = cprobe_imm FH_SR_SUBPS"

definition cprobe_muli :: "thread \<Rightarrow> u64 \<Rightarrow> u64 \<Rightarrow> u64 \<Rightarrow> u64 \<Rightarrow> 'h Client \<Rightarrow> 'h Client" where
  "cprobe_muli = cprobe_imm FH_SR_MULPS"

text \<open>Multiply and accumulate, with a scratch address that goes back to the pool.\<close>

definition cprobe_multacceq ::
  "thread \<Rightarrow> u64 \<Rightarrow> u64 \<Rightarrow> u64 \<Rightarrow> u64 \<Rightarrow> u64 \<Rightarrow> u64 \<Rightarrow> 'h Client \<Rightarrow> 'h Client" where
  "cprobe_multacceq th dst src_acc src_mul imm0 src_modulus q c =
     (if \<not> should_record th c then c
      else
        let imm = (if q \<noteq> 0 then imm0 mod q else imm0);
            (da, p1) = map_address dst (cl_probes c);
            (a1, p2) = map_address src_acc p1;
            acc = resolve_inplace_src a1 da p2;
            (sm, p3) = map_address src_mul p2;
            (tmp, p4) = fresh_address p3;
            c1 = on_trace (probe_emit_ps FH_SR_MULPS tmp sm imm q) (c\<lparr>cl_probes := p4\<rparr>);
            c2 = on_trace (probe_emit_pp FH_SR_ADDP da acc tmp q) c1
        in on_probes (\<lambda>p. invalidate_clone_parent_on_write da (p\<lparr>pr_free_pool := pr_free_pool p @ [tmp]\<rparr>)) c2)"

definition cprobe_transform :: "u8 \<Rightarrow> thread \<Rightarrow> u64 \<Rightarrow> u64 \<Rightarrow> u64 \<Rightarrow> u64 \<Rightarrow> 'h Client \<Rightarrow> 'h Client" where
  "cprobe_transform op th dst src_id q omg =
     cprobe_unary (\<lambda>d s m. (probe_ir op d s)\<lparr>modulus := Some (ucast m), omega := Some omg\<rparr>) th dst src_id q"

definition cprobe_ntt :: "thread \<Rightarrow> u64 \<Rightarrow> u64 \<Rightarrow> u64 \<Rightarrow> u64 \<Rightarrow> 'h Client \<Rightarrow> 'h Client" where
  "cprobe_ntt = cprobe_transform FH_SR_NTT"

definition cprobe_intt :: "thread \<Rightarrow> u64 \<Rightarrow> u64 \<Rightarrow> u64 \<Rightarrow> u64 \<Rightarrow> 'h Client \<Rightarrow> 'h Client" where
  "cprobe_intt = cprobe_transform FH_SR_INTT"

definition cprobe_automorphism ::
  "thread \<Rightarrow> u64 \<Rightarrow> u64 \<Rightarrow> u64 \<Rightarrow> u64 \<Rightarrow> u64 \<Rightarrow> u64 \<Rightarrow> 'h Client \<Rightarrow> 'h Client" where
  "cprobe_automorphism th dst src_id q msk lgn gk =
     cprobe_unary (\<lambda>d s m. (probe_ir FH_SR_AUTOMORPH_EVAL d s)\<lparr>modulus := Some (ucast m), mask_op := Some msk,
       logn := Some (ucast lgn), k_op := Some gk\<rparr>) th dst src_id q"

text \<open>A remainder by a zero modulus is undefined: an error.\<close>

definition cprobe_switchmodulus ::
  "thread \<Rightarrow> u64 \<Rightarrow> u64 \<Rightarrow> u64 \<Rightarrow> u64 \<Rightarrow> 'h Client \<Rightarrow> cpp_error + 'h Client" where
  "cprobe_switchmodulus th dst src_id old_modulus new_modulus c =
     (if \<not> should_record th c then Inr c
      else if new_modulus = 0 then Inl DivisionByZero
      else
        let half_om = drop_bit 1 (old_modulus - 1);
            x = half_om mod new_modulus;
            neg_half = (if x = 0 then 0 else new_modulus - x);
            (d, p1) = map_address dst (cl_probes c);
            (s, p2) = map_address src_id p1;
            text = ''switchmodulus %'' @ to_string_nat (unat d) @ '', %'' @ to_string_nat (unat s) @
              '', old_mod='' @ to_string_nat (unat old_modulus) @ '', new_mod='' @ to_string_nat (unat new_modulus)
        in Inr (on_probes (invalidate_clone_parent_on_write d)
             (on_trace (\<lambda>t. probe_emit_ps FH_SR_ADDPS d d neg_half new_modulus
                (probe_emit_ps FH_SR_MULPS d d 1 new_modulus
                (probe_emit_ps FH_SR_ADDPS d d half_om old_modulus
                (probe_emit_ps FH_SR_MULPS d s 1 old_modulus (comment_line text t)))))
             (c\<lparr>cl_probes := p2\<rparr>))))"

section \<open>What the session asks of the probes\<close>

definition lookup_fhetch_address :: "u64 \<Rightarrow> Probes \<Rightarrow> u64" where
  "lookup_fhetch_address openfhe_id p =
     (case pr_address_map p openfhe_id of Some a \<Rightarrow> a | None \<Rightarrow> - 1)"

definition ensure_fhetch_address :: "u64 \<Rightarrow> 'h Client \<Rightarrow> u64 \<times> 'h Client" where
  "ensure_fhetch_address openfhe_id c =
     (let (a, p) = map_address openfhe_id (cl_probes c) in (a, c\<lparr>cl_probes := p\<rparr>))"

definition reserve_fhetch_addresses :: "u64 \<Rightarrow> 'h Client \<Rightarrow> 'h Client" where
  "reserve_fhetch_addresses next_addr = on_probes (\<lambda>p. p\<lparr>pr_next_addr := max next_addr (pr_next_addr p)\<rparr>)"

end
