(* ===== verification/SessionProps.thy ===== *)
theory SessionProps
  imports Session
begin

text \<open>
  Properties of the recording session: the command line, the inverse chain, the invariant over every
  reachable state, and what stopping leaves behind.
\<close>

unbundle bit_operations_syntax

section \<open>The inverse of a modulus\<close>

lemma hensel_test: "(drop_bit i (x :: u64) AND 1 \<noteq> 0) = odd (unat x div 2 ^ i)"
proof -
  have "(drop_bit i x AND 1 \<noteq> 0) = bit x i"
    by (simp add: and_one_eq bit_iff_odd_drop_bit odd_iff_mod_2_eq_one)
  also have "\<dots> = bit (unat x) i" by (simp add: bit_unsigned_iff)
  finally show ?thesis by (simp add: bit_iff_odd)
qed

lemma unat_or_bit:
  assumes "unat (n :: u64) < 2 ^ i" "i < 64"
  shows "unat (n OR push_bit i 1) = unat n + 2 ^ i"
proof -
  have "n AND push_bit i 1 = 0"
  proof (rule bit_eqI)
    fix k
    have "\<not> bit n i" using take_bit_small [OF assms(1)] by (metis bit_take_bit_iff less_irrefl)
    then show "bit (n AND push_bit i 1) k = bit 0 k" by (auto simp: bit_and_iff bit_push_bit_iff bit_1_iff bit_exp_iff)
  qed
  then have "n OR push_bit i 1 = n + 2 ^ i" by (simp add: disjunctive_add_eq_or push_bit_eq_mult)
  moreover have "unat n + 2 ^ i < 2 ^ 64"
  proof -
    have "unat n + 2 ^ i < 2 ^ Suc i" using assms(1) by simp
    also have "\<dots> \<le> 2 ^ 64" using assms(2) by (intro power_increasing) auto
    finally show ?thesis .
  qed
  moreover have "unat (2 ^ i :: u64) = 2 ^ i"
    using unat_of_nat_small [where 'a = 64, of "2 ^ i"] power_strict_increasing [OF assms(2), of "2 :: nat"] by simp
  ultimately show ?thesis by (simp add: unat_word_ariths)
qed

lemma hensel_step_inverts:
  assumes q: "odd (unat q)" and m: "0 < m" "m < 64" and n: "unat n < 2 ^ m" "unat q * unat n mod 2 ^ m = 1"
  shows "unat (hensel_step q m n) < 2 ^ Suc m \<and> unat q * unat (hensel_step q m n) mod 2 ^ Suc m = 1"
proof -
  let ?Q = "unat q" and ?n = "unat n"
  have two: "(2 :: nat) \<le> 2 ^ m" using m(1) by (cases m) simp_all
  have "unat (q * n) = take_bit 64 (?Q * ?n)" by (simp add: unat_word_ariths take_bit_eq_mod)
  then have b: "odd (unat (q * n) div 2 ^ m) = odd (?Q * ?n div 2 ^ m)"
    using m(2) by (simp only: bit_iff_odd [symmetric] bit_take_bit_iff simp_thms)
  have split: "?Q * ?n mod 2 ^ Suc m = 2 ^ m * (?Q * ?n div 2 ^ m mod 2) + 1"
    using n(2) by (simp add: mod_mult2_eq [of _ "2 ^ m" 2, simplified mult.commute] mult.commute)
  show ?thesis
  proof (cases "odd (?Q * ?n div 2 ^ m)")
    case True
    then have h: "unat (hensel_step q m n) = ?n + 2 ^ m"
      using b unat_or_bit [OF n(1) m(2)] by (simp add: hensel_step_def hensel_test)
    obtain k where k: "?Q = 2 * k + 1" using q by (elim oddE)
    have "?Q * (?n + 2 ^ m) = ?Q * ?n + 2 ^ m + k * 2 ^ Suc m" by (simp add: k algebra_simps)
    then have "?Q * (?n + 2 ^ m) mod 2 ^ Suc m = (?Q * ?n mod 2 ^ Suc m + 2 ^ m) mod 2 ^ Suc m"
      by (simp only: mod_mult_self1 mod_add_left_eq)
    also have "?Q * ?n mod 2 ^ Suc m = 2 ^ m + 1"
      using True split by (simp only: odd_iff_mod_2_eq_one mult_1_right)
    also have "(2 ^ m + 1 + 2 ^ m) mod 2 ^ Suc m = (2 ^ Suc m + 1) mod (2 ^ Suc m :: nat)"
      by (simp add: mult_2)
    also have "\<dots> = 1 mod 2 ^ Suc m" by (rule mod_add_self1)
    also have "\<dots> = 1" using two by (intro mod_less) simp
    finally show ?thesis using h n(1) by simp
  next
    case False
    then show ?thesis
      using b n(1) split by (simp add: hensel_step_def hensel_test even_iff_mod_2_eq_zero)
  qed
qed

lemma hensel_inverts: "odd (unat q) \<Longrightarrow> q * hensel_inverse q = 1"
proof -
  assume q: "odd (unat q)"
  have "0 < m \<Longrightarrow> m \<le> 64 \<Longrightarrow> unat (fold (hensel_step q) [1..<m] 1) < 2 ^ m \<and>
      unat q * unat (fold (hensel_step q) [1..<m] 1) mod 2 ^ m = 1" for m
  proof (induction m)
    case (Suc m)
    show ?case
    proof (cases "m = 0")
      case True
      then show ?thesis using q by (simp add: odd_iff_mod_2_eq_one)
    next
      case False
      then show ?thesis using Suc hensel_step_inverts [OF q, of m "fold (hensel_step q) [1..<m] 1"] by simp
    qed
  qed simp
  from this [of 64] have "unat (q * hensel_inverse q) = 1"
    by (simp add: hensel_inverse_def unat_word_ariths)
  then show ?thesis by (metis unat_1 word_unat_eq_iff)
qed

lemma compatible_prime_odd: "is_compatible_prime q \<Longrightarrow> odd (unat q)"
proof -
  assume "is_compatible_prime q"
  then have "bit (q AND 0xFFFF) 0 = bit (1 :: u64) 0" by (simp add: is_compatible_prime_def)
  then have "bit (unat q) 0" by (simp add: bit_and_iff bit_unsigned_iff)
  then show ?thesis by (simp add: bit_0)
qed

lemma inverse_chain_loop_Inr:
  "fst (inverse_chain_loop check qs inverses) = Inr () \<Longrightarrow>
     snd (inverse_chain_loop check qs inverses) = inverses @ map hensel_inverse qs \<and>
     (check \<longrightarrow> list_all is_compatible_prime qs)"
  by (induction qs arbitrary: inverses) (auto split: if_splits)



end
