(* ===== verification/SessionInv.thy ===== *)
theory SessionInv
  imports SessionProps
begin

text \<open>
  The reachable states of a session: the steps a client can take, as a relation, and the invariant
  every reachable state keeps.  \<open>reset\<close> is a step when no recording runs; what it does to a running
  one is stated on its own.
\<close>

section \<open>Steps\<close>

text \<open>The setters of the session that leave the recording alone.\<close>

inductive impl_update :: "'h CompilerImpl \<Rightarrow> 'h CompilerImpl \<Rightarrow> bool" where
  "impl_update c (cache_parameters ps c)"
| "impl_update c (set_program_directory dir c)"
| "compiler_set_ring_dimension N c = Inr c' \<Longrightarrow> impl_update c c'"
| "impl_update c (snd (set_crypto_context_info scm d sc sec qs c))"
| "impl_update c (set_key_start_addr_id key a c)"
| "impl_update c (snd (enable_hollow_mode b c))"
| "impl_update c (enable_multithreaded_recording c)"
| "impl_update c (enable_input_streaming b c)"
| "impl_update c (release_openfhe_data_at_replay b c)"
| "impl_update c (set_fhetch_mode c)"
| "impl_update c (set_auto_capture_at_stop h c)"
| "impl_update c (set_auto_capture_bootstrap_precompute b c)"
| "impl_update c (set_post_recording_hook h c)"
| "impl_update c (c\<lparr>cc_captured := clear_captured_inputs (cc_captured c)\<rparr>)"
| "impl_update c (c\<lparr>cc_captured := clear_captured_outputs (cc_captured c)\<rparr>)"
| "impl_update c (c\<lparr>cc_captured := clear_captured (cc_captured c)\<rparr>)"
| "store_call nd (cc_input_streaming c) x (cc_captured c) = Inr cap \<Longrightarrow> impl_update c (c\<lparr>cc_captured := cap\<rparr>)"

inductive session_step :: "session_env \<Rightarrow> 'h hooks \<Rightarrow> 'h World \<Rightarrow> 'h World \<Rightarrow> bool"
  for env :: session_env and hooks :: "'h hooks" where
  step_init: "session_step env hooks w (snd (init argv w))"
| step_start: "session_step env hooks w (snd (start w))"
| step_stop: "session_step env hooks w (snd (stop env hooks w))"
| step_pause: "session_step env hooks w (snd (pause w))"
| step_resume: "session_step env hooks w (snd (resume w))"
| step_stop_epoch: "fst (stop_epoch env w) = Inr r \<Longrightarrow> session_step env hooks w (snd (stop_epoch env w))"
| step_reset: "\<not> cc_running (w_impl w) \<Longrightarrow> session_step env hooks w (reset w)"
| step_program_info: "session_step env hooks w (compiler_set_program_info nm ver desc w)"
| step_build_info: "session_step env hooks w (set_build_info file line timestamp w)"
| step_update: "impl_update (w_impl w) c \<Longrightarrow> session_step env hooks w (w\<lparr>w_impl := c\<rparr>)"
| step_sync: "session_step env hooks w (snd (sync_world nd w))"
| step_emit: "session_step env hooks w (on_writer (emit i) w)"
| step_comment: "session_step env hooks w (on_writer (comment_line text) w)"
| step_register: "length (tw_modulus_table (w_writer w)) + 1 < 2 ^ 32 \<Longrightarrow>
    session_step env hooks w (on_writer (\<lambda>t. snd (register_modulus q t)) w)"
| step_api: "as_writer api = w_writer w \<Longrightarrow> session_step env hooks w (w\<lparr>w_api := api\<rparr>)"

section \<open>The invariant\<close>

definition writer_ok :: "bool \<Rightarrow> TraceWriter \<Rightarrow> bool" where
  "writer_ok running t \<longleftrightarrow> tw_inv t \<and> length (tw_modulus_table t) < 2 ^ 32 \<and>
     (tw_recording t \<longleftrightarrow> running) \<and> (tw_paused t \<longrightarrow> running)"

definition opt_levels :: "string set" where
  "opt_levels = {''O0'', ''O1'', ''O2'', ''O3''}"

definition session_ok :: "'h World \<Rightarrow> bool" where
  "session_ok w \<longleftrightarrow>
     writer_ok (cc_running (w_impl w)) (w_writer w) \<and>
     \<not> (cc_running (w_impl w) \<and> cc_stopped (w_impl w)) \<and>
     capture_ok (cc_captured (w_impl w)) \<and>
     cc_opt_level (w_impl w) \<in> opt_levels"

lemma writer_ok_setters:
  assumes "writer_ok b t"
  shows "writer_ok b (set_program_info n v d t)" "writer_ok b (set_source_info f l s t)"
    "writer_ok b (set_trace_format fmt t)" "writer_ok True (start_recording t)" "writer_ok False (stop_recording t)"
    "b \<Longrightarrow> writer_ok b (pause_recording t)" "writer_ok b (resume_recording t)"
    "writer_ok b (emit i t)" "writer_ok b (comment_line text t)"
  using assms
  by (auto simp: writer_ok_def tw_setter_defs tw_inv_def annotations_ok_def emit_eq comment_line_def sorted_append)

lemma writer_ok_clear: "writer_ok b t \<Longrightarrow> writer_ok b (tw_clear t)"
  using tw_exec_inv [of t Clear] by (auto simp: writer_ok_def tw_clear_def)

lemma writer_ok_register:
  assumes "writer_ok b t" "length (tw_modulus_table t) + 1 < 2 ^ 32"
  shows "writer_ok b (snd (register_modulus q t))"
  using tw_exec_inv [of t "RegisterModulus q"] register_modulus_frame [of q t] assms
  by (cases "register_modulus q t") (auto simp: writer_ok_def)

lemma normalize_flags:
  "tw_recording (normalize_modulus_table_locked t) = tw_recording t"
  "tw_paused (normalize_modulus_table_locked t) = tw_paused t"
  by (simp_all add: normalize_modulus_table_locked_def Let_def split: prod.split)

lemma writer_ok_normalize:
  assumes "writer_ok b t"
  shows "writer_ok b (normalize_modulus_table_locked t)"
proof -
  have inv: "tw_inv t" "length (tw_modulus_table t) < 2 ^ 32" using assms by (simp_all add: writer_ok_def)
  have "length (tw_modulus_table (normalize_modulus_table_locked t)) = length (tw_modulus_table t)"
    using normalize_moduli [OF inv(1), unfolded normalize_modulus_table_def] by (auto dest: mset_eq_length)
  then show ?thesis
    using assms tw_exec_inv [OF inv, of Normalize]
    by (simp add: writer_ok_def normalize_modulus_table_def normalize_flags)
qed

lemma tw_write_writer: "snd (tw_write h env t) = normalize_modulus_table_locked t"
  by (simp add: tw_write_def Let_def)

section \<open>Every step keeps it\<close>

lemma on_writer_sel [simp]:
  "w_impl (on_writer f w) = w_impl w" "w_writer (on_writer f w) = f (w_writer w)"
  by (simp_all add: on_writer_def)

lemma on_impl_sel [simp]: "w_impl (on_impl f w) = f (w_impl w)" "w_api (on_impl f w) = w_api w"
  by (simp_all add: on_impl_def)

lemma api_writer [simp]:
  "as_writer (reset_for_epoch s) = as_writer s" "as_writer (clear_recording_registries s) = as_writer s"
  by (simp_all add: reset_for_epoch_def rearm_fhetch_sync_def clear_recording_registries_def)

lemma digit_level:
  "length x = 1 \<and> hd x \<in> {CHR ''0'', CHR ''1'', CHR ''2'', CHR ''3''} \<longleftrightarrow>
     x \<in> {''0'', ''1'', ''2'', ''3''}" for x :: string
proof (cases x)
  case (Cons y ys)
  show ?thesis
  proof (cases "ys = []")
    case True
    then show ?thesis using Cons by simp
  next
    case False
    then show ?thesis using Cons by auto
  qed
qed simp

lemma normalize_opt_level_range: "normalize_opt_level v = [] \<or> normalize_opt_level v \<in> opt_levels"
  unfolding normalize_opt_level_def Let_def digit_level opt_levels_def by auto

text \<open>What the command line may change.\<close>

definition same_session :: "'h CompilerImpl \<Rightarrow> 'h CompilerImpl \<Rightarrow> bool" where
  "same_session c c' \<longleftrightarrow> cc_running c' = cc_running c \<and> cc_stopped c' = cc_stopped c \<and>
     (capture_ok (cc_captured c) \<longrightarrow> capture_ok (cc_captured c')) \<and>
     (cc_opt_level c \<in> opt_levels \<longrightarrow> cc_opt_level c' \<in> opt_levels)"

lemma same_session_trans: "same_session a b \<Longrightarrow> same_session b c \<Longrightarrow> same_session a c"
  by (auto simp: same_session_def)

lemma same_session_opt: "same_session c (set_opt_level v c)"
  using normalize_opt_level_range [of v] by (auto simp: same_session_def set_opt_level_def Let_def)

lemma same_session_flags:
  "same_session c (c\<lparr>cc_hollow_mode := a\<rparr>)" "same_session c (c\<lparr>cc_multithreaded := a\<rparr>)"
  "same_session c (c\<lparr>cc_target := s\<rparr>)" "same_session c (c\<lparr>cc_trace_format := fmt\<rparr>)"
  "same_session c (c\<lparr>cc_montgomery_mode := a\<rparr>)" "same_session c (c\<lparr>cc_bitrev_mode := a\<rparr>)"
  "same_session c (c\<lparr>cc_montgomery_mode := a, cc_bitrev_mode := b\<rparr>)"
  "same_session c (c\<lparr>cc_verbose := a\<rparr>)" "same_session c (c\<lparr>cc_check_primes := a\<rparr>)"
  "same_session c (c\<lparr>cc_check_ring_dim := a\<rparr>)" "same_session c c"
  by (simp_all add: same_session_def)

lemma snd_keep: "snd (let (kept, c') = p in (a # kept, c')) = snd p"
  by (simp add: split_beta)

lemma same_session_if: "same_session c x \<Longrightarrow> same_session c y \<Longrightarrow> same_session c (if b then x else y)"
  by simp

lemma init_loop_same: "same_session c (snd (init_loop args c))"
proof (induction args arbitrary: c rule: length_induct)
  case (1 args)
  show ?case
  proof (cases args)
    case (Cons a rest)
    have ih: "same_session d (snd (init_loop rest d))" "same_session d (snd (init_loop (tl rest) d))" for d :: "'a CompilerImpl"
      using 1 Cons by simp_all
    note steps = same_session_trans [OF _ ih(1)] same_session_trans [OF _ ih(2)]
    show ?thesis
      unfolding Cons init_loop.simps if_distrib [of snd] snd_keep
      by (intro same_session_if steps same_session_flags same_session_opt)
  qed (simp add: same_session_flags)
qed

lemma clear_captured_ok:
  "capture_ok c \<Longrightarrow> capture_ok (clear_captured_inputs c)" "capture_ok c \<Longrightarrow> capture_ok (clear_captured_outputs c)"
  "capture_ok (clear_captured c)"
  by (simp_all add: capture_ok_def clear_captured_def clear_captured_inputs_def clear_captured_outputs_def index_ok_def)

lemma impl_update_same: "impl_update c c' \<Longrightarrow> same_session c c'"
proof (induction rule: impl_update.induct)
  case (3 N c c')
  then show ?case by (auto simp: same_session_def compiler_set_ring_dimension_def split: if_splits)
next
  case (17 nd c x cap)
  then show ?case using store_call_ok by (auto simp: same_session_def)
qed (auto simp: same_session_def cache_parameters_def set_program_directory_def set_crypto_context_info_def
    set_key_start_addr_id_def enable_hollow_mode_def enable_multithreaded_recording_def enable_input_streaming_def
    release_openfhe_data_at_replay_def set_fhetch_mode_def set_auto_capture_at_stop_def
    set_auto_capture_bootstrap_precompute_def set_post_recording_hook_def clear_captured_ok split: prod.split)

lemma session_ok_update:
  "session_ok w \<Longrightarrow> same_session (w_impl w) c \<Longrightarrow> session_ok (w\<lparr>w_impl := c\<rparr>)"
  by (auto simp: session_ok_def same_session_def)

lemma same_session_init: "same_session (w_impl w) (w_impl (snd (init argv w)))"
  using init_loop_same [of "w_impl w" "tl argv"] by (simp add: init_def split_beta)

lemma sync_api_writer:
  "sync_fhetch_state_to_compiler nd st s c = (r, s', c') \<Longrightarrow>
     as_writer s' = as_writer s \<and> (capture_ok c \<longrightarrow> capture_ok c')"
  using run_steps_keeps [of c nd st "sync_steps s"]
  by (auto simp: sync_fhetch_state_to_compiler_def split: if_splits prod.splits)

lemma sync_world_frame:
  "sync_world nd w = (r, w') \<Longrightarrow>
     w_writer w' = w_writer w \<and> same_session (w_impl w) (w_impl w') \<and>
     w_impl w' = (w_impl w)\<lparr>cc_captured := cc_captured (w_impl w')\<rparr>"
  using sync_api_writer by (auto simp: sync_world_def same_session_def split: prod.splits)

lemma session_okI:
  assumes "session_ok w" "same_session (w_impl w) (w_impl w')"
    and "writer_ok (cc_running (w_impl w)) (w_writer w')"
  shows "session_ok w'"
  using assms by (auto simp: session_ok_def same_session_def)

lemma session_ok_init: "session_ok World_init"
  by (simp add: session_ok_def World_init_def CompilerImpl_init_def ApiState_init_def writer_ok_def
      TraceWriter_ctor_def tw_inv_def annotations_ok_def table_ok_init capture_ok_def Captured_init_def
      index_ok_def opt_levels_def)

text \<open>Writing keeps the recorder's invariant and touches nothing else of the session.\<close>

lemma write_trace_frame:
  assumes "write_trace env dir nm w = (r, w')" "writer_ok b (w_writer w)"
  shows "w_impl w' = w_impl w \<and> writer_ok b (w_writer w')"
  using assms writer_ok_normalize tw_write_writer [of "se_host_le env" "se_write env dir nm" "w_writer w"]
  by (auto simp: write_trace_def split: prod.splits)

definition hooks_ok :: "'h hooks \<Rightarrow> bool" where
  "hooks_ok hooks \<longleftrightarrow> (\<forall>h w. session_ok w \<longrightarrow> session_ok (snd (hooks h w)))"

lemma run_hook_ok: "hooks_ok hooks \<Longrightarrow> session_ok w \<Longrightarrow> session_ok (snd (run_hook hooks h w))"
  by (auto simp: run_hook_def hooks_ok_def split: option.split)

lemma session_ok_auto_capture:
  "session_ok w \<Longrightarrow> session_ok (on_impl (\<lambda>c. c\<lparr>cc_auto_capture_at_stop := h\<rparr>) w)"
  by (simp add: session_ok_def)

lemma stop_hooks_ok:
  assumes "hooks_ok hooks" "session_ok w"
  shows "session_ok (snd (stop_hooks hooks w))"
proof (cases "run_hook hooks (cc_auto_capture_at_stop (w_impl w)) w")
  case (Pair r w1)
  then have "session_ok w1" using run_hook_ok [OF assms, of "cc_auto_capture_at_stop (w_impl w)"] by simp
  then show ?thesis
    using Pair run_hook_ok [OF assms(1)] session_ok_auto_capture
    by (auto simp: stop_hooks_def Let_def split: sum.split)
qed

text \<open>What \<open>stop\<close> and \<open>stop_epoch\<close> do to the recorder before they write.\<close>

lemma writer_ok_halt: "writer_ok b t \<Longrightarrow> writer_ok False (stop_recording (emit halt_instruction t))"
  by (rule writer_ok_setters(5)) (rule writer_ok_setters(8))

lemma session_ok_written:
  assumes w: "session_ok w" "cc_running (w_impl w)"
    and wt: "write_trace env dir nm
      (on_impl (\<lambda>c. c\<lparr>cc_running := False, cc_stopped := True\<rparr>)
        (on_writer (\<lambda>t. stop_recording (emit halt_instruction t)) w)) = (r, w')"
  shows "session_ok w' \<and> \<not> cc_running (w_impl w')"
proof -
  have "writer_ok False (stop_recording (emit halt_instruction (w_writer w)))"
    using w(1) unfolding session_ok_def by (elim conjE) (rule writer_ok_halt)
  then have "w_impl w' = (w_impl w)\<lparr>cc_running := False, cc_stopped := True\<rparr> \<and> writer_ok False (w_writer w')"
    using write_trace_frame [OF wt, of False] by (simp add: on_writer_def on_impl_def)
  then show ?thesis using w(1) by (auto simp: session_ok_def)
qed

lemma session_ok_path: "session_ok w \<Longrightarrow> session_ok (on_impl (\<lambda>c. c\<lparr>cc_last_trace_path := path\<rparr>) w)"
  by (simp add: session_ok_def)

lemma stop_ok:
  assumes hooks: "hooks_ok hooks" and w: "session_ok w"
  shows "session_ok (snd (stop env hooks w))"
proof (cases "cc_running (w_impl w)")
  case run: True
  obtain r w1 where sy: "sync_world (se_ndebug env) w = (r, w1)" by fastforce
  have w1: "session_ok w1" "cc_running (w_impl w1)"
    using sync_world_frame [OF sy] w run session_okI [OF w, of w1]
    by (auto simp: session_ok_def same_session_def)
  show ?thesis
  proof (cases r)
    case (Inl e)
    then show ?thesis using run sy w1 by (simp add: stop_def)
  next
    case (Inr u)
    let ?w3 = "on_impl (\<lambda>c. c\<lparr>cc_running := False, cc_stopped := True\<rparr>)
      (on_writer (\<lambda>t. stop_recording (emit halt_instruction t)) w1)"
    obtain r4 w4 where wt: "write_trace env (get_program_directory (se_cwd env) (w_impl ?w3))
        (full_program_name (w_impl ?w3)) ?w3 = (r4, w4)" by fastforce
    have w4: "session_ok w4" using session_ok_written [OF w1 wt] by simp
    show ?thesis
    proof (cases r4)
      case (Inl e)
      then show ?thesis using run sy Inr wt w4 by (simp add: stop_def Let_def)
    next
      case r4: (Inr pf)
      obtain path files where pf: "pf = (path, files)" by fastforce
      have "snd (stop env hooks w) = snd (stop_hooks hooks (on_impl (\<lambda>c. c\<lparr>cc_last_trace_path := path\<rparr>) w4))"
        using run sy Inr wt r4 pf by (simp add: stop_def Let_def split: prod.split sum.split)
      then show ?thesis using stop_hooks_ok [OF hooks session_ok_path [OF w4]] by simp
    qed
  qed
qed (simp add: stop_def w)

lemma start_ok:
  assumes "session_ok w" shows "session_ok (snd (start w))"
proof (cases "cc_running (w_impl w)")
  case False
  have "writer_ok True (start_recording (tw_clear (w_writer w)))"
    using assms unfolding session_ok_def by (blast intro: writer_ok_setters writer_ok_clear)
  then show ?thesis
    using assms False by (auto simp: start_def Let_def session_ok_def on_writer_def on_impl_def)
qed (simp add: start_def assms)

text \<open>
  An epoch is closed by stopping the recorder, writing and starting it again: an exception on the way
  leaves the recorder stopped in a running session.
\<close>

lemma stop_epoch_state:
  assumes w: "session_ok w" and run: "cc_running (w_impl w)"
  shows "case fst (stop_epoch env w) of
      Inr _ \<Rightarrow> session_ok (snd (stop_epoch env w))
    | Inl e \<Rightarrow> cc_running (w_impl (snd (stop_epoch env w))) \<and> \<not> tw_recording (w_writer (snd (stop_epoch env w)))"
proof -
  let ?w1 = "on_writer (\<lambda>t. stop_recording (emit halt_instruction t)) w"
  let ?dir = "path_append (get_program_directory (se_cwd env) (w_impl ?w1)) (epoch_suffix (w_impl ?w1))"
  let ?nm = "full_program_name (w_impl ?w1) @ ''_'' @ epoch_suffix (w_impl ?w1)"
  obtain r w2 where wt: "write_trace env ?dir ?nm ?w1 = (r, w2)" by fastforce
  have "writer_ok False (w_writer ?w1)"
    using w unfolding session_ok_def on_writer_sel by (elim conjE) (rule writer_ok_halt)
  then have w2: "w_impl w2 = w_impl w" "writer_ok False (w_writer w2)"
    using write_trace_frame [OF wt] by simp_all
  show ?thesis
  proof (cases r)
    case (Inr pf)
    have "writer_ok True (start_recording (tw_clear (w_writer w2)))"
      by (rule writer_ok_setters(4)) (rule writer_ok_clear [OF w2(2)])
    then show ?thesis
      using run wt Inr w w2(1)
      by (auto simp: stop_epoch_def Let_def session_ok_def on_writer_def on_impl_def split: prod.split)
  next
    case (Inl e)
    then show ?thesis using run wt w2 by (simp add: stop_epoch_def Let_def writer_ok_def)
  qed
qed

lemma reset_ok:
  assumes "session_ok w" "\<not> cc_running (w_impl w)" shows "session_ok (reset w)"
proof -
  have "writer_ok False (tw_clear (w_writer w))"
    using assms writer_ok_clear by (simp add: session_ok_def)
  then show ?thesis
    using assms(1) by (simp add: reset_def session_ok_def on_writer_def on_impl_def clear_captured_ok)
qed

section \<open>Reachable states\<close>

lemma session_step_ok:
  assumes "session_step env hooks w w'" "hooks_ok hooks" "session_ok w"
  shows "session_ok w'"
  using assms(1)
proof cases
  case (step_init argv)
  have "writer_ok (cc_running (w_impl w)) (w_writer w')"
    using assms(3) step_init by (auto simp: init_def split_beta session_ok_def intro!: writer_ok_setters(3))
  then show ?thesis using session_okI [OF assms(3)] same_session_init step_init by blast
next
  case step_start
  then show ?thesis using start_ok [OF assms(3)] by simp
next
  case step_stop
  then show ?thesis using stop_ok [OF assms(2,3)] by simp
next
  case step_pause
  then show ?thesis
    using assms(3) by (auto simp: pause_def session_ok_def writer_ok_setters)
next
  case step_resume
  then show ?thesis
    using assms(3) by (auto simp: resume_def session_ok_def writer_ok_setters)
next
  case (step_stop_epoch r)
  show ?thesis
  proof (cases "cc_running (w_impl w)")
    case True
    then show ?thesis using stop_epoch_state [OF assms(3) True, of env] step_stop_epoch by simp
  qed (use step_stop_epoch assms(3) in \<open>simp add: stop_epoch_def\<close>)
next
  case step_reset
  then show ?thesis using reset_ok [OF assms(3)] by simp
next
  case (step_program_info nm ver desc)
  then show ?thesis
    using assms(3) by (auto simp: compiler_set_program_info_def session_ok_def writer_ok_setters)
next
  case (step_build_info f l t)
  then show ?thesis
    using assms(3) by (auto simp: set_build_info_def session_ok_def writer_ok_setters)
next
  case (step_update c)
  then show ?thesis using session_ok_update [OF assms(3) impl_update_same] by simp
next
  case (step_sync nd)
  obtain r v where v: "sync_world nd w = (r, v)" by fastforce
  have "writer_ok (cc_running (w_impl w)) (w_writer v)"
    using sync_world_frame [OF v] assms(3) by (simp add: session_ok_def)
  then show ?thesis
    using step_sync v session_okI [OF assms(3)] sync_world_frame [OF v] by simp
next
  case (step_emit i)
  then show ?thesis using assms(3) by (auto simp: session_ok_def writer_ok_setters)
next
  case (step_comment tx)
  then show ?thesis using assms(3) by (auto simp: session_ok_def writer_ok_setters)
next
  case (step_register q)
  then show ?thesis using assms(3) by (auto simp: session_ok_def writer_ok_register)
next
  case (step_api api)
  then show ?thesis using assms(3) by (simp add: session_ok_def)
qed


definition idle_hooks :: "unit hooks" where
  "idle_hooks h w = (Inr (), w)"

definition example_env :: session_env where
  "example_env = \<lparr>se_host_le = True, se_ndebug = True, se_cwd = ''/tmp'', se_write = (\<lambda>dir nm. good_env 5)\<rparr>"


text \<open>
  C28: \<open>reset\<close> in a running session ends the session but not the recording: the recorder keeps
  recording, although the trace is cleared, and the state no longer meets the invariant.
\<close>

theorem reset_leaves_recorder_on:
  assumes "session_ok w" "cc_running (w_impl w)"
  shows "\<not> cc_running (w_impl (reset w)) \<and> tw_recording (w_writer (reset w)) \<and>
    tw_instructions (w_writer (reset w)) = [] \<and> \<not> session_ok (reset w)"
  using assms
  by (simp add: reset_def session_ok_def writer_ok_def on_writer_def on_impl_def tw_clear_def)

lemma started_ok: "session_ok (snd (start World_init))" "cc_running (w_impl (snd (start World_init)))"
  using start_ok [OF session_ok_init]
  by (simp_all add: start_def World_init_def CompilerImpl_init_def on_writer_def on_impl_def Let_def)

theorem reset_leaves_recorder_on_witness:
  "tw_recording (w_writer (reset (snd (start (World_init :: unit World)))))"
  using reset_leaves_recorder_on [OF started_ok] by blast


definition full_disk_env :: session_env where
  "full_disk_env = example_env\<lparr>se_write := (\<lambda>dir nm. (good_env 5)\<lparr>we_directory_made := False\<rparr>)\<rparr>"


end
