(* ===== verification/ProbeAlloc.thy ===== *)
theory ProbeAlloc
  imports Probes SessionInv
begin

text \<open>
  Which addresses the probes hand out: as long as no value is moved, two identities never share an
  address and no address in the pool is in use; a move breaks both.
\<close>

section \<open>Calls\<close>

datatype ProbeCall =
    PauseRecording | ResumeRecording
  | Annotate string
  | Suppress int
  | SerializationThread bool
  | NewId u64
  | TouchId u64
  | PinId u64
  | RandomId u64
  | PrecomputeId u64
  | Zero u64 u64
  | Copy u64 u64
  | Move u64 u64
  | ReassignId u64 u64
  | FreeId u64
  | BinaryOp u8 u64 u64 u64 u64
  | ImmOp u8 u64 u64 u64 u64
  | MultAcc u64 u64 u64 u64 u64 u64
  | Transform u8 u64 u64 u64 u64
  | Automorphism u64 u64 u64 u64 u64 u64
  | SwitchModulus u64 u64 u64 u64
  | EnsureAddress u64

primrec probe_call :: "thread \<Rightarrow> ProbeCall \<Rightarrow> 'h Client \<Rightarrow> cpp_error + 'h Client" where
  "probe_call th PauseRecording c = Inr (cprobe_pause_recording c)"
| "probe_call th ResumeRecording c = Inr (cprobe_resume_recording c)"
| "probe_call th (Annotate s) c = Inr (cprobe_annotate th s c)"
| "probe_call th (Suppress i) c = Inr (openfhe_suppress_probes i c)"
| "probe_call th (SerializationThread b) c = Inr (cprobe_set_serialization_thread th b c)"
| "probe_call th (NewId i) c = Inr (cprobe_id i c)"
| "probe_call th (TouchId i) c = Inr (touch_address th i c)"
| "probe_call th (PinId i) c = Inr (pin_openfhe_id i c)"
| "probe_call th (RandomId i) c = Inr (cprobe_random th i c)"
| "probe_call th (PrecomputeId i) c = Inr (cprobe_precompute i c)"
| "probe_call th (Zero i q) c = Inr (cprobe_zero th i q c)"
| "probe_call th (Copy d s) c = Inr (cprobe_copy th d s c)"
| "probe_call th (Move d s) c = Inr (cprobe_move th d s c)"
| "probe_call th (ReassignId d s) c = Inr (cprobe_reassign_id d s c)"
| "probe_call th (FreeId i) c = Inr (cprobe_free i c)"
| "probe_call th (BinaryOp op d s1 s2 q) c = Inr (cprobe_binary op th d s1 s2 q c)"
| "probe_call th (ImmOp op d s imm q) c = Inr (cprobe_imm op th d s imm q c)"
| "probe_call th (MultAcc d acc mul imm q0 q) c = Inr (cprobe_multacceq th d acc mul imm q0 q c)"
| "probe_call th (Transform op d s q omg) c = Inr (cprobe_transform op th d s q omg c)"
| "probe_call th (Automorphism d s q msk lgn gk) c = Inr (cprobe_automorphism th d s q msk lgn gk c)"
| "probe_call th (SwitchModulus d s q q') c = cprobe_switchmodulus th d s q q' c"
| "probe_call th (EnsureAddress i) c = Inr (snd (ensure_fhetch_address i c))"

section \<open>The invariant\<close>

definition alloc_ok :: "Probes \<Rightarrow> bool" where
  "alloc_ok p \<longleftrightarrow> 0 < pr_next_addr p \<and> inj_on (pr_address_map p) (dom (pr_address_map p)) \<and>
     distinct (pr_free_pool p) \<and> set (pr_free_pool p) \<inter> ran (pr_address_map p) = {} \<and>
     (\<forall>a \<in> set (pr_free_pool p) \<union> ran (pr_address_map p). 0 < a \<and> a < pr_next_addr p)"

definition room :: "nat \<Rightarrow> Probes \<Rightarrow> bool" where
  "room n p \<longleftrightarrow> unat (pr_next_addr p) + n < 2 ^ 64"

lemma room_mono: "room n p \<Longrightarrow> m \<le> n \<Longrightarrow> room m p"
  by (simp add: room_def)

lemma next_addr_Suc:
  "room 1 p \<Longrightarrow> unat (pr_next_addr p + 1) = unat (pr_next_addr p) + 1"
  using unat_plus_simple [of "pr_next_addr p" 1] by (simp add: room_def unat_word_ariths)

text \<open>An address taken out is fresh: no identity has it, and it is not in the pool any more.\<close>

definition takes :: "Probes \<Rightarrow> u64 \<Rightarrow> Probes \<Rightarrow> bool" where
  "takes p a p' \<longleftrightarrow> alloc_ok p' \<and> pr_address_map p' = pr_address_map p \<and> a \<notin> ran (pr_address_map p) \<and>
     a \<notin> set (pr_free_pool p') \<and> 0 < a \<and> a < pr_next_addr p' \<and>
     pr_pinned p' = pr_pinned p \<and> pr_data_parent p' = pr_data_parent p \<and>
     pr_next_addr p \<le> pr_next_addr p' \<and> unat (pr_next_addr p') \<le> unat (pr_next_addr p) + 1"

lemma fresh_counter:
  assumes "alloc_ok p" "room 1 p"
  shows "takes p (pr_next_addr p) (p\<lparr>pr_next_addr := pr_next_addr p + 1\<rparr>)"
proof -
  have n: "unat (pr_next_addr p + 1) = unat (pr_next_addr p) + 1" using next_addr_Suc [OF assms(2)] .
  then have lt: "pr_next_addr p < pr_next_addr p + 1" by (simp add: word_less_nat_alt)
  have "a < pr_next_addr p + 1" if "a < pr_next_addr p" for a using that lt by (rule less_trans)
  then show ?thesis using assms(1) lt n by (auto simp: takes_def alloc_ok_def)
qed

lemma fresh_address_takes:
  assumes "alloc_ok p" "room 1 p" "fresh_address p = (a, p')"
  shows "takes p a p'"
proof (cases "pr_free_pool p" rule: rev_cases)
  case Nil
  then show ?thesis using assms(3) fresh_counter [OF assms(1,2)] by (auto simp: fresh_address_def)
next
  case (snoc as b)
  then show ?thesis using assms(1,3) by (auto simp: fresh_address_def takes_def alloc_ok_def)
qed

definition maps_to :: "Probes \<Rightarrow> u64 \<Rightarrow> u64 \<Rightarrow> Probes \<Rightarrow> bool" where
  "maps_to p i a p' \<longleftrightarrow> alloc_ok p' \<and> pr_address_map p' = (pr_address_map p)(i \<mapsto> a) \<and>
     pr_pinned p' = pr_pinned p \<and> pr_data_parent p' = pr_data_parent p \<and>
     pr_next_addr p \<le> pr_next_addr p' \<and> unat (pr_next_addr p') \<le> unat (pr_next_addr p) + 1 \<and>
     (pr_address_map p i = None \<longrightarrow> a \<notin> ran (pr_address_map p)) \<and>
     (\<forall>b. pr_address_map p i = Some b \<longrightarrow> b = a)"

lemma inj_map_upd:
  assumes "inj_on m (dom m)" "m i = None" "a \<notin> ran m"
  shows "inj_on (m(i \<mapsto> a)) (dom (m(i \<mapsto> a)))"
proof (rule inj_onI)
  fix x y assume xy: "x \<in> dom (m(i \<mapsto> a))" "y \<in> dom (m(i \<mapsto> a))" "(m(i \<mapsto> a)) x = (m(i \<mapsto> a)) y"
  have "m z \<noteq> Some a" for z using assms(3) by (auto simp: ran_def)
  then show "x = y" using xy inj_onD [OF assms(1), of x y] by (auto split: if_splits)
qed

lemma takes_maps_to:
  assumes t: "takes p a p'" and i: "pr_address_map p i = None"
  shows "maps_to p i a (p'\<lparr>pr_address_map := (pr_address_map p')(i \<mapsto> a)\<rparr>)"
proof -
  have ok: "alloc_ok p'" "pr_address_map p' = pr_address_map p" using t by (simp_all add: takes_def)
  have r: "ran ((pr_address_map p)(i \<mapsto> a)) = insert a (ran (pr_address_map p))" using i by (rule ran_map_upd)
  have "alloc_ok (p'\<lparr>pr_address_map := (pr_address_map p')(i \<mapsto> a)\<rparr>)"
    using t ok inj_map_upd [of "pr_address_map p" i a] i unfolding alloc_ok_def takes_def
    by (simp add: r)
  then show ?thesis using t i by (simp add: takes_def maps_to_def)
qed

lemma map_address_maps_to:
  assumes "alloc_ok p" "room 1 p" "map_address i p = (a, p')"
  shows "maps_to p i a p'"
proof (cases "pr_address_map p i")
  case None
  then show ?thesis
    using assms(3) takes_maps_to [OF fresh_counter [OF assms(1,2)] None] fresh_address_takes [OF assms(1,2)]
      takes_maps_to [OF _ None]
    by (auto simp: map_address_def Let_def split: if_splits prod.splits)
next
  case (Some b)
  then show ?thesis using assms by (auto simp: map_address_def maps_to_def fun_upd_idem)
qed

section \<open>Every call but a move keeps it\<close>

lemma alloc_ok_frame:
  "alloc_ok p \<Longrightarrow> pr_address_map p' = pr_address_map p \<Longrightarrow> pr_free_pool p' = pr_free_pool p \<Longrightarrow>
     pr_next_addr p' = pr_next_addr p \<Longrightarrow> alloc_ok p'"
  by (simp add: alloc_ok_def)

lemma alloc_ok_invalidate: "alloc_ok p \<Longrightarrow> alloc_ok (invalidate_clone_parent_on_write d p)"
  by (rule alloc_ok_frame) (simp_all add: invalidate_clone_parent_on_write_def)

lemma map_address_room:
  "alloc_ok p \<Longrightarrow> room (Suc n) p \<Longrightarrow> map_address i p = (a, p') \<Longrightarrow> alloc_ok p' \<and> room n p'"
  using map_address_maps_to [of p i a p'] room_mono [of "Suc n" p 1] by (simp add: maps_to_def room_def)

lemma alloc_ok_release: "alloc_ok p \<Longrightarrow> alloc_ok (release_address i p)"
proof (cases "i \<in> pr_pinned p \<or> pr_address_map p i = None")
  case False
  assume ok: "alloc_ok p"
  from False obtain a where a: "i \<notin> pr_pinned p" "pr_address_map p i = Some a" by auto
  let ?m = "(pr_address_map p)(i := None)"
  have r: "a \<in> ran (pr_address_map p)" "ran ?m \<subseteq> ran (pr_address_map p)" using a(2) by (auto simp: ran_def)
  have na: "a \<notin> ran ?m"
  proof
    assume "a \<in> ran ?m"
    then obtain j where "j \<noteq> i" "pr_address_map p j = Some a" by (auto simp: ran_def split: if_splits)
    then show False using ok a(2) inj_onD [of "pr_address_map p" "dom (pr_address_map p)" i j]
      by (auto simp: alloc_ok_def)
  qed
  have "inj_on ?m (dom ?m)" using ok by (auto simp: alloc_ok_def inj_on_def)
  then have "alloc_ok (p\<lparr>pr_free_pool := pr_free_pool p @ [a], pr_data_parent := (pr_data_parent p)(a := None),
      pr_address_map := ?m\<rparr>)"
    using ok r na unfolding alloc_ok_def by (simp, blast)
  then show ?thesis using a by (simp add: release_address_def)
qed (auto simp: release_address_def split: option.split)

lemma reassign_release:
  "\<exists>f. reassign_probes d s p = p\<lparr>pr_refcount := f\<rparr> \<or> reassign_probes d s p = release_address d (p\<lparr>pr_refcount := f\<rparr>)"
  by (simp add: reassign_probes_def Let_def split: option.split) blast

lemma alloc_ok_reassign: "alloc_ok p \<Longrightarrow> alloc_ok (reassign_probes d s p)"
  using reassign_release [of d s p] alloc_ok_release alloc_ok_frame [of p] by fastforce

lemma alloc_ok_return:
  assumes "takes p a p'" shows "alloc_ok (p'\<lparr>pr_free_pool := pr_free_pool p' @ [a]\<rparr>)"
  using assms by (auto simp: takes_def alloc_ok_def)

lemma on_probes_sel [simp]:
  "cl_probes (on_probes f c) = f (cl_probes c)" "cl_world (on_probes f c) = cl_world c"
  "cl_probes (on_trace g c) = cl_probes c" "cl_world (on_trace g c) = on_writer g (cl_world c)"
  by (simp_all add: on_probes_def on_trace_def)

lemma alloc_ok_touch: "alloc_ok (cl_probes c) \<Longrightarrow> room 1 (cl_probes c) \<Longrightarrow> alloc_ok (cl_probes (touch_address th i c))"
  using map_address_maps_to [of "cl_probes c" i]
  by (cases "map_address i (cl_probes c)") (auto simp: touch_address_def maps_to_def)

lemma alloc_ok_pin: "alloc_ok (cl_probes c) \<Longrightarrow> alloc_ok (cl_probes (pin_openfhe_id i c))"
  by (simp add: pin_openfhe_id_def alloc_ok_def)

lemma alloc_ok_zero:
  assumes "alloc_ok (cl_probes c)" "room 1 (cl_probes c)"
  shows "alloc_ok (cl_probes (cprobe_zero th i q c))"
proof -
  obtain a p where m: "map_address i (cl_probes c) = (a, p)" by fastforce
  have "alloc_ok p" using map_address_maps_to [OF assms m] by (simp add: maps_to_def)
  then show ?thesis using assms(1) m by (simp add: cprobe_zero_def Let_def alloc_ok_invalidate)
qed

text \<open>Addresses mapped in a row.\<close>

lemma map_two:
  assumes "alloc_ok p" "room 4 p" "map_address i p = (a, p1)" "map_address j p1 = (b, p2)"
  shows "alloc_ok p1 \<and> room 3 p1 \<and> alloc_ok p2 \<and> room 2 p2"
proof -
  have 1: "alloc_ok p1 \<and> room 3 p1"
    using map_address_room [of p 3 i a p1] assms by simp
  then show ?thesis using map_address_room [of p1 2 j b p2] assms by simp
qed

lemma map_three:
  assumes "alloc_ok p" "room 4 p" "map_address i p = (a, p1)" "map_address j p1 = (b, p2)" "map_address k p2 = (b', p3)"
  shows "alloc_ok p3 \<and> room 1 p3"
  by (rule map_address_room [OF _ _ assms(5)]) (use map_two [OF assms(1-4)] in \<open>simp_all add: numeral_2_eq_2\<close>)

lemma alloc_ok_copy:
  assumes "alloc_ok (cl_probes c)" "room 4 (cl_probes c)"
  shows "alloc_ok (cl_probes (cprobe_copy th d s c))"
proof -
  obtain a p1 where 1: "map_address s (cl_probes c) = (a, p1)" by fastforce
  obtain b p2 where 2: "map_address d p1 = (b, p2)" by fastforce
  have "alloc_ok p2" using map_two [OF assms 1 2] by simp
  then have "alloc_ok (p2\<lparr>pr_data_parent := f\<rparr>)" for f by (rule alloc_ok_frame) simp_all
  then show ?thesis using assms(1) 1 2 by (simp add: cprobe_copy_def)
qed

lemma alloc_ok_binary:
  assumes "alloc_ok (cl_probes c)" "room 4 (cl_probes c)"
  shows "alloc_ok (cl_probes (cprobe_binary op th d s1 s2 q c))"
proof -
  obtain a p1 where 1: "map_address d (cl_probes c) = (a, p1)" by fastforce
  obtain b p2 where 2: "map_address s1 p1 = (b, p2)" by fastforce
  obtain b' p3 where 3: "map_address s2 p2 = (b', p3)" by fastforce
  have "alloc_ok p3" using map_three [OF assms 1 2 3] by simp
  then show ?thesis using assms(1) 1 2 3 by (simp add: cprobe_binary_def alloc_ok_invalidate)
qed

lemma alloc_ok_unary:
  assumes "alloc_ok (cl_probes c)" "room 4 (cl_probes c)"
  shows "alloc_ok (cl_probes (cprobe_unary inst th d s q c))"
proof -
  obtain a p1 where 1: "map_address d (cl_probes c) = (a, p1)" by fastforce
  obtain b p2 where 2: "map_address s p1 = (b, p2)" by fastforce
  show ?thesis
    using assms(1) 1 2 map_two [OF assms 1 2] by (simp add: cprobe_unary_def alloc_ok_invalidate)
qed

lemma alloc_ok_multacceq:
  assumes "alloc_ok (cl_probes c)" "room 4 (cl_probes c)"
  shows "alloc_ok (cl_probes (cprobe_multacceq th d acc mul imm q0 q c))"
proof -
  obtain a p1 where 1: "map_address d (cl_probes c) = (a, p1)" by fastforce
  obtain b p2 where 2: "map_address acc p1 = (b, p2)" by fastforce
  obtain b' p3 where 3: "map_address mul p2 = (b', p3)" by fastforce
  obtain t p4 where 4: "fresh_address p3 = (t, p4)" by fastforce
  have "alloc_ok p3" "room 1 p3" using map_three [OF assms 1 2 3] by simp_all
  then have "alloc_ok (p4\<lparr>pr_free_pool := pr_free_pool p4 @ [t]\<rparr>)"
    using alloc_ok_return fresh_address_takes 4 by blast
  then show ?thesis
    using assms(1) 1 2 3 4 by (simp add: cprobe_multacceq_def Let_def alloc_ok_invalidate)
qed

lemma alloc_ok_switchmodulus:
  assumes "alloc_ok (cl_probes c)" "room 4 (cl_probes c)" "cprobe_switchmodulus th d s q q' c = Inr c'"
  shows "alloc_ok (cl_probes c')"
proof -
  obtain a p1 where 1: "map_address d (cl_probes c) = (a, p1)" by fastforce
  obtain b p2 where 2: "map_address s p1 = (b, p2)" by fastforce
  show ?thesis
    using assms(1,3) 1 2 map_two [OF assms(1,2) 1 2]
    by (auto simp: cprobe_switchmodulus_def Let_def alloc_ok_invalidate split: if_splits)
qed

definition moves :: "ProbeCall \<Rightarrow> bool" where
  "moves x = (case x of Move d s \<Rightarrow> True | _ \<Rightarrow> False)"

lemma probe_call_alloc:
  assumes ok: "alloc_ok (cl_probes c)" and room: "room 4 (cl_probes c)"
    and x: "\<not> moves x" and call: "probe_call th x c = Inr c'"
  shows "alloc_ok (cl_probes c')"
proof (cases x)
  case (EnsureAddress i)
  then show ?thesis
    using call map_address_maps_to [OF ok, of i] room_mono [OF room, of 1]
    by (cases "map_address i (cl_probes c)") (auto simp: ensure_fhetch_address_def maps_to_def)
next
  case (SwitchModulus d s q q')
  then show ?thesis using call alloc_ok_switchmodulus [OF ok room] by simp
next
  case (RandomId i)
  have "room 1 (cl_probes (pin_openfhe_id i c))" using room by (simp add: pin_openfhe_id_def room_def)
  then show ?thesis
    using call RandomId alloc_ok_touch [OF alloc_ok_pin [OF ok]] by (auto simp: cprobe_random_def)
next
  case (PrecomputeId i)
  then show ?thesis using call ok by (auto simp: cprobe_precompute_def pin_openfhe_id_def alloc_ok_def)
next
  case PauseRecording
  then show ?thesis using call ok by (auto simp: cprobe_pause_recording_def Let_def alloc_ok_def)
next
  case (SerializationThread b)
  then show ?thesis using call ok by (auto simp: cprobe_set_serialization_thread_def alloc_ok_def)
next
  case (NewId i)
  then show ?thesis using call alloc_ok_frame [OF ok] by (auto simp: cprobe_id_def)
next
  case (Suppress i)
  then show ?thesis using call ok by (auto simp: openfhe_suppress_probes_def alloc_ok_def)
next
  case ResumeRecording
  then show ?thesis using call ok by (auto simp: cprobe_resume_recording_def Let_def)
next
  case (Annotate t)
  then show ?thesis using call ok by (auto simp: cprobe_annotate_def)
next
  case (TouchId i)
  then show ?thesis using call alloc_ok_touch [OF ok room_mono [OF room]] by auto
next
  case (PinId i)
  then show ?thesis using call alloc_ok_pin [OF ok] by auto
next
  case (Zero i q)
  then show ?thesis using call alloc_ok_zero [OF ok room_mono [OF room]] by auto
next
  case (Copy d t)
  then show ?thesis using call alloc_ok_copy [OF ok room] by auto
next
  case (Move d t)
  then show ?thesis using x by (simp add: moves_def)
next
  case (ReassignId d t)
  then show ?thesis using call alloc_ok_reassign [OF ok] by (auto simp: cprobe_reassign_id_def)
next
  case (FreeId i)
  then show ?thesis using call ok by (auto simp: cprobe_free_def)
next
  case (BinaryOp op d s1 s2 q)
  then show ?thesis using call alloc_ok_binary [OF ok room] by auto
next
  case (ImmOp op d t imm q)
  then show ?thesis using call alloc_ok_unary [OF ok room] by (auto simp: cprobe_imm_def)
next
  case (MultAcc d acc mul imm q0 q)
  then show ?thesis using call alloc_ok_multacceq [OF ok room] by auto
next
  case (Transform op d t q omg)
  then show ?thesis using call alloc_ok_unary [OF ok room] by (auto simp: cprobe_transform_def)
next
  case (Automorphism d t q msk lgn gk)
  then show ?thesis using call alloc_ok_unary [OF ok room] by (auto simp: cprobe_automorphism_def)
qed

section \<open>The session under the probes\<close>

definition keeps_writer :: "nat \<Rightarrow> (TraceWriter \<Rightarrow> TraceWriter) \<Rightarrow> bool" where
  "keeps_writer n g \<longleftrightarrow> (\<forall>b t. writer_ok b t \<and> length (tw_modulus_table t) + n < 2 ^ 32 \<longrightarrow>
     writer_ok b (g t) \<and> length (tw_modulus_table (g t)) \<le> length (tw_modulus_table t) + n)"

lemma keeps_writer_comp:
  assumes "keeps_writer n g" "keeps_writer m f"
  shows "keeps_writer (n + m) (\<lambda>t. f (g t))"
  unfolding keeps_writer_def
proof (intro allI impI)
  fix b t
  assume t: "writer_ok b t \<and> length (tw_modulus_table t) + (n + m) < 2 ^ 32"
  then have g: "writer_ok b (g t)" "length (tw_modulus_table (g t)) \<le> length (tw_modulus_table t) + n"
    using assms(1) unfolding keeps_writer_def by auto
  then have "length (tw_modulus_table (g t)) + m < 2 ^ 32" using t by linarith
  then show "writer_ok b (f (g t)) \<and> length (tw_modulus_table (f (g t))) \<le> length (tw_modulus_table t) + (n + m)"
    using g assms(2) unfolding keeps_writer_def by fastforce
qed

lemma keeps_writer_mono: "keeps_writer n g \<Longrightarrow> n \<le> m \<Longrightarrow> keeps_writer m g"
  unfolding keeps_writer_def by (meson add_le_mono1 le_trans nat_add_left_cancel_le order_le_less_trans)

lemma register_length: "length (tw_modulus_table (snd (register_modulus q t))) \<le> length (tw_modulus_table t) + 1"
  by (simp add: register_modulus_def Let_def split: option.split)

lemma keeps_writer_emit: "keeps_writer 0 (emit i)"
  using writer_ok_setters(8) by (auto simp: keeps_writer_def emit_eq)

lemma keeps_writer_comment: "keeps_writer 0 (comment_line text)"
  using writer_ok_setters(9) by (auto simp: keeps_writer_def comment_line_def)

lemma keeps_writer_indexed: "keeps_writer 1 (emit_indexed inst q)"
  unfolding keeps_writer_def
proof (intro allI impI)
  fix b t assume t: "writer_ok b t \<and> length (tw_modulus_table t) + 1 < 2 ^ 32"
  obtain m t' where r: "register_modulus q t = (m, t')" by fastforce
  have "writer_ok b t'" "length (tw_modulus_table t') \<le> length (tw_modulus_table t) + 1"
    using writer_ok_register [of b t q] register_length [of q t] t r by simp_all
  then show "writer_ok b (emit_indexed inst q t) \<and>
      length (tw_modulus_table (emit_indexed inst q t)) \<le> length (tw_modulus_table t) + 1"
    using r writer_ok_setters(8) by (auto simp: emit_indexed_def emit_eq)
qed

lemma probe_emit_ps_indexed:
  "probe_emit_ps op d s1 imm q =
     emit_indexed (\<lambda>m. (probe_ir op d s1)\<lparr>immediate := Some imm, modulus := Some (ucast m)\<rparr>) q"
  by (simp add: fun_eq_iff probe_emit_ps_def emit_indexed_def probe_emit_ps_idx_def)

lemma session_ok_on_writer:
  assumes "session_ok w" "keeps_writer n g" "length (tw_modulus_table (w_writer w)) + n < 2 ^ 32"
  shows "session_ok (on_writer g w)"
  using assms by (auto simp: session_ok_def keeps_writer_def)

lemma session_ok_hollow: "session_ok w \<Longrightarrow> session_ok (on_impl (\<lambda>i. snd (enable_hollow_mode b i)) w)"
  by (simp add: session_ok_def enable_hollow_mode_def)

lemma keeps_writer_switch:
  "keeps_writer 4 (\<lambda>t. probe_emit_ps o4 d4 s4 i4 q4 (probe_emit_ps o3 d3 s3 i3 q3
     (probe_emit_ps o2 d2 s2 i2 q2 (probe_emit_ps o1 d1 s1 i1 q1 (comment_line text t)))))"
proof -
  note k = keeps_writer_indexed [folded probe_emit_ps_indexed]
  have "keeps_writer (((0 + 1 + 1) + 1) + 1) (\<lambda>t. probe_emit_ps o4 d4 s4 i4 q4 (probe_emit_ps o3 d3 s3 i3 q3
     (probe_emit_ps o2 d2 s2 i2 q2 (probe_emit_ps o1 d1 s1 i1 q1 (comment_line text t)))))"
    unfolding probe_emit_ps_indexed by (intro keeps_writer_comp keeps_writer_comment keeps_writer_indexed)
  moreover have "0 + 1 + 1 + 1 + 1 = (4 :: nat)" by simp
  ultimately show ?thesis by (simp only:)
qed

lemma probe_call_session:
  assumes ok: "session_ok (cl_world c)" and room: "length (tw_modulus_table (cl_writer c)) + 4 < 2 ^ 32"
    and call: "probe_call th x c = Inr c'"
  shows "session_ok (cl_world c')"
proof -
  have w: "keeps_writer n g \<Longrightarrow> n \<le> 4 \<Longrightarrow> session_ok (on_writer g (cl_world c))" for n g
    using session_ok_on_writer [OF ok] room by (meson add_left_mono order_le_less_trans)
  have i: "session_ok (on_writer (emit_indexed inst q) (cl_world c))" for inst q
    by (rule w [OF keeps_writer_indexed]) simp
  have ps: "session_ok (on_writer (probe_emit_ps_idx op d s imm m) (cl_world c))" for op d s imm m
    unfolding probe_emit_ps_idx_def by (rule w [OF keeps_writer_emit]) simp
  have u: "session_ok (cl_world (cprobe_unary inst th d s q c))" for inst d s q
    using i ok by (simp add: cprobe_unary_def split: prod.split)
  have multacc: "session_ok (on_writer (emit_indexed i2 q2) (on_writer (emit_indexed i1 q1) (cl_world c)))" for i1 i2 q1 q2
    using w [OF keeps_writer_comp [OF keeps_writer_indexed [of i1 q1] keeps_writer_indexed [of i2 q2]]]
    by (simp add: on_writer_def)
  show ?thesis
  proof (cases x)
    case PauseRecording
    have "session_ok (snd (pause (on_impl (\<lambda>i. snd (enable_hollow_mode False i)) (cl_world c))))"
      using session_ok_hollow [OF ok, of False] by (auto simp: pause_def session_ok_def writer_ok_setters)
    then show ?thesis using call PauseRecording by (auto simp: cprobe_pause_recording_def Let_def)
  next
    case ResumeRecording
    have "session_ok (snd (resume (cl_world c)))"
      using ok by (auto simp: resume_def session_ok_def writer_ok_setters)
    then show ?thesis
      using call ResumeRecording session_ok_hollow by (auto simp: cprobe_resume_recording_def Let_def)
  next
    case (Annotate t)
    then show ?thesis using call ok w [OF keeps_writer_comment] by (auto simp: cprobe_annotate_def)
  next
    case (Zero p q)
    then show ?thesis
      using call ok i ps by (auto simp: cprobe_zero_def Let_def probe_emit_ps_indexed split: prod.split)
  next
    case (Copy d s)
    then show ?thesis using call ok ps by (auto simp: cprobe_copy_def Let_def split: prod.split)
  next
    case (Move d s)
    then show ?thesis using call ok by (auto simp: cprobe_move_def Let_def split: prod.split)
  next
    case (BinaryOp op d s1 s2 q)
    then show ?thesis
      using call ok i by (auto simp: cprobe_binary_def Let_def probe_emit_pp_def split: prod.split)
  next
    case (MultAcc d acc mul imm q0 q)
    then show ?thesis
      using call ok multacc
      by (auto simp: cprobe_multacceq_def Let_def probe_emit_pp_def probe_emit_ps_indexed split: prod.split)
  next
    case (SwitchModulus d s q q')
    then show ?thesis
      using call ok w [OF keeps_writer_switch]
      by (auto simp: cprobe_switchmodulus_def Let_def split: prod.splits if_splits)
  next
    case (EnsureAddress p)
    then show ?thesis using call ok by (auto simp: ensure_fhetch_address_def split: prod.split)
  qed (use call ok u in \<open>auto simp: cprobe_imm_def cprobe_transform_def cprobe_automorphism_def
      openfhe_suppress_probes_def cprobe_set_serialization_thread_def cprobe_id_def touch_address_def
      pin_openfhe_id_def cprobe_random_def cprobe_precompute_def cprobe_reassign_id_def cprobe_free_def\<close>)
qed

section \<open>Reachable states of the client\<close>

text \<open>
  A client interleaves steps of the session with probe calls, as long as addresses and the modulus table
  do not run out.
\<close>

inductive client_step :: "session_env \<Rightarrow> 'h hooks \<Rightarrow> 'h Client \<Rightarrow> 'h Client \<Rightarrow> bool"
  for env :: session_env and hooks :: "'h hooks" where
  client_session: "session_step env hooks (cl_world c) w \<Longrightarrow> client_step env hooks c (c\<lparr>cl_world := w\<rparr>)"
| client_probe: "probe_call th x c = Inr c' \<Longrightarrow> room 4 (cl_probes c) \<Longrightarrow>
    length (tw_modulus_table (cl_writer c)) + 4 < 2 ^ 32 \<Longrightarrow> \<not> moves x \<Longrightarrow> client_step env hooks c c'"
| client_reserve: "client_step env hooks c (reserve_fhetch_addresses n c)"

inductive_cases client_stepE: "client_step env hooks c c'"

lemma alloc_ok_reserve: "alloc_ok p \<Longrightarrow> alloc_ok (p\<lparr>pr_next_addr := max n (pr_next_addr p)\<rparr>)"
proof -
  assume ok: "alloc_ok p"
  have "a < pr_next_addr p \<Longrightarrow> a < max n (pr_next_addr p)" for a by (auto simp: less_max_iff_disj)
  then show ?thesis using ok by (auto simp: alloc_ok_def)
qed

lemma client_step_ok:
  assumes "client_step env hooks c c'" "hooks_ok hooks" "session_ok (cl_world c)" "alloc_ok (cl_probes c)"
  shows "session_ok (cl_world c') \<and> alloc_ok (cl_probes c')"
  using assms(1)
proof cases
  case (client_session w)
  then show ?thesis using session_step_ok [OF _ assms(2,3)] assms(4) by simp
next
  case (client_probe th x)
  then show ?thesis using probe_call_alloc [OF assms(4)] probe_call_session [OF assms(3)] by blast
next
  case (client_reserve n)
  then show ?thesis using assms(3) alloc_ok_reserve [OF assms(4)] by (simp add: reserve_fhetch_addresses_def)
qed

lemma alloc_ok_init: "alloc_ok Probes_init"
  by (simp add: alloc_ok_def Probes_init_def)


definition started_client :: "unit Client" where
  "started_client = Client_init\<lparr>cl_world := snd (start World_init)\<rparr>"

fun run_calls :: "thread \<Rightarrow> ProbeCall list \<Rightarrow> 'h Client \<Rightarrow> cpp_error + 'h Client" where
  "run_calls th [] c = Inr c"
| "run_calls th (x # xs) c = res_bind (probe_call th x c) (run_calls th xs)"



end
