(* ===== verification/ProbeReplay.thy ===== *)
theory ProbeReplay
  imports ProbeAlloc RescaleReplay
begin

text \<open>
  What the probes record, executed by the simulator, computes what OpenFHE computed: a store from
  identities to vectors is the specification, and the memory at the address of an identity holds its
  vector.  A source is read through the copy it was made from only where both still hold the same; a
  program that overwrites the original between is recorded wrongly.
\<close>

section \<open>Emitting and executing\<close>

definition recording_writer :: "TraceWriter \<Rightarrow> bool" where
  "recording_writer t \<longleftrightarrow> tw_recording t \<and> \<not> tw_paused t \<and> table_ok (tw_modulus_table t) (tw_modulus_index t)"

abbreviation sim_table :: "SimImpl \<Rightarrow> u64 list" where
  "sim_table \<sigma> \<equiv> modulus_table (im_trace \<sigma>)"

text \<open>
  From \<open>t\<close> to \<open>t'\<close> the recorder registers at most \<open>n\<close> moduli and appends instructions that take the
  memory from \<open>\<mu>\<close> to \<open>\<mu>'\<close>, once the simulator has the table.
\<close>

definition performs ::
  "backend \<Rightarrow> SimImpl \<Rightarrow> nat \<Rightarrow> TraceWriter \<Rightarrow> Memory \<Rightarrow> TraceWriter \<Rightarrow> Memory \<Rightarrow> bool" where
  "performs be \<sigma> n t \<mu> t' \<mu>' \<longleftrightarrow>
     recording_writer t' \<and> prefix (tw_modulus_table t) (tw_modulus_table t') \<and>
     length (tw_modulus_table t') \<le> length (tw_modulus_table t) + n \<and>
     (\<exists>new. tw_instructions t' = tw_instructions t @ new \<and>
        (prefix (tw_modulus_table t') (sim_table \<sigma>) \<longrightarrow> mem_run be \<sigma> new \<mu> \<mu>'))"

lemma performs_refl: "recording_writer t \<Longrightarrow> performs be \<sigma> 0 t \<mu> t \<mu>"
  by (simp add: performs_def mem_run_Nil)

lemma performs_trans:
  assumes "performs be \<sigma> n t \<mu> t1 \<mu>1" "performs be \<sigma> m t1 \<mu>1 t' \<mu>'"
  shows "performs be \<sigma> (n + m) t \<mu> t' \<mu>'"
proof -
  obtain new1 where 1: "tw_instructions t1 = tw_instructions t @ new1"
    "prefix (tw_modulus_table t1) (sim_table \<sigma>) \<Longrightarrow> mem_run be \<sigma> new1 \<mu> \<mu>1"
    using assms(1) by (auto simp: performs_def)
  obtain new2 where 2: "tw_instructions t' = tw_instructions t1 @ new2"
    "prefix (tw_modulus_table t') (sim_table \<sigma>) \<Longrightarrow> mem_run be \<sigma> new2 \<mu>1 \<mu>'"
    using assms(2) by (auto simp: performs_def)
  have p: "prefix (tw_modulus_table t1) (tw_modulus_table t')" using assms(2) by (simp add: performs_def)
  have "prefix (tw_modulus_table t') (sim_table \<sigma>) \<Longrightarrow> mem_run be \<sigma> (new1 @ new2) \<mu> \<mu>'"
    using 1(2) 2(2) prefix_order.trans [OF p] mem_run_append by blast
  moreover have "prefix (tw_modulus_table t) (tw_modulus_table t')"
    using assms(1) p prefix_order.trans by (auto simp: performs_def)
  ultimately show ?thesis using assms 1(1) 2(1) by (auto simp: performs_def)
qed

lemma performs_emit:
  assumes t: "recording_writer t" and i: "in_modulus (tw_modulus_table t) q i"
    and ex: "in_modulus (sim_table \<sigma>) q i \<Longrightarrow>
      exec_instruction be i (\<sigma>\<lparr>im_memory := \<mu>\<rparr>) = Inr (True, \<sigma>\<lparr>im_memory := \<mu>'\<rparr>)"
  shows "performs be \<sigma> 0 t \<mu> (emit i t) \<mu>'"
  using t in_modulus_prefix [OF i, of "sim_table \<sigma>"] ex
  by (auto simp: performs_def recording_writer_def emit_eq intro: mem_run.intros)

definition indexed_by :: "(u32 \<Rightarrow> Instruction) \<Rightarrow> bool" where
  "indexed_by inst \<longleftrightarrow> (\<forall>m. \<not> modulus_is_literal (inst m) \<and> modulus (inst m) = Some (ucast m))"

lemma indexed_in_modulus:
  assumes "indexed_by inst" "unat m < length tab" "tab ! unat m = q"
  shows "in_modulus tab q (inst m)"
proof -
  have "unat (ucast m :: u64) = unat m" by (rule unat_ucast_up) simp
  then show ?thesis using assms by (auto simp: indexed_by_def in_modulus_def)
qed

lemma performs_indexed:
  assumes t: "recording_writer t" "length (tw_modulus_table t) < 2 ^ 32" and i: "indexed_by inst"
    and ex: "\<And>m. in_modulus (sim_table \<sigma>) q (inst m) \<Longrightarrow>
      exec_instruction be (inst m) (\<sigma>\<lparr>im_memory := \<mu>\<rparr>) = Inr (True, \<sigma>\<lparr>im_memory := \<mu>'\<rparr>)"
  shows "performs be \<sigma> 1 t \<mu> (emit_indexed inst q t) \<mu>'"
proof -
  obtain m t1 where r: "register_modulus q t = (m, t1)" by fastforce
  have ok: "table_ok (tw_modulus_table t) (tw_modulus_index t)" using t(1) by (simp add: recording_writer_def)
  note s = register_modulus_spec [OF ok t(2) r]
  note f = register_modulus_frame [OF r]
  have 1: "performs be \<sigma> 1 t \<mu> t1 \<mu>"
    using t(1) s f by (simp add: performs_def recording_writer_def mem_run_Nil)
  have "performs be \<sigma> 0 t1 \<mu> (emit (inst m) t1) \<mu>'"
    by (rule performs_emit [OF _ _ ex]) (use 1 s in \<open>simp_all add: performs_def indexed_in_modulus [OF i]\<close>)
  from performs_trans [OF 1 this] show ?thesis using r by (simp add: emit_indexed_def)
qed

lemma performs_comment: "recording_writer t \<Longrightarrow> performs be \<sigma> 0 t \<mu> (comment_line text t) \<mu>"
  by (simp add: performs_def comment_line_def recording_writer_def mem_run_Nil)

section \<open>The instructions the probes emit\<close>

definition slot :: "SimImpl \<Rightarrow> Memory \<Rightarrow> u64 \<Rightarrow> u64 list \<Rightarrow> bool" where
  "slot \<sigma> \<mu> a v \<longleftrightarrow> mem_ring_dim \<mu> = unat (im_ring_dim \<sigma>) \<and> mem_value a \<mu> = Some v \<and>
     length v = unat (im_ring_dim \<sigma>) \<and> unat a < 2 ^ 32"

lemma slot_source:
  assumes "slot \<sigma> \<mu> a v"
  shows "mem_ring_dim (im_memory (\<sigma>\<lparr>im_memory := \<mu>\<rparr>)) = unat (im_ring_dim (\<sigma>\<lparr>im_memory := \<mu>\<rparr>))"
    "sim_is_initialized (ucast (ucast a :: u32)) (\<sigma>\<lparr>im_memory := \<mu>\<rparr>)"
    "get_polynomial (ucast (ucast a :: u32)) (\<sigma>\<lparr>im_memory := \<mu>\<rparr>) = v"
    "length v = unat (im_ring_dim (\<sigma>\<lparr>im_memory := \<mu>\<rparr>))"
  using assms ucast_address [of a]
  by (auto simp: slot_def sim_is_initialized_def mem_is_initialized_view mem_value_def get_polynomial_view)

lemma mem_value_write_slot: "mem_value b (write_slot a q v \<mu>) = (if b = a then Some v else mem_value b \<mu>)"
  by (simp add: mem_value_def write_slot_view)

lemma probe_ir_sel [simp]:
  "opcode (probe_ir op d s) = op" "dest (probe_ir op d s) = ucast d" "src1 (probe_ir op d s) = ucast s"
  "modulus_is_literal (probe_ir op d s) = False"
  by (simp_all add: probe_ir_def Instruction_init_def)

context modular_backend
begin

lemma performs_muli:
  assumes t: "recording_writer t" "length (tw_modulus_table t) < 2 ^ 32"
    and s: "slot \<sigma> \<mu> s v" and d: "unat d < 2 ^ 32" and c: "c < q"
  shows "performs be \<sigma> 1 t \<mu> (probe_emit_ps FH_SR_MULPS d s c q t) (write_slot d q (mul_const q c v) \<mu>)"
  unfolding probe_emit_ps_indexed
proof (rule performs_indexed [OF t])
  fix m
  let ?i = "(probe_ir FH_SR_MULPS d s)\<lparr>immediate := Some c, modulus := Some (ucast (m :: u32))\<rparr>"
  assume q: "in_modulus (sim_table \<sigma>) q ?i"
  show "exec_instruction be ?i (\<sigma>\<lparr>im_memory := \<mu>\<rparr>) =
      Inr (True, \<sigma>\<lparr>im_memory := write_slot d q (mul_const q c v) \<mu>\<rparr>)"
    using exec_mulps_value [OF slot_source(1) [OF s] in_modulus_resolve_memory [OF q], of v c] slot_source [OF s] c
      ucast_address [OF d] by (simp add: mul_const_def)
qed (simp add: indexed_by_def)

lemma performs_addi:
  assumes t: "recording_writer t" "length (tw_modulus_table t) < 2 ^ 32"
    and s: "slot \<sigma> \<mu> s v" and d: "unat d < 2 ^ 32" and c: "c = 0 \<or> c < q \<and> reduced q v"
  shows "performs be \<sigma> 1 t \<mu> (probe_emit_ps FH_SR_ADDPS d s c q t) (write_slot d q (add_const q c v) \<mu>)"
  unfolding probe_emit_ps_indexed
proof (rule performs_indexed [OF t])
  fix m
  let ?i = "(probe_ir FH_SR_ADDPS d s)\<lparr>immediate := Some c, modulus := Some (ucast (m :: u32))\<rparr>"
  assume q: "in_modulus (sim_table \<sigma>) q ?i"
  show "exec_instruction be ?i (\<sigma>\<lparr>im_memory := \<mu>\<rparr>) =
      Inr (True, \<sigma>\<lparr>im_memory := write_slot d q (add_const q c v) \<mu>\<rparr>)"
    using exec_addps_value [OF slot_source(1) [OF s] in_modulus_resolve_memory [OF q], of v c] slot_source [OF s] c
      ucast_address [OF d] by (simp add: add_const_def)
qed (simp add: indexed_by_def)

lemma performs_copy:
  assumes t: "recording_writer t" and s: "slot \<sigma> \<mu> s v" and d: "unat d < 2 ^ 32"
  shows "performs be \<sigma> 0 t \<mu> (probe_emit_ps_idx FH_SR_ADDPS d s 0 COPY_MODULUS_INDEX t)
    (write_slot d COPY_MODULUS_VALUE v \<mu>)"
  unfolding probe_emit_ps_idx_def
proof (rule performs_emit [OF t])
  let ?i = "(probe_ir FH_SR_ADDPS d s)\<lparr>immediate := Some 0, modulus := Some (ucast COPY_MODULUS_INDEX)\<rparr>"
  have "tw_modulus_table t \<noteq> []" "hd (tw_modulus_table t) = COPY_MODULUS_VALUE"
    using t by (simp_all add: recording_writer_def table_ok_def)
  then show "in_modulus (tw_modulus_table t) COPY_MODULUS_VALUE ?i"
    by (simp add: in_modulus_def COPY_MODULUS_INDEX_def hd_conv_nth)
  assume q: "in_modulus (sim_table \<sigma>) COPY_MODULUS_VALUE ?i"
  show "exec_instruction be ?i (\<sigma>\<lparr>im_memory := \<mu>\<rparr>) =
      Inr (True, \<sigma>\<lparr>im_memory := write_slot d COPY_MODULUS_VALUE v \<mu>\<rparr>)"
    using exec_addps_value [OF slot_source(1) [OF s] in_modulus_resolve_memory [OF q], of v 0] slot_source [OF s]
      ucast_address [OF d] by simp
qed

lemma performs_binary:
  assumes t: "recording_writer t" "length (tw_modulus_table t) < 2 ^ 32"
    and s: "slot \<sigma> \<mu> s1 v" "slot \<sigma> \<mu> s2 w" and d: "unat d < 2 ^ 32"
    and q: "0 < q" "reduced q v" "reduced q w"
    and op: "op = FH_SR_ADDP \<and> u = add_vec q v w \<or> op = FH_SR_SUBP \<and> u = sub_vec q v w"
  shows "performs be \<sigma> 1 t \<mu> (probe_emit_pp op d s1 s2 q t) (write_slot d q u \<mu>)"
  unfolding probe_emit_pp_def
proof (rule performs_indexed [OF t])
  fix m
  let ?i = "(probe_ir op d s1)\<lparr>src2 := ucast s2, modulus := Some (ucast (m :: u32))\<rparr>"
  assume m: "in_modulus (sim_table \<sigma>) q ?i"
  show "exec_instruction be ?i (\<sigma>\<lparr>im_memory := \<mu>\<rparr>) = Inr (True, \<sigma>\<lparr>im_memory := write_slot d q u \<mu>\<rparr>)"
    using exec_binary_value [OF slot_source(1) [OF s(1)] in_modulus_resolve_memory [OF m], of v w]
      slot_source [OF s(1)] slot_source [OF s(2)] q op ucast_address [OF d]
    by (auto simp: add_vec_def sub_vec_def)
qed (simp add: indexed_by_def)

end

section \<open>The specification\<close>

type_synonym store = "u64 \<rightharpoonup> u64 list"

text \<open>What a call does to the vectors OpenFHE works with.\<close>

definition spec_call :: "ProbeCall \<Rightarrow> store \<Rightarrow> store" where
  "spec_call x val =
     (case x of
        Copy d s \<Rightarrow> val(d := val s)
      | BinaryOp op d s1 s2 q \<Rightarrow>
          val(d \<mapsto> (if op = FH_SR_ADDP then add_vec else sub_vec) q (the (val s1)) (the (val s2)))
      | ImmOp op d s imm q \<Rightarrow>
          val(d \<mapsto> (if op = FH_SR_ADDPS then add_const else mul_const) q imm (the (val s)))
      | MultAcc d acc mul imm q0 q \<Rightarrow>
          val(d \<mapsto> add_vec q (the (val acc)) (mul_const q (imm mod q) (the (val mul))))
      | SwitchModulus d s q q' \<Rightarrow> val(d \<mapsto> center_vec q q' (the (val s)))
      | _ \<Rightarrow> val)"

text \<open>No other identity is a copy of \<open>d\<close> that has not been written since.\<close>

definition no_copy_of :: "u64 \<Rightarrow> Probes \<Rightarrow> bool" where
  "no_copy_of d p \<longleftrightarrow> (\<forall>a. pr_address_map p d = Some a \<longrightarrow> a \<notin> ran (pr_data_parent p))"

definition defined :: "u64 \<Rightarrow> store \<Rightarrow> bool" where
  "defined i val \<longleftrightarrow> val i \<noteq> None"

definition residue :: "u64 \<Rightarrow> u64 \<Rightarrow> store \<Rightarrow> bool" where
  "residue q i val \<longleftrightarrow> val i \<noteq> None \<and> reduced q (the (val i))"

definition call_ready :: "ProbeCall \<Rightarrow> Probes \<Rightarrow> store \<Rightarrow> bool" where
  "call_ready x p val =
     (case x of
        Copy d s \<Rightarrow> defined s val \<and> no_copy_of d p
      | BinaryOp op d s1 s2 q \<Rightarrow> (op = FH_SR_ADDP \<or> op = FH_SR_SUBP) \<and> 0 < q \<and> residue q s1 val \<and>
          residue q s2 val \<and> no_copy_of d p
      | ImmOp op d s imm q \<Rightarrow> imm < q \<and> no_copy_of d p \<and>
          (op = FH_SR_MULPS \<and> defined s val \<or> op = FH_SR_ADDPS \<and> residue q s val)
      | MultAcc d acc mul imm q0 q \<Rightarrow> 0 < q \<and> residue q acc val \<and> defined mul val \<and> no_copy_of d p
      | SwitchModulus d s q q' \<Rightarrow> odd (unat q) \<and> 1 < q \<and> 1 < q' \<and> residue q s val \<and> no_copy_of d p
      | NewId i \<Rightarrow> True | PinId i \<Rightarrow> True | TouchId i \<Rightarrow> True | EnsureAddress i \<Rightarrow> True
      | FreeId i \<Rightarrow> True | Annotate t \<Rightarrow> True
      | _ \<Rightarrow> False)"

section \<open>Memory shadows the store\<close>

definition shadows :: "SimImpl \<Rightarrow> Probes \<Rightarrow> Memory \<Rightarrow> store \<Rightarrow> bool" where
  "shadows \<sigma> p \<mu> val \<longleftrightarrow> alloc_ok p \<and> mem_ring_dim \<mu> = unat (im_ring_dim \<sigma>) \<and>
     (\<forall>i v. val i = Some v \<longrightarrow> length v = unat (im_ring_dim \<sigma>) \<and>
        (\<exists>a. pr_address_map p i = Some a \<and> mem_value a \<mu> = Some v)) \<and>
     (\<forall>a b. pr_data_parent p a = Some b \<longrightarrow>
        {a, b} \<subseteq> ran (pr_address_map p) \<and> mem_value a \<mu> = mem_value b \<mu>)"

lemma shadows_map:
  assumes sh: "shadows \<sigma> p \<mu> val" and room: "room 1 p" and m: "map_address i p = (a, p')"
  shows "shadows \<sigma> p' \<mu> val \<and> pr_address_map p' i = Some a \<and>
    (\<forall>j b. pr_address_map p j = Some b \<longrightarrow> pr_address_map p' j = Some b) \<and>
    pr_data_parent p' = pr_data_parent p \<and> unat (pr_next_addr p') \<le> unat (pr_next_addr p) + 1 \<and>
    (pr_address_map p i = None \<longrightarrow> a \<notin> ran (pr_address_map p))"
proof -
  have mt: "maps_to p i a p'" using map_address_maps_to [OF _ room m] sh by (simp add: shadows_def)
  then have map: "pr_address_map p' = (pr_address_map p)(i \<mapsto> a)" and dp: "pr_data_parent p' = pr_data_parent p"
    and old: "\<And>b. pr_address_map p i = Some b \<Longrightarrow> b = a" and ok: "alloc_ok p'"
    by (simp_all add: maps_to_def)
  have keep: "pr_address_map p j = Some b \<Longrightarrow> pr_address_map p' j = Some b" for j b
    using map old by auto
  then have ran: "ran (pr_address_map p) \<subseteq> ran (pr_address_map p')" by (auto simp: ran_def)
  have "shadows \<sigma> p' \<mu> val"
    using sh ok keep ran unfolding shadows_def dp by blast
  then show ?thesis using mt map dp keep by (auto simp: maps_to_def)
qed

lemma shadows_value:
  "shadows \<sigma> p \<mu> val \<Longrightarrow> val i = Some v \<Longrightarrow> pr_address_map p i = Some a \<Longrightarrow>
     mem_ring_dim \<mu> = unat (im_ring_dim \<sigma>) \<and> mem_value a \<mu> = Some v \<and> length v = unat (im_ring_dim \<sigma>)"
  unfolding shadows_def by fastforce

lemma shadows_resolve:
  assumes "shadows \<sigma> p \<mu> val"
  shows "mem_value (resolve_inplace_src a d p) \<mu> = mem_value a \<mu>"
    "resolve_inplace_src a d p = a \<or> resolve_inplace_src a d p \<in> ran (pr_address_map p)"
  using assms by (auto simp: resolve_inplace_src_def shadows_def split: option.split)

text \<open>A value written to an address of which there is no copy.\<close>

lemma shadows_write:
  assumes sh: "shadows \<sigma> p \<mu> val" and d: "pr_address_map p d = Some a" and nc: "a \<notin> ran (pr_data_parent p)"
    and w: "length w = unat (im_ring_dim \<sigma>)" and rd: "mem_ring_dim \<mu>' = mem_ring_dim \<mu>"
    and \<mu>': "\<And>b. b \<in> ran (pr_address_map p) \<Longrightarrow> mem_value b \<mu>' = (if b = a then Some w else mem_value b \<mu>)"
  shows "shadows \<sigma> (invalidate_clone_parent_on_write a p) \<mu>' (val(d \<mapsto> w))"
proof -
  have inj: "pr_address_map p i = Some a \<Longrightarrow> i = d" for i
    using sh d inj_onD [of "pr_address_map p" "dom (pr_address_map p)" i d] by (auto simp: shadows_def alloc_ok_def)
  have val: "length v = unat (im_ring_dim \<sigma>) \<and> (\<exists>b. pr_address_map p i = Some b \<and> mem_value b \<mu>' = Some v)"
    if "(val(d \<mapsto> w)) i = Some v" for i v
  proof (cases "i = d")
    case True
    then show ?thesis using that w d \<mu>' [of a] by (auto intro: ranI)
  next
    case False
    have "val i = Some v" using that False by simp
    then obtain b where b: "pr_address_map p i = Some b" "mem_value b \<mu> = Some v" "length v = unat (im_ring_dim \<sigma>)"
      using sh unfolding shadows_def by fastforce
    then have "b \<noteq> a" using inj False by blast
    then show ?thesis using b \<mu>' [of b] by (auto intro: ranI)
  qed
  have par: "{x, y} \<subseteq> ran (pr_address_map p) \<and> mem_value x \<mu>' = mem_value y \<mu>'"
    if "((pr_data_parent p)(a := None)) x = Some y" for x y
  proof -
    have p: "pr_data_parent p x = Some y" "x \<noteq> a" "y \<noteq> a" using that nc by (auto split: if_splits intro: ranI)
    then have "{x, y} \<subseteq> ran (pr_address_map p)" "mem_value x \<mu> = mem_value y \<mu>" using sh unfolding shadows_def by blast+
    then show ?thesis using p \<mu>' by simp
  qed
  have "alloc_ok (invalidate_clone_parent_on_write a p)" using sh alloc_ok_invalidate by (simp add: shadows_def)
  then show ?thesis
    using sh val par rd unfolding shadows_def invalidate_clone_parent_on_write_def by simp
qed

lemma shadows_source:
  assumes sh: "shadows \<sigma> p \<mu> val" and i: "val i = Some v" "pr_address_map p i = Some a"
    and n: "unat (pr_next_addr p) \<le> 2 ^ 32"
  shows "slot \<sigma> \<mu> a v" "slot \<sigma> \<mu> (resolve_inplace_src a d p) v"
proof -
  have small: "unat b < 2 ^ 32" if "b \<in> ran (pr_address_map p)" for b
  proof -
    have "b < pr_next_addr p" using sh that by (auto simp: shadows_def alloc_ok_def)
    then show ?thesis using n by (simp add: word_less_nat_alt)
  qed
  have a: "a \<in> ran (pr_address_map p)" using i(2) by (rule ranI)
  then show "slot \<sigma> \<mu> a v" using shadows_value [OF sh i] small by (simp add: slot_def)
  show "slot \<sigma> \<mu> (resolve_inplace_src a d p) v"
    using shadows_value [OF sh i] small [OF a] small shadows_resolve [OF sh, of a d] by (auto simp: slot_def)
qed

text \<open>The destination of a call, as soon as it has its address.\<close>

lemma shadows_dest:
  assumes sh: "shadows \<sigma> p \<mu> val" and nc: "no_copy_of d p" and room: "room 1 p" and m: "map_address d p = (a, p')"
  shows "a \<notin> ran (pr_data_parent p')"
proof (cases "pr_address_map p d")
  case None
  have "ran (pr_data_parent p) \<subseteq> ran (pr_address_map p)"
    using sh unfolding shadows_def by (fastforce simp: ran_def)
  then show ?thesis using shadows_map [OF sh room m] None by auto
next
  case (Some b)
  then have "b = a" using shadows_map [OF sh room m] by auto
  then show ?thesis using shadows_map [OF sh room m] Some nc by (simp add: no_copy_of_def)
qed

lemma dest_small:
  assumes "alloc_ok p" "pr_address_map p i = Some a" "unat (pr_next_addr p) \<le> 2 ^ 32"
  shows "unat a < 2 ^ 32"
proof -
  have "a \<in> ran (pr_address_map p)" using assms(2) by (rule ranI)
  then have "a < pr_next_addr p" using assms(1) by (simp add: alloc_ok_def)
  then show ?thesis using assms(3) by (simp add: word_less_nat_alt)
qed

lemma map_address_flags:
  assumes "map_address i p = (a, p')"
  shows "pr_suppressed p' = pr_suppressed p \<and> pr_serializing p' = pr_serializing p"
  using assms by (auto simp: map_address_def fresh_address_def Let_def split: option.splits if_splits prod.splits)

lemma shadows_add_parent:
  assumes sh: "shadows \<sigma> (invalidate_clone_parent_on_write d p) \<mu> val"
    and ran: "{d, a} \<subseteq> ran (pr_address_map p)" and eq: "mem_value d \<mu> = mem_value a \<mu>"
  shows "shadows \<sigma> (p\<lparr>pr_data_parent := (pr_data_parent p)(d \<mapsto> a)\<rparr>) \<mu> val"
proof -
  have par: "{x, y} \<subseteq> ran (pr_address_map p) \<and> mem_value x \<mu> = mem_value y \<mu>"
    if "((pr_data_parent p)(d \<mapsto> a)) x = Some y" for x y
  proof (cases "x = d")
    case True
    then show ?thesis using that ran eq by simp
  next
    case False
    then have "pr_data_parent (invalidate_clone_parent_on_write d p) x = Some y"
      using that by (simp add: invalidate_clone_parent_on_write_def)
    then show ?thesis using sh by (simp add: shadows_def invalidate_clone_parent_on_write_def)
  qed
  have "alloc_ok (p\<lparr>pr_data_parent := (pr_data_parent p)(d \<mapsto> a)\<rparr>)"
    using sh by (auto simp: shadows_def invalidate_clone_parent_on_write_def elim!: alloc_ok_frame)
  then show ?thesis using sh par by (simp add: shadows_def invalidate_clone_parent_on_write_def)
qed

section \<open>One call\<close>

definition records_now :: "thread \<Rightarrow> 'h Client \<Rightarrow> bool" where
  "records_now th c \<longleftrightarrow> should_record th c \<and> recording_writer (cl_writer c) \<and>
     unat (pr_next_addr (cl_probes c)) + 4 \<le> 2 ^ 32 \<and> length (tw_modulus_table (cl_writer c)) + 4 < 2 ^ 32"

definition call_computes ::
  "backend \<Rightarrow> SimImpl \<Rightarrow> thread \<Rightarrow> 'h Client \<Rightarrow> Memory \<Rightarrow> store \<Rightarrow> ProbeCall \<Rightarrow> bool" where
  "call_computes be \<sigma> th c \<mu> val x \<longleftrightarrow>
     (\<exists>c' \<mu>'. probe_call th x c = Inr c' \<and> performs be \<sigma> 4 (cl_writer c) \<mu> (cl_writer c') \<mu>' \<and>
        shadows \<sigma> (cl_probes c') \<mu>' (spec_call x val) \<and> should_record th c')"

lemma performs_mono: "performs be \<sigma> n t \<mu> t' \<mu>' \<Longrightarrow> n \<le> m \<Longrightarrow> performs be \<sigma> m t \<mu> t' \<mu>'"
  unfolding performs_def by (meson add_left_mono le_trans)

lemma should_record_cong:
  "cc_running (w_impl (cl_world c')) = cc_running (w_impl (cl_world c)) \<Longrightarrow>
   pr_suppressed (cl_probes c') = pr_suppressed (cl_probes c) \<Longrightarrow>
   pr_serializing (cl_probes c') = pr_serializing (cl_probes c) \<Longrightarrow> should_record th c' = should_record th c"
  by (simp add: should_record_def)

lemma invalidate_flags [simp]:
  "pr_suppressed (invalidate_clone_parent_on_write d p) = pr_suppressed p"
  "pr_serializing (invalidate_clone_parent_on_write d p) = pr_serializing p"
  by (simp_all add: invalidate_clone_parent_on_write_def)

text \<open>Destination and two sources mapped in the order the probes map them.\<close>

lemma mapped_operands:
  assumes sh: "shadows \<sigma> p \<mu> val" and n: "unat (pr_next_addr p) + 4 \<le> 2 ^ 32" and nc: "no_copy_of d p"
    and m: "map_address d p = (da, p1)" "map_address i p1 = (a, p2)" "map_address j p2 = (b, p3)"
  shows "shadows \<sigma> p2 \<mu> val" "shadows \<sigma> p3 \<mu> val"
    "pr_address_map p2 d = Some da" "pr_address_map p2 i = Some a" "da \<notin> ran (pr_data_parent p2)"
    "pr_address_map p3 d = Some da" "pr_address_map p3 i = Some a" "pr_address_map p3 j = Some b"
    "da \<notin> ran (pr_data_parent p3)" "unat (pr_next_addr p3) + 1 \<le> 2 ^ 32" "unat (pr_next_addr p2) \<le> 2 ^ 32"
    "unat da < 2 ^ 32"
    "pr_suppressed p3 = pr_suppressed p \<and> pr_serializing p3 = pr_serializing p"
    "pr_suppressed p2 = pr_suppressed p \<and> pr_serializing p2 = pr_serializing p"
proof -
  have room: "room 1 p" using n by (simp add: room_def)
  note 1 = shadows_map [OF sh room m(1)]
  have "room 1 p1" using 1 n by (simp add: room_def)
  note 2 = shadows_map [OF conjunct1 [OF 1] this m(2)]
  have "room 1 p2" using 1 2 n by (simp add: room_def)
  note 3 = shadows_map [OF conjunct1 [OF 2] this m(3)]
  show "shadows \<sigma> p2 \<mu> val" "shadows \<sigma> p3 \<mu> val" using 2 3 by simp_all
  show d2: "pr_address_map p2 d = Some da" and "pr_address_map p2 i = Some a" using 1 2 by simp_all
  show "pr_address_map p3 d = Some da" "pr_address_map p3 i = Some a" "pr_address_map p3 j = Some b"
    using 1 2 3 by simp_all
  show "da \<notin> ran (pr_data_parent p2)" "da \<notin> ran (pr_data_parent p3)"
    using shadows_dest [OF sh nc room m(1)] 2 3 by simp_all
  show n2: "unat (pr_next_addr p3) + 1 \<le> 2 ^ 32" "unat (pr_next_addr p2) \<le> 2 ^ 32" using 1 2 3 n by simp_all
  show "unat da < 2 ^ 32" using dest_small [OF _ d2 n2(2)] 2 by (simp add: shadows_def)
  show "pr_suppressed p3 = pr_suppressed p \<and> pr_serializing p3 = pr_serializing p"
    "pr_suppressed p2 = pr_suppressed p \<and> pr_serializing p2 = pr_serializing p"
    using map_address_flags [OF m(1)] map_address_flags [OF m(2)] map_address_flags [OF m(3)] by simp_all
qed

lemma write_slot_length: "length v = unat (im_ring_dim \<sigma>) \<Longrightarrow> mem_ring_dim (write_slot a q v \<mu>) = mem_ring_dim \<mu>"
  by simp

context modular_backend
begin

lemma binary_computes:
  assumes rec: "records_now th c" and sh: "shadows \<sigma> (cl_probes c) \<mu> val"
    and rdy: "call_ready (BinaryOp op d s1 s2 q) (cl_probes c) val"
  shows "call_computes be \<sigma> th c \<mu> val (BinaryOp op d s1 s2 q)"
proof -
  obtain da p1 where 1: "map_address d (cl_probes c) = (da, p1)" by fastforce
  obtain a p2 where 2: "map_address s1 p1 = (a, p2)" by fastforce
  obtain b p3 where 3: "map_address s2 p2 = (b, p3)" by fastforce
  from rdy obtain v w where v: "val s1 = Some v" "val s2 = Some w" and q: "0 < q" "reduced q v" "reduced q w"
    and nc: "no_copy_of d (cl_probes c)" and op: "op = FH_SR_ADDP \<or> op = FH_SR_SUBP"
    by (auto simp: call_ready_def residue_def)
  have n: "unat (pr_next_addr (cl_probes c)) + 4 \<le> 2 ^ 32" using rec by (simp add: records_now_def)
  note m = mapped_operands [OF sh n nc 1 2 3]
  let ?s1 = "resolve_inplace_src a da p2" and ?u = "(if op = FH_SR_ADDP then add_vec else sub_vec) q v w"
  have slots: "slot \<sigma> \<mu> ?s1 v" "slot \<sigma> \<mu> b w"
    using shadows_source(2) [OF m(1) v(1) m(4) m(11)] shadows_source(1) [OF m(2) v(2) m(8)] m(10) by simp_all
  have t: "recording_writer (cl_writer c)" "length (tw_modulus_table (cl_writer c)) < 2 ^ 32"
    using rec by (simp_all add: records_now_def)
  have opu: "op = FH_SR_ADDP \<and> ?u = add_vec q v w \<or> op = FH_SR_SUBP \<and> ?u = sub_vec q v w"
    using op by auto
  have p: "performs be \<sigma> 1 (cl_writer c) \<mu> (probe_emit_pp op da ?s1 b q (cl_writer c)) (write_slot da q ?u \<mu>)"
    by (rule performs_binary [OF t slots m(12) q opu])
  have len: "length ?u = unat (im_ring_dim \<sigma>)" using slots by (simp add: slot_def add_vec_def sub_vec_def)
  have "shadows \<sigma> (invalidate_clone_parent_on_write da p3) (write_slot da q ?u \<mu>) (val(d \<mapsto> ?u))"
    by (rule shadows_write [OF m(2) m(6) m(9) len]) (simp_all add: mem_value_write_slot)
  moreover have "probe_call th (BinaryOp op d s1 s2 q) c = Inr (on_probes (invalidate_clone_parent_on_write da)
      (on_trace (probe_emit_pp op da ?s1 b q) (c\<lparr>cl_probes := p3\<rparr>)))"
    using rec 1 2 3 by (simp add: records_now_def cprobe_binary_def Let_def)
  ultimately show ?thesis
    unfolding call_computes_def using performs_mono [OF p, of 4] v m(13) rec
    by (intro exI [of _ "on_probes (invalidate_clone_parent_on_write da)
      (on_trace (probe_emit_pp op da ?s1 b q) (c\<lparr>cl_probes := p3\<rparr>))"] exI [of _ "write_slot da q ?u \<mu>"])
      (simp add: spec_call_def records_now_def should_record_def)
qed

lemma imm_computes:
  assumes rec: "records_now th c" and sh: "shadows \<sigma> (cl_probes c) \<mu> val"
    and rdy: "call_ready (ImmOp op d s imm q) (cl_probes c) val"
  shows "call_computes be \<sigma> th c \<mu> val (ImmOp op d s imm q)"
proof -
  obtain da p1 where 1: "map_address d (cl_probes c) = (da, p1)" by fastforce
  obtain a p2 where 2: "map_address s p1 = (a, p2)" by fastforce
  obtain b p3 where 3: "map_address s p2 = (b, p3)" by fastforce
  from rdy obtain v where v: "val s = Some v" and imm: "imm < q" and nc: "no_copy_of d (cl_probes c)"
    and op: "op = FH_SR_MULPS \<or> op = FH_SR_ADDPS \<and> reduced q v"
    by (auto simp: call_ready_def residue_def defined_def)
  have n: "unat (pr_next_addr (cl_probes c)) + 4 \<le> 2 ^ 32" using rec by (simp add: records_now_def)
  note m = mapped_operands [OF sh n nc 1 2 3]
  let ?s = "resolve_inplace_src a da p2" and ?u = "(if op = FH_SR_ADDPS then add_const else mul_const) q imm v"
  have slot: "slot \<sigma> \<mu> ?s v" using shadows_source(2) [OF m(1) v m(4) m(11)] .
  have t: "recording_writer (cl_writer c)" "length (tw_modulus_table (cl_writer c)) < 2 ^ 32"
    using rec by (simp_all add: records_now_def)
  let ?g = "probe_emit_ps op da ?s imm q"
  have p: "performs be \<sigma> 1 (cl_writer c) \<mu> (?g (cl_writer c)) (write_slot da q ?u \<mu>)"
    using performs_muli [OF t slot m(12) imm] performs_addi [OF t slot m(12), of imm q] imm op by auto
  have len: "length ?u = unat (im_ring_dim \<sigma>)" using slot by (simp add: slot_def add_const_def mul_const_def)
  have "shadows \<sigma> (invalidate_clone_parent_on_write da p2) (write_slot da q ?u \<mu>) (val(d \<mapsto> ?u))"
    by (rule shadows_write [OF m(1) m(3) m(5) len]) (simp_all add: mem_value_write_slot)
  moreover have "probe_call th (ImmOp op d s imm q) c =
      Inr (on_probes (invalidate_clone_parent_on_write da) (on_trace ?g (c\<lparr>cl_probes := p2\<rparr>)))"
    using rec 1 2 by (simp add: records_now_def cprobe_imm_def cprobe_unary_def Let_def probe_emit_ps_indexed)
  ultimately show ?thesis
    unfolding call_computes_def using performs_mono [OF p, of 4] v m(14) rec
    by (intro exI [of _ "on_probes (invalidate_clone_parent_on_write da) (on_trace ?g (c\<lparr>cl_probes := p2\<rparr>))"]
        exI [of _ "write_slot da q ?u \<mu>"])
      (simp add: spec_call_def records_now_def should_record_def)
qed

lemma copy_computes:
  assumes rec: "records_now th c" and sh: "shadows \<sigma> (cl_probes c) \<mu> val"
    and rdy: "call_ready (Copy d s) (cl_probes c) val"
  shows "call_computes be \<sigma> th c \<mu> val (Copy d s)"
proof -
  let ?p = "cl_probes c"
  from rdy obtain v where v: "val s = Some v" and nc: "no_copy_of d ?p" by (auto simp: call_ready_def defined_def)
  obtain a where a: "pr_address_map ?p s = Some a" using sh v unfolding shadows_def by blast
  then have 1: "map_address s ?p = (a, ?p)" by (simp add: map_address_def)
  obtain da p2 where 2: "map_address d ?p = (da, p2)" by fastforce
  have n: "unat (pr_next_addr ?p) + 4 \<le> 2 ^ 32" using rec by (simp add: records_now_def)
  then have room: "room 1 ?p" by (simp add: room_def)
  note m = shadows_map [OF sh room 2]
  have n2: "unat (pr_next_addr p2) \<le> 2 ^ 32" using m n by simp
  have sh2: "shadows \<sigma> p2 \<mu> val" and as: "pr_address_map p2 s = Some a" and ad: "pr_address_map p2 d = Some da"
    using m a by simp_all
  have slot: "slot \<sigma> \<mu> a v" by (rule shadows_source(1) [OF sh2 v as n2])
  have small: "unat da < 2 ^ 32" using dest_small [OF _ ad n2] sh2 by (simp add: shadows_def)
  have t: "recording_writer (cl_writer c)" using rec by (simp add: records_now_def)
  let ?g = "probe_emit_ps_idx FH_SR_ADDPS da a 0 COPY_MODULUS_INDEX" and ?\<mu> = "write_slot da COPY_MODULUS_VALUE v \<mu>"
  have p: "performs be \<sigma> 0 (cl_writer c) \<mu> (?g (cl_writer c)) ?\<mu>" by (rule performs_copy [OF t slot small])
  have len: "length v = unat (im_ring_dim \<sigma>)" using slot by (simp add: slot_def)
  have w: "shadows \<sigma> (invalidate_clone_parent_on_write da p2) ?\<mu> (val(d \<mapsto> v))"
    by (rule shadows_write [OF sh2 ad shadows_dest [OF sh nc room 2] len]) (simp_all add: mem_value_write_slot)
  have ran: "da \<in> ran (pr_address_map p2)" "a \<in> ran (pr_address_map p2)"
    using ad as by (blast intro: ranI)+
  have eq: "mem_value da ?\<mu> = mem_value a ?\<mu>" using slot by (simp add: mem_value_write_slot slot_def)
  have "shadows \<sigma> (p2\<lparr>pr_data_parent := (pr_data_parent p2)(da \<mapsto> a)\<rparr>) ?\<mu> (val(d \<mapsto> v))"
    by (rule shadows_add_parent [OF w _ eq]) (use ran in simp)
  moreover have "probe_call th (Copy d s) c =
      Inr (on_trace ?g (c\<lparr>cl_probes := p2\<lparr>pr_data_parent := (pr_data_parent p2)(da \<mapsto> a)\<rparr>\<rparr>))"
    using rec 1 2 by (simp add: records_now_def cprobe_copy_def should_record_def)
  ultimately show ?thesis
    unfolding call_computes_def using performs_mono [OF p, of 4] v map_address_flags [OF 2] rec
    by (intro exI [of _ "on_trace ?g (c\<lparr>cl_probes := p2\<lparr>pr_data_parent := (pr_data_parent p2)(da \<mapsto> a)\<rparr>\<rparr>)"]
        exI [of _ ?\<mu>]) (simp add: spec_call_def records_now_def should_record_def)
qed

lemma multacc_computes:
  assumes rec: "records_now th c" and sh: "shadows \<sigma> (cl_probes c) \<mu> val"
    and rdy: "call_ready (MultAcc d acc mul imm q0 q) (cl_probes c) val"
  shows "call_computes be \<sigma> th c \<mu> val (MultAcc d acc mul imm q0 q)"
proof -
  obtain da p1 where 1: "map_address d (cl_probes c) = (da, p1)" by fastforce
  obtain a p2 where 2: "map_address acc p1 = (a, p2)" by fastforce
  obtain b p3 where 3: "map_address mul p2 = (b, p3)" by fastforce
  obtain tmp p4 where 4: "fresh_address p3 = (tmp, p4)" by fastforce
  from rdy obtain v w where v: "val acc = Some v" "val mul = Some w" and q: "0 < q" "reduced q v"
    and nc: "no_copy_of d (cl_probes c)"
    by (auto simp: call_ready_def residue_def defined_def)
  have n: "unat (pr_next_addr (cl_probes c)) + 4 \<le> 2 ^ 32" using rec by (simp add: records_now_def)
  note m = mapped_operands [OF sh n nc 1 2 3]
  have t4: "takes p3 tmp p4"
    by (rule fresh_address_takes [OF _ _ 4]) (use m(2,10) in \<open>simp_all add: shadows_def room_def\<close>)
  then have tmp: "tmp \<notin> ran (pr_address_map p3)" "unat tmp < 2 ^ 32"
    using m(10) by (simp_all add: takes_def word_less_nat_alt)
  let ?imm = "imm mod q" and ?acc = "resolve_inplace_src a da p2" and ?w = "mul_const q (imm mod q) w"
  let ?\<mu>1 = "write_slot tmp q ?w \<mu>" and ?u = "add_vec q v ?w"
  have imm: "?imm < q" using q by (simp add: word_less_nat_alt unat_mod)
  have slots: "slot \<sigma> \<mu> ?acc v" "slot \<sigma> \<mu> b w"
    using shadows_source(2) [OF m(1) v(1) m(4) m(11)] shadows_source(1) [OF m(2) v(2) m(8)] m(10) by simp_all
  have t: "recording_writer (cl_writer c)" "length (tw_modulus_table (cl_writer c)) + 4 < 2 ^ 32"
    using rec by (simp_all add: records_now_def)
  let ?t1 = "probe_emit_ps FH_SR_MULPS tmp b ?imm q (cl_writer c)"
  have e1: "performs be \<sigma> 1 (cl_writer c) \<mu> ?t1 ?\<mu>1"
    by (rule performs_muli [OF t(1) _ slots(2) tmp(2) imm]) (use t(2) in simp)
  then have t1: "recording_writer ?t1" "length (tw_modulus_table ?t1) < 2 ^ 32" using t(2) by (simp_all add: performs_def)
  have "a \<in> ran (pr_address_map p2)" using m(4) by (rule ranI)
  then have "?acc \<in> ran (pr_address_map p2)" using shadows_resolve(2) [OF m(1), of a da] by auto
  moreover have "room 1 p2" using m(11) by (simp add: room_def)
  from shadows_map [OF m(1) this 3] have "ran (pr_address_map p2) \<subseteq> ran (pr_address_map p3)"
    by (auto simp: ran_def)
  ultimately have "?acc \<noteq> tmp" using tmp(1) by blast
  then have slots1: "slot \<sigma> ?\<mu>1 ?acc v" "slot \<sigma> ?\<mu>1 tmp ?w"
    using slots tmp(2) by (simp_all add: slot_def mem_value_write_slot mul_const_def)
  have e2: "performs be \<sigma> 1 ?t1 ?\<mu>1 (probe_emit_pp FH_SR_ADDP da ?acc tmp q ?t1) (write_slot da q ?u ?\<mu>1)"
    by (rule performs_binary [OF t1 slots1 m(12) q]) (use q(1) in \<open>simp_all add: mul_const_def\<close>)
  have p: "performs be \<sigma> 4 (cl_writer c) \<mu> (probe_emit_pp FH_SR_ADDP da ?acc tmp q ?t1) (write_slot da q ?u ?\<mu>1)"
    by (rule performs_mono [OF performs_trans [OF e1 e2]]) simp
  have len: "length ?u = unat (im_ring_dim \<sigma>)" using slots by (simp add: slot_def add_vec_def mul_const_def)
  have mem: "mem_value x (write_slot da q ?u ?\<mu>1) = (if x = da then Some ?u else mem_value x \<mu>)"
    if "x \<in> ran (pr_address_map p3)" for x using that tmp(1) by (auto simp: mem_value_write_slot)
  let ?p = "p4\<lparr>pr_free_pool := pr_free_pool p4 @ [tmp]\<rparr>"
  have same: "pr_address_map ?p = pr_address_map p3" "pr_data_parent ?p = pr_data_parent p3"
    using t4 by (simp_all add: takes_def)
  have flags: "pr_suppressed p4 = pr_suppressed p3" "pr_serializing p4 = pr_serializing p3"
    using 4 by (auto simp: fresh_address_def split: if_splits)
  have "shadows \<sigma> (invalidate_clone_parent_on_write da p3) (write_slot da q ?u ?\<mu>1) (val(d \<mapsto> ?u))"
    by (rule shadows_write [OF m(2) m(6) m(9) len _ mem]) simp_all
  then have "shadows \<sigma> (invalidate_clone_parent_on_write da ?p) (write_slot da q ?u ?\<mu>1) (val(d \<mapsto> ?u))"
    using same alloc_ok_invalidate [OF alloc_ok_return [OF t4]]
    by (simp add: shadows_def invalidate_clone_parent_on_write_def)
  moreover have "probe_call th (MultAcc d acc mul imm q0 q) c = Inr (on_probes (\<lambda>p. invalidate_clone_parent_on_write da
        (p\<lparr>pr_free_pool := pr_free_pool p @ [tmp]\<rparr>)) (on_trace (probe_emit_pp FH_SR_ADDP da ?acc tmp q)
        (on_trace (probe_emit_ps FH_SR_MULPS tmp b ?imm q) (c\<lparr>cl_probes := p4\<rparr>))))"
    using rec 1 2 3 4 q(1) by (simp add: records_now_def cprobe_multacceq_def Let_def)
  ultimately show ?thesis
    unfolding call_computes_def using p v m(13) flags rec
    by (intro exI [of _ "on_probes (\<lambda>p. invalidate_clone_parent_on_write da
        (p\<lparr>pr_free_pool := pr_free_pool p @ [tmp]\<rparr>)) (on_trace (probe_emit_pp FH_SR_ADDP da ?acc tmp q)
        (on_trace (probe_emit_ps FH_SR_MULPS tmp b ?imm q) (c\<lparr>cl_probes := p4\<rparr>)))"]
        exI [of _ "write_slot da q ?u ?\<mu>1"])
      (simp add: spec_call_def records_now_def should_record_def on_writer_def)
qed

lemma switch_steps:
  assumes t: "recording_writer t" "length (tw_modulus_table t) + 4 < 2 ^ 32"
    and s: "slot \<sigma> \<mu> s v" and d: "unat d < 2 ^ 32"
    and q: "odd (unat q)" "1 < q" "1 < q'" "reduced q v" and nh: "neg_half q q' = Inr w"
  shows "\<exists>\<mu>'. performs be \<sigma> 4 t \<mu> (probe_emit_ps FH_SR_ADDPS d d w q' (probe_emit_ps FH_SR_MULPS d d 1 q'
      (probe_emit_ps FH_SR_ADDPS d d (half_q q) q (probe_emit_ps FH_SR_MULPS d s 1 q (comment_line text t))))) \<mu>' \<and>
    mem_ring_dim \<mu>' = mem_ring_dim \<mu> \<and> mem_value d \<mu>' = Some (center_vec q q' v) \<and>
    (\<forall>b. b \<noteq> d \<longrightarrow> mem_value b \<mu>' = mem_value b \<mu>)"
proof -
  have pos: "0 < q" "0 < q'" using q(2,3) by (simp_all add: word_less_nat_alt)
  obtain w' where w': "neg_half q q' = Inr w'" "w' < q'" "(int (unat w') + int (unat (half_q q))) mod int (unat q') = 0"
    using neg_half_value [OF pos(2), of q] by (elim exE conjE)
  then have w: "w < q'" "(int (unat w) + int (unat (half_q q))) mod int (unat q') = 0" using nh by simp_all
  have h: "half_q q < q" using q(2) by (simp add: word_less_nat_alt half_q_value [OF pos(1)])
  let ?t0 = "comment_line text t" and ?v1 = "mul_const q 1 v"
  let ?t1 = "probe_emit_ps FH_SR_MULPS d s 1 q ?t0" and ?m1 = "write_slot d q ?v1 \<mu>"
  have v1: "?v1 = v"
    unfolding mul_const_def by (rule map_idI) (use q(4) in \<open>auto simp: reduced_def w_mod_def word_less_nat_alt\<close>)
  have p0: "performs be \<sigma> 0 t \<mu> ?t0 \<mu>" using t(1) by (rule performs_comment)
  have p1: "performs be \<sigma> 1 ?t0 \<mu> ?t1 ?m1"
    by (rule performs_muli [OF _ _ s d q(2)]) (use p0 t(2) in \<open>simp_all add: performs_def\<close>)
  have s1: "slot \<sigma> ?m1 d v" using s d by (simp add: slot_def mem_value_write_slot v1)
  let ?v2 = "add_const q (half_q q) v"
  let ?t2 = "probe_emit_ps FH_SR_ADDPS d d (half_q q) q ?t1" and ?m2 = "write_slot d q ?v2 ?m1"
  have p01: "performs be \<sigma> 1 t \<mu> ?t1 ?m1" using performs_trans [OF p0 p1] by simp
  have p2: "performs be \<sigma> 1 ?t1 ?m1 ?t2 ?m2"
    by (rule performs_addi [OF _ _ s1 d]) (use p01 t(2) h q(4) in \<open>simp_all add: performs_def\<close>)
  have s2: "slot \<sigma> ?m2 d ?v2" using s1 by (simp add: slot_def mem_value_write_slot add_const_def)
  let ?v3 = "mul_const q' 1 ?v2"
  let ?t3 = "probe_emit_ps FH_SR_MULPS d d 1 q' ?t2" and ?m3 = "write_slot d q' ?v3 ?m2"
  have p02: "performs be \<sigma> 2 t \<mu> ?t2 ?m2" using performs_trans [OF p01 p2] by (simp add: numeral_2_eq_2)
  have p3: "performs be \<sigma> 1 ?t2 ?m2 ?t3 ?m3"
    by (rule performs_muli [OF _ _ s2 d q(3)]) (use p02 t(2) in \<open>simp_all add: performs_def\<close>)
  have s3: "slot \<sigma> ?m3 d ?v3" using s2 by (simp add: slot_def mem_value_write_slot mul_const_def)
  let ?v4 = "add_const q' w ?v3"
  let ?t4 = "probe_emit_ps FH_SR_ADDPS d d w q' ?t3" and ?m4 = "write_slot d q' ?v4 ?m3"
  have p03: "performs be \<sigma> 3 t \<mu> ?t3 ?m3" using performs_trans [OF p02 p3] by (simp add: numeral_3_eq_3)
  have r3: "reduced q' ?v3" unfolding mul_const_def using pos(2) by simp
  have p4: "performs be \<sigma> 1 ?t3 ?m3 ?t4 ?m4"
    by (rule performs_addi [OF _ _ s3 d]) (use p03 t(2) w(1) r3 in \<open>simp_all add: performs_def\<close>)
  have "performs be \<sigma> 4 t \<mu> ?t4 ?m4" using performs_trans [OF p03 p4] by simp
  moreover have "?v4 = center_vec q q' v" by (rule center_vec_steps [OF q(1,4) pos(2) w(2)])
  ultimately show ?thesis by (intro exI [of _ ?m4]) (simp add: mem_value_write_slot)
qed

lemma switch_computes:
  assumes rec: "records_now th c" and sh: "shadows \<sigma> (cl_probes c) \<mu> val"
    and rdy: "call_ready (SwitchModulus d s q q') (cl_probes c) val"
  shows "call_computes be \<sigma> th c \<mu> val (SwitchModulus d s q q')"
proof -
  obtain da p1 where 1: "map_address d (cl_probes c) = (da, p1)" by fastforce
  obtain a p2 where 2: "map_address s p1 = (a, p2)" by fastforce
  obtain b p3 where 3: "map_address s p2 = (b, p3)" by fastforce
  from rdy obtain v where v: "val s = Some v" and q: "odd (unat q)" "1 < q" "1 < q'" "reduced q v"
    and nc: "no_copy_of d (cl_probes c)"
    by (auto simp: call_ready_def residue_def)
  have n: "unat (pr_next_addr (cl_probes c)) + 4 \<le> 2 ^ 32" using rec by (simp add: records_now_def)
  note m = mapped_operands [OF sh n nc 1 2 3]
  have slot: "slot \<sigma> \<mu> a v" using shadows_source(1) [OF m(1) v m(4) m(11)] .
  have pos: "0 < q'" using q(3) by (simp add: word_less_nat_alt)
  obtain w where nh: "neg_half q q' = Inr w" using neg_half_value [OF pos, of q] by blast
  have wv: "(if half_q q mod q' = 0 then 0 else q' - half_q q mod q') = w"
    using nh pos by (auto simp: neg_half_def Let_def split: if_splits)
  have half: "drop_bit (Suc 0) (q - 1) = half_q q" by (simp add: half_q_def drop_bit_eq_div)
  have t: "recording_writer (cl_writer c)" "length (tw_modulus_table (cl_writer c)) + 4 < 2 ^ 32"
    using rec by (simp_all add: records_now_def)
  let ?text = "''switchmodulus %'' @ to_string_nat (unat da) @ '', %'' @ to_string_nat (unat a) @
              '', old_mod='' @ to_string_nat (unat q) @ '', new_mod='' @ to_string_nat (unat q')"
  let ?g = "\<lambda>t. probe_emit_ps FH_SR_ADDPS da da w q' (probe_emit_ps FH_SR_MULPS da da 1 q'
      (probe_emit_ps FH_SR_ADDPS da da (half_q q) q (probe_emit_ps FH_SR_MULPS da a 1 q (comment_line ?text t))))"
  obtain \<mu>' where p: "performs be \<sigma> 4 (cl_writer c) \<mu> (?g (cl_writer c)) \<mu>'"
    and \<mu>': "mem_ring_dim \<mu>' = mem_ring_dim \<mu>" "mem_value da \<mu>' = Some (center_vec q q' v)"
      "\<And>b. b \<noteq> da \<Longrightarrow> mem_value b \<mu>' = mem_value b \<mu>"
    using switch_steps [OF t slot m(12) q nh, of ?text] by blast
  have len: "length (center_vec q q' v) = unat (im_ring_dim \<sigma>)" using slot by (simp add: slot_def center_vec_def)
  have "shadows \<sigma> (invalidate_clone_parent_on_write da p2) \<mu>' (val(d \<mapsto> center_vec q q' v))"
    by (rule shadows_write [OF m(1) m(3) m(5) len \<mu>'(1)]) (use \<mu>' in auto)
  moreover have "probe_call th (SwitchModulus d s q q') c =
      Inr (on_probes (invalidate_clone_parent_on_write da) (on_trace ?g (c\<lparr>cl_probes := p2\<rparr>)))"
    using rec 1 2 pos wv
    by (simp add: records_now_def cprobe_switchmodulus_def Let_def half word_gt_0 cong: if_cong)
  ultimately show ?thesis
    unfolding call_computes_def using p v m(14) rec
    by (intro exI [of _ "on_probes (invalidate_clone_parent_on_write da) (on_trace ?g (c\<lparr>cl_probes := p2\<rparr>))"]
        exI [of _ \<mu>']) (simp add: spec_call_def records_now_def should_record_def)
qed

lemma passive_computes:
  assumes rec: "records_now th c" and sh: "shadows \<sigma> (cl_probes c) \<mu> val"
  shows "call_computes be \<sigma> th c \<mu> val (NewId i)" "call_computes be \<sigma> th c \<mu> val (PinId i)"
    "call_computes be \<sigma> th c \<mu> val (TouchId i)" "call_computes be \<sigma> th c \<mu> val (EnsureAddress i)"
    "call_computes be \<sigma> th c \<mu> val (FreeId i)" "call_computes be \<sigma> th c \<mu> val (Annotate tx)"
proof -
  have t: "recording_writer (cl_writer c)" "should_record th c" using rec by (simp_all add: records_now_def)
  have p: "performs be \<sigma> 4 (cl_writer c) \<mu> (cl_writer c) \<mu>"
    "performs be \<sigma> 4 (cl_writer c) \<mu> (comment_line tx (cl_writer c)) \<mu>"
    using performs_mono [OF performs_refl [OF t(1)]] performs_mono [OF performs_comment [OF t(1)]] by simp_all
  have frame: "shadows \<sigma> (p\<lparr>pr_refcount := f\<rparr>) \<mu> val" "shadows \<sigma> (p\<lparr>pr_pinned := g\<rparr>) \<mu> val"
    if "shadows \<sigma> p \<mu> val" for p f g using that alloc_ok_frame [of p] by (simp_all add: shadows_def)
  have room: "room 1 (cl_probes c)" using rec by (simp add: records_now_def room_def)
  obtain a p' where m: "map_address i (cl_probes c) = (a, p')" by fastforce
  have m': "shadows \<sigma> p' \<mu> val" "should_record th (c\<lparr>cl_probes := p'\<rparr>)"
    using shadows_map [OF sh room m] map_address_flags [OF m] t(2) by (simp_all add: should_record_def)
  have o: "on_probes f c = c\<lparr>cl_probes := f (cl_probes c)\<rparr>" for f by (simp add: on_probes_def)
  show "call_computes be \<sigma> th c \<mu> val (NewId i)" "call_computes be \<sigma> th c \<mu> val (PinId i)"
    "call_computes be \<sigma> th c \<mu> val (FreeId i)" "call_computes be \<sigma> th c \<mu> val (Annotate tx)"
    unfolding call_computes_def using p t(2) sh frame
    by (auto simp: spec_call_def cprobe_id_def pin_openfhe_id_def cprobe_free_def cprobe_annotate_def should_record_def
        intro!: exI [of _ \<mu>])
  show "call_computes be \<sigma> th c \<mu> val (TouchId i)" "call_computes be \<sigma> th c \<mu> val (EnsureAddress i)"
    unfolding call_computes_def using p t(2) m m'
    by (auto simp: spec_call_def touch_address_def ensure_fhetch_address_def o intro!: exI [of _ \<mu>])
qed

lemma call_computes_ready:
  assumes rec: "records_now th c" and sh: "shadows \<sigma> (cl_probes c) \<mu> val" and rdy: "call_ready x (cl_probes c) val"
  shows "call_computes be \<sigma> th c \<mu> val x"
  using rdy binary_computes [OF rec sh] imm_computes [OF rec sh] copy_computes [OF rec sh]
    multacc_computes [OF rec sh] switch_computes [OF rec sh] passive_computes [OF rec sh]
  by (cases x) (simp_all add: call_ready_def)

end

section \<open>Whole recordings\<close>

fun spec_run :: "ProbeCall list \<Rightarrow> store \<Rightarrow> store" where
  "spec_run [] val = val"
| "spec_run (x # xs) val = spec_run xs (spec_call x val)"

text \<open>Every call of a run is recorded and meets its conditions.\<close>

fun run_ready :: "thread \<Rightarrow> ProbeCall list \<Rightarrow> 'h Client \<Rightarrow> store \<Rightarrow> bool" where
  "run_ready th [] c val = True"
| "run_ready th (x # xs) c val =
     (call_ready x (cl_probes c) val \<and> unat (pr_next_addr (cl_probes c)) + 4 \<le> 2 ^ 32 \<and>
      length (tw_modulus_table (cl_writer c)) + 4 < 2 ^ 32 \<and>
      (case probe_call th x c of Inl e \<Rightarrow> False | Inr c' \<Rightarrow> run_ready th xs c' (spec_call x val)))"

lemma performs_compose:
  "performs be \<sigma> n t \<mu> t1 \<mu>1 \<Longrightarrow> performs be \<sigma> m t1 \<mu>1 t' \<mu>' \<Longrightarrow> \<exists>k. performs be \<sigma> k t \<mu> t' \<mu>'"
  using performs_trans by blast

lemma run_computes:
  assumes be: "modular_backend be" and sr: "should_record th c" and t: "recording_writer (cl_writer c)"
    and sh: "shadows \<sigma> (cl_probes c) \<mu> val" and rdy: "run_ready th xs c val"
  shows "\<exists>c' \<mu>' n. run_calls th xs c = Inr c' \<and> performs be \<sigma> n (cl_writer c) \<mu> (cl_writer c') \<mu>' \<and>
    shadows \<sigma> (cl_probes c') \<mu>' (spec_run xs val)"
  using assms(2-)
proof (induction xs arbitrary: c \<mu> val)
  case Nil
  then show ?case by (auto intro!: exI [of _ \<mu>] exI [of _ 0] performs_refl)
next
  case (Cons x xs)
  have "call_computes be \<sigma> th c \<mu> val x"
    by (rule modular_backend.call_computes_ready [OF be _ Cons.prems(3)])
      (use Cons.prems in \<open>simp_all add: records_now_def\<close>)
  then obtain c1 \<mu>1 where 1: "probe_call th x c = Inr c1"
    "performs be \<sigma> 4 (cl_writer c) \<mu> (cl_writer c1) \<mu>1"
    "shadows \<sigma> (cl_probes c1) \<mu>1 (spec_call x val)" "should_record th c1" unfolding call_computes_def by blast
  have "recording_writer (cl_writer c1)" "run_ready th xs c1 (spec_call x val)"
    using 1(1,2) Cons.prems(4) by (simp_all add: performs_def)
  from Cons.IH [OF 1(4) this(1) 1(3) this(2)] obtain c' \<mu>' n where
    "run_calls th xs c1 = Inr c'" "performs be \<sigma> n (cl_writer c1) \<mu>1 (cl_writer c') \<mu>'"
    "shadows \<sigma> (cl_probes c') \<mu>' (spec_run xs (spec_call x val))" by blast
  then show ?case using 1(1) performs_compose [OF 1(2)] by fastforce
qed

text \<open>The simulator is given what was recorded from \<open>t\<close> to \<open>t'\<close>.\<close>

definition replays :: "SimImpl \<Rightarrow> TraceWriter \<Rightarrow> TraceWriter \<Rightarrow> bool" where
  "replays \<sigma> t t' \<longleftrightarrow> instructions (im_trace \<sigma>) = drop (length (tw_instructions t)) (tw_instructions t') \<and>
     sim_table \<sigma> = tw_modulus_table t' \<and> im_free_after \<sigma> = []"

lemma performs_execute:
  assumes p: "performs be (\<sigma>\<lparr>im_error_count := 0\<rparr>) n t (im_memory \<sigma>) t' \<mu>'" and r: "replays \<sigma> t t'"
  shows "execute be \<sigma> = Inr (\<lparr>instructions_executed = length (instructions (im_trace \<sigma>)), sim_errors = 0\<rparr>,
    \<sigma>\<lparr>im_error_count := 0, im_memory := \<mu>'\<rparr>)"
proof -
  let ?\<sigma> = "\<sigma>\<lparr>im_error_count := 0\<rparr>"
  obtain new where new: "tw_instructions t' = tw_instructions t @ new"
    "mem_run be ?\<sigma> new (im_memory \<sigma>) \<mu>'"
    using p r by (auto simp: performs_def replays_def)
  have i: "instructions (im_trace \<sigma>) = new" and f: "im_free_after ?\<sigma> = []" using r new(1) by (simp_all add: replays_def)
  have "?\<sigma>\<lparr>im_memory := im_memory \<sigma>\<rparr> = ?\<sigma>" by simp
  then have "execute_loop be 0 new 0 ?\<sigma> = Inr (length new, ?\<sigma>\<lparr>im_memory := \<mu>'\<rparr>)"
    using mem_run_execute_loop [OF new(2) f, of 0 0] by (simp only: add_0)
  then show ?thesis by (simp add: execute_def i)
qed


definition clone_client :: "unit Client" where
  "clone_client = touch_address 0 10 started_client"

definition clone_sim :: "unit Client \<Rightarrow> SimImpl" where
  "clone_sim c' = SimImpl_init\<lparr>im_ring_dim := 4, im_memory := write_slot 1 97 [1, 2, 3, 4] (set_ring_dim 4 Memory_init),
     im_trace := Program_init\<lparr>instructions := tw_instructions (cl_writer c'),
       modulus_table := tw_modulus_table (cl_writer c')\<rparr>\<rparr>"

definition clone_calls :: "ProbeCall list" where
  "clone_calls = [Copy 11 10, ImmOp FH_SR_ADDPS 10 10 5 97, ImmOp FH_SR_ADDPS 11 11 7 97]"

definition clone_store :: store where
  "clone_store = [10 \<mapsto> [1, 2, 3, 4]]"

lemma started_probes:
  "cl_probes started_client = Probes_init" "should_record th started_client"
  "tw_instructions (cl_writer started_client) = []" "recording_writer (cl_writer started_client)"
  "tw_modulus_table (cl_writer started_client) = [COPY_MODULUS_VALUE]"
  by (simp_all add: started_client_def Client_init_def should_record_def Probes_init_def start_def World_init_def
      CompilerImpl_init_def on_writer_def on_impl_def Let_def reset_for_epoch_def rearm_fhetch_sync_def tw_clear_def
      tw_setter_defs recording_writer_def ApiState_init_def TraceWriter_ctor_def table_ok_init)

lemma clone_client_state:
  "cl_probes clone_client = Probes_init\<lparr>pr_next_addr := 2, pr_address_map := [10 \<mapsto> 1]\<rparr>"
  "should_record th clone_client" "cl_writer clone_client = cl_writer started_client"
proof -
  have m: "map_address 10 Probes_init = (1, Probes_init\<lparr>pr_next_addr := 2, pr_address_map := [10 \<mapsto> 1]\<rparr>)"
    by (simp add: map_address_def fresh_address_def Probes_init_def)
  then show "cl_probes clone_client = Probes_init\<lparr>pr_next_addr := 2, pr_address_map := [10 \<mapsto> 1]\<rparr>"
    "cl_writer clone_client = cl_writer started_client"
    by (simp_all add: clone_client_def touch_address_def started_probes on_probes_def on_writer_def)
  then show "should_record th clone_client"
    using started_probes(2) [of th] by (simp add: should_record_def clone_client_def touch_address_def started_probes
        Probes_init_def)
qed

definition clone_copied :: "unit Client" where
  "clone_copied = cprobe_copy 0 11 10 clone_client"

lemma clone_copied_state:
  "cl_probes clone_copied = Probes_init\<lparr>pr_next_addr := 3, pr_address_map := [10 \<mapsto> 1, 11 \<mapsto> 2], pr_data_parent := [2 \<mapsto> 1]\<rparr>"
  "should_record 0 clone_copied"
  "cl_writer clone_copied = probe_emit_ps_idx FH_SR_ADDPS 2 1 0 COPY_MODULUS_INDEX (cl_writer started_client)"
proof -
  have m: "map_address 10 (cl_probes clone_client) = (1, cl_probes clone_client)"
    "map_address 11 (cl_probes clone_client) =
       (2, Probes_init\<lparr>pr_next_addr := 3, pr_address_map := [10 \<mapsto> 1, 11 \<mapsto> 2]\<rparr>)"
    by (simp_all add: map_address_def fresh_address_def clone_client_state(1) Probes_init_def)
  show "cl_probes clone_copied = Probes_init\<lparr>pr_next_addr := 3, pr_address_map := [10 \<mapsto> 1, 11 \<mapsto> 2], pr_data_parent := [2 \<mapsto> 1]\<rparr>"
    "cl_writer clone_copied = probe_emit_ps_idx FH_SR_ADDPS 2 1 0 COPY_MODULUS_INDEX (cl_writer started_client)"
    using m clone_client_state(2) [of 0]
    by (simp_all add: clone_copied_def cprobe_copy_def should_record_def clone_client_state(3) on_probes_def)
      (simp_all add: Probes_init_def)
  then show "should_record 0 clone_copied"
    using m clone_client_state(2) [of 0]
    by (simp add: should_record_def clone_copied_def cprobe_copy_def Probes_init_def)
qed

lemma imm_recorded:
  assumes "should_record th c" "map_address d (cl_probes c) = (da, cl_probes c)" "map_address s (cl_probes c) = (a, cl_probes c)"
  shows "cl_probes (cprobe_imm op th d s imm q c) = invalidate_clone_parent_on_write da (cl_probes c)"
    "cl_writer (cprobe_imm op th d s imm q c) =
       probe_emit_ps op da (resolve_inplace_src a da (cl_probes c)) imm q (cl_writer c)"
    "should_record th (cprobe_imm op th d s imm q c)"
  using assms by (simp_all add: cprobe_imm_def cprobe_unary_def Let_def probe_emit_ps_indexed should_record_def)

text \<open>The original is incremented after it was copied, and then the copy.\<close>

lemma clone_run:
  obtains c' where "run_calls 0 clone_calls clone_client = Inr c'"
    "lookup_fhetch_address 11 (cl_probes c') = 2"
    "cl_writer c' = probe_emit_ps FH_SR_ADDPS 2 1 7 97 (probe_emit_ps FH_SR_ADDPS 1 1 5 97 (cl_writer clone_copied))"
proof -
  let ?c1 = "cprobe_imm FH_SR_ADDPS 0 10 10 5 97 clone_copied"
  let ?c2 = "cprobe_imm FH_SR_ADDPS 0 11 11 7 97 ?c1"
  have m1: "map_address 10 (cl_probes clone_copied) = (1, cl_probes clone_copied)"
    by (simp add: map_address_def clone_copied_state(1))
  note 1 = imm_recorded [OF clone_copied_state(2) m1 m1, of FH_SR_ADDPS 5 97]
  have p1: "cl_probes ?c1 = cl_probes clone_copied"
    unfolding 1(1) by (simp add: clone_copied_state(1) invalidate_clone_parent_on_write_def Probes_init_def)
  have m2: "map_address 11 (cl_probes ?c1) = (2, cl_probes ?c1)"
    unfolding p1 by (simp add: map_address_def clone_copied_state(1))
  note 2 = imm_recorded [OF 1(3) m2 m2, of FH_SR_ADDPS 7 97]
  have "run_calls 0 clone_calls clone_client = Inr ?c2" by (simp add: clone_calls_def clone_copied_def)
  moreover have "lookup_fhetch_address 11 (cl_probes ?c2) = 2"
    unfolding 2(1) p1 by (simp add: lookup_fhetch_address_def invalidate_clone_parent_on_write_def clone_copied_state(1))
  moreover have "cl_writer ?c2 = probe_emit_ps FH_SR_ADDPS 2 1 7 97
      (probe_emit_ps FH_SR_ADDPS 1 1 5 97 (cl_writer clone_copied))"
    unfolding 2(2) p1 1(2) by (simp add: resolve_inplace_src_def clone_copied_state(1) Probes_init_def)
  ultimately show ?thesis by (rule that)
qed

lemma clone_sim_slot: "slot ((clone_sim c')\<lparr>im_error_count := 0\<rparr>) (im_memory (clone_sim c')) 1 [1, 2, 3, 4]"
  by (simp add: slot_def clone_sim_def mem_value_write_slot set_ring_dim_def)



end
