(* ===== verification/TraceDriver.thy ===== *)
theory TraceDriver
  imports FhetchReader FhetchApi Capture "HOL-Library.List_Lexorder" "HOL-Library.Char_ord" "HOL-Library.Product_Lexorder"
begin

text \<open>
  Driving the recording interface from a trace (\<open>src/fhetch_parser.cpp\<close>): every instruction of a
  program that was read becomes a call of the interface, which records a second trace; addresses of
  the file are keys of a map to the polynomials the calls return.

  The functions run on the state of the interface, the captured records of the session and the
  driver's own state.  The text of an exception is not modelled, so the line number the loop adds to
  one is not visible.
\<close>

section \<open>State\<close>

record DriveStats =
  ds_instructions_parsed :: nat
  ds_instructions_replayed :: nat
  ds_unknown_opcodes :: nat
  ds_skipped_lines :: nat
  ds_modulus_table :: "u64 list"
  ds_errors :: "string list"
  ds_inputs_materialized :: nat
  ds_outputs_tagged :: nat

definition DriveStats_init :: DriveStats where
  "DriveStats_init =
     \<lparr>ds_instructions_parsed = 0, ds_instructions_replayed = 0, ds_unknown_opcodes = 0,
      ds_skipped_lines = 0, ds_modulus_table = [], ds_errors = [], ds_inputs_materialized = 0,
      ds_outputs_tagged = 0\<rparr>"

record DriveElement =
  de_values :: "u64 list"
  de_modulus :: u64

type_synonym DriveInputs = "u64 \<rightharpoonup> DriveElement"

record DriveTag =
  dt_name :: string
  dt_poly_index :: nat

text \<open>The outputs in the order in which the hash map is iterated.\<close>

type_synonym DriveOutputs = "(u64 \<times> DriveTag) list"

text \<open>What a drive does not change, with the assertion mode and the streaming flag of the session.\<close>

record DriveEnv =
  dv_ring_dim :: u64
  dv_inputs :: DriveInputs
  dv_outputs :: DriveOutputs
  dv_ndebug :: bool
  dv_streaming :: bool

record Driver =
  dv_polys :: "u64 \<rightharpoonup> Polynomial"
  dv_stats :: DriveStats
  dv_api :: ApiState
  dv_captured :: Captured

type_synonym 'a drive = "Driver \<Rightarrow> (cpp_error + 'a) \<times> Driver"

definition drive_return :: "'a \<Rightarrow> 'a drive" where
  "drive_return x = (\<lambda>d. (Inr x, d))"

definition drive_bind :: "'a drive \<Rightarrow> ('a \<Rightarrow> 'b drive) \<Rightarrow> 'b drive" where
  "drive_bind m f = (\<lambda>d. case m d of (Inl e, d') \<Rightarrow> (Inl e, d') | (Inr x, d') \<Rightarrow> f x d')"

text \<open>A call of the recording interface.\<close>

definition drive_api :: "'a api \<Rightarrow> 'a drive" where
  "drive_api m = (\<lambda>d. let (r, s) = m (dv_api d) in (r, d\<lparr>dv_api := s\<rparr>))"

definition on_stats :: "(DriveStats \<Rightarrow> DriveStats) \<Rightarrow> Driver \<Rightarrow> Driver" where
  "on_stats f d = d\<lparr>dv_stats := f (dv_stats d)\<rparr>"

definition drive_error :: "string \<Rightarrow> DriveStats \<Rightarrow> DriveStats" where
  "drive_error msg st = st\<lparr>ds_errors := ds_errors st @ [msg]\<rparr>"

section \<open>Operands\<close>

definition input_name :: "u64 \<Rightarrow> string" where
  "input_name a = ''in_'' @ to_string_nat (unat a)"

text \<open>\<open>polys.emplace(file_addr, p)\<close> where the key is known to be new, and the value stored.\<close>

definition poly_emplace :: "u64 \<Rightarrow> Polynomial \<Rightarrow> Polynomial drive" where
  "poly_emplace a p = (\<lambda>d. (Inr p, d\<lparr>dv_polys := (dv_polys d)(a \<mapsto> p)\<rparr>))"

definition capture_input :: "DriveEnv \<Rightarrow> u64 \<Rightarrow> DriveElement \<Rightarrow> Polynomial \<Rightarrow> unit drive" where
  "capture_input env a el p =
     drive_bind (drive_api (addr_of p)) (\<lambda>ap d.
       case store_input_element (dv_ndebug env) (dv_streaming env) (input_name a) SRP False ap
              (de_modulus el) (de_values el) (dv_captured d) of
         Inl e \<Rightarrow> (Inl e, d)
       | Inr c \<Rightarrow> (Inr (), on_stats (\<lambda>st. st\<lparr>ds_inputs_materialized := ds_inputs_materialized st + 1\<rparr>)
                          (d\<lparr>dv_captured := c\<rparr>)))"

definition get_or_create_src :: "DriveEnv \<Rightarrow> u64 \<Rightarrow> Polynomial drive" where
  "get_or_create_src env a = (\<lambda>d.
     case dv_polys d a of
       Some p \<Rightarrow> (Inr p, d)
     | None \<Rightarrow>
         (case dv_inputs env a of
            Some el \<Rightarrow>
              (if de_values el \<noteq> [] then
                 drive_bind (drive_api (from_data (de_values el) (dv_ring_dim env) Evaluation)) (\<lambda>p.
                 drive_bind (capture_input env a el p) (\<lambda>_. poly_emplace a p)) d
               else
                 drive_bind (drive_api (zeros (dv_ring_dim env) Evaluation)) (\<lambda>p.
                 drive_bind (drive_api (tag_input (input_name a) (POLY p))) (\<lambda>_. poly_emplace a p)) d)
          | None \<Rightarrow>
              drive_bind (drive_api (zeros (dv_ring_dim env) Evaluation)) (\<lambda>p.
              drive_bind (drive_api (tag_input (input_name a) (POLY p))) (\<lambda>_. poly_emplace a p)) d))"

definition get_or_create_zero_src :: "DriveEnv \<Rightarrow> u64 \<Rightarrow> Polynomial drive" where
  "get_or_create_zero_src env a = (\<lambda>d.
     case dv_polys d a of
       Some p \<Rightarrow> (Inr p, d)
     | None \<Rightarrow> drive_bind (drive_api (zeros (dv_ring_dim env) Evaluation)) (poly_emplace a) d)"

definition poly_put :: "u64 \<Rightarrow> Polynomial \<Rightarrow> bool drive" where
  "poly_put a p = (\<lambda>d. (Inr True, d\<lparr>dv_polys := (dv_polys d)(a \<mapsto> p)\<rparr>))"

text \<open>The modulus of an instruction, or the diagnostic and \<open>None\<close> when its index is not in the table.\<close>

definition drive_resolve :: "Instruction \<Rightarrow> u64 option drive" where
  "drive_resolve inst = (\<lambda>d.
     case modulus inst of
       None \<Rightarrow> (Inr (Some 0), d)
     | Some m \<Rightarrow>
         if modulus_is_literal inst then (Inr (Some m), d)
         else
           let tab = ds_modulus_table (dv_stats d) in
           if unat m \<ge> length tab then
             (Inr None, on_stats (drive_error
                (''line '' @ to_string_int (line_number inst) @ '': modulus index '' @
                 to_string_nat (unat m) @ '' is outside the table of '' @ to_string_nat (length tab) @
                 '' entries'')) d)
           else (Inr (Some (tab ! unat m)), d))"

section \<open>Instructions\<close>

text \<open>The call an opcode selects, by the shape of its operands.\<close>

definition binary_call :: "u8 \<Rightarrow> Polynomial \<Rightarrow> Polynomial \<Rightarrow> u64 \<Rightarrow> Polynomial api" where
  "binary_call op a b q =
     (if op = FH_SR_ADDP then sr_addp a b q else if op = FH_SR_SUBP then sr_subp a b q else sr_mulp a b q)"

definition scalar_call :: "u8 \<Rightarrow> Polynomial \<Rightarrow> Scalar \<Rightarrow> u64 \<Rightarrow> Polynomial api" where
  "scalar_call op a sc q =
     (if op = FH_SR_ADDPS then sr_addps a sc q
      else if op = FH_SR_SUBPS then sr_subps a sc q
      else if op = FH_SR_MULPS then sr_mulps a sc q
      else if op = FH_SR_ADDPS_COEFF then sr_addps_coeff a sc q
      else sr_subps_coeff a sc q)"

definition transform_call :: "u8 \<Rightarrow> u64 option \<Rightarrow> Polynomial \<Rightarrow> u64 \<Rightarrow> Polynomial api" where
  "transform_call op omg a q =
     (case omg of
        Some w \<Rightarrow> if op = FH_SR_NTT then sr_ntt_with_root a q w else sr_intt_with_root a q w
      | None \<Rightarrow> if op = FH_SR_NTT then sr_ntt a q else sr_intt a q)"

definition binary_ni_call :: "u8 \<Rightarrow> Polynomial \<Rightarrow> Polynomial \<Rightarrow> Polynomial api" where
  "binary_ni_call op a b =
     (if op = FH_SR_ADDP_NI then sr_addp_ni a b
      else if op = FH_SR_SUBP_NI then sr_subp_ni a b else sr_mulp_ni a b)"

definition scalar_ni_call :: "u8 \<Rightarrow> Polynomial \<Rightarrow> Scalar \<Rightarrow> Polynomial api" where
  "scalar_ni_call op a sc =
     (if op = FH_SR_ADDPS_NI then sr_addps_ni a sc
      else if op = FH_SR_SUBPS_NI then sr_subps_ni a sc
      else if op = FH_SR_MULPS_NI then sr_mulps_ni a sc
      else if op = FH_SR_ADDPS_COEFF_NI then sr_addps_coeff_ni a sc
      else sr_subps_coeff_ni a sc)"

definition unary_ni_call :: "u8 \<Rightarrow> Polynomial \<Rightarrow> Polynomial api" where
  "unary_ni_call op a =
     (if op = FH_SR_NEGP_NI then sr_negp_ni a else if op = FH_SR_FT then sr_ft a else sr_ift a)"

definition value_or :: "'a \<Rightarrow> 'a option \<Rightarrow> 'a" where
  "value_or x v = (case v of Some y \<Rightarrow> y | None \<Rightarrow> x)"

text \<open>\<open>drv.put(d, call(drv.get_or_create_src(s1)))\<close>\<close>

definition drive_unary :: "DriveEnv \<Rightarrow> Instruction \<Rightarrow> (Polynomial \<Rightarrow> Polynomial api) \<Rightarrow> bool drive" where
  "drive_unary env inst call =
     drive_bind (get_or_create_src env (ucast (src1 inst))) (\<lambda>a.
     drive_bind (drive_api (call a)) (poly_put (ucast (dest inst))))"

definition drive_binary ::
  "DriveEnv \<Rightarrow> Instruction \<Rightarrow> (Polynomial \<Rightarrow> Polynomial \<Rightarrow> Polynomial api) \<Rightarrow> bool drive" where
  "drive_binary env inst call =
     drive_bind (get_or_create_src env (ucast (src1 inst))) (\<lambda>a.
     drive_bind (get_or_create_src env (ucast (src2 inst))) (\<lambda>b.
     drive_bind (drive_api (call a b)) (poly_put (ucast (dest inst)))))"

definition drive_scalar :: "DriveEnv \<Rightarrow> Instruction \<Rightarrow> u64 \<Rightarrow> bool drive" where
  "drive_scalar env inst q =
     (let imm = value_or 0 (immediate inst) in
      drive_bind
        (if opcode inst = FH_SR_MULPS \<and> imm = 0 then get_or_create_zero_src env (ucast (src1 inst))
         else get_or_create_src env (ucast (src1 inst))) (\<lambda>a.
      drive_bind (drive_api (scalar_from_int imm)) (\<lambda>sc.
      drive_bind (drive_api (scalar_call (opcode inst) a sc q)) (poly_put (ucast (dest inst))))))"

definition drive_scalar_ni :: "DriveEnv \<Rightarrow> Instruction \<Rightarrow> bool drive" where
  "drive_scalar_ni env inst =
     drive_bind (get_or_create_src env (ucast (src1 inst))) (\<lambda>a.
     drive_bind (drive_api (scalar_from_double (value_or 0 (fp_immediate inst)))) (\<lambda>sc.
     drive_bind (drive_api (scalar_ni_call (opcode inst) a sc)) (poly_put (ucast (dest inst)))))"

text \<open>The switch; an opcode without a case is skipped.\<close>

definition drive_opcode :: "DriveEnv \<Rightarrow> Instruction \<Rightarrow> u64 \<Rightarrow> bool drive" where
  "drive_opcode env inst q =
     (let op = opcode inst in
      if op = FH_HALT then drive_bind (drive_api halt) (\<lambda>_. drive_return True)
      else if op \<in> {FH_SR_ADDP, FH_SR_SUBP, FH_SR_MULP} then
        drive_binary env inst (\<lambda>a b. binary_call op a b q)
      else if op \<in> {FH_SR_ADDPS, FH_SR_SUBPS, FH_SR_MULPS, FH_SR_ADDPS_COEFF, FH_SR_SUBPS_COEFF} then
        drive_scalar env inst q
      else if op = FH_SR_NEGP then drive_unary env inst (\<lambda>a. sr_negp a q)
      else if op \<in> {FH_SR_NTT, FH_SR_INTT} then
        drive_unary env inst (\<lambda>a. transform_call op (omega inst) a q)
      else if op = FH_SR_PERMUTE then drive_unary env inst (\<lambda>a. sr_permute a [] [] q)
      else if op = FH_SR_AUTOMORPH_EVAL then
        drive_unary env inst (\<lambda>a. sr_automorph_eval a (value_or 1 (k_op inst)))
      else if op = FH_SR_AUTOMORPH_COEFF then
        drive_unary env inst (\<lambda>a. sr_automorph_coeff a (value_or 0 (k_op inst)) q)
      else if op = FH_SR_ROT_AUTOMORPH_COEFF then
        drive_unary env inst (\<lambda>a. sr_rot_automorph_coeff a (value_or 0 (offset inst)) q)
      else if op \<in> {FH_SR_ADDP_NI, FH_SR_SUBP_NI, FH_SR_MULP_NI} then
        drive_binary env inst (binary_ni_call op)
      else if op \<in> {FH_SR_ADDPS_NI, FH_SR_SUBPS_NI, FH_SR_MULPS_NI, FH_SR_ADDPS_COEFF_NI,
          FH_SR_SUBPS_COEFF_NI} then drive_scalar_ni env inst
      else if op \<in> {FH_SR_NEGP_NI, FH_SR_FT, FH_SR_IFT} then drive_unary env inst (unary_ni_call op)
      else drive_return False)"

definition drive_instruction :: "DriveEnv \<Rightarrow> Instruction \<Rightarrow> bool drive" where
  "drive_instruction env inst =
     drive_bind (drive_resolve inst) (\<lambda>r. case r of None \<Rightarrow> drive_return False | Some q \<Rightarrow> drive_opcode env inst q)"

section \<open>Programs\<close>

text \<open>
  \<open>finalize_outputs\<close>.  \<open>std::sort\<close> leaves the order of outputs with equal tags open; the sort here is
  stable.
\<close>

fun finalize_loop :: "(u64 \<times> DriveTag) list \<Rightarrow> unit drive" where
  "finalize_loop [] d = (Inr (), d)"
| "finalize_loop ((a, tag) # outs) d =
     (case dv_polys d a of
        None \<Rightarrow> finalize_loop outs d
      | Some p \<Rightarrow>
          drive_bind (drive_api (tag_output (dt_name tag) (POLY p)))
            (\<lambda>_ d. finalize_loop outs
               (on_stats (\<lambda>st. st\<lparr>ds_outputs_tagged := ds_outputs_tagged st + 1\<rparr>) d)) d)"

definition ordered_outputs :: "DriveOutputs \<Rightarrow> DriveOutputs" where
  "ordered_outputs outs = sort_key (\<lambda>(a, tag). (dt_name tag, dt_poly_index tag)) outs"

definition finalize_outputs :: "DriveEnv \<Rightarrow> unit drive" where
  "finalize_outputs env = finalize_loop (ordered_outputs (dv_outputs env))"

definition diagnostic_text :: "ReadDiagnostic \<Rightarrow> string" where
  "diagnostic_text x = ''line '' @ to_string_int (rd_line_number x) @ '': '' @ rd_message x"

definition absorb_diagnostics :: "ReadResult \<Rightarrow> DriveStats \<Rightarrow> DriveStats" where
  "absorb_diagnostics res st =
     st\<lparr>ds_errors := ds_errors st @ map diagnostic_text (rr_errors res) @ map diagnostic_text (rr_warnings res),
        ds_skipped_lines := ds_skipped_lines st + length (rr_warnings res)\<rparr>"

fun drive_loop :: "DriveEnv \<Rightarrow> Instruction list \<Rightarrow> unit drive" where
  "drive_loop env [] d = (Inr (), d)"
| "drive_loop env (inst # insts) d =
     drive_bind (drive_instruction env inst)
       (\<lambda>replayed d. drive_loop env insts
          (on_stats (\<lambda>st. if replayed then st\<lparr>ds_instructions_replayed := ds_instructions_replayed st + 1\<rparr>
                          else st\<lparr>ds_skipped_lines := ds_skipped_lines st + 1\<rparr>) d)) d"

text \<open>
  The stats come from the caller and keep what they hold; the driver itself starts without
  polynomials.
\<close>

definition drive_program :: "DriveEnv \<Rightarrow> ReadResult \<Rightarrow> bool drive" where
  "drive_program env res = (\<lambda>d0.
     let d = on_stats (absorb_diagnostics res) (d0\<lparr>dv_polys := Map.empty\<rparr>) in
     if \<not> rr_ok res then (Inr False, d)
     else
       let d1 = on_stats (\<lambda>st. st\<lparr>ds_modulus_table := modulus_table (rr_program res),
                  ds_instructions_parsed :=
                    ds_instructions_parsed st + length (instructions (rr_program res))\<rparr>) d
       in drive_bind (drive_loop env (instructions (rr_program res))) (\<lambda>_.
          drive_bind (finalize_outputs env) (\<lambda>_ d.
            (Inr (ds_instructions_replayed (dv_stats d) > 0), d))) d1)"

definition parse_and_drive ::
  "bool \<Rightarrow> text_env \<Rightarrow> DriveEnv \<Rightarrow> string \<Rightarrow> bytes option \<Rightarrow> bool drive" where
  "parse_and_drive h tenv env path file = (\<lambda>d.
     case read_fhetch_file h tenv path file of Inl e \<Rightarrow> (Inl e, d) | Inr res \<Rightarrow> drive_program env res d)"

definition parse_and_drive_text :: "text_env \<Rightarrow> DriveEnv \<Rightarrow> string \<Rightarrow> bool drive" where
  "parse_and_drive_text tenv env text = (\<lambda>d.
     case read_fhetch_text tenv text of Inl e \<Rightarrow> (Inl e, d) | Inr res \<Rightarrow> drive_program env res d)"

end
