(* ===== verification/KernelMirror.thy ===== *)
theory KernelMirror
  imports SimSpec ApiReplay
begin

text \<open>
  A run of the simulator and a run of the same instructions over renamed addresses.  Two states
  mirror each other along a set of address pairs when the paired slots hold the same values; every
  kernel that succeeds on one side succeeds on the other and pairs the two destinations.
\<close>

section \<open>Mirrored states\<close>

definition mirrors :: "(u64 \<times> u64) set \<Rightarrow> SimImpl \<Rightarrow> SimImpl \<Rightarrow> bool" where
  "mirrors R s t \<longleftrightarrow>
     ring_ok s \<and> ring_ok t \<and> im_ring_dim s = im_ring_dim t \<and> im_ntt_tables s = im_ntt_tables t \<and>
     im_error_count s = im_error_count t \<and>
     (\<forall>(a, b) \<in> R. mem_value a (im_memory s) = mem_value b (im_memory t))"

text \<open>The pairs after the two destinations have been written.\<close>

definition redirect :: "(u64 \<times> u64) set \<Rightarrow> u32 \<Rightarrow> u32 \<Rightarrow> (u64 \<times> u64) set" where
  "redirect R d d' = insert (ucast d, ucast d') {(a, b) \<in> R. a \<noteq> ucast d \<and> b \<noteq> ucast d'}"

text \<open>Success on the left is success on the right; the traces and the schedules stay.\<close>

definition mirror_res ::
  "(u64 \<times> u64) set \<Rightarrow> SimImpl \<Rightarrow> cpp_error + bool \<times> SimImpl \<Rightarrow> cpp_error + bool \<times> SimImpl \<Rightarrow> bool" where
  "mirror_res R t r r' \<longleftrightarrow>
     (\<forall>s'. r = Inr (True, s') \<longrightarrow>
        (\<exists>t'. r' = Inr (True, t') \<and> mirrors R s' t' \<and> im_trace t' = im_trace t \<and>
           im_free_after t' = im_free_after t))"

lemma mirror_res_failed [simp]:
  "mirror_res R t (Inl e) r'" "mirror_res R t (Inr (False, s)) r'"
  by (simp_all add: mirror_res_def)

lemma mirrors_mono: "mirrors R s t \<Longrightarrow> R' \<subseteq> R \<Longrightarrow> mirrors R' s t"
  by (auto simp: mirrors_def)

lemma mirror_get:
  assumes "mirrors R s t" "(a, b) \<in> R"
  obtains v w w' where "get_or_zero a s = (v, s\<lparr>im_warned_uninit := w\<rparr>)"
    "get_or_zero b t = (v, t\<lparr>im_warned_uninit := w'\<rparr>)"
proof -
  have m: "mem_value a (im_memory s) = mem_value b (im_memory t)" "im_ring_dim s = im_ring_dim t"
    using assms by (auto simp: mirrors_def)
  have g: "get_or_zero x u = (case mem_value x (im_memory u) of Some v \<Rightarrow> v | None \<Rightarrow> replicate (unat (im_ring_dim u)) 0,
      u\<lparr>im_warned_uninit := (if mem_value x (im_memory u) = None then insert x (im_warned_uninit u) else im_warned_uninit u)\<rparr>)"
    for x u
    by (cases "mem_view x (im_memory u)")
      (auto simp: get_or_zero_def mem_is_initialized_view mem_value_def mem_get_view)
  show thesis
    by (rule that [OF g [of a s, unfolded m] g [of b t]])
qed

lemma mirrors_warned [simp]:
  "mirrors R (s\<lparr>im_warned_uninit := w\<rparr>) t = mirrors R s t"
  "mirrors R s (t\<lparr>im_warned_uninit := w\<rparr>) = mirrors R s t"
  by (simp_all add: mirrors_def)

lemma mirror_store:
  assumes m: "mirrors R s t" and e: "im_trace t = im_trace t0" "im_free_after t = im_free_after t0"
    and f: "\<And>b b'. length b = unat (im_ring_dim s) \<Longrightarrow> length b' = unat (im_ring_dim s) \<Longrightarrow> f b = f b'"
  shows "mirror_res (redirect R d d') t0 (store_result d q f s) (store_result d' q' f t)"
proof -
  have st: "store_result d q f u = Inr (True, u\<lparr>im_memory := write_slot (ucast d) q
      (f (fst (reserve_dest (ucast d) (im_memory u)))) (im_memory u)\<rparr>)" for d q u
    by (simp add: store_result_def write_slot_def split_beta Let_def)
  have "f (fst (reserve_dest (ucast d) (im_memory s))) = f (fst (reserve_dest (ucast d') (im_memory t)))"
    using m by (intro f) (simp_all add: mirrors_def ring_ok_length)
  then show ?thesis
    using m by (auto simp: mirror_res_def st mirrors_def redirect_def mem_value_def write_slot_view e ring_ok_def)
qed

lemma mirror_store_copy:
  assumes "mirrors R s t" "im_trace t = im_trace t0" "im_free_after t = im_free_after t0"
  shows "mirror_res (redirect R d d') t0 (store_result d q (copy_result v (im_ring_dim s)) s)
    (store_result d' q' (copy_result v (im_ring_dim t)) t)"
proof -
  have "im_ring_dim t = im_ring_dim s" using assms(1) by (simp add: mirrors_def)
  with mirror_store [OF assms] copy_result_full show ?thesis by metis
qed

lemma mirror_store_copy_dim:
  assumes "mirrors R s t"
  shows "mirror_res (redirect R d d') t
    (store_result d q (copy_result v (im_ring_dim s)) (s\<lparr>im_warned_uninit := w\<rparr>))
    (store_result d' q' (copy_result v (im_ring_dim t)) (t\<lparr>im_warned_uninit := w'\<rparr>))"
  using mirror_store_copy [of R "s\<lparr>im_warned_uninit := w\<rparr>" "t\<lparr>im_warned_uninit := w'\<rparr>" t] assms by simp

section \<open>The kernels\<close>

definition resolves :: "Instruction \<Rightarrow> u64 \<Rightarrow> SimImpl \<Rightarrow> bool" where
  "resolves inst q s \<longleftrightarrow> resolve_modulus inst s = (q, s)"

lemma mirror_binary:
  assumes m: "mirrors R s t" and q: "resolves i q s" "resolves j q t"
    and r: "(ucast (src1 i), ucast (src1 j)) \<in> R" "(ucast (src2 i), ucast (src2 j)) \<in> R"
  shows "mirror_res (redirect R (dest i) (dest j)) t (exec_binary g i s) (exec_binary g j t)"
proof -
  obtain a w w' where 1: "get_or_zero (ucast (src1 i)) s = (a, s\<lparr>im_warned_uninit := w\<rparr>)"
    "get_or_zero (ucast (src1 j)) t = (a, t\<lparr>im_warned_uninit := w'\<rparr>)" by (rule mirror_get [OF m r(1)])
  have m1: "mirrors R (s\<lparr>im_warned_uninit := w\<rparr>) (t\<lparr>im_warned_uninit := w'\<rparr>)" using m by simp
  obtain b v v' where 2: "get_or_zero (ucast (src2 i)) (s\<lparr>im_warned_uninit := w\<rparr>) = (b, s\<lparr>im_warned_uninit := v\<rparr>)"
    "get_or_zero (ucast (src2 j)) (t\<lparr>im_warned_uninit := w'\<rparr>) = (b, t\<lparr>im_warned_uninit := v'\<rparr>)"
    by (rule mirror_get [OF m1 r(2)]) (simp add: that)
  have m2: "mirrors R (s\<lparr>im_warned_uninit := v\<rparr>) (t\<lparr>im_warned_uninit := v'\<rparr>)" using m by simp
  have d: "im_ring_dim t = im_ring_dim s" using m by (simp add: mirrors_def)
  show ?thesis
    using mirror_store_copy [OF m2, of t] d q
    by (simp add: exec_binary_def resolves_def 1 2 wrong_size_def)
qed

lemma mirror_unary:
  assumes m: "mirrors R s t" and q: "resolves i q s" "resolves j q' t"
    and r: "(ucast (src1 i), ucast (src1 j)) \<in> R"
    and body: "\<And>a w w'. length a = unat (im_ring_dim s) \<Longrightarrow>
      mirrors R (s\<lparr>im_warned_uninit := w\<rparr>) (t\<lparr>im_warned_uninit := w'\<rparr>) \<Longrightarrow>
      mirror_res R' t (f q a (s\<lparr>im_warned_uninit := w\<rparr>)) (f' q' a (t\<lparr>im_warned_uninit := w'\<rparr>))"
  shows "mirror_res R' t
    (let (q, s) = resolve_modulus i s; (a, s) = get_or_zero (ucast (src1 i)) s in
     if wrong_size a s then Inr (False, sim_error s) else f q a s)
    (let (q, s) = resolve_modulus j t; (a, s) = get_or_zero (ucast (src1 j)) s in
     if wrong_size a s then Inr (False, sim_error s) else f' q a s)"
proof -
  obtain a w w' where 1: "get_or_zero (ucast (src1 i)) s = (a, s\<lparr>im_warned_uninit := w\<rparr>)"
    "get_or_zero (ucast (src1 j)) t = (a, t\<lparr>im_warned_uninit := w'\<rparr>)" by (rule mirror_get [OF m r])
  have d: "im_ring_dim t = im_ring_dim s" using m by (simp add: mirrors_def)
  show ?thesis using body [of a w w'] q m d by (simp add: resolves_def 1 wrong_size_def)
qed

text \<open>What the two instructions share.\<close>

definition renamed :: "Instruction \<Rightarrow> Instruction \<Rightarrow> bool" where
  "renamed i j \<longleftrightarrow> opcode j = opcode i \<and>
     (opcode i \<in> {FH_SR_ADDPS, FH_SR_SUBPS, FH_SR_MULPS, FH_SR_ADDPS_COEFF, FH_SR_SUBPS_COEFF} \<longrightarrow>
        imm_or_0 j = imm_or_0 i) \<and>
     (opcode i \<in> {FH_SR_NTT, FH_SR_INTT} \<longrightarrow> omega j = omega i) \<and>
     (\<forall>x. k_op i = Some x \<longrightarrow> opcode i = FH_SR_AUTOMORPH_EVAL \<longrightarrow> k_op j = Some x) \<and>
     (\<forall>x. offset i = Some x \<longrightarrow> opcode i = FH_SR_ROT_AUTOMORPH_COEFF \<longrightarrow> offset j = Some x)"

lemma mirror_scalars:
  assumes "mirrors R s t" "resolves i q s" "resolves j q t" "(ucast (src1 i), ucast (src1 j)) \<in> R"
    and imm: "imm_or_0 j = imm_or_0 i"
  shows "mirror_res (redirect R (dest i) (dest j)) t (exec_addps be i s) (exec_addps be j t)"
    "mirror_res (redirect R (dest i) (dest j)) t (exec_subps be i s) (exec_subps be j t)"
  unfolding exec_addps_def exec_subps_def imm
  by (rule mirror_unary [OF assms(1-4)];
      auto intro: mirror_store_copy_dim mirror_store)+

lemma mirror_negp:
  assumes "mirrors R s t" "resolves i q s" "resolves j q t" "(ucast (src1 i), ucast (src1 j)) \<in> R"
  shows "mirror_res (redirect R (dest i) (dest j)) t (exec_negp i s) (exec_negp j t)"
  unfolding exec_negp_def by (rule mirror_unary [OF assms]) (auto intro: mirror_store_copy_dim)

lemma mirror_mulps:
  assumes m: "mirrors R s t" "resolves i q s" "resolves j q t" "imm_or_0 j = imm_or_0 i"
    and r: "imm_or_0 i \<noteq> 0 \<Longrightarrow> (ucast (src1 i), ucast (src1 j)) \<in> R"
  shows "mirror_res (redirect R (dest i) (dest j)) t (exec_mulps be i s) (exec_mulps be j t)"
proof (cases "imm_or_0 i = 0")
  case True
  then show ?thesis
    using m(2-4) mirror_store [OF m(1) refl refl, of "\<lambda>out. replicate (length out) 0"]
    by (simp add: exec_mulps_def resolves_def)
next
  case False
  let ?body = "\<lambda>i (q :: u64) a s. store_result (dest i) q
      (copy_result (be_mod_mul_eq be q a (imm_or_0 i)) (im_ring_dim s)) s"
  have "exec_mulps be i u = (let (q, s) = resolve_modulus i u; (a, s) = get_or_zero (ucast (src1 i)) s in
      if wrong_size a s then Inr (False, sim_error s) else ?body i q a s)" if "imm_or_0 i \<noteq> 0" for i u
    using that by (simp add: exec_mulps_def)
  moreover have "mirror_res (redirect R (dest i) (dest j)) t
    (let (q, s) = resolve_modulus i s; (a, s) = get_or_zero (ucast (src1 i)) s in
      if wrong_size a s then Inr (False, sim_error s) else ?body i q a s)
    (let (q, s) = resolve_modulus j t; (a, s) = get_or_zero (ucast (src1 j)) s in
      if wrong_size a s then Inr (False, sim_error s) else ?body j q a s)"
    unfolding m(4) by (rule mirror_unary [OF m(1-3) r [OF False]])
      (auto intro: mirror_store_copy_dim)
  ultimately show ?thesis using False m(4) by simp
qed

lemma mirror_tables:
  assumes m: "mirrors R s t" and o: "omega j = omega i" and r: "ntt_tables_for be i q s = Inr (Some tab, s')"
  obtains x where "s' = s\<lparr>im_ntt_tables := x\<rparr>" "ntt_tables_for be j q t = Inr (Some tab, t\<lparr>im_ntt_tables := x\<rparr>)"
proof -
  have e: "im_ntt_tables s = im_ntt_tables t" "im_ring_dim s = im_ring_dim t"
    using m by (simp_all add: mirrors_def)
  have "\<exists>x. s' = s\<lparr>im_ntt_tables := x\<rparr> \<and> ntt_tables_for be j q t = Inr (Some tab, t\<lparr>im_ntt_tables := x\<rparr>)"
  proof (cases "im_ntt_tables t (q, omega i)")
    case (Some x)
    have "s' = s" "ntt_tables_for be j q t = Inr (Some tab, t)"
      using r Some by (simp_all add: ntt_tables_for_def e o Let_def)
    then have "s' = s\<lparr>im_ntt_tables := im_ntt_tables s\<rparr>"
      "ntt_tables_for be j q t = Inr (Some tab, t\<lparr>im_ntt_tables := im_ntt_tables s\<rparr>)"
      unfolding e by (simp_all flip: e)
    then show ?thesis by blast
  next
    case None
    show ?thesis
    proof (cases "omega i")
      case (Some w)
      then show ?thesis using r None
        by (cases "build_ntt_tables be (im_ring_dim t) q w")
          (auto simp: ntt_tables_for_def e o Let_def split: if_splits)
    next
      case w: None
      show ?thesis
      proof (cases "be_root_of_unity be (2 * im_ring_dim t) q")
        case (Some g)
        then show ?thesis using r None w
          by (cases "build_ntt_tables be (im_ring_dim t) q g")
            (auto simp: ntt_tables_for_def e o Let_def opt_throw_def)
      qed (use r None w in \<open>simp add: ntt_tables_for_def e o Let_def opt_throw_def\<close>)
    qed
  qed
  then show thesis using that by blast
qed

lemma mirror_transform:
  assumes m: "mirrors R s t" "resolves i q s" "resolves j q t" "(ucast (src1 i), ucast (src1 j)) \<in> R"
    and o: "omega j = omega i"
  shows "mirror_res (redirect R (dest i) (dest j)) t (exec_transform be tr i s) (exec_transform be tr j t)"
  unfolding exec_transform_def
proof (rule mirror_unary [OF m])
  fix a w w'
  let ?s = "s\<lparr>im_warned_uninit := w\<rparr>" and ?t = "t\<lparr>im_warned_uninit := w'\<rparr>"
  assume mm: "mirrors R ?s ?t"
  show "mirror_res (redirect R (dest i) (dest j)) t
     (res_bind (ntt_tables_for be i q ?s) (\<lambda>(tables, s). case tables of None \<Rightarrow> Inr (False, s)
        | Some u \<Rightarrow> store_result (dest i) q (copy_result (tr q u a) (im_ring_dim s)) s))
     (res_bind (ntt_tables_for be j q ?t) (\<lambda>(tables, s). case tables of None \<Rightarrow> Inr (False, s)
        | Some u \<Rightarrow> store_result (dest j) q (copy_result (tr q u a) (im_ring_dim s)) s))"
  proof (cases "ntt_tables_for be i q ?s")
    case (Inr r)
    show ?thesis
    proof (cases "fst r")
      case (Some tab)
      then have "ntt_tables_for be i q ?s = Inr (Some tab, snd r)" using Inr by (metis prod.collapse)
      from mirror_tables [OF mm o this] obtain x where x: "ntt_tables_for be i q ?s = Inr (Some tab, ?s\<lparr>im_ntt_tables := x\<rparr>)"
        "ntt_tables_for be j q ?t = Inr (Some tab, ?t\<lparr>im_ntt_tables := x\<rparr>)"
        using \<open>ntt_tables_for be i q ?s = Inr (Some tab, snd r)\<close> by metis
      have "mirrors R (?s\<lparr>im_ntt_tables := x\<rparr>) (?t\<lparr>im_ntt_tables := x\<rparr>)" using mm by (simp add: mirrors_def)
      from mirror_store_copy [OF this, of t] show ?thesis
        by (simp add: x)
    qed (use Inr in \<open>auto simp: split_beta\<close>)
  qed simp
qed

lemma mirror_automorph:
  assumes m: "mirrors R s t" "resolves i q s" "resolves j q' t" "(ucast (src1 i), ucast (src1 j)) \<in> R"
    and k: "\<And>x. k_op i = Some x \<Longrightarrow> k_op j = Some x"
  shows "mirror_res (redirect R (dest i) (dest j)) t (exec_automorph_eval i s) (exec_automorph_eval j t)"
  unfolding exec_automorph_eval_def
proof (rule mirror_unary [OF m])
  fix a w w'
  let ?s = "s\<lparr>im_warned_uninit := w\<rparr>" and ?t = "t\<lparr>im_warned_uninit := w'\<rparr>"
  assume mm: "mirrors R ?s ?t"
  obtain e where e: "e \<le> 31" "unat (im_ring_dim s) = 2 ^ e"
    using mm by (auto simp: mirrors_def ring_ok_def)
  have d: "im_ring_dim t = im_ring_dim s" using mm by (simp add: mirrors_def)
  have "(2 :: nat) ^ e \<le> 2 ^ 31" using e(1) by (intro power_increasing) simp_all
  then have small: "unat (im_ring_dim s) < 2 ^ 32" using e(2) by simp
  then have uc: "unat (ucast (im_ring_dim s) :: u32) = 2 ^ e"
    using e by (simp add: unsigned_ucast_eq take_bit_nat_eq_self)
  have f: "automorph_loop x e mk a [0..<2 ^ e] x b = automorph_loop x e mk a [0..<2 ^ e] x b'"
    if "length b = unat (im_ring_dim ?s)" "length b' = unat (im_ring_dim ?s)" for x mk b b'
    using automorph_loop_fills [of e b b'] that e by simp
  have st: "mirror_res (redirect R (dest i) (dest j)) t
      (store_result (dest i) q (automorph_loop x e mk a [0..<2 ^ e] x) ?s)
      (store_result (dest j) q' (automorph_loop x e mk a [0..<2 ^ e] x) ?t)" for x mk
    by (rule mirror_store [OF mm _ _ f]) simp_all
  show "mirror_res (redirect R (dest i) (dest j)) t
     (case k_op i of None \<Rightarrow> Inr (False, sim_error ?s)
      | Some k64 \<Rightarrow> if unat (im_ring_dim ?s) > 2 ^ 32 then Inl Diverges
          else let k = (ucast k64 :: u32); lg = log2_loop (unat (ucast (im_ring_dim ?s) :: u32));
                   mk = push_bit lg 1 - 1
               in store_result (dest i) q (automorph_loop k lg mk a [0..<unat (im_ring_dim ?s)] k) ?s)
     (case k_op j of None \<Rightarrow> Inr (False, sim_error ?t)
      | Some k64 \<Rightarrow> if unat (im_ring_dim ?t) > 2 ^ 32 then Inl Diverges
          else let k = (ucast k64 :: u32); lg = log2_loop (unat (ucast (im_ring_dim ?t) :: u32));
                   mk = push_bit lg 1 - 1
               in store_result (dest j) q' (automorph_loop k lg mk a [0..<unat (im_ring_dim ?t)] k) ?t)"
    using small e(2) uc k st by (cases "k_op i") (simp_all add: d log2_loop_power Let_def)
qed

lemma mirror_rot:
  assumes m: "mirrors R s t" "resolves i q s" "resolves j q t" "(ucast (src1 i), ucast (src1 j)) \<in> R"
    and k: "\<And>x. offset i = Some x \<Longrightarrow> offset j = Some x"
  shows "mirror_res (redirect R (dest i) (dest j)) t (exec_rot_automorph_coeff i s) (exec_rot_automorph_coeff j t)"
  unfolding exec_rot_automorph_coeff_def
proof (rule mirror_unary [OF m])
  fix a w w'
  let ?s = "s\<lparr>im_warned_uninit := w\<rparr>" and ?t = "t\<lparr>im_warned_uninit := w'\<rparr>"
  assume mm: "mirrors R ?s ?t"
  have d: "im_ring_dim t = im_ring_dim s" using mm by (simp add: mirrors_def)
  have st: "mirror_res (redirect R (dest i) (dest j)) t
      (store_result (dest i) q (copy_result v (im_ring_dim s)) ?s)
      (store_result (dest j) q (copy_result v (im_ring_dim s)) ?t)" for v
    using mirror_store_copy [OF mm, of t] d by simp
  show "mirror_res (redirect R (dest i) (dest j)) t
     (case offset i of None \<Rightarrow> Inr (False, sim_error ?s)
      | Some off \<Rightarrow> res_bind (map_res (rot_value q (im_ring_dim ?s) a off) [0..<unat (im_ring_dim ?s)])
          (\<lambda>vals. store_result (dest i) q (copy_result vals (im_ring_dim ?s)) ?s))
     (case offset j of None \<Rightarrow> Inr (False, sim_error ?t)
      | Some off \<Rightarrow> res_bind (map_res (rot_value q (im_ring_dim ?t) a off) [0..<unat (im_ring_dim ?t)])
          (\<lambda>vals. store_result (dest j) q (copy_result vals (im_ring_dim ?t)) ?t))"
    using k st by (cases "offset i") (auto simp: d res_bind_def split: sum.split)
qed

section \<open>One instruction\<close>

text \<open>The opcodes the simulator executes.\<close>

definition executed_opcodes :: "u8 set" where
  "executed_opcodes = {FH_SR_ADDP, FH_SR_SUBP, FH_SR_MULP, FH_SR_ADDPS, FH_SR_SUBPS, FH_SR_MULPS,
     FH_SR_ADDPS_COEFF, FH_SR_SUBPS_COEFF, FH_SR_NEGP, FH_SR_NTT, FH_SR_INTT, FH_SR_AUTOMORPH_EVAL,
     FH_SR_ROT_AUTOMORPH_COEFF}"

definition read_pairs :: "Instruction \<Rightarrow> Instruction \<Rightarrow> (u64 \<times> u64) set" where
  "read_pairs i j =
     (if opcode i \<in> {FH_SR_ADDP, FH_SR_SUBP, FH_SR_MULP}
      then {(ucast (src1 i), ucast (src1 j)), (ucast (src2 i), ucast (src2 j))}
      else if opcode i = FH_SR_MULPS \<and> imm_or_0 i = 0 then {}
      else {(ucast (src1 i), ucast (src1 j))})"

lemma mirror_instruction:
  assumes m: "mirrors R s t" and q: "resolves i q s" "resolves j q' t"
    and qq: "opcode i \<noteq> FH_SR_AUTOMORPH_EVAL \<Longrightarrow> q' = q" and r: "renamed i j" "read_pairs i j \<subseteq> R"
    and x: "opcode i \<in> executed_opcodes"
  shows "mirror_res (redirect R (dest i) (dest j)) t (exec_instruction be i s) (exec_instruction be j t)"
proof -
  have op: "opcode j = opcode i" using r(1) by (auto simp: renamed_def)
  have two: "(ucast (src1 i), ucast (src1 j)) \<in> R" "(ucast (src2 i), ucast (src2 j)) \<in> R"
    if "opcode i \<in> {FH_SR_ADDP, FH_SR_SUBP, FH_SR_MULP}" using that r(2) by (auto simp: read_pairs_def)
  have one: "(ucast (src1 i), ucast (src1 j)) \<in> R" if "opcode i \<notin> {FH_SR_ADDP, FH_SR_SUBP, FH_SR_MULP, FH_SR_MULPS}"
    using that r(2) by (auto simp: read_pairs_def)
  have mul: "(ucast (src1 i), ucast (src1 j)) \<in> R" if "opcode i = FH_SR_MULPS" "imm_or_0 i \<noteq> 0"
    using that r(2) by (auto simp: read_pairs_def)
  consider "opcode i \<in> {FH_SR_ADDP, FH_SR_SUBP, FH_SR_MULP}"
    | "opcode i \<in> {FH_SR_ADDPS, FH_SR_ADDPS_COEFF, FH_SR_SUBPS, FH_SR_SUBPS_COEFF}" | "opcode i = FH_SR_NEGP"
    | "opcode i = FH_SR_MULPS" | "opcode i \<in> {FH_SR_NTT, FH_SR_INTT}" | "opcode i = FH_SR_AUTOMORPH_EVAL"
    | "opcode i = FH_SR_ROT_AUTOMORPH_COEFF"
    using x unfolding executed_opcodes_def by blast
  then show ?thesis
  proof cases
    case 1
    then show ?thesis using mirror_binary [OF m q(1) _ two] q(2) qq op
      by (auto simp: exec_instruction_def Let_def exec_addp_def exec_subp_def exec_mulp_def)
  next
    case 2
    then have o: "(ucast (src1 i), ucast (src1 j)) \<in> R" and e: "q' = q" and imm: "imm_or_0 j = imm_or_0 i"
      using one qq r(1) by (auto simp: renamed_def)
    show ?thesis using 2 mirror_scalars [OF m q(1) q(2) [unfolded e] o imm] op
      by (auto simp: exec_instruction_def Let_def)
  next
    case 3
    then have o: "(ucast (src1 i), ucast (src1 j)) \<in> R" and e: "q' = q" using one qq by auto
    show ?thesis using 3 mirror_negp [OF m q(1) q(2) [unfolded e] o] op
      by (simp add: exec_instruction_def Let_def)
  next
    case 4
    then have e: "q' = q" and imm: "imm_or_0 j = imm_or_0 i" using qq r(1) by (auto simp: renamed_def)
    show ?thesis using 4 mirror_mulps [OF m q(1) q(2) [unfolded e] imm] mul op
      by (simp add: exec_instruction_def Let_def)
  next
    case 5
    then have o: "(ucast (src1 i), ucast (src1 j)) \<in> R" and e: "q' = q" and w: "omega j = omega i"
      using one qq r(1) by (auto simp: renamed_def)
    show ?thesis using 5 mirror_transform [OF m q(1) q(2) [unfolded e] o w] op
      by (auto simp: exec_instruction_def Let_def exec_ntt_def exec_intt_def)
  next
    case 6
    then have o: "(ucast (src1 i), ucast (src1 j)) \<in> R" and k: "\<And>x. k_op i = Some x \<Longrightarrow> k_op j = Some x"
      using one r(1) by (auto simp: renamed_def)
    show ?thesis using 6 mirror_automorph [OF m q o k] op by (simp add: exec_instruction_def Let_def)
  next
    case 7
    then have o: "(ucast (src1 i), ucast (src1 j)) \<in> R" and e: "q' = q"
      and k: "\<And>x. offset i = Some x \<Longrightarrow> offset j = Some x" using one qq r(1) by (auto simp: renamed_def)
    show ?thesis using 7 mirror_rot [OF m q(1) q(2) [unfolded e] o k] op
      by (simp add: exec_instruction_def Let_def)
  qed
qed

end
