(* ===== verification/TraceRedrive.thy ===== *)
theory TraceRedrive
  imports TraceDriver KernelMirror
begin

text \<open>
  Driving a trace records a trace that computes the same.  Each instruction is recorded once, with the
  addresses of the polynomials in place of the addresses of the file; an address that is read before it
  is written becomes an input; and a run of the second trace on the same inputs ends with the same
  values.
\<close>

section \<open>What a recording function makes\<close>

definition ready :: "ApiState \<Rightarrow> bool" where
  "ready s \<longleftrightarrow> writer_ready s \<and> length (table_of s) < 2 ^ 32"

definition ends :: "(Instruction \<Rightarrow> bool) \<Rightarrow> u64 \<Rightarrow> Polynomial \<Rightarrow> Polynomial api \<Rightarrow> bool" where
  "ends P q p K \<longleftrightarrow>
     (\<forall>s. ready s \<longrightarrow> (\<exists>s'. K s = (Inr p, s') \<and> recorded P q 0 s s' \<and> input_registry s' = input_registry s \<and>
        length (table_of s') \<le> length (table_of s) + 1))"

definition makes :: "Polynomial api \<Rightarrow> u64 \<Rightarrow> u64 \<Rightarrow> (u64 \<Rightarrow> Instruction \<Rightarrow> bool) \<Rightarrow> bool" where
  "makes m rd q P \<longleftrightarrow>
     (\<forall>s. ready s \<longrightarrow>
        (\<exists>p s'. m s = (Inr (Some p), s') \<and> pi_address p = of_nat (next_address s) \<and> pi_ring_dim p = rd \<and>
           recorded (P (pi_address p)) q 1 s s' \<and> input_registry s' = input_registry s \<and>
           length (table_of s') \<le> length (table_of s) + 1))"

lemma ends_remember: "ends P q p K \<Longrightarrow> ends P q p (api_seq (remember_modulus a r) K)"
  unfolding ends_def
proof (intro allI impI)
  fix s
  assume K: "\<forall>s. ready s \<longrightarrow> (\<exists>s'. K s = (Inr p, s') \<and> recorded P q 0 s s' \<and> input_registry s' = input_registry s \<and>
      length (table_of s') \<le> length (table_of s) + 1)" and s: "ready s"
  obtain m where m: "remember_modulus a r s = (Inr (), s\<lparr>address_modulus_map := m\<rparr>)"
    using remember_modulus_run by blast
  have "ready (s\<lparr>address_modulus_map := m\<rparr>)" using s by (simp add: ready_def writer_ready_def)
  then obtain s' where "K (s\<lparr>address_modulus_map := m\<rparr>) = (Inr p, s')"
    "recorded P q 0 (s\<lparr>address_modulus_map := m\<rparr>) s'" "input_registry s' = input_registry s"
    "length (table_of s') \<le> length (table_of s) + 1" using K by fastforce
  then show "\<exists>s'. api_seq (remember_modulus a r) K s = (Inr p, s') \<and> recorded P q 0 s s' \<and>
      input_registry s' = input_registry s \<and> length (table_of s') \<le> length (table_of s) + 1"
    using m by (auto simp: api_seq_def api_bind_Inr recorded_def)
qed

lemma register_modulus_grows:
  "register_modulus q t = (m, t') \<Longrightarrow> length (tw_modulus_table t') \<le> length (tw_modulus_table t) + 1"
  by (auto simp: register_modulus_def Let_def split: option.splits if_splits)

lemma ends_emit:
  assumes "\<And>m. P (f m)" "\<And>m. \<not> modulus_is_literal (f m) \<and> modulus (f m) = Some (ucast (m :: u32))"
  shows "ends P q p (api_bind (midx q) (\<lambda>m. api_seq (api_emit (f m)) (api_return p)))"
  unfolding ends_def
proof (intro allI impI)
  fix s assume "ready s"
  then have s: "writer_ready s" "length (table_of s) < 2 ^ 32" by (simp_all add: ready_def)
  from midx_ready [OF this, of q] obtain m t where m: "midx q s = (Inr m, s\<lparr>as_writer := t\<rparr>)"
    "writer_ready (s\<lparr>as_writer := t\<rparr>)" "prefix (table_of s) (tw_modulus_table t)"
    "tw_instructions t = trace_of s" "unat m < length (tw_modulus_table t)" "tw_modulus_table t ! unat m = q"
    by blast
  have u: "unat (ucast m :: u64) = unat m" by (rule unat_ucast_up) simp
  have "in_modulus (table_of (s\<lparr>as_writer := t\<rparr>)) q (f m)"
    using assms(2) [of m] m(5,6) u by (auto simp: in_modulus_def)
  from emit_ready [OF m(2) this, of P] assms(1) obtain s' where e: "api_emit (f m) (s\<lparr>as_writer := t\<rparr>) = (Inr (), s')"
    "recorded P q 0 (s\<lparr>as_writer := t\<rparr>) s'" by blast
  have "length (tw_modulus_table t) \<le> length (table_of s) + 1"
    using arg_cong [OF m(1), of "as_writer \<circ> snd"]
    by (intro register_modulus_grows [of q _ "fst (register_modulus q (as_writer s))"]) (simp add: midx_def split_beta prod_eq_iff)
  moreover have "s' = s\<lparr>as_writer := emit (f m) t\<rparr>" using e(1) by (simp add: api_emit_def)
  ultimately show "\<exists>s'. api_bind (midx q) (\<lambda>m. api_seq (api_emit (f m)) (api_return p)) s = (Inr p, s') \<and>
      recorded P q 0 s s' \<and> input_registry s' = input_registry s \<and> length (table_of s') \<le> length (table_of s) + 1"
    using m e by (auto simp: api_bind_Inr api_seq_def api_return_run recorded_def emit_eq)
qed

lemma makes_result:
  assumes "\<And>p. pi_ring_dim p = ring_dimension_of a \<Longrightarrow> ends (P (pi_address p)) q (Some p) (K (Some p))"
  shows "makes (api_bind (make_result a f) K) (ring_dimension_of a) q P"
  unfolding makes_def
proof (intro allI impI)
  fix s assume s: "ready s"
  obtain p where p: "make_result a f s = (Inr (Some p), s\<lparr>next_address := next_address s + 1\<rparr>)"
    "pi_address p = of_nat (next_address s)" "pi_ring_dim p = ring_dimension_of a" using make_result_run by blast
  have "ready (s\<lparr>next_address := next_address s + 1\<rparr>)" using s by (simp add: ready_def writer_ready_def)
  then obtain s' where k: "K (Some p) (s\<lparr>next_address := next_address s + 1\<rparr>) = (Inr (Some p), s')"
    "recorded (P (pi_address p)) q 0 (s\<lparr>next_address := next_address s + 1\<rparr>) s'"
    "input_registry s' = input_registry s" "length (table_of s') \<le> length (table_of s) + 1"
    using assms [OF p(3)] unfolding ends_def by fastforce
  then show "\<exists>p s'. api_bind (make_result a f) K s = (Inr (Some p), s') \<and> pi_address p = of_nat (next_address s) \<and>
      pi_ring_dim p = ring_dimension_of a \<and> recorded (P (pi_address p)) q 1 s s' \<and>
      input_registry s' = input_registry s \<and> length (table_of s') \<le> length (table_of s) + 1"
    using p by (auto simp: api_bind_Inr recorded_def)
qed

text \<open>The shape of what is recorded.\<close>

definition shape1 :: "u8 \<Rightarrow> PolynomialImpl \<Rightarrow> u64 \<Rightarrow> Instruction \<Rightarrow> bool" where
  "shape1 op a p i \<longleftrightarrow> opcode i = op \<and> dest i = ucast p \<and> src1 i = ucast (pi_address a)"

lemmas ends_body = shape1_def ir_def Instruction_init_def

lemma makes_sr_binary:
  "makes (sr_binary op (Some a) (Some b) q) (pi_ring_dim a) q
     (\<lambda>p i. shape1 op a p i \<and> src2 i = ucast (pi_address b))"
  unfolding sr_binary_def make_result_like_def emit_defs
  by (auto intro!: makes_result [where a = "Some a", unfolded ring_dimension_of_def, simplified] ends_remember ends_emit
      simp: ends_body)

lemma makes_sr_poly_scalar:
  "makes (sr_poly_scalar op f (Some a) (Some sc) q) (pi_ring_dim a) q
     (\<lambda>p i. shape1 op a p i \<and> immediate i = Some (si_int_value sc))"
  unfolding sr_poly_scalar_def emit_defs
  by (auto intro!: makes_result [where a = "Some a", unfolded ring_dimension_of_def, simplified] ends_remember ends_emit
      simp: ends_body)

lemma makes_sr_unary:
  "makes (sr_unary op f (Some a) q) (pi_ring_dim a) q (shape1 op a)"
  unfolding sr_unary_def emit_defs
  by (auto intro!: makes_result [where a = "Some a", unfolded ring_dimension_of_def, simplified] ends_remember ends_emit
      simp: ends_body)

lemma makes_record_ntt:
  "makes (record_ntt op (Some a) q w) (pi_ring_dim a) q (\<lambda>p i. shape1 op a p i \<and> omega i = w)"
  unfolding record_ntt_def emit_defs
  by (auto intro!: makes_result [where a = "Some a", unfolded ring_dimension_of_def, simplified] ends_remember ends_emit
      simp: ends_body)

lemma makes_automorph_eval:
  "makes (sr_automorph_eval (Some a) k) (pi_ring_dim a) 0xFFFFFFFFFFFFFFFF
     (\<lambda>p i. shape1 FH_SR_AUTOMORPH_EVAL a p i \<and> k_op i = Some k)"
  unfolding sr_automorph_eval_def make_result_like_def
  by (auto intro!: makes_result [where a = "Some a", unfolded ring_dimension_of_def, simplified] ends_emit
      simp: ends_body)

lemma makes_rot:
  "makes (sr_rot_automorph_coeff (Some a) x q) (pi_ring_dim a) q
     (\<lambda>p i. shape1 FH_SR_ROT_AUTOMORPH_COEFF a p i \<and> offset i = Some x)"
  unfolding sr_rot_automorph_coeff_def
  by (auto intro!: makes_result [where a = "Some a", unfolded ring_dimension_of_def, simplified] ends_remember ends_emit
      simp: ends_body)

lemma makes_transform:
  assumes "op \<in> {FH_SR_NTT, FH_SR_INTT}" "\<And>w. omg = Some w \<Longrightarrow> is_primitive_2n_root w (pi_ring_dim a) q"
  shows "makes (transform_call op omg (Some a) q) (pi_ring_dim a) q (\<lambda>p i. shape1 op a p i \<and> omega i = omg)"
proof -
  have "api_seq (require_ntt_root w (pi_ring_dim a) q) K = K" if "omg = Some w" for w and K :: "Polynomial api"
    using assms(2) [OF that] by (simp add: require_ntt_root_def api_seq_def)
  then have "transform_call op omg (Some a) q = record_ntt op (Some a) q omg"
    using assms(1) by (auto simp: transform_call_def sr_ntt_def sr_intt_def sr_ntt_with_root_def
        sr_intt_with_root_def ring_dimension_of_def split: option.split)
  then show ?thesis by (simp add: makes_record_ntt)
qed

end
