(* ===== verification/DriveReplay.thy ===== *)
theory DriveReplay
  imports TraceRedrive
begin

text \<open>
  The driver step by step, and the run of the trace it records: from memories that agree on the
  live-in addresses, the original and the re-driven trace end with the same values at every address
  the driver knows.
\<close>

section \<open>The driver's invariant\<close>

lemma drive_bind_Inr: "m d = (Inr x, d') \<Longrightarrow> drive_bind m f d = f x d'"
  by (simp add: drive_bind_def)

definition tagged_at :: "Driver \<Rightarrow> u64 \<Rightarrow> u64 \<Rightarrow> bool" where
  "tagged_at d a n \<longleftrightarrow> (\<exists>p. pi_address p = n \<and>
     \<lparr>re_name = input_name a, re_value = POLY (Some p)\<rparr> \<in> set (input_registry (dv_api d)))"

text \<open>
  Where the input at address \<open>a\<close> of the file is found: captured with the values of the caller, or
  tagged for the synchronization.
\<close>

definition input_at :: "DriveEnv \<Rightarrow> Driver \<Rightarrow> u64 \<Rightarrow> u64 \<Rightarrow> bool" where
  "input_at env d a n \<longleftrightarrow>
     (case dv_inputs env a of
        None \<Rightarrow> tagged_at d a n
      | Some el \<Rightarrow>
          if de_values el = [] then tagged_at d a n
          else \<exists>r \<in> set (captured_inputs (dv_captured d)). ci_name r = input_name a \<and>
                 input_element (dv_streaming env) n (de_modulus el) (de_values el) \<in> set (ci_elements r))"

definition captured_srp :: "Captured \<Rightarrow> bool" where
  "captured_srp c \<longleftrightarrow> capture_ok c \<and> (\<forall>r \<in> set (captured_inputs c). ci_kind r = SRP)"

definition captured_grows :: "Captured \<Rightarrow> Captured \<Rightarrow> bool" where
  "captured_grows c c' \<longleftrightarrow>
     (\<forall>r \<in> set (captured_inputs c). \<exists>r' \<in> set (captured_inputs c').
        ci_name r' = ci_name r \<and> set (ci_elements r) \<subseteq> set (ci_elements r'))"

definition poly_in :: "DriveEnv \<Rightarrow> nat \<Rightarrow> Polynomial \<Rightarrow> bool" where
  "poly_in env n p \<longleftrightarrow> (\<exists>i. p = Some i \<and> unat (pi_address i) < n \<and> pi_ring_dim i = dv_ring_dim env)"

definition driver_ok :: "DriveEnv \<Rightarrow> u64 list \<Rightarrow> Driver \<Rightarrow> bool" where
  "driver_ok env tab d \<longleftrightarrow>
     writer_ready (dv_api d) \<and> ds_modulus_table (dv_stats d) = tab \<and> captured_srp (dv_captured d) \<and>
     (\<forall>p \<in> ran (dv_polys d). poly_in env (next_address (dv_api d)) p)"

text \<open>What every step keeps.\<close>

definition advances :: "DriveEnv \<Rightarrow> nat \<Rightarrow> Driver \<Rightarrow> Driver \<Rightarrow> bool" where
  "advances env n d d' \<longleftrightarrow>
     next_address (dv_api d) \<le> next_address (dv_api d') \<and>
     next_address (dv_api d') \<le> next_address (dv_api d) + n \<and>
     set (input_registry (dv_api d)) \<subseteq> set (input_registry (dv_api d')) \<and>
     captured_grows (dv_captured d) (dv_captured d')"

lemma captured_grows_refl [simp]: "captured_grows c c"
  by (auto simp: captured_grows_def)

lemma captured_grows_trans: "captured_grows a b \<Longrightarrow> captured_grows b c \<Longrightarrow> captured_grows a c"
  unfolding captured_grows_def by (metis subset_trans)

lemma advances_refl [simp]: "advances env n d d"
  by (simp add: advances_def)

lemma advances_trans: "advances env n d d1 \<Longrightarrow> advances env m d1 d2 \<Longrightarrow> advances env (n + m) d d2"
  unfolding advances_def by (auto intro: captured_grows_trans)

lemma input_at_advances: "advances env n d d' \<Longrightarrow> input_at env d a x \<Longrightarrow> input_at env d' a x"
  unfolding advances_def captured_grows_def input_at_def tagged_at_def
  by (auto split: option.splits if_splits) (metis subsetD)

lemma poly_in_mono: "poly_in env n p \<Longrightarrow> n \<le> m \<Longrightarrow> poly_in env m p"
  by (auto simp: poly_in_def)

lemma capture_element:
  assumes c: "captured_srp c"
  obtains c' where "store_input_element nd st nm SRP False a q vs c = Inr c'" "captured_srp c'"
    "captured_grows c c'"
    "\<exists>r \<in> set (captured_inputs c'). ci_name r = nm \<and> input_element st a q vs \<in> set (ci_elements r)"
proof -
  have ok: "capture_ok c" and srp: "\<And>r. r \<in> set (captured_inputs c) \<Longrightarrow> ci_kind r = SRP"
    using c by (auto simp: captured_srp_def)
  have "\<exists>c'. store_input_element nd st nm SRP False a q vs c = Inr c' \<and>
      (\<forall>r \<in> set (captured_inputs c'). ci_kind r = SRP) \<and> captured_grows c c' \<and>
      (\<exists>r \<in> set (captured_inputs c'). ci_name r = nm \<and> input_element st a q vs \<in> set (ci_elements r))"
    using ok
  proof (cases rule: store_input_cases [where nd = nd and st = st and nm = nm and k = SRP and b = False and a = a and q = q and vs = vs])
    case new
    then show ?thesis using srp by (auto simp: captured_grows_def fresh_input_def)
  next
    case (mismatch i)
    then show ?thesis using srp by simp
  next
    case (old i)
    let ?r = "(captured_inputs c ! i)\<lparr>ci_elements := ci_elements (captured_inputs c ! i) @ [input_element st a q vs]\<rparr>"
    let ?c = "c\<lparr>captured_inputs := (captured_inputs c)[i := ?r]\<rparr>"
    have run: "store_input_element nd st nm SRP False a q vs c = Inr ?c" using old by simp
    have mem: "?r \<in> set ((captured_inputs c)[i := ?r])" using old(2) by (rule set_update_memI)
    have "ci_name (captured_inputs c ! i) = nm" using ok old by (auto simp: capture_ok_def index_ok_def)
    moreover have "captured_grows c ?c" unfolding captured_grows_def
    proof
      fix r assume "r \<in> set (captured_inputs c)"
      then obtain k where k: "k < length (captured_inputs c)" "r = captured_inputs c ! k"
        by (auto simp: in_set_conv_nth)
      have "(captured_inputs c)[i := ?r] ! k \<in> set (captured_inputs ?c)" using k(1) by simp
      moreover have "ci_name ((captured_inputs c)[i := ?r] ! k) = ci_name r \<and>
          set (ci_elements r) \<subseteq> set (ci_elements ((captured_inputs c)[i := ?r] ! k))"
        using k by (cases "k = i") auto
      ultimately show "\<exists>r' \<in> set (captured_inputs ?c). ci_name r' = ci_name r \<and> set (ci_elements r) \<subseteq> set (ci_elements r')"
        by blast
    qed
    moreover have "\<forall>r \<in> set (captured_inputs ?c). ci_kind r = SRP"
      using srp old by (auto dest!: subsetD [OF set_update_subset_insert])
    ultimately show ?thesis using run mem by (intro exI [of _ ?c]) (auto intro!: bexI [of _ ?r])
  qed
  then show thesis using that ok store_input_ok [OF ok] unfolding captured_srp_def by blast
qed

section \<open>Sources\<close>

text \<open>After a source operand has been looked up or made.\<close>

definition src_step :: "DriveEnv \<Rightarrow> u64 list \<Rightarrow> u64 \<Rightarrow> PolynomialImpl \<Rightarrow> Driver \<Rightarrow> Driver \<Rightarrow> bool" where
  "src_step env tab a i d d' \<longleftrightarrow>
     driver_ok env tab d' \<and> as_writer (dv_api d') = as_writer (dv_api d) \<and> advances env 1 d d' \<and>
     dv_polys d' = (dv_polys d)(a \<mapsto> Some i) \<and> poly_in env (next_address (dv_api d')) (Some i) \<and>
     (case dv_polys d a of Some p \<Rightarrow> p = Some i \<and> d' = d | None \<Rightarrow> next_address (dv_api d) \<le> unat (pi_address i))"

lemma src_known:
  assumes "driver_ok env tab d" "dv_polys d a = Some p"
  obtains i where "p = Some i" "src_step env tab a i d d"
proof -
  have "poly_in env (next_address (dv_api d)) p" using assms by (auto simp: driver_ok_def intro: ranI)
  then obtain i where "p = Some i" by (auto simp: poly_in_def)
  with assms that show thesis
    using \<open>poly_in env (next_address (dv_api d)) p\<close> by (simp add: src_step_def map_upd_triv)
qed

text \<open>A new polynomial for the address, with the registry and the captured records grown.\<close>

lemma src_new:
  assumes ok: "driver_ok env tab d" and new: "dv_polys d a = None" and room: "next_address (dv_api d) < 2 ^ 32"
    and i: "pi_address i = of_nat (next_address (dv_api d))" "pi_ring_dim i = dv_ring_dim env"
    and d': "dv_polys d' = (dv_polys d)(a \<mapsto> Some i)" "ds_modulus_table (dv_stats d') = ds_modulus_table (dv_stats d)"
      "as_writer (dv_api d') = as_writer (dv_api d)" "next_address (dv_api d') = next_address (dv_api d) + 1"
      "set (input_registry (dv_api d)) \<subseteq> set (input_registry (dv_api d'))"
      "captured_srp (dv_captured d')" "captured_grows (dv_captured d) (dv_captured d')"
  shows "src_step env tab a i d d'"
proof -
  have u: "unat (pi_address i) = next_address (dv_api d)" using i(1) room by (simp add: unat_of_nat_address)
  then have p: "poly_in env (next_address (dv_api d')) (Some i)" using i(2) d'(4) by (simp add: poly_in_def)
  have "poly_in env (next_address (dv_api d')) x" if "x \<in> ran (dv_polys d')" for x
    using that p ok d'(4) new poly_in_mono [of env "next_address (dv_api d)" x "next_address (dv_api d')"]
    unfolding d'(1) driver_ok_def by (auto simp: ran_def split: if_splits)
  then have "driver_ok env tab d'"
    using ok d' writer_ready_cong [OF d'(3)] by (simp add: driver_ok_def)
  then show ?thesis using u p new d' by (simp add: src_step_def advances_def)
qed

lemma get_src:
  assumes ok: "driver_ok env tab d" and room: "next_address (dv_api d) < 2 ^ 32"
  obtains i d' where "get_or_create_src env a d = (Inr (Some i), d')" "src_step env tab a i d d'"
    "dv_polys d a = None \<Longrightarrow> input_at env d' a (pi_address i)"
proof (cases "dv_polys d a")
  case (Some p)
  obtain i where "p = Some i" "src_step env tab a i d d" by (rule src_known [OF ok Some])
  then show thesis using that [of i d] Some by (simp add: get_or_create_src_def)
next
  case new: None
  show thesis
  proof (cases "\<exists>el. dv_inputs env a = Some el \<and> de_values el \<noteq> []")
    case True
    then obtain el where el: "dv_inputs env a = Some el" "de_values el \<noteq> []" by blast
    define i where "i = \<lparr>pi_address = of_nat (next_address (dv_api d)), pi_ring_dim = dv_ring_dim env,
      pi_fmt = Evaluation, pi_ntype = Integer, pi_int_data = de_values el, pi_fp_data = []\<rparr>"
    have c: "captured_srp (dv_captured d)" using ok by (simp add: driver_ok_def)
    obtain c' where st: "store_input_element (dv_ndebug env) (dv_streaming env) (input_name a) SRP False
        (pi_address i) (de_modulus el) (de_values el) (dv_captured d) = Inr c'"
      and c': "captured_srp c'" "captured_grows (dv_captured d) c'"
      and r: "\<exists>r \<in> set (captured_inputs c'). ci_name r = input_name a \<and>
        input_element (dv_streaming env) (pi_address i) (de_modulus el) (de_values el) \<in> set (ci_elements r)"
      by (rule capture_element [OF c])
    let ?d = "on_stats (\<lambda>st. st\<lparr>ds_inputs_materialized := ds_inputs_materialized st + 1\<rparr>)
      (d\<lparr>dv_api := (dv_api d)\<lparr>next_address := next_address (dv_api d) + 1\<rparr>, dv_captured := c'\<rparr>)"
    let ?d' = "?d\<lparr>dv_polys := (dv_polys d)(a \<mapsto> Some i)\<rparr>"
    have run: "get_or_create_src env a d = (Inr (Some i), ?d')"
      using st new el
      by (simp add: get_or_create_src_def drive_bind_def drive_api_def from_data_def new_polynomial_def
          api_bind_def alloc_address_def api_return_def capture_input_def poly_emplace_def on_stats_def i_def)
    have "src_step env tab a i d ?d'"
      by (rule src_new [OF ok new room]) (use c' in \<open>simp_all add: i_def on_stats_def\<close>)
    then show thesis using that [OF run] r el by (simp add: input_at_def on_stats_def)
  next
    case False
    define i where "i = \<lparr>pi_address = of_nat (next_address (dv_api d)), pi_ring_dim = dv_ring_dim env,
      pi_fmt = Evaluation, pi_ntype = Integer, pi_int_data = [], pi_fp_data = []\<rparr>"
    let ?d' = "d\<lparr>dv_api := (dv_api d)\<lparr>next_address := next_address (dv_api d) + 1,
        input_registry := input_registry (dv_api d) @ [\<lparr>re_name = input_name a, re_value = POLY (Some i)\<rparr>]\<rparr>,
      dv_polys := (dv_polys d)(a \<mapsto> Some i)\<rparr>"
    have run: "get_or_create_src env a d = (Inr (Some i), ?d')"
      using new False
      by (auto simp: get_or_create_src_def drive_bind_def drive_api_def zeros_def new_polynomial_def tag_input_def
          api_bind_def alloc_address_def api_return_def poly_emplace_def i_def split: option.split)
    have "src_step env tab a i d ?d'"
      by (rule src_new [OF ok new room]) (use ok in \<open>auto simp: i_def driver_ok_def\<close>)
    moreover have "input_at env ?d' a (pi_address i)"
      using False by (auto simp: input_at_def tagged_at_def split: option.split)
    ultimately show thesis using that [OF run] by blast
  qed
qed

lemma get_zero_src:
  assumes ok: "driver_ok env tab d" and room: "next_address (dv_api d) < 2 ^ 32"
  obtains i d' where "get_or_create_zero_src env a d = (Inr (Some i), d')" "src_step env tab a i d d'"
proof (cases "dv_polys d a")
  case (Some p)
  obtain i where "p = Some i" "src_step env tab a i d d" by (rule src_known [OF ok Some])
  then show thesis using that [of i d] Some by (simp add: get_or_create_zero_src_def)
next
  case new: None
  define i where "i = \<lparr>pi_address = of_nat (next_address (dv_api d)), pi_ring_dim = dv_ring_dim env,
    pi_fmt = Evaluation, pi_ntype = Integer, pi_int_data = [], pi_fp_data = []\<rparr>"
  let ?d' = "d\<lparr>dv_api := (dv_api d)\<lparr>next_address := next_address (dv_api d) + 1\<rparr>,
    dv_polys := (dv_polys d)(a \<mapsto> Some i)\<rparr>"
  have run: "get_or_create_zero_src env a d = (Inr (Some i), ?d')"
    using new by (simp add: get_or_create_zero_src_def drive_bind_def drive_api_def zeros_def new_polynomial_def
        api_bind_def alloc_address_def api_return_def poly_emplace_def i_def)
  have "src_step env tab a i d ?d'"
    by (rule src_new [OF ok new room]) (use ok in \<open>auto simp: i_def driver_ok_def\<close>)
  then show thesis using that [OF run] by blast
qed

section \<open>One instruction\<close>

definition modulus_of :: "u64 list \<Rightarrow> Instruction \<Rightarrow> u64 option" where
  "modulus_of tab inst =
     (case modulus inst of
        None \<Rightarrow> None
      | Some m \<Rightarrow> if modulus_is_literal inst then Some m else if unat m < length tab then Some (tab ! unat m) else None)"

text \<open>
  The instructions a drive carries over: executed by the simulator, with a modulus that resolves, a
  recorded root that is one, and the zero-initialisation in the form the recorder writes it, with the
  destination as its own source.
\<close>

definition drivable :: "u64 list \<Rightarrow> u64 \<Rightarrow> Instruction \<Rightarrow> bool" where
  "drivable tab ring_dim inst \<longleftrightarrow>
     (if opcode inst = FH_HALT then modulus inst = None
      else opcode inst \<in> executed_opcodes \<and>
        (case modulus_of tab inst of
           None \<Rightarrow> False
         | Some q \<Rightarrow> opcode inst \<in> {FH_SR_NTT, FH_SR_INTT} \<longrightarrow>
             (case omega inst of None \<Rightarrow> True | Some w \<Rightarrow> is_primitive_2n_root w ring_dim q)) \<and>
        (opcode inst = FH_SR_MULPS \<and> imm_or_0 inst = 0 \<longrightarrow> src1 inst = dest inst))"

definition recorded_modulus :: "Instruction \<Rightarrow> u64 \<Rightarrow> u64" where
  "recorded_modulus inst q = (if opcode inst = FH_SR_AUTOMORPH_EVAL then 0xFFFFFFFFFFFFFFFF else q)"

text \<open>A call of the recording interface and the \<open>put\<close> of its result.\<close>

lemma put_call:
  assumes ok: "driver_ok env tab d" and m: "makes m (dv_ring_dim env) q P"
    and room: "next_address (dv_api d) < 2 ^ 32" "length (table_of (dv_api d)) < 2 ^ 32"
  obtains p d' j where "drive_bind (drive_api m) (poly_put a) d = (Inr True, d')" "driver_ok env tab d'"
    "advances env 1 d d'" "trace_of (dv_api d') = trace_of (dv_api d) @ [j]" "in_modulus (table_of (dv_api d')) q j"
    "P (pi_address p) j" "dv_polys d' = (dv_polys d)(a \<mapsto> Some p)" "unat (pi_address p) = next_address (dv_api d)"
    "prefix (table_of (dv_api d)) (table_of (dv_api d'))"
    "length (table_of (dv_api d')) \<le> length (table_of (dv_api d)) + 1"
proof -
  have "ready (dv_api d)" using ok room by (simp add: ready_def driver_ok_def)
  then obtain p s' where run: "m (dv_api d) = (Inr (Some p), s')" and p: "pi_address p = of_nat (next_address (dv_api d))"
      "pi_ring_dim p = dv_ring_dim env" and r: "recorded (P (pi_address p)) q 1 (dv_api d) s'"
      "input_registry s' = input_registry (dv_api d)" "length (table_of s') \<le> length (table_of (dv_api d)) + 1"
    using m unfolding makes_def by blast
  obtain j where j: "trace_of s' = trace_of (dv_api d) @ [j]" "in_modulus (table_of s') q j" "P (pi_address p) j"
    "writer_ready s'" "next_address s' = next_address (dv_api d) + 1" "prefix (table_of (dv_api d)) (table_of s')"
    using r(1) by (auto simp: recorded_def)
  let ?d' = "d\<lparr>dv_api := s', dv_polys := (dv_polys d)(a \<mapsto> Some p)\<rparr>"
  have u: "unat (pi_address p) = next_address (dv_api d)" using p(1) room(1) by (simp add: unat_of_nat_address)
  have "poly_in env (next_address s') x" if "x \<in> ran ((dv_polys d)(a \<mapsto> Some p))" for x
    using that ok j(5) p u poly_in_mono [of env "next_address (dv_api d)" x "next_address s'"]
    unfolding driver_ok_def by (auto simp: ran_def poly_in_def split: if_splits)
  then have "driver_ok env tab ?d'" using ok j(4) by (simp add: driver_ok_def)
  then show thesis
    using that [of ?d' j p] run j r u by (simp add: drive_bind_def drive_api_def poly_put_def advances_def)
qed

text \<open>What one driven instruction has done; \<open>P\<close> is the map once the sources are there.\<close>

definition driven ::
  "DriveEnv \<Rightarrow> u64 list \<Rightarrow> Instruction \<Rightarrow> u64 \<Rightarrow> Driver \<Rightarrow> Instruction \<Rightarrow> (u64 \<rightharpoonup> Polynomial) \<Rightarrow> PolynomialImpl \<Rightarrow> Driver \<Rightarrow> bool" where
  "driven env tab inst q d j P p d' \<longleftrightarrow>
     driver_ok env tab d' \<and> advances env 4 d d' \<and>
     prefix (table_of (dv_api d)) (table_of (dv_api d')) \<and>
     length (table_of (dv_api d')) \<le> length (table_of (dv_api d)) + 1 \<and>
     trace_of (dv_api d') = trace_of (dv_api d) @ [j] \<and>
     in_modulus (table_of (dv_api d')) (recorded_modulus inst q) j \<and> renamed inst j \<and>
     dest j = ucast (pi_address p) \<and> dv_polys d' = P(ucast (dest inst) \<mapsto> Some p) \<and>
     dom P = dom (dv_polys d) \<union> reads_of inst \<and> dv_polys d \<subseteq>\<^sub>m P \<and>
     next_address (dv_api d) \<le> unat (pi_address p) \<and>
     (\<forall>x \<in> ran P. poly_in env (unat (pi_address p)) x) \<and>
     (\<forall>a i. P a = Some (Some i) \<and> dv_polys d a = None \<longrightarrow>
        next_address (dv_api d) \<le> unat (pi_address i) \<and> input_at env d' a (pi_address i)) \<and>
     (\<forall>(a, b) \<in> read_pairs inst j. \<exists>i. P a = Some (Some i) \<and> b = pi_address i)"

lemma ucast_pair: "unat (pi_address i) < 2 ^ 32 \<Longrightarrow> ucast (ucast (pi_address i) :: u32) = pi_address i"
  by (rule ucast_address)

lemma src_step_D:
  assumes "src_step env tab a i d d'"
  shows "driver_ok env tab d'" "advances env 1 d d'" "table_of (dv_api d') = table_of (dv_api d)"
    "trace_of (dv_api d') = trace_of (dv_api d)" "dv_polys d' = (dv_polys d)(a \<mapsto> Some i)"
    "poly_in env (next_address (dv_api d')) (Some i)" "next_address (dv_api d') \<le> next_address (dv_api d) + 1"
    "next_address (dv_api d) \<le> next_address (dv_api d')"
  using assms by (simp_all add: src_step_def advances_def)

lemma in_ran_poly: "driver_ok env tab d \<Longrightarrow> x \<in> ran (dv_polys d) \<Longrightarrow> poly_in env (next_address (dv_api d)) x"
  by (simp add: driver_ok_def)

text \<open>The sources are there: the call and the \<open>put\<close> complete the instruction.\<close>

lemma driven_put:
  assumes d1: "driver_ok env tab d1" "advances env 3 d d1" "as_writer (dv_api d1) = as_writer (dv_api d)"
    and room: "next_address (dv_api d1) < 2 ^ 32" "length (table_of (dv_api d)) < 2 ^ 32"
    and call: "makes m (dv_ring_dim env) (recorded_modulus inst q) R"
    and P: "\<And>p. (dv_polys d1)(ucast (dest inst) \<mapsto> p) = P(ucast (dest inst) \<mapsto> p)"
      "dom P = dom (dv_polys d) \<union> reads_of inst" "dv_polys d \<subseteq>\<^sub>m P"
      "\<And>x. x \<in> ran P \<Longrightarrow> poly_in env (next_address (dv_api d1)) x"
      "\<And>a i. P a = Some (Some i) \<Longrightarrow> dv_polys d a = None \<Longrightarrow>
         next_address (dv_api d) \<le> unat (pi_address i) \<and> input_at env d1 a (pi_address i)"
    and R: "\<And>p j. R p j \<Longrightarrow> dest j = ucast p \<and> renamed inst j \<and>
      (\<forall>(a, b) \<in> read_pairs inst j. \<exists>i. P a = Some (Some i) \<and> b = pi_address i)"
  shows "\<exists>d' j P p. drive_bind (drive_api m) (poly_put (ucast (dest inst))) d1 = (Inr True, d') \<and>
    driven env tab inst q d j P p d'"
proof -
  have room': "length (table_of (dv_api d1)) < 2 ^ 32" using room d1(3) by simp
  obtain p d' j where put: "drive_bind (drive_api m) (poly_put (ucast (dest inst))) d1 = (Inr True, d')"
    and ok': "driver_ok env tab d'" and adv: "advances env 1 d1 d'" and j: "trace_of (dv_api d') = trace_of (dv_api d1) @ [j]"
    "in_modulus (table_of (dv_api d')) (recorded_modulus inst q) j" "R (pi_address p) j"
    "dv_polys d' = (dv_polys d1)(ucast (dest inst) \<mapsto> Some p)" "unat (pi_address p) = next_address (dv_api d1)"
    "prefix (table_of (dv_api d1)) (table_of (dv_api d'))" "length (table_of (dv_api d')) \<le> length (table_of (dv_api d1)) + 1"
    by (rule put_call [OF d1(1) call room(1) room', of "ucast (dest inst)"])
  have "advances env 4 d d'" using advances_trans [OF d1(2) adv] by simp
  moreover have "input_at env d' a (pi_address i)" "next_address (dv_api d) \<le> unat (pi_address i)"
    if "P a = Some (Some i)" "dv_polys d a = None" for a i
    using P(5) [OF that] input_at_advances [OF adv] by auto
  moreover have "next_address (dv_api d) \<le> unat (pi_address p)" using d1(2) j(5) by (simp add: advances_def)
  ultimately have "driven env tab inst q d j P p d'"
    unfolding driven_def using ok' j d1(3) P(1-4) R [OF j(3)] by auto
  then show ?thesis using put by blast
qed

lemma src_input:
  assumes "src_step env tab a i d d1" "dv_polys d a = None \<Longrightarrow> input_at env d1 a (pi_address i)"
    and "dv_polys d1 b = Some (Some k)" "dv_polys d b = None"
  shows "next_address (dv_api d) \<le> unat (pi_address k)" "input_at env d1 b (pi_address k)"
  using assms by (auto simp: src_step_def split: if_splits)

lemma src_map_le: "src_step env tab a i d d1 \<Longrightarrow> dv_polys d \<subseteq>\<^sub>m dv_polys d1"
  by (auto simp: src_step_def map_le_def split: option.splits)

lemma map_le_lookup: "m \<subseteq>\<^sub>m m' \<Longrightarrow> m k = Some v \<Longrightarrow> m' k = Some v"
  by (metis domI map_le_def)

lemma poly_small: "poly_in env n (Some i) \<Longrightarrow> n \<le> 2 ^ 32 \<Longrightarrow> ucast (ucast (pi_address i) :: u32) = pi_address i"
  by (rule ucast_address) (simp add: poly_in_def)

lemma poly_ring_dim: "poly_in env n (Some i) \<Longrightarrow> pi_ring_dim i = dv_ring_dim env"
  by (simp add: poly_in_def)

lemma drive_unary_step:
  assumes ok: "driver_ok env tab d" and room: "next_address (dv_api d) + 4 \<le> 2 ^ 32" "length (table_of (dv_api d)) < 2 ^ 32"
    and call: "\<And>a. pi_ring_dim a = dv_ring_dim env \<Longrightarrow>
      makes (call (Some a)) (dv_ring_dim env) (recorded_modulus inst q) (\<lambda>p j. shape1 (opcode inst) a p j \<and> Q j)"
    and Q: "\<And>j. opcode j = opcode inst \<Longrightarrow> Q j \<Longrightarrow> renamed inst j"
    and op: "reads_of inst = {ucast (src1 inst)}"
      "\<And>j. read_pairs inst j = {(ucast (src1 inst), ucast (src1 j))}"
  shows "\<exists>d' j P p. drive_unary env inst call d = (Inr True, d') \<and> driven env tab inst q d j P p d'"
proof -
  have "next_address (dv_api d) < 2 ^ 32" using room by simp
  from get_src [OF ok this, of "ucast (src1 inst)"] obtain i d1 where
    g: "get_or_create_src env (ucast (src1 inst)) d = (Inr (Some i), d1)" and s: "src_step env tab (ucast (src1 inst)) i d d1"
    and inp: "dv_polys d (ucast (src1 inst)) = None \<Longrightarrow> input_at env d1 (ucast (src1 inst)) (pi_address i)" by blast
  note sd = src_step_D [OF s]
  have r1: "next_address (dv_api d1) < 2 ^ 32" using room sd(7) by simp
  have "ucast (ucast (pi_address i) :: u32) = pi_address i" using poly_small [OF sd(6)] r1 by simp
  then have "\<exists>d' j P p. drive_bind (drive_api (call (Some i))) (poly_put (ucast (dest inst))) d1 = (Inr True, d') \<and>
      driven env tab inst q d j P p d'"
    using src_input [OF s inp] src_map_le [OF s] in_ran_poly [OF sd(1)] sd op Q s
    by (intro driven_put [OF sd(1) _ _ r1 room(2) call [OF poly_ring_dim [OF sd(6)]], where P = "dv_polys d1"])
      (auto simp: shape1_def src_step_def advances_def)
  then show ?thesis by (simp add: drive_unary_def drive_bind_Inr g)
qed

lemma drive_binary_step:
  assumes ok: "driver_ok env tab d" and room: "next_address (dv_api d) + 4 \<le> 2 ^ 32" "length (table_of (dv_api d)) < 2 ^ 32"
    and call: "\<And>a b. pi_ring_dim a = dv_ring_dim env \<Longrightarrow>
      makes (call (Some a) (Some b)) (dv_ring_dim env) (recorded_modulus inst q)
        (\<lambda>p j. shape1 (opcode inst) a p j \<and> src2 j = ucast (pi_address b))"
    and op: "reads_of inst = {ucast (src1 inst), ucast (src2 inst)}" "\<And>j. opcode j = opcode inst \<Longrightarrow> renamed inst j"
      "\<And>j. read_pairs inst j = {(ucast (src1 inst), ucast (src1 j)), (ucast (src2 inst), ucast (src2 j))}"
  shows "\<exists>d' j P p. drive_binary env inst call d = (Inr True, d') \<and> driven env tab inst q d j P p d'"
proof -
  have "next_address (dv_api d) < 2 ^ 32" using room by simp
  from get_src [OF ok this, of "ucast (src1 inst)"] obtain i d1 where
    g1: "get_or_create_src env (ucast (src1 inst)) d = (Inr (Some i), d1)" and s1: "src_step env tab (ucast (src1 inst)) i d d1"
    and inp1: "dv_polys d (ucast (src1 inst)) = None \<Longrightarrow> input_at env d1 (ucast (src1 inst)) (pi_address i)" by blast
  note sd1 = src_step_D [OF s1]
  have r1: "next_address (dv_api d1) < 2 ^ 32" using room sd1(7) by simp
  from get_src [OF sd1(1) this, of "ucast (src2 inst)"] obtain k d2 where
    g2: "get_or_create_src env (ucast (src2 inst)) d1 = (Inr (Some k), d2)" and s2: "src_step env tab (ucast (src2 inst)) k d1 d2"
    and inp2: "dv_polys d1 (ucast (src2 inst)) = None \<Longrightarrow> input_at env d2 (ucast (src2 inst)) (pi_address k)" by blast
  note sd2 = src_step_D [OF s2]
  have r2: "next_address (dv_api d2) < 2 ^ 32" using room sd1(7) sd2(7) by simp
  have u: "ucast (ucast (pi_address i) :: u32) = pi_address i" "ucast (ucast (pi_address k) :: u32) = pi_address k"
    using poly_small [OF sd1(6)] poly_small [OF sd2(6)] r1 r2 by simp_all
  have le: "dv_polys d1 \<subseteq>\<^sub>m dv_polys d2" by (rule src_map_le [OF s2])
  have "dv_polys d1 (ucast (src1 inst)) = Some (Some i)" using sd1(5) by simp
  then have i2: "dv_polys d2 (ucast (src1 inst)) = Some (Some i)" by (rule map_le_lookup [OF le])
  have k2: "dv_polys d2 (ucast (src2 inst)) = Some (Some k)" using sd2(5) by simp
  have inp: "next_address (dv_api d) \<le> unat (pi_address x) \<and> input_at env d2 b (pi_address x)"
    if b: "dv_polys d2 b = Some (Some x)" "dv_polys d b = None" for b x
  proof (cases "dv_polys d1 b")
    case None
    then show ?thesis using src_input [OF s2 inp2 b(1)] sd1(8) by auto
  next
    case (Some y)
    then have "dv_polys d1 b = Some (Some x)" using map_le_lookup [OF le Some] b(1) by simp
    then show ?thesis using src_input [OF s1 inp1] b(2) input_at_advances [OF sd2(2)] by blast
  qed
  have adv: "advances env 3 d d2" using advances_trans [OF sd1(2) sd2(2)] by (simp add: advances_def)
  have w: "as_writer (dv_api d2) = as_writer (dv_api d)" using s1 s2 by (simp add: src_step_def)
  have "\<exists>d' j P p. drive_bind (drive_api (call (Some i) (Some k))) (poly_put (ucast (dest inst))) d2 = (Inr True, d') \<and>
      driven env tab inst q d j P p d'"
  proof (rule driven_put [OF sd2(1) adv w r2 room(2) call [OF poly_ring_dim [OF sd1(6)]], where P = "dv_polys d2"])
    show "dom (dv_polys d2) = dom (dv_polys d) \<union> reads_of inst" using sd1(5) sd2(5) op(1) by auto
    show "dv_polys d \<subseteq>\<^sub>m dv_polys d2" using src_map_le [OF s1] le by (rule map_le_trans)
  qed (use inp op i2 k2 u in_ran_poly [OF sd2(1)] in \<open>auto simp: shape1_def\<close>)
  then show ?thesis by (simp add: drive_binary_def drive_bind_Inr g1 g2)
qed

lemma scalar_from_int_run:
  "\<exists>sc. drive_api (scalar_from_int v) d = (Inr (Some sc), d\<lparr>dv_api := (dv_api d)\<lparr>next_address := next_address (dv_api d) + 1\<rparr>\<rparr>) \<and>
     si_int_value sc = v"
  by (simp add: drive_api_def scalar_from_int_def new_scalar_def api_bind_def alloc_address_def api_return_def)

lemma advance_ok:
  assumes "driver_ok env tab d"
  shows "driver_ok env tab (d\<lparr>dv_api := (dv_api d)\<lparr>next_address := next_address (dv_api d) + 1\<rparr>\<rparr>)"
  using assms poly_in_mono [of env "next_address (dv_api d)" _ "next_address (dv_api d) + 1"]
  by (auto simp: driver_ok_def writer_ready_def)

lemma makes_scalar:
  assumes "op \<in> {FH_SR_ADDPS, FH_SR_SUBPS, FH_SR_MULPS, FH_SR_ADDPS_COEFF, FH_SR_SUBPS_COEFF}"
  shows "makes (scalar_call op (Some a) (Some sc) q) (pi_ring_dim a) q
     (\<lambda>p i. shape1 op a p i \<and> immediate i = Some (si_int_value sc))"
  using assms makes_sr_poly_scalar
  by (auto simp: scalar_call_def sr_addps_def sr_subps_def sr_mulps_def sr_addps_coeff_def sr_subps_coeff_def)

lemma drive_scalar_step:
  assumes ok: "driver_ok env tab d" and room: "next_address (dv_api d) + 4 \<le> 2 ^ 32" "length (table_of (dv_api d)) < 2 ^ 32"
    and op: "opcode inst \<in> {FH_SR_ADDPS, FH_SR_SUBPS, FH_SR_MULPS, FH_SR_ADDPS_COEFF, FH_SR_SUBPS_COEFF}"
    and self: "opcode inst = FH_SR_MULPS \<and> imm_or_0 inst = 0 \<Longrightarrow> src1 inst = dest inst"
  shows "\<exists>d' j P p. drive_scalar env inst q d = (Inr True, d') \<and> driven env tab inst q d j P p d'"
proof -
  let ?z = "opcode inst = FH_SR_MULPS \<and> imm_or_0 inst = 0"
  have imm: "value_or 0 (immediate inst) = imm_or_0 inst" by (simp add: value_or_def imm_or_0_def)
  have room1: "next_address (dv_api d) < 2 ^ 32" using room by simp
  let ?src = "if ?z then get_or_create_zero_src env (ucast (src1 inst)) else get_or_create_src env (ucast (src1 inst))"
  have "\<exists>i d1. ?src d = (Inr (Some i), d1) \<and> src_step env tab (ucast (src1 inst)) i d d1 \<and>
      (\<not> ?z \<longrightarrow> dv_polys d (ucast (src1 inst)) = None \<longrightarrow> input_at env d1 (ucast (src1 inst)) (pi_address i))"
  proof (cases ?z)
    case True
    obtain i d1 where "get_or_create_zero_src env (ucast (src1 inst)) d = (Inr (Some i), d1)"
      "src_step env tab (ucast (src1 inst)) i d d1" by (rule get_zero_src [OF ok room1, of "ucast (src1 inst)"])
    with True show ?thesis by simp
  next
    case False
    obtain i d1 where "get_or_create_src env (ucast (src1 inst)) d = (Inr (Some i), d1)"
      "src_step env tab (ucast (src1 inst)) i d d1"
      "dv_polys d (ucast (src1 inst)) = None \<Longrightarrow> input_at env d1 (ucast (src1 inst)) (pi_address i)"
      using get_src [OF ok room1, of "ucast (src1 inst)"] by blast
    with False show ?thesis by auto
  qed
  then obtain i d1 where g: "?src d = (Inr (Some i), d1)" and s: "src_step env tab (ucast (src1 inst)) i d d1"
    and inp: "\<not> ?z \<longrightarrow> dv_polys d (ucast (src1 inst)) = None \<longrightarrow> input_at env d1 (ucast (src1 inst)) (pi_address i)"
    by (elim exE conjE) (rule that)
  note sd = src_step_D [OF s]
  define d2 where "d2 = d1\<lparr>dv_api := (dv_api d1)\<lparr>next_address := next_address (dv_api d1) + 1\<rparr>\<rparr>"
  obtain sc where sc: "drive_api (scalar_from_int (imm_or_0 inst)) d1 = (Inr (Some sc), d2)" "si_int_value sc = imm_or_0 inst"
    using scalar_from_int_run [of "imm_or_0 inst" d1] d2_def by auto
  have ok2: "driver_ok env tab d2" unfolding d2_def by (rule advance_ok [OF sd(1)])
  have adv2: "advances env 1 d1 d2" by (simp add: d2_def advances_def)
  have adv: "advances env 3 d d2" using advances_trans [OF sd(2) adv2] by (simp add: advances_def)
  have r2: "next_address (dv_api d2) < 2 ^ 32" using room sd(7) by (simp add: d2_def)
  have w: "as_writer (dv_api d2) = as_writer (dv_api d)" using s by (simp add: src_step_def d2_def)
  have u: "ucast (ucast (pi_address i) :: u32) = pi_address i" using poly_small [OF sd(6)] r2 by (simp add: d2_def)
  have call: "makes (scalar_call (opcode inst) (Some i) (Some sc) q) (dv_ring_dim env) (recorded_modulus inst q)
      (\<lambda>p j. shape1 (opcode inst) i p j \<and> immediate j = Some (imm_or_0 inst))"
    using makes_scalar [OF op, of i sc q] poly_ring_dim [OF sd(6)] sc(2) op by (auto simp: recorded_modulus_def)
  have ren: "renamed inst j" if "opcode j = opcode inst" "immediate j = Some (imm_or_0 inst)" for j
    using that op by (auto simp: renamed_def imm_or_0_def)
  have pm: "dv_polys d2 = (dv_polys d)(ucast (src1 inst) \<mapsto> Some i)" using sd(5) by (simp add: d2_def)
  define P where "P = (if ?z then dv_polys d else dv_polys d2)"
  have "\<exists>d' j P p. drive_bind (drive_api (scalar_call (opcode inst) (Some i) (Some sc) q)) (poly_put (ucast (dest inst))) d2
      = (Inr True, d') \<and> driven env tab inst q d j P p d'"
  proof (rule driven_put [OF ok2 adv w r2 room(2) call, where P = P])
    show "(dv_polys d2)(ucast (dest inst) \<mapsto> p) = P(ucast (dest inst) \<mapsto> p)" for p
      using self pm by (auto simp: P_def)
    show "dom P = dom (dv_polys d) \<union> reads_of inst"
      using op pm by (auto simp: P_def reads_of_def classify_uses_def imm_or_0_def split: option.splits)
    show "dv_polys d \<subseteq>\<^sub>m P" using src_map_le [OF s] by (simp add: P_def d2_def)
    show "poly_in env (next_address (dv_api d2)) x" if "x \<in> ran P" for x
      using that in_ran_poly [OF ok2] in_ran_poly [OF ok] poly_in_mono [of env "next_address (dv_api d)" x] adv
      by (auto simp: P_def advances_def split: if_splits)
    show "next_address (dv_api d) \<le> unat (pi_address k) \<and> input_at env d2 a (pi_address k)"
      if "P a = Some (Some k)" "dv_polys d a = None" for a k
      using that src_input [OF s inp [rule_format]] input_at_advances [OF adv2] by (auto simp: P_def d2_def split: if_splits)
    show "dest j = ucast p \<and> renamed inst j \<and> (\<forall>(a, b) \<in> read_pairs inst j. \<exists>k. P a = Some (Some k) \<and> b = pi_address k)"
      if "shape1 (opcode inst) i p j \<and> immediate j = Some (imm_or_0 inst)" for p j
      using that ren [of j] op u pm by (auto simp: shape1_def read_pairs_def P_def)
  qed
  moreover have "drive_scalar env inst q d =
      drive_bind (drive_api (scalar_call (opcode inst) (Some i) (Some sc) q)) (poly_put (ucast (dest inst))) d2"
    by (simp only: drive_scalar_def imm Let_def drive_bind_Inr [where m = ?src, OF g]
      drive_bind_Inr [where m = "drive_api (scalar_from_int (imm_or_0 inst))", OF sc(1)])
  ultimately show ?thesis by simp
qed

lemma drive_resolve_run:
  "ds_modulus_table (dv_stats d) = tab \<Longrightarrow> modulus_of tab inst = Some q \<Longrightarrow> drive_resolve inst d = (Inr (Some q), d)"
  by (auto simp: drive_resolve_def modulus_of_def Let_def split: option.splits if_splits)

lemma drive_step:
  assumes ok: "driver_ok env tab d" and room: "next_address (dv_api d) + 4 \<le> 2 ^ 32" "length (table_of (dv_api d)) < 2 ^ 32"
    and dr: "drivable tab (dv_ring_dim env) inst" "opcode inst \<noteq> FH_HALT"
  shows "\<exists>d' j P p q. drive_instruction env inst d = (Inr True, d') \<and> modulus_of tab inst = Some q \<and>
    driven env tab inst q d j P p d'"
proof -
  obtain q where q: "modulus_of tab inst = Some q" and ex: "opcode inst \<in> executed_opcodes"
    and root: "\<And>w. opcode inst \<in> {FH_SR_NTT, FH_SR_INTT} \<Longrightarrow> omega inst = Some w \<Longrightarrow>
      is_primitive_2n_root w (dv_ring_dim env) q"
    and self: "opcode inst = FH_SR_MULPS \<and> imm_or_0 inst = 0 \<Longrightarrow> src1 inst = dest inst"
    using dr by (auto simp: drivable_def split: option.splits)
  have "drive_resolve inst d = (Inr (Some q), d)"
    by (rule drive_resolve_run [OF _ q]) (use ok in \<open>simp add: driver_ok_def\<close>)
  then have run: "drive_instruction env inst d = drive_opcode env inst q d"
    by (simp add: drive_instruction_def drive_bind_def)
  have "\<exists>d' j P p. drive_opcode env inst q d = (Inr True, d') \<and> driven env tab inst q d j P p d'"
  proof -
    consider (bin) "opcode inst \<in> {FH_SR_ADDP, FH_SR_SUBP, FH_SR_MULP}"
      | (sca) "opcode inst \<in> {FH_SR_ADDPS, FH_SR_SUBPS, FH_SR_MULPS, FH_SR_ADDPS_COEFF, FH_SR_SUBPS_COEFF}"
      | (neg) "opcode inst = FH_SR_NEGP" | (ntt) "opcode inst \<in> {FH_SR_NTT, FH_SR_INTT}"
      | (aut) "opcode inst = FH_SR_AUTOMORPH_EVAL" | (rot) "opcode inst = FH_SR_ROT_AUTOMORPH_COEFF"
      using ex unfolding executed_opcodes_def by blast
    then show ?thesis
    proof cases
      case bin
      have "makes (binary_call (opcode inst) (Some a) (Some b) q) (dv_ring_dim env) (recorded_modulus inst q)
          (\<lambda>p j. shape1 (opcode inst) a p j \<and> src2 j = ucast (pi_address b))" if "pi_ring_dim a = dv_ring_dim env" for a b
        using bin that makes_sr_binary [of "opcode inst" a b q]
        by (auto simp: binary_call_def sr_addp_def sr_subp_def sr_mulp_def recorded_modulus_def)
      then have "\<exists>d' j P p. drive_binary env inst (\<lambda>a b. binary_call (opcode inst) a b q) d = (Inr True, d') \<and>
          driven env tab inst q d j P p d'"
        by (rule drive_binary_step [OF ok room])
          (use bin in \<open>auto simp: reads_of_def classify_uses_def renamed_def read_pairs_def\<close>)
      then show ?thesis using bin by (auto simp: drive_opcode_def Let_def)
    next
      case sca
      then show ?thesis using drive_scalar_step [OF ok room sca self] by (auto simp: drive_opcode_def Let_def)
    next
      case neg
      have "makes (sr_negp (Some a) q) (dv_ring_dim env) (recorded_modulus inst q)
          (\<lambda>p j. shape1 (opcode inst) a p j \<and> True)" if "pi_ring_dim a = dv_ring_dim env" for a
        using neg that makes_sr_unary [of FH_SR_NEGP "format_of (Some a)" a q] by (simp add: sr_negp_def recorded_modulus_def)
      then have "\<exists>d' j P p. drive_unary env inst (\<lambda>a. sr_negp a q) d = (Inr True, d') \<and> driven env tab inst q d j P p d'"
        by (rule drive_unary_step [OF ok room])
          (use neg in \<open>auto simp: reads_of_def classify_uses_def renamed_def read_pairs_def\<close>)
      then show ?thesis using neg by (simp add: drive_opcode_def Let_def)
    next
      case ntt
      have "makes (transform_call (opcode inst) (omega inst) (Some a) q) (dv_ring_dim env) (recorded_modulus inst q)
          (\<lambda>p j. shape1 (opcode inst) a p j \<and> omega j = omega inst)" if "pi_ring_dim a = dv_ring_dim env" for a
        using ntt that makes_transform [of "opcode inst" "omega inst" a q] root by (auto simp: recorded_modulus_def)
      then have "\<exists>d' j P p. drive_unary env inst (\<lambda>a. transform_call (opcode inst) (omega inst) a q) d = (Inr True, d') \<and>
          driven env tab inst q d j P p d'"
        by (rule drive_unary_step [OF ok room])
          (use ntt in \<open>auto simp: reads_of_def classify_uses_def renamed_def read_pairs_def\<close>)
      then show ?thesis using ntt by (auto simp: drive_opcode_def Let_def)
    next
      case aut
      have "makes (sr_automorph_eval (Some a) (value_or 1 (k_op inst))) (dv_ring_dim env) (recorded_modulus inst q)
          (\<lambda>p j. shape1 (opcode inst) a p j \<and> k_op j = Some (value_or 1 (k_op inst)))" if "pi_ring_dim a = dv_ring_dim env" for a
        using aut that makes_automorph_eval [of a "value_or 1 (k_op inst)"] by (simp add: recorded_modulus_def)
      then have "\<exists>d' j P p. drive_unary env inst (\<lambda>a. sr_automorph_eval a (value_or 1 (k_op inst))) d = (Inr True, d') \<and>
          driven env tab inst q d j P p d'"
        by (rule drive_unary_step [OF ok room])
          (use aut in \<open>auto simp: reads_of_def classify_uses_def renamed_def read_pairs_def value_or_def\<close>)
      then show ?thesis using aut by (simp add: drive_opcode_def Let_def)
    next
      case rot
      have "makes (sr_rot_automorph_coeff (Some a) (value_or 0 (offset inst)) q) (dv_ring_dim env) (recorded_modulus inst q)
          (\<lambda>p j. shape1 (opcode inst) a p j \<and> offset j = Some (value_or 0 (offset inst)))" if "pi_ring_dim a = dv_ring_dim env" for a
        using rot that makes_rot [of a "value_or 0 (offset inst)" q] by (simp add: recorded_modulus_def)
      then have "\<exists>d' j P p. drive_unary env inst (\<lambda>a. sr_rot_automorph_coeff a (value_or 0 (offset inst)) q) d = (Inr True, d') \<and>
          driven env tab inst q d j P p d'"
        by (rule drive_unary_step [OF ok room])
          (use rot in \<open>auto simp: reads_of_def classify_uses_def renamed_def read_pairs_def value_or_def\<close>)
      then show ?thesis using rot by (simp add: drive_opcode_def Let_def)
    qed
  qed
  then show ?thesis using run q by auto
qed

end
