(* ===== verification/DriveRun.thy ===== *)
theory DriveRun
  imports DriveReplay
begin

text \<open>
  The run of a re-driven trace beside the run of the original: the loop over a program, and the
  theorem about \<open>drive_program\<close>.
\<close>

section \<open>One instruction on both sides\<close>

definition pairs_of :: "(u64 \<rightharpoonup> Polynomial) \<Rightarrow> (u64 \<times> u64) set" where
  "pairs_of P = {(a, b). \<exists>i. P a = Some (Some i) \<and> b = pi_address i}"

lemma driven_D:
  assumes "driven env tab inst q d j P p d'"
  shows "driver_ok env tab d'" "advances env 4 d d'" "prefix (table_of (dv_api d)) (table_of (dv_api d'))"
    "length (table_of (dv_api d')) \<le> length (table_of (dv_api d)) + 1" "trace_of (dv_api d') = trace_of (dv_api d) @ [j]"
    "in_modulus (table_of (dv_api d')) (recorded_modulus inst q) j" "renamed inst j" "dest j = ucast (pi_address p)"
    "dv_polys d' = P(ucast (dest inst) \<mapsto> Some p)" "dom P = dom (dv_polys d) \<union> reads_of inst" "dv_polys d \<subseteq>\<^sub>m P"
    "next_address (dv_api d) \<le> unat (pi_address p)"
    "read_pairs inst j \<subseteq> pairs_of P"
  using assms by (auto simp: driven_def pairs_of_def)

lemma driven_dest:
  assumes dr: "driven env tab inst q d j P p d'" and room: "next_address (dv_api d') \<le> 2 ^ 32"
  shows "unat (pi_address p) < next_address (dv_api d')" "ucast (dest j) = pi_address p"
proof -
  have "Some p \<in> ran (dv_polys d')" using driven_D(9) [OF dr] by (auto simp: ran_def)
  then have "poly_in env (next_address (dv_api d')) (Some p)" by (rule in_ran_poly [OF driven_D(1) [OF dr]])
  then show "unat (pi_address p) < next_address (dv_api d')" by (simp add: poly_in_def)
  then show "ucast (dest j) = pi_address p" using driven_D(8) [OF dr] room ucast_address [of "pi_address p"] by simp
qed

lemma mirror_driven:
  assumes dr: "driven env tab inst q d j P p d'" and room: "next_address (dv_api d') \<le> 2 ^ 32"
    and q: "modulus_of tab inst = Some q" "opcode inst \<in> executed_opcodes" "modulus_table (im_trace s) = tab"
    and N: "\<And>a b. (a, b) \<in> N \<Longrightarrow> dv_polys d' a = None \<and> next_address (dv_api d') \<le> unat b"
    and run: "exec_instruction be inst s = Inr (True, s')" and m: "mirrors (pairs_of P \<union> N) s t"
    and j: "in_modulus (modulus_table (im_trace t)) (recorded_modulus inst q) j"
  obtains t' where "exec_instruction be j t = Inr (True, t')" "mirrors (pairs_of (dv_polys d') \<union> N) s' t'"
    "im_trace t' = im_trace t" "im_free_after t' = im_free_after t"
proof -
  note D = driven_D [OF dr]
  have 1: "resolves inst q s" using q(1,3)
    by (auto simp: resolves_def resolve_modulus_def modulus_of_def split: option.splits if_splits)
  have 2: "resolves j (recorded_modulus inst q) t" using in_modulus_resolve [OF j] by (simp add: resolves_def)
  have 3: "recorded_modulus inst q = q" if "opcode inst \<noteq> FH_SR_AUTOMORPH_EVAL" using that by (simp add: recorded_modulus_def)
  have "mirror_res (redirect (pairs_of P \<union> N) (dest inst) (dest j)) t
      (exec_instruction be inst s) (exec_instruction be j t)"
    using mirror_instruction [OF m 1 2 3 D(7) _ q(2)] D(13) by auto
  then obtain t' where t': "exec_instruction be j t = Inr (True, t')"
    "mirrors (redirect (pairs_of P \<union> N) (dest inst) (dest j)) s' t'" "im_trace t' = im_trace t"
    "im_free_after t' = im_free_after t" using run by (auto simp: mirror_res_def)
  have "poly_in env (unat (pi_address p)) x" if "x \<in> ran P" for x using dr that by (simp add: driven_def)
  then have P: "pi_address i \<noteq> pi_address p" if "P a = Some (Some i)" for a i
    using that by (fastforce simp: poly_in_def intro: ranI)
  have Nd: "a \<noteq> ucast (dest inst) \<and> b \<noteq> pi_address p" if "(a, b) \<in> N" for a b
    using N [OF that] driven_dest(1) [OF dr room] by (auto simp: D(9) split: if_splits)
  have "pairs_of (dv_polys d') \<union> N \<subseteq> redirect (pairs_of P \<union> N) (dest inst) (dest j)"
    using P Nd driven_dest(2) [OF dr room] by (auto simp: redirect_def D(9) pairs_of_def split: if_splits)
  from that [OF t'(1) mirrors_mono [OF t'(2) this] t'(3,4)] show thesis .
qed

text \<open>An instruction leaves the trace and the schedule of its own state alone.\<close>

lemma exec_keeps:
  assumes "ring_ok s" "resolves inst q s" "opcode inst \<in> executed_opcodes" "exec_instruction be inst s = Inr (True, s')"
  shows "im_trace s' = im_trace s" "im_free_after s' = im_free_after s" "ring_ok s'"
proof -
  have "mirrors Id s s" using assms(1) by (auto simp: mirrors_def)
  from mirror_instruction [OF this assms(2,2), of be] have
    "mirror_res (redirect Id (dest inst) (dest inst)) s (exec_instruction be inst s) (exec_instruction be inst s)"
    using assms(3) by (auto simp: renamed_def read_pairs_def)
  then show "im_trace s' = im_trace s" "im_free_after s' = im_free_after s" "ring_ok s'"
    using assms(4) by (auto simp: mirror_res_def mirrors_def)
qed

lemma execute_loop_error_mono:
  "execute_loop be k insts n s = Inr (n', s') \<Longrightarrow> im_error_count s \<le> im_error_count s'"
proof (induction insts arbitrary: k n s)
  case (Cons x xs)
  obtain ok s1 where e: "exec_instruction be x s = Inr (ok, s1)"
    using Cons.prems by (auto simp: res_bind_eq_Inr)
  have "im_error_count s \<le> im_error_count s1"
    using counts_instruction [of s be x] e by (auto simp: counts_def split: if_splits)
  moreover have "execute_loop be (k + 1) xs (if ok then n + 1 else n)
      (if k < length (im_free_after s1) then free_addresses (im_free_after s1 ! k) s1 else s1) = Inr (n', s')"
    using Cons.prems e by (simp add: Let_def)
  from Cons.IH [OF this] have "im_error_count s1 \<le> im_error_count s'" by (simp split: if_splits)
  ultimately show ?case by simp
qed simp

lemma exec_error_free:
  assumes "execute_loop be k (inst # insts) n s = Inr (n', s1)" "im_error_count s1 = im_error_count s" "im_free_after s = []"
    and keeps: "\<And>s'. exec_instruction be inst s = Inr (True, s') \<Longrightarrow> im_free_after s' = []"
  obtains s' where "exec_instruction be inst s = Inr (True, s')" "im_error_count s' = im_error_count s"
    "execute_loop be (k + 1) insts (n + 1) s' = Inr (n', s1)" "im_error_count s1 = im_error_count s'"
proof -
  obtain ok s' where e: "exec_instruction be inst s = Inr (ok, s')" using assms(1) by (auto simp: res_bind_eq_Inr)
  let ?s2 = "if k < length (im_free_after s') then free_addresses (im_free_after s' ! k) s' else s'"
  have loop: "execute_loop be (k + 1) insts (if ok then n + 1 else n) ?s2 = Inr (n', s1)"
    using assms(1) e by (simp add: Let_def)
  have c: "(ok \<longrightarrow> im_error_count s \<le> im_error_count s') \<and> (\<not> ok \<longrightarrow> im_error_count s < im_error_count s')"
    using counts_instruction [of s be inst] e by (auto simp: counts_def)
  have "im_error_count ?s2 \<le> im_error_count s1"
    using execute_loop_error_mono [OF loop] by simp
  then have "ok" "im_error_count s' = im_error_count s" using c assms(2) by (auto split: if_splits)
  then show thesis using that [of s'] e loop keeps [of s'] assms(2) by simp
qed

section \<open>The loop\<close>

lemma halt_step:
  assumes ok: "driver_ok env tab d" and h: "opcode inst = FH_HALT" "modulus inst = None"
  obtains d' where "drive_instruction env inst d = (Inr True, d')" "driver_ok env tab d'" "advances env n d d'"
    "trace_of (dv_api d') = trace_of (dv_api d) @ [ir FH_HALT 0 0]" "table_of (dv_api d') = table_of (dv_api d)"
    "dv_polys d' = dv_polys d" "next_address (dv_api d') = next_address (dv_api d)"
proof -
  let ?d' = "d\<lparr>dv_api := (dv_api d)\<lparr>as_writer := emit (ir FH_HALT 0 0) (as_writer (dv_api d))\<rparr>\<rparr>"
  have "drive_instruction env inst d = (Inr True, ?d')"
    using h by (simp add: drive_instruction_def drive_resolve_def drive_opcode_def drive_bind_def drive_api_def
        halt_def api_emit_def drive_return_def Let_def)
  moreover have "driver_ok env tab ?d'" using ok by (auto simp: driver_ok_def writer_ready_def emit_eq)
  moreover have "trace_of (dv_api ?d') = trace_of (dv_api d) @ [ir FH_HALT 0 0]"
    using ok by (simp add: driver_ok_def writer_ready_def emit_eq)
  ultimately show thesis by (intro that [of ?d']) (simp_all add: advances_def emit_eq)
qed

definition count_replayed :: "Driver \<Rightarrow> Driver" where
  "count_replayed d = on_stats (\<lambda>st. st\<lparr>ds_instructions_replayed := ds_instructions_replayed st + 1\<rparr>) d"

lemma count_replayed_sel [simp]:
  "dv_api (count_replayed d) = dv_api d" "dv_polys (count_replayed d) = dv_polys d"
  "dv_captured (count_replayed d) = dv_captured d"
  "driver_ok env tab (count_replayed d) = driver_ok env tab d"
  "advances env n (count_replayed d) d' = advances env n d d'"
  by (simp_all add: count_replayed_def on_stats_def driver_ok_def advances_def)

lemma drive_loop_step:
  "drive_instruction env inst d = (Inr True, d1) \<Longrightarrow>
     drive_loop env (inst # insts) d = drive_loop env insts (count_replayed d1)"
  by (simp add: drive_bind_def count_replayed_def)

text \<open>The recorded instructions \<open>js\<close> rerun what took \<open>s\<close> to \<open>s1\<close>, with the inputs \<open>L\<close> at \<open>\<nu>\<close>.\<close>

definition reruns ::
  "backend \<Rightarrow> u64 set \<Rightarrow> (u64 \<Rightarrow> u64) \<Rightarrow> Instruction list \<Rightarrow> SimImpl \<Rightarrow> SimImpl \<Rightarrow> Driver \<Rightarrow> Driver \<Rightarrow> bool" where
  "reruns be L \<nu> js s s1 d d' \<longleftrightarrow>
     (\<forall>t k n. mirrors (pairs_of (dv_polys d) \<union> (\<lambda>a. (a, \<nu> a)) ` L) s t \<longrightarrow>
        im_free_after t = [] \<longrightarrow> prefix (table_of (dv_api d')) (modulus_table (im_trace t)) \<longrightarrow>
        (\<exists>t1. execute_loop be k js n t = Inr (n + length js, t1) \<and> mirrors (pairs_of (dv_polys d')) s1 t1))"

lemma rerunsD:
  "reruns be L \<nu> js s s1 d d' \<Longrightarrow> mirrors (pairs_of (dv_polys d) \<union> (\<lambda>a. (a, \<nu> a)) ` L) s t \<Longrightarrow>
     im_free_after t = [] \<Longrightarrow> prefix (table_of (dv_api d')) (modulus_table (im_trace t)) \<Longrightarrow>
     \<exists>t1. execute_loop be k js n t = Inr (n + length js, t1) \<and> mirrors (pairs_of (dv_polys d')) s1 t1"
  by (simp add: reruns_def)

lemma rerunsI:
  assumes "\<And>t k n. mirrors (pairs_of (dv_polys d) \<union> (\<lambda>a. (a, \<nu> a)) ` L) s t \<Longrightarrow> im_free_after t = [] \<Longrightarrow>
     prefix (table_of (dv_api d')) (modulus_table (im_trace t)) \<Longrightarrow>
     \<exists>t1. execute_loop be k js n t = Inr (n + length js, t1) \<and> mirrors (pairs_of (dv_polys d')) s1 t1"
  shows "reruns be L \<nu> js s s1 d d'"
  using assms unfolding reruns_def by blast

lemma reruns_count [simp]: "reruns be L \<nu> js s s1 (count_replayed d) d' = reruns be L \<nu> js s s1 d d'"
  by (simp add: reruns_def)

text \<open>
  What the drive of \<open>insts\<close> from \<open>d\<close> promises for a run of them from \<open>s\<close> to \<open>s1\<close>: inputs at the
  addresses \<open>\<nu>\<close>, and a run of the recorded instructions.
\<close>

definition redrives ::
  "backend \<Rightarrow> DriveEnv \<Rightarrow> u64 list \<Rightarrow> Instruction list \<Rightarrow> SimImpl \<Rightarrow> SimImpl \<Rightarrow> Driver \<Rightarrow> Driver \<Rightarrow> bool" where
  "redrives be env tab insts s s1 d d' \<longleftrightarrow>
     drive_loop env insts d = (Inr (), d') \<and> driver_ok env tab d' \<and> advances env (4 * length insts) d d' \<and>
     prefix (table_of (dv_api d)) (table_of (dv_api d')) \<and>
     (\<exists>js \<nu>. trace_of (dv_api d') = trace_of (dv_api d) @ js \<and> map opcode js = map opcode insts \<and>
        (\<forall>a \<in> live_in insts - dom (dv_polys d).
           next_address (dv_api d) \<le> unat (\<nu> a) \<and> input_at env d' a (\<nu> a)) \<and>
        reruns be (live_in insts - dom (dv_polys d)) \<nu> js s s1 d d')"

lemma input_at_count [simp]: "input_at env (count_replayed d) a n = input_at env d a n"
  by (simp add: input_at_def tagged_at_def split: option.split)

lemma redrives_halt:
  assumes r: "redrives be env tab insts s s1 (count_replayed d1) d'"
    and d1: "drive_instruction env inst d = (Inr True, d1)" "advances env 4 d d1"
      "trace_of (dv_api d1) = trace_of (dv_api d) @ [ir FH_HALT 0 0]" "table_of (dv_api d1) = table_of (dv_api d)"
      "dv_polys d1 = dv_polys d" "next_address (dv_api d1) = next_address (dv_api d)"
    and h: "opcode inst = FH_HALT"
  shows "redrives be env tab (inst # insts) s s1 d d'"
proof -
  have l: "live_in (inst # insts) = live_in insts" using h by (simp add: classify_uses_def iu_none_def)
  obtain js \<nu> where js: "trace_of (dv_api d') = trace_of (dv_api d) @ ir FH_HALT 0 0 # js" "map opcode js = map opcode insts"
    and \<nu>: "\<forall>a \<in> live_in insts - dom (dv_polys d). next_address (dv_api d) \<le> unat (\<nu> a) \<and> input_at env d' a (\<nu> a)"
    and run: "reruns be (live_in insts - dom (dv_polys d)) \<nu> js s s1 d1 d'"
    using r d1 unfolding redrives_def by auto
  have ex: "exec_instruction be (ir FH_HALT 0 0) t = Inr (True, t)" for t
    by (simp add: exec_instruction_def ir_def Instruction_init_def)
  have "\<exists>t1. execute_loop be k (ir FH_HALT 0 0 # js) n t = Inr (n + length (ir FH_HALT 0 0 # js), t1) \<and>
      mirrors (pairs_of (dv_polys d')) s1 t1"
    if "mirrors (pairs_of (dv_polys d) \<union> (\<lambda>a. (a, \<nu> a)) ` (live_in insts - dom (dv_polys d))) s t"
      "im_free_after t = []" "prefix (table_of (dv_api d')) (modulus_table (im_trace t))" for t k n
    using rerunsD [OF run _ that(2,3), of "k + 1" "n + 1"] that(1,2) d1(5) by (simp add: ex)
  then have "reruns be (live_in insts - dom (dv_polys d)) \<nu> (ir FH_HALT 0 0 # js) s s1 d d'"
    by (rule rerunsI)
  moreover have "advances env (4 * length (inst # insts)) d d'"
    using r advances_trans [OF d1(2), of "4 * length insts" d'] by (simp add: redrives_def)
  moreover have "opcode (ir FH_HALT 0 0) = opcode inst" using h by (simp add: ir_def)
  ultimately show ?thesis
    unfolding redrives_def l using r d1 js \<nu> drive_loop_step [OF d1(1)]
    by (intro conjI exI [of _ "ir FH_HALT 0 0 # js"] exI [of _ \<nu>]) (auto simp: redrives_def)
qed

lemma live_in_executed:
  "opcode inst \<in> executed_opcodes \<Longrightarrow>
     live_in (inst # insts) = reads_of inst \<union> (live_in insts - {ucast (dest inst)})"
  by (auto simp: reads_of_def classify_uses_def executed_opcodes_def split: option.split)

text \<open>Where the inputs are once the sources of an instruction are known.\<close>

definition placed :: "(u64 \<rightharpoonup> Polynomial) \<Rightarrow> (u64 \<Rightarrow> u64) \<Rightarrow> u64 \<Rightarrow> u64" where
  "placed P \<nu> a = (case P a of Some (Some i) \<Rightarrow> pi_address i | _ \<Rightarrow> \<nu> a)"

lemma driven_known:
  assumes dr: "driven env tab inst q d j P p d1" and a: "a \<in> dom P"
  obtains i where "P a = Some (Some i)" "placed P \<nu> a = pi_address i"
    "dv_polys d a = None \<longrightarrow> next_address (dv_api d) \<le> unat (pi_address i) \<and> input_at env d1 a (pi_address i)"
proof -
  obtain x where x: "P a = Some x" using a by blast
  then have "poly_in env (unat (pi_address p)) x" using dr by (auto simp: driven_def intro: ranI)
  then obtain i where "x = Some i" by (auto simp: poly_in_def)
  then show thesis using that [of i] x dr by (auto simp: placed_def driven_def)
qed

lemma driven_inputs:
  assumes dr: "driven env tab inst q d j P p d1" and op: "opcode inst \<in> executed_opcodes"
    and adv: "advances env n d1 d'"
    and \<nu>: "\<And>a. a \<in> live_in insts - dom (dv_polys d1) \<Longrightarrow> next_address (dv_api d1) \<le> unat (\<nu> a) \<and> input_at env d' a (\<nu> a)"
    and a: "a \<in> live_in (inst # insts) - dom (dv_polys d)"
  shows "next_address (dv_api d) \<le> unat (placed P \<nu> a) \<and> input_at env d' a (placed P \<nu> a)"
proof (cases "a \<in> dom P")
  case True
  obtain i where "P a = Some (Some i)" "placed P \<nu> a = pi_address i"
    "dv_polys d a = None \<longrightarrow> next_address (dv_api d) \<le> unat (pi_address i) \<and> input_at env d1 a (pi_address i)"
    by (rule driven_known [OF dr True])
  then show ?thesis using a input_at_advances [OF adv] by auto
next
  case False
  then have "a \<in> live_in insts - dom (dv_polys d1)" "placed P \<nu> a = \<nu> a"
    using a live_in_executed [OF op, of insts] driven_D(9,10) [OF dr] by (auto simp: placed_def)
  then show ?thesis using \<nu> [of a] driven_D(2) [OF dr] by (auto simp: advances_def)
qed

lemma driven_pairs:
  assumes dr: "driven env tab inst q d j P p d1" and op: "opcode inst \<in> executed_opcodes"
  shows "pairs_of P \<union> (\<lambda>a. (a, \<nu> a)) ` (live_in insts - dom (dv_polys d1)) \<subseteq>
    pairs_of (dv_polys d) \<union> (\<lambda>a. (a, placed P \<nu> a)) ` (live_in (inst # insts) - dom (dv_polys d))"
proof -
  note D = driven_D [OF dr]
  have 1: "(a, pi_address i) \<in> pairs_of (dv_polys d) \<union> (\<lambda>a. (a, placed P \<nu> a)) ` (live_in (inst # insts) - dom (dv_polys d))"
    if P: "P a = Some (Some i)" for a i
  proof (cases "a \<in> dom (dv_polys d)")
    case True
    then have "dv_polys d a = Some (Some i)" using map_le_lookup [OF D(11)] P by fastforce
    then show ?thesis by (simp add: pairs_of_def)
  next
    case False
    moreover have "a \<in> dom P" using P by blast
    ultimately have "a \<in> live_in (inst # insts)" using D(10) live_in_executed [OF op, of insts] by blast
    then have "(a, placed P \<nu> a) \<in> (\<lambda>a. (a, placed P \<nu> a)) ` (live_in (inst # insts) - dom (dv_polys d))"
      using False by blast
    moreover have "placed P \<nu> a = pi_address i" using P by (simp add: placed_def)
    ultimately show ?thesis by simp
  qed
  have 2: "(a, \<nu> a) \<in> (\<lambda>a. (a, placed P \<nu> a)) ` (live_in (inst # insts) - dom (dv_polys d))"
    if a: "a \<in> live_in insts - dom (dv_polys d1)" for a
  proof -
    have "a \<notin> dom P" "a \<noteq> ucast (dest inst)" using a D(9) by auto
    moreover from this have "a \<notin> dom (dv_polys d)" using D(10) by blast
    moreover have "placed P \<nu> a = \<nu> a" using \<open>a \<notin> dom P\<close> by (auto simp: placed_def split: option.split)
    ultimately have "a \<in> live_in (inst # insts) - dom (dv_polys d)" "placed P \<nu> a = \<nu> a"
      using a live_in_executed [OF op, of insts] by auto
    then show ?thesis by (intro image_eqI [of _ _ a]) simp_all
  qed
  show ?thesis
  proof
    fix x assume "x \<in> pairs_of P \<union> (\<lambda>a. (a, \<nu> a)) ` (live_in insts - dom (dv_polys d1))"
    then consider a i where "P a = Some (Some i)" "x = (a, pi_address i)"
      | a where "a \<in> live_in insts - dom (dv_polys d1)" "x = (a, \<nu> a)" unfolding pairs_of_def by blast
    then show "x \<in> pairs_of (dv_polys d) \<union> (\<lambda>a. (a, placed P \<nu> a)) ` (live_in (inst # insts) - dom (dv_polys d))"
      using 1 2 by cases blast+
  qed
qed

lemma redrives_step:
  assumes r: "redrives be env tab insts s' s1 (count_replayed d1) d'"
    and d1: "drive_instruction env inst d = (Inr True, d1)" and dr: "driven env tab inst q d j P p d1"
    and q: "modulus_of tab inst = Some q" "opcode inst \<in> executed_opcodes" "modulus_table (im_trace s) = tab"
    and ex: "exec_instruction be inst s = Inr (True, s')" and room: "next_address (dv_api d1) \<le> 2 ^ 32"
  shows "redrives be env tab (inst # insts) s s1 d d'"
proof -
  note D = driven_D [OF dr]
  let ?L = "live_in insts - dom (dv_polys d1)"
  obtain js \<nu> where js: "trace_of (dv_api d') = trace_of (dv_api d) @ j # js" "map opcode js = map opcode insts"
    and \<nu>: "\<forall>a \<in> ?L. next_address (dv_api d1) \<le> unat (\<nu> a) \<and> input_at env d' a (\<nu> a)"
    and run: "reruns be ?L \<nu> js s' s1 d1 d'"
    using r D(5) unfolding redrives_def by auto
  have d': "driver_ok env tab d'" "advances env (4 * length insts) d1 d'" "prefix (table_of (dv_api d1)) (table_of (dv_api d'))"
    "drive_loop env insts (count_replayed d1) = (Inr (), d')" using r by (auto simp: redrives_def)
  let ?\<nu> = "placed P \<nu>"
  have N: "dv_polys d1 a = None \<and> next_address (dv_api d1) \<le> unat b" if "(a, b) \<in> (\<lambda>a. (a, \<nu> a)) ` ?L" for a b
    using that \<nu> by auto
  have "\<exists>t1. execute_loop be k (j # js) n t = Inr (n + length (j # js), t1) \<and> mirrors (pairs_of (dv_polys d')) s1 t1"
    if m: "mirrors (pairs_of (dv_polys d) \<union> (\<lambda>a. (a, ?\<nu> a)) ` (live_in (inst # insts) - dom (dv_polys d))) s t"
      and f: "im_free_after t = []" and tab: "prefix (table_of (dv_api d')) (modulus_table (im_trace t))" for t k n
  proof -
    have m': "mirrors (pairs_of P \<union> (\<lambda>a. (a, \<nu> a)) ` ?L) s t" by (rule mirrors_mono [OF m driven_pairs [OF dr q(2)]])
    have i: "in_modulus (modulus_table (im_trace t)) (recorded_modulus inst q) j"
      using in_modulus_prefix [OF D(6)] d'(3) tab prefix_order.trans by blast
    obtain t' where t': "exec_instruction be j t = Inr (True, t')"
      "mirrors (pairs_of (dv_polys d1) \<union> (\<lambda>a. (a, \<nu> a)) ` ?L) s' t'" "im_trace t' = im_trace t" "im_free_after t' = im_free_after t"
      by (rule mirror_driven [OF dr room q N ex m' i])
    from rerunsD [OF run t'(2), of "k + 1" "n + 1"] show ?thesis using t' f tab by auto
  qed
  then have "reruns be (live_in (inst # insts) - dom (dv_polys d)) ?\<nu> (j # js) s s1 d d'"
    by (rule rerunsI)
  moreover have "advances env (4 * length (inst # insts)) d d'" using advances_trans [OF D(2) d'(2)] by simp
  moreover have "opcode j = opcode inst" using D(7) by (simp add: renamed_def)
  moreover have "prefix (table_of (dv_api d)) (table_of (dv_api d'))" using D(3) d'(3) by (rule prefix_order.trans)
  moreover have "\<forall>a \<in> live_in (inst # insts) - dom (dv_polys d).
      next_address (dv_api d) \<le> unat (?\<nu> a) \<and> input_at env d' a (?\<nu> a)"
    using driven_inputs [OF dr q(2) d'(2)] \<nu> by blast
  moreover have "drive_loop env (inst # insts) d = (Inr (), d')" using drive_loop_step [OF d1] d'(4) by simp
  ultimately show ?thesis
    unfolding redrives_def using d'(1) js
    by (intro conjI exI [of _ "j # js"] exI [of _ ?\<nu>]) (simp_all del: live_in.simps drive_loop.simps)
qed

lemma drive_loop_redrives:
  assumes "\<forall>inst \<in> set insts. drivable tab (dv_ring_dim env) inst" "driver_ok env tab d"
    "next_address (dv_api d) + 4 * length insts \<le> 2 ^ 32" "length (table_of (dv_api d)) + length insts \<le> 2 ^ 32"
    "execute_loop be k insts n s = Inr (n', s1)" "im_error_count s1 = im_error_count s" "im_free_after s = []"
    "modulus_table (im_trace s) = tab" "ring_ok s"
  shows "\<exists>d'. redrives be env tab insts s s1 d d'"
  using assms
proof (induction insts arbitrary: d s k n)
  case Nil
  then have "redrives be env tab [] s s1 d d" by (auto simp: redrives_def intro!: exI [of _ "[]"] rerunsI)
  then show ?case by blast
next
  case (Cons inst insts)
  show ?case
  proof (cases "opcode inst = FH_HALT")
    case True
    then have h: "modulus inst = None" using Cons.prems(1) by (simp add: drivable_def)
    obtain d1 where d1: "drive_instruction env inst d = (Inr True, d1)" "driver_ok env tab d1" "advances env 4 d d1"
      "trace_of (dv_api d1) = trace_of (dv_api d) @ [ir FH_HALT 0 0]" "table_of (dv_api d1) = table_of (dv_api d)"
      "dv_polys d1 = dv_polys d" "next_address (dv_api d1) = next_address (dv_api d)"
      by (rule halt_step [OF Cons.prems(2) True h])
    have "exec_instruction be inst s = Inr (True, s)" using True by (simp add: exec_instruction_def)
    then have "execute_loop be (k + 1) insts (n + 1) s = Inr (n', s1)" using Cons.prems(5,7) by simp
    then obtain d' where "redrives be env tab insts s s1 (count_replayed d1) d'"
      using Cons.IH [of "count_replayed d1" "k + 1" "n + 1" s] Cons.prems d1 by auto
    then show ?thesis using redrives_halt [OF _ d1(1,3-7) True] by blast
  next
    case False
    have dr: "drivable tab (dv_ring_dim env) inst" using Cons.prems(1) by simp
    have room: "next_address (dv_api d) + 4 \<le> 2 ^ 32" "length (table_of (dv_api d)) < 2 ^ 32" using Cons.prems(3,4) by simp_all
    obtain d1 j P p q where d1: "drive_instruction env inst d = (Inr True, d1)" and q: "modulus_of tab inst = Some q"
      and drv: "driven env tab inst q d j P p d1" using drive_step [OF Cons.prems(2) room dr False] by blast
    have op: "opcode inst \<in> executed_opcodes" using dr False by (simp add: drivable_def)
    have rs: "resolves inst q s" using q Cons.prems(8)
      by (auto simp: resolves_def resolve_modulus_def modulus_of_def split: option.splits if_splits)
    note keeps = exec_keeps [OF Cons.prems(9) rs op]
    obtain s' where s': "exec_instruction be inst s = Inr (True, s')" "im_error_count s' = im_error_count s"
      "execute_loop be (k + 1) insts (n + 1) s' = Inr (n', s1)" "im_error_count s1 = im_error_count s'"
      by (rule exec_error_free [OF Cons.prems(5,6,7)]) (use keeps(2) Cons.prems(7) in \<open>auto intro: that\<close>)
    have a1: "next_address (dv_api d1) \<le> next_address (dv_api d) + 4" "length (table_of (dv_api d1)) \<le> length (table_of (dv_api d)) + 1"
      using driven_D(2,4) [OF drv] by (auto simp: advances_def)
    obtain d' where "redrives be env tab insts s' s1 (count_replayed d1) d'"
      using Cons.IH [of "count_replayed d1" "k + 1" "n + 1" s'] Cons.prems s' keeps [OF s'(1)] driven_D(1) [OF drv] a1 by auto
    moreover have "next_address (dv_api d1) \<le> 2 ^ 32" using a1 Cons.prems(3) by simp
    ultimately show ?thesis using redrives_step [OF _ d1 drv q op Cons.prems(8) s'(1)] by blast
  qed
qed

section \<open>The program\<close>

lemma finalize_keeps:
  assumes "\<forall>p \<in> ran (dv_polys d). p \<noteq> None"
  shows "\<exists>d'. finalize_loop outs d = (Inr (), d') \<and> dv_polys d' = dv_polys d \<and> trace_of (dv_api d') = trace_of (dv_api d) \<and>
    table_of (dv_api d') = table_of (dv_api d) \<and> dv_captured d' = dv_captured d \<and>
    input_registry (dv_api d') = input_registry (dv_api d)"
  using assms
proof (induction outs arbitrary: d)
  case (Cons x outs)
  obtain a tag where x: "x = (a, tag)" by fastforce
  show ?case
  proof (cases "dv_polys d a")
    case None
    then show ?thesis using Cons.IH [OF Cons.prems] x by simp
  next
    case (Some p)
    then obtain i where i: "p = Some i" using Cons.prems by (fastforce intro: ranI)
    let ?d = "on_stats (\<lambda>st. st\<lparr>ds_outputs_tagged := ds_outputs_tagged st + 1\<rparr>)
      (d\<lparr>dv_api := (dv_api d)\<lparr>as_writer := comment_line (''output '' @ dt_name tag @ '' %'' @ to_string_nat (unat (pi_address i)))
           (as_writer (dv_api d)),
         probe_registry := probe_registry (dv_api d) @ [\<lparr>re_name = dt_name tag, re_value = POLY (Some i)\<rparr>]\<rparr>\<rparr>)"
    have eq: "finalize_loop (x # outs) d = finalize_loop outs ?d"
      using Some i x by (simp add: drive_bind_def drive_api_def tag_output_def api_seq_def api_bind_def output_comment_def
          api_return_def api_comment_def register_probe_def)
    have same: "dv_polys ?d = dv_polys d" "trace_of (dv_api ?d) = trace_of (dv_api d)"
      "table_of (dv_api ?d) = table_of (dv_api d)" "dv_captured ?d = dv_captured d"
      "input_registry (dv_api ?d) = input_registry (dv_api d)"
      by (simp_all add: on_stats_def comment_line_def)
    have "\<forall>p \<in> ran (dv_polys ?d). p \<noteq> None" using Cons.prems unfolding same .
    from Cons.IH [OF this] show ?thesis unfolding eq same .
  qed
qed simp

lemma input_at_cong:
  assumes "dv_captured d' = dv_captured d" "input_registry (dv_api d') = input_registry (dv_api d)"
  shows "input_at env d a n \<Longrightarrow> input_at env d' a n"
  unfolding input_at_def tagged_at_def assms .

lemma get_polynomial_value:
  "get_polynomial a s = (case mem_value a (im_memory s) of Some v \<Rightarrow> v | None \<Rightarrow> [])"
  by (cases "mem_view a (im_memory s)")
    (auto simp: get_polynomial_def mem_is_initialized_view mem_value_def mem_get_view)

text \<open>A driver in a recording session with room for a program of \<open>n\<close> instructions.\<close>

definition drive_ready :: "nat \<Rightarrow> Driver \<Rightarrow> bool" where
  "drive_ready n d \<longleftrightarrow> writer_ready (dv_api d) \<and> trace_of (dv_api d) = [] \<and> captured_srp (dv_captured d) \<and>
     next_address (dv_api d) + 4 * n \<le> 2 ^ 32 \<and> length (table_of (dv_api d)) + n \<le> 2 ^ 32"

text \<open>A fresh simulator with the trace of \<open>d\<close>, beside one with another trace.\<close>

definition loaded_like :: "SimImpl \<Rightarrow> Driver \<Rightarrow> SimImpl \<Rightarrow> bool" where
  "loaded_like s d t \<longleftrightarrow> ring_ok t \<and> im_ring_dim t = im_ring_dim s \<and> im_ntt_tables t = im_ntt_tables s \<and>
     im_free_after t = [] \<and> modulus_table (im_trace t) = table_of (dv_api d) \<and>
     instructions (im_trace t) = trace_of (dv_api d)"


definition redrive_inst :: Instruction where
  "redrive_inst = Instruction_init\<lparr>opcode := FH_SR_NEGP, dest := 9, src1 := 5, modulus := Some 97,
     modulus_is_literal := True\<rparr>"

definition redrive_example :: ReadResult where
  "redrive_example = ReadResult_init\<lparr>rr_ok := True, rr_program := Program_init\<lparr>instructions := [redrive_inst]\<rparr>\<rparr>"

definition redrive_env :: DriveEnv where
  "redrive_env = \<lparr>dv_ring_dim = 2, dv_inputs = [5 \<mapsto> \<lparr>de_values = [1, 2], de_modulus = 97\<rparr>], dv_outputs = [],
     dv_ndebug = False, dv_streaming = False\<rparr>"

definition redrive_start :: Driver where
  "redrive_start = \<lparr>dv_polys = Map.empty, dv_stats = DriveStats_init,
     dv_api = ApiState_init\<lparr>as_writer := start_recording (as_writer ApiState_init)\<rparr>, dv_captured = Captured_init\<rparr>"

definition redrive_sim :: SimImpl where
  "redrive_sim = (set_ring_dimension 2 SimImpl_init)\<lparr>im_trace := rr_program redrive_example,
     im_memory := write_slot 5 97 [1, 2] (im_memory (set_ring_dimension 2 SimImpl_init))\<rparr>"

lemma redrive_sim_ring_ok: "ring_ok redrive_sim"
  unfolding ring_ok_def
  by (simp add: redrive_sim_def set_ring_dimension_def set_ring_dim_def) (rule exI [of _ 1], simp)

lemma redrive_sim_run:
  "\<exists>s1. execute exact_backend redrive_sim = Inr (\<lparr>instructions_executed = 1, sim_errors = 0\<rparr>, s1) \<and>
     get_polynomial 9 s1 = [96, 95]"
proof -
  let ?s = "redrive_sim\<lparr>im_error_count := 0\<rparr>"
  have m: "mem_view 5 (im_memory redrive_sim) = Some \<lparr>me_values = [1, 2], me_modulus = 97, me_initialized = True\<rparr>"
    by (simp add: redrive_sim_def write_slot_view)
  have d: "im_ring_dim redrive_sim = 2" "mem_ring_dim (im_memory redrive_sim) = 2"
    by (simp_all add: redrive_sim_def set_ring_dimension_def set_ring_dim_def)
  have g: "get_or_zero 5 ?s = ([1, 2], ?s)"
    using m mem_get_view [OF m] by (simp add: get_or_zero_def mem_is_initialized_view)
  let ?t = "?s\<lparr>im_memory := write_slot 9 97 [96, 95] (im_memory redrive_sim)\<rparr>"
  have l: "length (fst (reserve_dest 9 (im_memory redrive_sim))) = 2" using d by simp
  have c: "copy_result [96, 95] 2 (fst (reserve_dest 9 (im_memory redrive_sim))) = [96, 95]"
    using l by (simp add: copy_result_def upt_rec)
  have "exec_instruction exact_backend redrive_inst ?s = Inr (True, ?t)"
    using c by (simp add: exec_instruction_def redrive_inst_def Instruction_init_def exec_negp_def resolve_modulus_def g
        wrong_size_def d store_result_def write_slot_def split_beta Let_def)
  moreover have "instructions (im_trace redrive_sim) = [redrive_inst]" "im_free_after redrive_sim = []"
    by (simp_all add: redrive_sim_def redrive_example_def set_ring_dimension_def SimImpl_init_def)
  moreover have "get_polynomial 9 ?t = [96, 95]"
    by (simp add: get_polynomial_value mem_value_def write_slot_view)
  ultimately show ?thesis by (simp add: execute_def)
qed


definition hiding_program :: Program where
  "hiding_program = Program_init\<lparr>instructions :=
     [Instruction_init\<lparr>opcode := FH_SR_MULPS, dest := 1, src1 := 5, immediate := Some 0, modulus := Some 97,
        modulus_is_literal := True\<rparr>, redrive_inst]\<rparr>"


end
