(* ===== verification/ReplayJson.thy ===== *)
theory ReplayJson
  imports Session
begin

text \<open>
  The JSON index a session leaves beside its trace (\<open>src/compiler.cpp\<close>, \<open>write_replay_json\<close>): the
  replay document with the index of the inputs and the index of the outputs.

  JSON values are those of the nlohmann library, a third-party package: \<open>json\<close> is its data model
  without floating-point numbers, which no part of the library writes or reads.  An object is a set of
  keys with their values; the order in the list stands for nothing.  Its serializer and parser are
  parameters where text matters.
\<close>

section \<open>JSON values\<close>

datatype json =
    JNull
  | JBool bool
  | JUnsigned u64
  | JInteger int
  | JString string
  | JArray "json list"
  | JObject "(string \<times> json) list"

text \<open>\<open>j.contains(key)\<close>\<close>

definition json_contains :: "json \<Rightarrow> string \<Rightarrow> bool" where
  "json_contains j key = (case j of JObject kvs \<Rightarrow> key \<in> fst ` set kvs | _ \<Rightarrow> False)"

text \<open>\<open>j[key]\<close> of a constant object that has the key; another value throws a type error.\<close>

definition json_at :: "json \<Rightarrow> string \<Rightarrow> cpp_error + json" where
  "json_at j key =
     (case j of
        JObject kvs \<Rightarrow> (case map_of kvs key of Some v \<Rightarrow> Inr v | None \<Rightarrow> Inr JNull)
      | JNull \<Rightarrow> Inr JNull
      | _ \<Rightarrow> Inl JsonError)"

text \<open>The elements a range-based \<open>for\<close> visits.\<close>

definition json_items :: "json \<Rightarrow> json list" where
  "json_items j = (case j of JNull \<Rightarrow> [] | JArray xs \<Rightarrow> xs | JObject kvs \<Rightarrow> map snd kvs | _ \<Rightarrow> [j])"

text \<open>\<open>j.value(key, fallback)\<close> at a string and at an unsigned integer, and \<open>j.get<uint64_t>()\<close>.\<close>

definition json_string :: "json \<Rightarrow> cpp_error + string" where
  "json_string j = (case j of JString s \<Rightarrow> Inr s | _ \<Rightarrow> Inl JsonError)"

definition json_u64 :: "json \<Rightarrow> cpp_error + u64" where
  "json_u64 j = (case j of JUnsigned n \<Rightarrow> Inr n | JInteger i \<Rightarrow> Inr (of_int i) | _ \<Rightarrow> Inl JsonError)"

definition json_value :: "(json \<Rightarrow> cpp_error + 'a) \<Rightarrow> json \<Rightarrow> string \<Rightarrow> 'a \<Rightarrow> cpp_error + 'a" where
  "json_value get j key fallback =
     (case j of
        JObject kvs \<Rightarrow> (case map_of kvs key of Some v \<Rightarrow> get v | None \<Rightarrow> Inr fallback)
      | _ \<Rightarrow> Inl JsonError)"

section \<open>Environment\<close>

text \<open>
  The answers of the file system, the clock and the build; the version strings are generated when the
  library is configured.
\<close>

record json_env =
  je_opens :: "string \<Rightarrow> bool"
  je_exists :: "string \<Rightarrow> bool"
  je_inputs_time :: int
  je_outputs_time :: int
  je_millis :: int
  je_client_version :: string
  je_fhetch_version :: string

section \<open>The documents\<close>

definition json_u64s :: "u64 list \<Rightarrow> json" where
  "json_u64s xs = JArray (map JUnsigned xs)"

definition program_info_json :: "'h CompilerImpl \<Rightarrow> json" where
  "program_info_json c =
     JObject [(''name'', JString (cc_program_name c)), (''version'', JString (cc_program_version c)),
              (''description'', JString (cc_program_description c))]"

definition chain_json :: "u64 list \<Rightarrow> 'h CompilerImpl \<Rightarrow> (string \<times> json) list" where
  "chain_json trace_moduli c =
     (if trace_moduli \<noteq> [] then
        [(''modulus_chain'', json_u64s trace_moduli),
         (''modulus_chain_length'', JUnsigned (of_nat (length trace_moduli))),
         (''inverse_modulus_chain'', json_u64s (map hensel_inverse trace_moduli))]
      else
        [(''modulus_chain'', json_u64s (cc_modulus_chain c)),
         (''modulus_chain_length'', JUnsigned (of_nat (length (cc_modulus_chain c)))),
         (''inverse_modulus_chain'', json_u64s (cc_inverse_modulus_chain c))])"

definition crypto_context_json :: "u64 list \<Rightarrow> 'h CompilerImpl \<Rightarrow> json" where
  "crypto_context_json trace_moduli c =
     JObject
       ([(''scheme_name'', JString (cc_scheme_name c)),
         (''ring_dimension'', JUnsigned (cc_ring_dimension c)),
         (''multiplicative_depth'', JUnsigned (ucast (cc_multiplicative_depth c))),
         (''scaling_modulus_size'', JUnsigned (ucast (cc_scaling_mod_size c))),
         (''security_level'', JString (cc_security_level c))] @
        chain_json trace_moduli c @ [(''is_valid'', JBool True)])"

text \<open>One entry of the inputs index; key material has files of its own.\<close>

definition key_input_names :: "string list" where
  "key_input_names = [''evalmult_key'', ''automorphism_key'', ''bootstrap_precompute'']"

definition input_index_json :: "string \<Rightarrow> InputRecord \<Rightarrow> json" where
  "input_index_json prog input =
     JObject
       ([(''name'', JString (ci_name input)),
         (''ids_file'', JString (prog @ ''.input_'' @ ci_name input @ ''.ids'')),
         (''bin_file'', JString (prog @ ''.input_'' @ ci_name input @ ''.bin'')),
         (''instances_count'', JInteger 1)] @
        (if ci_source_path input \<noteq> [] then
           [(''source_path'', JString (ci_source_path input)),
            (''source_mtime'', JInteger (ci_source_mtime input))]
         else []))"

definition inputs_index_json :: "json_env \<Rightarrow> string \<Rightarrow> 'h CompilerImpl \<Rightarrow> json" where
  "inputs_index_json env prog c =
     (let arr = map (input_index_json prog)
            (filter (\<lambda>input. ci_name input \<notin> set key_input_names) (captured_inputs (cc_captured c)))
      in JObject
        [(''program_name'', JString (trace_file_name (cc_trace_format c) prog)),
         (''input_format'', JString ''cereal_binary''),
         (''timestamp'', JInteger (je_inputs_time env)),
         (''inputs'', JArray arr),
         (''input_count'', JUnsigned (of_nat (length arr)))])"

definition output_entry_json :: "OutputRecord \<Rightarrow> json" where
  "output_entry_json output =
     JObject
       [(''name'', JString (co_name output)), (''payload_type'', JString ''ciphertext''),
        (''ciphertext_data'',
         JArray (map (\<lambda>j. JObject [(''poly_index'', JUnsigned (of_nat j)),
                                  (''elements'', JArray [JUnsigned (co_addr_ids output ! j)])])
                   [0..<length (co_addr_ids output)]))]"

definition outputs_index_json :: "json_env \<Rightarrow> string \<Rightarrow> 'h CompilerImpl \<Rightarrow> json" where
  "outputs_index_json env prog c =
     JObject
       [(''program_name'', JString (trace_file_name (cc_trace_format c) prog)),
        (''timestamp'', JInteger (je_outputs_time env)),
        (''outputs'', JArray (map output_entry_json (captured_outputs (cc_captured c))))]"

text \<open>The references to key files that exist in the project directory.\<close>

definition key_files_json :: "json_env \<Rightarrow> string \<Rightarrow> string \<Rightarrow> (string \<times> json) list" where
  "key_files_json env dir prog =
     (let entry = (\<lambda>ext bin_key ids_key.
            if je_exists env (path_append dir (prog @ ''.'' @ ext @ ''.bin'')) then
              [(bin_key, JString (prog @ ''.'' @ ext @ ''.bin'')), (ids_key, JString (prog @ ''.'' @ ext @ ''.ids''))]
            else [])
      in entry ''mk'' ''evalmult_keys'' ''evalmult_ids'' @
         entry ''rk'' ''evalautomorphism_keys'' ''evalautomorphism_ids'' @
         entry ''bp'' ''bootstrap_precomp'' ''bootstrap_precomp_ids'')"

definition files_json :: "json_env \<Rightarrow> string \<Rightarrow> string \<Rightarrow> 'h CompilerImpl \<Rightarrow> json" where
  "files_json env dir prog c =
     JObject
       ([(''instructions'', JString (file_name_of (cc_last_trace_path c))),
         (''inputs'', JString (prog @ ''.inputs.json'')),
         (''outputs'', JString (prog @ ''.outputs.json''))] @ key_files_json env dir prog)"

definition key_start_json :: "'h CompilerImpl \<Rightarrow> (string \<times> json) list" where
  "key_start_json c =
     (let entries =
            (if cc_evalmult_start_addr_id c > 0
             then [(''evalmult'', JUnsigned (cc_evalmult_start_addr_id c))] else []) @
            (if cc_evalautomorphism_start_addr_id c > 0
             then [(''evalautomorphism'', JUnsigned (cc_evalautomorphism_start_addr_id c))] else [])
      in if entries \<noteq> [] then [(''key_start_addr_ids'', JObject entries)] else [])"

definition replay_json :: "json_env \<Rightarrow> string \<Rightarrow> string \<Rightarrow> u64 list \<Rightarrow> 'h CompilerImpl \<Rightarrow> json" where
  "replay_json env dir prog trace_moduli c =
     JObject
       ([(''program_name'', JString (trace_file_name (cc_trace_format c) prog)),
         (''program_info'', program_info_json c),
         (''producer'', JObject [(''client_version'', JString (je_client_version env)),
                                 (''fhetch_version'', JString (je_fhetch_version env))]),
         (''crypto_context'', crypto_context_json trace_moduli c),
         (''files'', files_json env dir prog c),
         (''input_format'', JString ''cereal_binary''),
         (''evalmult_format'', JString ''cereal_binary''),
         (''evalautomorphism_format'', JString ''cereal_binary''),
         (''bootstrap_precomp_format'', JString ''cereal_binary''),
         (''niobium_hw'', JBool False),
         (''num_registers'', JInteger 16),
         (''config_sectors'', JInteger 1),
         (''hbm_mode'', JString ''interleaved''),
         (''max_memory_id'', JInteger 0)] @
        key_start_json c @ [(''generated_timestamp'', JInteger (je_millis env))])"

text \<open>
  The files written, in order, with their documents; a file that does not open is left out, without an
  error.
\<close>

definition write_replay_json :: "json_env \<Rightarrow> string \<Rightarrow> u64 list \<Rightarrow> 'h CompilerImpl \<Rightarrow> (string \<times> json) list" where
  "write_replay_json env cwd trace_moduli c =
     (let dir = get_program_directory cwd c; prog = full_program_name c in
      filter (\<lambda>(path, doc). je_opens env path)
        [(path_append dir (prog @ ''.inputs.json''), inputs_index_json env prog c),
         (path_append dir (prog @ ''.outputs.json''), outputs_index_json env prog c),
         (path_append dir ''fhetch_replay.json'', replay_json env dir prog trace_moduli c)])"

section \<open>The outputs of a replay\<close>

text \<open>One residue of an output, with the values found in the simulator.\<close>

definition output_element_json :: "u64 \<Rightarrow> u64 \<Rightarrow> u64 list \<Rightarrow> json" where
  "output_element_json addr modl vals =
     JObject
       [(''addr_id'', JUnsigned addr),
        (''modulus'', JUnsigned (if modl = 0 then 0xFFFFFFFFFFFFFFFF else modl)),
        (''status'', JString (if vals = [] then ''missing'' else ''computed'')),
        (''values'', json_u64s vals)]"

text \<open>\<open>output.moduli[j]\<close> is not checked: a record with fewer moduli than addresses is read out of bounds.\<close>

definition replay_output_json :: "(u64 \<Rightarrow> u64 list) \<Rightarrow> OutputRecord \<Rightarrow> cpp_error + json" where
  "replay_output_json values_at output =
     res_bind
       (map_res
          (\<lambda>j. if j \<ge> length (co_moduli output) then Inl OutOfBoundsAccess
               else Inr (output_element_json (co_addr_ids output ! j) (co_moduli output ! j)
                      (values_at (co_addr_ids output ! j))))
          [0..<length (co_addr_ids output)])
       (\<lambda>elems. Inr (JObject [(''name'', JString (co_name output)), (''elements'', JArray elems)]))"

definition replay_outputs_json :: "(u64 \<Rightarrow> u64 list) \<Rightarrow> OutputRecord list \<Rightarrow> cpp_error + json" where
  "replay_outputs_json values_at outputs =
     res_bind (map_res (replay_output_json values_at) outputs)
       (\<lambda>arr. Inr (JObject [(''outputs'', JArray arr)]))"

end
