(* ===== verification/LocalReplay.thy ===== *)
theory LocalReplay
  imports ReplayJson TraceDriver SimSpec
begin

text \<open>
  Replaying a project from disk (\<open>src/local_replay.cpp\<close>): the loaders of the recorded inputs and keys,
  the project index, the population of the simulator, the outputs, and the run; with the command line
  of \<open>fhetch_sim\<close> (\<open>src/fhetch_sim/main.cpp\<close>) that starts it.

  The binary archive belongs to cereal and the polynomials in it to OpenFHE: the reads of an archive
  are the fields of \<open>archive\<close>, and a polynomial is the list of its towers, each in
  evaluation or in coefficient form.  A read that throws is \<open>None\<close>;
  the loaders catch it and report failure.  Console output is left out.
\<close>

section \<open>Archives and sinks\<close>

record tower =
  twr_modulus :: u64
  twr_values :: "u64 list"
  twr_evaluation :: bool

record 'ar archive =
  ar_u8 :: "'ar \<Rightarrow> (u8 \<times> 'ar) option"
  ar_u32 :: "'ar \<Rightarrow> (u32 \<times> 'ar) option"
  ar_u64 :: "'ar \<Rightarrow> (u64 \<times> 'ar) option"
  ar_u64s :: "'ar \<Rightarrow> (u64 list \<times> 'ar) option"
  ar_dcrt :: "'ar \<Rightarrow> (tower list \<times> 'ar) option"

text \<open>What a sink does with one tower: its address, its values and its modulus.\<close>

type_synonym 'st sink = "u64 \<Rightarrow> u64 list \<Rightarrow> u64 \<Rightarrow> 'st \<Rightarrow> 'st"

text \<open>
  A loader runs over the archive, the addresses that are left and the state of the sink; \<open>None\<close> is the
  exception or the early return that makes it report failure.
\<close>

type_synonym ('ar, 'st, 'a) loader = "'ar \<times> u64 list \<times> 'st \<Rightarrow> 'a option \<times> 'ar \<times> u64 list \<times> 'st"

definition ld_return :: "'a \<Rightarrow> ('ar, 'st, 'a) loader" where
  "ld_return x = (\<lambda>l. (Some x, l))"

definition ld_fail :: "('ar, 'st, 'a) loader" where
  "ld_fail = (\<lambda>l. (None, l))"

definition ld_bind :: "('ar, 'st, 'a) loader \<Rightarrow> ('a \<Rightarrow> ('ar, 'st, 'b) loader) \<Rightarrow> ('ar, 'st, 'b) loader" where
  "ld_bind m f = (\<lambda>l. case m l of (None, l') \<Rightarrow> (None, l') | (Some x, l') \<Rightarrow> f x l')"

definition ld_read :: "('ar \<Rightarrow> ('a \<times> 'ar) option) \<Rightarrow> ('ar, 'st, 'a) loader" where
  "ld_read rd = (\<lambda>(ar, ids, st). case rd ar of None \<Rightarrow> (None, ar, ids, st) | Some (x, ar') \<Rightarrow> (Some x, ar', ids, st))"

primrec ld_times :: "nat \<Rightarrow> ('ar, 'st, unit) loader \<Rightarrow> ('ar, 'st, unit) loader" where
  "ld_times 0 m = ld_return ()"
| "ld_times (Suc n) m = ld_bind m (\<lambda>_. ld_times n m)"

section \<open>Address files\<close>

text \<open>
  \<open>istream::read\<close> into a zeroed word: what is there, then zeros.
\<close>

definition read_word :: "bool \<Rightarrow> bytes \<Rightarrow> u64" where
  "read_word host_le bs = mem_word host_le (take 8 bs @ replicate (8 - length (take 8 bs)) 0)"

text \<open>
  \<open>None\<close>: the file does not open.  \<open>limit\<close> is the number of words the process can allocate.
\<close>

definition read_ids :: "bool \<Rightarrow> nat \<Rightarrow> bytes option \<Rightarrow> cpp_error + u64 list" where
  "read_ids host_le limit file =
     (case file of
        None \<Rightarrow> Inr []
      | Some bs \<Rightarrow>
          let n = unat (read_word host_le bs) in
          if n > limit then Inl BadAlloc
          else Inr (map (\<lambda>i. read_word host_le (drop (8 + 8 * i) bs)) [0..<n]))"

section \<open>Binary files\<close>

fun extract_dcrt_towers :: "'st sink \<Rightarrow> tower list \<Rightarrow> u64 list \<Rightarrow> 'st \<Rightarrow> u64 list \<times> 'st" where
  "extract_dcrt_towers sink [] ids st = (ids, st)"
| "extract_dcrt_towers sink (t # ts) [] st = ([], st)"
| "extract_dcrt_towers sink (t # ts) (a # ids) st =
     extract_dcrt_towers sink ts ids (sink a (twr_values t) (twr_modulus t) st)"

text \<open>\<open>ar(dcrt); extract_dcrt_towers(...)\<close>, once and \<open>n\<close> times.\<close>

definition load_dcrt :: "'ar archive \<Rightarrow> 'st sink \<Rightarrow> ('ar, 'st, unit) loader" where
  "load_dcrt ar sink =
     ld_bind (ld_read (ar_dcrt ar))
       (\<lambda>ts (a, ids, st). let (ids, st) = extract_dcrt_towers sink ts ids st in (Some (), a, ids, st))"

definition read_dcrt_group :: "'ar archive \<Rightarrow> 'st sink \<Rightarrow> u32 \<Rightarrow> ('ar, 'st, unit) loader" where
  "read_dcrt_group ar sink n = ld_times (unat n) (load_dcrt ar sink)"

text \<open>A count, then that many polynomials; and a count, then that many of such groups.\<close>

definition read_1d :: "'ar archive \<Rightarrow> 'st sink \<Rightarrow> ('ar, 'st, unit) loader" where
  "read_1d ar sink = ld_bind (ld_read (ar_u32 ar)) (read_dcrt_group ar sink)"

definition read_2d :: "'ar archive \<Rightarrow> 'st sink \<Rightarrow> ('ar, 'st, unit) loader" where
  "read_2d ar sink = ld_bind (ld_read (ar_u32 ar)) (\<lambda>n. ld_times (unat n) (read_1d ar sink))"

text \<open>The loop over the elements of a proxy; it ends early when the addresses are used up.\<close>

primrec proxy_loop :: "'ar archive \<Rightarrow> 'st sink \<Rightarrow> nat \<Rightarrow> ('ar, 'st, unit) loader" where
  "proxy_loop ar sink 0 = ld_return ()"
| "proxy_loop ar sink (Suc n) =
     ld_bind (ld_read (ar_u64 ar)) (\<lambda>modl.
     ld_bind (ld_read (ar_u64s ar)) (\<lambda>vals (a, ids, st).
       case ids of
         [] \<Rightarrow> (Some (), a, ids, st)
       | addr # ids' \<Rightarrow> proxy_loop ar sink n (a, ids', sink addr vals modl st)))"

definition load_instance :: "'ar archive \<Rightarrow> 'st sink \<Rightarrow> ('ar, 'st, unit) loader" where
  "load_instance ar sink =
     ld_bind (ld_read (ar_u8 ar)) (\<lambda>payload_type.
     ld_bind (ld_read (ar_u32 ar)) (\<lambda>count.
       if payload_type = 0 \<or> payload_type = 1 then read_dcrt_group ar sink count
       else if payload_type = 2 then
         ld_bind (ld_read (ar_u8 ar)) (\<lambda>format_flag. proxy_loop ar sink (unat count))
       else if payload_type = 3 \<or> payload_type = 4 then ld_times (unat count) (read_1d ar sink)
       else ld_fail))"

text \<open>What the three loaders share: open the archive, read, and report.\<close>

definition load_bin ::
  "('ar, 'st, unit) loader \<Rightarrow> 'ar option \<Rightarrow> u64 list \<Rightarrow> 'st \<Rightarrow> bool \<times> 'st" where
  "load_bin body file ids st =
     (case file of
        None \<Rightarrow> (False, st)
      | Some ar \<Rightarrow> (case body (ar, ids, st) of (r, ar', ids', st') \<Rightarrow> (r \<noteq> None, st')))"

definition load_input_bin :: "'ar archive \<Rightarrow> 'st sink \<Rightarrow> 'ar option \<Rightarrow> u64 list \<Rightarrow> 'st \<Rightarrow> bool \<times> 'st" where
  "load_input_bin ar sink =
     load_bin (ld_bind (ld_read (ar_u32 ar)) (\<lambda>instances. ld_times (unat instances) (load_instance ar sink)))"

definition load_key_bin :: "'ar archive \<Rightarrow> 'st sink \<Rightarrow> 'ar option \<Rightarrow> u64 list \<Rightarrow> 'st \<Rightarrow> bool \<times> 'st" where
  "load_key_bin ar sink =
     load_bin (ld_bind (ld_read (ar_u32 ar)) (\<lambda>num_keys.
       ld_times (unat num_keys) (ld_bind (read_1d ar sink) (\<lambda>_. read_1d ar sink))))"

definition load_bp_entry :: "'ar archive \<Rightarrow> 'st sink \<Rightarrow> ('ar, 'st, unit) loader" where
  "load_bp_entry ar sink =
     ld_bind (ld_read (ar_u32 ar)) (\<lambda>m_slots.
     ld_bind (ld_read (ar_u32 ar)) (\<lambda>m_dim1.
     ld_bind (ld_times (2 * 9) (ld_bind (ld_read (ar_u32 ar)) (\<lambda>_. ld_return ()))) (\<lambda>_.
     ld_bind (read_2d ar sink) (\<lambda>_.
     ld_bind (read_2d ar sink) (\<lambda>_.
     ld_bind (read_1d ar sink) (\<lambda>_.
     read_1d ar sink))))))"

definition load_bp_bin :: "'ar archive \<Rightarrow> 'st sink \<Rightarrow> 'ar option \<Rightarrow> u64 list \<Rightarrow> 'st \<Rightarrow> bool \<times> 'st" where
  "load_bp_bin ar sink =
     load_bin (ld_bind (ld_read (ar_u32 ar)) (\<lambda>num_entries. ld_times (unat num_entries) (load_bp_entry ar sink)))"

section \<open>The project directory\<close>

text \<open>
  The answers of the file system: which paths exist, the archive and the bytes behind a path, and the
  JSON value of a file that opens and parses.
\<close>

record 'ar project_fs =
  pf_exists :: "string \<Rightarrow> bool"
  pf_is_directory :: "string \<Rightarrow> bool"
  pf_archive :: "string \<Rightarrow> 'ar option"
  pf_bytes :: "string \<Rightarrow> bytes option"
  pf_json :: "string \<Rightarrow> json option"

record 'ar replay_env =
  rv_archive :: "'ar archive"
  rv_fs :: "'ar project_fs"
  rv_host_le :: bool
  rv_text :: text_env
  rv_word_limit :: nat

text \<open>An operation on the state of the sink that reports success, or throws.\<close>

type_synonym 'st load_step = "'st \<Rightarrow> (cpp_error + bool) \<times> 'st"

definition load_ids_and_bin ::
  "'ar replay_env \<Rightarrow> ('ar option \<Rightarrow> u64 list \<Rightarrow> 'st \<Rightarrow> bool \<times> 'st) \<Rightarrow> string \<Rightarrow> string \<Rightarrow> 'st load_step" where
  "load_ids_and_bin env rd bin_path ids_path st =
     (case read_ids (rv_host_le env) (rv_word_limit env) (pf_bytes (rv_fs env) ids_path) of
        Inl e \<Rightarrow> (Inl e, st)
      | Inr ids \<Rightarrow> let (ok, st') = rd (pf_archive (rv_fs env) bin_path) ids st in (Inr ok, st'))"

text \<open>One entry of the inputs index; \<open>entry.value("name", bin)\<close> is evaluated for the message of a failure.\<close>

definition load_index_entry :: "'ar replay_env \<Rightarrow> string \<Rightarrow> 'st sink \<Rightarrow> json \<Rightarrow> 'st load_step" where
  "load_index_entry env dir sink entry st =
     (case res_bind (json_value json_string entry ''bin_file'' []) (\<lambda>bin.
           res_bind (json_value json_string entry ''ids_file'' []) (\<lambda>ids. Inr (bin, ids))) of
        Inl e \<Rightarrow> (Inl e, st)
      | Inr (bin, ids) \<Rightarrow>
          if bin = [] \<or> ids = [] then (Inr True, st)
          else
            let bin_path = path_append dir bin; ids_path = path_append dir ids in
            if \<not> pf_exists (rv_fs env) bin_path \<or> \<not> pf_exists (rv_fs env) ids_path then
              (res_bind (json_value json_string entry ''name'' bin) (\<lambda>_. Inr False), st)
            else load_ids_and_bin env (load_input_bin (rv_archive env) sink) bin_path ids_path st)"

primrec load_index_entries :: "'ar replay_env \<Rightarrow> string \<Rightarrow> 'st sink \<Rightarrow> json list \<Rightarrow> 'st load_step" where
  "load_index_entries env dir sink [] st = (Inr True, st)"
| "load_index_entries env dir sink (e # es) st =
     (case load_index_entry env dir sink e st of
        (Inr True, st') \<Rightarrow> load_index_entries env dir sink es st'
      | (r, st') \<Rightarrow> (r, st'))"

definition load_source_inputs :: "'ar replay_env \<Rightarrow> string \<Rightarrow> string \<Rightarrow> 'st sink \<Rightarrow> 'st load_step" where
  "load_source_inputs env dir prog sink st =
     (let idx_path = path_append dir (prog @ ''.inputs.json'') in
      if \<not> pf_exists (rv_fs env) idx_path then (Inr True, st)
      else
        case pf_json (rv_fs env) idx_path of
          None \<Rightarrow> (Inr False, st)
        | Some j \<Rightarrow>
            if \<not> json_contains j ''inputs'' then (Inr True, st)
            else
              case json_at j ''inputs'' of
                Inl e \<Rightarrow> (Inl e, st)
              | Inr arr \<Rightarrow> load_index_entries env dir sink (json_items arr) st)"

definition load_with ::
  "'ar replay_env \<Rightarrow> string \<Rightarrow> string \<Rightarrow> string \<Rightarrow> ('ar option \<Rightarrow> u64 list \<Rightarrow> 'st \<Rightarrow> bool \<times> 'st) \<Rightarrow> 'st load_step" where
  "load_with env dir prog base rd st =
     (let bin = path_append dir (prog @ ''.'' @ base @ ''.bin'');
          ids = path_append dir (prog @ ''.'' @ base @ ''.ids'') in
      if \<not> pf_exists (rv_fs env) bin \<or> \<not> pf_exists (rv_fs env) ids then (Inr True, st)
      else load_ids_and_bin env rd bin ids st)"

text \<open>\<open>&&\<close> between two loads.\<close>

definition load_and :: "'st load_step \<Rightarrow> 'st load_step \<Rightarrow> 'st load_step" where
  "load_and m k = (\<lambda>st. case m st of (Inr True, st') \<Rightarrow> k st' | (r, st') \<Rightarrow> (r, st'))"

definition load_source_keys :: "'ar replay_env \<Rightarrow> string \<Rightarrow> string \<Rightarrow> 'st sink \<Rightarrow> 'st load_step" where
  "load_source_keys env dir prog sink =
     load_and (load_with env dir prog ''mk'' (load_key_bin (rv_archive env) sink))
    (load_and (load_with env dir prog ''rk'' (load_key_bin (rv_archive env) sink))
              (load_with env dir prog ''bp'' (load_bp_bin (rv_archive env) sink)))"

text \<open>The collecting forms.\<close>

definition collect_into :: "DriveInputs sink" where
  "collect_into addr vals modl inputs = inputs(addr \<mapsto> \<lparr>de_values = vals, de_modulus = modl\<rparr>)"

definition load_drive_inputs :: "'ar replay_env \<Rightarrow> string \<Rightarrow> string \<Rightarrow> DriveInputs load_step" where
  "load_drive_inputs env dir prog = load_source_inputs env dir prog collect_into"

definition load_drive_keys :: "'ar replay_env \<Rightarrow> string \<Rightarrow> string \<Rightarrow> DriveInputs load_step" where
  "load_drive_keys env dir prog = load_source_keys env dir prog collect_into"

section \<open>The project index\<close>

record ProjectIndex =
  px_ring_dim :: u64
  px_trace_file :: string
  px_prog :: string

text \<open>\<open>std::filesystem::path::stem\<close>\<close>

definition stem_of :: "string \<Rightarrow> string" where
  "stem_of p = (let f = file_name_of p in take (path_stem_length f) f)"

text \<open>\<open>None\<close>: reported as a failure.\<close>

definition read_project_index :: "'ar project_fs \<Rightarrow> string \<Rightarrow> cpp_error + ProjectIndex option" where
  "read_project_index fs dir =
     (case pf_json fs (path_append dir ''fhetch_replay.json'') of
        None \<Rightarrow> Inr None
      | Some j \<Rightarrow>
          if \<not> json_contains j ''crypto_context'' \<or> \<not> json_contains j ''files'' then Inr None
          else
            res_bind (json_at j ''crypto_context'') (\<lambda>cc.
            res_bind (json_value json_u64 cc ''ring_dimension'' 0) (\<lambda>ring_dim.
            res_bind (json_at j ''files'') (\<lambda>files.
            res_bind (json_value json_string files ''instructions'' []) (\<lambda>trace_file.
              if ring_dim = 0 \<or> trace_file = [] then Inr None
              else Inr (Some \<lparr>px_ring_dim = ring_dim, px_trace_file = trace_file, px_prog = stem_of trace_file\<rparr>))))))"

section \<open>Population\<close>

text \<open>The state of the sink that populates the simulator, with the addresses it has stored.\<close>

definition populate_sink :: "u64 set \<Rightarrow> (SimImpl \<times> u64 set) sink" where
  "populate_sink needed addr vals modl = (\<lambda>(sim, stored).
     if addr \<in> needed then (store_polynomial_owned addr vals modl sim, insert addr stored) else (sim, stored))"

definition populate_inputs :: "'ar replay_env \<Rightarrow> string \<Rightarrow> string \<Rightarrow> SimImpl load_step" where
  "populate_inputs env dir prog sim =
     (let needed = set (get_read_before_write_addresses sim); sink = populate_sink needed;
          (r, sim', stored) =
            load_and (load_source_inputs env dir prog sink) (load_source_keys env dir prog sink) (sim, {})
      in case r of
           Inl e \<Rightarrow> (Inl e, sim')
         | Inr ok \<Rightarrow> (Inr (ok \<and> card stored = card needed), sim'))"

section \<open>Outputs\<close>

type_synonym NamedOutput = "string \<times> u64 list"

text \<open>\<open>poly.value("elements", array())\<close>, its elements as addresses.\<close>

definition poly_addresses :: "json \<Rightarrow> cpp_error + u64 list" where
  "poly_addresses poly =
     res_bind (json_value Inr poly ''elements'' (JArray [])) (\<lambda>elems. map_res json_u64 (json_items elems))"

text \<open>One entry of the outputs index; \<open>None\<close> when it is skipped.\<close>

definition read_output_entry :: "json \<Rightarrow> cpp_error + NamedOutput option" where
  "read_output_entry out =
     res_bind (json_value json_string out ''name'' []) (\<lambda>nm.
       if nm = [] \<or> \<not> json_contains out ''ciphertext_data'' then Inr None
       else
         res_bind (json_at out ''ciphertext_data'') (\<lambda>data.
         res_bind (map_res poly_addresses (json_items data)) (\<lambda>addrs. Inr (Some (nm, concat addrs)))))"

definition read_output_probes :: "'ar project_fs \<Rightarrow> string \<Rightarrow> string \<Rightarrow> cpp_error + NamedOutput list option" where
  "read_output_probes fs dir prog =
     (case pf_json fs (path_append dir (prog @ ''.outputs.json'')) of
        None \<Rightarrow> Inr None
      | Some j \<Rightarrow>
          if \<not> json_contains j ''outputs'' then Inr None
          else
            res_bind (json_at j ''outputs'') (\<lambda>arr.
            res_bind (map_res read_output_entry (json_items arr)) (\<lambda>es. Inr (Some (List.map_filter id es)))))"

text \<open>The document, with the modulus the simulator holds for each address.\<close>

definition local_outputs_json :: "NamedOutput list \<Rightarrow> SimImpl \<Rightarrow> json" where
  "local_outputs_json outputs sim =
     JObject [(''outputs'', JArray (map (\<lambda>(nm, addrs).
       JObject [(''name'', JString nm),
         (''elements'', JArray (map (\<lambda>addr. output_element_json addr (get_modulus addr sim) (get_polynomial addr sim)) addrs))])
       outputs))]"

section \<open>The run\<close>

text \<open>
  \<open>Simulator::load_trace\<close>: the answer of the reader decides.
\<close>

definition load_trace :: "cpp_error + ReadResult \<Rightarrow> SimImpl \<Rightarrow> cpp_error + bool \<times> SimImpl" where
  "load_trace result s =
     res_bind result (\<lambda>res.
       if \<not> rr_ok res then Inr (False, s)
       else let s' = s\<lparr>im_trace := rr_program res\<rparr>
            in Inr (instructions (im_trace s') \<noteq> [], s'))"

text \<open>
  What the run needs beside the project: the arithmetic, the free schedule's inputs, whether the outputs
  file opens, whether the crypto context loads and whether the reconstruction of the ciphertexts, which
  is OpenFHE's, leaves probes in the directory.
\<close>

record run_env =
  rn_backend :: backend
  rn_disable_frees :: bool
  rn_free_order :: "u64 list"
  rn_outputs_open :: bool
  rn_context_ok :: bool
  rn_probes_written :: bool

text \<open>
  The simulator is the state; the answer comes with the outputs document when it was written.
\<close>

definition finish_replay :: "run_env \<Rightarrow> NamedOutput list \<Rightarrow> SimImpl \<Rightarrow> bool \<times> json option" where
  "finish_replay rn outputs sim =
     (if \<not> rn_outputs_open rn then (False, None)
      else (rn_context_ok rn \<and> rn_probes_written rn, Some (local_outputs_json outputs sim)))"

definition run_populated ::
  "run_env \<Rightarrow> NamedOutput list \<Rightarrow> SimImpl \<Rightarrow> (cpp_error + bool \<times> json option) \<times> SimImpl" where
  "run_populated rn outputs sim =
     (let sim1 = compute_liveness (rn_disable_frees rn) (rn_free_order rn)
                   (set_live_out_addresses (concat (map snd outputs)) sim) in
      case sim_run (rn_backend rn) sim1 of
        Inl e \<Rightarrow> (Inl e, sim1)
      | Inr (res, sim2) \<Rightarrow>
          (if sim_errors res > 0 then (Inr (False, None), sim2) else (Inr (finish_replay rn outputs sim2), sim2)))"

definition run_local_replay_from_project ::
  "'ar replay_env \<Rightarrow> run_env \<Rightarrow> string \<Rightarrow> (cpp_error + bool \<times> json option) \<times> SimImpl" where
  "run_local_replay_from_project env rn dir =
     (if \<not> pf_is_directory (rv_fs env) dir then (Inr (False, None), SimImpl_init)
      else
        case read_project_index (rv_fs env) dir of
          Inl e \<Rightarrow> (Inl e, SimImpl_init)
        | Inr None \<Rightarrow> (Inr (False, None), SimImpl_init)
        | Inr (Some idx) \<Rightarrow>
            let sim = set_ring_dimension (px_ring_dim idx) SimImpl_init;
                path = path_append dir (px_trace_file idx) in
            case load_trace (read_fhetch_file (rv_host_le env) (rv_text env) path (pf_bytes (rv_fs env) path)) sim of
              Inl e \<Rightarrow> (Inl e, sim)
            | Inr (False, sim) \<Rightarrow> (Inr (False, None), sim)
            | Inr (True, sim) \<Rightarrow>
                (case populate_inputs env dir (px_prog idx) sim of
                   (Inl e, sim) \<Rightarrow> (Inl e, sim)
                 | (Inr False, sim) \<Rightarrow> (Inr (False, None), sim)
                 | (Inr True, sim) \<Rightarrow>
                     (case read_output_probes (rv_fs env) dir (px_prog idx) of
                        Inl e \<Rightarrow> (Inl e, sim)
                      | Inr None \<Rightarrow> (Inr (False, None), sim)
                      | Inr (Some outputs) \<Rightarrow> run_populated rn outputs sim)))"

section \<open>The command line\<close>

record SimArgs =
  sa_trace_file :: string
  sa_project_dir :: string
  sa_ring_dim :: u64

text \<open>\<open>std::stoull\<close> is a parameter: the value of the leading number, or what it throws.\<close>

fun parse_sim_args :: "(string \<Rightarrow> cpp_error + u64) \<Rightarrow> string list \<Rightarrow> SimArgs \<Rightarrow> cpp_error + SimArgs" where
  "parse_sim_args stoull [] sa = Inr sa"
| "parse_sim_args stoull (arg # args) sa =
     (if take 10 arg = ''--project='' then parse_sim_args stoull args (sa\<lparr>sa_project_dir := drop 10 arg\<rparr>)
      else if arg = ''--project'' \<and> args \<noteq> [] then
        parse_sim_args stoull (tl args) (sa\<lparr>sa_project_dir := hd args\<rparr>)
      else if arg = ''--ring-dim'' \<and> args \<noteq> [] then
        res_bind (stoull (hd args)) (\<lambda>n. parse_sim_args stoull (tl args) (sa\<lparr>sa_ring_dim := n\<rparr>))
      else if sa_trace_file sa = [] \<and> arg \<noteq> [] \<and> hd arg \<noteq> CHR ''-'' then
        parse_sim_args stoull args (sa\<lparr>sa_trace_file := arg\<rparr>)
      else parse_sim_args stoull args sa)"

text \<open>The exit status; the arguments are those after the program name.\<close>

definition sim_main ::
  "'ar replay_env \<Rightarrow> run_env \<Rightarrow> (string \<Rightarrow> cpp_error + u64) \<Rightarrow> string list \<Rightarrow> cpp_error + nat" where
  "sim_main env rn stoull args =
     res_bind (parse_sim_args stoull args \<lparr>sa_trace_file = [], sa_project_dir = [], sa_ring_dim = 0\<rparr>) (\<lambda>sa.
       if sa_project_dir sa \<noteq> [] then
         res_bind (fst (run_local_replay_from_project env rn (sa_project_dir sa)))
           (\<lambda>(ok, doc). Inr (if ok then 0 else 1))
       else if sa_trace_file sa = [] then Inr 1
       else
         res_bind (load_trace (read_fhetch_file (rv_host_le env) (rv_text env) (sa_trace_file sa)
                     (pf_bytes (rv_fs env) (sa_trace_file sa))) SimImpl_init) (\<lambda>(ok, sim).
           if \<not> ok then Inr 1
           else if sa_ring_dim sa = 0 then Inr 1
           else
             res_bind (sim_run (rn_backend rn) (set_ring_dimension (sa_ring_dim sa) sim)) (\<lambda>(res, sim').
               Inr (if sim_errors res > 0 then 1 else 0))))"

end
