(* ===== verification/Replay.thy ===== *)
theory Replay
  imports LocalReplay
begin

text \<open>
  Replaying a session (\<open>src/compiler.cpp\<close>): the choice between the in-process simulator and a worker
  process, the command lines of the workers, and the in-process replay with its rehydrated outputs, the
  propagation of inputs along the copies of the recording, and the outputs it writes.

  Processes, the file system and the environment variables are parameters; so is the refresh of the
  input files before a worker starts, which is modelled in \<open>AutoFacade\<close>.
\<close>

section \<open>Environment\<close>

text \<open>
  \<open>rh_spawn\<close> is the exit status of the worker a command line starts, with -1 when it cannot be started
  or waited for; \<open>rh_has_probes\<close> tells whether a directory exists and is not empty; \<open>rh_parents\<close> is the
  copy relation of the probes, child before parent, in the order its hash map is iterated;
  \<open>rh_refresh\<close> is what \<open>refresh_stale_inputs\<close> throws, if anything.
\<close>

record replay_host =
  rh_cwd :: string
  rh_exists :: "string \<Rightarrow> bool"
  rh_json :: "string \<Rightarrow> json option"
  rh_trace :: "string \<Rightarrow> cpp_error + ReadResult"
  rh_getenv :: "string \<Rightarrow> string option"
  rh_spawn :: "string list \<Rightarrow> int"
  rh_has_probes :: "string \<Rightarrow> bool"
  rh_refresh :: "cpp_error option"
  rh_parents :: "(u64 \<times> u64) list"
  rh_ndebug :: bool
  rh_backend :: backend
  rh_disable_frees :: bool
  rh_free_order :: "u64 list"
  rh_opens :: "string \<Rightarrow> bool"

section \<open>Workers\<close>

definition env_or :: "(string \<Rightarrow> string option) \<Rightarrow> string \<Rightarrow> string \<Rightarrow> string" where
  "env_or getenv nm fallback =
     (case getenv nm of Some v \<Rightarrow> if v \<noteq> [] then v else fallback | None \<Rightarrow> fallback)"

text \<open>\<open>has_filename\<close> fails at a trailing separator; \<open>parent_path\<close> then drops the separators.\<close>

definition without_trailing_separator :: "string \<Rightarrow> string" where
  "without_trailing_separator p =
     (let s = rev (dropWhile (\<lambda>c. c = CHR ''/'') (rev p)) in if s = [] then p else s)"

definition replay_output_directory :: "string \<Rightarrow> string" where
  "replay_output_directory project_dir =
     (let project = without_trailing_separator project_dir
      in path_append project (''nbcc_fhetch_replay_source_'' @ file_name_of project))"

definition replay_run_directory :: "string \<Rightarrow> string" where
  "replay_run_directory project_dir =
     (let recording = replay_output_directory project_dir
      in path_append (recording @ ''.run'') (file_name_of recording))"

definition replay_argv :: "(string \<Rightarrow> string option) \<Rightarrow> string \<Rightarrow> string \<Rightarrow> string \<Rightarrow> bool \<Rightarrow> string list" where
  "replay_argv getenv targ dir opt_level niobium_hw =
     (let project = without_trailing_separator dir in
      if targ = ''local''
      then [env_or getenv ''NBCC_FHETCH_SIM'' ''fhetch_sim'', ''--project='' @ project]
      else [env_or getenv ''NBCC_FHETCH_REPLAY'' ''nbcc_fhetch_replay'', ''--project='' @ project, ''--target='' @ targ,
            ''--out='' @ replay_output_directory project] @
           (if niobium_hw then [''--niobium_hw''] else []) @
           (if opt_level \<noteq> ''O0'' then [''--opt-level='' @ opt_level] else []))"

definition replay_project :: "replay_host \<Rightarrow> string \<Rightarrow> string \<Rightarrow> string \<Rightarrow> bool \<Rightarrow> bool" where
  "replay_project host targ dir opt_level niobium_hw \<longleftrightarrow>
     rh_spawn host (replay_argv (rh_getenv host) targ dir opt_level niobium_hw) = 0 \<and>
     rh_has_probes host (path_append dir ''serialized_probes'')"

definition dispatch_to_compiler_target :: "replay_host \<Rightarrow> 'h CompilerImpl \<Rightarrow> bool" where
  "dispatch_to_compiler_target host c =
     replay_project host (cc_target c) (get_program_directory (rh_cwd host) c) (cc_opt_level c)
       (cc_montgomery_mode c \<and> cc_bitrev_mode c)"

text \<open>The names of the recorded outputs, read back from disk.\<close>

definition recorded_output_names :: "json option \<Rightarrow> cpp_error + string list" where
  "recorded_output_names doc =
     (case doc of
        None \<Rightarrow> Inr []
      | Some j \<Rightarrow>
          if \<not> json_contains j ''outputs'' then Inr []
          else
            res_bind (json_at j ''outputs'') (\<lambda>arr.
            res_bind (map_res (\<lambda>out. json_value json_string out ''name'' []) (json_items arr)) (\<lambda>names.
              Inr (filter (\<lambda>nm. nm \<noteq> []) names))))"

definition driver_argv :: "replay_host \<Rightarrow> 'h CompilerImpl \<Rightarrow> string \<Rightarrow> string list \<Rightarrow> string list" where
  "driver_argv host c dir names =
     [env_or (rh_getenv host) ''NBCC_FHETCH_DRIVER'' ''fhetch_driver'', cc_last_trace_path c,
      ''--ring-dim'', to_string_nat (unat (cc_ring_dimension c)), ''--source-dir'', dir,
      ''--cc'', path_append dir ''cryptocontext.dat''] @
     (if \<not> cc_check_ring_dim c then [''--no-ring-dim-check''] else []) @
     (if \<not> cc_check_primes c then [''--no-prime-check''] else []) @
     concat (map (\<lambda>nm. [''--output-ct'',
       nm @ '':'' @ path_append (path_append dir ''serialized_probes'') (nm @ ''.ct'')]) names)"

definition run_local_fhetch_driver :: "replay_host \<Rightarrow> 'h CompilerImpl \<Rightarrow> cpp_error + bool" where
  "run_local_fhetch_driver host c =
     (let dir = get_program_directory (rh_cwd host) c; prog = full_program_name c in
      res_bind (recorded_output_names (rh_json host (path_append dir (prog @ ''.outputs.json'')))) (\<lambda>names.
        Inr (names \<noteq> [] \<and> rh_spawn host (driver_argv host c dir names) = 0 \<and>
             rh_has_probes host (path_append dir ''serialized_probes''))))"

section \<open>Which replay\<close>

definition hardware_ok :: "'h CompilerImpl \<Rightarrow> bool" where
  "hardware_ok c \<longleftrightarrow>
     \<not> (cc_montgomery_mode c \<or> cc_bitrev_mode c) \<or>
     (cc_target c \<noteq> ''local'' \<and> cc_montgomery_mode c = cc_bitrev_mode c)"

text \<open>The trace of the session, or the one a previous run has left; the path is empty when there is none.\<close>

definition find_trace :: "replay_host \<Rightarrow> 'h CompilerImpl \<Rightarrow> string" where
  "find_trace host c =
     (if cc_last_trace_path c = []
      then existing_trace_path (rh_exists host) (get_program_directory (rh_cwd host) c) (full_program_name c)
      else cc_last_trace_path c)"

text \<open>
  The cooperative replay: the captured inputs are dropped, and the worker or the driver runs on a project
  that is complete on disk.
\<close>

definition release_captured :: "'h CompilerImpl \<Rightarrow> 'h CompilerImpl" where
  "release_captured c =
     (if cc_release_at_replay c then c\<lparr>cc_captured := clear_captured_inputs (cc_captured c)\<rparr> else c)"

definition cooperative_replay :: "replay_host \<Rightarrow> 'h CompilerImpl \<Rightarrow> cpp_error + bool" where
  "cooperative_replay host c =
     (if cc_target c \<noteq> ''local'' then Inr (dispatch_to_compiler_target host c)
      else if (case rh_getenv host ''NBCC_FHETCH_DRIVER'' of Some v \<Rightarrow> v \<noteq> [] | None \<Rightarrow> False)
      then run_local_fhetch_driver host c
      else Inr (replay_project host ''local'' (get_program_directory (rh_cwd host) c) (cc_opt_level c) False))"

section \<open>In-process replay\<close>

text \<open>The outputs of an earlier recording, read back as single residues without a modulus.\<close>

definition rehydrate_poly :: "bool \<Rightarrow> string \<Rightarrow> json \<Rightarrow> Captured \<Rightarrow> cpp_error + Captured" where
  "rehydrate_poly nd nm poly c =
     (if \<not> json_contains poly ''elements'' then Inr c
      else
        res_bind (json_at poly ''elements'') (\<lambda>elems.
          fold (\<lambda>elem r. res_bind r (\<lambda>c. res_bind (json_u64 elem) (\<lambda>a. store_output_probe nd nm SRP False a 0 c)))
            (json_items elems) (Inr c)))"

definition rehydrate_output :: "bool \<Rightarrow> json \<Rightarrow> Captured \<Rightarrow> cpp_error + Captured" where
  "rehydrate_output nd out c =
     res_bind (json_value json_string out ''name'' []) (\<lambda>nm.
       if nm = [] \<or> \<not> json_contains out ''ciphertext_data'' then Inr c
       else
         res_bind (json_at out ''ciphertext_data'') (\<lambda>data.
           fold (\<lambda>poly r. res_bind r (rehydrate_poly nd nm poly)) (json_items data) (Inr c)))"

definition rehydrate_outputs :: "bool \<Rightarrow> json option \<Rightarrow> Captured \<Rightarrow> cpp_error + Captured" where
  "rehydrate_outputs nd doc c =
     (if captured_outputs c \<noteq> [] then Inr c
      else
        case doc of
          None \<Rightarrow> Inr c
        | Some j \<Rightarrow>
            if \<not> json_contains j ''outputs'' then Inr c
            else
              res_bind (json_at j ''outputs'') (\<lambda>arr.
                fold (\<lambda>out r. res_bind r (rehydrate_output nd out)) (json_items arr) (Inr c)))"

text \<open>All captured residues go to the simulator.\<close>

definition store_captured_inputs :: "InputRecord list \<Rightarrow> SimImpl \<Rightarrow> cpp_error + SimImpl" where
  "store_captured_inputs inputs sim =
     fold (\<lambda>elem r. res_bind r (store_polynomial (pe_addr_id elem) (pe_values elem) (pe_modulus elem)))
       (concat (map ci_elements inputs)) (Inr sim)"

text \<open>
  The propagation along the copies: one lambda call, one pass over the relation with the flag of the
  loop, and the loop.
\<close>

definition copy_one :: "u64 \<Rightarrow> u64 \<Rightarrow> bool \<times> SimImpl \<Rightarrow> cpp_error + bool \<times> SimImpl" where
  "copy_one dst src = (\<lambda>(changed, sim).
     if \<not> sim_is_initialized dst sim \<and> sim_is_initialized src sim then
       res_bind (store_polynomial dst (get_polynomial src sim) (get_modulus src sim) sim) (\<lambda>sim'. Inr (True, sim'))
     else Inr (changed, sim))"

fun propagate_pass :: "u64 set \<Rightarrow> (u64 \<times> u64) list \<Rightarrow> bool \<times> SimImpl \<Rightarrow> cpp_error + bool \<times> SimImpl" where
  "propagate_pass needed [] st = Inr st"
| "propagate_pass needed ((child, parent) # parents) st =
     res_bind (if child \<in> needed then copy_one child parent st else Inr st) (\<lambda>st.
     res_bind (if parent \<in> needed then copy_one parent child st else Inr st) (\<lambda>st.
     propagate_pass needed parents st))"

text \<open>\<open>None\<close> would be a loop that does not end.\<close>

partial_function (option) propagate ::
  "u64 set \<Rightarrow> (u64 \<times> u64) list \<Rightarrow> SimImpl \<Rightarrow> (cpp_error + SimImpl) option" where
  "propagate needed parents sim =
     (case propagate_pass needed parents (False, sim) of
        Inl e \<Rightarrow> Some (Inl e)
      | Inr (changed, sim') \<Rightarrow> if changed then propagate needed parents sim' else Some (Inr sim'))"

declare propagate.simps [code]

definition live_out_addresses :: "Captured \<Rightarrow> u64 list" where
  "live_out_addresses c = concat (map co_addr_ids (captured_outputs c))"

text \<open>\<open>write_replay_outputs\<close>: the document, when there are outputs and the file opens.\<close>

definition write_replay_outputs :: "replay_host \<Rightarrow> 'h CompilerImpl \<Rightarrow> SimImpl \<Rightarrow> cpp_error + json option" where
  "write_replay_outputs host c sim =
     (if captured_outputs (cc_captured c) = [] then Inr None
      else
        res_bind (replay_outputs_json (\<lambda>a. get_polynomial a sim) (captured_outputs (cc_captured c))) (\<lambda>doc.
          Inr (if rh_opens host (path_append (get_program_directory (rh_cwd host) c) ''fhetch_replay_outputs.json'')
               then Some doc else None)))"

text \<open>From the populated simulator to the outputs.\<close>

definition run_replay ::
  "replay_host \<Rightarrow> 'h CompilerImpl \<Rightarrow> SimImpl \<Rightarrow> (cpp_error + bool \<times> json option) \<times> SimImpl" where
  "run_replay host c sim =
     (let sim1 = compute_liveness (rh_disable_frees host) (rh_free_order host)
                   (set_live_out_addresses (live_out_addresses (cc_captured c)) sim) in
      case sim_run (rh_backend host) sim1 of
        Inl e \<Rightarrow> (Inl e, sim1)
      | Inr (res, sim2) \<Rightarrow>
          if sim_errors res > 0 then (Inr (False, None), sim2)
          else (res_bind (write_replay_outputs host c sim2) (\<lambda>doc. Inr (True, doc)), sim2))"

definition populate_replay :: "replay_host \<Rightarrow> 'h CompilerImpl \<Rightarrow> SimImpl \<Rightarrow> cpp_error + SimImpl" where
  "populate_replay host c sim =
     (let needed = set (get_read_before_write_addresses sim) in
      res_bind (store_captured_inputs (captured_inputs (cc_captured c)) sim) (\<lambda>sim.
        case propagate needed (rh_parents host) sim of None \<Rightarrow> Inl Diverges | Some r \<Rightarrow> r))"

text \<open>
  The part of \<open>replay\<close> behind the choice of the simulator: the state is the world with the simulator.
\<close>

definition replay_in_process ::
  "replay_host \<Rightarrow> 'h World \<Rightarrow> (cpp_error + bool \<times> json option) \<times> 'h World \<times> SimImpl" where
  "replay_in_process host w =
     (let c = w_impl w; dir = get_program_directory (rh_cwd host) c;
          outputs_path = path_append dir (full_program_name c @ ''.outputs.json'');
          doc = (if rh_exists host outputs_path then rh_json host outputs_path else None) in
      case rehydrate_outputs (rh_ndebug host) doc (cc_captured c) of
        Inl e \<Rightarrow> (Inl e, w, SimImpl_init)
      | Inr cap \<Rightarrow>
          let w1 = on_impl (\<lambda>c. c\<lparr>cc_captured := cap\<rparr>) w;
              sim = set_ring_dimension (cc_ring_dimension c) SimImpl_init in
          case load_trace (rh_trace host (cc_last_trace_path c)) sim of
            Inl e \<Rightarrow> (Inl e, w1, sim)
          | Inr (False, sim) \<Rightarrow> (Inr (False, None), w1, sim)
          | Inr (True, sim) \<Rightarrow>
              let (r, w2) = sync_world (rh_ndebug host) w1 in
              case r of
                Inl e \<Rightarrow> (Inl e, w2, sim)
              | Inr _ \<Rightarrow>
                  (case populate_replay host (w_impl w2) sim of
                     Inl e \<Rightarrow> (Inl e, w2, sim)
                   | Inr sim \<Rightarrow> let (r, sim') = run_replay host (w_impl w2) sim in (r, w2, sim')))"

definition replay ::
  "replay_host \<Rightarrow> 'h World \<Rightarrow> (cpp_error + bool \<times> json option) \<times> 'h World \<times> SimImpl" where
  "replay host w =
     (if \<not> hardware_ok (w_impl w) then (Inr (False, None), w, SimImpl_init)
      else
        let path = find_trace host (w_impl w) in
        if path = [] then (Inr (False, None), w, SimImpl_init)
        else
          let w1 = on_impl (\<lambda>c. c\<lparr>cc_last_trace_path := path\<rparr>) w; c = w_impl w1 in
          if cc_ring_dimension c = 0 then (Inr (False, None), w1, SimImpl_init)
          else if cc_auto_tagging c then
            (case rh_refresh host of
               Some e \<Rightarrow> (Inl e, w1, SimImpl_init)
             | None \<Rightarrow>
                 let w2 = on_impl release_captured w1
                 in (res_bind (cooperative_replay host (w_impl w2)) (\<lambda>ok. Inr (ok, None)), w2, SimImpl_init))
          else if cc_target c \<noteq> ''local'' then (Inr (dispatch_to_compiler_target host c, None), w1, SimImpl_init)
          else replay_in_process host w1)"

end
