(* ===== verification/ReplayProps.thy ===== *)
theory ReplayProps
  imports Replay
begin

text \<open>
  What a replay guarantees: the propagation of inputs along the copies ends and reaches exactly the
  addresses connected to captured data; a worker's run that reports success has not read an
  unsupplied address; the outputs of both replays are those of the plain execution of the trace.
\<close>

section \<open>Full-size memories\<close>

text \<open>Every initialised polynomial has the size of the ring.\<close>

definition full_memory :: "SimImpl \<Rightarrow> bool" where
  "full_memory s \<longleftrightarrow>
     (\<forall>a e. mem_view a (im_memory s) = Some e \<longrightarrow> length (me_values e) = mem_ring_dim (im_memory s))"

abbreviation slot :: "u64 \<Rightarrow> SimImpl \<Rightarrow> MemoryElement option" where
  "slot a s \<equiv> mem_view a (im_memory s)"

lemma full_memoryD:
  "full_memory s \<Longrightarrow> slot a s = Some e \<Longrightarrow> length (me_values e) = mem_ring_dim (im_memory s)"
  by (simp add: full_memory_def)

lemma initialized_slot: "sim_is_initialized a s \<longleftrightarrow> slot a s \<noteq> None"
  by (simp add: sim_is_initialized_def mem_is_initialized_view)

text \<open>What a copy does when the memory is full-size.\<close>

lemma copy_one_spec:
  assumes "full_memory s"
  shows "\<exists>s'. copy_one d r (ch, s) = Inr (ch \<or> (slot d s = None \<and> slot r s \<noteq> None), s') \<and> full_memory s' \<and>
    mem_ring_dim (im_memory s') = mem_ring_dim (im_memory s) \<and>
    (\<forall>a. slot a s' = (if a = d \<and> slot d s = None then slot r s else slot a s))"
proof (cases "slot d s = None \<and> slot r s \<noteq> None")
  case True
  then obtain e where e: "slot r s = Some e" by blast
  have len: "length (me_values e) = mem_ring_dim (im_memory s)" using full_memoryD [OF assms e] .
  have ini: "me_initialized e" using e by (auto simp: mem_view_def mem_is_initialized_def mem_get_def split: if_splits option.splits)
  have vals: "get_polynomial r s = me_values e" "get_modulus r s = me_modulus e"
    using e by (auto simp: get_polynomial_def get_modulus_def mem_is_initialized_view mem_get_view)
  have eq: "\<lparr>me_values = me_values e, me_modulus = me_modulus e, me_initialized = True\<rparr> = e"
    using ini by simp
  let ?m = "write_slot d (me_modulus e) (me_values e) (im_memory s)"
  have st: "store_polynomial d (get_polynomial r s) (get_modulus r s) s = Inr (s\<lparr>im_memory := ?m\<rparr>)"
    unfolding vals using len by (simp add: store_polynomial_def mem_set_write_slot)
  have v: "slot a (s\<lparr>im_memory := ?m\<rparr>) = (if a = d then Some e else slot a s)" for a
    by (simp add: write_slot_view eq)
  have "full_memory (s\<lparr>im_memory := ?m\<rparr>)"
    using assms len v unfolding full_memory_def by auto
  then show ?thesis using True v e st
    by (intro exI [of _ "s\<lparr>im_memory := ?m\<rparr>"]) (simp add: copy_one_def initialized_slot)
next
  case False
  then show ?thesis using assms
    by (intro exI [of _ s]) (auto simp: copy_one_def initialized_slot)
qed

section \<open>The propagation\<close>

text \<open>The copies as undirected edges, each usable towards a live-in address.\<close>

definition carries :: "u64 set \<Rightarrow> (u64 \<times> u64) list \<Rightarrow> (u64 \<times> u64) set" where
  "carries needed parents =
     {(r, d). d \<in> needed \<and> ((d, r) \<in> set parents \<or> (r, d) \<in> set parents)}"

text \<open>The addresses captured data reaches.\<close>

definition reached :: "u64 set \<Rightarrow> (u64 \<times> u64) list \<Rightarrow> SimImpl \<Rightarrow> u64 set" where
  "reached needed parents s = (carries needed parents)\<^sup>* `` {a. sim_is_initialized a s}"

text \<open>\<open>s'\<close> extends \<open>s\<close> along the copies.\<close>

definition extends :: "u64 set \<Rightarrow> (u64 \<times> u64) list \<Rightarrow> SimImpl \<Rightarrow> SimImpl \<Rightarrow> bool" where
  "extends needed parents s s' \<longleftrightarrow>
     full_memory s' \<and> mem_ring_dim (im_memory s') = mem_ring_dim (im_memory s) \<and>
     (\<forall>a. slot a s \<noteq> None \<longrightarrow> slot a s' = slot a s) \<and>
     (\<forall>a. slot a s' \<noteq> None \<longrightarrow> (\<exists>r. (r, a) \<in> (carries needed parents)\<^sup>* \<and> slot r s \<noteq> None \<and> slot a s' = slot r s))"

lemma extends_refl: "full_memory s \<Longrightarrow> extends needed parents s s"
  by (auto simp: extends_def)

lemma extends_trans:
  assumes "extends needed parents s t" "extends needed parents t u"
  shows "extends needed parents s u"
proof -
  have "\<exists>r. (r, a) \<in> (carries needed parents)\<^sup>* \<and> slot r s \<noteq> None \<and> slot a u = slot r s"
    if "slot a u \<noteq> None" for a
  proof -
    obtain b where b: "(b, a) \<in> (carries needed parents)\<^sup>*" "slot b t \<noteq> None" "slot a u = slot b t"
      using assms(2) \<open>slot a u \<noteq> None\<close> by (force simp: extends_def)
    obtain r where "(r, b) \<in> (carries needed parents)\<^sup>*" "slot r s \<noteq> None" "slot b t = slot r s"
      using assms(1) b(2) by (force simp: extends_def)
    then show ?thesis using b by (metis rtrancl_trans)
  qed
  then show ?thesis using assms by (simp add: extends_def)
qed

lemma copy_one_extends:
  assumes "full_memory s" "(r, d) \<in> carries needed parents"
  shows "\<exists>s'. copy_one d r (ch, s) = Inr (ch \<or> (slot d s = None \<and> slot r s \<noteq> None), s') \<and>
    extends needed parents s s' \<and> (slot r s \<noteq> None \<longrightarrow> slot d s' \<noteq> None)"
proof -
  obtain s' where s': "copy_one d r (ch, s) = Inr (ch \<or> (slot d s = None \<and> slot r s \<noteq> None), s')"
    "full_memory s'" "mem_ring_dim (im_memory s') = mem_ring_dim (im_memory s)"
    "\<forall>a. slot a s' = (if a = d \<and> slot d s = None then slot r s else slot a s)"
    using copy_one_spec [OF assms(1), of d r ch] by (elim exE conjE) (rule that)
  have "extends needed parents s s'"
    using s' assms(2) r_into_rtrancl [OF assms(2)] unfolding extends_def by auto
  then show ?thesis using s' by auto
qed

text \<open>One pass: it extends, its flag tells whether an address was added, and it covers its edges.\<close>

definition pass_post ::
  "u64 set \<Rightarrow> (u64 \<times> u64) list \<Rightarrow> (u64 \<times> u64) list \<Rightarrow> bool \<Rightarrow> SimImpl \<Rightarrow> bool \<Rightarrow> SimImpl \<Rightarrow> bool" where
  "pass_post needed parents es ch s ch' s' \<longleftrightarrow>
     extends needed parents s s' \<and> (ch \<longrightarrow> ch') \<and>
     (ch' \<longrightarrow> ch \<or> (\<exists>a. slot a s = None \<and> slot a s' \<noteq> None)) \<and>
     (\<not> ch' \<longrightarrow> (\<forall>a. slot a s' = slot a s) \<and>
        (\<forall>r d. (r, d) \<in> carries needed es \<longrightarrow> slot r s' \<noteq> None \<longrightarrow> slot d s' \<noteq> None))"

lemma extends_new:
  "extends needed parents s s' \<Longrightarrow> slot a s = None \<and> slot a s' \<noteq> None \<Longrightarrow> extends needed parents s' t \<Longrightarrow>
     slot a t \<noteq> None"
  by (simp add: extends_def)

text \<open>One side of an edge.\<close>

lemma side_post:
  assumes "full_memory s" "(d, r) \<in> set parents \<or> (r, d) \<in> set parents"
  shows "\<exists>ch' s'. (if d \<in> needed then copy_one d r (ch, s) else Inr (ch, s)) = Inr (ch', s') \<and>
    extends needed parents s s' \<and> (ch \<longrightarrow> ch') \<and> (ch' \<longrightarrow> ch \<or> (\<exists>a. slot a s = None \<and> slot a s' \<noteq> None)) \<and>
    (\<not> ch' \<longrightarrow> (\<forall>a. slot a s' = slot a s) \<and> (d \<in> needed \<longrightarrow> slot r s' \<noteq> None \<longrightarrow> slot d s' \<noteq> None))"
proof (cases "d \<in> needed")
  case True
  then have c: "(r, d) \<in> carries needed parents" using assms(2) by (auto simp: carries_def)
  obtain s' where s': "copy_one d r (ch, s) = Inr (ch \<or> (slot d s = None \<and> slot r s \<noteq> None), s')"
    "full_memory s'" "mem_ring_dim (im_memory s') = mem_ring_dim (im_memory s)"
    "\<forall>a. slot a s' = (if a = d \<and> slot d s = None then slot r s else slot a s)"
    using copy_one_spec [OF assms(1), of d r ch] by (elim exE conjE) (rule that)
  have "extends needed parents s s'"
    using s'(2-4) r_into_rtrancl [OF c] unfolding extends_def by auto
  moreover have "slot d s = None \<and> slot r s \<noteq> None \<longrightarrow> slot d s' \<noteq> None" using s'(4) by simp
  moreover have "\<not> (slot d s = None \<and> slot r s \<noteq> None) \<longrightarrow>
      (\<forall>a. slot a s' = slot a s) \<and> (slot r s' \<noteq> None \<longrightarrow> slot d s' \<noteq> None)"
    using s'(4) by auto
  ultimately show ?thesis using True s'(1)
    by (intro exI [of _ "ch \<or> (slot d s = None \<and> slot r s \<noteq> None)"] exI [of _ s']) (simp, blast)
next
  case False
  then show ?thesis using extends_refl [OF assms(1)] by simp
qed

lemma extends_old: "extends needed parents s s' \<Longrightarrow> slot a s' = None \<Longrightarrow> slot a s = None"
  by (metis extends_def)

lemma extends_keeps: "extends needed parents s s' \<Longrightarrow> slot a s \<noteq> None \<Longrightarrow> slot a s' \<noteq> None"
  by (simp add: extends_def)

lemma extends_full: "extends needed parents s s' \<Longrightarrow> full_memory s'"
  by (simp add: extends_def)

lemma pass_spec:
  assumes "full_memory s" "set es \<subseteq> set parents"
  shows "\<exists>ch' s'. propagate_pass needed es (ch, s) = Inr (ch', s') \<and> pass_post needed parents es ch s ch' s'"
  using assms
proof (induction es arbitrary: ch s)
  case Nil
  then show ?case by (auto simp: pass_post_def extends_refl carries_def)
next
  case (Cons e es)
  obtain c p where e: "e = (c, p)" by fastforce
  have in_p: "(c, p) \<in> set parents" using Cons.prems(2) e by simp
  obtain ch1 s1 where 1: "(if c \<in> needed then copy_one c p (ch, s) else Inr (ch, s)) = Inr (ch1, s1)"
    "extends needed parents s s1" "ch \<longrightarrow> ch1" "ch1 \<longrightarrow> ch \<or> (\<exists>a. slot a s = None \<and> slot a s1 \<noteq> None)"
    "\<not> ch1 \<longrightarrow> (\<forall>a. slot a s1 = slot a s) \<and> (c \<in> needed \<longrightarrow> slot p s1 \<noteq> None \<longrightarrow> slot c s1 \<noteq> None)"
    using side_post [OF Cons.prems(1) disjI1 [OF in_p], of needed ch] by (elim exE conjE) (rule that)
  obtain ch2 s2 where 2: "(if p \<in> needed then copy_one p c (ch1, s1) else Inr (ch1, s1)) = Inr (ch2, s2)"
    "extends needed parents s1 s2" "ch1 \<longrightarrow> ch2" "ch2 \<longrightarrow> ch1 \<or> (\<exists>a. slot a s1 = None \<and> slot a s2 \<noteq> None)"
    "\<not> ch2 \<longrightarrow> (\<forall>a. slot a s2 = slot a s1) \<and> (p \<in> needed \<longrightarrow> slot c s2 \<noteq> None \<longrightarrow> slot p s2 \<noteq> None)"
    using side_post [OF extends_full [OF 1(2)] disjI2 [OF in_p], of needed ch1] by (elim exE conjE) (rule that)
  have sub: "set es \<subseteq> set parents" using Cons.prems(2) by simp
  obtain ch' s' where 3: "propagate_pass needed es (ch2, s2) = Inr (ch', s')" "pass_post needed parents es ch2 s2 ch' s'"
    using Cons.IH [OF extends_full [OF 2(2)] sub, of ch2] by (elim exE conjE) (rule that)
  note post = 3(2) [unfolded pass_post_def]
  have ext: "extends needed parents s s'"
    using extends_trans [OF extends_trans [OF 1(2) 2(2)]] post by blast
  have new: "ch' \<longrightarrow> ch \<or> (\<exists>a. slot a s = None \<and> slot a s' \<noteq> None)"
    using post 1(2,4) 2(2,4) extends_old extends_keeps by metis
  have quiet: "\<not> ch' \<longrightarrow> (\<forall>a. slot a s' = slot a s) \<and>
      (\<forall>r d. (r, d) \<in> carries needed (e # es) \<longrightarrow> slot r s' \<noteq> None \<longrightarrow> slot d s' \<noteq> None)"
  proof
    assume n: "\<not> ch'"
    then have n2: "\<not> ch2" "\<not> ch1" using post 2(3) by blast+
    have eq: "slot a s' = slot a s" "slot a s1 = slot a s" "slot a s2 = slot a s" for a
      using n n2 post 1(5) 2(5) by simp_all
    have cov: "slot r s' \<noteq> None \<longrightarrow> slot d s' \<noteq> None" if "(r, d) \<in> carries needed es" for r d
      using n post that by blast
    have "(r, d) \<in> carries needed es \<or> (d \<in> needed \<and> (r = p \<and> d = c \<or> r = c \<and> d = p))"
      if "(r, d) \<in> carries needed (e # es)" for r d
      using that e by (auto simp: carries_def)
    then show "(\<forall>a. slot a s' = slot a s) \<and>
        (\<forall>r d. (r, d) \<in> carries needed (e # es) \<longrightarrow> slot r s' \<noteq> None \<longrightarrow> slot d s' \<noteq> None)"
      using cov 1(5) 2(5) n2 eq by metis
  qed
  show ?case
  proof (intro exI conjI)
    show "propagate_pass needed (e # es) (ch, s) = Inr (ch', s')"
      using 1(1) 2(1) 3(1) e by simp
    show "pass_post needed parents (e # es) ch s ch' s'"
      using ext new quiet post 1(3) 2(3) unfolding pass_post_def by blast
  qed
qed

lemma propagate_spec:
  assumes "full_memory s"
  shows "\<exists>s'. propagate needed parents s = Some (Inr s') \<and> extends needed parents s s' \<and>
    (\<forall>r d. (r, d) \<in> carries needed parents \<longrightarrow> slot r s' \<noteq> None \<longrightarrow> slot d s' \<noteq> None)"
  using assms
proof (induction "card {a. slot a s = None}" arbitrary: s rule: less_induct)
  case less
  obtain ch t where t: "propagate_pass needed parents (False, s) = Inr (ch, t)"
    "pass_post needed parents parents False s ch t"
    using pass_spec [OF less.prems subset_refl, of needed parents False] by (elim exE conjE) (rule that)
  note post = t(2) [unfolded pass_post_def]
  show ?case
  proof (cases ch)
    case False
    then have "propagate needed parents s = Some (Inr t)"
      by (subst propagate.simps) (simp add: t(1))
    then show ?thesis using post False by blast
  next
    case True
    then obtain a where a: "slot a s = None" "slot a t \<noteq> None" using post by blast
    have ext: "extends needed parents s t" using post by blast
    have "{b. slot b t = None} \<subset> {b. slot b s = None}"
    proof (rule psubsetI)
      show "{b. slot b t = None} \<subseteq> {b. slot b s = None}"
        by (intro Collect_mono impI) (rule extends_old [OF ext])
      show "{b. slot b t = None} \<noteq> {b. slot b s = None}"
      proof
        assume eq: "{b. slot b t = None} = {b. slot b s = None}"
        have "a \<in> {b. slot b s = None}" using a(1) by (rule CollectI)
        then have "a \<in> {b. slot b t = None}" unfolding eq .
        then show False using a(2) by (simp only: mem_Collect_eq) 
      qed
    qed
    then have "card {b. slot b t = None} < card {b. slot b s = None}"
      by (rule psubset_card_mono [OF finite])
    from less.hyps [OF this extends_full [OF ext]] obtain u where u: "propagate needed parents t = Some (Inr u)"
      "extends needed parents t u"
      "\<forall>r d. (r, d) \<in> carries needed parents \<longrightarrow> slot r u \<noteq> None \<longrightarrow> slot d u \<noteq> None"
      by (elim exE conjE) (rule that)
    have "propagate needed parents s = Some (Inr u)"
      using True u(1) by (subst propagate.simps) (simp add: t(1))
    then show ?thesis using u extends_trans [OF ext u(2)] by blast
  qed
qed

lemma propagated_initialized:
  assumes "extends needed parents s s'"
    "\<forall>r d. (r, d) \<in> carries needed parents \<longrightarrow> slot r s' \<noteq> None \<longrightarrow> slot d s' \<noteq> None"
  shows "sim_is_initialized a s' \<longleftrightarrow> a \<in> reached needed parents s"
proof
  assume "sim_is_initialized a s'"
  then show "a \<in> reached needed parents s"
    using assms(1) by (force simp: extends_def reached_def initialized_slot)
next
  assume "a \<in> reached needed parents s"
  then obtain r where r: "(r, a) \<in> (carries needed parents)\<^sup>*" "slot r s \<noteq> None"
    by (auto simp: reached_def initialized_slot)
  from r(1) have "slot a s' \<noteq> None"
  proof (induction rule: rtrancl_induct)
    case base
    then show ?case using extends_keeps [OF assms(1) r(2)] .
  next
    case (step b c)
    then show ?case using assms(2) by blast
  qed
  then show "sim_is_initialized a s'" by (simp add: initialized_slot)
qed

text \<open>
  C13: the propagation of the captured inputs along the copies always ends, without a fault.  The
  addresses it leaves initialised are exactly those the captured data reaches over copies into live-in
  addresses; what was captured is not overwritten, and every other address holds the values and the
  modulus of a captured address it is connected to.
\<close>

theorem propagation_reaches_connected_inputs:
  assumes "full_memory s"
  shows "\<exists>s'. propagate needed parents s = Some (Inr s') \<and>
    (\<forall>a. sim_is_initialized a s' \<longleftrightarrow> a \<in> reached needed parents s) \<and>
    (\<forall>a. sim_is_initialized a s \<longrightarrow>
       get_polynomial a s' = get_polynomial a s \<and> get_modulus a s' = get_modulus a s) \<and>
    (\<forall>a. sim_is_initialized a s' \<longrightarrow>
       (\<exists>r. (r, a) \<in> (carries needed parents)\<^sup>* \<and> sim_is_initialized r s \<and>
          get_polynomial a s' = get_polynomial r s \<and> get_modulus a s' = get_modulus r s))"
proof -
  obtain s' where s': "propagate needed parents s = Some (Inr s')" "extends needed parents s s'"
    "\<forall>r d. (r, d) \<in> carries needed parents \<longrightarrow> slot r s' \<noteq> None \<longrightarrow> slot d s' \<noteq> None"
    using propagate_spec [OF assms, of needed parents] by (elim exE conjE) (rule that)
  have same: "get_polynomial a s' = get_polynomial r s \<and> get_modulus a s' = get_modulus r s"
    if "slot a s' = slot r s" "slot r s \<noteq> None" for a r
    using that by (auto simp: get_polynomial_def get_modulus_def mem_is_initialized_view mem_get_view)
  show ?thesis
    using s' same propagated_initialized [OF s'(2,3)]
    by (intro exI [of _ s'] conjI) (simp_all add: initialized_slot extends_def, metis+)
qed

section \<open>Runs without zero-fills\<close>

text \<open>
  A kernel that succeeds, having read only initialised addresses, reports no new uninitialised read and
  initialises its destination.
\<close>

definition wrote :: "u64 \<Rightarrow> SimImpl \<Rightarrow> cpp_error + bool \<times> SimImpl \<Rightarrow> bool" where
  "wrote d s r \<longleftrightarrow>
     (\<forall>s'. r = Inr (True, s') \<longrightarrow> im_warned_uninit s' = im_warned_uninit s \<and> im_free_after s' = im_free_after s \<and>
        (\<forall>a. sim_is_initialized a s' \<longleftrightarrow> sim_is_initialized a s \<or> a = d))"

named_theorems wrote_intros

lemma wrote_fail [wrote_intros]: "wrote d s (Inr (False, t))" "wrote d s (Inl e)"
  by (simp_all add: wrote_def)

lemma wrote_store [wrote_intros]: "wrote (ucast d) s (store_result d q f s)"
  by (auto simp: wrote_def store_result_def split_beta Let_def initialized_slot mem_view_put
      commit_dest_def fill_dest_def mem_at_put reserve_dest_def)

lemma wrote_cong:
  "wrote d t r \<Longrightarrow> im_warned_uninit t = im_warned_uninit s \<Longrightarrow> im_free_after t = im_free_after s \<Longrightarrow>
     im_memory t = im_memory s \<Longrightarrow> wrote d s r"
  by (simp add: wrote_def sim_is_initialized_def)

lemma resolve_frame:
  "im_warned_uninit (snd (resolve_modulus inst s)) = im_warned_uninit s"
  "im_free_after (snd (resolve_modulus inst s)) = im_free_after s"
  "im_memory (snd (resolve_modulus inst s)) = im_memory s"
  by (simp_all add: resolve_modulus_def sim_error_def split: option.split)

lemma get_initialized:
  "sim_is_initialized a s \<Longrightarrow> get_or_zero a s = (me_values (mem_get a (im_memory s)), s)"
  by (simp add: get_or_zero_def sim_is_initialized_def)

lemma wrote_resolved:
  assumes "\<And>q t. im_memory t = im_memory s \<Longrightarrow> wrote d t (f q t)"
  shows "wrote d s (let (q, t) = resolve_modulus inst s in f q t)"
  unfolding Let_def split_beta
  by (rule wrote_cong [OF assms]) (simp_all add: resolve_frame)

lemma wrote_unary:
  assumes "sim_is_initialized (ucast (src1 inst)) s" "\<And>q a t. wrote d t (f q a t)"
  shows "wrote d s
    (let (q, s) = resolve_modulus inst s; (a, s) = get_or_zero (ucast (src1 inst)) s in
     if wrong_size a s then Inr (False, sim_error s) else f q a s)"
proof (rule wrote_resolved)
  fix q and t :: SimImpl assume "im_memory t = im_memory s"
  then have "sim_is_initialized (ucast (src1 inst)) t" using assms(1) by (simp add: sim_is_initialized_def)
  then show "wrote d t (let (a, s) = get_or_zero (ucast (src1 inst)) t in
      if wrong_size a s then Inr (False, sim_error s) else f q a s)"
    by (simp add: get_initialized wrote_intros assms(2))
qed

lemma wrote_binary:
  assumes "sim_is_initialized (ucast (src1 inst)) s" "sim_is_initialized (ucast (src2 inst)) s"
  shows "wrote (ucast (dest inst)) s (exec_binary g inst s)"
  unfolding exec_binary_def
proof (rule wrote_resolved)
  fix q and t :: SimImpl assume "im_memory t = im_memory s"
  then have "sim_is_initialized (ucast (src1 inst)) t" "sim_is_initialized (ucast (src2 inst)) t"
    using assms by (simp_all add: sim_is_initialized_def)
  then show "wrote (ucast (dest inst)) t
      (let (a, s) = get_or_zero (ucast (src1 inst)) t; (b, s) = get_or_zero (ucast (src2 inst)) s
       in if wrong_size a s \<or> wrong_size b s then Inr (False, sim_error s)
          else store_result (dest inst) q (copy_result (g q a b) (im_ring_dim s)) s)"
    by (simp add: get_initialized wrote_intros)
qed

lemma wrote_mulps:
  assumes "imm_or_0 inst \<noteq> 0 \<longrightarrow> sim_is_initialized (ucast (src1 inst)) s"
  shows "wrote (ucast (dest inst)) s (exec_mulps be inst s)"
proof (cases "imm_or_0 inst = 0")
  case True
  then show ?thesis
    unfolding exec_mulps_def by (intro wrote_resolved) (simp add: wrote_intros)
next
  case False
  then have "sim_is_initialized (ucast (src1 inst)) s" using assms by simp
  from wrote_unary [OF this, where f = "\<lambda>q a s. store_result (dest inst) q
      (copy_result (be_mod_mul_eq be q a (imm_or_0 inst)) (im_ring_dim s)) s", OF wrote_store]
  show ?thesis using False by (simp add: exec_mulps_def)
qed

lemma tables_frame:
  "ntt_tables_for be inst q s = Inr (t, s') \<Longrightarrow>
     im_warned_uninit s' = im_warned_uninit s \<and> im_free_after s' = im_free_after s \<and> im_memory s' = im_memory s"
  by (auto simp: ntt_tables_for_def Let_def sim_error_def res_bind_eq_Inr opt_throw_def
      split: option.splits if_splits)

lemma wrote_transform:
  assumes "sim_is_initialized (ucast (src1 inst)) s"
  shows "wrote (ucast (dest inst)) s (exec_transform be tr inst s)"
  unfolding exec_transform_def
proof (rule wrote_unary [OF assms])
  fix q a t
  show "wrote (ucast (dest inst)) t (res_bind (ntt_tables_for be inst q t) (\<lambda>(tables, s). case tables of
      None \<Rightarrow> Inr (False, s)
    | Some x \<Rightarrow> store_result (dest inst) q (copy_result (tr q x a) (im_ring_dim s)) s))"
  proof (cases "ntt_tables_for be inst q t")
    case (Inr r)
    obtain x s' where "r = (x, s')" by fastforce
    then show ?thesis
      using Inr tables_frame [of be inst q t x s'] wrote_cong [OF wrote_store, of s' t]
      by (cases x) (simp_all add: wrote_intros)
  qed (simp add: wrote_intros)
qed

text \<open>The opcodes of the instruction set.\<close>

lemma opcode_cases:
  assumes "(c :: u8) \<le> FH_HALT"
  shows "c \<in> {0, 1, 2, 3, 4, 5, 6, 7, 8, 9, 10, 11, 12, 13, 14, 15, 16, 17, 18, 19, 20, 21, 22, 23, 24, 25, 26, 27}"
proof -
  have "unat c < 28" using assms by (simp add: word_le_nat_alt)
  then have "unat c \<in> set [0..<28]" by simp
  then have "c \<in> of_nat ` set [0..<28]" by (intro image_eqI [of _ _ "unat c"]) simp_all
  moreover have "of_nat ` set [0..<28] =
      {0, 1, 2, 3, 4, 5, 6, 7, 8, 9, 10, 11, 12, 13, 14, 15, 16, 17, 18, 19, 20, 21, 22, 23, 24, 25, 26, 27 :: u8}"
    by (simp add: upt_rec)
  ultimately show ?thesis by blast
qed

lemma wrote_kernels:
  assumes "sim_is_initialized (ucast (src1 x)) s"
  shows "wrote (ucast (dest x)) s (exec_addps be x s)" "wrote (ucast (dest x)) s (exec_subps be x s)"
    "wrote (ucast (dest x)) s (exec_negp x s)" "wrote (ucast (dest x)) s (exec_automorph_eval x s)"
    "wrote (ucast (dest x)) s (exec_rot_automorph_coeff x s)"
  unfolding exec_addps_def exec_subps_def exec_negp_def exec_automorph_eval_def exec_rot_automorph_coeff_def
  by (rule wrote_unary [OF assms];
      auto simp: Let_def res_bind_def wrote_intros split: option.split sum.split)+

lemma wrote_instruction:
  assumes "\<And>a. a \<in> reads_of x \<Longrightarrow> sim_is_initialized a s" "opcode x \<le> FH_HALT"
  shows "if iu_writes (classify_uses x) then wrote (iu_write (classify_uses x)) s (exec_instruction be x s)
    else exec_instruction be x s = Inr (True, s)"
proof -
  have r: "\<forall>a \<in> set (iu_reads (classify_uses x)). sim_is_initialized a s"
    using assms(1) by (simp add: reads_of_def)
  show ?thesis
    using opcode_cases [OF assms(2)] r
    unfolding insert_iff empty_iff
    by (elim disjE)
       (simp_all add: classify_uses_def iu_none_def exec_instruction_def Let_def exec_addp_def exec_subp_def
          exec_mulp_def exec_ntt_def exec_intt_def wrote_binary wrote_transform wrote_kernels,
        simp_all add: wrote_mulps imm_or_0_def split: if_splits)
qed

lemma live_in_reads: "a \<in> live_in xs \<Longrightarrow> \<exists>k < length xs. a \<in> reads_of (xs ! k)"
  by (auto simp: live_in_iff reads_of_def)

lemma free_initialized:
  "sim_is_initialized a (free_addresses as s) \<longleftrightarrow> a \<notin> set as \<and> sim_is_initialized a s"
  by (simp add: initialized_slot free_addresses_def mem_view_erase_all)

lemma free_frame [simp]:
  "im_warned_uninit (free_addresses as s) = im_warned_uninit s"
  "im_free_after (free_addresses as s) = im_free_after s"
  by (simp_all add: free_addresses_def)

text \<open>A program within the instruction set.\<close>

definition known_opcodes :: "Instruction list \<Rightarrow> bool" where
  "known_opcodes insts \<longleftrightarrow> list_all (\<lambda>x. opcode x \<le> FH_HALT) insts"

lemma step_no_zero_fill:
  assumes safe: "safe_schedule out all fa" and fa: "im_free_after s = fa" and drop: "drop i all = x # xs"
    and op: "opcode x \<le> FH_HALT" and live: "\<And>a. a \<in> live_in (x # xs) \<Longrightarrow> sim_is_initialized a s"
    and ex: "exec_instruction be x s = Inr (True, s1)"
  defines "s2 \<equiv> if i < length (im_free_after s1) then free_addresses (im_free_after s1 ! i) s1 else s1"
  shows "im_warned_uninit s2 = im_warned_uninit s \<and> im_free_after s2 = fa \<and>
    (\<forall>a \<in> live_in xs. sim_is_initialized a s2)"
proof -
  have i: "i < length all" using drop by (metis drop_all list.discI not_less)
  have xs: "drop (Suc i) all = xs" using drop Cons_nth_drop_Suc [OF i] by simp
  have rd: "sim_is_initialized a s" if "a \<in> reads_of x" for a
    using live that by (simp add: reads_of_def)
  note w = wrote_instruction [OF rd op, of be]
  have one: "im_warned_uninit s1 = im_warned_uninit s \<and> im_free_after s1 = fa \<and>
      (\<forall>a. sim_is_initialized a s1 \<longleftrightarrow> sim_is_initialized a s \<or>
         (iu_writes (classify_uses x) \<and> a = iu_write (classify_uses x)))"
    using w ex fa by (cases "iu_writes (classify_uses x)") (simp_all add: wrote_def)
  have "sim_is_initialized a s2" if a: "a \<in> live_in xs" for a
  proof -
    have "sim_is_initialized a s1"
      using one live [of a] a by (cases "iu_writes (classify_uses x) \<and> a = iu_write (classify_uses x)") auto
    moreover have "a \<in> live_at out all (Suc i)"
    proof -
      obtain k where k: "k < length xs" "a \<in> reads_of (xs ! k)" using live_in_reads [OF a] by blast
      have "Suc i + k < length all" "xs ! k = all ! (Suc i + k)"
        using k(1) unfolding xs [symmetric] by simp_all
      then show ?thesis using k(2) by (auto simp: live_at_def)
    qed
    ultimately show ?thesis
      using safe one by (auto simp: s2_def free_initialized safe_schedule_def)
  qed
  then show ?thesis using one by (simp add: s2_def)
qed

lemma loop_no_zero_fill:
  assumes safe: "safe_schedule out all fa"
  shows "im_free_after s = fa \<Longrightarrow> drop i all = insts \<Longrightarrow> known_opcodes insts \<Longrightarrow>
    (\<And>a. a \<in> live_in insts \<Longrightarrow> sim_is_initialized a s) \<Longrightarrow>
    execute_loop be i insts n s = Inr (n', s') \<Longrightarrow> im_error_count s' = im_error_count s \<Longrightarrow>
    im_warned_uninit s' = im_warned_uninit s"
proof (induction insts arbitrary: i n s)
  case (Cons x xs)
  obtain ok s1 where e: "exec_instruction be x s = Inr (ok, s1)"
    using Cons.prems(5) by (auto simp: res_bind_eq_Inr)
  let ?s2 = "if i < length (im_free_after s1) then free_addresses (im_free_after s1 ! i) s1 else s1"
  have loop: "execute_loop be (Suc i) xs (if ok then n + 1 else n) ?s2 = Inr (n', s')"
    using Cons.prems(5) e by (simp add: Let_def)
  have "im_error_count ?s2 \<le> im_error_count s'"
    using execute_loop_counts [OF loop] by simp
  moreover have "im_error_count s + (if ok then 0 else 1) \<le> im_error_count ?s2"
    using counts_instruction [of s be x] e by (simp add: counts_def)
  ultimately have ok: "ok" and c: "im_error_count s' = im_error_count ?s2"
    using Cons.prems(6) by (auto split: if_splits)
  have i: "i < length all" using Cons.prems(2) by (metis drop_all list.discI not_less)
  have xs: "drop (Suc i) all = xs" using Cons.prems(2) Cons_nth_drop_Suc [OF i] by simp
  have op: "opcode x \<le> FH_HALT" "known_opcodes xs" using Cons.prems(3) by (simp_all add: known_opcodes_def)
  note step = step_no_zero_fill [OF safe Cons.prems(1,2) op(1) Cons.prems(4) e [unfolded eqTrueI [OF ok]]]
  have "im_warned_uninit s' = im_warned_uninit ?s2"
    by (rule Cons.IH [OF _ xs op(2) _ loop c]) (use step in auto)
  then show ?case using step by simp
qed simp

section \<open>The worker\<close>

text \<open>A predicate on the state of the sink that every tower keeps is kept by every loader.\<close>

definition sink_keeps :: "('st \<Rightarrow> bool) \<Rightarrow> 'st sink \<Rightarrow> bool" where
  "sink_keeps P sink \<longleftrightarrow> (\<forall>addr vals modl st. P st \<longrightarrow> P (sink addr vals modl st))"

definition ld_keeps :: "('st \<Rightarrow> bool) \<Rightarrow> ('ar, 'st, 'a) loader \<Rightarrow> bool" where
  "ld_keeps P m \<longleftrightarrow> (\<forall>ar ids st. P st \<longrightarrow> P (snd (snd (snd (m (ar, ids, st))))))"

named_theorems keeps_intros

lemma ld_keeps_return [keeps_intros]: "ld_keeps P (ld_return x)"
  by (simp add: ld_keeps_def ld_return_def)

lemma ld_keeps_fail [keeps_intros]: "ld_keeps P ld_fail"
  by (simp add: ld_keeps_def ld_fail_def)

lemma ld_keeps_read [keeps_intros]: "ld_keeps P (ld_read rd)"
  by (simp add: ld_keeps_def ld_read_def split: option.split prod.split)

lemma ld_keeps_bind [keeps_intros]:
  assumes "ld_keeps P m" "\<And>x. ld_keeps P (f x)"
  shows "ld_keeps P (ld_bind m f)"
  unfolding ld_keeps_def
proof (intro allI impI)
  fix ar ids st assume "P st"
  obtain r ar' ids' st' where m: "m (ar, ids, st) = (r, ar', ids', st')" by (cases "m (ar, ids, st)")
  have "P st'" using assms(1) \<open>P st\<close> m unfolding ld_keeps_def by (metis snd_conv)
  then show "P (snd (snd (snd (ld_bind m f (ar, ids, st)))))"
    using assms(2) m by (simp add: ld_bind_def ld_keeps_def split: option.split)
qed

lemma ld_keeps_times [keeps_intros]: "ld_keeps P m \<Longrightarrow> ld_keeps P (ld_times n m)"
  by (induction n) (simp_all add: keeps_intros)

lemma extract_keeps:
  "sink_keeps P sink \<Longrightarrow> P st \<Longrightarrow> P (snd (extract_dcrt_towers sink ts ids st))"
  by (induction sink ts ids st rule: extract_dcrt_towers.induct) (simp_all add: sink_keeps_def)

lemma load_dcrt_keeps [keeps_intros]: "sink_keeps P sink \<Longrightarrow> ld_keeps P (load_dcrt ar sink)"
  unfolding load_dcrt_def
  by (intro keeps_intros) (simp add: ld_keeps_def extract_keeps split_beta Let_def)

lemma read_1d_keeps [keeps_intros]: "sink_keeps P sink \<Longrightarrow> ld_keeps P (read_1d ar sink)"
  unfolding read_1d_def read_dcrt_group_def by (intro keeps_intros)

lemma read_2d_keeps [keeps_intros]: "sink_keeps P sink \<Longrightarrow> ld_keeps P (read_2d ar sink)"
  unfolding read_2d_def by (intro keeps_intros)

lemma proxy_loop_keeps [keeps_intros]:
  assumes "sink_keeps P sink"
  shows "ld_keeps P (proxy_loop ar sink n)"
proof (induction n)
  case (Suc n)
  have "ld_keeps P (\<lambda>(a, ids, st). case ids of [] \<Rightarrow> (Some (), a, ids, st)
       | addr # ids' \<Rightarrow> proxy_loop ar sink n (a, ids', sink addr vals modl st))" for modl vals
    unfolding ld_keeps_def
  proof (intro allI impI)
    fix a ids st assume "P st"
    then show "P (snd (snd (snd (case (a, ids, st) of (a, ids, st) \<Rightarrow> case ids of [] \<Rightarrow> (Some (), a, ids, st)
        | addr # ids' \<Rightarrow> proxy_loop ar sink n (a, ids', sink addr vals modl st)))))"
      using Suc.IH assms by (cases ids) (simp_all add: ld_keeps_def sink_keeps_def)
  qed
  then show ?case unfolding proxy_loop.simps by (intro keeps_intros)
qed (simp add: keeps_intros)

lemma load_instance_keeps [keeps_intros]: "sink_keeps P sink \<Longrightarrow> ld_keeps P (load_instance ar sink)"
  unfolding load_instance_def read_dcrt_group_def by (intro keeps_intros) (auto intro!: keeps_intros)

lemma load_bin_keeps: "ld_keeps P body \<Longrightarrow> P st \<Longrightarrow> P (snd (load_bin body archive ids st))"
  unfolding load_bin_def ld_keeps_def
  by (cases archive) (simp_all add: split_beta)

definition step_keeps :: "('st \<Rightarrow> bool) \<Rightarrow> 'st load_step \<Rightarrow> bool" where
  "step_keeps P m \<longleftrightarrow> (\<forall>st. P st \<longrightarrow> P (snd (m st)))"

lemma load_files_keeps:
  assumes "\<And>file ids st. P st \<Longrightarrow> P (snd (rd file ids st))"
  shows "step_keeps P (load_ids_and_bin env rd bin ids)"
  using assms
  by (auto simp: step_keeps_def load_ids_and_bin_def Let_def split_beta split: sum.split)

lemma load_index_entry_keeps:
  assumes "sink_keeps P sink"
  shows "step_keeps P (load_index_entry env dir sink entry)"
proof -
  have b: "step_keeps P (load_ids_and_bin env (load_input_bin (rv_archive env) sink) bin ids)" for bin ids
    unfolding load_input_bin_def
    by (rule load_files_keeps, rule load_bin_keeps) (intro keeps_intros assms)
  show ?thesis
    unfolding step_keeps_def load_index_entry_def
    using b by (auto simp: step_keeps_def Let_def split: sum.split)
qed

lemma load_index_entries_keeps:
  assumes "sink_keeps P sink"
  shows "step_keeps P (load_index_entries env dir sink es)"
proof (induction es)
  case (Cons e es)
  show ?case
    unfolding step_keeps_def
  proof (intro allI impI)
    fix st assume "P st"
    obtain r st' where e: "load_index_entry env dir sink e st = (r, st')" by fastforce
    have "P st'" using load_index_entry_keeps [OF assms] e \<open>P st\<close> by (metis snd_conv step_keeps_def)
    then show "P (snd (load_index_entries env dir sink (e # es) st))"
      using Cons.IH e by (simp add: step_keeps_def split: sum.split bool.split)
  qed
qed (simp add: step_keeps_def)

lemma load_source_inputs_keeps:
  "sink_keeps P sink \<Longrightarrow> step_keeps P (load_source_inputs env dir prog sink)"
  using load_index_entries_keeps [of P sink env dir]
  by (auto simp: step_keeps_def load_source_inputs_def Let_def split: option.split sum.split)

lemma load_and_keeps:
  assumes "step_keeps P m" "step_keeps P k"
  shows "step_keeps P (load_and m k)"
  unfolding step_keeps_def
proof (intro allI impI)
  fix st assume "P st"
  obtain r st' where m: "m st = (r, st')" by fastforce
  have "P st'" using assms(1) m \<open>P st\<close> unfolding step_keeps_def by (metis snd_conv)
  then show "P (snd (load_and m k st))"
    using assms(2) m by (simp add: load_and_def step_keeps_def split: sum.split bool.split)
qed

lemma load_with_keeps:
  assumes "\<And>fl ids st. P st \<Longrightarrow> P (snd (rd fl ids st))"
  shows "step_keeps P (load_with env dir prog base rd)"
proof -
  have "step_keeps P (load_ids_and_bin env rd b i)" for b i by (rule load_files_keeps) (rule assms)
  then show ?thesis by (simp add: step_keeps_def load_with_def Let_def)
qed

lemma load_source_keys_keeps:
  assumes "sink_keeps P sink"
  shows "step_keeps P (load_source_keys env dir prog sink)"
proof -
  have k: "step_keeps P (load_with env dir prog b (load_key_bin (rv_archive env) sink))" for b
    unfolding load_key_bin_def
    by (rule load_with_keeps, rule load_bin_keeps) (intro keeps_intros assms)
  have b: "step_keeps P (load_with env dir prog ''bp'' (load_bp_bin (rv_archive env) sink))"
    unfolding load_bp_bin_def load_bp_entry_def
    by (rule load_with_keeps, rule load_bin_keeps) (intro keeps_intros assms)
  show ?thesis
    unfolding load_source_keys_def by (rule load_and_keeps [OF k load_and_keeps [OF k b]])
qed

text \<open>What the population leaves: only the memory changes, and what is stored is needed and initialised.\<close>

definition populated :: "u64 set \<Rightarrow> SimImpl \<Rightarrow> SimImpl \<times> u64 set \<Rightarrow> bool" where
  "populated needed sim0 st =
     (case st of (sim, stored) \<Rightarrow>
        sim = sim0\<lparr>im_memory := im_memory sim\<rparr> \<and> mem_ring_dim (im_memory sim) = mem_ring_dim (im_memory sim0) \<and>
        stored \<subseteq> needed \<and> (\<forall>a \<in> stored. sim_is_initialized a sim))"

lemma populate_sink_keeps: "sink_keeps (populated needed sim0) (populate_sink needed)"
proof -
  have "populated needed sim0 (populate_sink needed addr vals modl (sim, stored))"
    if p: "populated needed sim0 (sim, stored)" for addr vals modl sim stored
  proof (cases "addr \<in> needed")
    case True
    let ?m = "set_owned addr vals modl (im_memory sim)"
    have v: "sim_is_initialized a (sim\<lparr>im_memory := ?m\<rparr>) \<longleftrightarrow> a = addr \<or> sim_is_initialized a sim" for a
      by (simp add: initialized_slot set_owned_def mem_view_put)
    have s: "sim = sim0\<lparr>im_memory := im_memory sim\<rparr>" using p by (simp add: populated_def)
    have "sim\<lparr>im_memory := ?m\<rparr> = sim0\<lparr>im_memory := ?m\<rparr>" by (subst s) simp
    then show ?thesis
      using True p v by (auto simp: populated_def populate_sink_def store_polynomial_owned_def set_owned_def)
  next
    case False
    then show ?thesis using p by (simp add: populate_sink_def)
  qed
  then show ?thesis by (auto simp: sink_keeps_def)
qed

lemma populated_base: "populated needed sim (sim, {})"
  by (simp add: populated_def)

lemma populate_inputs_covers:
  assumes "populate_inputs env dir prog sim = (Inr True, sim')"
  shows "sim' = sim\<lparr>im_memory := im_memory sim'\<rparr> \<and> mem_ring_dim (im_memory sim') = mem_ring_dim (im_memory sim) \<and>
    (\<forall>a \<in> live_in (instructions (im_trace sim)). sim_is_initialized a sim')"
proof -
  let ?needed = "set (get_read_before_write_addresses sim)"
  let ?load = "load_and (load_source_inputs env dir prog (populate_sink ?needed))
      (load_source_keys env dir prog (populate_sink ?needed))"
  obtain r s' stored where l: "?load (sim, {}) = (r, s', stored)" by (cases "?load (sim, {})")
  have "step_keeps (populated ?needed sim) ?load"
    by (rule load_and_keeps [OF load_source_inputs_keeps load_source_keys_keeps]; rule populate_sink_keeps)
  then have p: "populated ?needed sim (s', stored)"
    using l unfolding step_keeps_def by (metis populated_base snd_conv)
  have r: "r = Inr True" "card stored = card ?needed" "s' = sim'"
    using assms l by (auto simp: populate_inputs_def Let_def split: sum.splits)
  have "stored \<subseteq> ?needed" using p by (simp add: populated_def)
  then have "stored = ?needed" using r(2) by (rule card_subset_eq [OF finite])
  moreover have "live_in (instructions (im_trace sim)) \<subseteq> ?needed"
    using rbw_loop_spec [of "[]" "{}" "instructions (im_trace sim)"]
    by (auto simp: get_read_before_write_addresses_def)
  ultimately show ?thesis using p r(3) by (auto simp: populated_def)
qed

text \<open>The trace as the worker loads it.\<close>

definition loaded :: "u64 \<Rightarrow> Program \<Rightarrow> SimImpl" where
  "loaded ring_dim p = (set_ring_dimension ring_dim SimImpl_init)\<lparr>im_trace := p\<rparr>"

definition project_trace :: "'ar replay_env \<Rightarrow> string \<Rightarrow> ProjectIndex \<Rightarrow> cpp_error + ReadResult" where
  "project_trace env dir idx =
     (let path = path_append dir (px_trace_file idx)
      in read_fhetch_file (rv_host_le env) (rv_text env) path (pf_bytes (rv_fs env) path))"

text \<open>The stages of a worker's run that wrote its outputs.\<close>

lemma run_populated_success:
  assumes "run_populated rn outputs sim0 = (Inr (ok, Some doc), sim)"
  shows "\<exists>r. sim_run (rn_backend rn) (compute_liveness (rn_disable_frees rn) (rn_free_order rn)
      (set_live_out_addresses (concat (map snd outputs)) sim0)) = Inr (r, sim) \<and>
    sim_errors r = 0 \<and> doc = local_outputs_json outputs sim"
  using assms
  by (auto simp: run_populated_def finish_replay_def Let_def split: sum.splits prod.splits if_splits)

lemma load_trace_success:
  assumes "load_trace result s = Inr (True, s')"
  shows "\<exists>res. result = Inr res \<and> s' = s\<lparr>im_trace := rr_program res\<rparr>"
  using assms by (auto simp: load_trace_def res_bind_eq_Inr Let_def split: if_splits)

lemma local_replay_success:
  assumes "run_local_replay_from_project env rn dir = (Inr (ok, Some doc), sim)"
  shows "\<exists>idx res sim0 outputs r. read_project_index (rv_fs env) dir = Inr (Some idx) \<and>
    project_trace env dir idx = Inr res \<and>
    populate_inputs env dir (px_prog idx) (loaded (px_ring_dim idx) (rr_program res)) = (Inr True, sim0) \<and>
    read_output_probes (rv_fs env) dir (px_prog idx) = Inr (Some outputs) \<and>
    sim_run (rn_backend rn) (compute_liveness (rn_disable_frees rn) (rn_free_order rn)
      (set_live_out_addresses (concat (map snd outputs)) sim0)) = Inr (r, sim) \<and>
    sim_errors r = 0 \<and> doc = local_outputs_json outputs sim"
proof -
  obtain idx where idx: "read_project_index (rv_fs env) dir = Inr (Some idx)"
    using assms by (auto simp: run_local_replay_from_project_def split: if_splits sum.splits option.splits)
  let ?sim = "set_ring_dimension (px_ring_dim idx) SimImpl_init"
  obtain sim1 where lt: "load_trace (project_trace env dir idx) ?sim = Inr (True, sim1)"
    using assms idx
    by (auto simp: run_local_replay_from_project_def project_trace_def Let_def
        split: if_splits sum.splits prod.splits bool.splits)
  then obtain res where res: "project_trace env dir idx = Inr res"
    "sim1 = loaded (px_ring_dim idx) (rr_program res)"
    using load_trace_success [OF lt] by (auto simp: loaded_def)
  obtain sim0 where pop: "populate_inputs env dir (px_prog idx) sim1 = (Inr True, sim0)"
    using assms idx lt
    by (auto simp: run_local_replay_from_project_def project_trace_def Let_def
        split: if_splits sum.splits prod.splits bool.splits)
  obtain outputs where out: "read_output_probes (rv_fs env) dir (px_prog idx) = Inr (Some outputs)"
    "run_populated rn outputs sim0 = (Inr (ok, Some doc), sim)"
    using assms idx lt pop
    by (auto simp: run_local_replay_from_project_def project_trace_def Let_def
        split: if_splits sum.splits option.splits)
  show ?thesis using run_populated_success [OF out(2)] idx res pop out(1) by blast
qed

lemma local_replay_stages:
  assumes "run_local_replay_from_project env rn dir = (Inr (ok, Some doc), sim)"
    and "read_project_index (rv_fs env) dir = Inr (Some idx)" "project_trace env dir idx = Inr res"
  shows "\<exists>sim0 outputs r.
    populate_inputs env dir (px_prog idx) (loaded (px_ring_dim idx) (rr_program res)) = (Inr True, sim0) \<and>
    read_output_probes (rv_fs env) dir (px_prog idx) = Inr (Some outputs) \<and>
    sim_run (rn_backend rn) (compute_liveness (rn_disable_frees rn) (rn_free_order rn)
      (set_live_out_addresses (concat (map snd outputs)) sim0)) = Inr (r, sim) \<and>
    sim_errors r = 0 \<and> doc = local_outputs_json outputs sim"
proof -
  obtain idx' res' where st: "read_project_index (rv_fs env) dir = Inr (Some idx')"
    "project_trace env dir idx' = Inr res'"
    "\<exists>sim0 outputs r.
      populate_inputs env dir (px_prog idx') (loaded (px_ring_dim idx') (rr_program res')) = (Inr True, sim0) \<and>
      read_output_probes (rv_fs env) dir (px_prog idx') = Inr (Some outputs) \<and>
      sim_run (rn_backend rn) (compute_liveness (rn_disable_frees rn) (rn_free_order rn)
        (set_live_out_addresses (concat (map snd outputs)) sim0)) = Inr (r, sim) \<and>
      sim_errors r = 0 \<and> doc = local_outputs_json outputs sim"
    using local_replay_success [OF assms(1)] by blast
  have idx: "idx' = idx" using st(1) assms(2) by simp
  have "res' = res" using st(2) assms(3) unfolding idx by simp
  then show ?thesis using st(3) unfolding idx by simp
qed

lemma run_no_zero_fill:
  assumes "sim_run be (compute_liveness disabled keys s) = Inr (r, s')" "sim_errors r = 0"
    and "known_opcodes (instructions (im_trace s))" "\<And>a. a \<in> live_in (instructions (im_trace s)) \<Longrightarrow> sim_is_initialized a s"
  shows "im_warned_uninit s' = im_warned_uninit s"
proof -
  let ?c = "compute_liveness disabled keys s"
  define fa where "fa = im_free_after ?c"
  have c: "?c = s\<lparr>im_free_after := fa\<rparr>" by (simp add: fa_def compute_liveness_def Let_def)
  let ?s0 = "s\<lparr>im_free_after := fa, im_error_count := 0\<rparr>"
  have "im_ring_dim s \<noteq> 0" using assms(1,2) c by (auto simp: sim_run_def)
  then obtain n where l: "execute_loop be 0 (instructions (im_trace s)) 0 ?s0 = Inr (n, s')"
    "r = \<lparr>instructions_executed = n, sim_errors = im_error_count s'\<rparr>"
    using assms(1) c by (auto simp: sim_run_def execute_def res_bind_eq_Inr)
  have err: "im_error_count s' = im_error_count ?s0" using assms(2) l(2) by simp
  have "im_warned_uninit s' = im_warned_uninit ?s0"
    by (rule loop_no_zero_fill [OF compute_liveness_safe [of s disabled keys, folded fa_def] _ _ assms(3) _ l(1) err])
       (use assms(4) in \<open>simp_all add: sim_is_initialized_def\<close>)
  then show ?thesis by simp
qed

text \<open>
  C10: a worker that reports success has read no unsupplied value.  When the run of a project writes its
  outputs, every polynomial the trace reads was loaded from the project or computed by the trace: the
  simulator has substituted zeros nowhere.
\<close>

theorem local_replay_never_zero_fills:
  assumes "run_local_replay_from_project env rn dir = (Inr (ok, Some doc), sim)"
    and "read_project_index (rv_fs env) dir = Inr (Some idx)" "project_trace env dir idx = Inr res"
    and "\<forall>inst \<in> set (instructions (rr_program res)). opcode inst \<le> FH_HALT"
  shows "im_warned_uninit sim = {}"
proof -
  obtain sim0 outputs r where pop: "populate_inputs env dir (px_prog idx) (loaded (px_ring_dim idx) (rr_program res)) = (Inr True, sim0)"
    and "read_output_probes (rv_fs env) dir (px_prog idx) = Inr (Some outputs)"
    and run: "sim_run (rn_backend rn) (compute_liveness (rn_disable_frees rn) (rn_free_order rn)
      (set_live_out_addresses (concat (map snd outputs)) sim0)) = Inr (r, sim)" "sim_errors r = 0"
    using local_replay_stages [OF assms(1-3)] by (elim exE conjE) (rule that)
  note cover = populate_inputs_covers [OF pop]
  let ?s = "set_live_out_addresses (concat (map snd outputs)) sim0"
  have tr: "im_trace ?s = rr_program res" "im_warned_uninit ?s = {}"
    using cover [THEN conjunct1, THEN arg_cong, of im_trace]
      cover [THEN conjunct1, THEN arg_cong, of im_warned_uninit]
    by (simp_all add: loaded_def set_live_out_addresses_def set_ring_dimension_def SimImpl_init_def)
  have "im_warned_uninit sim = im_warned_uninit ?s"
  proof (rule run_no_zero_fill [OF run])
    show "known_opcodes (instructions (im_trace ?s))"
      using assms(4) tr by (simp add: known_opcodes_def list_all_iff)
    fix a assume "a \<in> live_in (instructions (im_trace ?s))"
    then show "sim_is_initialized a ?s"
      using cover tr by (simp add: loaded_def set_live_out_addresses_def sim_is_initialized_def)
  qed
  then show ?thesis using tr by simp
qed

text \<open>A run under the schedule against the run without frees, where it reports no error.\<close>

lemma run_refines:
  assumes "sim_run be (compute_liveness disabled keys s) = Inr (r, s')" "sim_errors r = 0" "ring_ok s"
  shows "\<exists>t. execute be (s\<lparr>im_free_after := []\<rparr>) = Inr (r, t) \<and>
    (\<forall>a \<in> im_live_out s. get_polynomial a s' = get_polynomial a t \<and>
       sim_is_initialized a s' = sim_is_initialized a t \<and>
       (sim_is_initialized a s' \<longrightarrow> get_modulus a s' = get_modulus a t))"
proof -
  have "im_ring_dim (compute_liveness disabled keys s) \<noteq> 0" using assms(1,2) by (auto simp: sim_run_def)
  then have ex: "execute be (compute_liveness disabled keys s) = Inr (r, s')" using assms(1) by (simp add: sim_run_def)
  show ?thesis using execute_agree [OF assms(3), of be disabled keys] ex by auto
qed

text \<open>
  C9: the outputs of a worker are those of the trace.  When a run of a project writes its outputs, the
  document lists the recorded outputs in order, and its values are those the plain execution of the trace
  over the loaded inputs leaves, without errors, at the addresses of the outputs: freeing dead values on
  the way is not visible.
\<close>

theorem local_replay_outputs_are_the_traces:
  assumes "run_local_replay_from_project env rn dir = (Inr (ok, Some doc), sim)"
    and "read_project_index (rv_fs env) dir = Inr (Some idx)" "project_trace env dir idx = Inr res"
    and "unat (px_ring_dim idx) = 2 ^ e" "e \<le> 31"
  shows "\<exists>sim0 outputs r t.
    populate_inputs env dir (px_prog idx) (loaded (px_ring_dim idx) (rr_program res)) = (Inr True, sim0) \<and>
    read_output_probes (rv_fs env) dir (px_prog idx) = Inr (Some outputs) \<and>
    execute (rn_backend rn) (sim0\<lparr>im_live_out := set (concat (map snd outputs)), im_free_after := []\<rparr>) = Inr (r, t) \<and>
    sim_errors r = 0 \<and> doc = local_outputs_json outputs sim \<and>
    (\<forall>(nm, addrs) \<in> set outputs. \<forall>a \<in> set addrs. get_polynomial a sim = get_polynomial a t \<and>
       (sim_is_initialized a t \<longrightarrow> get_modulus a sim = get_modulus a t))"
proof -
  obtain sim0 outputs r where st: "populate_inputs env dir (px_prog idx) (loaded (px_ring_dim idx) (rr_program res)) = (Inr True, sim0)"
    "read_output_probes (rv_fs env) dir (px_prog idx) = Inr (Some outputs)"
    "sim_run (rn_backend rn) (compute_liveness (rn_disable_frees rn) (rn_free_order rn)
      (set_live_out_addresses (concat (map snd outputs)) sim0)) = Inr (r, sim)" "sim_errors r = 0"
    "doc = local_outputs_json outputs sim"
    using local_replay_stages [OF assms(1-3)] by (elim exE conjE) (rule that)
  note cover = populate_inputs_covers [OF st(1)]
  let ?s = "set_live_out_addresses (concat (map snd outputs)) sim0"
  have "im_ring_dim sim0 = px_ring_dim idx" "mem_ring_dim (im_memory sim0) = unat (px_ring_dim idx)"
    using cover [THEN conjunct1, THEN arg_cong, of im_ring_dim] cover [THEN conjunct2, THEN conjunct1]
    by (simp_all add: loaded_def set_ring_dimension_def set_ring_dim_def SimImpl_init_def)
  then have ok: "ring_ok ?s" using assms(4,5) by (auto simp: ring_ok_def set_live_out_addresses_def)
  obtain t where t: "execute (rn_backend rn) (?s\<lparr>im_free_after := []\<rparr>) = Inr (r, t)"
    "\<forall>a \<in> im_live_out ?s. get_polynomial a sim = get_polynomial a t \<and>
       sim_is_initialized a sim = sim_is_initialized a t \<and>
       (sim_is_initialized a sim \<longrightarrow> get_modulus a sim = get_modulus a t)"
    using run_refines [OF st(3,4) ok] by (elim exE conjE) (rule that)
  have "a \<in> im_live_out ?s" if "(nm, addrs) \<in> set outputs" "a \<in> set addrs" for nm addrs a
    using that by (force simp: set_live_out_addresses_def)
  then show ?thesis
    using st t by (intro exI [of _ sim0] exI [of _ outputs] exI [of _ r] exI [of _ t])
      (auto simp: set_live_out_addresses_def)
qed

lemma replay_output_cong:
  assumes "\<And>a. a \<in> set (co_addr_ids out) \<Longrightarrow> f a = g a"
  shows "replay_output_json f out = replay_output_json g out"
proof -
  have "map_res (\<lambda>j. if j \<ge> length (co_moduli out) then Inl OutOfBoundsAccess
        else Inr (output_element_json (co_addr_ids out ! j) (co_moduli out ! j) (f (co_addr_ids out ! j)))) [0..<length (co_addr_ids out)] =
      map_res (\<lambda>j. if j \<ge> length (co_moduli out) then Inl OutOfBoundsAccess
        else Inr (output_element_json (co_addr_ids out ! j) (co_moduli out ! j) (g (co_addr_ids out ! j)))) [0..<length (co_addr_ids out)]"
    by (rule map_res_cong) (simp_all add: assms)
  then show ?thesis by (simp add: replay_output_json_def)
qed

text \<open>
  C17: the outputs of the in-process replay are those of the trace.  When the replay of a populated
  simulator succeeds and writes the outputs, the plain execution of the trace succeeds without errors
  too, and the document is the one its final values give.
\<close>

theorem replay_outputs_are_the_traces:
  assumes "run_replay host c sim = (Inr (True, Some doc), sim')" "ring_ok sim"
  shows "\<exists>r t. execute (rh_backend host)
      (sim\<lparr>im_live_out := set (live_out_addresses (cc_captured c)), im_free_after := []\<rparr>) = Inr (r, t) \<and>
    sim_errors r = 0 \<and>
    replay_outputs_json (\<lambda>a. get_polynomial a t) (captured_outputs (cc_captured c)) = Inr doc"
proof -
  let ?s = "set_live_out_addresses (live_out_addresses (cc_captured c)) sim"
  obtain r where r: "sim_run (rh_backend host) (compute_liveness (rh_disable_frees host) (rh_free_order host) ?s) = Inr (r, sim')"
    "sim_errors r = 0" "replay_outputs_json (\<lambda>a. get_polynomial a sim') (captured_outputs (cc_captured c)) = Inr doc"
    using assms(1)
    by (auto simp: run_replay_def write_replay_outputs_def Let_def res_bind_eq_Inr split: sum.splits if_splits)
  have ok: "ring_ok ?s" using assms(2) by (auto simp: ring_ok_def set_live_out_addresses_def)
  obtain t where t: "execute (rh_backend host) (?s\<lparr>im_free_after := []\<rparr>) = Inr (r, t)"
    "\<forall>a \<in> im_live_out ?s. get_polynomial a sim' = get_polynomial a t \<and>
       sim_is_initialized a sim' = sim_is_initialized a t \<and>
       (sim_is_initialized a sim' \<longrightarrow> get_modulus a sim' = get_modulus a t)"
    using run_refines [OF r(1,2) ok] by (elim exE conjE) (rule that)
  have "replay_output_json (\<lambda>a. get_polynomial a sim') out = replay_output_json (\<lambda>a. get_polynomial a t) out"
    if o: "out \<in> set (captured_outputs (cc_captured c))" for out
  proof -
    have "get_polynomial a sim' = get_polynomial a t" if "a \<in> set (co_addr_ids out)" for a
      using t(2) that o by (force simp: set_live_out_addresses_def live_out_addresses_def)
    then show ?thesis by (rule replay_output_cong)
  qed
  then have "replay_outputs_json (\<lambda>a. get_polynomial a sim') (captured_outputs (cc_captured c)) =
      replay_outputs_json (\<lambda>a. get_polynomial a t) (captured_outputs (cc_captured c))"
    by (simp add: replay_outputs_json_def cong: map_res_cong)
  then show ?thesis using r t(1) by (auto simp: set_live_out_addresses_def)
qed

end
