(* ===== verification/AutoFacade.thy ===== *)
theory AutoFacade
  imports LocalReplay Probes
begin

text \<open>
  The facade between OpenFHE and the session (\<open>src/auto_facade.cpp\<close>, \<open>src/cereal_io.h\<close>): the capture of a
  crypto context, the tagging of inputs, keys and bootstrap precomputations with the files they leave in
  the project, the refresh of stale inputs, and the reconstruction of the probed ciphertexts from the
  outputs of a replay.

  OpenFHE's objects are their data: a polynomial is an identity with a tower, a \<open>DCRTPoly\<close> a list of them
  with its format, a ciphertext a list of those.  Writing an archive, the change of format, the
  serialization of ciphertexts and the file system are parameters.  Console output is left out, and so is
  the flag that stops \<open>probe\<close> from being entered again by the hooks of its own serialization.
\<close>

section \<open>Data\<close>

record native_poly =
  np_id :: u64
  np_tower :: tower

record dcrt_poly =
  dp_evaluation :: bool
  dp_polys :: "native_poly list"

type_synonym ciphertext = "dcrt_poly list"

record eval_key =
  ek_a :: "dcrt_poly list"
  ek_b :: "dcrt_poly list"

text \<open>The nine parameters in the order they are written.\<close>

record boot_params =
  bq_lvlb :: u32
  bq_layersCollapse :: u32
  bq_remCollapse :: u32
  bq_numRotations :: u32
  bq_b :: u32
  bq_g :: u32
  bq_numRotationsRem :: u32
  bq_bRem :: u32
  bq_gRem :: u32

text \<open>A plaintext may be null.\<close>

record boot_precom =
  bm_slots :: u32
  bm_paramsEnc :: boot_params
  bm_paramsDec :: boot_params
  bm_U0hatTPreFFT :: "dcrt_poly option list list"
  bm_U0PreFFT :: "dcrt_poly option list list"
  bm_U0Pre :: "dcrt_poly option list"
  bm_U0hatTPre :: "dcrt_poly option list"

datatype scheme_id = CKKSRNS_SCHEME | BFVRNS_SCHEME | BGVRNS_SCHEME | OTHER_SCHEME

record crypto_context =
  cx_ring_dimension :: u64
  cx_scheme_id :: scheme_id
  cx_moduli :: "u64 list"

text \<open>
  Serialized polynomials are their formats and towers: the identities are not serialized.  The disk
  holds the address files, the archives and the serialized ciphertexts.
\<close>

type_synonym stored_dcrt = "bool \<times> tower list"
type_synonym stored_ciphertext = "stored_dcrt list"

record 'ao disk =
  dk_ids :: "string \<rightharpoonup> bytes"
  dk_bins :: "string \<rightharpoonup> 'ao"
  dk_cts :: "string \<rightharpoonup> stored_ciphertext"

record 'ao out_archive =
  oa_empty :: 'ao
  oa_u8 :: "u8 \<Rightarrow> 'ao \<Rightarrow> 'ao"
  oa_u32 :: "u32 \<Rightarrow> 'ao \<Rightarrow> 'ao"
  oa_u64 :: "u64 \<Rightarrow> 'ao \<Rightarrow> 'ao"
  oa_u64s :: "u64 list \<Rightarrow> 'ao \<Rightarrow> 'ao"
  oa_dcrt :: "bool \<Rightarrow> tower list \<Rightarrow> 'ao \<Rightarrow> 'ao"

text \<open>
  \<open>fe_opens\<close>: a file opens for writing; \<open>fe_good\<close>: its stream is good after the writes;
  \<open>fe_ct_saves\<close>: a ciphertext is serialized to the path; \<open>fe_set_evaluation\<close>: \<open>SetFormat\<close> of a
  \<open>DCRTPoly\<close>, which keeps the identities of its polynomials or not;
  \<open>fe_tower_evaluation\<close>: that of a single tower; \<open>fe_set_values\<close>: \<open>SetValues\<close> of new values under a
  modulus, which may throw.
\<close>

record 'ao facade_env =
  fe_out :: "'ao out_archive"
  fe_opens :: "string \<Rightarrow> bool"
  fe_good :: "string \<Rightarrow> bool"
  fe_ct_saves :: "string \<Rightarrow> bool"
  fe_cwd :: string
  fe_host_le :: bool
  fe_ndebug :: bool
  fe_word_limit :: nat
  fe_set_evaluation :: "dcrt_poly \<Rightarrow> dcrt_poly"
  fe_tower_evaluation :: "tower \<Rightarrow> tower"
  fe_set_values :: "tower \<Rightarrow> u64 \<Rightarrow> u64 list \<Rightarrow> tower option"
  fe_mtime :: "string \<Rightarrow> int option"
  fe_source :: "string \<Rightarrow> stored_ciphertext option"

record ('h, 'ao) Facade =
  fc_client :: "'h Client"
  fc_disk :: "'ao disk"
  fc_stored :: "ciphertext list"
  fc_counter :: u64

abbreviation fc_impl :: "('h, 'ao) Facade \<Rightarrow> 'h CompilerImpl" where
  "fc_impl st \<equiv> w_impl (cl_world (fc_client st))"

definition client_impl :: "('h CompilerImpl \<Rightarrow> 'h CompilerImpl) \<Rightarrow> 'h Client \<Rightarrow> 'h Client" where
  "client_impl f c = c\<lparr>cl_world := on_impl f (cl_world c)\<rparr>"

text \<open>An operation on the captured records, which may fail.\<close>

definition on_captured :: "(Captured \<Rightarrow> cpp_error + Captured) \<Rightarrow> 'h Client \<Rightarrow> cpp_error + 'h Client" where
  "on_captured f c =
     res_bind (f (cc_captured (w_impl (cl_world c)))) (\<lambda>cap. Inr (client_impl (\<lambda>i. i\<lparr>cc_captured := cap\<rparr>) c))"

section \<open>Address files\<close>

definition addr_ids_bytes :: "bool \<Rightarrow> u64 list \<Rightarrow> bytes" where
  "addr_ids_bytes host_le ids =
     mem_bytes host_le (of_nat (length ids) :: u64) @ concat (map (mem_bytes host_le) ids)"

definition write_addr_ids :: "'ao facade_env \<Rightarrow> string \<Rightarrow> u64 list \<Rightarrow> 'ao disk \<Rightarrow> bool \<times> 'ao disk" where
  "write_addr_ids env path ids d =
     (if \<not> fe_opens env path then (False, d)
      else (fe_good env path, d\<lparr>dk_ids := (dk_ids d)(path \<mapsto> addr_ids_bytes (fe_host_le env) ids)\<rparr>))"

text \<open>\<open>read_addr_ids\<close> is \<open>read_ids\<close> of the worker, statement by statement.\<close>

definition read_addr_ids :: "'ao facade_env \<Rightarrow> string \<Rightarrow> 'ao disk \<Rightarrow> cpp_error + u64 list" where
  "read_addr_ids env path d = read_ids (fe_host_le env) (fe_word_limit env) (dk_ids d path)"

section \<open>Capturing polynomials\<close>

text \<open>
  The loop over the towers that every capture has: pin the identity, give it an address, and store its
  values under the name; it collects the addresses with the towers.
\<close>

type_synonym capture = "(u64 \<times> tower) list"

definition capture_poly ::
  "'ao facade_env \<Rightarrow> string \<Rightarrow> native_poly \<Rightarrow> capture \<times> 'h Client \<Rightarrow> cpp_error + capture \<times> 'h Client" where
  "capture_poly env nm poly = (\<lambda>(cap, c).
     let (addr, c1) = ensure_fhetch_address (np_id poly) (pin_openfhe_id (np_id poly) c) in
     if addr = - 1 then Inr (cap, c1)
     else
       res_bind (on_captured (store_input_element (fe_ndebug env) (cc_input_streaming (w_impl (cl_world c1))) nm SRP
                   False addr (twr_modulus (np_tower poly)) (twr_values (np_tower poly))) c1) (\<lambda>c2.
         Inr (cap @ [(addr, np_tower poly)], c2)))"

fun capture_polys ::
  "'ao facade_env \<Rightarrow> string \<Rightarrow> native_poly list \<Rightarrow> capture \<times> 'h Client \<Rightarrow> cpp_error + capture \<times> 'h Client" where
  "capture_polys env nm [] cc = Inr cc"
| "capture_polys env nm (p # ps) cc = res_bind (capture_poly env nm p cc) (capture_polys env nm ps)"

definition ciphertext_polys :: "ciphertext \<Rightarrow> native_poly list" where
  "ciphertext_polys ct = concat (map dp_polys ct)"

definition dcrt_towers :: "dcrt_poly \<Rightarrow> tower list" where
  "dcrt_towers d = map np_tower (dp_polys d)"

definition ciphertext_poly_count :: "stored_ciphertext \<Rightarrow> nat" where
  "ciphertext_poly_count ct = sum_list (map (\<lambda>(ev, ts). length ts) ct)"

section \<open>Input files\<close>

definition program_directory :: "'ao facade_env \<Rightarrow> 'h Client \<Rightarrow> string" where
  "program_directory env c = get_program_directory (fe_cwd env) (w_impl (cl_world c))"

definition project_file :: "'ao facade_env \<Rightarrow> 'h Client \<Rightarrow> string \<Rightarrow> string" where
  "project_file env c ext = path_append (program_directory env c) (full_program_name (w_impl (cl_world c)) @ ext)"

text \<open>The address file, then the archive of a body.\<close>

definition write_input_files ::
  "'ao facade_env \<Rightarrow> 'h Client \<Rightarrow> string \<Rightarrow> ('ao \<Rightarrow> 'ao) \<Rightarrow> u64 list \<Rightarrow> 'ao disk \<Rightarrow> bool \<times> 'ao disk" where
  "write_input_files env c nm body ids d =
     (let (ok, d1) = write_addr_ids env (project_file env c (''.input_'' @ nm @ ''.ids'')) ids d;
          bin = project_file env c (''.input_'' @ nm @ ''.bin'') in
      if \<not> ok \<or> \<not> fe_opens env bin then (False, d1)
      else (fe_good env bin, d1\<lparr>dk_bins := (dk_bins d1)(bin \<mapsto> body (oa_empty (fe_out env)))\<rparr>))"

text \<open>Writes are applied from left to right.\<close>

definition write_dcrts :: "'ao out_archive \<Rightarrow> stored_ciphertext \<Rightarrow> 'ao \<Rightarrow> 'ao" where
  "write_dcrts oa ds = fold (\<lambda>(ev, ts). oa_dcrt oa ev ts) ds"

definition dcrt_data :: "dcrt_poly \<Rightarrow> stored_dcrt" where
  "dcrt_data d = (dp_evaluation d, dcrt_towers d)"

definition write_group :: "'ao out_archive \<Rightarrow> stored_ciphertext \<Rightarrow> 'ao \<Rightarrow> 'ao" where
  "write_group oa ds ar = write_dcrts oa ds (oa_u32 oa (of_nat (length ds)) ar)"

definition ciphertext_body :: "'ao out_archive \<Rightarrow> stored_ciphertext \<Rightarrow> 'ao \<Rightarrow> 'ao" where
  "ciphertext_body oa ds ar = write_group oa ds (oa_u8 oa 0 (oa_u32 oa 1 ar))"

definition plaintext_body :: "'ao out_archive \<Rightarrow> stored_dcrt \<Rightarrow> 'ao \<Rightarrow> 'ao" where
  "plaintext_body oa d ar = write_group oa [d] (oa_u8 oa 1 (oa_u32 oa 1 ar))"

definition proxy_body :: "'ao out_archive \<Rightarrow> bool \<Rightarrow> tower list \<Rightarrow> 'ao \<Rightarrow> 'ao" where
  "proxy_body oa ev ts ar =
     fold (\<lambda>t ar. oa_u64s oa (twr_values t) (oa_u64 oa (twr_modulus t) ar)) ts
       (oa_u8 oa (if ev then 1 else 0) (oa_u32 oa (of_nat (length ts)) (oa_u8 oa 2 (oa_u32 oa 1 ar))))"

definition write_ciphertext_input_files ::
  "'ao facade_env \<Rightarrow> 'h Client \<Rightarrow> string \<Rightarrow> stored_ciphertext \<Rightarrow> u64 list \<Rightarrow> 'ao disk \<Rightarrow> bool \<times> 'ao disk" where
  "write_ciphertext_input_files env c nm ds = write_input_files env c nm (ciphertext_body (fe_out env) ds)"

definition write_plaintext_input_files ::
  "'ao facade_env \<Rightarrow> 'h Client \<Rightarrow> string \<Rightarrow> stored_dcrt \<Rightarrow> u64 list \<Rightarrow> 'ao disk \<Rightarrow> bool \<times> 'ao disk" where
  "write_plaintext_input_files env c nm d = write_input_files env c nm (plaintext_body (fe_out env) d)"

section \<open>Tagging inputs\<close>

definition tag_input_ciphertext ::
  "'ao facade_env \<Rightarrow> string \<Rightarrow> ciphertext \<Rightarrow> string option \<Rightarrow> ('h, 'ao) Facade \<Rightarrow> cpp_error + ('h, 'ao) Facade" where
  "tag_input_ciphertext env nm ct source st =
     res_bind (capture_polys env nm (ciphertext_polys ct) ([], fc_client st)) (\<lambda>(cap, c).
       let (ok, d) = write_ciphertext_input_files env c nm (map dcrt_data ct) (map fst cap) (fc_disk st) in
       res_bind (case source of None \<Rightarrow> Inr c | Some p \<Rightarrow> on_captured (set_input_source nm p (fe_mtime env p)) c) (\<lambda>c.
         Inr (st\<lparr>fc_client := c, fc_disk := d,
                 fc_stored := (if cc_input_streaming (w_impl (cl_world c)) then fc_stored st else fc_stored st @ [ct])\<rparr>)))"

text \<open>A null plaintext is left alone.\<close>

definition tag_input_plaintext ::
  "'ao facade_env \<Rightarrow> string \<Rightarrow> dcrt_poly option \<Rightarrow> ('h, 'ao) Facade \<Rightarrow> cpp_error + ('h, 'ao) Facade" where
  "tag_input_plaintext env nm pt st =
     (case pt of
        None \<Rightarrow> Inr st
      | Some el \<Rightarrow>
          res_bind (capture_polys env nm (dp_polys el) ([], fc_client st)) (\<lambda>(cap, c).
            let (ok, d) = write_plaintext_input_files env c nm (dcrt_data el) (map fst cap) (fc_disk st)
            in Inr (st\<lparr>fc_client := c, fc_disk := d\<rparr>)))"

text \<open>The archive is written even when the address file does not open; the towers are those captured.\<close>

definition save_dcrt_poly_as_input ::
  "'ao facade_env \<Rightarrow> dcrt_poly option \<Rightarrow> ('h, 'ao) Facade \<Rightarrow> cpp_error + ('h, 'ao) Facade" where
  "save_dcrt_poly_as_input env dcrt st =
     (case dcrt of
        None \<Rightarrow> Inr st
      | Some p \<Rightarrow>
          let nm = ''dcrtpoly_'' @ to_string_nat (unat (fc_counter st)) in
          res_bind (capture_polys env nm (dp_polys p) ([], fc_client st)) (\<lambda>(cap, c).
            let (ok, d) = write_addr_ids env (project_file env c (''.input_'' @ nm @ ''.ids'')) (map fst cap) (fc_disk st);
                bin = project_file env c (''.input_'' @ nm @ ''.bin'');
                d = (if fe_opens env bin
                     then d\<lparr>dk_bins := (dk_bins d)(bin \<mapsto>
                            proxy_body (fe_out env) (dp_evaluation p) (map snd cap) (oa_empty (fe_out env)))\<rparr>
                     else d)
            in Inr (st\<lparr>fc_client := c, fc_disk := d, fc_counter := fc_counter st + 1\<rparr>)))"

section \<open>Keys\<close>

definition normalize_dcrt :: "'ao facade_env \<Rightarrow> dcrt_poly \<Rightarrow> dcrt_poly" where
  "normalize_dcrt env d = (if dp_evaluation d then d else fe_set_evaluation env d)"

definition capture_dcrt_polys ::
  "'ao facade_env \<Rightarrow> string \<Rightarrow> dcrt_poly list \<Rightarrow> capture \<times> 'h Client \<Rightarrow> cpp_error + capture \<times> 'h Client" where
  "capture_dcrt_polys env nm polys = capture_polys env nm (ciphertext_polys (map (normalize_dcrt env) polys))"

fun capture_keys ::
  "'ao facade_env \<Rightarrow> string \<Rightarrow> eval_key list \<Rightarrow> capture \<times> 'h Client \<Rightarrow> cpp_error + capture \<times> 'h Client" where
  "capture_keys env nm [] cc = Inr cc"
| "capture_keys env nm (k # ks) cc =
     res_bind (capture_dcrt_polys env nm (ek_a k) cc) (\<lambda>cc.
     res_bind (capture_dcrt_polys env nm (ek_b k) cc) (capture_keys env nm ks))"

definition write_eval_key :: "'ao out_archive \<Rightarrow> eval_key \<Rightarrow> 'ao \<Rightarrow> 'ao" where
  "write_eval_key oa k ar = write_group oa (map dcrt_data (ek_b k)) (write_group oa (map dcrt_data (ek_a k)) ar)"

definition eval_keys_body :: "'ao out_archive \<Rightarrow> eval_key list \<Rightarrow> 'ao \<Rightarrow> 'ao" where
  "eval_keys_body oa keys ar = fold (write_eval_key oa) keys (oa_u32 oa (of_nat (length keys)) ar)"

definition serialize_eval_keys ::
  "'ao facade_env \<Rightarrow> eval_key list \<Rightarrow> string \<Rightarrow> string \<Rightarrow> u64 list \<Rightarrow> 'ao disk \<Rightarrow> 'ao disk" where
  "serialize_eval_keys env keys bin_path ids_path ids d =
     (let (ok, d1) = write_addr_ids env ids_path ids d in
      if \<not> fe_opens env bin_path then d1
      else d1\<lparr>dk_bins := (dk_bins d1)(bin_path \<mapsto> eval_keys_body (fe_out env) keys (oa_empty (fe_out env)))\<rparr>)"

text \<open>The capture has changed the format of the keys in place.\<close>

definition normalize_key :: "'ao facade_env \<Rightarrow> eval_key \<Rightarrow> eval_key" where
  "normalize_key env k = \<lparr>ek_a = map (normalize_dcrt env) (ek_a k), ek_b = map (normalize_dcrt env) (ek_b k)\<rparr>"

definition tag_key_group ::
  "'ao facade_env \<Rightarrow> string \<Rightarrow> string \<Rightarrow> string \<Rightarrow> eval_key list \<Rightarrow> ('h, 'ao) Facade \<Rightarrow> cpp_error + ('h, 'ao) Facade" where
  "tag_key_group env nm base key_type keys st =
     res_bind (capture_keys env nm keys ([], fc_client st)) (\<lambda>(cap, c).
       if keys = [] then Inr (st\<lparr>fc_client := c\<rparr>)
       else
         let d = serialize_eval_keys env (map (normalize_key env) keys) (project_file env c (''.'' @ base @ ''.bin''))
                   (project_file env c (''.'' @ base @ ''.ids'')) (map fst cap) (fc_disk st);
             c = (case cap of [] \<Rightarrow> c | (a, t) # _ \<Rightarrow> client_impl (set_key_start_addr_id key_type a) c)
         in Inr (st\<lparr>fc_client := c, fc_disk := d\<rparr>))"

definition tag_keys ::
  "'ao facade_env \<Rightarrow> eval_key list \<Rightarrow> eval_key list \<Rightarrow> ('h, 'ao) Facade \<Rightarrow> cpp_error + ('h, 'ao) Facade" where
  "tag_keys env mult_keys auto_keys st =
     res_bind (tag_key_group env ''evalmult_key'' ''mk'' ''evalmult'' mult_keys st)
       (tag_key_group env ''automorphism_key'' ''rk'' ''evalautomorphism'' auto_keys)"

section \<open>Bootstrap precomputations\<close>

definition boot_plaintexts :: "boot_precom \<Rightarrow> dcrt_poly option list" where
  "boot_plaintexts e =
     concat (bm_U0hatTPreFFT e) @ concat (bm_U0PreFFT e) @ bm_U0Pre e @ bm_U0hatTPre e"

definition plaintext_polys :: "dcrt_poly option list \<Rightarrow> native_poly list" where
  "plaintext_polys pts = concat (map (\<lambda>pt. case pt of None \<Rightarrow> [] | Some el \<Rightarrow> dp_polys el) pts)"

text \<open>Writing dereferences every plaintext.\<close>

definition write_1d :: "'ao out_archive \<Rightarrow> dcrt_poly option list \<Rightarrow> 'ao \<Rightarrow> cpp_error + 'ao" where
  "write_1d oa pts ar =
     (if None \<in> set pts then Inl NullDereference else Inr (write_group oa (map (\<lambda>pt. dcrt_data (the pt)) pts) ar))"

fun write_1ds :: "'ao out_archive \<Rightarrow> dcrt_poly option list list \<Rightarrow> 'ao \<Rightarrow> cpp_error + 'ao" where
  "write_1ds oa [] ar = Inr ar"
| "write_1ds oa (v # vs) ar = res_bind (write_1d oa v ar) (write_1ds oa vs)"

definition write_2d :: "'ao out_archive \<Rightarrow> dcrt_poly option list list \<Rightarrow> 'ao \<Rightarrow> cpp_error + 'ao" where
  "write_2d oa outer ar = write_1ds oa outer (oa_u32 oa (of_nat (length outer)) ar)"

definition params_list :: "boot_params \<Rightarrow> u32 list" where
  "params_list p =
     [bq_lvlb p, bq_layersCollapse p, bq_remCollapse p, bq_numRotations p, bq_b p, bq_g p,
      bq_numRotationsRem p, bq_bRem p, bq_gRem p]"

definition write_boot_entry :: "'ao out_archive \<Rightarrow> boot_precom \<Rightarrow> 'ao \<Rightarrow> cpp_error + 'ao" where
  "write_boot_entry oa e ar =
     (let ar = fold (oa_u32 oa) ([bm_slots e, bq_g (bm_paramsEnc e)] @ params_list (bm_paramsEnc e) @
                                 params_list (bm_paramsDec e)) ar
      in res_bind (write_2d oa (bm_U0hatTPreFFT e) ar) (\<lambda>ar.
         res_bind (write_2d oa (bm_U0PreFFT e) ar) (\<lambda>ar.
         res_bind (write_1d oa (bm_U0Pre e) ar) (write_1d oa (bm_U0hatTPre e)))))"

text \<open>The count is that of all entries; null ones are skipped.\<close>

fun write_boot_entries :: "'ao out_archive \<Rightarrow> boot_precom option list \<Rightarrow> 'ao \<Rightarrow> cpp_error + 'ao" where
  "write_boot_entries oa [] ar = Inr ar"
| "write_boot_entries oa (None # es) ar = write_boot_entries oa es ar"
| "write_boot_entries oa (Some e # es) ar = res_bind (write_boot_entry oa e ar) (write_boot_entries oa es)"

definition boot_body :: "'ao out_archive \<Rightarrow> boot_precom option list \<Rightarrow> 'ao \<Rightarrow> cpp_error + 'ao" where
  "boot_body oa es ar = write_boot_entries oa es (oa_u32 oa (of_nat (length es)) ar)"

definition boot_polys :: "boot_precom option list \<Rightarrow> native_poly list" where
  "boot_polys es = concat (map (\<lambda>e. case e of None \<Rightarrow> [] | Some p \<Rightarrow> plaintext_polys (boot_plaintexts p)) es)"

definition tag_bootstrap_precompute ::
  "'ao facade_env \<Rightarrow> boot_precom option list \<Rightarrow> ('h, 'ao) Facade \<Rightarrow> cpp_error + ('h, 'ao) Facade" where
  "tag_bootstrap_precompute env es st =
     (if es = [] then Inr st
      else
        res_bind (capture_polys env ''bootstrap_precompute'' (boot_polys es) ([], fc_client st)) (\<lambda>(cap, c).
          let (ok, d) = write_addr_ids env (project_file env c ''.bp.ids'') (map fst cap) (fc_disk st);
              bin = project_file env c ''.bp.bin'' in
          if \<not> fe_opens env bin then Inr (st\<lparr>fc_client := c, fc_disk := d\<rparr>)
          else
            res_bind (boot_body (fe_out env) es (oa_empty (fe_out env))) (\<lambda>ar.
              Inr (st\<lparr>fc_client := c, fc_disk := d\<lparr>dk_bins := (dk_bins d)(bin \<mapsto> ar)\<rparr>\<rparr>))))"

section \<open>The crypto context\<close>

definition scheme_string :: "scheme_id \<Rightarrow> string" where
  "scheme_string sid =
     (case sid of CKKSRNS_SCHEME \<Rightarrow> ''CKKS'' | BFVRNS_SCHEME \<Rightarrow> ''BFV'' | BGVRNS_SCHEME \<Rightarrow> ''BGV''
      | OTHER_SCHEME \<Rightarrow> ''UNKNOWN'')"

text \<open>\<open>hook\<close> is the closure over the context that tags its precomputations.\<close>

definition capture_crypto_context ::
  "'h \<Rightarrow> crypto_context \<Rightarrow> ('h, 'ao) Facade \<Rightarrow> cpp_error + ('h, 'ao) Facade" where
  "capture_crypto_context hook cx st =
     res_bind (compiler_set_ring_dimension (cx_ring_dimension cx) (fc_impl st)) (\<lambda>i.
       let depth = (if cx_moduli cx \<noteq> [] then of_nat (length (cx_moduli cx) - 1) else 0);
           (r, i) = set_crypto_context_info (scheme_string (cx_scheme_id cx)) depth 0 ''HEStd_NotSet'' (cx_moduli cx) i
       in res_bind r (\<lambda>_.
            let i = (if cc_auto_capture_bootstrap_precompute_enabled i
                     then i\<lparr>cc_auto_capture_at_stop := Some hook\<rparr> else i)
            in Inr (st\<lparr>fc_client := client_impl (\<lambda>_. i) (fc_client st)\<rparr>)))"

section \<open>Probes and templates\<close>

definition write_ciphertext_template_file ::
  "'ao facade_env \<Rightarrow> 'h Client \<Rightarrow> string \<Rightarrow> stored_ciphertext \<Rightarrow> 'ao disk \<Rightarrow> bool \<times> 'ao disk" where
  "write_ciphertext_template_file env c nm ct d =
     (let path = path_append (path_append (program_directory env c) ''ciphertext_templates'') (nm @ ''.template'') in
      if \<not> fe_ct_saves env path then (False, d) else (True, d\<lparr>dk_cts := (dk_cts d)(path \<mapsto> ct)\<rparr>))"

text \<open>The loop over the polynomials that already have an address.\<close>

fun store_probes ::
  "'ao facade_env \<Rightarrow> string \<Rightarrow> native_poly list \<Rightarrow> 'h Client \<Rightarrow> cpp_error + 'h Client" where
  "store_probes env nm [] c = Inr c"
| "store_probes env nm (p # ps) c =
     (let addr = lookup_fhetch_address (np_id p) (cl_probes c) in
      if addr = - 1 then store_probes env nm ps c
      else
        res_bind (on_captured (store_output_probe (fe_ndebug env) nm SRP False addr (twr_modulus (np_tower p))) c)
          (store_probes env nm ps))"

definition probe_ciphertext ::
  "'ao facade_env \<Rightarrow> string \<Rightarrow> ciphertext \<Rightarrow> ('h, 'ao) Facade \<Rightarrow> cpp_error + ('h, 'ao) Facade" where
  "probe_ciphertext env nm ct st =
     res_bind (store_probes env nm (ciphertext_polys ct) (fc_client st)) (\<lambda>c.
       let (ok, d) = write_ciphertext_template_file env c nm (map dcrt_data ct) (fc_disk st)
       in Inr (st\<lparr>fc_client := c, fc_disk := d\<rparr>))"

section \<open>Refreshing inputs\<close>

definition json_i64 :: "json \<Rightarrow> cpp_error + int" where
  "json_i64 j = (case j of JUnsigned n \<Rightarrow> Inr (sint n) | JInteger i \<Rightarrow> Inr (signed_take_bit 63 i) | _ \<Rightarrow> Inl JsonError)"

text \<open>One entry of the inputs index, with the count of the refreshed inputs.\<close>

definition refresh_entry ::
  "'ao facade_env \<Rightarrow> 'h Client \<Rightarrow> json \<Rightarrow> nat \<times> 'ao disk \<Rightarrow> cpp_error + nat \<times> 'ao disk" where
  "refresh_entry env c entry = (\<lambda>(n, d).
     if \<not> json_contains entry ''source_path'' then Inr (n, d)
     else
       res_bind (json_value json_string entry ''name'' []) (\<lambda>nm.
       res_bind (json_value json_string entry ''source_path'' []) (\<lambda>src.
       res_bind (json_value json_i64 entry ''source_mtime'' 0) (\<lambda>rec_mtime.
         let cur_mtime = (case fe_mtime env src of None \<Rightarrow> 0 | Some t \<Rightarrow> t) in
         if nm = [] \<or> src = [] then Inr (n, d)
         else if cur_mtime \<noteq> 0 \<and> cur_mtime = rec_mtime then Inr (n, d)
         else
           res_bind (read_addr_ids env (project_file env c (''.input_'' @ nm @ ''.ids'')) d) (\<lambda>ids.
             if ids = [] then Inr (n, d)
             else
               case fe_source env src of
                 None \<Rightarrow> Inr (n, d)
               | Some ct \<Rightarrow>
                   if ciphertext_poly_count ct \<noteq> length ids then Inr (n, d)
                   else
                     let (ok, d') = write_ciphertext_input_files env c nm ct ids d
                     in Inr (if ok then n + 1 else n, d'))))))"

fun refresh_entries ::
  "'ao facade_env \<Rightarrow> 'h Client \<Rightarrow> json list \<Rightarrow> nat \<times> 'ao disk \<Rightarrow> cpp_error + nat \<times> 'ao disk" where
  "refresh_entries env c [] nd = Inr nd"
| "refresh_entries env c (e # es) nd = res_bind (refresh_entry env c e nd) (refresh_entries env c es)"

text \<open>\<open>idx\<close> is the inputs index, when it opens and parses.\<close>

definition refresh_stale_inputs ::
  "'ao facade_env \<Rightarrow> json option \<Rightarrow> ('h, 'ao) Facade \<Rightarrow> cpp_error + nat \<times> ('h, 'ao) Facade" where
  "refresh_stale_inputs env idx st =
     (case idx of
        None \<Rightarrow> Inr (0, st)
      | Some j \<Rightarrow>
          if \<not> json_contains j ''inputs'' then Inr (0, st)
          else
            res_bind (json_at j ''inputs'') (\<lambda>arr.
            res_bind (refresh_entries env (fc_client st) (json_items arr) (0, fc_disk st)) (\<lambda>(n, d).
              Inr (n, st\<lparr>fc_disk := d\<rparr>))))"

text \<open>Re-extraction from the live objects: polynomials that have an address.\<close>

fun extract_all_polys ::
  "'ao facade_env \<Rightarrow> string \<Rightarrow> native_poly list \<Rightarrow> 'h Client \<Rightarrow> cpp_error + 'h Client" where
  "extract_all_polys env nm [] c = Inr c"
| "extract_all_polys env nm (p # ps) c =
     (let addr = lookup_fhetch_address (np_id p) (cl_probes c) in
      if addr = - 1 then extract_all_polys env nm ps c
      else
        res_bind (on_captured (store_input_element (fe_ndebug env) (cc_input_streaming (w_impl (cl_world c))) nm SRP
                    False addr (twr_modulus (np_tower p)) (twr_values (np_tower p))) c)
          (extract_all_polys env nm ps))"

definition key_polys :: "eval_key list \<Rightarrow> native_poly list" where
  "key_polys ks = concat (map (\<lambda>k. ciphertext_polys (ek_a k) @ ciphertext_polys (ek_b k)) ks)"

fun extract_stored ::
  "'ao facade_env \<Rightarrow> nat \<Rightarrow> ciphertext list \<Rightarrow> 'h Client \<Rightarrow> cpp_error + 'h Client" where
  "extract_stored env i [] c = Inr c"
| "extract_stored env i (ct # cts) c =
     res_bind (extract_all_polys env (''ct_'' @ to_string_nat i) (ciphertext_polys ct) c) (extract_stored env (i + 1) cts)"

definition refresh_all_inputs ::
  "'ao facade_env \<Rightarrow> eval_key list \<Rightarrow> eval_key list \<Rightarrow> ('h, 'ao) Facade \<Rightarrow> cpp_error + ('h, 'ao) Facade" where
  "refresh_all_inputs env mult_keys auto_keys st =
     res_bind (extract_stored env 0 (fc_stored st)
                 (client_impl (\<lambda>i. i\<lparr>cc_captured := clear_captured_inputs (cc_captured i)\<rparr>) (fc_client st))) (\<lambda>c.
     res_bind (extract_all_polys env ''evalmult_key'' (key_polys mult_keys) c) (\<lambda>c.
     res_bind (extract_all_polys env ''automorphism_key'' (key_polys auto_keys) c) (\<lambda>c.
       Inr (st\<lparr>fc_client := c\<rparr>))))"

definition release_openfhe_data_for_replay :: "('h, 'ao) Facade \<Rightarrow> ('h, 'ao) Facade" where
  "release_openfhe_data_for_replay st =
     st\<lparr>fc_stored := [],
        fc_client := client_impl (\<lambda>i. i\<lparr>cc_captured := clear_captured_inputs (cc_captured i)\<rparr>) (fc_client st)\<rparr>"

section \<open>Reading a plaintext back\<close>

fun store_towers ::
  "'ao facade_env \<Rightarrow> string \<Rightarrow> (tower \<times> u64) list \<Rightarrow> 'h Client \<Rightarrow> cpp_error + 'h Client" where
  "store_towers env nm [] c = Inr c"
| "store_towers env nm ((t, addr) # ts) c =
     (let t = (if twr_evaluation t then t else fe_tower_evaluation env t) in
      res_bind (on_captured (store_input_element (fe_ndebug env) (cc_input_streaming (w_impl (cl_world c))) nm SRP
                  False addr (twr_modulus t) (twr_values t)) c)
        (store_towers env nm ts))"

text \<open>The reads of the header; \<open>None\<close> when one of them throws.\<close>

definition read_plaintext :: "'ar archive \<Rightarrow> 'ar \<Rightarrow> (u8 \<times> tower list option) option" where
  "read_plaintext ia ar =
     (case ar_u32 ia ar of
        None \<Rightarrow> None
      | Some (instances_count, ar) \<Rightarrow>
          (case ar_u8 ia ar of
             None \<Rightarrow> None
           | Some (payload_type, ar) \<Rightarrow>
               (case ar_u32 ia ar of
                  None \<Rightarrow> None
                | Some (num_elements, ar) \<Rightarrow> Some (payload_type, map_option fst (ar_dcrt ia ar)))))"

definition load_plaintext_input_file ::
  "'ao facade_env \<Rightarrow> 'ar archive \<Rightarrow> 'ar project_fs \<Rightarrow> string \<Rightarrow> 'h Client \<Rightarrow> cpp_error + bool \<times> 'h Client" where
  "load_plaintext_input_file env ia fs nm c =
     (let ids_path = project_file env c (''.input_'' @ nm @ ''.ids'');
          bin_path = project_file env c (''.input_'' @ nm @ ''.bin'') in
      if \<not> pf_exists fs ids_path \<or> \<not> pf_exists fs bin_path then Inr (False, c)
      else
        res_bind (read_ids (fe_host_le env) (fe_word_limit env) (pf_bytes fs ids_path)) (\<lambda>ids.
          if ids = [] then Inr (False, c)
          else
            case pf_archive fs bin_path of
              None \<Rightarrow> Inr (False, c)
            | Some ar \<Rightarrow>
                (case read_plaintext ia ar of
                   Some (payload_type, Some towers) \<Rightarrow>
                     if payload_type \<noteq> 1 \<or> length towers \<noteq> length ids then Inr (False, c)
                     else res_bind (store_towers env nm (zip towers ids) c) (\<lambda>c. Inr (True, c))
                 | _ \<Rightarrow> Inr (False, c))))"

section \<open>Reconstruction\<close>

record ComputedElement =
  ce_modulus :: u64
  ce_values :: "u64 list"

definition json_u64_list :: "json \<Rightarrow> cpp_error + u64 list" where
  "json_u64_list j = (case j of JArray xs \<Rightarrow> map_res json_u64 xs | _ \<Rightarrow> Inl JsonError)"

definition parse_sim_element :: "json \<Rightarrow> cpp_error + ComputedElement option" where
  "parse_sim_element elem =
     res_bind (json_value json_string elem ''status'' []) (\<lambda>status.
       if status \<noteq> ''computed'' \<or> \<not> json_contains elem ''values'' then Inr None
       else if \<not> json_contains elem ''modulus'' then Inl OutOfRange
       else
         res_bind (res_bind (json_at elem ''modulus'') json_u64) (\<lambda>modl.
         res_bind (res_bind (json_at elem ''values'') json_u64_list) (\<lambda>vals.
           Inr (Some \<lparr>ce_modulus = modl, ce_values = vals\<rparr>))))"

definition apply_sim_output :: "'ao facade_env \<Rightarrow> tower \<Rightarrow> ComputedElement \<Rightarrow> cpp_error + tower" where
  "apply_sim_output env t ce =
     (if length (ce_values ce) \<noteq> length (twr_values t) then Inl RuntimeError
      else
        let modl = (if ce_modulus ce = 0xFFFFFFFFFFFFFFFF then twr_modulus t else ce_modulus ce)
        in (case fe_set_values env t modl (ce_values ce) of None \<Rightarrow> Inl RuntimeError | Some t' \<Rightarrow> Inr t'))"

text \<open>The walk over the towers in lockstep with the elements, with the count of those filled.\<close>

fun fill_towers ::
  "'ao facade_env \<Rightarrow> tower list \<Rightarrow> json list \<Rightarrow> cpp_error + tower list \<times> nat" where
  "fill_towers env [] es = Inr ([], 0)"
| "fill_towers env (t # ts) [] = Inl OutOfBoundsAccess"
| "fill_towers env (t # ts) (e # es) =
     res_bind (parse_sim_element e) (\<lambda>ce.
     res_bind (case ce of None \<Rightarrow> Inr (t, 0) | Some x \<Rightarrow> res_bind (apply_sim_output env t x) (\<lambda>t'. Inr (t', 1))) (\<lambda>(t', k).
     res_bind (fill_towers env ts es) (\<lambda>(ts', n). Inr (t' # ts', k + n))))"

fun fill_ciphertext ::
  "'ao facade_env \<Rightarrow> stored_ciphertext \<Rightarrow> json list \<Rightarrow> cpp_error + stored_ciphertext \<times> nat" where
  "fill_ciphertext env [] es = Inr ([], 0)"
| "fill_ciphertext env ((ev, ts) # ct) es =
     res_bind (fill_towers env ts es) (\<lambda>(ts', k).
     res_bind (fill_ciphertext env ct (drop (length ts) es)) (\<lambda>(ct', n). Inr ((ev, ts') # ct', k + n)))"

definition json_size :: "json \<Rightarrow> nat" where
  "json_size j = (case j of JNull \<Rightarrow> 0 | JArray xs \<Rightarrow> length xs | JObject kvs \<Rightarrow> length kvs | _ \<Rightarrow> 1)"

text \<open>The body of the \<open>try\<close>: the filled ciphertext, or \<open>None\<close> when it is refused.\<close>

definition fill_template :: "'ao facade_env \<Rightarrow> json \<Rightarrow> stored_ciphertext \<Rightarrow> cpp_error + stored_ciphertext option" where
  "fill_template env entry ct =
     (if \<not> json_contains entry ''elements'' then Inl OutOfBoundsAccess
      else
        res_bind (json_at entry ''elements'') (\<lambda>elems.
          let total = ciphertext_poly_count ct in
          if json_size elems < total then Inr None
          else if total = 0 then Inr (Some ct)
          else
            case elems of
              JArray es \<Rightarrow>
                res_bind (fill_ciphertext env ct es) (\<lambda>(ct', filled).
                  Inr (if filled \<noteq> total then None else Some ct'))
            | _ \<Rightarrow> Inl JsonError))"

text \<open>The exceptions of the body are caught; an access out of bounds is none.\<close>

definition reconstruct_entry :: "'ao facade_env \<Rightarrow> string \<Rightarrow> json \<Rightarrow> 'ao disk \<Rightarrow> cpp_error + 'ao disk" where
  "reconstruct_entry env dir entry d =
     res_bind (json_value json_string entry ''name'' []) (\<lambda>nm.
       case dk_cts d (path_append (path_append dir ''ciphertext_templates'') (nm @ ''.template'')) of
         None \<Rightarrow> Inr d
       | Some ct \<Rightarrow>
           (case fill_template env entry ct of
              Inl e \<Rightarrow> (if e = OutOfBoundsAccess then Inl e else Inr d)
            | Inr None \<Rightarrow> Inr d
            | Inr (Some ct') \<Rightarrow>
                let path = path_append (path_append dir ''serialized_probes'') (nm @ ''.ct'')
                in Inr (if fe_ct_saves env path then d\<lparr>dk_cts := (dk_cts d)(path \<mapsto> ct')\<rparr> else d)))"

fun reconstruct_entries :: "'ao facade_env \<Rightarrow> string \<Rightarrow> json list \<Rightarrow> 'ao disk \<Rightarrow> cpp_error + 'ao disk" where
  "reconstruct_entries env dir [] d = Inr d"
| "reconstruct_entries env dir (e # es) d = res_bind (reconstruct_entry env dir e d) (reconstruct_entries env dir es)"

text \<open>\<open>doc\<close> is the outputs document of the replay, when it exists, opens and parses.\<close>

definition reconstruct_probes_in :: "'ao facade_env \<Rightarrow> string \<Rightarrow> json option \<Rightarrow> 'ao disk \<Rightarrow> cpp_error + 'ao disk" where
  "reconstruct_probes_in env dir doc d =
     (case doc of
        None \<Rightarrow> Inr d
      | Some j \<Rightarrow>
          if \<not> json_contains j ''outputs'' then Inr d
          else res_bind (json_at j ''outputs'') (\<lambda>arr. reconstruct_entries env dir (json_items arr) d))"

definition reconstruct_probes :: "'ao facade_env \<Rightarrow> json option \<Rightarrow> ('h, 'ao) Facade \<Rightarrow> cpp_error + ('h, 'ao) Facade" where
  "reconstruct_probes env doc st =
     res_bind (reconstruct_probes_in env (program_directory env (fc_client st)) doc (fc_disk st)) (\<lambda>d.
       Inr (st\<lparr>fc_disk := d\<rparr>))"

text \<open>\<open>result\<close>: the ciphertext, when its probe was serialized.\<close>

definition facade_result :: "'ao facade_env \<Rightarrow> string \<Rightarrow> ('h, 'ao) Facade \<Rightarrow> stored_ciphertext option" where
  "facade_result env nm st =
     dk_cts (fc_disk st) (path_append (path_append (program_directory env (fc_client st)) ''serialized_probes'') (nm @ ''.ct''))"

text \<open>The hooks OpenFHE calls, in their default form: two of them read the state, one passes its argument on.\<close>

definition is_recording :: "('h, 'ao) Facade \<Rightarrow> bool" where
  "is_recording st = cc_running (fc_impl st)"

definition on_serialize_ciphertext :: "string \<Rightarrow> ciphertext \<Rightarrow> bool" where
  "on_serialize_ciphertext filepath ct = False"

definition on_decrypt :: "ciphertext \<Rightarrow> bool" where
  "on_decrypt ct = False"

end
