(* ===== verification/Archives.thy ===== *)
theory Archives
  imports AutoFacade
begin

text \<open>
  What the library relies on in cereal's binary archives: an input archive over the content that an
  output archive has written gives the items back in their order.  The laws are a hypothesis on the two
  archives, stated over the list of the items that are still to be read; the archive that is this list
  satisfies them.
\<close>

section \<open>Items\<close>

datatype arch_item =
    Item8 u8
  | Item32 u32
  | Item64 u64
  | Items64 "u64 list"
  | ItemDcrt bool "tower list"

definition put_item :: "'ao out_archive \<Rightarrow> arch_item \<Rightarrow> 'ao \<Rightarrow> 'ao" where
  "put_item oa i =
     (case i of Item8 x \<Rightarrow> oa_u8 oa x | Item32 x \<Rightarrow> oa_u32 oa x | Item64 x \<Rightarrow> oa_u64 oa x
      | Items64 xs \<Rightarrow> oa_u64s oa xs | ItemDcrt ev ts \<Rightarrow> oa_dcrt oa ev ts)"

text \<open>
  \<open>opened\<close> is the input archive over a written one; \<open>left ar is\<close> says that reading \<open>ar\<close> in the types
  of \<open>is\<close> gives these items.
\<close>

definition archive_laws ::
  "'ao out_archive \<Rightarrow> 'ar archive \<Rightarrow> ('ao \<Rightarrow> 'ar) \<Rightarrow> ('ar \<Rightarrow> arch_item list \<Rightarrow> bool) \<Rightarrow> bool" where
  "archive_laws oa ia opened left \<longleftrightarrow>
     (\<forall>is. left (opened (fold (put_item oa) is (oa_empty oa))) is) \<and>
     (\<forall>ar x is. left ar (Item8 x # is) \<longrightarrow> (\<exists>ar'. ar_u8 ia ar = Some (x, ar') \<and> left ar' is)) \<and>
     (\<forall>ar x is. left ar (Item32 x # is) \<longrightarrow> (\<exists>ar'. ar_u32 ia ar = Some (x, ar') \<and> left ar' is)) \<and>
     (\<forall>ar x is. left ar (Item64 x # is) \<longrightarrow> (\<exists>ar'. ar_u64 ia ar = Some (x, ar') \<and> left ar' is)) \<and>
     (\<forall>ar xs is. left ar (Items64 xs # is) \<longrightarrow> (\<exists>ar'. ar_u64s ia ar = Some (xs, ar') \<and> left ar' is)) \<and>
     (\<forall>ar ev ts is. left ar (ItemDcrt ev ts # is) \<longrightarrow> (\<exists>ar'. ar_dcrt ia ar = Some (ts, ar') \<and> left ar' is))"

section \<open>The archive of items\<close>

definition list_out :: "arch_item list out_archive" where
  "list_out =
     \<lparr>oa_empty = [], oa_u8 = (\<lambda>x a. a @ [Item8 x]), oa_u32 = (\<lambda>x a. a @ [Item32 x]),
      oa_u64 = (\<lambda>x a. a @ [Item64 x]), oa_u64s = (\<lambda>xs a. a @ [Items64 xs]),
      oa_dcrt = (\<lambda>ev ts a. a @ [ItemDcrt ev ts])\<rparr>"

definition list_in :: "arch_item list archive" where
  "list_in =
     \<lparr>ar_u8 = (\<lambda>a. case a of Item8 x # is \<Rightarrow> Some (x, is) | _ \<Rightarrow> None),
      ar_u32 = (\<lambda>a. case a of Item32 x # is \<Rightarrow> Some (x, is) | _ \<Rightarrow> None),
      ar_u64 = (\<lambda>a. case a of Item64 x # is \<Rightarrow> Some (x, is) | _ \<Rightarrow> None),
      ar_u64s = (\<lambda>a. case a of Items64 xs # is \<Rightarrow> Some (xs, is) | _ \<Rightarrow> None),
      ar_dcrt = (\<lambda>a. case a of ItemDcrt ev ts # is \<Rightarrow> Some (ts, is) | _ \<Rightarrow> None)\<rparr>"

lemma put_list_out: "put_item list_out i a = a @ [i]"
  by (simp add: put_item_def list_out_def split: arch_item.split)

lemma fold_list_out: "fold (put_item list_out) is a = a @ is"
  by (induction "is" arbitrary: a) (simp_all add: put_list_out)

lemma list_archive_laws: "archive_laws list_out list_in id (=)"
  unfolding archive_laws_def
  by (intro conjI allI impI) (simp_all add: fold_list_out list_in_def, simp add: list_out_def)

end
