(* ===== verification/FacadeFiles.thy ===== *)
theory FacadeFiles
  imports Archives
begin

text \<open>
  The files of a project read back: the address files byte for byte, and the archives of inputs, keys
  and bootstrap precomputations item for item.  A loader is characterised by the items it consumes and
  by what it does to the addresses that are left and to the state of the sink.
\<close>

section \<open>Address files\<close>

lemma length_concat_mem_bytes:
  "length (concat (map (mem_bytes h) (ids :: u64 list))) = 8 * length ids"
  by (induction ids) simp_all

lemma drop_concat_mem_bytes:
  "i \<le> length ids \<Longrightarrow>
     drop (8 * i) (concat (map (mem_bytes h) (ids :: u64 list))) = concat (map (mem_bytes h) (drop i ids))"
proof (induction i arbitrary: ids)
  case (Suc i)
  then obtain a as where "ids = a # as" by (cases ids) auto
  then show ?case using Suc by simp
qed simp

lemma read_word_bytes: "read_word h (mem_bytes h (w :: u64) @ bs) = w"
  by (simp add: read_word_def mem_bytes_def mem_word_def word_of_le_bytes_le_bytes)

lemma read_ids_bytes:
  assumes "length ids \<le> limit" "length ids < 2 ^ 64"
  shows "read_ids h limit (Some (addr_ids_bytes h ids)) = Inr ids"
proof -
  have n: "unat (of_nat (length ids) :: u64) = length ids" using assms(2) by (simp add: unat_of_nat_small)
  have "read_word h (drop (8 + 8 * i) (addr_ids_bytes h ids)) = ids ! i" if "i < length ids" for i
  proof -
    have "drop (8 + 8 * i) (addr_ids_bytes h ids) = concat (map (mem_bytes h) (drop i ids))"
      using that by (simp add: addr_ids_bytes_def drop_concat_mem_bytes)
    also have "\<dots> = mem_bytes h (ids ! i) @ concat (map (mem_bytes h) (drop (Suc i) ids))"
      using that by (simp add: Cons_nth_drop_Suc [symmetric])
    finally show ?thesis by (simp add: read_word_bytes)
  qed
  then have "map (\<lambda>i. read_word h (drop (8 + 8 * i) (addr_ids_bytes h ids))) [0..<length ids] = ids"
    by (intro nth_equalityI) simp_all
  moreover have "read_word h (addr_ids_bytes h ids) = of_nat (length ids)"
    by (simp add: addr_ids_bytes_def read_word_bytes)
  ultimately show ?thesis using assms(1) n by (simp add: read_ids_def Let_def)
qed

section \<open>Bodies as items\<close>

definition item_of :: "stored_dcrt \<Rightarrow> arch_item" where
  "item_of d = (case d of (ev, ts) \<Rightarrow> ItemDcrt ev ts)"

definition group_items :: "stored_ciphertext \<Rightarrow> arch_item list" where
  "group_items ds = Item32 (of_nat (length ds)) # map item_of ds"

definition proxy_items :: "tower list \<Rightarrow> arch_item list" where
  "proxy_items ts = concat (map (\<lambda>t. [Item64 (twr_modulus t), Items64 (twr_values t)]) ts)"

lemma put_item_simps [simp]:
  "put_item oa (Item8 x) = oa_u8 oa x" "put_item oa (Item32 y) = oa_u32 oa y" "put_item oa (Item64 z) = oa_u64 oa z"
  "put_item oa (Items64 zs) = oa_u64s oa zs" "put_item oa (ItemDcrt ev ts) = oa_dcrt oa ev ts"
  by (simp_all add: put_item_def)

lemma write_dcrts_items: "write_dcrts oa ds ar = fold (put_item oa) (map item_of ds) ar"
  by (induction ds arbitrary: ar) (auto simp: write_dcrts_def item_of_def)

lemma write_group_items: "write_group oa ds ar = fold (put_item oa) (group_items ds) ar"
  by (simp add: write_group_def group_items_def write_dcrts_items)

lemma proxy_fold_items:
  "fold (\<lambda>t ar. oa_u64s oa (twr_values t) (oa_u64 oa (twr_modulus t) ar)) ts ar = fold (put_item oa) (proxy_items ts) ar"
  by (induction ts arbitrary: ar) (simp_all add: proxy_items_def)

lemma input_body_items:
  "ciphertext_body oa ds ar = fold (put_item oa) ([Item32 1, Item8 0] @ group_items ds) ar"
  "plaintext_body oa d ar = fold (put_item oa) ([Item32 1, Item8 1] @ group_items [d]) ar"
  "proxy_body oa ev ts ar = fold (put_item oa)
     ([Item32 1, Item8 2, Item32 (of_nat (length ts)), Item8 (if ev then 1 else 0)] @ proxy_items ts) ar"
  by (simp_all add: ciphertext_body_def plaintext_body_def proxy_body_def write_group_items proxy_fold_items)

definition key_items :: "eval_key \<Rightarrow> arch_item list" where
  "key_items k = group_items (map dcrt_data (ek_a k)) @ group_items (map dcrt_data (ek_b k))"

lemma eval_keys_items:
  "eval_keys_body oa keys ar = fold (put_item oa) (Item32 (of_nat (length keys)) # concat (map key_items keys)) ar"
proof -
  have "fold (write_eval_key oa) keys ar = fold (put_item oa) (concat (map key_items keys)) ar" for ar
    by (induction keys arbitrary: ar) (simp_all add: write_eval_key_def key_items_def write_group_items)
  then show ?thesis by (simp add: eval_keys_body_def)
qed

definition plaintext_items :: "dcrt_poly option list \<Rightarrow> arch_item list" where
  "plaintext_items pts = group_items (map (\<lambda>pt. dcrt_data (the pt)) pts)"

definition plaintext_items_2d :: "dcrt_poly option list list \<Rightarrow> arch_item list" where
  "plaintext_items_2d vs = Item32 (of_nat (length vs)) # concat (map plaintext_items vs)"

definition boot_items :: "boot_precom \<Rightarrow> arch_item list" where
  "boot_items e =
     map Item32 ([bm_slots e, bq_g (bm_paramsEnc e)] @ params_list (bm_paramsEnc e) @ params_list (bm_paramsDec e)) @
     plaintext_items_2d (bm_U0hatTPreFFT e) @ plaintext_items_2d (bm_U0PreFFT e) @
     plaintext_items (bm_U0Pre e) @ plaintext_items (bm_U0hatTPre e)"

lemma fold_map_Item32: "fold (oa_u32 oa) xs ar = fold (put_item oa) (map Item32 xs) ar"
  by (induction xs arbitrary: ar) simp_all

lemma write_1d_items:
  "None \<notin> set pts \<Longrightarrow> write_1d oa pts ar = Inr (fold (put_item oa) (plaintext_items pts) ar)"
  by (simp add: write_1d_def plaintext_items_def write_group_items)

lemma write_1ds_items:
  "None \<notin> set (concat vs) \<Longrightarrow> write_1ds oa vs ar = Inr (fold (put_item oa) (concat (map plaintext_items vs)) ar)"
  by (induction vs arbitrary: ar) (simp_all add: write_1d_items)

lemma write_boot_entry_items:
  assumes "None \<notin> set (boot_plaintexts e)"
  shows "write_boot_entry oa e ar = Inr (fold (put_item oa) (boot_items e) ar)"
  using assms
  by (simp add: write_boot_entry_def boot_plaintexts_def boot_items_def write_2d_def write_1ds_items write_1d_items
      plaintext_items_2d_def fold_map_Item32 Let_def)

definition boots_whole :: "boot_precom option list \<Rightarrow> bool" where
  "boots_whole es \<longleftrightarrow> (\<forall>e \<in> set es. \<exists>p. e = Some p \<and> None \<notin> set (boot_plaintexts p))"

lemma boot_body_items:
  assumes "boots_whole es"
  shows "boot_body oa es ar =
    Inr (fold (put_item oa) (Item32 (of_nat (length es)) # concat (map (\<lambda>e. boot_items (the e)) es)) ar)"
proof -
  have "write_boot_entries oa es ar = Inr (fold (put_item oa) (concat (map (\<lambda>e. boot_items (the e)) es)) ar)" for ar
    using assms
  proof (induction es arbitrary: ar)
    case (Cons e es)
    then obtain p where "e = Some p" "None \<notin> set (boot_plaintexts p)" "boots_whole es" by (auto simp: boots_whole_def)
    then show ?case using Cons.IH by (simp add: write_boot_entry_items)
  qed simp
  then show ?thesis by (simp add: boot_body_def)
qed

section \<open>What a loader consumes\<close>

definition yields ::
  "('ar \<Rightarrow> arch_item list \<Rightarrow> bool) \<Rightarrow> ('ar, 'st, 'a) loader \<Rightarrow> arch_item list \<Rightarrow> 'a \<Rightarrow> (u64 list \<times> 'st \<Rightarrow> u64 list \<times> 'st) \<Rightarrow> bool"
where
  "yields left m is x f \<longleftrightarrow>
     (\<forall>ar more ids st. left ar (is @ more) \<longrightarrow> (\<exists>ar'. m (ar, ids, st) = (Some x, ar', f (ids, st)) \<and> left ar' more))"

lemma yields_return: "yields left (ld_return x) [] x id"
  by (simp add: yields_def ld_return_def)

lemma yields_bind:
  assumes "yields left m is x f" "yields left (k x) is' y g" "js = is @ is'" "h = g \<circ> f"
  shows "yields left (ld_bind m k) js y h"
  unfolding yields_def
proof (intro allI impI)
  fix ar more ids st assume "left ar (js @ more)"
  then have r: "left ar (is @ (is' @ more))" using assms(3) by simp
  obtain ar1 where 1: "m (ar, ids, st) = (Some x, ar1, f (ids, st))" "left ar1 (is' @ more)"
    using assms(1) r unfolding yields_def by blast
  obtain i s where fs: "f (ids, st) = (i, s)" by (cases "f (ids, st)")
  obtain ar2 where "k x (ar1, i, s) = (Some y, ar2, g (i, s))" "left ar2 more"
    using assms(2) 1(2) unfolding yields_def by blast
  then show "\<exists>ar'. ld_bind m k (ar, ids, st) = (Some y, ar', h (ids, st)) \<and> left ar' more"
    using 1 fs assms(4) by (simp add: ld_bind_def)
qed

lemma yields_times:
  assumes "\<And>c. c \<in> set cs \<Longrightarrow> yields left m (items c) () (f c)"
  shows "yields left (ld_times (length cs) m) (concat (map items cs)) () (fold f cs)"
  using assms
proof (induction cs)
  case Nil
  then show ?case using yields_return by (simp add: id_def)
next
  case (Cons c cs)
  have "yields left (ld_times (length cs) m) (concat (map items cs)) () (fold f cs)" using Cons by simp
  note tail = this
  show ?case unfolding ld_times.simps list.size add_Suc_right add_0_right
    by (rule yields_bind [where x = "()" and f = "f c", OF _ tail]) (use Cons.prems in \<open>simp_all add: fun_eq_iff\<close>)
qed

lemma archive_reads:
  assumes "archive_laws oa ia opened left"
  shows "left ar (Item8 a # is) \<Longrightarrow> \<exists>ar'. ar_u8 ia ar = Some (a, ar') \<and> left ar' is"
    "left ar (Item32 b # is) \<Longrightarrow> \<exists>ar'. ar_u32 ia ar = Some (b, ar') \<and> left ar' is"
    "left ar (Item64 d # is) \<Longrightarrow> \<exists>ar'. ar_u64 ia ar = Some (d, ar') \<and> left ar' is"
    "left ar (Items64 ds # is) \<Longrightarrow> \<exists>ar'. ar_u64s ia ar = Some (ds, ar') \<and> left ar' is"
    "left ar (ItemDcrt ev ts # is) \<Longrightarrow> \<exists>ar'. ar_dcrt ia ar = Some (ts, ar') \<and> left ar' is"
  using assms unfolding archive_laws_def by blast+

lemma yields_read:
  assumes "\<And>ar is. left ar (i # is) \<Longrightarrow> \<exists>ar'. rd ar = Some (x, ar') \<and> left ar' is"
  shows "yields left (ld_read rd) [i] x id"
  unfolding yields_def
proof (intro allI impI)
  fix ar more ids st assume "left ar ([i] @ more)"
  then obtain ar' where "rd ar = Some (x, ar')" "left ar' more" using assms by fastforce
  then show "\<exists>ar'. ld_read rd (ar, ids, st) = (Some x, ar', id (ids, st)) \<and> left ar' more"
    by (simp add: ld_read_def)
qed

lemma yields_reads:
  assumes "archive_laws oa ia opened left"
  shows "yields left (ld_read (ar_u8 ia)) [Item8 a] a id" "yields left (ld_read (ar_u32 ia)) [Item32 b] b id"
    "yields left (ld_read (ar_u64 ia)) [Item64 d] d id" "yields left (ld_read (ar_u64s ia)) [Items64 ds] ds id"
    "yields left (ld_read (ar_dcrt ia)) [ItemDcrt ev ts] ts id"
  by (rule yields_read, rule archive_reads [OF assms], assumption)+

text \<open>A read, then the rest.\<close>

lemma yields_u8:
  assumes "archive_laws oa ia opened left" "yields left (k a) is y g"
  shows "yields left (ld_bind (ld_read (ar_u8 ia)) k) (Item8 a # is) y g"
  by (rule yields_bind [where k = k, OF yields_reads(1) [OF assms(1), of a] assms(2)]) simp_all

lemma yields_u32:
  assumes "archive_laws oa ia opened left" "yields left (k b) is y g"
  shows "yields left (ld_bind (ld_read (ar_u32 ia)) k) (Item32 b # is) y g"
  by (rule yields_bind [where k = k, OF yields_reads(2) [OF assms(1), of b] assms(2)]) simp_all

text \<open>What a loader does with the towers of a polynomial.\<close>

definition tower_sink :: "'st sink \<Rightarrow> u64 \<times> tower \<Rightarrow> 'st \<Rightarrow> 'st" where
  "tower_sink sink at = (case at of (a, t) \<Rightarrow> sink a (twr_values t) (twr_modulus t))"

definition take_towers :: "'st sink \<Rightarrow> tower list \<Rightarrow> u64 list \<times> 'st \<Rightarrow> u64 list \<times> 'st" where
  "take_towers sink ts x = (case x of (ids, st) \<Rightarrow> extract_dcrt_towers sink ts ids st)"

lemma extract_none: "extract_dcrt_towers sink ts [] st = ([], st)"
  by (cases ts) simp_all

lemma extract_dcrt_towers_append:
  "extract_dcrt_towers sink (ts @ us) ids st =
     (case extract_dcrt_towers sink ts ids st of (ids', st') \<Rightarrow> extract_dcrt_towers sink us ids' st')"
  by (induction sink ts ids st rule: extract_dcrt_towers.induct) (simp_all add: extract_none)

lemma take_towers_append: "take_towers sink us (take_towers sink ts x) = take_towers sink (ts @ us) x"
  by (cases x) (simp add: take_towers_def extract_dcrt_towers_append)

lemma take_towers_comp: "take_towers sink us \<circ> take_towers sink ts = take_towers sink (ts @ us)"
  by (rule ext) (simp add: take_towers_append)

lemma take_towers_Nil: "take_towers sink [] = id"
  by (rule ext) (simp add: take_towers_def split: prod.split)

lemma fold_take_towers: "fold (\<lambda>d. take_towers sink (g d)) ds = take_towers sink (concat (map g ds))"
  by (induction ds) (simp_all add: take_towers_Nil take_towers_comp)

lemma take_towers_all:
  "length ts \<le> length ids \<Longrightarrow>
     take_towers sink ts (ids, st) = (drop (length ts) ids, fold (tower_sink sink) (zip ids ts) st)"
  unfolding take_towers_def prod.case
  by (induction sink ts ids st rule: extract_dcrt_towers.induct) (simp_all add: tower_sink_def)

lemma yields_dcrt:
  assumes "archive_laws oa ia opened left"
  shows "yields left (load_dcrt ia sink) [item_of d] () (take_towers sink (snd d))"
proof -
  have "yields left (\<lambda>(a, ids, st). let (ids, st) = extract_dcrt_towers sink ts ids st in (Some (), a, ids, st)) [] ()
      (take_towers sink ts)" for ts
    by (simp add: yields_def take_towers_def split: prod.split)
  note tail = this
  show ?thesis unfolding load_dcrt_def item_of_def
    by (cases d, simp only: prod.case snd_conv, rule yields_bind, rule yields_reads(5) [OF assms], rule tail) simp_all
qed

lemma unat_count: "n < 2 ^ 32 \<Longrightarrow> unat (of_nat n :: u32) = n"
  by (simp add: unat_of_nat_small)

lemma yields_dcrts:
  assumes "archive_laws oa ia opened left" "length ds < 2 ^ 32"
  shows "yields left (read_dcrt_group ia sink (of_nat (length ds))) (map item_of ds) () (take_towers sink (concat (map snd ds)))"
proof -
  have "yields left (ld_times (length ds) (load_dcrt ia sink)) (concat (map (\<lambda>d. [item_of d]) ds)) ()
      (fold (\<lambda>d. take_towers sink (snd d)) ds)"
    by (rule yields_times) (rule yields_dcrt [OF assms(1)])
  then show ?thesis
    unfolding read_dcrt_group_def unat_count [OF assms(2)] fold_take_towers concat_map_singleton .
qed

lemma yields_1d:
  assumes "archive_laws oa ia opened left" "length ds < 2 ^ 32"
  shows "yields left (read_1d ia sink) (group_items ds) () (take_towers sink (concat (map snd ds)))"
  unfolding read_1d_def group_items_def by (rule yields_u32 [OF assms(1)]) (rule yields_dcrts [OF assms])

text \<open>One instance of an input, of each kind that is written.\<close>

lemma yields_ciphertext:
  assumes "archive_laws oa ia opened left" "length ds < 2 ^ 32" "ty = 0 \<or> ty = 1"
  shows "yields left (load_instance ia sink) (Item8 ty # group_items ds) () (take_towers sink (concat (map snd ds)))"
  unfolding load_instance_def group_items_def
  by (intro yields_u8 [OF assms(1)] yields_u32 [OF assms(1)]) (use yields_dcrts [OF assms(1,2)] assms(3) in simp)

lemma yields_proxy_loop:
  assumes laws: "archive_laws oa ia opened left"
  shows "left ar (proxy_items ts @ mr) \<Longrightarrow> length ts \<le> length ids \<Longrightarrow>
    \<exists>ar'. proxy_loop ia sink (length ts) (ar, ids, st) =
       (Some (), ar', drop (length ts) ids, fold (tower_sink sink) (zip ids ts) st) \<and> left ar' mr"
proof (induction ts arbitrary: ar ids st)
  case Nil
  then show ?case by (simp add: ld_return_def proxy_items_def)
next
  case (Cons t ts)
  obtain i ids' where ids: "ids = i # ids'" "length ts \<le> length ids'" using Cons.prems(2) by (cases ids) auto
  have "left ar (Item64 (twr_modulus t) # Items64 (twr_values t) # proxy_items ts @ mr)"
    using Cons.prems(1) by (simp add: proxy_items_def)
  from archive_reads(3) [OF laws this] obtain ar1 where 1: "ar_u64 ia ar = Some (twr_modulus t, ar1)"
    "left ar1 (Items64 (twr_values t) # proxy_items ts @ mr)" by blast
  from archive_reads(4) [OF laws 1(2)] obtain ar2 where 2: "ar_u64s ia ar1 = Some (twr_values t, ar2)"
    "left ar2 (proxy_items ts @ mr)" by blast
  from Cons.IH [OF 2(2) ids(2)] show ?case
    using ids 1(1) 2(1) by (simp add: ld_bind_def ld_read_def tower_sink_def)
qed

section \<open>Files that reload\<close>

lemma load_bin_yields:
  assumes "yields left body is () f" "left ar is"
  shows "load_bin body (Some ar) ids st = (True, snd (f (ids, st)))"
proof -
  have "left ar (is @ [])" using assms(2) by simp
  then obtain ar' where "body (ar, ids, st) = (Some (), ar', f (ids, st))"
    using assms(1) unfolding yields_def by blast
  then show ?thesis by (cases "f (ids, st)") (simp add: load_bin_def)
qed

lemma opened_items:
  "archive_laws oa ia opened left \<Longrightarrow> left (opened (fold (put_item oa) is (oa_empty oa))) is"
  by (simp add: archive_laws_def)

text \<open>One instance: the header of an input file.\<close>

lemma yields_one_instance:
  assumes "archive_laws oa ia opened left" "yields left (load_instance ia sink) is () f"
  shows "yields left (ld_bind (ld_read (ar_u32 ia)) (\<lambda>instances. ld_times (unat instances) (load_instance ia sink)))
    (Item32 1 # is) () f"
proof -
  have "yields left (ld_times (unat (1 :: u32)) (load_instance ia sink)) is () f"
    unfolding unat_1 One_nat_def ld_times.simps
    by (rule yields_bind [where x = "()" and f = f and g = id], rule assms(2), rule yields_return) simp_all
  then show ?thesis by (rule yields_u32 [OF assms(1)])
qed

lemma ciphertext_file_reloads:
  assumes "archive_laws oa ia opened left" "length ds < 2 ^ 32" "length ids = length (concat (map snd ds))"
  shows "load_input_bin ia sink (Some (opened (ciphertext_body oa ds (oa_empty oa)))) ids st =
    (True, fold (tower_sink sink) (zip ids (concat (map snd ds))) st)"
proof -
  have "yields left (ld_bind (ld_read (ar_u32 ia)) (\<lambda>instances. ld_times (unat instances) (load_instance ia sink)))
      ([Item32 1, Item8 0] @ group_items ds) () (take_towers sink (concat (map snd ds)))"
    using yields_one_instance [OF assms(1) yields_ciphertext [OF assms(1,2), of 0]] by simp
  from load_bin_yields [OF this opened_items [OF assms(1)]] show ?thesis
    using assms(3) unfolding load_input_bin_def input_body_items by (simp add: take_towers_all del: fold_simps)
qed

lemma plaintext_file_reloads:
  assumes "archive_laws oa ia opened left" "length ids = length (snd d)"
  shows "load_input_bin ia sink (Some (opened (plaintext_body oa d (oa_empty oa)))) ids st =
    (True, fold (tower_sink sink) (zip ids (snd d)) st)"
proof -
  have "yields left (ld_bind (ld_read (ar_u32 ia)) (\<lambda>instances. ld_times (unat instances) (load_instance ia sink)))
      ([Item32 1, Item8 1] @ group_items [d]) () (take_towers sink (snd d))"
    using yields_one_instance [OF assms(1) yields_ciphertext [OF assms(1), of "[d]" 1]] by simp
  from load_bin_yields [OF this opened_items [OF assms(1)]] show ?thesis
    using assms(2) unfolding load_input_bin_def input_body_items by (simp add: take_towers_all del: fold_simps)
qed

lemma proxy_file_reloads:
  assumes laws: "archive_laws oa ia opened left" and n: "length ts < 2 ^ 32" "length ids = length ts"
  shows "load_input_bin ia sink (Some (opened (proxy_body oa ev ts (oa_empty oa)))) ids st =
    (True, fold (tower_sink sink) (zip ids ts) st)"
proof -
  define ar where "ar = opened (proxy_body oa ev ts (oa_empty oa))"
  let ?fmt = "if ev then 1 else 0 :: u8"
  have r: "left ar (Item32 1 # Item8 2 # Item32 (of_nat (length ts)) # Item8 ?fmt # proxy_items ts @ [])"
    unfolding ar_def input_body_items append_Cons append_Nil append_Nil2 by (rule opened_items [OF laws])
  from archive_reads(2) [OF laws r] obtain a1 where 1: "ar_u32 ia ar = Some (1, a1)"
    "left a1 (Item8 2 # Item32 (of_nat (length ts)) # Item8 ?fmt # proxy_items ts @ [])" by blast
  from archive_reads(1) [OF laws 1(2)] obtain a2 where 2: "ar_u8 ia a1 = Some (2, a2)"
    "left a2 (Item32 (of_nat (length ts)) # Item8 ?fmt # proxy_items ts @ [])" by blast
  from archive_reads(2) [OF laws 2(2)] obtain a3 where 3: "ar_u32 ia a2 = Some (of_nat (length ts), a3)"
    "left a3 (Item8 ?fmt # proxy_items ts @ [])" by blast
  from archive_reads(1) [OF laws 3(2)] obtain a4 where 4: "ar_u8 ia a3 = Some (?fmt, a4)"
    "left a4 (proxy_items ts @ [])" by blast
  obtain a5 where 5: "proxy_loop ia sink (length ts) (a4, ids, st) =
      (Some (), a5, drop (length ts) ids, fold (tower_sink sink) (zip ids ts) st)"
    using yields_proxy_loop [OF laws 4(2), of ids sink st] n(2) by fastforce
  have "load_instance ia sink (a1, ids, st) = (Some (), a5, drop (length ts) ids, fold (tower_sink sink) (zip ids ts) st)"
    using 2(1) 3(1) 4(1) 5 n by (simp add: load_instance_def ld_bind_def ld_read_def unat_count del: if_distrib)
  then show ?thesis
    using 1(1) by (simp add: load_input_bin_def load_bin_def ar_def [symmetric] ld_bind_def ld_read_def ld_return_def)
qed

text \<open>Keys.\<close>

definition key_towers :: "eval_key \<Rightarrow> tower list" where
  "key_towers k = concat (map dcrt_towers (ek_a k)) @ concat (map dcrt_towers (ek_b k))"

lemma snd_dcrt_data [simp]: "snd (dcrt_data d) = dcrt_towers d"
  by (simp add: dcrt_data_def)

lemma snd_dcrt_data_comp [simp]: "snd \<circ> dcrt_data = dcrt_towers"
  by (simp add: comp_def)

lemma yields_key:
  assumes "archive_laws oa ia opened left" "length (ek_a k) < 2 ^ 32" "length (ek_b k) < 2 ^ 32"
  shows "yields left (ld_bind (read_1d ia sink) (\<lambda>_. read_1d ia sink)) (key_items k) () (take_towers sink (key_towers k))"
proof (rule yields_bind)
  show "yields left (read_1d ia sink) (group_items (map dcrt_data (ek_a k))) ()
      (take_towers sink (concat (map dcrt_towers (ek_a k))))"
    using yields_1d [OF assms(1), of "map dcrt_data (ek_a k)" sink] assms(2) by simp
  show "yields left (read_1d ia sink) (group_items (map dcrt_data (ek_b k))) ()
      (take_towers sink (concat (map dcrt_towers (ek_b k))))"
    using yields_1d [OF assms(1), of "map dcrt_data (ek_b k)" sink] assms(3) by simp
qed (simp_all add: key_items_def key_towers_def take_towers_comp)

lemma key_file_reloads:
  assumes laws: "archive_laws oa ia opened left" and n: "length keys < 2 ^ 32"
    and k: "\<forall>k \<in> set keys. length (ek_a k) < 2 ^ 32 \<and> length (ek_b k) < 2 ^ 32"
    and ids: "length ids = length (concat (map key_towers keys))"
  shows "load_key_bin ia sink (Some (opened (eval_keys_body oa keys (oa_empty oa)))) ids st =
    (True, fold (tower_sink sink) (zip ids (concat (map key_towers keys))) st)"
proof -
  have t: "yields left (ld_times (length keys) (ld_bind (read_1d ia sink) (\<lambda>_. read_1d ia sink)))
      (concat (map key_items keys)) () (take_towers sink (concat (map key_towers keys)))"
    unfolding fold_take_towers [symmetric] by (rule yields_times) (use k in \<open>simp add: yields_key [OF laws]\<close>)
  have "yields left (ld_bind (ld_read (ar_u32 ia)) (\<lambda>num_keys.
       ld_times (unat num_keys) (ld_bind (read_1d ia sink) (\<lambda>_. read_1d ia sink))))
      (Item32 (of_nat (length keys)) # concat (map key_items keys)) () (take_towers sink (concat (map key_towers keys)))"
    by (rule yields_u32 [OF laws]) (simp add: unat_count [OF n] t)
  from load_bin_yields [OF this opened_items [OF laws]] show ?thesis
    using ids unfolding load_key_bin_def eval_keys_items by (simp add: take_towers_all del: fold_simps)
qed

text \<open>Bootstrap precomputations.\<close>

definition plaintext_towers :: "dcrt_poly option list \<Rightarrow> tower list" where
  "plaintext_towers pts = map np_tower (plaintext_polys pts)"

lemma plaintext_towers_whole:
  "None \<notin> set pts \<Longrightarrow> concat (map (\<lambda>pt. dcrt_towers (the pt)) pts) = plaintext_towers pts"
  by (induction pts) (auto simp: plaintext_towers_def plaintext_polys_def dcrt_towers_def split: option.splits)

lemma plaintext_towers_append: "plaintext_towers (xs @ ys) = plaintext_towers xs @ plaintext_towers ys"
  by (simp add: plaintext_towers_def plaintext_polys_def)

lemma plaintext_towers_concat: "plaintext_towers (concat vs) = concat (map plaintext_towers vs)"
  by (induction vs) (simp_all add: plaintext_towers_append, simp add: plaintext_towers_def plaintext_polys_def)

lemma yields_plaintexts:
  assumes "archive_laws oa ia opened left" "length pts < 2 ^ 32" "None \<notin> set pts"
  shows "yields left (read_1d ia sink) (plaintext_items pts) () (take_towers sink (plaintext_towers pts))"
  using yields_1d [OF assms(1), of "map (\<lambda>pt. dcrt_data (the pt)) pts" sink] assms(2,3)
  by (simp add: plaintext_items_def comp_def plaintext_towers_whole)

lemma yields_2d:
  assumes "archive_laws oa ia opened left" "length vs < 2 ^ 32" "\<forall>v \<in> set vs. length v < 2 ^ 32"
    and "None \<notin> set (concat vs)"
  shows "yields left (read_2d ia sink) (plaintext_items_2d vs) () (take_towers sink (plaintext_towers (concat vs)))"
proof -
  have t: "yields left (ld_times (length vs) (read_1d ia sink)) (concat (map plaintext_items vs)) ()
      (take_towers sink (concat (map plaintext_towers vs)))"
    unfolding fold_take_towers [symmetric]
    by (rule yields_times) (use assms(3,4) in \<open>auto intro!: yields_plaintexts [OF assms(1)]\<close>)
  then show ?thesis unfolding read_2d_def plaintext_items_2d_def plaintext_towers_concat
    by (intro yields_u32 [OF assms(1)]) (simp add: unat_count [OF assms(2)])
qed

definition boot_fits :: "boot_precom \<Rightarrow> bool" where
  "boot_fits e \<longleftrightarrow> None \<notin> set (boot_plaintexts e) \<and>
     (\<forall>vs \<in> {bm_U0hatTPreFFT e, bm_U0PreFFT e}. length vs < 2 ^ 32 \<and> (\<forall>v \<in> set vs. length v < 2 ^ 32)) \<and>
     length (bm_U0Pre e) < 2 ^ 32 \<and> length (bm_U0hatTPre e) < 2 ^ 32"

lemma fold_const_id: "fold (\<lambda>_. id) ps = id"
  by (induction ps) simp_all

lemma yields_params:
  assumes "archive_laws oa ia opened left" "length ps = n"
  shows "yields left (ld_times n (ld_bind (ld_read (ar_u32 ia)) (\<lambda>_. ld_return ()))) (map Item32 ps) () id"
proof -
  have "yields left (ld_times (length ps) (ld_bind (ld_read (ar_u32 ia)) (\<lambda>_. ld_return ())))
      (concat (map (\<lambda>p. [Item32 p]) ps)) () (fold (\<lambda>_. id) ps)"
    by (intro yields_times yields_u32 [OF assms(1)] yields_return)
  then show ?thesis using assms(2) by (simp add: concat_map_singleton fold_const_id)
qed

lemma yields_boot_entry:
  assumes laws: "archive_laws oa ia opened left" and e: "boot_fits e"
  shows "yields left (load_bp_entry ia sink) (boot_items e) () (take_towers sink (plaintext_towers (boot_plaintexts e)))"
proof -
  let ?ps = "params_list (bm_paramsEnc e) @ params_list (bm_paramsDec e)"
  let ?t = "\<lambda>pts. take_towers sink (plaintext_towers pts)"
  have 1: "yields left (read_1d ia sink) (plaintext_items (bm_U0Pre e)) () (?t (bm_U0Pre e))"
    "yields left (read_1d ia sink) (plaintext_items (bm_U0hatTPre e)) () (?t (bm_U0hatTPre e))"
    by (rule yields_plaintexts [OF laws]; use e in \<open>simp add: boot_fits_def boot_plaintexts_def\<close>)+
  have 2: "yields left (read_2d ia sink) (plaintext_items_2d (bm_U0hatTPreFFT e)) () (?t (concat (bm_U0hatTPreFFT e)))"
    "yields left (read_2d ia sink) (plaintext_items_2d (bm_U0PreFFT e)) () (?t (concat (bm_U0PreFFT e)))"
    by (rule yields_2d [OF laws]; use e in \<open>simp add: boot_fits_def boot_plaintexts_def\<close>)+
  have ps: "length ?ps = 2 * 9" by (simp add: params_list_def)
  note tail = yields_bind [OF 2(2) yields_bind [OF 1(1) 1(2) refl refl] refl refl]
  note body = yields_bind [OF yields_params [OF laws ps] yields_bind [OF 2(1) tail refl refl] refl refl]
  have "yields left (load_bp_entry ia sink) (boot_items e) ()
      (((?t (bm_U0hatTPre e) \<circ> ?t (bm_U0Pre e)) \<circ> ?t (concat (bm_U0PreFFT e))) \<circ> ?t (concat (bm_U0hatTPreFFT e)) \<circ> id)"
    unfolding load_bp_entry_def boot_items_def append_Cons append_Nil list.map map_append append_assoc
    by (rule yields_u32 [OF laws], rule yields_u32 [OF laws])
      (use body in \<open>simp add: comp_def\<close>)
  then show ?thesis by (simp add: take_towers_comp boot_plaintexts_def plaintext_towers_append)
qed

definition boot_towers :: "boot_precom option list \<Rightarrow> tower list" where
  "boot_towers es = map np_tower (boot_polys es)"

lemma boot_file_reloads:
  assumes laws: "archive_laws oa ia opened left" and n: "length es < 2 ^ 32"
    and e: "\<forall>e \<in> set es. \<exists>p. e = Some p \<and> boot_fits p" and ids: "length ids = length (boot_towers es)"
  shows "\<exists>ao. boot_body oa es (oa_empty oa) = Inr ao \<and>
    load_bp_bin ia sink (Some (opened ao)) ids st = (True, fold (tower_sink sink) (zip ids (boot_towers es)) st)"
proof -
  have w: "boots_whole es" using e by (auto simp: boots_whole_def boot_fits_def)
  let ?is = "Item32 (of_nat (length es)) # concat (map (\<lambda>e. boot_items (the e)) es)"
  have bt: "boot_towers es = concat (map (\<lambda>e. plaintext_towers (boot_plaintexts (the e))) es)"
    using w by (induction es) (auto simp: boot_towers_def boot_polys_def boots_whole_def plaintext_towers_def)
  have t: "yields left (ld_times (length es) (load_bp_entry ia sink)) (concat (map (\<lambda>e. boot_items (the e)) es)) ()
      (take_towers sink (boot_towers es))"
    unfolding bt fold_take_towers [symmetric]
    by (rule yields_times) (use e yields_boot_entry [OF laws] in fastforce)
  have "yields left (ld_bind (ld_read (ar_u32 ia)) (\<lambda>num_entries. ld_times (unat num_entries) (load_bp_entry ia sink)))
      ?is () (take_towers sink (boot_towers es))"
    by (rule yields_u32 [OF laws]) (simp add: unat_count [OF n] t)
  from load_bin_yields [OF this opened_items [OF laws]]
  have "load_bp_bin ia sink (Some (opened (fold (put_item oa) ?is (oa_empty oa)))) ids st =
      (True, fold (tower_sink sink) (zip ids (boot_towers es)) st)"
    using ids by (simp add: load_bp_bin_def take_towers_all del: fold_simps)
  then show ?thesis by (simp add: boot_body_items [OF w])
qed

end
