(* ===== verification/ReplayExamples.thy ===== *)
theory ReplayExamples
  imports ReplayProps FacadeFiles TraceFile SimSpec
begin

text \<open>
  A project of one input and one output, replayed: its trace adds zero to the input, its files are
  those the facade writes, and its archive is the list of its items.
\<close>

section \<open>The propagation at an example\<close>

definition copied_example :: SimImpl where
  "copied_example = (set_ring_dimension 2 SimImpl_init)\<lparr>im_memory := write_slot 1 97 [10, 20] (set_ring_dim 2 Memory_init)\<rparr>"

lemma copied_slots: "slot a copied_example = (if a = 1 then Some \<lparr>me_values = [10, 20], me_modulus = 97, me_initialized = True\<rparr> else None)"
  by (simp add: copied_example_def write_slot_view) (simp add: mem_view_def mem_is_initialized_def set_ring_dim_def Memory_init_def)

theorem propagation_reaches_connected_inputs_witness:
  "\<exists>s'. propagate {2, 3} [(2, 1), (3, 2), (5, 4)] copied_example = Some (Inr s') \<and> sim_is_initialized 3 s' \<and>
     \<not> sim_is_initialized 5 s'"
proof -
  have f: "full_memory copied_example"
    unfolding full_memory_def copied_slots by (simp add: copied_example_def set_ring_dim_def)
  let ?c = "carries {2, 3} [(2, 1), (3, 2), (5, 4)]"
  have "(1, 2) \<in> ?c" "(2, 3) \<in> ?c" by (simp_all add: carries_def)
  then have "(1, 3) \<in> ?c\<^sup>*" by (meson r_into_rtrancl rtrancl_trans)
  then have r: "3 \<in> reached {2, 3} [(2, 1), (3, 2), (5, 4)] copied_example"
    by (auto simp: reached_def initialized_slot copied_slots)
  have "(x, 5) \<notin> ?c" for x by (simp add: carries_def)
  then have "5 \<notin> reached {2, 3} [(2, 1), (3, 2), (5, 4)] copied_example"
    by (auto simp: reached_def initialized_slot copied_slots elim: rtranclE)
  then show ?thesis using r propagation_reaches_connected_inputs [OF f, of "{2, 3}" "[(2, 1), (3, 2), (5, 4)]"] by auto
qed

section \<open>A project\<close>

definition copy_inst :: Instruction where
  "copy_inst = Instruction_init\<lparr>opcode := FH_SR_ADDPS, dest := 3, src1 := 5, immediate := Some 0, modulus := Some 97,
     modulus_is_literal := True\<rparr>"

definition copy_program :: Program where
  "copy_program = Program_init\<lparr>modulus_table := [0xFFFFFFFFFFFFFFFF], instructions := [copy_inst]\<rparr>"

definition copy_input :: stored_ciphertext where
  "copy_input = [(True, [\<lparr>twr_modulus = 97, twr_values = [10, 20], twr_evaluation = True\<rparr>])]"

definition copy_fs :: "bytes \<Rightarrow> arch_item list project_fs" where
  "copy_fs trace =
     \<lparr>pf_exists = (\<lambda>p. p \<in> {''p/t.inputs.json'', ''p/b'', ''p/i''}), pf_is_directory = (\<lambda>p. p = ''p''),
      pf_archive = [''p/b'' \<mapsto> ciphertext_body list_out copy_input []],
      pf_bytes = [''p/i'' \<mapsto> addr_ids_bytes True [5], ''p/t.fhex'' \<mapsto> trace],
      pf_json =
        [''p/fhetch_replay.json'' \<mapsto> JObject [(''crypto_context'', JObject [(''ring_dimension'', JUnsigned 2)]),
           (''files'', JObject [(''instructions'', JString ''t.fhex'')])],
         ''p/t.inputs.json'' \<mapsto> JObject [(''inputs'', JArray [JObject [(''bin_file'', JString ''b''), (''ids_file'', JString ''i'')]])],
         ''p/t.outputs.json'' \<mapsto> JObject [(''outputs'', JArray [JObject [(''name'', JString ''o''),
           (''ciphertext_data'', JArray [JObject [(''elements'', JArray [JUnsigned 3])]])]])]]\<rparr>"

definition example_text :: text_env where
  "example_text = \<lparr>strtod = (\<lambda>s. (0, False, 0)), reserve_limit = 1000\<rparr>"

definition copy_env :: "bytes \<Rightarrow> arch_item list replay_env" where
  "copy_env trace = \<lparr>rv_archive = list_in, rv_fs = copy_fs trace, rv_host_le = True, rv_text = example_text, rv_word_limit = 10\<rparr>"

definition copy_run :: run_env where
  "copy_run = \<lparr>rn_backend = exact_backend, rn_disable_frees = True, rn_free_order = [], rn_outputs_open = True,
     rn_context_ok = True, rn_probes_written = True\<rparr>"

definition copy_index :: ProjectIndex where
  "copy_index = \<lparr>px_ring_dim = 2, px_trace_file = ''t.fhex'', px_prog = ''t''\<rparr>"

lemma copy_project_index: "read_project_index (rv_fs (copy_env trace)) ''p'' = Inr (Some copy_index)"
  by (simp add: copy_env_def copy_fs_def read_project_index_def path_append_def json_contains_def json_at_def json_value_def
      json_u64_def json_string_def copy_index_def) code_simp

lemma copy_trace_reads:
  "\<exists>trace res. project_trace (copy_env trace) ''p'' copy_index = Inr res \<and> rr_ok res \<and>
     (\<exists>l. instructions (rr_program res) = [copy_inst\<lparr>line_number := l\<rparr>])"
proof -
  have a: "spec_valid kFhetchSpec" "wf_spec kFhetchSpec" "short_strings (metadata copy_program)"
    "list_all canonical_inst (instructions copy_program)"
    by (simp_all add: spec_valid_def wf_spec_def kFhetchSpec_def date_known_def short_strings_def copy_inst_def
        copy_program_def Program_init_def TraceMetadata_init_def canonical_inst_def Instruction_init_def
        imm_fields_def fh_operand_form_simps fh_opcode_has_operands_iff)
  have b: "length (build_metadata True (binary_metadata copy_program) kFhetchSpec) < 2 ^ 32"
    by (simp add: build_metadata_eq meta_entries_def str_entry_def u64_entry_def kFhetchSpec_def
        copy_program_def Program_init_def binary_metadata_def TraceMetadata_init_def)
  have c: "length (modulus_table copy_program) < 2 ^ 32" "length (instructions copy_program) < 2 ^ 64"
    by (simp_all add: copy_program_def Program_init_def)
  obtain bs res where bs: "write_fhetch_binary True True True copy_program kFhetchSpec = Inr (True, Some bs)"
    "read_fhetch_binary True (Some bs) = Inr res" "rr_ok res"
    "list_all2 (\<lambda>a b. b = a\<lparr>line_number := line_number b\<rparr>) (instructions copy_program) (instructions (rr_program res))"
    using binary_file_roundtrip [OF a b c, of True True] by blast
  have "length bs \<ge> 4 \<and> take 4 bs = kFhexMagic"
    using bs(1) by (auto simp: write_fhetch_binary_def write_fhetch_program_def encode_eq [OF a(1)] kFhexMagic_def)
  then have "read_fhetch_file True example_text ''p/t.fhex'' (Some bs) = Inr res"
    using bs(2) by (simp add: read_fhetch_file_def)
  then have "project_trace (copy_env bs) ''p'' copy_index = Inr res"
    by (simp add: project_trace_def copy_env_def copy_fs_def copy_index_def path_append_def)
  moreover obtain i where "instructions (rr_program res) = [i]" "i = copy_inst\<lparr>line_number := line_number i\<rparr>"
    using bs(4) by (auto simp: copy_program_def Program_init_def list_all2_Cons1)
  ultimately show ?thesis using bs(3) by metis
qed

lemma copy_input_loads:
  "load_input_bin list_in sink (Some (ciphertext_body list_out copy_input [])) [5] st = (True, sink 5 [10, 20] 97 st)"
proof -
  have n: "length copy_input < 2 ^ 32" "length [5 :: u64] = length (concat (map snd copy_input))" by (simp_all add: copy_input_def)
  have "oa_empty list_out = []" by (simp add: list_out_def)
  then show ?thesis
    using ciphertext_file_reloads [OF list_archive_laws n, of sink st] by (simp add: copy_input_def tower_sink_def)
qed

lemma copy_loads:
  "load_and (load_source_inputs (copy_env trace) ''p'' ''t'' sink) (load_source_keys (copy_env trace) ''p'' ''t'' sink) st =
     (Inr True, sink 5 [10, 20] 97 st)"
proof -
  have ids: "read_ids True 10 (Some (addr_ids_bytes True [5])) = Inr [5]" by (rule read_ids_bytes) simp_all
  have e: "load_index_entry (copy_env trace) ''p'' sink (JObject [(''bin_file'', JString ''b''), (''ids_file'', JString ''i'')]) st =
      (Inr True, sink 5 [10, 20] 97 st)"
    by (simp add: load_index_entry_def json_value_def json_string_def copy_env_def copy_fs_def path_append_def
        load_ids_and_bin_def ids copy_input_loads)
  then have 1: "load_source_inputs (copy_env trace) ''p'' ''t'' sink st = (Inr True, sink 5 [10, 20] 97 st)"
    by (simp add: load_source_inputs_def copy_env_def copy_fs_def path_append_def json_contains_def json_at_def json_items_def)
  have 2: "load_source_keys (copy_env trace) ''p'' ''t'' sink st' = (Inr True, st')" for st'
    by (simp add: load_source_keys_def load_and_def load_with_def copy_env_def copy_fs_def path_append_def)
  show ?thesis by (simp add: load_and_def 1 2)
qed

definition copy_loaded :: "Program \<Rightarrow> SimImpl" where
  "copy_loaded p = store_polynomial_owned 5 [10, 20] 97 (loaded 2 p)"

lemma classify_copy: "classify_uses (copy_inst\<lparr>line_number := l\<rparr>) = \<lparr>iu_write = 3, iu_writes = True, iu_reads = [5]\<rparr>"
  by (simp add: classify_uses_def copy_inst_def Instruction_init_def)

lemma copy_populates:
  assumes "instructions p = [copy_inst\<lparr>line_number := l\<rparr>]"
  shows "populate_inputs (copy_env trace) ''p'' ''t'' (loaded 2 p) = (Inr True, copy_loaded p)"
proof -
  have "set (get_read_before_write_addresses (loaded 2 p)) = {5}"
    unfolding get_read_before_write_addresses_def loaded_def by (simp add: assms classify_copy)
  then show ?thesis
    by (simp add: populate_inputs_def copy_loads populate_sink_def copy_loaded_def)
qed

lemma copy_runs:
  assumes "instructions p = [copy_inst\<lparr>line_number := l\<rparr>]"
  shows "\<exists>r sim. sim_run exact_backend (set_live_out_addresses [3] (copy_loaded p)\<lparr>im_free_after := []\<rparr>) = Inr (r, sim) \<and>
    sim_errors r = 0"
proof -
  have g: "get_or_zero 5 (s\<lparr>im_memory := set_owned 5 [10, 20] 97 m\<rparr>) = ([10, 20], s\<lparr>im_memory := set_owned 5 [10, 20] 97 m\<rparr>)"
    if "mem_ring_dim m = 2" for s m
    using that by (simp add: get_or_zero_def set_owned_def mem_is_initialized_def mem_put_def mem_get_def vec_resize_def numeral_2_eq_2)
  let ?s = "set_live_out_addresses [3] (copy_loaded p)\<lparr>im_free_after := [], im_error_count := 0\<rparr>"
  have s: "?s = ?s\<lparr>im_memory := set_owned 5 [10, 20] 97 (set_ring_dim 2 Memory_init)\<rparr>"
    by (simp add: copy_loaded_def loaded_def set_live_out_addresses_def set_ring_dimension_def store_polynomial_owned_def SimImpl_init_def)
  have g5: "get_or_zero 5 ?s = ([10, 20], ?s)"
    by (subst (1 2) s) (rule g, simp add: set_ring_dim_def)
  have rd: "im_ring_dim ?s = 2" "im_trace ?s = p" by (simp_all add: copy_loaded_def loaded_def set_live_out_addresses_def set_ring_dimension_def
      store_polynomial_owned_def)
  have "\<exists>m. exec_instruction exact_backend (copy_inst\<lparr>line_number := l\<rparr>) ?s = Inr (True, ?s\<lparr>im_memory := m\<rparr>)"
    using g5 rd
    by (simp add: exec_instruction_def copy_inst_def Instruction_init_def exec_addps_def resolve_modulus_def imm_or_0_def
        wrong_size_def store_result_def split_beta) (rule exI, rule refl)
  then show ?thesis using rd(2)
    by (auto simp: sim_run_def execute_def assms copy_loaded_def loaded_def set_live_out_addresses_def set_ring_dimension_def
        store_polynomial_owned_def)
qed

lemma copy_outputs: "read_output_probes (rv_fs (copy_env trace)) ''p'' ''t'' = Inr (Some [(''o'', [3])])"
  by (simp add: read_output_probes_def copy_env_def copy_fs_def path_append_def json_contains_def json_at_def json_items_def
      read_output_entry_def json_value_def json_string_def poly_addresses_def json_u64_def List.map_filter_def)

lemma copy_replays:
  "\<exists>trace res doc sim l. project_trace (copy_env trace) ''p'' copy_index = Inr res \<and>
     instructions (rr_program res) = [copy_inst\<lparr>line_number := l\<rparr>] \<and>
     run_local_replay_from_project (copy_env trace) copy_run ''p'' = (Inr (True, Some doc), sim)"
proof -
  obtain trace res l where t: "project_trace (copy_env trace) ''p'' copy_index = Inr res" "rr_ok res"
    "instructions (rr_program res) = [copy_inst\<lparr>line_number := l\<rparr>]"
    using copy_trace_reads by blast
  let ?p = "rr_program res"
  have lt: "load_trace (project_trace (copy_env trace) ''p'' copy_index) (set_ring_dimension 2 SimImpl_init) = Inr (True, loaded 2 ?p)"
    using t by (simp add: load_trace_def loaded_def)
  obtain r sim where run: "sim_run exact_backend (set_live_out_addresses [3] (copy_loaded ?p)\<lparr>im_free_after := []\<rparr>) = Inr (r, sim)"
    "sim_errors r = 0"
    using copy_runs [OF t(3)] by blast
  have "run_populated copy_run [(''o'', [3])] (copy_loaded ?p) = (Inr (True, Some (local_outputs_json [(''o'', [3])] sim)), sim)"
    using run by (simp add: run_populated_def copy_run_def compute_liveness_def finish_replay_def)
  moreover have "pf_is_directory (rv_fs (copy_env trace)) ''p''" by (simp add: copy_env_def copy_fs_def)
  ultimately have "run_local_replay_from_project (copy_env trace) copy_run ''p'' =
      (Inr (True, Some (local_outputs_json [(''o'', [3])] sim)), sim)"
    using lt copy_project_index [of trace] copy_populates [OF t(3)] copy_outputs [of trace]
    by (simp add: run_local_replay_from_project_def project_trace_def copy_index_def Let_def)
  then show ?thesis using t(1,3) by blast
qed

theorem local_replay_never_zero_fills_witness:
  "\<exists>trace doc sim. run_local_replay_from_project (copy_env trace) copy_run ''p'' = (Inr (True, Some doc), sim) \<and>
     im_warned_uninit sim = {}"
proof -
  obtain trace res doc sim l where t: "project_trace (copy_env trace) ''p'' copy_index = Inr res"
    "instructions (rr_program res) = [copy_inst\<lparr>line_number := l\<rparr>]"
    "run_local_replay_from_project (copy_env trace) copy_run ''p'' = (Inr (True, Some doc), sim)"
    using copy_replays by blast
  have "\<forall>inst \<in> set (instructions (rr_program res)). opcode inst \<le> FH_HALT"
    unfolding t(2) by (simp add: copy_inst_def)
  from local_replay_never_zero_fills [OF t(3) copy_project_index t(1) this] show ?thesis using t(3) by blast
qed

theorem local_replay_outputs_are_the_traces_witness:
  "\<exists>trace sim doc sim0 r t. run_local_replay_from_project (copy_env trace) copy_run ''p'' = (Inr (True, Some doc), sim) \<and>
     execute exact_backend (sim0\<lparr>im_live_out := {3}, im_free_after := []\<rparr>) = Inr (r, t) \<and> sim_errors r = 0 \<and>
     get_polynomial 3 sim = get_polynomial 3 t \<and> doc = local_outputs_json [(''o'', [3])] sim"
proof -
  obtain trace res doc sim where t: "project_trace (copy_env trace) ''p'' copy_index = Inr res"
    "run_local_replay_from_project (copy_env trace) copy_run ''p'' = (Inr (True, Some doc), sim)"
    using copy_replays by blast
  have d: "unat (px_ring_dim copy_index) = 2 ^ 1" by (simp add: copy_index_def)
  have e: "(1 :: nat) \<le> 31" by simp
  obtain sim0 outputs r u where w: "read_output_probes (rv_fs (copy_env trace)) ''p'' (px_prog copy_index) = Inr (Some outputs)"
    "execute (rn_backend copy_run) (sim0\<lparr>im_live_out := set (concat (map snd outputs)), im_free_after := []\<rparr>) = Inr (r, u)"
    "sim_errors r = 0" "doc = local_outputs_json outputs sim"
    "\<forall>(nm, addrs) \<in> set outputs. \<forall>a \<in> set addrs. get_polynomial a sim = get_polynomial a u \<and>
       (sim_is_initialized a u \<longrightarrow> get_modulus a sim = get_modulus a u)"
    using local_replay_outputs_are_the_traces [OF t(2) copy_project_index t(1) d e] by (elim exE conjE) (rule that)
  have o: "outputs = [(''o'', [3])]" using w(1) copy_outputs [of trace] by (simp add: copy_index_def)
  have be: "rn_backend copy_run = exact_backend" by (simp add: copy_run_def)
  show ?thesis
    by (rule exI [of _ trace], rule exI [of _ sim], rule exI [of _ doc], rule exI [of _ sim0], rule exI [of _ r], rule exI [of _ u])
      (use w(2-5) t(2) in \<open>simp add: o be\<close>)
qed

section \<open>A replay inside the process\<close>

definition copy_host :: replay_host where
  "copy_host =
     \<lparr>rh_cwd = ''c'', rh_exists = (\<lambda>p. False), rh_json = Map.empty, rh_trace = (\<lambda>p. Inl RuntimeError),
      rh_getenv = Map.empty, rh_spawn = (\<lambda>a. - 1), rh_has_probes = (\<lambda>p. False), rh_refresh = None, rh_parents = [],
      rh_ndebug = True, rh_backend = exact_backend, rh_disable_frees = True, rh_free_order = [], rh_opens = (\<lambda>p. True)\<rparr>"

definition copy_session :: "unit CompilerImpl" where
  "copy_session = CompilerImpl_init\<lparr>cc_captured := Captured_init\<lparr>captured_outputs :=
     [\<lparr>co_name = ''o'', co_kind = SRP, co_addr_ids = [3], co_moduli = [97], co_element_starts = []\<rparr>]\<rparr>\<rparr>"

theorem replay_outputs_are_the_traces_witness:
  "\<exists>doc sim r t. run_replay copy_host copy_session (copy_loaded copy_program) = (Inr (True, Some doc), sim) \<and>
     execute exact_backend (copy_loaded copy_program\<lparr>im_live_out := {3}, im_free_after := []\<rparr>) = Inr (r, t) \<and>
     replay_outputs_json (\<lambda>a. get_polynomial a t) (captured_outputs (cc_captured copy_session)) = Inr doc"
proof -
  have i: "instructions copy_program = [copy_inst\<lparr>line_number := 0\<rparr>]"
    by (simp add: copy_program_def copy_inst_def Instruction_init_def)
  obtain r sim where run: "sim_run exact_backend (set_live_out_addresses [3] (copy_loaded copy_program)\<lparr>im_free_after := []\<rparr>) = Inr (r, sim)"
    "sim_errors r = 0"
    using copy_runs [OF i] by blast
  have ok: "ring_ok (copy_loaded copy_program)"
    by (simp add: ring_ok_def copy_loaded_def loaded_def store_polynomial_owned_def set_ring_dimension_def set_ring_dim_def set_owned_def)
      (rule exI [of _ 1], simp)
  have l: "live_out_addresses (cc_captured copy_session) = [3]" by (simp add: live_out_addresses_def copy_session_def)
  have h: "rh_backend copy_host = exact_backend" "rh_disable_frees copy_host" "rh_opens copy_host p" for p
    by (simp_all add: copy_host_def)
  have o: "captured_outputs (cc_captured copy_session) =
      [\<lparr>co_name = ''o'', co_kind = SRP, co_addr_ids = [3], co_moduli = [97], co_element_starts = []\<rparr>]"
    by (simp add: copy_session_def)
  obtain doc where "run_replay copy_host copy_session (copy_loaded copy_program) = (Inr (True, Some doc), sim)"
    using run by (simp add: run_replay_def l h compute_liveness_def write_replay_outputs_def o Let_def
        replay_outputs_json_def replay_output_json_def)
  from replay_outputs_are_the_traces [OF this ok] this show ?thesis unfolding l by (auto simp: h)
qed

end
