(* ===== verification/FacadeProps.thy ===== *)
theory FacadeProps
  imports FacadeFiles ProbeAlloc
begin

text \<open>
  What the facade leaves behind: the captured records and the files of a tagged object describe the same
  polynomials, at the addresses the probes use for them, so that a worker that loads the files stores
  what the replay inside the process stores; and a result is served only when every polynomial of it
  was computed.
\<close>

section \<open>Capturing polynomials\<close>

abbreviation cl_captured :: "'h Client \<Rightarrow> Captured" where
  "cl_captured c \<equiv> cc_captured (w_impl (cl_world c))"

abbreviation cl_streaming :: "'h Client \<Rightarrow> bool" where
  "cl_streaming c \<equiv> cc_input_streaming (w_impl (cl_world c))"

definition addresses :: "'h Client \<Rightarrow> native_poly list \<Rightarrow> u64 list" where
  "addresses c ps = map (\<lambda>p. lookup_fhetch_address (np_id p) (cl_probes c)) ps"

definition element_of :: "bool \<Rightarrow> u64 \<times> tower \<Rightarrow> PolyElement" where
  "element_of streaming at = input_element streaming (fst at) (twr_modulus (snd at)) (twr_values (snd at))"

text \<open>
  What the capture of \<open>ps\<close> under \<open>nm\<close> does to the client: addresses are only added, every polynomial has
  one and is pinned, and the record of the name is extended by the polynomials in order.
\<close>

definition captures :: "string \<Rightarrow> native_poly list \<Rightarrow> 'h Client \<Rightarrow> 'h Client \<Rightarrow> bool" where
  "captures nm ps c c' \<longleftrightarrow>
     alloc_ok (cl_probes c') \<and> capture_ok (cl_captured c') \<and>
     pr_address_map (cl_probes c) \<subseteq>\<^sub>m pr_address_map (cl_probes c') \<and>
     np_id ` set ps \<subseteq> dom (pr_address_map (cl_probes c')) \<and>
     pr_pinned (cl_probes c') = np_id ` set ps \<union> pr_pinned (cl_probes c) \<and>
     unat (pr_next_addr (cl_probes c')) \<le> unat (pr_next_addr (cl_probes c)) + length ps \<and>
     w_impl (cl_world c') = (w_impl (cl_world c))\<lparr>cc_captured := cl_captured c'\<rparr> \<and>
     input_view (cl_captured c') = (input_view (cl_captured c))(nm :=
       fold (\<lambda>at. push_tagged SRP (element_of (cl_streaming c) at)) (zip (addresses c' ps) (map np_tower ps))
         (input_view (cl_captured c) nm))"

lemma captures_Nil:
  "alloc_ok (cl_probes c) \<Longrightarrow> capture_ok (cl_captured c) \<Longrightarrow> captures nm [] c c"
  by (simp add: captures_def addresses_def)

lemma lookup_mono:
  assumes "pr_address_map p \<subseteq>\<^sub>m pr_address_map p'" "i \<in> dom (pr_address_map p)"
  shows "lookup_fhetch_address i p' = lookup_fhetch_address i p"
  using assms by (auto simp: lookup_fhetch_address_def map_le_def split: option.splits)

lemma on_captured_Inr:
  "on_captured f c = Inr c' \<Longrightarrow> \<exists>cap. f (cl_captured c) = Inr cap \<and> c' = client_impl (\<lambda>i. i\<lparr>cc_captured := cap\<rparr>) c"
  by (auto simp: on_captured_def res_bind_eq_Inr)

lemma client_impl_sel [simp]:
  "cl_probes (client_impl f c) = cl_probes c" "w_impl (cl_world (client_impl f c)) = f (w_impl (cl_world c))"
  by (simp_all add: client_impl_def on_impl_def)

lemma pin_ensure:
  assumes ok: "alloc_ok (cl_probes c)" "room 1 (cl_probes c)"
    and run: "ensure_fhetch_address i (pin_openfhe_id i c) = (a, c')"
  shows "a \<noteq> - 1" "alloc_ok (cl_probes c')" "cl_world c' = cl_world c"
    "pr_address_map (cl_probes c) \<subseteq>\<^sub>m pr_address_map (cl_probes c')"
    "pr_address_map (cl_probes c') i = Some a" "insert i (pr_pinned (cl_probes c)) = pr_pinned (cl_probes c')"
    "unat (pr_next_addr (cl_probes c')) \<le> unat (pr_next_addr (cl_probes c)) + 1"
proof -
  obtain p' where m: "map_address i (cl_probes (pin_openfhe_id i c)) = (a, p')"
    using run by (auto simp: ensure_fhetch_address_def split: prod.splits)
  have c': "c' = (pin_openfhe_id i c)\<lparr>cl_probes := p'\<rparr>" using run m by (simp add: ensure_fhetch_address_def)
  have r: "room 1 (cl_probes (pin_openfhe_id i c))" using ok(2) by (simp add: pin_openfhe_id_def room_def)
  have t: "maps_to (cl_probes (pin_openfhe_id i c)) i a p'"
    by (rule map_address_maps_to [OF alloc_ok_pin [OF ok(1)] r m])
  then show "alloc_ok (cl_probes c')" "cl_world c' = cl_world c"
    "pr_address_map (cl_probes c') i = Some a" "insert i (pr_pinned (cl_probes c)) = pr_pinned (cl_probes c')"
    "unat (pr_next_addr (cl_probes c')) \<le> unat (pr_next_addr (cl_probes c)) + 1"
    by (simp_all add: c' maps_to_def pin_openfhe_id_def)
  show "pr_address_map (cl_probes c) \<subseteq>\<^sub>m pr_address_map (cl_probes c')"
    using t by (auto simp: c' maps_to_def pin_openfhe_id_def map_le_def)
  have "pr_address_map p' i = Some a" using t by (simp add: maps_to_def)
  then have "a \<in> ran (pr_address_map p')" by (rule ranI)
  then have "a < pr_next_addr p'" using t by (simp add: maps_to_def alloc_ok_def)
  then show "a \<noteq> - 1" using word_n1_ge [of "pr_next_addr p'"] by auto
qed

lemma capture_poly_spec:
  assumes ok: "alloc_ok (cl_probes c)" "room (Suc n) (cl_probes c)" "capture_ok (cl_captured c)"
    and run: "capture_poly env nm p (cap, c) = Inr (cap', c')"
  shows "cap' = cap @ [(lookup_fhetch_address (np_id p) (cl_probes c'), np_tower p)]" "captures nm [p] c c'"
    "room n (cl_probes c')"
proof -
  obtain a c1 where e: "ensure_fhetch_address (np_id p) (pin_openfhe_id (np_id p) c) = (a, c1)" by fastforce
  note pin = pin_ensure [OF ok(1) room_mono [OF ok(2), of 1] e]
  obtain c2 where 2: "on_captured (store_input_element (fe_ndebug env) (cl_streaming c1) nm SRP False a
      (twr_modulus (np_tower p)) (twr_values (np_tower p))) c1 = Inr c2" "cap' = cap @ [(a, np_tower p)]" "c' = c2"
    using run e pin(1) by (auto simp: capture_poly_def res_bind_eq_Inr)
  obtain cp where cp: "store_input_element (fe_ndebug env) (cl_streaming c1) nm SRP False a
      (twr_modulus (np_tower p)) (twr_values (np_tower p)) (cl_captured c1) = Inr cp"
    "c' = client_impl (\<lambda>i. i\<lparr>cc_captured := cp\<rparr>) c1"
    using on_captured_Inr [OF 2(1)] 2(3) by blast
  have w: "cl_world c1 = cl_world c" using pin(3) by simp
  have l: "lookup_fhetch_address (np_id p) (cl_probes c') = a" using pin(5) cp(2) by (simp add: lookup_fhetch_address_def)
  then show "cap' = cap @ [(lookup_fhetch_address (np_id p) (cl_probes c'), np_tower p)]" using 2(2) by simp
  have v: "input_view cp = (input_view (cl_captured c))(nm := push_tagged SRP (element_of (cl_streaming c) (a, np_tower p))
      (input_view (cl_captured c) nm))"
    using store_input_view [OF ok(3), of "fe_ndebug env" "cl_streaming c1" nm SRP False a] cp(1) w
    by (auto simp: fun_eq_iff element_of_def)
  have "capture_ok cp" using store_input_ok [OF ok(3)] cp(1) w by simp
  then show "captures nm [p] c c'"
    using pin w l v cp(2) by (auto simp: captures_def addresses_def)
  show "room n (cl_probes c')" using ok(2) pin(7) cp(2) by (simp add: room_def)
qed

lemma captures_impl:
  assumes "captures nm ps c c'"
  shows "w_impl (cl_world c') = (w_impl (cl_world c))\<lparr>cc_captured := cl_captured c'\<rparr>" "cl_streaming c' = cl_streaming c"
proof -
  show w: "w_impl (cl_world c') = (w_impl (cl_world c))\<lparr>cc_captured := cl_captured c'\<rparr>"
    using assms unfolding captures_def by blast
  show "cl_streaming c' = cl_streaming c" by (subst w) simp
qed

lemma captures_trans:
  assumes 1: "captures nm ps c c1" and 2: "captures nm qs c1 c2"
  shows "captures nm (ps @ qs) c c2"
proof -
  have m: "pr_address_map (cl_probes c1) \<subseteq>\<^sub>m pr_address_map (cl_probes c2)"
    "np_id ` set ps \<subseteq> dom (pr_address_map (cl_probes c1))" using 1 2 by (simp_all add: captures_def)
  have "lookup_fhetch_address (np_id p) (cl_probes c2) = lookup_fhetch_address (np_id p) (cl_probes c1)" if "p \<in> set ps" for p
    by (rule lookup_mono [OF m(1)]) (use m(2) that in blast)
  then have a: "addresses c2 ps = addresses c1 ps" by (simp add: addresses_def)
  have z: "zip (addresses c2 (ps @ qs)) (map np_tower (ps @ qs)) =
      zip (addresses c1 ps) (map np_tower ps) @ zip (addresses c2 qs) (map np_tower qs)"
    by (simp add: a [symmetric]) (simp add: addresses_def)
  have w: "w_impl (cl_world c2) = (w_impl (cl_world c))\<lparr>cc_captured := cl_captured c2\<rparr>"
    by (subst captures_impl(1) [OF 2], subst captures_impl(1) [OF 1]) simp
  have v: "input_view (cl_captured c2) = (input_view (cl_captured c))(nm :=
       fold (\<lambda>at. push_tagged SRP (element_of (cl_streaming c) at)) (zip (addresses c2 (ps @ qs)) (map np_tower (ps @ qs)))
         (input_view (cl_captured c) nm))"
    using 1 2 unfolding z captures_impl(2) [OF 1] captures_def by simp
  have d: "np_id ` set (ps @ qs) \<subseteq> dom (pr_address_map (cl_probes c2))"
    using m map_le_implies_dom_le [OF m(1)] 2 unfolding captures_def by (simp add: image_Un)
  have "pr_pinned (cl_probes c2) = np_id ` set (ps @ qs) \<union> pr_pinned (cl_probes c)"
    using 1 2 unfolding captures_def by (simp add: image_Un Un_ac)
  moreover have "pr_address_map (cl_probes c) \<subseteq>\<^sub>m pr_address_map (cl_probes c2)"
    by (rule map_le_trans [OF _ m(1)]) (use 1 in \<open>simp add: captures_def\<close>)
  moreover have "alloc_ok (cl_probes c2)" "capture_ok (cl_captured c2)" using 2 by (simp_all add: captures_def)
  moreover have "unat (pr_next_addr (cl_probes c2)) \<le> unat (pr_next_addr (cl_probes c)) + length (ps @ qs)"
    using 1 2 by (simp add: captures_def)
  ultimately show ?thesis
    unfolding captures_def using v w d by (intro conjI) assumption+
qed

lemma capture_polys_spec:
  assumes "alloc_ok (cl_probes c)" "room (length ps) (cl_probes c)" "capture_ok (cl_captured c)"
    and "capture_polys env nm ps (cap, c) = Inr (cap', c')"
  shows "cap' = cap @ zip (addresses c' ps) (map np_tower ps) \<and> captures nm ps c c'"
  using assms
proof (induction ps arbitrary: cap c)
  case Nil
  then show ?case by (simp add: captures_Nil addresses_def)
next
  case (Cons p ps)
  obtain cap1 c1 where 1: "capture_poly env nm p (cap, c) = Inr (cap1, c1)"
    "capture_polys env nm ps (cap1, c1) = Inr (cap', c')"
    using Cons.prems(4) by (auto simp: res_bind_eq_Inr)
  have r: "room (Suc (length ps)) (cl_probes c)" using Cons.prems(2) by simp
  note s = capture_poly_spec [OF Cons.prems(1) r Cons.prems(3) 1(1)]
  have ok1: "alloc_ok (cl_probes c1)" "capture_ok (cl_captured c1)" using s(2) by (simp_all add: captures_def)
  have i: "cap' = cap1 @ zip (addresses c' ps) (map np_tower ps)" "captures nm ps c1 c'"
    using Cons.IH [OF ok1(1) s(3) ok1(2) 1(2)] by simp_all
  have "lookup_fhetch_address (np_id p) (cl_probes c') = lookup_fhetch_address (np_id p) (cl_probes c1)"
    by (rule lookup_mono) (use s(2) i(2) in \<open>simp_all add: captures_def\<close>)
  then show ?case
    using captures_trans [OF s(2) i(2)] i(1) s(1) by (simp add: addresses_def)
qed

text \<open>A name that is new, outside streaming: the record holds the polynomials in order.\<close>

lemma fold_push_tagged:
  "fold (\<lambda>x. push_tagged SRP (f x)) xs (Some (SRP, es)) = Some (SRP, es @ map f xs)"
  by (induction xs arbitrary: es) (simp_all add: push_tagged_def)

lemma captures_new:
  assumes "captures nm ps c c'" "input_view (cl_captured c) nm = None" "ps \<noteq> []"
  shows "input_view (cl_captured c') nm =
    Some (SRP, map (element_of (cl_streaming c)) (zip (addresses c' ps) (map np_tower ps)))"
proof -
  obtain x xs where "zip (addresses c' ps) (map np_tower ps) = x # xs"
    using assms(3) by (cases ps) (simp_all add: addresses_def)
  then show ?thesis
    using assms(1,2) by (simp add: captures_def fold_push_tagged push_tagged_def)
qed

section \<open>Files\<close>

lemma write_addr_ids_read:
  assumes "fe_opens env path" "length ids \<le> fe_word_limit env" "length ids < 2 ^ 64"
  shows "\<exists>d'. write_addr_ids env path ids d = (fe_good env path, d') \<and> read_addr_ids env path d' = Inr ids \<and>
    dk_bins d' = dk_bins d"
  using assms by (simp add: write_addr_ids_def read_addr_ids_def read_ids_bytes)

lemma read_addr_ids_cong: "dk_ids d = dk_ids d' \<Longrightarrow> read_addr_ids env path d = read_addr_ids env path d'"
  by (simp add: read_addr_ids_def)

lemma write_input_files_read:
  assumes "fe_opens env (project_file env c (''.input_'' @ nm @ ''.ids''))" "fe_good env (project_file env c (''.input_'' @ nm @ ''.ids''))"
    "fe_opens env (project_file env c (''.input_'' @ nm @ ''.bin''))"
    and "length ids \<le> fe_word_limit env" "length ids < 2 ^ 64"
    and w: "write_input_files env c nm body ids d = (ok, d')"
  shows "read_addr_ids env (project_file env c (''.input_'' @ nm @ ''.ids'')) d' = Inr ids \<and>
    dk_bins d' (project_file env c (''.input_'' @ nm @ ''.bin'')) = Some (body (oa_empty (fe_out env)))"
proof -
  obtain d1 where 1: "write_addr_ids env (project_file env c (''.input_'' @ nm @ ''.ids'')) ids d =
      (fe_good env (project_file env c (''.input_'' @ nm @ ''.ids'')), d1)"
    "read_addr_ids env (project_file env c (''.input_'' @ nm @ ''.ids'')) d1 = Inr ids"
    using write_addr_ids_read [OF assms(1,4,5), of d] by blast
  have "d' = d1\<lparr>dk_bins := (dk_bins d1)(project_file env c (''.input_'' @ nm @ ''.bin'') \<mapsto> body (oa_empty (fe_out env)))\<rparr>"
    using w 1(1) assms(2,3) by (simp add: write_input_files_def Let_def)
  then have "dk_ids d' = dk_ids d1" "dk_bins d' (project_file env c (''.input_'' @ nm @ ''.bin'')) = Some (body (oa_empty (fe_out env)))"
    by simp_all
  then show ?thesis using 1(2) read_addr_ids_cong [of d' d1] by simp
qed

text \<open>The captured elements, stored one after the other.\<close>

definition store_elements :: "'st sink \<Rightarrow> PolyElement list \<Rightarrow> 'st \<Rightarrow> 'st" where
  "store_elements sink = fold (\<lambda>e. sink (pe_addr_id e) (pe_values e) (pe_modulus e))"

lemma elements_sink:
  "fold (tower_sink sink) ats st = store_elements sink (map (element_of False) ats) st"
  by (induction ats arbitrary: st) (auto simp: store_elements_def tower_sink_def element_of_def input_element_def)

lemma element_facts:
  assumes "map snd ats = map np_tower ps"
  shows "map pe_addr_id (map (element_of False) ats) = map fst ats"
    "map pe_modulus (map (element_of False) ats) = map (\<lambda>p. twr_modulus (np_tower p)) ps"
    "map pe_values (map (element_of False) ats) = map (\<lambda>p. twr_values (np_tower p)) ps"
  using arg_cong [OF assms, of "map twr_modulus"] arg_cong [OF assms, of "map twr_values"]
  by (simp_all add: element_of_def input_element_def comp_def)

text \<open>A facade that can take \<open>n\<close> more polynomials.\<close>

definition facade_ready :: "nat \<Rightarrow> 'ao facade_env \<Rightarrow> ('h, 'ao) Facade \<Rightarrow> bool" where
  "facade_ready n env st \<longleftrightarrow> alloc_ok (cl_probes (fc_client st)) \<and> room n (cl_probes (fc_client st)) \<and>
     capture_ok (cl_captured (fc_client st)) \<and> \<not> cl_streaming (fc_client st) \<and> n \<le> fe_word_limit env"

definition files_open :: "'ao facade_env \<Rightarrow> string \<Rightarrow> string \<Rightarrow> bool" where
  "files_open env ids bin \<longleftrightarrow> fe_opens env ids \<and> fe_good env ids \<and> fe_opens env bin"

lemma room_bound: "room n p \<Longrightarrow> n < 2 ^ 64"
  by (simp add: room_def)

lemma project_file_cong:
  "w_impl (cl_world c') = (w_impl (cl_world c))\<lparr>cc_captured := x\<rparr> \<Longrightarrow> project_file env c' ext = project_file env c ext"
  by (simp add: project_file_def program_directory_def get_program_directory_def full_program_name_def)

abbreviation input_ids :: "'ao facade_env \<Rightarrow> ('h, 'ao) Facade \<Rightarrow> string \<Rightarrow> string" where
  "input_ids env st nm \<equiv> project_file env (fc_client st) (''.input_'' @ nm @ ''.ids'')"

abbreviation input_bin :: "'ao facade_env \<Rightarrow> ('h, 'ao) Facade \<Rightarrow> string \<Rightarrow> string" where
  "input_bin env st nm \<equiv> project_file env (fc_client st) (''.input_'' @ nm @ ''.bin'')"

lemma concat_dcrt_data: "concat (map snd (map dcrt_data ct)) = map np_tower (ciphertext_polys ct)"
  by (induction ct) (simp_all add: dcrt_data_def dcrt_towers_def ciphertext_polys_def)

lemma zip_back: "map snd ats = ts \<Longrightarrow> zip (map fst ats) ts = ats"
  using zip_map_fst_snd [of ats] by simp

text \<open>The capture and the files of an input, for any body.\<close>

lemma captured_input:
  assumes ready: "facade_ready (length ps) env st" and opens: "files_open env (input_ids env st nm) (input_bin env st nm)"
    and new: "input_view (cl_captured (fc_client st)) nm = None" "ps \<noteq> []"
    and run: "capture_polys env nm ps ([], fc_client st) = Inr (cap, c)"
    and w: "write_input_files env c nm body (map fst cap) (fc_disk st) = (ok, d)"
  shows "\<exists>ats. input_view (cl_captured c) nm = Some (SRP, map (element_of False) ats) \<and> captures nm ps (fc_client st) c \<and>
    map fst ats = addresses c ps \<and> map snd ats = map np_tower ps \<and>
    read_addr_ids env (input_ids env st nm) d = Inr (map fst ats) \<and>
    dk_bins d (input_bin env st nm) = Some (body (oa_empty (fe_out env)))"
proof -
  let ?ats = "zip (addresses c ps) (map np_tower ps)"
  have cp: "cap = ?ats" "captures nm ps (fc_client st) c"
    using capture_polys_spec [OF _ _ _ run] ready by (simp_all add: facade_ready_def)
  note im = captures_impl [OF cp(2)]
  have f: "map fst ?ats = addresses c ps" "map snd ?ats = map np_tower ps" by (simp_all add: addresses_def)
  have n: "length (map fst cap) \<le> fe_word_limit env" "length (map fst cap) < 2 ^ 64"
    using ready room_bound by (auto simp: cp(1) facade_ready_def addresses_def)
  have "input_view (cl_captured c) nm = Some (SRP, map (element_of False) ?ats)"
    using captures_new [OF cp(2) new] ready by (simp add: facade_ready_def)
  moreover have "read_addr_ids env (input_ids env st nm) d = Inr (map fst ?ats) \<and>
      dk_bins d (input_bin env st nm) = Some (body (oa_empty (fe_out env)))"
    using write_input_files_read [OF _ _ _ n w] opens unfolding project_file_cong [OF im(1)] files_open_def
    by (simp add: cp(1))
  ultimately show ?thesis using f cp(2) by blast
qed

section \<open>Tagged inputs\<close>

text \<open>
  The record of \<open>nm\<close> holds the polynomials \<open>ps\<close> in order, at the addresses the probes use for them; the
  address file reads back to these addresses, and loading the archive with them stores the elements.
\<close>

definition reloads ::
  "('ar option \<Rightarrow> u64 list \<Rightarrow> 'st \<Rightarrow> bool \<times> 'st) \<Rightarrow> ('ao \<Rightarrow> 'ar) \<Rightarrow> 'ao facade_env \<Rightarrow> 'st sink \<Rightarrow> 'st \<Rightarrow>
     string \<Rightarrow> string \<Rightarrow> string \<Rightarrow> native_poly list \<Rightarrow> ('h, 'ao) Facade \<Rightarrow> bool" where
  "reloads load opened env sink s nm ids bin ps st \<longleftrightarrow>
     (\<exists>es ao. input_view (cl_captured (fc_client st)) nm = Some (SRP, es) \<and>
        map pe_addr_id es = addresses (fc_client st) ps \<and>
        map pe_modulus es = map (\<lambda>p. twr_modulus (np_tower p)) ps \<and>
        map pe_values es = map (\<lambda>p. twr_values (np_tower p)) ps \<and>
        read_addr_ids env ids (fc_disk st) = Inr (map pe_addr_id es) \<and> dk_bins (fc_disk st) bin = Some ao \<and>
        load (Some (opened ao)) (map pe_addr_id es) s = (True, store_elements sink es s))"

lemma reloadsI:
  assumes "input_view (cl_captured (fc_client st)) nm = Some (SRP, map (element_of False) ats)"
    and "map fst ats = addresses (fc_client st) ps" and t: "map snd ats = map np_tower ps"
    and "read_addr_ids env ids (fc_disk st) = Inr (map fst ats)" "dk_bins (fc_disk st) bin = Some ao"
    and "load (Some (opened ao)) (map fst ats) s = (True, fold (tower_sink sink) ats s)"
  shows "reloads load opened env sink s nm ids bin ps st"
  unfolding reloads_def
  using assms element_facts [OF t] elements_sink [of sink ats s]
  by (intro exI [of _ "map (element_of False) ats"] exI [of _ ao]) (simp del: map_map)

text \<open>What comes later leaves it alone when it leaves the record and the files alone.\<close>

lemma reloads_frame:
  assumes r: "reloads load opened env sink s nm ids bin ps st"
    and m: "pr_address_map (cl_probes (fc_client st)) \<subseteq>\<^sub>m pr_address_map (cl_probes (fc_client st'))"
      "np_id ` set ps \<subseteq> dom (pr_address_map (cl_probes (fc_client st)))"
    and "input_view (cl_captured (fc_client st')) nm = input_view (cl_captured (fc_client st)) nm"
    and "dk_ids (fc_disk st') ids = dk_ids (fc_disk st) ids" "dk_bins (fc_disk st') bin = dk_bins (fc_disk st) bin"
  shows "reloads load opened env sink s nm ids bin ps st'"
proof -
  have "lookup_fhetch_address (np_id p) (cl_probes (fc_client st')) = lookup_fhetch_address (np_id p) (cl_probes (fc_client st))"
    if "p \<in> set ps" for p
    by (rule lookup_mono [OF m(1)]) (use m(2) that in blast)
  then have "addresses (fc_client st') ps = addresses (fc_client st) ps" by (simp add: addresses_def)
  then show ?thesis using r assms(4-6) by (simp add: reloads_def read_addr_ids_def)
qed

text \<open>
  C14: what \<open>tag_input\<close> leaves for a ciphertext, under a new name, outside streaming, with room for the
  addresses and files that open: the record of the name holds every polynomial of the ciphertext in
  order, at the address the probes use for its identity; the address file reads back to these addresses,
  and the worker that loads the archive with them stores exactly the captured elements.  Of the archives
  it takes that the input archive gives back what the output archive has written.
\<close>

theorem tagged_ciphertext_reloads:
  assumes laws: "archive_laws (fe_out env) ia opened left"
    and ready: "facade_ready (length (ciphertext_polys ct)) env st"
    and opens: "files_open env (input_ids env st nm) (input_bin env st nm)"
    and new: "input_view (cl_captured (fc_client st)) nm = None" "ciphertext_polys ct \<noteq> []" "length ct < 2 ^ 32"
    and run: "tag_input_ciphertext env nm ct source st = Inr st'"
  shows "reloads (load_input_bin ia sink) opened env sink s nm (input_ids env st nm) (input_bin env st nm)
    (ciphertext_polys ct) st'"
proof -
  obtain cap c where cap: "capture_polys env nm (ciphertext_polys ct) ([], fc_client st) = Inr (cap, c)"
    using run by (auto simp: tag_input_ciphertext_def res_bind_eq_Inr)
  obtain ok d where w: "write_input_files env c nm (ciphertext_body (fe_out env) (map dcrt_data ct)) (map fst cap) (fc_disk st) = (ok, d)"
    by fastforce
  obtain c2 where run': "(case source of None \<Rightarrow> Inr c | Some p \<Rightarrow> on_captured (set_input_source nm p (fe_mtime env p)) c) = Inr c2"
    "fc_client st' = c2" "fc_disk st' = d"
    using run cap w by (auto simp: tag_input_ciphertext_def write_ciphertext_input_files_def res_bind_eq_Inr)
  obtain ats where ats: "input_view (cl_captured c) nm = Some (SRP, map (element_of False) ats)" "captures nm (ciphertext_polys ct) (fc_client st) c"
    "map fst ats = addresses c (ciphertext_polys ct)" "map snd ats = map np_tower (ciphertext_polys ct)"
    "read_addr_ids env (input_ids env st nm) d = Inr (map fst ats)"
    "dk_bins d (input_bin env st nm) = Some (ciphertext_body (fe_out env) (map dcrt_data ct) (oa_empty (fe_out env)))"
    using captured_input [OF ready opens new(1,2) cap w] by blast
  have c2: "cl_probes c2 = cl_probes c" "input_view (cl_captured c2) nm = input_view (cl_captured c) nm"
    using run'(1) ats(2) set_input_source_view [of "cl_captured c"]
    by (auto simp: captures_def split: option.splits dest!: on_captured_Inr)
  have len: "length (map fst ats) = length (concat (map snd (map dcrt_data ct)))"
    unfolding concat_dcrt_data ats(4) [symmetric] by simp
  have z: "zip (map fst ats) (concat (map snd (map dcrt_data ct))) = ats"
    unfolding concat_dcrt_data by (rule zip_back [OF ats(4)])
  have n: "length (map dcrt_data ct) < 2 ^ 32" using new(3) by simp
  show ?thesis
    by (rule reloadsI [where ats = ats])
      (use ats c2 run' ciphertext_file_reloads [OF laws n len, of sink s, unfolded z] in \<open>simp_all add: addresses_def\<close>)
qed

text \<open>The two other kinds of inputs.\<close>

lemma tagged_plaintext_reloads:
  assumes laws: "archive_laws (fe_out env) ia opened left"
    and ready: "facade_ready (length (dp_polys el)) env st"
    and opens: "files_open env (input_ids env st nm) (input_bin env st nm)"
    and new: "input_view (cl_captured (fc_client st)) nm = None" "dp_polys el \<noteq> []"
    and run: "tag_input_plaintext env nm (Some el) st = Inr st'"
  shows "reloads (load_input_bin ia sink) opened env sink s nm (input_ids env st nm) (input_bin env st nm) (dp_polys el) st'"
proof -
  obtain cap c where cap: "capture_polys env nm (dp_polys el) ([], fc_client st) = Inr (cap, c)"
    using run by (auto simp: tag_input_plaintext_def res_bind_eq_Inr)
  obtain ok d where w: "write_input_files env c nm (plaintext_body (fe_out env) (dcrt_data el)) (map fst cap) (fc_disk st) = (ok, d)"
    by fastforce
  have st': "fc_client st' = c" "fc_disk st' = d"
    using run cap w by (auto simp: tag_input_plaintext_def write_plaintext_input_files_def res_bind_eq_Inr)
  obtain ats where ats: "input_view (cl_captured c) nm = Some (SRP, map (element_of False) ats)" "captures nm (dp_polys el) (fc_client st) c"
    "map fst ats = addresses c (dp_polys el)" "map snd ats = map np_tower (dp_polys el)"
    "read_addr_ids env (input_ids env st nm) d = Inr (map fst ats)"
    "dk_bins d (input_bin env st nm) = Some (plaintext_body (fe_out env) (dcrt_data el) (oa_empty (fe_out env)))"
    using captured_input [OF ready opens new cap w] by blast
  have t: "snd (dcrt_data el) = map snd ats" by (simp add: ats(4) dcrt_towers_def)
  have len: "length (map fst ats) = length (snd (dcrt_data el))" unfolding t by simp
  have z: "zip (map fst ats) (snd (dcrt_data el)) = ats" unfolding t by (rule zip_back [OF refl])
  show ?thesis
    by (rule reloadsI [where ats = ats])
      (use ats st' plaintext_file_reloads [OF laws len, of sink s, unfolded z] in \<open>simp_all add: addresses_def\<close>)
qed

section \<open>Keys\<close>

lemma capture_polys_append:
  "capture_polys env nm (ps @ qs) cc = res_bind (capture_polys env nm ps cc) (capture_polys env nm qs)"
  by (induction ps arbitrary: cc) (simp_all add: res_bind_def split: sum.splits)

lemma capture_keys_polys: "capture_keys env nm ks cc = capture_polys env nm (key_polys (map (normalize_key env) ks)) cc"
  by (induction ks arbitrary: cc)
    (simp_all add: key_polys_def normalize_key_def capture_dcrt_polys_def capture_polys_append res_bind_def split: sum.splits)

lemma key_towers_polys: "concat (map key_towers ks) = map np_tower (key_polys ks)"
proof -
  have "dcrt_towers = (\<lambda>d. map np_tower (dp_polys d))" by (rule ext) (simp add: dcrt_towers_def)
  then show ?thesis
    by (induction ks) (simp_all add: key_towers_def key_polys_def ciphertext_polys_def map_concat comp_def)
qed

abbreviation group_ids :: "'ao facade_env \<Rightarrow> ('h, 'ao) Facade \<Rightarrow> string \<Rightarrow> string" where
  "group_ids env st base \<equiv> project_file env (fc_client st) (''.'' @ base @ ''.ids'')"

abbreviation group_bin :: "'ao facade_env \<Rightarrow> ('h, 'ao) Facade \<Rightarrow> string \<Rightarrow> string" where
  "group_bin env st base \<equiv> project_file env (fc_client st) (''.'' @ base @ ''.bin'')"

definition keys_fit :: "eval_key list \<Rightarrow> bool" where
  "keys_fit ks \<longleftrightarrow> length ks < 2 ^ 32 \<and> (\<forall>k \<in> set ks. length (ek_a k) < 2 ^ 32 \<and> length (ek_b k) < 2 ^ 32)"

lemma keys_fit_normalize: "keys_fit (map (normalize_key env) ks) = keys_fit ks"
  by (simp add: keys_fit_def normalize_key_def)

text \<open>What a group of keys leaves, and what it leaves alone.\<close>

lemma set_key_start_frame:
  "cc_captured (set_key_start_addr_id k a i) = cc_captured i" "cc_input_streaming (set_key_start_addr_id k a i) = cc_input_streaming i"
  "cc_program_dir (set_key_start_addr_id k a i) = cc_program_dir i" "full_program_name (set_key_start_addr_id k a i) = full_program_name i"
  by (simp_all add: set_key_start_addr_id_def full_program_name_def)

definition leaves_alone :: "string \<Rightarrow> string \<Rightarrow> string \<Rightarrow> ('h, 'ao) Facade \<Rightarrow> ('h, 'ao) Facade \<Rightarrow> bool" where
  "leaves_alone nm ids bin st st' \<longleftrightarrow>
     pr_address_map (cl_probes (fc_client st)) \<subseteq>\<^sub>m pr_address_map (cl_probes (fc_client st')) \<and>
     (\<forall>n. n \<noteq> nm \<longrightarrow> input_view (cl_captured (fc_client st')) n = input_view (cl_captured (fc_client st)) n) \<and>
     (\<forall>p. p \<noteq> ids \<longrightarrow> dk_ids (fc_disk st') p = dk_ids (fc_disk st) p) \<and>
     (\<forall>p. p \<noteq> bin \<longrightarrow> dk_bins (fc_disk st') p = dk_bins (fc_disk st) p) \<and>
     cc_program_dir (fc_impl st') = cc_program_dir (fc_impl st) \<and> full_program_name (fc_impl st') = full_program_name (fc_impl st)"

lemma key_group_reloads:
  assumes laws: "archive_laws (fe_out env) ia opened left"
    and ps: "ps = key_polys (map (normalize_key env) keys)"
    and ready: "facade_ready (length ps) env st"
    and opens: "fe_opens env (group_ids env st base)" "fe_opens env (group_bin env st base)"
    and new: "input_view (cl_captured (fc_client st)) nm = None" "ps \<noteq> []" "keys_fit keys"
    and run: "tag_key_group env nm base key_type keys st = Inr st'"
  shows "reloads (load_key_bin ia sink) opened env sink s nm (group_ids env st base) (group_bin env st base) ps st'"
    "leaves_alone nm (group_ids env st base) (group_bin env st base) st st'"
    "np_id ` set ps \<subseteq> dom (pr_address_map (cl_probes (fc_client st')))"
    "facade_ready (length ps + m) env st \<Longrightarrow> facade_ready m env st'"
proof -
  obtain cap c where cap: "capture_polys env nm ps ([], fc_client st) = Inr (cap, c)"
    using run by (auto simp: tag_key_group_def res_bind_eq_Inr capture_keys_polys ps)
  let ?ats = "zip (addresses c ps) (map np_tower ps)" and ?oa = "fe_out env"
  let ?ao = "eval_keys_body ?oa (map (normalize_key env) keys) (oa_empty ?oa)"
  have cp: "cap = ?ats" "captures nm ps (fc_client st) c"
    using capture_polys_spec [OF _ _ _ cap] ready by (simp_all add: facade_ready_def)
  note im = captures_impl [OF cp(2)]
  have f: "map fst ?ats = addresses c ps" "map snd ?ats = map np_tower ps" by (simp_all add: addresses_def)
  have n: "length (map fst cap) \<le> fe_word_limit env" "length (map fst cap) < 2 ^ 64"
    using ready room_bound by (auto simp: cp(1) facade_ready_def addresses_def)
  obtain d1 where d1: "write_addr_ids env (group_ids env st base) (map fst cap) (fc_disk st) = (fe_good env (group_ids env st base), d1)"
    "read_addr_ids env (group_ids env st base) d1 = Inr (map fst cap)" "dk_bins d1 = dk_bins (fc_disk st)"
    using write_addr_ids_read [OF opens(1) n, of "fc_disk st"] by blast
  have k: "keys \<noteq> []" using new(2) by (auto simp: ps key_polys_def)
  let ?d = "d1\<lparr>dk_bins := (dk_bins d1)(group_bin env st base \<mapsto> ?ao)\<rparr>"
  have ser: "serialize_eval_keys env (map (normalize_key env) keys) (project_file env c (''.'' @ base @ ''.bin''))
      (project_file env c (''.'' @ base @ ''.ids'')) (map fst cap) (fc_disk st) = ?d"
    using d1(1) opens(2) unfolding project_file_cong [OF im(1)] by (simp add: serialize_eval_keys_def)
  let ?c' = "case cap of [] \<Rightarrow> c | (a, t) # _ \<Rightarrow> client_impl (set_key_start_addr_id key_type a) c"
  have st'_eq: "st' = st\<lparr>fc_client := ?c', fc_disk := ?d\<rparr>"
    using run cap k unfolding tag_key_group_def capture_keys_polys ps [symmetric] by (simp add: ser Let_def del: append_Cons append_Nil)
  have st': "fc_disk st' = ?d" "cl_probes (fc_client st') = cl_probes c" "cl_captured (fc_client st') = cl_captured c"
    "cl_streaming (fc_client st') = cl_streaming c"
    unfolding st'_eq by (simp_all add: set_key_start_frame split: list.split)
  have "cc_program_dir (fc_impl st') = cc_program_dir (w_impl (cl_world c))"
    "full_program_name (fc_impl st') = full_program_name (w_impl (cl_world c))"
    unfolding st'_eq by (simp_all add: set_key_start_frame split: list.split)
  then have pf: "cc_program_dir (fc_impl st') = cc_program_dir (fc_impl st)" "full_program_name (fc_impl st') = full_program_name (fc_impl st)"
    by (simp, subst im(1), simp, simp, subst im(1), simp add: full_program_name_def)
  have len: "length (map fst ?ats) = length (concat (map key_towers (map (normalize_key env) keys)))"
    by (simp add: key_towers_polys ps [symmetric] addresses_def del: map_map)
  have z: "zip (map fst ?ats) (concat (map key_towers (map (normalize_key env) keys))) = ?ats"
    unfolding key_towers_polys ps [symmetric] by (rule zip_back [OF f(2)])
  have fit: "length (map (normalize_key env) keys) < 2 ^ 32"
    "\<forall>k \<in> set (map (normalize_key env) keys). length (ek_a k) < 2 ^ 32 \<and> length (ek_b k) < 2 ^ 32"
    using new(3) keys_fit_normalize [of env keys] by (simp_all add: keys_fit_def)
  have v: "input_view (cl_captured c) nm = Some (SRP, map (element_of False) ?ats)"
    using captures_new [OF cp(2) new(1,2)] ready by (simp add: facade_ready_def)
  have rd: "read_addr_ids env (group_ids env st base) ?d = Inr (map fst ?ats)"
    using d1(2) read_addr_ids_cong [of ?d d1] by (simp add: cp(1))
  show "reloads (load_key_bin ia sink) opened env sink s nm (group_ids env st base) (group_bin env st base) ps st'"
  proof (rule reloadsI)
    show "map fst ?ats = addresses (fc_client st') ps" by (simp add: st'(2) addresses_def)
    show "load_key_bin ia sink (Some (opened ?ao)) (map fst ?ats) s = (True, fold (tower_sink sink) ?ats s)"
      using key_file_reloads [OF laws fit len, of sink s] unfolding z .
  qed (use v f rd st' in simp_all)
  show "np_id ` set ps \<subseteq> dom (pr_address_map (cl_probes (fc_client st')))"
    using cp(2) by (simp add: st'(2) captures_def)
  have "dk_ids ?d p = dk_ids (fc_disk st) p" if "p \<noteq> group_ids env st base" for p
    using d1(1) that opens(1) by (auto simp: write_addr_ids_def)
  then show "leaves_alone nm (group_ids env st base) (group_bin env st base) st st'"
    using cp(2) d1(3) unfolding leaves_alone_def st'(1-3) pf by (simp add: captures_def)
  assume "facade_ready (length ps + m) env st"
  then show "facade_ready m env st'"
    using cp(2) st' im(2) by (simp add: facade_ready_def captures_def room_def)
qed

lemma path_append_inj:
  "hd (n @ CHR ''.'' # e) = hd (n @ CHR ''.'' # e') \<and>
   (path_append dir (n @ CHR ''.'' # e) = path_append dir (n @ CHR ''.'' # e') \<longleftrightarrow> e = e')"
  by (cases n) (simp_all add: path_append_def)

lemma project_file_inj: "project_file env c (CHR ''.'' # e) = project_file env c (CHR ''.'' # e') \<longleftrightarrow> e = e'"
  using path_append_inj by (simp add: project_file_def)

text \<open>
  C15: what \<open>tag_keys\<close> leaves: for the multiplication and the automorphism keys, in evaluation form, the
  captured records, the address files and the archives agree, so that the worker that loads the key files
  stores exactly the captured elements.
\<close>

theorem tagged_keys_reload:
  assumes laws: "archive_laws (fe_out env) ia opened left"
    and ps: "mk = key_polys (map (normalize_key env) mult_keys)" "rk = key_polys (map (normalize_key env) auto_keys)"
    and ready: "facade_ready (length mk + length rk) env st"
    and opens: "\<And>ext. fe_opens env (project_file env (fc_client st) ext)"
    and new: "input_view (cl_captured (fc_client st)) ''evalmult_key'' = None"
      "input_view (cl_captured (fc_client st)) ''automorphism_key'' = None"
    and keys: "mk \<noteq> []" "rk \<noteq> []" "keys_fit mult_keys" "keys_fit auto_keys"
    and run: "tag_keys env mult_keys auto_keys st = Inr st'"
  shows "reloads (load_key_bin ia sink) opened env sink s ''evalmult_key'' (group_ids env st ''mk'') (group_bin env st ''mk'') mk st' \<and>
    reloads (load_key_bin ia sink) opened env sink s ''automorphism_key'' (group_ids env st ''rk'') (group_bin env st ''rk'') rk st'"
proof -
  obtain st1 where 1: "tag_key_group env ''evalmult_key'' ''mk'' ''evalmult'' mult_keys st = Inr st1"
    and 2: "tag_key_group env ''automorphism_key'' ''rk'' ''evalautomorphism'' auto_keys st1 = Inr st'"
    using run by (auto simp: tag_keys_def res_bind_eq_Inr)
  have r: "facade_ready (length mk) env st" using ready by (auto simp: facade_ready_def room_def)
  note a = key_group_reloads [OF laws ps(1) r opens opens new(1) keys(1,3) 1]
  have f: "project_file env (fc_client st1) ext = project_file env (fc_client st) ext" for ext
    using a(2) by (simp add: leaves_alone_def project_file_def program_directory_def get_program_directory_def)
  have n: "input_view (cl_captured (fc_client st1)) ''automorphism_key'' = None"
    using a(2) new(2) by (simp add: leaves_alone_def)
  note b = key_group_reloads [OF laws ps(2) a(4) [OF ready] opens [folded f] opens [folded f] n keys(2,4) 2]
  have "reloads (load_key_bin ia sink) opened env sink s ''evalmult_key'' (group_ids env st ''mk'') (group_bin env st ''mk'') mk st'"
    by (rule reloads_frame [OF a(1) _ a(3)]) (use b(2) in \<open>simp_all add: leaves_alone_def f project_file_inj\<close>)
  then show ?thesis using b(1) by (simp add: f)
qed

section \<open>Bootstrap precomputations\<close>

text \<open>
  C22: what the capture of the bootstrap precomputations leaves: when no plaintext is null, the captured
  record, the address file and the archive agree, so that the worker that loads them stores exactly the
  captured elements.
\<close>

theorem bootstrap_precompute_reloads:
  assumes laws: "archive_laws (fe_out env) ia opened left"
    and ready: "facade_ready (length (boot_polys es)) env st"
    and opens: "fe_opens env (group_ids env st ''bp'')" "fe_opens env (group_bin env st ''bp'')"
    and new: "input_view (cl_captured (fc_client st)) ''bootstrap_precompute'' = None" "boot_polys es \<noteq> []"
    and fits: "length es < 2 ^ 32" "\<forall>e \<in> set es. \<exists>p. e = Some p \<and> boot_fits p"
    and run: "tag_bootstrap_precompute env es st = Inr st'"
  shows "reloads (load_bp_bin ia sink) opened env sink s ''bootstrap_precompute'' (group_ids env st ''bp'') (group_bin env st ''bp'')
    (boot_polys es) st'"
proof -
  let ?nm = "''bootstrap_precompute''" and ?ps = "boot_polys es"
  have es: "es \<noteq> []" using new(2) by (auto simp: boot_polys_def)
  obtain cap c where cap: "capture_polys env ?nm ?ps ([], fc_client st) = Inr (cap, c)"
    using run es by (auto simp: tag_bootstrap_precompute_def res_bind_eq_Inr)
  let ?ats = "zip (addresses c ?ps) (map np_tower ?ps)"
  have cp: "cap = ?ats" "captures ?nm ?ps (fc_client st) c"
    using capture_polys_spec [OF _ _ _ cap] ready by (simp_all add: facade_ready_def)
  note im = captures_impl [OF cp(2)]
  have f: "map fst ?ats = addresses c ?ps" "map snd ?ats = boot_towers es" by (simp_all add: addresses_def boot_towers_def)
  have n: "length (map fst cap) \<le> fe_word_limit env" "length (map fst cap) < 2 ^ 64"
    using ready room_bound by (auto simp: cp(1) facade_ready_def addresses_def)
  obtain d1 where d1: "write_addr_ids env (group_ids env st ''bp'') (map fst cap) (fc_disk st) = (fe_good env (group_ids env st ''bp''), d1)"
    "read_addr_ids env (group_ids env st ''bp'') d1 = Inr (map fst cap)"
    using write_addr_ids_read [OF opens(1) n, of "fc_disk st"] by blast
  have len: "length (map fst ?ats) = length (boot_towers es)" unfolding f(2) [symmetric] by simp
  obtain ao where ao: "boot_body (fe_out env) es (oa_empty (fe_out env)) = Inr ao"
    "load_bp_bin ia sink (Some (opened ao)) (map fst ?ats) s = (True, fold (tower_sink sink) ?ats s)"
    using boot_file_reloads [OF laws fits len, of sink s] unfolding zip_back [OF f(2)] by blast
  let ?d = "d1\<lparr>dk_bins := (dk_bins d1)(group_bin env st ''bp'' \<mapsto> ao)\<rparr>"
  have st': "fc_disk st' = ?d" "fc_client st' = c"
    using run es cap d1(1) opens(2) ao(1) unfolding tag_bootstrap_precompute_def
    by (auto simp: project_file_cong [OF im(1)] Let_def)
  have "read_addr_ids env (group_ids env st ''bp'') ?d = Inr (map fst ?ats)"
    using d1(2) read_addr_ids_cong [of ?d d1] by (simp add: cp(1))
  moreover have "input_view (cl_captured c) ?nm = Some (SRP, map (element_of False) ?ats)"
    using captures_new [OF cp(2) new] ready by (simp add: facade_ready_def)
  ultimately show ?thesis
    using f ao(2) st' by (intro reloadsI [where ats = ?ats and ao = ao]) (simp_all add: boot_towers_def)
qed

section \<open>A plaintext in a later session\<close>

lemma read_plaintext_body:
  assumes laws: "archive_laws oa ia opened left"
  shows "read_plaintext ia (opened (plaintext_body oa d (oa_empty oa))) = Some (1, Some (snd d))"
proof -
  obtain ev ts where d: "d = (ev, ts)" by fastforce
  have r: "left (opened (plaintext_body oa d (oa_empty oa))) [Item32 1, Item8 1, Item32 1, ItemDcrt ev ts]"
    using opened_items [OF laws, of "[Item32 1, Item8 1] @ group_items [d]"]
    unfolding input_body_items by (simp add: group_items_def item_of_def d del: fold_simps)
  from archive_reads(2) [OF laws r] obtain a1 where 1: "ar_u32 ia (opened (plaintext_body oa d (oa_empty oa))) = Some (1, a1)"
    "left a1 [Item8 1, Item32 1, ItemDcrt ev ts]" by blast
  from archive_reads(1) [OF laws 1(2)] obtain a2 where 2: "ar_u8 ia a1 = Some (1, a2)" "left a2 [Item32 1, ItemDcrt ev ts]" by blast
  from archive_reads(2) [OF laws 2(2)] obtain a3 where 3: "ar_u32 ia a2 = Some (1, a3)" "left a3 [ItemDcrt ev ts]" by blast
  from archive_reads(5) [OF laws 3(2)] obtain a4 where "ar_dcrt ia a3 = Some (ts, a4)" by blast
  then show ?thesis using 1(1) 2(1) 3(1) by (simp add: read_plaintext_def d)
qed

lemma store_input_total:
  assumes c: "capture_ok c" and v: "input_view c nm = None \<or> (\<exists>es. input_view c nm = Some (k, es))"
  shows "\<exists>c'. store_input_element nd st nm k b a q vs c = Inr c'"
  using c
proof (cases rule: store_input_cases [where nm = nm and nd = nd and st = st and k = k and b = b and a = a and q = q and vs = vs])
  case (mismatch i)
  then show ?thesis using v by (auto simp: input_view_def record_view_def)
qed simp_all

lemma push_tagged_kind:
  "v = None \<or> (\<exists>es. v = Some (k, es)) \<Longrightarrow> \<exists>es. push_tagged k e v = Some (k, es)"
  by (auto simp: push_tagged_def)

lemma store_towers_view:
  assumes "capture_ok (cl_captured c)" "\<not> cl_streaming c" "\<forall>t \<in> set ts. twr_evaluation t"
    and "length ids = length ts" "input_view (cl_captured c) nm = None \<or> (\<exists>es. input_view (cl_captured c) nm = Some (SRP, es))"
  shows "\<exists>c'. store_towers env nm (zip ts ids) c = Inr c' \<and>
    input_view (cl_captured c') nm = fold (\<lambda>at. push_tagged SRP (element_of False at)) (zip ids ts) (input_view (cl_captured c) nm)"
  using assms
proof (induction ts arbitrary: ids c)
  case (Cons t ts)
  obtain a ids' where ids: "ids = a # ids'" "length ids' = length ts" using Cons.prems(4) by (cases ids) auto
  obtain cp where cp: "store_input_element (fe_ndebug env) False nm SRP False a (twr_modulus t) (twr_values t)
      (cl_captured c) = Inr cp"
    using store_input_total [OF Cons.prems(1,5)] by blast
  let ?c1 = "client_impl (\<lambda>i. i\<lparr>cc_captured := cp\<rparr>) c"
  have v: "input_view cp nm = push_tagged SRP (element_of False (a, t)) (input_view (cl_captured c) nm)"
    using store_input_view [OF Cons.prems(1) cp, of nm] by (simp add: element_of_def)
  have 1: "capture_ok (cl_captured ?c1)" "\<not> cl_streaming ?c1" "\<forall>t \<in> set ts. twr_evaluation t"
    "input_view (cl_captured ?c1) nm = None \<or> (\<exists>es. input_view (cl_captured ?c1) nm = Some (SRP, es))"
    using store_input_ok [OF Cons.prems(1) cp] Cons.prems(2,3) push_tagged_kind [OF Cons.prems(5)] v by simp_all
  obtain c' where "store_towers env nm (zip ts ids') ?c1 = Inr c'"
    "input_view (cl_captured c') nm = fold (\<lambda>at. push_tagged SRP (element_of False at)) (zip ids' ts) (input_view cp nm)"
    using Cons.IH [OF 1(1,2,3) ids(2) 1(4)] by auto
  then show ?case
    using Cons.prems(2,3) cp v by (simp add: ids(1) on_captured_def Let_def)
qed simp

text \<open>
  C23: a plaintext tagged in one session is captured again by a later one from the files it left: with the
  same program, a name that is new there and polynomials in evaluation form, the loader succeeds and the
  record of the later session has the same elements at the same addresses.
\<close>

theorem plaintext_survives_session:
  assumes laws: "archive_laws (fe_out env) ia opened left"
    and ready: "facade_ready (length (dp_polys el)) env st"
    and opens: "files_open env (input_ids env st nm) (input_bin env st nm)"
    and new: "input_view (cl_captured (fc_client st)) nm = None" "dp_polys el \<noteq> []"
    and eval: "list_all twr_evaluation (dcrt_towers el)"
    and run: "tag_input_plaintext env nm (Some el) st = Inr st'"
    and fs: "pf_exists fs (input_ids env st nm)" "pf_exists fs (input_bin env st nm)"
      "pf_bytes fs (input_ids env st nm) = dk_ids (fc_disk st') (input_ids env st nm)"
      "pf_archive fs (input_bin env st nm) = map_option opened (dk_bins (fc_disk st') (input_bin env st nm))"
    and later: "program_directory env c = program_directory env (fc_client st)"
      "full_program_name (w_impl (cl_world c)) = full_program_name (fc_impl st)"
      "capture_ok (cl_captured c)" "\<not> cl_streaming c" "input_view (cl_captured c) nm = None"
  shows "\<exists>c'. load_plaintext_input_file env ia fs nm c = Inr (True, c') \<and>
    input_view (cl_captured c') nm = input_view (cl_captured (fc_client st')) nm"
proof -
  obtain cap c1 where cap: "capture_polys env nm (dp_polys el) ([], fc_client st) = Inr (cap, c1)"
    using run by (auto simp: tag_input_plaintext_def res_bind_eq_Inr)
  obtain ok d where w: "write_input_files env c1 nm (plaintext_body (fe_out env) (dcrt_data el)) (map fst cap) (fc_disk st) = (ok, d)"
    by fastforce
  have st': "fc_client st' = c1" "fc_disk st' = d"
    using run cap w by (auto simp: tag_input_plaintext_def write_plaintext_input_files_def res_bind_eq_Inr)
  obtain ats where ats: "input_view (cl_captured c1) nm = Some (SRP, map (element_of False) ats)"
    "map fst ats = addresses c1 (dp_polys el)" "map snd ats = map np_tower (dp_polys el)"
    "read_addr_ids env (input_ids env st nm) d = Inr (map fst ats)"
    "dk_bins d (input_bin env st nm) = Some (plaintext_body (fe_out env) (dcrt_data el) (oa_empty (fe_out env)))"
    using captured_input [OF ready opens new cap w] by blast
  have t: "dcrt_towers el = map snd ats" by (simp add: ats(3) dcrt_towers_def)
  have len: "length (map fst ats) = length (dcrt_towers el)" "ats \<noteq> []"
    unfolding t by simp (use ats(3) new(2) in auto)
  have pf: "project_file env c ext = project_file env (fc_client st) ext" for ext
    by (simp add: project_file_def later(1,2))
  have ev: "\<forall>t \<in> set (dcrt_towers el). twr_evaluation t" using eval by (simp add: list_all_iff)
  have z: "zip (map fst ats) (dcrt_towers el) = ats" unfolding t by (rule zip_back [OF refl])
  obtain c' where c': "store_towers env nm (zip (dcrt_towers el) (map fst ats)) c = Inr c'"
    "input_view (cl_captured c') nm = fold (\<lambda>at. push_tagged SRP (element_of False at)) ats None"
    using store_towers_view [OF later(3,4) ev len(1), of nm env] unfolding z later(5) by blast
  have "input_view (cl_captured c') nm = Some (SRP, map (element_of False) ats)"
    using len(2) unfolding c'(2) by (cases ats) (simp_all add: push_tagged_def fold_push_tagged)
  moreover have "load_plaintext_input_file env ia fs nm c = Inr (True, c')"
    using fs ats(4,5) len c'(1) read_plaintext_body [OF laws, of "dcrt_data el"]
    by (simp add: load_plaintext_input_file_def pf st' read_addr_ids_def)
  ultimately show ?thesis using ats(1) st' by simp
qed

end
