(* ===== verification/FacadeResult.thy ===== *)
theory FacadeResult
  imports AutoFacade
begin

text \<open>
  The results of a replay: the outputs document is read back element by element into the templates, and
  a result is written only when every polynomial of its template was computed.
\<close>

section \<open>Elements of the outputs document\<close>

abbreviation sentinel :: u64 where
  "sentinel \<equiv> 0xFFFFFFFFFFFFFFFF"

lemma json_u64s_read: "json_u64_list (json_u64s vs) = Inr vs"
proof -
  have "map_res json_u64 (map JUnsigned vs) = Inr vs" by (induction vs) (simp_all add: json_u64_def)
  then show ?thesis by (simp add: json_u64_list_def json_u64s_def)
qed

definition written_modulus :: "u64 \<Rightarrow> u64" where
  "written_modulus q = (if q = 0 then sentinel else q)"

lemma parse_output_element:
  "parse_sim_element (output_element_json a q vs) =
     Inr (if vs = [] then None else Some \<lparr>ce_modulus = written_modulus q, ce_values = vs\<rparr>)"
  by (simp add: parse_sim_element_def output_element_json_def json_value_def json_contains_def json_at_def json_string_def
      json_u64s_read json_u64_def written_modulus_def)

text \<open>The modulus the values are set under: that of the template where the trace has none.\<close>

definition set_modulus :: "tower \<Rightarrow> u64 \<Rightarrow> u64" where
  "set_modulus t q = (if q = 0 \<or> q = sentinel then twr_modulus t else q)"

definition set_tower :: "'ao facade_env \<Rightarrow> tower \<Rightarrow> u64 \<Rightarrow> u64 list \<Rightarrow> tower option" where
  "set_tower env t q vs =
     (if length vs \<noteq> length (twr_values t) then None else fe_set_values env t (set_modulus t q) vs)"

lemma apply_output_element:
  "vs \<noteq> [] \<Longrightarrow> set_tower env t q vs = Some t' \<Longrightarrow>
     apply_sim_output env t \<lparr>ce_modulus = written_modulus q, ce_values = vs\<rparr> = Inr t'"
  by (auto simp: apply_sim_output_def set_tower_def set_modulus_def written_modulus_def Let_def split: if_splits)

section \<open>The walk over a template\<close>

text \<open>
  The residues of an output are addresses with moduli; \<open>can_set\<close> says that a residue that was computed
  can be set in the tower.
\<close>

definition can_set :: "'ao facade_env \<Rightarrow> (u64 \<Rightarrow> u64 list) \<Rightarrow> tower \<Rightarrow> u64 \<times> u64 \<Rightarrow> bool" where
  "can_set env values_at t aq \<longleftrightarrow> values_at (fst aq) = [] \<or> set_tower env t (snd aq) (values_at (fst aq)) \<noteq> None"

definition set_residue :: "'ao facade_env \<Rightarrow> (u64 \<Rightarrow> u64 list) \<Rightarrow> tower \<Rightarrow> u64 \<times> u64 \<Rightarrow> tower" where
  "set_residue env values_at t aq =
     (if values_at (fst aq) = [] then t else the (set_tower env t (snd aq) (values_at (fst aq))))"

definition residue_json :: "(u64 \<Rightarrow> u64 list) \<Rightarrow> u64 \<times> u64 \<Rightarrow> json" where
  "residue_json values_at aq = output_element_json (fst aq) (snd aq) (values_at (fst aq))"

definition computed :: "(u64 \<Rightarrow> u64 list) \<Rightarrow> (u64 \<times> u64) list \<Rightarrow> nat" where
  "computed values_at aqs = length (filter (\<lambda>aq. values_at (fst aq) \<noteq> []) aqs)"

lemma fill_towers_spec:
  assumes "list_all2 (can_set env values_at) ts aqs"
  shows "fill_towers env ts (map (residue_json values_at) aqs @ es) =
    Inr (map2 (set_residue env values_at) ts aqs, computed values_at aqs)"
  using assms
proof (induction rule: list_all2_induct)
  case (Cons t ts aq aqs)
  show ?case
  proof (cases "values_at (fst aq) = []")
    case True
    then show ?thesis using Cons
      by (simp add: residue_json_def parse_output_element set_residue_def computed_def)
  next
    case False
    obtain t' where t': "set_tower env t (snd aq) (values_at (fst aq)) = Some t'"
      using Cons.hyps False by (auto simp: can_set_def)
    note ap = apply_output_element [OF False t']
    show ?thesis using Cons False t' ap
      by (simp add: residue_json_def parse_output_element set_residue_def computed_def)
  qed
qed (simp add: computed_def)

lemma computed_append: "computed values_at (xs @ ys) = computed values_at xs + computed values_at ys"
  by (simp add: computed_def)

lemma fill_ciphertext_spec:
  assumes "list_all2 (can_set env values_at) (concat (map snd ct)) aqs"
  shows "\<exists>ct'. fill_ciphertext env ct (map (residue_json values_at) aqs) = Inr (ct', computed values_at aqs) \<and>
    map fst ct' = map fst ct \<and> map (\<lambda>d. length (snd d)) ct' = map (\<lambda>d. length (snd d)) ct \<and>
    concat (map snd ct') = map2 (set_residue env values_at) (concat (map snd ct)) aqs"
  using assms
proof (induction ct arbitrary: aqs)
  case Nil
  then show ?case by (simp add: computed_def)
next
  case (Cons d ct)
  obtain ev ts where d: "d = (ev, ts)" by fastforce
  obtain xs ys where aqs: "aqs = xs @ ys" "list_all2 (can_set env values_at) ts xs"
    "list_all2 (can_set env values_at) (concat (map snd ct)) ys"
    using Cons.prems by (auto simp: d list_all2_append1)
  have len: "length ts = length xs" using list_all2_lengthD [OF aqs(2)] .
  obtain ct' where ct': "fill_ciphertext env ct (map (residue_json values_at) ys) = Inr (ct', computed values_at ys)"
    "map fst ct' = map fst ct" "map (\<lambda>d. length (snd d)) ct' = map (\<lambda>d. length (snd d)) ct"
    "concat (map snd ct') = map2 (set_residue env values_at) (concat (map snd ct)) ys"
    using Cons.IH [OF aqs(3)] by blast
  show ?case
    by (rule exI [of _ "(ev, map2 (set_residue env values_at) ts xs) # ct'"])
      (use fill_towers_spec [OF aqs(2), of "map (residue_json values_at) ys"] ct' len in
        \<open>simp add: d aqs(1) computed_append\<close>)
qed

lemma count_towers: "ciphertext_poly_count ct = length (concat (map snd ct))"
  by (induction ct) (auto simp: ciphertext_poly_count_def)

section \<open>One output\<close>

text \<open>The residues of an output record.\<close>

definition residues :: "OutputRecord \<Rightarrow> (u64 \<times> u64) list" where
  "residues out = zip (co_addr_ids out) (co_moduli out)"

definition template_path :: "string \<Rightarrow> string \<Rightarrow> string" where
  "template_path dir nm = path_append (path_append dir ''ciphertext_templates'') (nm @ ''.template'')"

definition result_path :: "string \<Rightarrow> string \<Rightarrow> string" where
  "result_path dir nm = path_append (path_append dir ''serialized_probes'') (nm @ ''.ct'')"

lemma map_res_const: "(\<And>x. x \<in> set xs \<Longrightarrow> f x = Inr (g x)) \<Longrightarrow> map_res f xs = Inr (map g xs)"
  by (induction xs) simp_all

lemma map_res_Inr_mem: "map_res f xs = Inr ys \<Longrightarrow> x \<in> set xs \<Longrightarrow> \<exists>y. f x = Inr y"
  by (induction xs arbitrary: ys) (auto simp: res_bind_eq_Inr)

lemma output_entry:
  assumes "replay_output_json values_at out = Inr j"
  shows "j = JObject [(''name'', JString (co_name out)), (''elements'', JArray (map (residue_json values_at) (residues out)))]"
    "length (residues out) = length (co_addr_ids out)"
proof -
  let ?n = "length (co_addr_ids out)"
  let ?f = "\<lambda>j. if j \<ge> length (co_moduli out) then Inl OutOfBoundsAccess
    else Inr (output_element_json (co_addr_ids out ! j) (co_moduli out ! j) (values_at (co_addr_ids out ! j)))"
  obtain es where es: "map_res ?f [0..<?n] = Inr es"
    "j = JObject [(''name'', JString (co_name out)), (''elements'', JArray es)]"
    using assms by (auto simp: replay_output_json_def res_bind_eq_Inr)
  have le: "j < length (co_moduli out)" if "j < ?n" for j
    using map_res_Inr_mem [OF es(1), of j] that by (auto split: if_splits)
  then have n: "?n \<le> length (co_moduli out)" by (meson leI less_irrefl)
  then show l: "length (residues out) = ?n" by (simp add: residues_def)
  have "map_res ?f [0..<?n] = Inr (map (\<lambda>j. residue_json values_at (residues out ! j)) [0..<?n])"
    by (rule map_res_const) (use n in \<open>auto simp: residue_json_def residues_def\<close>)
  also have "map (\<lambda>j. residue_json values_at (residues out ! j)) [0..<?n] = map (residue_json values_at) (residues out)"
    using l by (intro nth_equalityI) simp_all
  finally show "j = JObject [(''name'', JString (co_name out)), (''elements'', JArray (map (residue_json values_at) (residues out)))]"
    using es by simp
qed

text \<open>A template with as many towers as the output has residues, each of which can be set.\<close>

definition template_fits :: "'ao facade_env \<Rightarrow> (u64 \<Rightarrow> u64 list) \<Rightarrow> OutputRecord \<Rightarrow> stored_ciphertext \<Rightarrow> bool" where
  "template_fits env values_at out ct \<longleftrightarrow>
     list_all2 (can_set env values_at) (concat (map snd ct)) (residues out)"

text \<open>The ciphertext with every tower set.\<close>

definition filled_template ::
  "'ao facade_env \<Rightarrow> (u64 \<Rightarrow> u64 list) \<Rightarrow> OutputRecord \<Rightarrow> stored_ciphertext \<Rightarrow> stored_ciphertext \<Rightarrow> bool" where
  "filled_template env values_at out ct ct' \<longleftrightarrow>
     map fst ct' = map fst ct \<and> map (\<lambda>d. length (snd d)) ct' = map (\<lambda>d. length (snd d)) ct \<and>
     list_all2 (\<lambda>(t, a, q) t'. set_tower env t q (values_at a) = Some t')
       (zip (concat (map snd ct)) (residues out)) (concat (map snd ct'))"

lemma computed_Cons: "computed values_at (aq # aqs) = (if values_at (fst aq) = [] then 0 else 1) + computed values_at aqs"
  by (simp add: computed_def)

lemma computed_le: "computed values_at aqs \<le> length aqs"
  by (simp add: computed_def)

lemma computed_all: "computed values_at aqs = length aqs \<longleftrightarrow> (\<forall>aq \<in> set aqs. values_at (fst aq) \<noteq> [])"
proof (induction aqs)
  case (Cons aq aqs)
  then show ?case using computed_le [of values_at aqs] by (auto simp: computed_Cons)
qed (simp add: computed_def)

lemma set_residues:
  assumes "list_all2 (can_set env values_at) ts aqs" "\<forall>aq \<in> set aqs. values_at (fst aq) \<noteq> []"
  shows "list_all2 (\<lambda>(t, a, q) t'. set_tower env t q (values_at a) = Some t') (zip ts aqs)
    (map2 (set_residue env values_at) ts aqs)"
  using assms by (induction rule: list_all2_induct) (auto simp: can_set_def set_residue_def)

lemma fill_template_spec:
  assumes entry: "replay_output_json values_at out = Inr j" and fits: "template_fits env values_at out ct"
  shows "if \<forall>a \<in> set (co_addr_ids out). values_at a \<noteq> []
    then \<exists>ct'. fill_template env j ct = Inr (Some ct') \<and> filled_template env values_at out ct ct'
    else fill_template env j ct = Inr None"
proof -
  note j = output_entry(1) [OF entry]
  have len: "length (concat (map snd ct)) = length (residues out)"
    using fits list_all2_lengthD by (auto simp: template_fits_def)
  have addrs: "map fst (residues out) = co_addr_ids out"
    using output_entry(2) [OF entry] by (simp add: residues_def) (metis length_zip map_fst_zip_take min.cobounded1 take_all_iff)
  have all: "(\<forall>a \<in> set (co_addr_ids out). values_at a \<noteq> []) \<longleftrightarrow> (\<forall>aq \<in> set (residues out). values_at (fst aq) \<noteq> [])"
    unfolding addrs [symmetric] by simp
  obtain ct' where ct': "fill_ciphertext env ct (map (residue_json values_at) (residues out)) =
      Inr (ct', computed values_at (residues out))"
    "map fst ct' = map fst ct" "map (\<lambda>d. length (snd d)) ct' = map (\<lambda>d. length (snd d)) ct"
    "concat (map snd ct') = map2 (set_residue env values_at) (concat (map snd ct)) (residues out)"
    using fill_ciphertext_spec fits unfolding template_fits_def by blast
  have ft: "fill_template env j ct =
      (if residues out = [] then Inr (Some ct)
       else Inr (if computed values_at (residues out) \<noteq> length (residues out) then None else Some ct'))"
    using len ct'(1)
    by (simp add: fill_template_def j json_contains_def json_at_def count_towers json_size_def del: length_concat)
  show ?thesis
  proof (cases "residues out = []")
    case True
    then show ?thesis using len by (simp add: ft all filled_template_def del: length_concat)
  next
    case False
    have "filled_template env values_at out ct ct'" if "\<forall>aq \<in> set (residues out). values_at (fst aq) \<noteq> []"
      using ct' set_residues [OF _ that] fits unfolding filled_template_def template_fits_def by simp
    then show ?thesis using False by (simp add: ft all computed_all)
  qed
qed

section \<open>The results\<close>

text \<open>Only its own result is written by an entry.\<close>

lemma reconstruct_entry_frame:
  assumes "replay_output_json values_at out = Inr j" "reconstruct_entry env dir j d = Inr d'"
    and "p \<noteq> result_path dir (co_name out)"
  shows "dk_cts d' p = dk_cts d p"
  using assms(2,3)
  by (auto simp: reconstruct_entry_def output_entry(1) [OF assms(1)] json_value_def json_string_def result_path_def Let_def
      split: option.splits sum.splits if_splits)

lemma reconstruct_entries_frame:
  assumes "map_res (replay_output_json values_at) outs = Inr js" "reconstruct_entries env dir js d = Inr d'"
    and "p \<notin> (\<lambda>out. result_path dir (co_name out)) ` set outs"
  shows "dk_cts d' p = dk_cts d p"
  using assms
proof (induction outs arbitrary: js d)
  case (Cons out outs)
  then obtain j js' d1 where "replay_output_json values_at out = Inr j" "map_res (replay_output_json values_at) outs = Inr js'"
    "js = j # js'" "reconstruct_entry env dir j d = Inr d1" "reconstruct_entries env dir js' d1 = Inr d'"
    by (auto simp: res_bind_eq_Inr)
  then show ?case using Cons.IH [of js' d1] Cons.prems(3) reconstruct_entry_frame [of values_at out j env dir d d1 p] by simp
qed simp

lemma reconstruct_entry_own:
  assumes entry: "replay_output_json values_at out = Inr j" and fits: "template_fits env values_at out ct"
    and t: "dk_cts d (template_path dir (co_name out)) = Some ct" and save: "fe_ct_saves env (result_path dir (co_name out))"
    and run: "reconstruct_entry env dir j d = Inr d'"
  shows "if \<forall>a \<in> set (co_addr_ids out). values_at a \<noteq> []
    then \<exists>ct'. dk_cts d' (result_path dir (co_name out)) = Some ct' \<and> filled_template env values_at out ct ct'
    else d' = d"
  using fill_template_spec [OF entry fits] t save run
  by (auto simp: reconstruct_entry_def output_entry(1) [OF entry] json_value_def json_string_def result_path_def template_path_def
      split: if_splits)

lemma last_path_append: "b \<noteq> [] \<Longrightarrow> last (path_append a b) = last b"
  by (simp add: path_append_def)

lemma template_not_result: "template_path dir n \<noteq> result_path dir n'"
proof
  assume "template_path dir n = result_path dir n'"
  then have "last (template_path dir n) = last (result_path dir n')" by simp
  then show False by (simp add: template_path_def result_path_def last_path_append)
qed

definition plain_name :: "string \<Rightarrow> bool" where
  "plain_name n \<longleftrightarrow> n = [] \<or> hd n \<noteq> CHR ''/''"

lemma result_path_inj: "plain_name n \<Longrightarrow> plain_name n' \<Longrightarrow> result_path dir n = result_path dir n' \<Longrightarrow> n = n'"
  by (cases n; cases n') (auto simp: result_path_def path_append_def plain_name_def split: if_splits)

lemma reconstruct_entries_append:
  "reconstruct_entries env dir (xs @ ys) d = res_bind (reconstruct_entries env dir xs d) (reconstruct_entries env dir ys)"
  by (induction xs arbitrary: d) (simp_all add: res_bind_def split: sum.splits)

lemma map_res_split:
  "map_res f (xs @ y # ys) = Inr js \<Longrightarrow>
     \<exists>as b cs. map_res f xs = Inr as \<and> f y = Inr b \<and> map_res f ys = Inr cs \<and> js = as @ b # cs"
proof (induction xs arbitrary: js)
  case (Cons x xs)
  then obtain a as where a: "f x = Inr a" "map_res f (xs @ y # ys) = Inr as" "js = a # as" by (auto simp: res_bind_eq_Inr)
  from Cons.IH [OF a(2)] obtain as' b cs where "map_res f xs = Inr as'" "f y = Inr b" "map_res f ys = Inr cs" "as = as' @ b # cs"
    by blast
  then show ?case using a by (intro exI [of _ "a # as'"]) simp
qed (auto simp: res_bind_eq_Inr)

text \<open>
  C16: the result served for an output after the outputs document of a replay was read back.  If the
  simulator left values at every address of the output, the result is the template with every tower set
  to the values at its address, under the recorded modulus, or that of the template where none is
  recorded; if it left none at some address, nothing is written, so that a result is never mixed with the
  values of the recording.
\<close>

theorem reconstructed_result:
  assumes doc: "replay_outputs_json values_at outs = Inr doc"
    and names: "distinct (map co_name outs)" "list_all plain_name (map co_name outs)"
    and out: "out \<in> set outs"
    and t: "dk_cts (fc_disk st) (template_path (program_directory env (fc_client st)) (co_name out)) = Some ct"
    and fits: "template_fits env values_at out ct"
    and save: "fe_ct_saves env (result_path (program_directory env (fc_client st)) (co_name out))"
    and run: "reconstruct_probes env (Some doc) st = Inr st'"
  shows "if \<forall>a \<in> set (co_addr_ids out). values_at a \<noteq> []
    then \<exists>ct'. facade_result env (co_name out) st' = Some ct' \<and> filled_template env values_at out ct ct'
    else facade_result env (co_name out) st' = facade_result env (co_name out) st"
proof -
  let ?dir = "program_directory env (fc_client st)" and ?f = "replay_output_json values_at"
  let ?p = "result_path ?dir (co_name out)"
  obtain xs ys where o: "outs = xs @ out # ys" using split_list [OF out] by blast
  obtain js where js: "map_res ?f outs = Inr js" "doc = JObject [(''outputs'', JArray js)]"
    using doc by (auto simp: replay_outputs_json_def res_bind_eq_Inr)
  obtain as b cs where split: "map_res ?f xs = Inr as" "?f out = Inr b" "map_res ?f ys = Inr cs" "js = as @ b # cs"
    using map_res_split [OF js(1) [unfolded o]] by (elim exE conjE) (rule that)
  have "reconstruct_probes_in env ?dir (Some doc) (fc_disk st) = reconstruct_entries env ?dir (as @ b # cs) (fc_disk st)"
    by (simp add: reconstruct_probes_in_def js(2) json_contains_def json_at_def json_items_def split(4))
  then obtain d3 where d3: "reconstruct_entries env ?dir (as @ b # cs) (fc_disk st) = Inr d3" "st' = st\<lparr>fc_disk := d3\<rparr>"
    using run by (auto simp: reconstruct_probes_def res_bind_eq_Inr)
  obtain d1 where d1: "reconstruct_entries env ?dir as (fc_disk st) = Inr d1" "reconstruct_entries env ?dir (b # cs) d1 = Inr d3"
    using d3(1) by (auto simp: reconstruct_entries_append res_bind_eq_Inr simp del: reconstruct_entries.simps)
  obtain d2 where d2: "reconstruct_entry env ?dir b d1 = Inr d2" "reconstruct_entries env ?dir cs d2 = Inr d3"
    using d1(2) by (auto simp: res_bind_eq_Inr)
  note d = d1(1) d2 d3(2)
  have other: "?p \<noteq> result_path ?dir (co_name out')" if "out' \<in> set xs \<union> set ys" for out'
  proof
    assume "?p = result_path ?dir (co_name out')"
    moreover have "plain_name (co_name out)" "plain_name (co_name out')" using names(2) that by (auto simp: o list_all_iff)
    ultimately have "co_name out = co_name out'" by (blast intro: result_path_inj)
    then show False using names(1) that by (auto simp: o)
  qed
  have t1: "dk_cts d1 (template_path ?dir (co_name out)) = Some ct"
    unfolding t [symmetric] by (rule reconstruct_entries_frame [OF split(1) d(1)]) (simp add: template_not_result image_iff)
  have r1: "dk_cts d1 ?p = dk_cts (fc_disk st) ?p" by (rule reconstruct_entries_frame [OF split(1) d(1)]) (use other in blast)
  have r3: "dk_cts d3 ?p = dk_cts d2 ?p" by (rule reconstruct_entries_frame [OF split(3) d(3)]) (use other in blast)
  have f: "facade_result env (co_name out) st' = dk_cts d3 ?p" "facade_result env (co_name out) st = dk_cts (fc_disk st) ?p"
    by (simp_all add: facade_result_def d(4) result_path_def)
  show ?thesis
    using reconstruct_entry_own [OF split(2) fits t1 save d(2)] r1 r3 unfolding f by (auto split: if_splits)
qed

end
