(* ===== verification/FacadeExamples.thy ===== *)
theory FacadeExamples
  imports FacadeProps FacadeResult
begin

text \<open>
  The facade at concrete objects: one ciphertext, one key of each kind, one bootstrap precomputation and
  one output, over the archive that is the list of its items.
\<close>

section \<open>The environment\<close>

definition example_facade_env :: "arch_item list facade_env" where
  "example_facade_env =
     \<lparr>fe_out = list_out, fe_opens = (\<lambda>p. True), fe_good = (\<lambda>p. True), fe_ct_saves = (\<lambda>p. True), fe_cwd = ''c'',
      fe_host_le = True, fe_ndebug = True, fe_word_limit = 100,
      fe_set_evaluation = (\<lambda>d. d\<lparr>dp_evaluation := True\<rparr>), fe_tower_evaluation = (\<lambda>t. t\<lparr>twr_evaluation := True\<rparr>),
      fe_set_values = (\<lambda>t q vs. Some (t\<lparr>twr_modulus := q, twr_values := vs\<rparr>)), fe_mtime = Map.empty, fe_source = Map.empty\<rparr>"

definition example_facade :: "(unit, arch_item list) Facade" where
  "example_facade = \<lparr>fc_client = Client_init, fc_disk = \<lparr>dk_ids = Map.empty, dk_bins = Map.empty, dk_cts = Map.empty\<rparr>,
     fc_stored = [], fc_counter = 0\<rparr>"

definition example_poly :: "u64 \<Rightarrow> u64 list \<Rightarrow> native_poly" where
  "example_poly i vs = \<lparr>np_id = i, np_tower = \<lparr>twr_modulus = 97, twr_values = vs, twr_evaluation = True\<rparr>\<rparr>"

definition example_dcrt :: "u64 \<Rightarrow> dcrt_poly" where
  "example_dcrt i = \<lparr>dp_evaluation = True, dp_polys = [example_poly i [1, 2], example_poly (i + 1) [3, 4]]\<rparr>"

lemma example_facade_ready: "n \<le> 100 \<Longrightarrow> facade_ready n example_facade_env example_facade"
  using alloc_ok_init
  by (simp add: facade_ready_def example_facade_def Client_init_def room_def Probes_init_def World_init_def
      CompilerImpl_init_def capture_ok_init example_facade_env_def)

lemma example_opens: "files_open example_facade_env ids bin" "fe_opens example_facade_env p"
  by (simp_all add: files_open_def example_facade_env_def)

lemma example_new: "input_view (cl_captured (fc_client example_facade)) nm = None"
  by (simp add: example_facade_def Client_init_def World_init_def CompilerImpl_init_def input_view_def record_view_def Captured_init_def)

lemma example_laws: "archive_laws (fe_out example_facade_env) list_in id (=)"
  using list_archive_laws by (simp add: example_facade_env_def)

text \<open>A sink that lists what it stores.\<close>

definition list_sink :: "(u64 \<times> u64 list \<times> u64) list sink" where
  "list_sink a vs q stored = stored @ [(a, vs, q)]"

lemma not_isl: "\<not> isl x \<Longrightarrow> \<exists>y. x = Inr y"
  by (cases x) simp_all

section \<open>Inputs\<close>

theorem tagged_ciphertext_reloads_witness:
  "\<exists>st'. tag_input_ciphertext example_facade_env ''x'' [example_dcrt 10, example_dcrt 20] None example_facade = Inr st' \<and>
     reloads (load_input_bin list_in list_sink) id example_facade_env list_sink [] ''x''
       (input_ids example_facade_env example_facade ''x'') (input_bin example_facade_env example_facade ''x'')
       (ciphertext_polys [example_dcrt 10, example_dcrt 20]) st'"
proof -
  have "\<not> isl (tag_input_ciphertext example_facade_env ''x'' [example_dcrt 10, example_dcrt 20] None example_facade)" by code_simp
  then obtain st' where st': "tag_input_ciphertext example_facade_env ''x'' [example_dcrt 10, example_dcrt 20] None example_facade = Inr st'"
    using not_isl by blast
  have n: "length (ciphertext_polys [example_dcrt 10, example_dcrt 20]) = 4" "ciphertext_polys [example_dcrt 10, example_dcrt 20] \<noteq> []"
    by (simp_all add: ciphertext_polys_def example_dcrt_def)
  have "length [example_dcrt 10, example_dcrt 20] < 2 ^ 32" by simp
  from tagged_ciphertext_reloads [OF example_laws _ example_opens(1) example_new n(2) this st', of list_sink "[]"]
  show ?thesis using st' example_facade_ready n(1) by simp
qed

theorem plaintext_survives_session_witness:
  "\<exists>st' fs c'. tag_input_plaintext example_facade_env ''x'' (Some (example_dcrt 10)) example_facade = Inr st' \<and>
     load_plaintext_input_file example_facade_env list_in fs ''x'' (Client_init :: unit Client) = Inr (True, c') \<and>
     input_view (cl_captured c') ''x'' = input_view (cl_captured (fc_client st')) ''x''"
proof -
  have "\<not> isl (tag_input_plaintext example_facade_env ''x'' (Some (example_dcrt 10)) example_facade)" by code_simp
  then obtain st' where st': "tag_input_plaintext example_facade_env ''x'' (Some (example_dcrt 10)) example_facade = Inr st'"
    using not_isl by blast
  let ?fs = "\<lparr>pf_exists = (\<lambda>p. True), pf_is_directory = (\<lambda>p. True), pf_archive = dk_bins (fc_disk st'),
    pf_bytes = dk_ids (fc_disk st'), pf_json = Map.empty\<rparr>"
  have ready: "facade_ready (length (dp_polys (example_dcrt 10))) example_facade_env example_facade"
    by (rule example_facade_ready) (simp add: example_dcrt_def)
  have p: "dp_polys (example_dcrt 10) \<noteq> []" "list_all twr_evaluation (dcrt_towers (example_dcrt 10))"
    by (simp_all add: example_dcrt_def dcrt_towers_def example_poly_def)
  have c: "Client_init = fc_client example_facade" by (simp add: example_facade_def)
  have l: "capture_ok (cl_captured (fc_client example_facade))" "\<not> cl_streaming (fc_client example_facade)"
    using ready by (simp_all add: facade_ready_def)
  have "\<exists>c'. load_plaintext_input_file example_facade_env list_in ?fs ''x'' (Client_init :: unit Client) = Inr (True, c') \<and>
      input_view (cl_captured c') ''x'' = input_view (cl_captured (fc_client st')) ''x''"
    unfolding c
    by (rule plaintext_survives_session [OF example_laws ready example_opens(1) example_new p(1,2) st'])
      (simp_all add: l example_new option.map_id)
  then show ?thesis using st' by blast
qed

section \<open>Keys and precomputations\<close>

definition example_key :: "u64 \<Rightarrow> eval_key" where
  "example_key i = \<lparr>ek_a = [example_dcrt i], ek_b = [(example_dcrt (i + 2))\<lparr>dp_evaluation := False\<rparr>]\<rparr>"

lemma example_key_fits: "keys_fit [example_key i]"
  by (simp add: keys_fit_def example_key_def)

lemma example_key_polys:
  "length (key_polys (map (normalize_key example_facade_env) [example_key i])) = 4"
  by (simp add: key_polys_def normalize_key_def example_key_def ciphertext_polys_def normalize_dcrt_def example_dcrt_def
      example_facade_env_def)

theorem tagged_keys_reload_witness:
  "\<exists>st'. tag_keys example_facade_env [example_key 10] [example_key 20] example_facade = Inr st' \<and>
     reloads (load_key_bin list_in list_sink) id example_facade_env list_sink [] ''evalmult_key''
       (group_ids example_facade_env example_facade ''mk'') (group_bin example_facade_env example_facade ''mk'')
       (key_polys (map (normalize_key example_facade_env) [example_key 10])) st'"
proof -
  have "\<not> isl (tag_keys example_facade_env [example_key 10] [example_key 20] example_facade)" by code_simp
  then obtain st' where st': "tag_keys example_facade_env [example_key 10] [example_key 20] example_facade = Inr st'"
    using not_isl by blast
  have ne: "key_polys (map (normalize_key example_facade_env) [example_key i]) \<noteq> []" for i
    using example_key_polys [of i] by force
  have ready: "facade_ready (length (key_polys (map (normalize_key example_facade_env) [example_key 10])) +
      length (key_polys (map (normalize_key example_facade_env) [example_key 20]))) example_facade_env example_facade"
    unfolding example_key_polys by (rule example_facade_ready) simp
  note r = tagged_keys_reload [OF example_laws refl refl ready example_opens(2) example_new example_new ne ne example_key_fits example_key_fits st',
      of list_sink "[]", THEN conjunct1]
  show ?thesis by (rule exI [of _ st'], rule conjI, rule st', rule r)
qed

definition example_params :: boot_params where
  "example_params = \<lparr>bq_lvlb = 1, bq_layersCollapse = 2, bq_remCollapse = 0, bq_numRotations = 3, bq_b = 1, bq_g = 2,
     bq_numRotationsRem = 0, bq_bRem = 0, bq_gRem = 0\<rparr>"

definition example_precom :: boot_precom where
  "example_precom = \<lparr>bm_slots = 2, bm_paramsEnc = example_params, bm_paramsDec = example_params,
     bm_U0hatTPreFFT = [[Some (example_dcrt 10)], []], bm_U0PreFFT = [], bm_U0Pre = [Some (example_dcrt 20)], bm_U0hatTPre = []\<rparr>"

theorem bootstrap_precompute_reloads_witness:
  "\<exists>st'. tag_bootstrap_precompute example_facade_env [Some example_precom] example_facade = Inr st' \<and>
     reloads (load_bp_bin list_in list_sink) id example_facade_env list_sink [] ''bootstrap_precompute''
       (group_ids example_facade_env example_facade ''bp'') (group_bin example_facade_env example_facade ''bp'')
       (boot_polys [Some example_precom]) st'"
proof -
  have "\<not> isl (tag_bootstrap_precompute example_facade_env [Some example_precom] example_facade)" by code_simp
  then obtain st' where st': "tag_bootstrap_precompute example_facade_env [Some example_precom] example_facade = Inr st'"
    using not_isl by blast
  have n: "length (boot_polys [Some example_precom]) = 4" "boot_polys [Some example_precom] \<noteq> []"
    by (simp_all add: boot_polys_def example_precom_def plaintext_polys_def boot_plaintexts_def example_dcrt_def)
  have f: "length [Some example_precom] < 2 ^ 32" "\<forall>e \<in> set [Some example_precom]. \<exists>p. e = Some p \<and> boot_fits p"
    by (simp_all add: example_precom_def boot_fits_def boot_plaintexts_def)
  from bootstrap_precompute_reloads [OF example_laws _ example_opens(2) example_opens(2) example_new n(2) f st', of list_sink "[]"]
  show ?thesis using st' example_facade_ready n(1) by simp
qed

section \<open>A result\<close>

definition example_output :: OutputRecord where
  "example_output = \<lparr>co_name = ''o'', co_kind = SRP, co_addr_ids = [3, 4], co_moduli = [97, 0], co_element_starts = []\<rparr>"

definition example_templated :: "(unit, arch_item list) Facade" where
  "example_templated = example_facade\<lparr>fc_disk := (fc_disk example_facade)\<lparr>dk_cts :=
     [template_path (program_directory example_facade_env (fc_client example_facade)) ''o'' \<mapsto> [dcrt_data (example_dcrt 10)]]\<rparr>\<rparr>"

theorem reconstructed_result_witness:
  "\<exists>doc st' ct'. replay_outputs_json (\<lambda>a. [a, 7]) [example_output] = Inr doc \<and>
     reconstruct_probes example_facade_env (Some doc) example_templated = Inr st' \<and>
     facade_result example_facade_env ''o'' st' = Some ct' \<and>
     filled_template example_facade_env (\<lambda>a. [a, 7]) example_output [dcrt_data (example_dcrt 10)] ct'"
proof -
  let ?v = "\<lambda>a :: u64. [a, 7 :: u64]"
  let ?run = "res_bind (replay_outputs_json ?v [example_output]) (\<lambda>doc. reconstruct_probes example_facade_env (Some doc) example_templated)"
  have "\<not> isl ?run" by code_simp
  then obtain doc st' where r: "replay_outputs_json ?v [example_output] = Inr doc"
    "reconstruct_probes example_facade_env (Some doc) example_templated = Inr st'"
    using not_isl [of ?run] by (auto simp: res_bind_eq_Inr)
  have n: "distinct (map co_name [example_output])" "list_all plain_name (map co_name [example_output])" "co_name example_output = ''o''"
    "example_output \<in> set [example_output]"
    by (simp_all add: example_output_def plain_name_def)
  have t: "dk_cts (fc_disk example_templated) (template_path (program_directory example_facade_env (fc_client example_templated)) (co_name example_output)) =
      Some [dcrt_data (example_dcrt 10)]"
    by (simp add: example_templated_def n(3))
  have fits: "template_fits example_facade_env ?v example_output [dcrt_data (example_dcrt 10)]"
    by (simp add: template_fits_def residues_def example_output_def dcrt_data_def dcrt_towers_def example_dcrt_def example_poly_def
        can_set_def set_tower_def example_facade_env_def)
  have s: "fe_ct_saves example_facade_env p" for p by (simp add: example_facade_env_def)
  show ?thesis
    using reconstructed_result [OF r(1) n(1,2,4) t fits s r(2)] r unfolding n(3) by auto
qed

end
