(* ===== verification/SessionTrace.thy ===== *)
theory SessionTrace
  imports SessionInv
begin

text \<open>
  What \<open>stop\<close> leaves on disk: the trace reads back as it was recorded, and where its binary form lies.
\<close>

section \<open>The written trace\<close>

lemma recording_fits_frame:
  assumes "recording_fits h now t" "list_all canonical_inst (tw_instructions t')"
    "length (tw_instructions t') < 2 ^ 64" "length (tw_instructions t') = length (tw_instructions t)"
    "tw_modulus_table t' = tw_modulus_table t" "metadata (tw_program now t') = metadata (tw_program now t)"
  shows "recording_fits h now t'"
  using assms binary_metadata_eq [OF assms(6), of h kFhetchSpec] by (simp add: recording_fits_def)

lemma stop_runs:
  assumes run: "cc_running (w_impl w)" and sy: "sync_world (se_ndebug env) w = (Inr (), w1)"
    and hooks: "cc_auto_capture_at_stop (w_impl w) = None" "cc_post_recording_hook (w_impl w) = None"
    and t: "t = stop_recording (emit halt_instruction (w_writer w))"
    and wr: "tw_write (se_host_le env)
       (se_write env (get_program_directory (se_cwd env) (w_impl w)) (full_program_name (w_impl w))) t = (Inr files, t')"
  shows "\<exists>w'. stop env hk w = (Inr (True, Some files), w')"
proof -
  have f: "w_writer w1 = w_writer w" "w_impl w1 = (w_impl w)\<lparr>cc_captured := cc_captured (w_impl w1)\<rparr>"
    using sync_world_frame [OF sy] by simp_all
  have c: "get_program_directory (se_cwd env) ((w_impl w1)\<lparr>cc_running := False, cc_stopped := True\<rparr>) =
      get_program_directory (se_cwd env) (w_impl w)"
    "full_program_name ((w_impl w1)\<lparr>cc_running := False, cc_stopped := True\<rparr>) = full_program_name (w_impl w)"
    "cc_auto_capture_at_stop (w_impl w1) = None" "cc_post_recording_hook (w_impl w1) = None"
    by (subst f(2), simp add: get_program_directory_def full_program_name_def hooks)+
  show ?thesis
    using run sy wr c
    by (simp add: stop_def Let_def write_trace_def t f(1) stop_hooks_def run_hook_def on_impl_def on_writer_def
        split: prod.split)
qed

lemma initialized_ok:
  "session_ok (snd (start (snd (init [''prog''] (World_init :: unit World)))))"
  "cc_running (w_impl (snd (start (snd (init [''prog''] (World_init :: unit World))))))"
proof -
  have "session_ok (snd (init [''prog''] (World_init :: unit World)))"
    by (rule session_step_ok [where env = example_env and hooks = idle_hooks, OF step_init _ session_ok_init])
      (simp add: hooks_ok_def idle_hooks_def)
  then show "session_ok (snd (start (snd (init [''prog''] (World_init :: unit World)))))" by (rule start_ok)
  show "cc_running (w_impl (snd (start (snd (init [''prog''] (World_init :: unit World))))))"
    by (simp add: init_def start_def Let_def)
qed



section \<open>Where the binary file lies\<close>

lemma file_name_of_append: "CHR ''/'' \<notin> set b \<Longrightarrow> file_name_of (a @ b) = file_name_of a @ b"
  unfolding file_name_of_def rev_append by (subst takeWhile_append2) auto

lemma file_name_of_nonempty: "a \<noteq> [] \<Longrightarrow> last a \<noteq> CHR ''/'' \<Longrightarrow> file_name_of a \<noteq> []"
  by (cases a rule: rev_cases) (simp_all add: file_name_of_def)

lemma replace_fhetch:
  assumes "file_name_of p \<noteq> []"
  shows "replace_extension (p @ ''.fhetch'') ''.fhex'' = p @ ''.fhex''"
proof -
  have f: "file_name_of (p @ ''.fhetch'') = file_name_of p @ ''.fhetch''"
    by (rule file_name_of_append) simp
  have "length (file_name_of p) > 0" using assms by simp
  moreover have "rev (file_name_of p @ ''.fhetch'') = ''hctehf.'' @ rev (file_name_of p)" by simp
  ultimately show ?thesis
    by (auto simp: replace_extension_def path_stem_length_def f Let_def)
qed

text \<open>
  The binary trace of a named program lies at the name the replay index and the cache look for; a
  program without a name, whose directory the code provides for, gets \<open>.fhetch.fhex\<close>, which neither
  looks for.
\<close>

theorem binary_trace_path:
  "(nm \<noteq> [] \<and> last nm \<noteq> CHR ''/'' \<longrightarrow>
      primary_path dir nm BinaryPath = path_append dir (trace_file_name Binary nm)) \<and>
   primary_path dir [] BinaryPath = path_append dir ''.fhetch.fhex'' \<and>
   existing_trace_path (\<lambda>p. p = primary_path dir [] BinaryPath) dir [] = []"
proof (intro conjI impI)
  assume nm: "nm \<noteq> [] \<and> last nm \<noteq> CHR ''/''"
  have ne: "file_name_of (a @ nm) \<noteq> []" for a
    by (rule file_name_of_nonempty) (use nm in auto)
  have r: "replace_extension (a @ nm @ ''.fhetch'') ''.fhex'' = a @ nm @ ''.fhex''" for a
    using replace_fhetch [OF ne [of a]] by simp
  show "primary_path dir nm BinaryPath = path_append dir (trace_file_name Binary nm)"
    using r [of "[]"] r [of dir] r [of "dir @ ''/''"] nm
    by (auto simp: primary_path_def trace_file_name_def path_append_def Let_def)
next
  have f: "file_name_of (d @ ''.fhetch'') = file_name_of d @ ''.fhetch''" for d
    by (rule file_name_of_append) simp
  have "file_name_of d = []" if "d = [] \<or> last d = CHR ''/''" for d
    using that by (cases d rule: rev_cases) (auto simp: file_name_of_def)
  then have r: "replace_extension (d @ ''.fhetch'') ''.fhex'' = d @ ''.fhetch.fhex''" if "d = [] \<or> last d = CHR ''/''" for d
    using that by (simp add: replace_extension_def path_stem_length_def f)
  show p: "primary_path dir [] BinaryPath = path_append dir ''.fhetch.fhex''"
    using r [of dir] r [of "dir @ ''/''"] by (auto simp: primary_path_def path_append_def Let_def)
  show "existing_trace_path (\<lambda>p. p = primary_path dir [] BinaryPath) dir [] = []"
    unfolding p by (simp add: existing_trace_path_def path_append_def)
qed

theorem binary_trace_path_witness:
  "primary_path ''/tmp/x'' ''prog'' BinaryPath = ''/tmp/x/prog.fhex''"
  using binary_trace_path [of "''prog''" "''/tmp/x''"] by (simp add: path_append_def trace_file_name_def)

end
