(* ===== verification/ProjectReplay.thy ===== *)
theory ProjectReplay
  imports ReplayExamples FacadeExamples SessionTrace
begin

text \<open>
  From the session to the worker: the documents \<open>write_replay_json\<close> leaves tell a worker the ring
  dimension, the trace, every recorded output and the files of every recorded input; and a worker that
  is started on such a project answers.
\<close>

section \<open>The trace file\<close>

definition trace_extension :: "trace_path \<Rightarrow> string" where
  "trace_extension p = (case p of NoPath \<Rightarrow> [] | TextPath \<Rightarrow> ''.fhetch'' | BinaryPath \<Rightarrow> ''.fhex'')"

lemma no_separator_last: "CHR ''/'' \<notin> set nm \<Longrightarrow> nm \<noteq> [] \<Longrightarrow> last nm \<noteq> CHR ''/''"
  by (metis last_in_set)

lemma path_append_relative: "hd b \<noteq> CHR ''/'' \<Longrightarrow> \<exists>d. path_append a b = d @ b \<and> file_name_of d = []"
proof -
  have "file_name_of a = []" if "a = [] \<or> last a = CHR ''/''"
    using that by (cases a rule: rev_cases) (auto simp: file_name_of_def)
  moreover have "file_name_of (a @ ''/'') = []" by (simp add: file_name_of_def)
  ultimately show "hd b \<noteq> CHR ''/'' \<Longrightarrow> ?thesis"
    by (cases "a = [] \<or> last a = CHR ''/''")
      (auto simp: path_append_def intro: exI [of _ "a @ ''/''"])
qed

lemma primary_path_named:
  assumes "nm \<noteq> []" "CHR ''/'' \<notin> set nm" "p \<noteq> NoPath"
  shows "primary_path dir nm p = path_append dir (nm @ trace_extension p)"
proof -
  have ne: "file_name_of (a @ nm) \<noteq> []" for a
    by (rule file_name_of_nonempty) (use assms no_separator_last in auto)
  have r: "replace_extension (a @ nm @ ''.fhetch'') ''.fhex'' = a @ nm @ ''.fhex''" for a
    using replace_fhetch [OF ne [of a]] by simp
  show ?thesis
    using r [of "[]"] r [of dir] r [of "dir @ ''/''"] assms
    by (cases p) (auto simp: primary_path_def path_append_def trace_extension_def Let_def)
qed

lemma file_name_of_trace:
  assumes "nm \<noteq> []" "CHR ''/'' \<notin> set nm"
  shows "file_name_of (path_append dir (nm @ trace_extension p)) = nm @ trace_extension p"
proof -
  have s: "CHR ''/'' \<notin> set (nm @ trace_extension p)"
    using assms(2) by (auto simp: trace_extension_def split: trace_path.splits)
  have "hd (nm @ trace_extension p) \<noteq> CHR ''/''" using assms by (cases nm) auto
  then obtain d where "path_append dir (nm @ trace_extension p) = d @ nm @ trace_extension p" "file_name_of d = []"
    using path_append_relative by blast
  then show ?thesis using file_name_of_append [OF s, of d] by simp
qed

lemma stem_of_trace:
  assumes "nm \<noteq> []" "CHR ''/'' \<notin> set nm" "p \<noteq> NoPath"
  shows "stem_of (nm @ trace_extension p) = nm"
proof -
  have f: "file_name_of (nm @ e) = nm @ e" if "CHR ''/'' \<notin> set e" for e
    using file_name_of_append [of "nm @ e" "[]"] assms(2) that by (simp add: file_name_of_def)
  have fs: "file_name_of (nm @ ''.fhetch'') = nm @ ''.fhetch''" "file_name_of (nm @ ''.fhex'') = nm @ ''.fhex''"
    by (rule f, simp)+
  have "length nm > 0" using assms(1) by simp
  then show ?thesis
    using assms(3) by (cases p) (auto simp: stem_of_def path_stem_length_def fs Let_def trace_extension_def)
qed

section \<open>The documents read back\<close>

text \<open>The project's file system holds the documents of a session whose files could all be opened.\<close>

definition session_on_disk :: "json_env \<Rightarrow> 'ar project_fs \<Rightarrow> string \<Rightarrow> u64 list \<Rightarrow> 'h CompilerImpl \<Rightarrow> bool" where
  "session_on_disk je fs cwd trace_moduli c \<longleftrightarrow>
     (\<forall>f. je_opens je (path_append (get_program_directory cwd c) f)) \<and>
     list_all (\<lambda>(path, doc). pf_exists fs path \<and> pf_json fs path = Some doc) (write_replay_json je cwd trace_moduli c)"

text \<open>What the names and the ring dimension have to be.\<close>

definition session_named :: "'h CompilerImpl \<Rightarrow> bool" where
  "session_named c \<longleftrightarrow>
     full_program_name c \<noteq> [] \<and> CHR ''/'' \<notin> set (full_program_name c) \<and> cc_ring_dimension c \<noteq> 0 \<and>
     list_all (\<lambda>out. co_name out \<noteq> []) (captured_outputs (cc_captured c))"

lemma session_documents:
  assumes "session_on_disk je fs cwd tm c"
  defines "dir \<equiv> get_program_directory cwd c" and "prog \<equiv> full_program_name c"
  shows "pf_json fs (path_append dir ''fhetch_replay.json'') = Some (replay_json je dir prog tm c)"
    "pf_json fs (path_append dir (prog @ ''.outputs.json'')) = Some (outputs_index_json je prog c)"
    "pf_json fs (path_append dir (prog @ ''.inputs.json'')) = Some (inputs_index_json je prog c)"
    "pf_exists fs (path_append dir (prog @ ''.inputs.json''))"
proof -
  have "je_opens je (path_append dir f)" for f using assms(1) by (simp add: session_on_disk_def dir_def)
  moreover have "list_all (\<lambda>(path, doc). pf_exists fs path \<and> pf_json fs path = Some doc) (write_replay_json je cwd tm c)"
    using assms(1) by (simp add: session_on_disk_def)
  ultimately show "pf_json fs (path_append dir ''fhetch_replay.json'') = Some (replay_json je dir prog tm c)"
    "pf_json fs (path_append dir (prog @ ''.outputs.json'')) = Some (outputs_index_json je prog c)"
    "pf_json fs (path_append dir (prog @ ''.inputs.json'')) = Some (inputs_index_json je prog c)"
    "pf_exists fs (path_append dir (prog @ ''.inputs.json''))"
    by (simp_all add: write_replay_json_def Let_def flip: dir_def prog_def)
qed

lemma index_reads_back:
  assumes "session_on_disk je fs cwd tm c" "session_named c"
    and "cc_last_trace_path c = primary_path (get_program_directory cwd c) (full_program_name c) p" "p \<noteq> NoPath"
  shows "read_project_index fs (get_program_directory cwd c) =
    Inr (Some \<lparr>px_ring_dim = cc_ring_dimension c, px_trace_file = full_program_name c @ trace_extension p,
      px_prog = full_program_name c\<rparr>)"
proof -
  let ?dir = "get_program_directory cwd c" and ?prog = "full_program_name c"
  note n = assms(2) [unfolded session_named_def]
  have f: "file_name_of (cc_last_trace_path c) = ?prog @ trace_extension p"
    using n assms(3,4) by (simp add: primary_path_named file_name_of_trace)
  have s: "stem_of (?prog @ trace_extension p) = ?prog" using n assms(4) by (simp add: stem_of_trace)
  have "json_value json_u64 (crypto_context_json tm c) ''ring_dimension'' 0 = Inr (cc_ring_dimension c)"
    "json_value json_string (files_json je ?dir ?prog c) ''instructions'' [] = Inr (?prog @ trace_extension p)"
    by (simp_all add: json_value_def crypto_context_json_def files_json_def json_u64_def json_string_def f)
  moreover have "json_at (replay_json je ?dir ?prog tm c) ''crypto_context'' = Inr (crypto_context_json tm c)"
    "json_at (replay_json je ?dir ?prog tm c) ''files'' = Inr (files_json je ?dir ?prog c)"
    "json_contains (replay_json je ?dir ?prog tm c) ''crypto_context''"
    "json_contains (replay_json je ?dir ?prog tm c) ''files''"
    by (simp_all add: json_at_def json_contains_def replay_json_def)
  ultimately show ?thesis
    using session_documents(1) [OF assms(1)] n s by (simp add: read_project_index_def)
qed

lemma output_entry_reads_back:
  assumes "co_name out \<noteq> []"
  shows "read_output_entry (output_entry_json out) = Inr (Some (co_name out, co_addr_ids out))"
proof -
  let ?e = "\<lambda>j. JObject [(''poly_index'', JUnsigned (of_nat j)), (''elements'', JArray [JUnsigned (co_addr_ids out ! j)])]"
  have p: "poly_addresses (?e j) = Inr [co_addr_ids out ! j]" for j
    by (simp add: poly_addresses_def json_value_def json_items_def json_u64_def)
  have "map_res poly_addresses (map ?e js) = Inr (map (\<lambda>j. [co_addr_ids out ! j]) js)" for js
    by (induction js) (simp_all add: p)
  then show ?thesis
    using assms by (simp add: read_output_entry_def output_entry_json_def json_value_def json_string_def json_contains_def
        json_at_def json_items_def) (rule nth_equalityI, simp_all add: comp_def concat_map_singleton)
qed

lemma outputs_read_back:
  assumes "session_on_disk je fs cwd tm c" "session_named c"
  shows "read_output_probes fs (get_program_directory cwd c) (full_program_name c) =
    Inr (Some (map (\<lambda>out. (co_name out, co_addr_ids out)) (captured_outputs (cc_captured c))))"
proof -
  have "map_res read_output_entry (map output_entry_json os) = Inr (map (\<lambda>out. Some (co_name out, co_addr_ids out)) os)"
    if "list_all (\<lambda>out. co_name out \<noteq> []) os" for os
    using that by (induction os) (simp_all add: output_entry_reads_back)
  moreover have "List.map_filter id (map (\<lambda>out. Some (co_name out, co_addr_ids out)) os) =
      map (\<lambda>out. (co_name out, co_addr_ids out)) os" for os
    by (induction os) (simp_all add: List.map_filter_simps)
  ultimately show ?thesis
    using session_documents(2) [OF assms(1)] assms(2)
    by (simp add: read_output_probes_def outputs_index_json_def json_contains_def json_at_def json_items_def session_named_def)
qed

text \<open>
  An input has its two files, and loading the archive with the addresses stores its elements in the sink;
  these are what the facade leaves for a tagged object.
\<close>

definition input_on_disk :: "'ar replay_env \<Rightarrow> string \<Rightarrow> string \<Rightarrow> 'st sink \<Rightarrow> InputRecord \<Rightarrow> bool" where
  "input_on_disk env dir prog sink input \<longleftrightarrow>
     (let bin = path_append dir (prog @ ''.input_'' @ ci_name input @ ''.bin'');
          ids = path_append dir (prog @ ''.input_'' @ ci_name input @ ''.ids'') in
      pf_exists (rv_fs env) bin \<and> pf_exists (rv_fs env) ids \<and>
      (\<forall>s. load_ids_and_bin env (load_input_bin (rv_archive env) sink) bin ids s =
             (Inr True, store_elements sink (ci_elements input) s)))"

text \<open>The inputs the index lists; key material has files of its own.\<close>

definition indexed_inputs :: "'h CompilerImpl \<Rightarrow> InputRecord list" where
  "indexed_inputs c = filter (\<lambda>input. ci_name input \<notin> set key_input_names) (captured_inputs (cc_captured c))"

definition indexed_elements :: "'h CompilerImpl \<Rightarrow> PolyElement list" where
  "indexed_elements c = concat (map ci_elements (indexed_inputs c))"

lemma store_elements_append:
  "store_elements sink (xs @ ys) s = store_elements sink ys (store_elements sink xs s)"
  by (simp add: store_elements_def)

lemma index_entry_loads:
  assumes "input_on_disk env dir prog sink input"
  shows "load_index_entry env dir sink (input_index_json prog input) s = (Inr True, store_elements sink (ci_elements input) s)"
  using assms
  by (simp add: load_index_entry_def input_index_json_def json_value_def json_string_def input_on_disk_def Let_def)

lemma index_entries_load:
  assumes "list_all (input_on_disk env dir prog sink) inputs"
  shows "load_index_entries env dir sink (map (input_index_json prog) inputs) s =
    (Inr True, store_elements sink (concat (map ci_elements inputs)) s)"
  using assms
  by (induction inputs arbitrary: s)
    (simp_all add: index_entry_loads store_elements_append, simp add: store_elements_def)

lemma inputs_read_back:
  assumes "session_on_disk je (rv_fs env) cwd tm c"
    and "list_all (input_on_disk env (get_program_directory cwd c) (full_program_name c) sink) (indexed_inputs c)"
  shows "load_source_inputs env (get_program_directory cwd c) (full_program_name c) sink s =
    (Inr True, store_elements sink (indexed_elements c) s)"
  using session_documents(3,4) [OF assms(1)] index_entries_load [OF assms(2)]
  by (simp add: load_source_inputs_def inputs_index_json_def Let_def json_contains_def json_at_def json_items_def
      indexed_inputs_def indexed_elements_def)

text \<open>
  What the facade leaves for a tagged object is such an input, for a worker that sees the facade's files
  and runs on a host of the same byte order.
\<close>

definition sees_facade :: "('ao \<Rightarrow> 'ar) \<Rightarrow> 'ao facade_env \<Rightarrow> 'ao disk \<Rightarrow> 'ar replay_env \<Rightarrow> bool" where
  "sees_facade opened fenv d env \<longleftrightarrow>
     rv_host_le env = fe_host_le fenv \<and> rv_word_limit env = fe_word_limit fenv \<and>
     (\<forall>path. dk_ids d path \<noteq> None \<longrightarrow> pf_exists (rv_fs env) path \<and> pf_bytes (rv_fs env) path = dk_ids d path) \<and>
     (\<forall>path ao. dk_bins d path = Some ao \<longrightarrow> pf_exists (rv_fs env) path \<and> pf_archive (rv_fs env) path = Some (opened ao))"

lemma tagged_input_on_disk:
  assumes "sees_facade opened fenv (fc_disk st) env" "ps \<noteq> []"
    and "\<And>s. reloads (load_input_bin (rv_archive env) sink) opened fenv sink s (ci_name input)
        (input_ids fenv st (ci_name input)) (input_bin fenv st (ci_name input)) ps st"
    and "input_view (cl_captured (fc_client st)) (ci_name input) = Some (k, ci_elements input)"
  shows "input_on_disk env (program_directory fenv (fc_client st)) (full_program_name (fc_impl st)) sink input"
proof -
  let ?bin = "input_bin fenv st (ci_name input)" and ?ids = "input_ids fenv st (ci_name input)"
  have r: "\<exists>ao. map pe_addr_id (ci_elements input) = addresses (fc_client st) ps \<and>
      read_addr_ids fenv ?ids (fc_disk st) = Inr (map pe_addr_id (ci_elements input)) \<and> dk_bins (fc_disk st) ?bin = Some ao \<and>
      load_input_bin (rv_archive env) sink (Some (opened ao)) (map pe_addr_id (ci_elements input)) s =
        (True, store_elements sink (ci_elements input) s)" for s
    using assms(3) [of s] assms(4) unfolding reloads_def by auto
  then have ids: "read_addr_ids fenv ?ids (fc_disk st) = Inr (map pe_addr_id (ci_elements input))"
    "map pe_addr_id (ci_elements input) \<noteq> []" using assms(2) by (auto simp: addresses_def)
  then have "dk_ids (fc_disk st) ?ids \<noteq> None" by (cases "dk_ids (fc_disk st) ?ids") (auto simp: read_addr_ids_def read_ids_def)
  then have f: "pf_exists (rv_fs env) ?ids" "pf_bytes (rv_fs env) ?ids = dk_ids (fc_disk st) ?ids"
    using assms(1) by (simp_all add: sees_facade_def)
  have "load_ids_and_bin env (load_input_bin (rv_archive env) sink) ?bin ?ids s =
      (Inr True, store_elements sink (ci_elements input) s) \<and> pf_exists (rv_fs env) ?bin" for s
    using r [of s] ids(1) f(2) assms(1)
    by (auto simp: load_ids_and_bin_def read_addr_ids_def sees_facade_def)
  then show ?thesis using f(1) by (simp add: input_on_disk_def project_file_def)
qed

text \<open>
  C12: a worker finds in the project what the session recorded.  For a session with a name that is a
  file name, a ring dimension and named outputs, whose documents were written and whose inputs have their
  files: the index gives the ring dimension, the trace file the session wrote and the name of the
  program; the outputs index gives every recorded output with its addresses, in order; and loading the
  inputs stores exactly the captured elements, in order.
\<close>

theorem session_project_reloads:
  assumes "session_on_disk je (rv_fs env) cwd tm c" "session_named c"
    and "cc_last_trace_path c = primary_path (get_program_directory cwd c) (full_program_name c) p" "p \<noteq> NoPath"
    and "list_all (input_on_disk env (get_program_directory cwd c) (full_program_name c) sink) (indexed_inputs c)"
  shows "\<exists>idx. read_project_index (rv_fs env) (get_program_directory cwd c) = Inr (Some idx) \<and>
    px_ring_dim idx = cc_ring_dimension c \<and> px_prog idx = full_program_name c \<and>
    path_append (get_program_directory cwd c) (px_trace_file idx) = cc_last_trace_path c \<and>
    read_output_probes (rv_fs env) (get_program_directory cwd c) (px_prog idx) =
      Inr (Some (map (\<lambda>out. (co_name out, co_addr_ids out)) (captured_outputs (cc_captured c)))) \<and>
    load_source_inputs env (get_program_directory cwd c) (px_prog idx) sink s =
      (Inr True, store_elements sink (indexed_elements c) s)"
  using index_reads_back [OF assms(1-4)] outputs_read_back [OF assms(1,2)] inputs_read_back [OF assms(1,5)] assms(2-4)
  by (simp add: session_named_def primary_path_named)

section \<open>The run\<close>

lemma populate_stored:
  "snd (store_elements (populate_sink needed) es st) = snd st \<union> (needed \<inter> pe_addr_id ` set es)"
  by (induction es arbitrary: st) (auto simp: store_elements_def populate_sink_def split: prod.split)

definition needed_addresses :: "Program \<Rightarrow> u64 set" where
  "needed_addresses p = set (get_read_before_write_addresses (loaded 1 p))"

lemma needed_loaded: "set (get_read_before_write_addresses (loaded n p)) = needed_addresses p"
  by (simp add: needed_addresses_def get_read_before_write_addresses_def loaded_def)

text \<open>The simulator that holds the elements the program reads.\<close>

definition supplied :: "PolyElement list \<Rightarrow> u64 \<Rightarrow> Program \<Rightarrow> SimImpl" where
  "supplied es n p = fst (store_elements (populate_sink (needed_addresses p)) es (loaded n p, {}))"

lemma populate_complete:
  assumes "\<And>s. load_source_inputs env dir prog (populate_sink (needed_addresses p)) s =
      (Inr True, store_elements (populate_sink (needed_addresses p)) es s)"
    and "\<And>s. load_source_keys env dir prog (populate_sink (needed_addresses p)) s =
      (Inr True, store_elements (populate_sink (needed_addresses p)) ks s)"
    and "needed_addresses p \<subseteq> pe_addr_id ` set (es @ ks)"
  shows "populate_inputs env dir prog (loaded n p) = (Inr True, supplied (es @ ks) n p)"
proof -
  let ?N = "needed_addresses p"
  have "snd (store_elements (populate_sink ?N) (es @ ks) (loaded n p, {})) = ?N"
    unfolding populate_stored using assms(3) by auto
  then show ?thesis
    by (simp add: populate_inputs_def needed_loaded load_and_def assms(1,2) supplied_def split_beta flip: store_elements_append)
qed

lemma ring_ok_populated:
  assumes "populate_inputs env dir prog (loaded n p) = (Inr True, sim)" "unat n = 2 ^ e" "e \<le> 31"
  shows "ring_ok (sim\<lparr>im_live_out := live\<rparr>)" "im_ring_dim sim = n"
proof -
  note cover = populate_inputs_covers [OF assms(1)]
  have "im_ring_dim sim = n" "mem_ring_dim (im_memory sim) = unat n"
    using cover [THEN conjunct1, THEN arg_cong, of im_ring_dim] cover [THEN conjunct2, THEN conjunct1]
    by (simp_all add: loaded_def set_ring_dimension_def set_ring_dim_def SimImpl_init_def)
  then show "ring_ok (sim\<lparr>im_live_out := live\<rparr>)" "im_ring_dim sim = n"
    using assms(2,3) by (auto simp: ring_ok_def)
qed

lemma run_populated_answers:
  assumes "ring_ok (pop\<lparr>im_live_out := set (concat (map snd outputs))\<rparr>)" "im_ring_dim pop \<noteq> 0" "rn_outputs_open rn"
    and "execute (rn_backend rn) (pop\<lparr>im_live_out := set (concat (map snd outputs)), im_free_after := []\<rparr>) = Inr (r, t)"
    and "sim_errors r = 0"
  shows "\<exists>sim. run_populated rn outputs pop =
      (Inr (rn_context_ok rn \<and> rn_probes_written rn, Some (local_outputs_json outputs sim)), sim) \<and>
    (\<forall>a \<in> set (concat (map snd outputs)). get_polynomial a sim = get_polynomial a t)"
proof -
  let ?s = "pop\<lparr>im_live_out := set (concat (map snd outputs))\<rparr>"
  let ?c = "compute_liveness (rn_disable_frees rn) (rn_free_order rn) ?s"
  obtain sim where sim: "execute (rn_backend rn) ?c = Inr (r, sim)"
    "\<forall>a \<in> im_live_out ?s. get_polynomial a sim = get_polynomial a t"
    using execute_agree [OF assms(1), of "rn_backend rn" "rn_disable_frees rn" "rn_free_order rn"] assms(4) by auto
  have "im_ring_dim ?c \<noteq> 0" using assms(2) by (simp add: compute_liveness_def Let_def)
  then have "sim_run (rn_backend rn) ?c = Inr (r, sim)" using sim(1) by (simp add: sim_run_def)
  then show ?thesis
    using sim(2) assms(3,5) by (simp add: run_populated_def finish_replay_def set_live_out_addresses_def)
qed

text \<open>
  C11: a recorded session is answered.  A worker that is started on the project of a session, whose trace
  reads back, whose live-in addresses are all supplied by the captured inputs and keys, and whose plain
  execution over these inputs has no errors, runs to its end and writes an outputs document; it lists
  every recorded output under its name, with the values of the plain execution.
\<close>

theorem recorded_session_is_replayed:
  assumes dir_def: "dir = get_program_directory cwd c" and prog_def: "prog = full_program_name c"
    and docs: "session_on_disk je (rv_fs env) cwd tm c" "session_named c"
    and path: "cc_last_trace_path c = primary_path dir prog p" "p \<noteq> NoPath"
    and trace: "read_fhetch_file (rv_host_le env) (rv_text env) (cc_last_trace_path c)
        (pf_bytes (rv_fs env) (cc_last_trace_path c)) = Inr res" "rr_ok res" "instructions (rr_program res) \<noteq> []"
    and inputs: "list_all (input_on_disk env dir prog (populate_sink (needed_addresses (rr_program res)))) (indexed_inputs c)"
    and keys: "\<And>s. load_source_keys env dir prog (populate_sink (needed_addresses (rr_program res))) s =
        (Inr True, store_elements (populate_sink (needed_addresses (rr_program res))) ks s)"
    and cover: "needed_addresses (rr_program res) \<subseteq> pe_addr_id ` set (indexed_elements c @ ks)"
    and ring: "unat (cc_ring_dimension c) = 2 ^ e" "e \<le> 31"
    and run: "execute (rn_backend rn) ((supplied (indexed_elements c @ ks) (cc_ring_dimension c) (rr_program res))
        \<lparr>im_live_out := set (concat (map co_addr_ids (captured_outputs (cc_captured c)))), im_free_after := []\<rparr>) = Inr (r, t)"
      "sim_errors r = 0"
    and host: "pf_is_directory (rv_fs env) dir" "rn_outputs_open rn"
  shows "\<exists>sim. run_local_replay_from_project env rn dir =
      (Inr (rn_context_ok rn \<and> rn_probes_written rn,
        Some (local_outputs_json (map (\<lambda>out. (co_name out, co_addr_ids out)) (captured_outputs (cc_captured c))) sim)), sim) \<and>
    (\<forall>out \<in> set (captured_outputs (cc_captured c)). \<forall>a \<in> set (co_addr_ids out).
      get_polynomial a sim = get_polynomial a t)"
proof -
  let ?outs = "map (\<lambda>out. (co_name out, co_addr_ids out)) (captured_outputs (cc_captured c))"
  let ?sup = "supplied (indexed_elements c @ ks) (cc_ring_dimension c) (rr_program res)"
  have n: "map snd ?outs = map co_addr_ids (captured_outputs (cc_captured c))" by simp
  have populated: "populate_inputs env dir prog (loaded (cc_ring_dimension c) (rr_program res)) = (Inr True, ?sup)"
    by (rule populate_complete [OF inputs_read_back [OF docs(1) inputs [unfolded dir_def prog_def], folded dir_def prog_def] keys cover])
  obtain sim where sim: "run_populated rn ?outs ?sup =
      (Inr (rn_context_ok rn \<and> rn_probes_written rn, Some (local_outputs_json ?outs sim)), sim)"
    "\<forall>a \<in> set (concat (map snd ?outs)). get_polynomial a sim = get_polynomial a t"
    using run_populated_answers [where outputs = ?outs and rn = rn and t = t and r = r and pop = ?sup, unfolded n,
        OF ring_ok_populated(1) [OF populated ring] _ host(2) run] ring_ok_populated(2) [OF populated ring] docs(2)
    by (auto simp: session_named_def)
  have lt: "load_trace (Inr res) (set_ring_dimension (cc_ring_dimension c) SimImpl_init) =
      Inr (True, loaded (cc_ring_dimension c) (rr_program res))"
    using trace(2,3) by (simp add: load_trace_def loaded_def)
  have tf: "path_append dir (prog @ trace_extension p) = cc_last_trace_path c"
    using docs(2) path by (simp add: session_named_def primary_path_named prog_def)
  have "run_local_replay_from_project env rn dir = run_populated rn ?outs ?sup"
    using index_reads_back [OF docs path [unfolded dir_def prog_def], folded dir_def prog_def]
      outputs_read_back [OF docs, folded dir_def prog_def] host(1) lt populated tf trace(1)
    by (simp add: run_local_replay_from_project_def Let_def)
  then show ?thesis using sim by auto
qed

section \<open>The project of a session\<close>

definition project_session :: "unit CompilerImpl" where
  "project_session = CompilerImpl_init\<lparr>cc_program_name := ''t'', cc_program_dir := ''p'', cc_ring_dimension := 2,
     cc_last_trace_path := ''p/t.fhex'',
     cc_captured := Captured_init\<lparr>
       captured_inputs := [\<lparr>ci_name = ''x'', ci_kind = SRP, ci_source_path = [], ci_source_mtime = 0,
         ci_elements = [\<lparr>pe_addr_id = 5, pe_modulus = 97, pe_values = [10, 20]\<rparr>], ci_element_starts = [0]\<rparr>],
       captured_outputs := [\<lparr>co_name = ''o'', co_kind = SRP, co_addr_ids = [3], co_moduli = [97], co_element_starts = [0]\<rparr>]\<rparr>\<rparr>"

definition project_json_env :: json_env where
  "project_json_env = \<lparr>je_opens = (\<lambda>p. True), je_exists = (\<lambda>p. False), je_inputs_time = 0, je_outputs_time = 0, je_millis = 0,
     je_client_version = ''1'', je_fhetch_version = ''1''\<rparr>"

definition project_documents :: "(string \<times> json) list" where
  "project_documents = write_replay_json project_json_env ''c'' [] project_session"

definition project_env :: "bytes \<Rightarrow> arch_item list replay_env" where
  "project_env trace =
     \<lparr>rv_archive = list_in,
      rv_fs = \<lparr>pf_exists = (\<lambda>p. p \<in> fst ` set project_documents \<union> {''p/t.input_x.bin'', ''p/t.input_x.ids''}),
        pf_is_directory = (\<lambda>p. p = ''p''), pf_archive = [''p/t.input_x.bin'' \<mapsto> ciphertext_body list_out copy_input []],
        pf_bytes = [''p/t.input_x.ids'' \<mapsto> addr_ids_bytes True [5], ''p/t.fhex'' \<mapsto> trace],
        pf_json = map_of project_documents\<rparr>,
      rv_host_le = True, rv_text = example_text, rv_word_limit = 10\<rparr>"

lemma project_names:
  "get_program_directory cwd project_session = ''p''" "full_program_name project_session = ''t''"
  "session_named project_session" "cc_last_trace_path project_session = primary_path ''p'' ''t'' BinaryPath"
  by (simp_all add: project_session_def CompilerImpl_init_def get_program_directory_def full_program_name_def
      session_named_def primary_path_named trace_extension_def path_append_def)

lemma project_on_disk: "session_on_disk project_json_env (rv_fs (project_env trace)) ''c'' [] project_session"
proof -
  have "pf_exists (rv_fs (project_env trace)) p" "pf_json (rv_fs (project_env trace)) p = map_of project_documents p"
    if "p \<in> fst ` set project_documents" for p
    using that by (simp_all add: project_env_def)
  moreover have "distinct (map fst project_documents)"
    by (simp add: project_documents_def write_replay_json_def project_names project_json_env_def path_append_def Let_def)
  ultimately have "list_all (\<lambda>(path, doc). pf_exists (rv_fs (project_env trace)) path \<and>
      pf_json (rv_fs (project_env trace)) path = Some doc) project_documents"
    by (force simp: list_all_iff)
  moreover have "je_opens project_json_env f" for f by (simp add: project_json_env_def)
  ultimately show ?thesis by (simp add: session_on_disk_def project_documents_def)
qed

lemma project_inputs:
  "list_all (input_on_disk (project_env trace) ''p'' ''t'' sink) (indexed_inputs project_session)"
  "indexed_elements project_session = [\<lparr>pe_addr_id = 5, pe_modulus = 97, pe_values = [10, 20]\<rparr>]"
proof -
  have ids: "read_ids True 10 (Some (addr_ids_bytes True [5])) = Inr [5]" by (rule read_ids_bytes) simp_all
  show "list_all (input_on_disk (project_env trace) ''p'' ''t'' sink) (indexed_inputs project_session)"
    by (simp add: indexed_inputs_def project_session_def key_input_names_def input_on_disk_def project_env_def path_append_def
        load_ids_and_bin_def ids copy_input_loads store_elements_def Let_def)
  show "indexed_elements project_session = [\<lparr>pe_addr_id = 5, pe_modulus = 97, pe_values = [10, 20]\<rparr>]"
    by (simp add: indexed_elements_def indexed_inputs_def project_session_def key_input_names_def)
qed

theorem session_project_reloads_witness:
  "\<exists>idx. read_project_index (rv_fs (project_env [])) ''p'' = Inr (Some idx) \<and> px_ring_dim idx = 2 \<and> px_prog idx = ''t'' \<and>
     path_append ''p'' (px_trace_file idx) = ''p/t.fhex'' \<and>
     read_output_probes (rv_fs (project_env [])) ''p'' (px_prog idx) = Inr (Some [(''o'', [3])]) \<and>
     load_source_inputs (project_env []) ''p'' (px_prog idx) list_sink [] = (Inr True, [(5, [10, 20], 97)])"
proof -
  have ne: "BinaryPath \<noteq> NoPath" by simp
  have f: "cc_ring_dimension project_session = 2" "cc_last_trace_path project_session = ''p/t.fhex''"
    "map (\<lambda>out. (co_name out, co_addr_ids out)) (captured_outputs (cc_captured project_session)) = [(''o'', [3])]"
    by (simp_all add: project_session_def)
  show ?thesis
    using session_project_reloads [where je = project_json_env and env = "project_env []" and cwd = "''c''" and tm = "[]" and
        c = project_session and p = BinaryPath and sink = list_sink and s = "[]", unfolded project_names(1,2),
        OF project_on_disk project_names(3,4) ne project_inputs(1)]
    by (auto simp: f project_inputs(2) store_elements_def list_sink_def)
qed

theorem recorded_session_is_replayed_witness:
  "\<exists>trace t sim. run_local_replay_from_project (project_env trace) copy_run ''p'' =
      (Inr (True, Some (local_outputs_json [(''o'', [3])] sim)), sim) \<and> get_polynomial 3 sim = get_polynomial 3 t"
proof -
  obtain trace res l where t: "project_trace (copy_env trace) ''p'' copy_index = Inr res" "rr_ok res"
    "instructions (rr_program res) = [copy_inst\<lparr>line_number := l\<rparr>]"
    using copy_trace_reads by blast
  let ?p = "rr_program res"
  have path: "cc_last_trace_path project_session = ''p/t.fhex''" by (simp add: project_session_def)
  have read: "read_fhetch_file (rv_host_le (project_env trace)) (rv_text (project_env trace)) (cc_last_trace_path project_session)
      (pf_bytes (rv_fs (project_env trace)) (cc_last_trace_path project_session)) = Inr res"
    using t(1) by (simp add: project_trace_def copy_env_def copy_fs_def copy_index_def path_append_def project_env_def path)
  have needed: "needed_addresses ?p = {5}"
    unfolding needed_addresses_def get_read_before_write_addresses_def loaded_def by (simp add: t(3) classify_copy)
  have sup: "supplied (indexed_elements project_session @ []) (cc_ring_dimension project_session) ?p = copy_loaded ?p"
    unfolding supplied_def needed project_inputs(2)
    by (simp add: store_elements_def populate_sink_def copy_loaded_def project_session_def)
  have outs: "map co_addr_ids (captured_outputs (cc_captured project_session)) = [[3]]"
    "map (\<lambda>out. (co_name out, co_addr_ids out)) (captured_outputs (cc_captured project_session)) = [(''o'', [3])]"
    by (simp_all add: project_session_def)
  have keys: "load_source_keys (project_env trace) ''p'' ''t'' (populate_sink (needed_addresses ?p)) s =
      (Inr True, store_elements (populate_sink (needed_addresses ?p)) [] s)" for s
    by (simp add: load_source_keys_def load_and_def load_with_def project_env_def path_append_def project_documents_def
        write_replay_json_def project_names project_json_env_def store_elements_def Let_def)
  obtain r u where run: "execute exact_backend (copy_loaded ?p\<lparr>im_live_out := {3}, im_free_after := []\<rparr>) = Inr (r, u)" "sim_errors r = 0"
    using copy_runs [OF t(3)] by (auto simp: sim_run_def set_live_out_addresses_def split: if_splits)
  have rings: "unat (cc_ring_dimension project_session) = 2 ^ 1" "(1 :: nat) \<le> 31" by (simp_all add: project_session_def)
  have "\<exists>sim. run_local_replay_from_project (project_env trace) copy_run ''p'' =
      (Inr (rn_context_ok copy_run \<and> rn_probes_written copy_run, Some (local_outputs_json
         (map (\<lambda>out. (co_name out, co_addr_ids out)) (captured_outputs (cc_captured project_session))) sim)), sim) \<and>
    (\<forall>out \<in> set (captured_outputs (cc_captured project_session)). \<forall>a \<in> set (co_addr_ids out).
       get_polynomial a sim = get_polynomial a u)"
  proof (rule recorded_session_is_replayed [OF project_names(1) [symmetric, of "''c''"] project_names(2) [symmetric]
        project_on_disk project_names(3,4) _ read t(2) _ project_inputs(1) keys _ rings _ run(2)])
    show "execute (rn_backend copy_run) ((supplied (indexed_elements project_session @ []) (cc_ring_dimension project_session) ?p)
        \<lparr>im_live_out := set (concat (map co_addr_ids (captured_outputs (cc_captured project_session)))), im_free_after := []\<rparr>) = Inr (r, u)"
      unfolding sup outs(1) using run(1) by (simp add: copy_run_def)
  qed (simp_all add: t(3) needed project_inputs(2), simp_all add: project_env_def copy_run_def)
  then show ?thesis unfolding outs(2) by (auto simp: project_session_def copy_run_def)
qed

end
