(* ===== verification/Spec2Isabelle.thy ===== *)
theory Spec2Isabelle
  imports TraceFile TextFile ApiClient ApiModuli ApiHandles RescaleReplay ProbeReplay DriveRun ProjectReplay
begin

text \<open>
  A verification library for the FHETCH toolchain.

  \<^bold>\<open>The program.\<close>  A client builds computations over polynomials of a residue number system
  through the recording interface (\<open>include/niobium/fhetch_api.h\<close>, \<open>src/fhetch_api.cpp\<close>), or lets an
  instrumented OpenFHE do so through the probes (\<open>src/probes.cpp\<close>).  Both allocate 64-bit addresses for
  polynomials and hand instructions to the recorder (\<open>src/trace_writer.cpp\<close>), which interns moduli in a
  table.  The session (\<open>src/compiler.cpp\<close>, class \<open>Compiler\<close>) starts and stops the recorder, keeps the
  records of the tagged inputs and outputs, and leaves a project directory: the trace, in a text form
  (\<open>src/fhetch_writer.cpp\<close>, \<open>src/fhetch_reader.cpp\<close>) and a binary one (\<open>src/fhetch_encoding.cpp\<close>), a
  JSON index, and the files in which the facade (\<open>src/auto_facade.cpp\<close>, \<open>src/cereal_io.h\<close>) stores the
  tagged OpenFHE objects.  A trace is executed by the simulator (\<open>src/fhetch_sim/\<close>), in the session's
  process or in a worker that loads the project from disk (\<open>src/local_replay.cpp\<close>,
  \<open>src/fhetch_sim/main.cpp\<close>); the computed values come back as an outputs document from which the facade
  rebuilds result objects.  The trace driver (\<open>src/fhetch_parser.cpp\<close>) reads a trace and records it
  again through the interface.

  \<^bold>\<open>Theories and the code they model.\<close>  Definitions carry the names of the functions and types they
  translate; a name that HOL already uses has a suffix.

  \<^item> \<open>Prelude\<close>: fixed-width words for the C++ integer types, the error monad (\<open>cpp_error + 'a\<close>, an
    exception or a step outside the language on the left), the collections of rewrite rules and the
    shared facts about words, lists and byte order.
  \<^item> \<open>FhetchIr\<close>: \<open>fhetch_ir.h\<close>; opcodes with their table, operands, instructions, programs.
    \<open>Checks\<close>: \<open>checks.h\<close>; compatibility of polynomials, primality tests and roots of unity.
  \<^item> \<open>FhexFormat\<close>, \<open>FhexCodec\<close>: \<open>fhetch_encoding.h\<close> and \<open>fhetch_encoding.cpp\<close>; the container, byte by
    byte, on a host of either byte order.  \<open>FhexRoundTrip\<close>, \<open>FhexMeta\<close>, \<open>FhexCorrect\<close>: its theorems.
  \<^item> \<open>CppText\<close>, \<open>FhetchWriter\<close>, \<open>FhetchReader\<close>: the text form and the reader of both forms; \<open>TextTokens\<close>,
    \<open>TextRoundTrip\<close>, \<open>TextFile\<close>: what is printed is read back.
  \<^item> \<open>TraceWriter\<close>, \<open>TraceFile\<close>: the recorder (\<open>trace_writer.h\<close>, \<open>trace_writer.cpp\<close>) and the files it
    writes.  The modulus table is an interface (locale \<open>modulus_registry\<close>), interpreted on the code's
    table.
  \<^item> \<open>SimMemory\<close>, \<open>Simulator\<close>: \<open>fhetch_sim/memory.h\<close>, \<open>simulator.h\<close> and \<open>simulator.cpp\<close>.  \<open>SimSpec\<close>,
    \<open>Kernels\<close>, \<open>Liveness\<close>, \<open>KernelMirror\<close>: accounting and live-in addresses, the rotation and
    automorphism kernels over the negacyclic ring, the transparency of the liveness pass, and runs over
    renamed addresses.  \<open>ModularBackend\<close>: the interface to OpenFHE's vector arithmetic as a locale,
    interpreted on an exact backend.
  \<^item> \<open>ApiState\<close>, \<open>FhetchApi\<close>: the allocator, registries, handles and every \<open>sr_\<close> and \<open>mr_\<close> function of
    \<open>fhetch_api.cpp\<close>; \<open>ApiTrace\<close>, \<open>ApiClient\<close>, \<open>ApiModuli\<close>: the traces of arbitrary client programs and
    the moduli bound to addresses; \<open>ApiHandles\<close>: the shared pointers a client holds, and when the registry
    may be taken by contents; \<open>ApiReplay\<close>: recorded instructions, executed.
  \<^item> \<open>FbcArith\<close>, \<open>FbcGadgets\<close>, \<open>FbcCrt\<close>, \<open>FbcSemantics\<close>, \<open>FbcReplay\<close>, \<open>RescaleReplay\<close>: the fast base
    conversion, the rescale and the digit decomposition of \<open>fhetch_api.cpp\<close>, their constants, and what
    the recorded instructions compute.
  \<^item> \<open>Capture\<close>, \<open>ApiSync\<close>, \<open>Session\<close>: the captured records, \<open>sync_fhetch_state_to_compiler\<close> and the
    class \<open>Compiler\<close>; \<open>SessionInv\<close>, \<open>SessionProps\<close>, \<open>SessionTrace\<close>: reachable states and what stopping
    leaves behind.
  \<^item> \<open>ReplayJson\<close>, \<open>Replay\<close>: \<open>write_replay_json\<close>, the outputs document, the choice between the simulator
    and a worker, and the in-process replay of \<open>compiler.cpp\<close>; \<open>LocalReplay\<close>: the worker;
    \<open>ReplayProps\<close>, \<open>ReplayExamples\<close>: what both compute; \<open>ProjectReplay\<close>: a worker on the project of a
    recorded session.
  \<^item> \<open>AutoFacade\<close>: \<open>auto_facade.cpp\<close> and the output half of \<open>cereal_io.h\<close>; \<open>Archives\<close>, \<open>FacadeFiles\<close>,
    \<open>FacadeProps\<close>, \<open>FacadeResult\<close>, \<open>FacadeExamples\<close>: the files read back and the results rebuilt.
  \<^item> \<open>Probes\<close>, \<open>ProbeAlloc\<close>, \<open>ProbeReplay\<close>: the probes, the addresses they hand out, and what a traced
    OpenFHE program computes when it is replayed.
  \<^item> \<open>TraceDriver\<close>, \<open>TraceRedrive\<close>, \<open>DriveReplay\<close>, \<open>DriveRun\<close>: \<open>fhetch_parser.cpp\<close> and the run of a
    re-driven trace beside the run of the original.

  \<^bold>\<open>State.\<close>  A class or a group of globals is a record: \<open>TraceWriter\<close> for the recorder, \<open>SimImpl\<close> for a
  simulator, \<open>ApiState\<close> for the registries of the interface, \<open>CompilerImpl\<close> for the session, \<open>Client\<close>
  for the session together with the probes, \<open>Facade\<close> for all of these and the project's files.  A
  method takes the record and returns it updated; one that can throw returns the state the exception
  leaves where that state is observable.  Machine integers keep their width and wrap.

  \<^bold>\<open>What is shown.\<close>
  \<^item> Formats: programs, metadata and specification identities survive the binary container between
    hosts of any byte order, instructions survive the text form, and a decoder reads no byte outside its
    input.  A recorded trace survives the recorder's file in both formats, up to what the form
    carries; \<open>stop\<close> leaves a trace that reads back.
  \<^item> Recorder and interface: the recorder's table and trace keep their invariant; every client program
    records a trace in single assignment form; the registries agree with the trace; a rejected root
    changes nothing.  Tagged values are captured once, under the addresses they have in the trace, and
    slices taken from a record recombine to it.
  \<^item> Simulator: running with the liveness pass is the same as running without it, freed addresses are
    never read again, and the kernels written in this repository compute rotation by a power of the
    variable and the Galois automorphism.
  \<^item> Gadgets: their instructions, executed, give the residues of the base conversion up to the known
    multiple of the modulus, and the rescaled number up to the known error.
  \<^item> Session: reachable states keep an invariant; the branches that break the recording are shown as
    theorems about the states they reach.
  \<^item> Replay: the propagation of inputs along copies ends, and fills exactly the connected addresses; a
    worker that reports success has not used a zero-filled address, and its outputs, as those of the
    in-process replay, are the values of the plain execution of the trace.  The documents a session
    writes lead a worker to the trace, the inputs and the outputs, and a worker whose inputs are complete
    answers.
  \<^item> Facade: the files of a tagged ciphertext, of the keys and of the bootstrap precomputations load, in
    the worker, exactly the polynomials the session captured at their addresses; a result is rebuilt
    element by element and only if every element was computed.
  \<^item> Probes: without moves two identities never share an address; the memory at the address of an
    identity holds the vector OpenFHE computed, for the programs that do not overwrite a copied value;
    theorems show what happens in the two excluded cases.
  \<^item> Driver: a re-driven trace ends with the same values as the original at every address, except where
    a zero-initialising instruction hides an input, which a theorem shows.

  \<^bold>\<open>Termination.\<close>  No definition has fuel.  Loops over containers are structural recursion, numeric loops
  (\<open>powmod\<close>, hexadecimal digits, tokens of a line) have a measure; the propagation loop of the replay
  runs until nothing changes and is a \<open>partial_function (option)\<close>, whose value is shown to be defined
  for every list of copies and every memory.

  \<^bold>\<open>Parameters.\<close>  OpenFHE's vector arithmetic and transforms (\<open>backend\<close>; the laws used are those of the
  locale \<open>modular_backend\<close>), cereal's archives (\<open>archive\<close> and \<open>out_archive\<close>; \<open>archive_laws\<close> says that an
  archive gives its items back in order, and the list of items is an instance), the JSON text of
  nlohmann's library (documents are values of the datatype \<open>json\<close>), \<open>strtod\<close>, the clock, file
  contents, modification times, environment variables and child processes.  They are fields of
  environment records, so that each theorem shows which of them it uses.

  \<^bold>\<open>Bounds.\<close>  The round trips assume what the formats can hold: addresses of 32 bits, strings and tables
  with lengths of 32 bits, operands that belong to the form of the opcode.  The facade's theorems assume
  that the address counter does not wrap and that a record holds fewer than \<open>2 ^ 32\<close> towers.  The
  gadget theorems assume distinct primes of 64 bits; products are taken at 128 bits, as in the code.

  \<^bold>\<open>Not modelled.\<close>  Console output and timing; the Python binding, the examples and the tests; the
  version constants that the build sets; the internals of OpenFHE, cereal and nlohmann's library; the
  serialization of the crypto context, which the code passes to OpenFHE whole; the re-entry flag of the
  probes (\<open>g_in_probe\<close>), which only matters when OpenFHE calls back into a probe from a probe; the
  debugging output that follows one address and \<open>save_polynomial_json\<close>, which writes one value for
  inspection; the weak hooks and the JSON loaders that do nothing.  The methods of the
  recorder hold its mutex for their whole body, so a run of several threads is a sequence of calls;
  data races outside it are not modelled.
\<close>

end
